(* ===== verification/Switchyard_Prelude.thy ===== *)
theory Switchyard_Prelude
  imports Main "HOL-Library.AList" "HOL-Library.Sublist" "HOL-Library.Multiset"
begin

text \<open>
  Shared ground of the development: Go values that every component uses (times, 64-bit
  conversions, identifiers, errors), computations that can fail and keep their state when they do,
  the explicit schedule of database failures, and the generic lemmas on folds, association lists
  and filtered prefixes that the component proofs rest on.
\<close>

section \<open>Go values\<close>

text \<open>
  A Go error is its message: the code decides on messages (\<open>isSQLiteBusy\<close>) and wraps them by
  prefixing (\<open>fmt.Errorf("...: %w")\<close>). A byte slice is a list of characters 0 to 255.
\<close>

type_synonym error = string
type_synonym bytes = string
type_synonym uuid = bytes

definition uuid_Nil :: uuid where
  "uuid_Nil = replicate 16 (CHR 0x00)"

text \<open>
  A \<open>time.Time\<close> is the number of nanoseconds since the Unix epoch, unbounded, so that Go's zero
  time (1 January of year 1) is a value like any other and lies outside the 64-bit range.
\<close>

type_synonym gotime = int
type_synonym duration = int

definition time_zero :: gotime where
  "time_zero = - 62135596800000000000"

definition time_IsZero :: "gotime \<Rightarrow> bool" where
  "time_IsZero t \<longleftrightarrow> t = time_zero"

text \<open>Conversions between Go's integer types wrap around.\<close>

definition int64_of :: "int \<Rightarrow> int" where
  "int64_of i = (i + 2 ^ 63) mod 2 ^ 64 - 2 ^ 63"

definition uint64_of :: "int \<Rightarrow> nat" where
  "uint64_of i = nat (i mod 2 ^ 64)"

definition UnixNano :: "gotime \<Rightarrow> int" where
  "UnixNano t = int64_of t"

definition time_Unix :: "int \<Rightarrow> int \<Rightarrow> gotime" where
  "time_Unix sec nsec = sec * 1000000000 + nsec"

definition in_int64 :: "int \<Rightarrow> bool" where
  "in_int64 i \<longleftrightarrow> - (2 ^ 63) \<le> i \<and> i < 2 ^ 63"

text \<open>The decimal notation of a natural number, as \<open>fmt\<close>'s \<open>%d\<close> prints it.\<close>

fun showNat :: "nat \<Rightarrow> string" where
  "showNat n = (if n < 10 then [char_of (48 + n)] else showNat (n div 10) @ [char_of (48 + n mod 10)])"

declare showNat.simps [simp del]

text \<open>\<open>%q\<close> on a string of plain characters: the string between double quotes.\<close>

definition quoted :: "string \<Rightarrow> string" where
  "quoted s = [CHR 0x22] @ s @ [CHR 0x22]"

section \<open>Computations that fail\<close>

text \<open>
  A step of type \<open>('s, 'a) step\<close> takes the state and returns an error or a value together with the
  new state: what was changed before an error stays changed, as in Go.
\<close>

type_synonym ('s, 'a) step = "'s \<Rightarrow> (error + 'a) \<times> 's"

definition returnS :: "'a \<Rightarrow> ('s, 'a) step" where
  "returnS x s = (Inr x, s)"

definition failS :: "error \<Rightarrow> ('s, 'a) step" where
  "failS e s = (Inl e, s)"

definition bindS :: "('s, 'a) step \<Rightarrow> ('a \<Rightarrow> ('s, 'b) step) \<Rightarrow> ('s, 'b) step" where
  "bindS m f s = (case m s of (Inl e, s') \<Rightarrow> (Inl e, s') | (Inr x, s') \<Rightarrow> f x s')"

text \<open>\<open>fmt.Errorf("prefix: %w", err)\<close> applied to whatever error the step returns.\<close>

definition wrapS :: "string \<Rightarrow> ('s, 'a) step \<Rightarrow> ('s, 'a) step" where
  "wrapS p m s = (case m s of (Inl e, s') \<Rightarrow> (Inl (p @ '': '' @ e), s') | r \<Rightarrow> r)"

text \<open>A loop \<open>for _, x := range xs\<close> whose body may return an error.\<close>

fun forS :: "'a list \<Rightarrow> ('a \<Rightarrow> ('s, unit) step) \<Rightarrow> ('s, unit) step" where
  "forS [] f = returnS ()"
| "forS (x # xs) f = bindS (f x) (\<lambda>_. forS xs f)"

text \<open>
  The insertion sort that the code writes out where it sorts a handful of values: the element at
  \<open>i\<close> is swapped to the left while its left neighbour has a larger key.
\<close>

fun insertBack :: "('a \<Rightarrow> 'k::linorder) \<Rightarrow> 'a \<Rightarrow> 'a list \<Rightarrow> 'a list" where
  "insertBack f x acc =
     (if acc \<noteq> [] \<and> f (last acc) > f x then insertBack f x (butlast acc) @ [last acc] else acc @ [x])"

declare insertBack.simps [simp del]

text \<open>\<open>strings.Join\<close>.\<close>

fun joinWith :: "string \<Rightarrow> string list \<Rightarrow> string" where
  "joinWith sep [] = ''''"
| "joinWith sep [x] = x"
| "joinWith sep (x # y # xs) = x @ sep @ joinWith sep (y # xs)"

definition insertionSort :: "('a \<Rightarrow> 'k::linorder) \<Rightarrow> 'a list \<Rightarrow> 'a list" where
  "insertionSort f xs = fold (insertBack f) xs []"

named_theorems step_simps "unfolding of steps"

declare returnS_def [step_simps] failS_def [step_simps] bindS_def [step_simps] wrapS_def [step_simps]

section \<open>Generic lemmas\<close>

subsection \<open>Integers\<close>

lemma int64_of_id [simp]: "in_int64 i \<Longrightarrow> int64_of i = i"
  by (simp add: int64_of_def in_int64_def)

lemma uint64_int64 [simp]: "n < 2 ^ 64 \<Longrightarrow> uint64_of (int64_of (int n)) = n"
proof -
  assume n: "n < 2 ^ 64"
  have "int64_of (int n) mod 2 ^ 64 = ((int n + 2 ^ 63) mod 2 ^ 64 - 2 ^ 63) mod 2 ^ 64"
    by (simp add: int64_of_def)
  also have "\<dots> = (int n + 2 ^ 63 - 2 ^ 63) mod 2 ^ 64"
    by (rule mod_diff_left_eq)
  also have "\<dots> = int n"
    using n by simp
  finally show ?thesis by (simp add: uint64_of_def)
qed

lemma in_int64_of_nat [simp]: "n < 2 ^ 63 \<Longrightarrow> in_int64 (int n)"
  by (simp add: in_int64_def)

subsection \<open>Steps\<close>

lemma bindS_Inr: "m s = (Inr x, s') \<Longrightarrow> bindS m f s = f x s'"
  by (simp add: bindS_def)

lemma bindS_Inl: "m s = (Inl e, s') \<Longrightarrow> bindS m f s = (Inl e, s')"
  by (simp add: bindS_def)

lemma bindS_InrE:
  assumes "bindS m f s = (Inr y, t)"
  obtains x s' where "m s = (Inr x, s')" and "f x s' = (Inr y, t)"
  using assms by (auto simp: bindS_def split: prod.splits sum.splits)

lemma wrapS_InrD: "wrapS p m s = (Inr x, t) \<Longrightarrow> m s = (Inr x, t)"
  by (auto simp: wrapS_def split: prod.splits sum.splits)

text \<open>
  A relation between the state before and after, kept by every step of a loop whatever its
  outcome, is kept by the loop.
\<close>

lemma forS_inv:
  assumes "\<And>x s. x \<in> set xs \<Longrightarrow> P s \<Longrightarrow> P (snd (f x s))"
  shows "P s \<Longrightarrow> P (snd (forS xs f s))"
  using assms
proof (induction xs arbitrary: s)
  case Nil
  then show ?case by (simp add: returnS_def)
next
  case (Cons x xs)
  obtain r s' where f: "f x s = (r, s')" by fastforce
  with Cons.prems(2)[of x s] Cons.prems(1) have s': "P s'" by simp
  have "P (snd (forS xs f s'))"
    using Cons.IH[OF s'] Cons.prems(2) by simp
  with f s' show ?case
    by (cases r) (auto simp: bindS_def)
qed

subsection \<open>Insertion sort\<close>

lemma mset_insertBack [simp]: "mset (insertBack f x acc) = add_mset x (mset acc)"
proof (induction f x acc rule: insertBack.induct)
  case (1 f x acc)
  show ?case
  proof (cases "acc \<noteq> [] \<and> f (last acc) > f x")
    case True
    then have "mset (butlast acc) + {#last acc#} = mset acc"
      by (metis append_butlast_last_id mset.simps(1) mset.simps(2) mset_append)
    with 1 True show ?thesis by (simp add: insertBack.simps [of f x acc])
  next
    case False
    then show ?thesis by (auto simp: insertBack.simps [of f x acc])
  qed
qed

lemma set_insertBack [simp]: "set (insertBack f x acc) = insert x (set acc)"
  by (metis mset_insertBack set_mset_add_mset_insert set_mset_mset)

lemma sorted_le_last: "sorted xs \<Longrightarrow> x \<in> set xs \<Longrightarrow> x \<le> last xs"
  by (induction xs) auto

lemma sorted_insertBack:
  "sorted (map f acc) \<Longrightarrow> sorted (map f (insertBack f x acc))"
proof (induction f x acc rule: insertBack.induct)
  case (1 f x acc)
  show ?case
  proof (cases "acc \<noteq> [] \<and> f (last acc) > f x")
    case True
    then have acc: "acc = butlast acc @ [last acc]" by simp
    have "sorted (map f (butlast acc) @ [f (last acc)])"
      using "1.prems" by (subst (asm) acc) simp
    then have *: "sorted (map f (butlast acc))" "\<forall>y \<in> set (butlast acc). f y \<le> f (last acc)"
      by (auto simp: sorted_append)
    have "sorted (map f (insertBack f x (butlast acc)))" using 1 True * by blast
    with True * show ?thesis
      by (auto simp: insertBack.simps [of f x acc] sorted_append)
  next
    case False
    have "\<forall>y \<in> set acc. f y \<le> f x"
    proof
      fix y assume y: "y \<in> set acc"
      then have "f y \<le> last (map f acc)"
        using "1.prems" by (intro sorted_le_last) auto
      moreover have "acc \<noteq> []" using y by auto
      ultimately show "f y \<le> f x" using False by (simp add: last_map)
    qed
    with False "1.prems" show ?thesis
      by (auto simp: insertBack.simps [of f x acc] sorted_append)
  qed
qed

lemma insertionSort_correct:
  "sorted (map f (insertionSort f xs)) \<and> mset (insertionSort f xs) = mset xs"
proof -
  have "sorted (map f (fold (insertBack f) xs acc)) \<and> mset (fold (insertBack f) xs acc) = mset xs + mset acc"
    if "sorted (map f acc)" for acc
    using that by (induction xs arbitrary: acc) (simp_all add: sorted_insertBack)
  from this [of "[]"] show ?thesis by (simp add: insertionSort_def)
qed

lemma set_insertionSort [simp]: "set (insertionSort f xs) = set xs"
  by (metis insertionSort_correct set_mset_mset)

subsection \<open>Association lists\<close>

lemma map_of_update [simp]: "map_of (AList.update k v al) = (map_of al)(k \<mapsto> v)"
  by (rule update_conv')

lemma map_of_delete [simp]: "map_of (AList.delete k al) = (map_of al)(k := None)"
  by (rule delete_conv')

lemma map_of_map_entry [simp]:
  "map_of (AList.map_entry k f al) = (map_of al)(k := map_option f (map_of al k))"
  by (induction al) (auto simp: fun_eq_iff)

lemma fst_set_map_entry [simp]: "map fst (AList.map_entry k f al) = map fst al"
  by (induction al) auto

lemma fst_set_update [simp]: "fst ` set (AList.update k v al) = insert k (fst ` set al)"
  by (simp add: dom_update)

lemma set_update_subset: "set (AList.update k v al) \<subseteq> insert (k, v) (set al)"
  by (induction al) auto

lemma set_delete_subset: "set (AList.delete k al) \<subseteq> set al"
  by (auto simp: AList.delete_eq)

subsection \<open>Sorted logs: ranges and prefixes\<close>

lemma take_filter_ge:
  "length (filter P xs) \<le> n \<Longrightarrow> take n (filter P xs) = filter P xs"
  by simp

lemma filter_conj: "filter P (filter Q xs) = filter (\<lambda>x. Q x \<and> P x) xs"
  by (simp add: conj_commute)

lemma sorted_wrt_less_last:
  fixes xs :: "'a::linorder list"
  assumes "sorted_wrt (<) xs" "xs \<noteq> []" "x \<in> set xs"
  shows "x \<le> last xs"
  using assms
proof (induction xs)
  case (Cons y ys)
  show ?case
  proof (cases "ys = []")
    case False
    with Cons.prems have "y < last ys" by simp
    with Cons False show ?thesis by (auto intro: less_imp_le)
  qed (use Cons.prems in simp)
qed simp

end
