(* ===== verification/Event_Model.thy ===== *)
theory Event_Model
  imports Switchyard_Prelude "HOL-Library.Word"
begin

text \<open>
  The data that flows through the daemon: entity attributes, event payloads, the \<open>Event\<close> struct of
  \<^verbatim>\<open>internal/eventstore/event.go\<close> and the \<open>Filter\<close> of \<^verbatim>\<open>internal/eventstore/filter.go\<close>.
\<close>

section \<open>Attributes and payloads\<close>

text \<open>
  A protobuf \<open>double\<close> is kept as its 64-bit pattern: the code modelled here stores and compares
  it and never computes with it.
\<close>

datatype attr_kind =
    Light bool "32 word" "32 word" "32 word" \<comment> \<open>on, brightness, color temperature, RGB\<close>
  | Switch bool
  | NumericSensor string "64 word"           \<comment> \<open>unit, value\<close>
  | BinarySensor bool

record attributes =
  attr_kind :: "attr_kind option"
  available :: bool

record entity_registered =
  er_DriverInstanceId :: string
  er_DeviceId :: string
  er_EntityType :: string
  er_FriendlyName :: string
  er_Capabilities :: "attributes option"

record driver_event =
  de_DriverInstanceId :: string
  de_Kind :: string
  de_Detail :: string

text \<open>
  The \<open>Payload\<close> union: the members that a modelled component inspects have their fields; every
  other member is its field number and its encoded bytes; \<open>NoKind\<close> is a payload whose oneof is unset.
\<close>

datatype payload =
    NoKind
  | StateChanged "attributes option" string  \<comment> \<open>attributes, entity id\<close>
  | EntityRegistered entity_registered
  | EntityUnregistered string string         \<comment> \<open>reason, entity id\<close>
  | DriverEvent driver_event
  | CommandIssued string "(string \<times> string) list" \<comment> \<open>command, parameters\<close>
  | CommandAck bool string                   \<comment> \<open>success, error message\<close>
  | AuthEvent bytes
  | OtherPayload nat bytes

section \<open>Events and filters\<close>

record event =
  Position :: nat
  Timestamp :: gotime
  Kind :: string
  Entity :: string
  Source :: string
  CorrelationID :: uuid
  CausePosition :: nat
  Payload :: "payload option"

record Filter =
  Kinds :: "string list"
  Entities :: "string list"
  Sources :: "string list"
  CorrelationIDs :: "uuid list"
  MinTs :: gotime
  MaxTs :: gotime

fun containsString :: "string list \<Rightarrow> string \<Rightarrow> bool" where
  "containsString [] needle = False"
| "containsString (s # haystack) needle = (s = needle \<or> containsString haystack needle)"

fun containsUUID :: "uuid list \<Rightarrow> uuid \<Rightarrow> bool" where
  "containsUUID [] needle = False"
| "containsUUID (u # haystack) needle = (u = needle \<or> containsUUID haystack needle)"

definition Matches :: "Filter \<Rightarrow> event \<Rightarrow> bool" where
  "Matches f e =
     (if Kinds f \<noteq> [] \<and> \<not> containsString (Kinds f) (Kind e) then False
      else if Entities f \<noteq> [] \<and> \<not> containsString (Entities f) (Entity e) then False
      else if Sources f \<noteq> [] \<and> \<not> containsString (Sources f) (Source e) then False
      else if CorrelationIDs f \<noteq> [] \<and> \<not> containsUUID (CorrelationIDs f) (CorrelationID e) then False
      else if \<not> time_IsZero (MinTs f) \<and> Timestamp e < MinTs f then False
      else if \<not> time_IsZero (MaxTs f) \<and> MaxTs f < Timestamp e then False
      else True)"

text \<open>The filter a caller gets by writing \<open>Filter{}\<close>.\<close>

definition Filter_zero :: Filter where
  "Filter_zero = \<lparr>Kinds = [], Entities = [], Sources = [], CorrelationIDs = [],
     MinTs = time_zero, MaxTs = time_zero\<rparr>"

lemma containsString_iff [simp]: "containsString xs x \<longleftrightarrow> x \<in> set xs"
  by (induction xs) auto

lemma containsUUID_iff [simp]: "containsUUID xs x \<longleftrightarrow> x \<in> set xs"
  by (induction xs) auto

lemma Matches_iff:
  "Matches f e \<longleftrightarrow>
     (Kinds f = [] \<or> Kind e \<in> set (Kinds f)) \<and>
     (Entities f = [] \<or> Entity e \<in> set (Entities f)) \<and>
     (Sources f = [] \<or> Source e \<in> set (Sources f)) \<and>
     (CorrelationIDs f = [] \<or> CorrelationID e \<in> set (CorrelationIDs f)) \<and>
     (MinTs f = time_zero \<or> MinTs f \<le> Timestamp e) \<and>
     (MaxTs f = time_zero \<or> Timestamp e \<le> MaxTs f)"
  by (auto simp: Matches_def time_IsZero_def)

lemma Matches_zero [simp]: "Matches Filter_zero e"
  by (simp add: Matches_iff Filter_zero_def)

end
