(* ===== verification/Storage_Model.thy ===== *)
theory Storage_Model
  imports Event_Model
begin

text \<open>
  The SQLite schema of the event store (\<^verbatim>\<open>internal/storage/migrations\<close>), the \<open>Store\<close> struct of
  \<^verbatim>\<open>internal/eventstore/store.go\<close>, and the database calls it makes. Every fallible call of
  \<^verbatim>\<open>database/sql\<close> takes one entry of an explicit failure schedule: \<open>None\<close> lets the call go
  through, \<open>Some e\<close> makes it return \<open>e\<close> and change nothing, and after the end of the schedule
  nothing fails. A theorem over every schedule is a theorem over every place where the database
  can fail.
\<close>

section \<open>Tables\<close>

record event_row =
  r_position :: nat
  r_ts :: int
  r_kind :: string
  r_entity :: "string option"
  r_source :: string
  r_correlation_id :: "bytes option"
  r_cause_position :: "int option"
  r_payload :: bytes

record snapshot_row =
  sn_ts :: int
  sn_owner :: string
  sn_encoding :: string
  sn_state :: bytes

record cursor_row =
  cur_position :: nat
  cur_updated_at :: int

record subscription_row =
  sub_cursor :: int
  sub_created_at :: int
  sub_last_active :: int

text \<open>
  \<open>sqlite_sequence\<close> is the counter behind \<open>AUTOINCREMENT\<close>; like the tables it is part of what a
  rollback restores. Tables with a primary key are association lists.
\<close>

record store_db =
  events :: "event_row list"
  sqlite_sequence :: nat
  snapshots :: "(nat \<times> snapshot_row) list"
  projection_cursors :: "(string \<times> cursor_row) list"
  skipped_events :: "(nat \<times> string) list"
  event_subscriptions :: "(string \<times> subscription_row) list"

section \<open>The store\<close>

record Config =
  SnapshotEveryEvents :: int
  SnapshotEveryPeriod :: duration
  MaxSubscriberBuffer :: int
  SnapshotRetainPerOwner :: int

text \<open>
  \<open>db\<close> is the database, inside a transaction the transaction's view of it; \<open>mem\<close> is the memory of
  the projectors; \<open>faults\<close> is the failure schedule.
\<close>

record ('d, 'm) store =
  cfg :: Config
  db :: 'd
  mem :: 'm
  faults :: "error option list"
  latestPosition :: nat
  started :: bool

type_synonym ('x, 'm, 'z) st = "('x store_db_scheme, 'm, 'z) store_scheme"

text \<open>
  The third-party encoders are arguments of the model: \<open>proto.Marshal\<close> and \<open>proto.Unmarshal\<close> of a
  payload.
\<close>

record codec =
  marshalPayload :: "payload \<Rightarrow> error + bytes"
  unmarshalPayload :: "bytes \<Rightarrow> error + payload"

text \<open>What protobuf documents: decoding what was encoded gives the message back.\<close>

definition codec_roundtrip :: "codec \<Rightarrow> bool" where
  "codec_roundtrip c \<longleftrightarrow>
     (\<forall>p b. marshalPayload c p = Inr b \<longrightarrow> unmarshalPayload c b = Inr p)"

text \<open>The rest of the environment of one call: the clock, \<open>uuid.New\<close>, and for each back-off delay
  whether the context ends before it has passed (and with which error).\<close>

record env =
  env_now :: gotime
  env_uuid :: "nat \<Rightarrow> uuid"
  env_ctxDone :: "duration \<Rightarrow> error option"

section \<open>Database calls\<close>

definition dbStmt :: "('d \<Rightarrow> 'd \<times> 'a) \<Rightarrow> (('d, 'm, 'z) store_scheme, 'a) step" where
  "dbStmt f s =
     (case faults s of
        Some e # fs \<Rightarrow> (Inl e, s\<lparr>faults := fs\<rparr>)
      | _ \<Rightarrow> (let (d, x) = f (db s) in (Inr x, s\<lparr>db := d, faults := tl (faults s)\<rparr>)))"

definition dbExec :: "('d \<Rightarrow> 'd) \<Rightarrow> (('d, 'm, 'z) store_scheme, unit) step" where
  "dbExec f = dbStmt (\<lambda>d. (f d, ()))"

definition dbQuery :: "('d \<Rightarrow> 'a) \<Rightarrow> (('d, 'm, 'z) store_scheme, 'a) step" where
  "dbQuery f = dbStmt (\<lambda>d. (d, f d))"

text \<open>A statement that the database itself may refuse, because of a constraint.\<close>

definition dbTry :: "('d \<Rightarrow> error + 'd) \<Rightarrow> (('d, 'm, 'z) store_scheme, unit) step" where
  "dbTry f = bindS (dbQuery f)
     (\<lambda>r. case r of Inl e \<Rightarrow> failS e | Inr d \<Rightarrow> (\<lambda>s. (Inr (), s\<lparr>db := d\<rparr>)))"

text \<open>
  A transaction: \<open>BeginTx\<close>, the body, \<open>Commit\<close>. When the body or the commit fails, the deferred
  function runs its hook on the projectors' memory and rolls the database back to what it was at
  \<open>BeginTx\<close>; after a commit the post-commit hook runs.
\<close>

definition runTx ::
  "('m \<Rightarrow> 'm) \<Rightarrow> ('m \<Rightarrow> 'm) \<Rightarrow> (error \<Rightarrow> error) \<Rightarrow> (('d, 'm, 'z) store_scheme, 'a) step
     \<Rightarrow> (('d, 'm, 'z) store_scheme, 'a) step" where
  "runTx onRollback onCommit commitErr body s =
     (case dbExec id s of
        (Inl e, s1) \<Rightarrow> (Inl e, s1)
      | (Inr _, s1) \<Rightarrow>
         (case body s1 of
            (Inl e, s2) \<Rightarrow> (Inl e, s2\<lparr>db := db s1, mem := onRollback (mem s2)\<rparr>)
          | (Inr x, s2) \<Rightarrow>
             (case dbExec id s2 of
                (Inl e, s3) \<Rightarrow> (Inl (commitErr e), s3\<lparr>db := db s1, mem := onRollback (mem s3)\<rparr>)
              | (Inr _, s3) \<Rightarrow> (Inr x, s3\<lparr>mem := onCommit (mem s3)\<rparr>))))"

text \<open>\<open>SELECT MAX(position) FROM events\<close>, NULL on an empty table.\<close>

definition max_position :: "event_row list \<Rightarrow> nat option" where
  "max_position rows = (case map r_position rows of [] \<Rightarrow> None | p # ps \<Rightarrow> Some (fold max ps p))"

section \<open>Lemmas\<close>

lemma dbStmt_cases:
  obtains (Fail) e fs where "faults s = Some e # fs" "dbStmt f s = (Inl e, s\<lparr>faults := fs\<rparr>)"
  | (Ok) "dbStmt f s = (Inr (snd (f (db s))), s\<lparr>db := fst (f (db s)), faults := tl (faults s)\<rparr>)"
proof (cases "\<exists>e fs. faults s = Some e # fs")
  case True
  then show ?thesis using Fail by (auto simp: dbStmt_def)
next
  case False
  then have "dbStmt f s = (Inr (snd (f (db s))), s\<lparr>db := fst (f (db s)), faults := tl (faults s)\<rparr>)"
    by (auto simp: dbStmt_def Let_def split: list.splits option.splits prod.splits)
  then show ?thesis by (rule Ok)
qed

lemma dbStmt_frame:
  assumes "dbStmt f s = (r, s')"
  shows "mem s' = mem s \<and> cfg s' = cfg s \<and> latestPosition s' = latestPosition s
    \<and> started s' = started s"
  using assms by (cases rule: dbStmt_cases [of s f]) auto

lemma dbStmt_Inr:
  assumes "dbStmt f s = (Inr x, s')"
  shows "x = snd (f (db s))" "s' = s\<lparr>db := fst (f (db s)), faults := tl (faults s)\<rparr>"
  using assms by (cases rule: dbStmt_cases [of s f]; simp)+

lemma dbStmt_Inr_both:
  "dbStmt f s = (Inr x, s') \<Longrightarrow>
     x = snd (f (db s)) \<and> s' = s\<lparr>db := fst (f (db s)), faults := tl (faults s)\<rparr>"
  using dbStmt_Inr [of f s x s'] by simp

lemma dbStmt_Inl:
  assumes "dbStmt f s = (Inl e, s')"
  shows "s' = s\<lparr>faults := tl (faults s)\<rparr>"
  using assms by (cases rule: dbStmt_cases [of s f]) auto

lemma dbExec_InrD:
  "dbExec f s = (Inr x, s') \<Longrightarrow> s' = s\<lparr>db := f (db s), faults := tl (faults s)\<rparr>"
  unfolding dbExec_def by (drule dbStmt_Inr(2)) simp

lemma dbExec_InlD: "dbExec f s = (Inl e, s') \<Longrightarrow> s' = s\<lparr>faults := tl (faults s)\<rparr>"
  unfolding dbExec_def by (rule dbStmt_Inl)

lemma dbQuery_InrD:
  assumes "dbQuery f s = (Inr x, s')"
  shows "x = f (db s)" "s' = s\<lparr>faults := tl (faults s)\<rparr>"
  using dbStmt_Inr [OF assms [unfolded dbQuery_def]] by auto

lemma dbQuery_Inr_both:
  "dbQuery f s = (Inr x, s') \<Longrightarrow> x = f (db s) \<and> s' = s\<lparr>faults := tl (faults s)\<rparr>"
  using dbQuery_InrD [of f s x s'] by simp

lemma dbQuery_InlD: "dbQuery f s = (Inl e, s') \<Longrightarrow> s' = s\<lparr>faults := tl (faults s)\<rparr>"
  unfolding dbQuery_def by (rule dbStmt_Inl)

lemma dbTry_cases:
  assumes "dbTry f s = (r, t)"
  shows "case r of
      Inl _ \<Rightarrow> t = s\<lparr>faults := tl (faults s)\<rparr>
    | Inr _ \<Rightarrow> \<exists>d. f (db s) = Inr d \<and> t = s\<lparr>db := d, faults := tl (faults s)\<rparr>"
proof (cases "dbQuery f s")
  case (Pair q s1)
  show ?thesis
  proof (cases q)
    case (Inl e)
    with Pair assms show ?thesis by (auto simp: dbTry_def bindS_def dest: dbQuery_InlD)
  next
    case (Inr x)
    with Pair have "x = f (db s)" "s1 = s\<lparr>faults := tl (faults s)\<rparr>" by (auto dest: dbQuery_InrD)
    with Pair Inr assms show ?thesis
      by (auto simp: dbTry_def bindS_def failS_def split: sum.splits)
  qed
qed

lemmas db_call_simps = dbStmt_def dbExec_def dbQuery_def

lemma dbExec_no_faults [simp]:
  "faults s = [] \<Longrightarrow> dbExec f s = (Inr (), s\<lparr>db := f (db s)\<rparr>)"
  by (simp add: db_call_simps)

lemma dbQuery_no_faults [simp]: "faults s = [] \<Longrightarrow> dbQuery f s = (Inr (f (db s)), s)"
  by (simp add: db_call_simps)

text \<open>The two ways a transaction ends.\<close>

lemma runTx_InlD:
  assumes "runTx rb oc ce body s = (Inl e, t)"
  obtains (Begin) "t = s\<lparr>faults := tl (faults s)\<rparr>"
  | (Body) s1 r s2 where "s1 = s\<lparr>faults := tl (faults s)\<rparr>" "body s1 = (r, s2)"
      "db t = db s" "mem t = rb (mem s2)" "cfg t = cfg s2" "latestPosition t = latestPosition s2"
      "started t = started s2" "store.more t = store.more s2"
proof (cases "dbExec id s")
  case (Pair r0 s1)
  show ?thesis
  proof (cases r0)
    case (Inl e0)
    with assms Pair have "t = s1" by (simp add: runTx_def)
    with Pair Inl have "t = s\<lparr>faults := tl (faults s)\<rparr>" by (simp add: dbExec_InlD)
    then show ?thesis by (rule Begin)
  next
    case (Inr u)
    have s1: "s1 = s\<lparr>faults := tl (faults s)\<rparr>"
      using Pair Inr dbExec_InrD [of id s u s1] by simp
    obtain r s2 where b: "body s1 = (r, s2)" by fastforce
    show ?thesis
    proof (cases r)
      case (Inl e1)
      with assms Pair Inr b have "t = s2\<lparr>db := db s1, mem := rb (mem s2)\<rparr>"
        by (simp add: runTx_def)
      with s1 b show ?thesis by (intro Body [of s1 r s2]) auto
    next
      case r: (Inr x)
      obtain rc s3 where c: "dbExec id s2 = (rc, s3)" by fastforce
      with assms Pair Inr b r obtain ec where rc: "rc = Inl ec"
        and t: "t = s3\<lparr>db := db s1, mem := rb (mem s3)\<rparr>"
        by (cases rc) (auto simp: runTx_def)
      from c rc have "s3 = s2\<lparr>faults := tl (faults s2)\<rparr>" by (simp add: dbExec_InlD)
      with s1 b t show ?thesis by (intro Body [of s1 r s2]) auto
    qed
  qed
qed

lemma runTx_InrD:
  assumes "runTx rb oc ce body s = (Inr x, t)"
  obtains s1 s2 where "s1 = s\<lparr>faults := tl (faults s)\<rparr>" "body s1 = (Inr x, s2)"
    "t = s2\<lparr>faults := tl (faults s2), mem := oc (mem s2)\<rparr>"
proof -
  from assms obtain s1 s2 s3 u v where b: "dbExec id s = (Inr u, s1)" "body s1 = (Inr x, s2)"
    "dbExec id s2 = (Inr v, s3)" "t = s3\<lparr>mem := oc (mem s3)\<rparr>"
    by (auto simp: runTx_def split: prod.splits sum.splits)
  moreover have "s1 = s\<lparr>faults := tl (faults s)\<rparr>" using dbExec_InrD [OF b(1)] by simp
  moreover have "s3 = s2\<lparr>faults := tl (faults s2)\<rparr>" using dbExec_InrD [OF b(3)] by simp
  ultimately show thesis using that by auto
qed

end
