(* ===== verification/Event_Store.thy ===== *)
theory Event_Store
  imports Storage_Model
begin

text \<open>
  The append side of \<^verbatim>\<open>internal/eventstore\<close>: opening a store, registering projectors, \<open>Append\<close>,
  \<open>AppendBatch\<close> and their retry loop (\<^verbatim>\<open>store.go\<close>), and reading rows back (\<^verbatim>\<open>query.go\<close>). The
  projectors are arguments: a record of the operations of the \<open>Projector\<close> interface and of the
  optional \<open>PostCommit\<close> and \<open>Discarder\<close> interfaces. What the store relies on is the locale
  \<open>event_projection\<close>, and the lemmas about the store are proved in it.
\<close>

section \<open>Projectors\<close>

datatype ProjectorMode = ProjectorModeSync | ProjectorModeAsync

record ('s, 'm) Projector =
  Name :: string
  Apply :: "event \<Rightarrow> ('s, unit) step"
  Snapshot :: "('s, unit) step"
  Restore :: "('s, nat) step"
  Promote :: "('m \<Rightarrow> 'm) option"
  Discard :: "('m \<Rightarrow> 'm) option"

record ('s, 'm) projectorReg =
  reg_p :: "('s, 'm) Projector"
  reg_mode :: ProjectorMode

definition NoSnapshot_Snapshot :: "('s, unit) step" where
  "NoSnapshot_Snapshot = returnS ()"

definition NoSnapshot_Restore :: "('s, nat) step" where
  "NoSnapshot_Restore = returnS 0"

definition promoteAll :: "('s, 'm) projectorReg list \<Rightarrow> 'm \<Rightarrow> 'm" where
  "promoteAll ps m =
     fold (\<lambda>reg m. case Promote (reg_p reg) of None \<Rightarrow> m | Some pc \<Rightarrow> pc m) ps m"

definition discardAll :: "('s, 'm) projectorReg list \<Rightarrow> 'm \<Rightarrow> 'm" where
  "discardAll ps m =
     fold (\<lambda>reg m. case Discard (reg_p reg) of None \<Rightarrow> m | Some d \<Rightarrow> d m) ps m"

definition applyProjector :: "('s, 'm) projectorReg \<Rightarrow> event \<Rightarrow> ('s, unit) step" where
  "applyProjector reg e = Apply (reg_p reg) e"

section \<open>Opening\<close>

definition withDefaults :: "Config \<Rightarrow> Config" where
  "withDefaults c =
     \<lparr>SnapshotEveryEvents = (if SnapshotEveryEvents c = 0 then 10000 else SnapshotEveryEvents c),
      SnapshotEveryPeriod =
        (if SnapshotEveryPeriod c = 0 then 3600000000000 else SnapshotEveryPeriod c),
      MaxSubscriberBuffer = (if MaxSubscriberBuffer c = 0 then 256 else MaxSubscriberBuffer c),
      SnapshotRetainPerOwner =
        (if SnapshotRetainPerOwner c = 0 then 3 else SnapshotRetainPerOwner c)\<rparr>"

text \<open>\<open>Open\<close> on a database, with the memory of freshly constructed projectors.\<close>

definition Open ::
  "Config \<Rightarrow> 'x store_db_scheme \<Rightarrow> 'm \<Rightarrow> error option list
     \<Rightarrow> error + ('x store_db_scheme, 'm) store" where
  "Open c d m fs =
     (let s = \<lparr>cfg = withDefaults c, db = d, mem = m, faults = fs, latestPosition = 0,
               started = False\<rparr>
      in case dbQuery (\<lambda>d. max_position (events d)) s of
           (Inl e, _) \<Rightarrow> Inl (''load latest position: '' @ e)
         | (Inr latest, s') \<Rightarrow>
             Inr (case latest of None \<Rightarrow> s' | Some p \<Rightarrow> s'\<lparr>latestPosition := p\<rparr>))"

definition RegisterProjector ::
  "('s, 'm) projectorReg list \<Rightarrow> bool \<Rightarrow> ('s, 'm) Projector \<Rightarrow> ProjectorMode
     \<Rightarrow> error + ('s, 'm) projectorReg list" where
  "RegisterProjector ps isStarted p mode =
     (if isStarted then Inl ''RegisterProjector: already started''
      else Inr (ps @ [\<lparr>reg_p = p, reg_mode = mode\<rparr>]))"

definition ProjectorNames :: "('s, 'm) projectorReg list \<Rightarrow> string list" where
  "ProjectorNames ps = map (\<lambda>reg. Name (reg_p reg)) ps"

section \<open>Appending\<close>

definition isSQLiteBusy :: "error \<Rightarrow> bool" where
  "isSQLiteBusy msg \<longleftrightarrow>
     sublist ''SQLITE_BUSY'' msg \<or> sublist ''database is locked'' msg \<or> sublist ''(5)'' msg"

text \<open>
  The retry loop: one attempt per element of the back-off list and one more. \<open>ctxDone b\<close> tells
  whether the context ended while waiting for the delay \<open>b\<close>.
\<close>

fun retryLoop ::
  "(duration \<Rightarrow> error option) \<Rightarrow> ('s, 'a) step \<Rightarrow> duration list \<Rightarrow> ('s, 'a) step" where
  "retryLoop ctxDone fn [] s = fn s"
| "retryLoop ctxDone fn (b # bs) s =
     (case fn s of
        (Inr x, s') \<Rightarrow> (Inr x, s')
      | (Inl e, s') \<Rightarrow>
          if \<not> isSQLiteBusy e then (Inl e, s')
          else case ctxDone b of
                 Some ce \<Rightarrow> (Inl ce, s')
               | None \<Rightarrow> retryLoop ctxDone fn bs s')"

definition backoffs :: "duration list" where
  "backoffs = [100000000, 200000000, 400000000, 800000000]"

definition withRetry :: "(duration \<Rightarrow> error option) \<Rightarrow> ('s, 'a) step \<Rightarrow> ('s, 'a) step" where
  "withRetry ctxDone fn = retryLoop ctxDone fn backoffs"

text \<open>
  \<open>INSERT INTO events\<close> and \<open>LastInsertId\<close>. The primary key is \<open>AUTOINCREMENT\<close>: the next key is the
  sequence plus one, and when the sequence is at the largest 64-bit integer the insert fails.
\<close>

definition eventRow :: "event \<Rightarrow> bytes \<Rightarrow> nat \<Rightarrow> event_row" where
  "eventRow e payload pos =
     \<lparr>r_position = pos, r_ts = UnixNano (Timestamp e), r_kind = Kind e,
      r_entity = (if Entity e \<noteq> '''' then Some (Entity e) else None),
      r_source = Source e,
      r_correlation_id = (if CorrelationID e \<noteq> uuid_Nil then Some (CorrelationID e) else None),
      r_cause_position =
        (if CausePosition e > 0 then Some (int64_of (int (CausePosition e))) else None),
      r_payload = payload\<rparr>"

definition insertEvent :: "event \<Rightarrow> bytes \<Rightarrow> (('x, 'm, 'z) st, unit) step" where
  "insertEvent e payload =
     bindS (dbQuery sqlite_sequence)
       (\<lambda>n. if n \<ge> 2 ^ 63 - 1 then failS ''database or disk is full''
            else (\<lambda>s. (Inr (), s\<lparr>db := (db s)\<lparr>
              events := events (db s) @ [eventRow e payload (Suc n)],
              sqlite_sequence := Suc n\<rparr>\<rparr>)))"

definition lastInsertId :: "(('x, 'm, 'z) st, nat) step" where
  "lastInsertId = dbQuery sqlite_sequence"

text \<open>The upsert into \<open>projection_cursors\<close>.\<close>

definition advanceCursor :: "gotime \<Rightarrow> string \<Rightarrow> nat \<Rightarrow> (('x, 'm, 'z) st, unit) step" where
  "advanceCursor now name pos =
     dbExec (\<lambda>d. d\<lparr>projection_cursors := AList.update name
       \<lparr>cur_position = pos, cur_updated_at = UnixNano now\<rparr> (projection_cursors d)\<rparr>)"

text \<open>The loop over the sync projectors; \<open>after\<close> is what the loop does once a projector has
  applied the event.\<close>

definition syncLoop ::
  "('s, 'm) projectorReg list \<Rightarrow> (string \<Rightarrow> string) \<Rightarrow> (string \<Rightarrow> ('s, unit) step) \<Rightarrow> event
     \<Rightarrow> ('s, unit) step" where
  "syncLoop ps lbl after e =
     forS ps (\<lambda>reg.
       if reg_mode reg \<noteq> ProjectorModeSync then returnS ()
       else bindS (wrapS (lbl (Name (reg_p reg))) (applyProjector reg e))
              (\<lambda>_. after (Name (reg_p reg))))"

definition appendTx ::
  "gotime \<Rightarrow> (('x, 'm, 'z) st, 'm) projectorReg list \<Rightarrow> event \<Rightarrow> bytes \<Rightarrow> (('x, 'm, 'z) st, nat) step"
  where
  "appendTx now ps e payload =
     runTx (discardAll ps) (promoteAll ps) (\<lambda>e. ''commit: '' @ e)
       (bindS (wrapS ''insert event'' (insertEvent e payload)) (\<lambda>_.
        bindS (wrapS ''last insert id'' lastInsertId) (\<lambda>pos.
        bindS (syncLoop ps (\<lambda>n. ''projector '' @ n @ '' apply'')
                 (\<lambda>n. wrapS (''advance cursor '' @ n) (advanceCursor now n pos))
                 (e\<lparr>Position := pos\<rparr>)) (\<lambda>_.
        returnS pos))))"

text \<open>The defaults that \<open>Append\<close> fills in.\<close>

definition fillDefaults :: "gotime \<Rightarrow> uuid \<Rightarrow> event \<Rightarrow> event" where
  "fillDefaults now fresh e =
     (let e1 = (if time_IsZero (Timestamp e) then e\<lparr>Timestamp := now\<rparr> else e)
      in if CorrelationID e1 = uuid_Nil then e1\<lparr>CorrelationID := fresh\<rparr> else e1)"

definition Append ::
  "codec \<Rightarrow> env \<Rightarrow> (('x, 'm, 'z) st, 'm) projectorReg list \<Rightarrow> event \<Rightarrow> (('x, 'm, 'z) st, nat) step"
  where
  "Append cdc en ps e s =
     (if Kind e = '''' then (Inl ''Append: Kind required'', s)
      else if Source e = '''' then (Inl ''Append: Source required'', s)
      else case Payload e of
        None \<Rightarrow> (Inl ''Append: Payload required'', s)
      | Some pl \<Rightarrow>
          (let e' = fillDefaults (env_now en) (env_uuid en 0) e
           in case marshalPayload cdc pl of
                Inl err \<Rightarrow> (Inl (''marshal payload: '' @ err), s)
              | Inr payload \<Rightarrow>
                  (case withRetry (env_ctxDone en) (appendTx (env_now en) ps e' payload) s of
                     (Inl err, s') \<Rightarrow> (Inl err, s')
                   | (Inr pos, s') \<Rightarrow>
                       (Inr pos, if pos > latestPosition s' then s'\<lparr>latestPosition := pos\<rparr> else s'))))"

definition AppendAuth ::
  "codec \<Rightarrow> env \<Rightarrow> (('x, 'm, 'z) st, 'm) projectorReg list \<Rightarrow> bytes \<Rightarrow> (('x, 'm, 'z) st, unit) step"
  where
  "AppendAuth cdc en ps a =
     bindS (Append cdc en ps
       \<lparr>Position = 0, Timestamp = time_zero, Kind = ''auth_event'', Entity = '''',
        Source = ''auth.audit'', CorrelationID = uuid_Nil, CausePosition = 0,
        Payload = Some (AuthEvent a)\<rparr>) (\<lambda>_. returnS ())"

section \<open>Appending a batch\<close>

text \<open>
  The body of the loop of \<open>AppendBatch\<close> for the event at index \<open>i\<close>. The loop works through a pointer
  into the caller's slice, so the filled-in fields of every event reached, and its position, survive
  a failed attempt: the slice is part of the state.
\<close>

definition projectorLabel :: "string \<Rightarrow> string" where
  "projectorLabel n = ''projector '' @ n"

type_synonym ('x, 'm, 'z) batch = "('x, 'm, 'z) st \<times> event list"

definition batchEvent ::
  "codec \<Rightarrow> env \<Rightarrow> (('x, 'm, 'z) st, 'm) projectorReg list \<Rightarrow> nat \<Rightarrow> (('x, 'm, 'z) batch, unit) step"
  where
  "batchEvent cdc en ps i = (\<lambda>(s, evs).
     (let e = evs ! i in
      case Payload e of
        None \<Rightarrow> (Inl ''AppendBatch: invalid event'', (s, evs))
      | Some pl \<Rightarrow>
         if Kind e = '''' \<or> Source e = '''' then (Inl ''AppendBatch: invalid event'', (s, evs))
         else
          (let e' = fillDefaults (env_now en) (env_uuid en i) e; evs' = evs[i := e'] in
           case marshalPayload cdc pl of
             Inl err \<Rightarrow> (Inl (''marshal['' @ showNat i @ '']: '' @ err), (s, evs'))
           | Inr payload \<Rightarrow>
              (case bindS (insertEvent e' payload) (\<lambda>_. lastInsertId) s of
                 (Inl err, s') \<Rightarrow> (Inl err, (s', evs'))
               | (Inr pos, s') \<Rightarrow>
                  (let e'' = e'\<lparr>Position := pos\<rparr>; evs'' = evs'[i := e''] in
                   case syncLoop ps projectorLabel (\<lambda>_. returnS ()) e'' s' of
                     (r, s'') \<Rightarrow> (r, (s'', evs'')))))))"

definition batchCursors ::
  "gotime \<Rightarrow> (('x, 'm, 'z) st, 'm) projectorReg list \<Rightarrow> nat \<Rightarrow> (('x, 'm, 'z) st, unit) step" where
  "batchCursors now ps lastPos =
     forS ps (\<lambda>reg. if reg_mode reg \<noteq> ProjectorModeSync then returnS ()
                    else advanceCursor now (Name (reg_p reg)) lastPos)"

text \<open>One attempt: a transaction over the whole slice.\<close>

definition batchBody ::
  "codec \<Rightarrow> env \<Rightarrow> (('x, 'm, 'z) st, 'm) projectorReg list \<Rightarrow> (('x, 'm, 'z) batch, unit) step" where
  "batchBody cdc en ps = (\<lambda>(s, evs).
     (case forS [0..<length evs] (batchEvent cdc en ps) (s, evs) of
        (Inl e, s1) \<Rightarrow> (Inl e, s1)
      | (Inr _, (s1, evs1)) \<Rightarrow>
         (case batchCursors (env_now en) ps (Position (last evs1)) s1 of
            (r, s2) \<Rightarrow> (r, (s2, evs1)))))"

definition batchTx ::
  "codec \<Rightarrow> env \<Rightarrow> (('x, 'm, 'z) st, 'm) projectorReg list \<Rightarrow> (('x, 'm, 'z) batch, unit) step" where
  "batchTx cdc en ps = (\<lambda>(s, evs).
     (case dbExec id s of
        (Inl e, s1) \<Rightarrow> (Inl e, (s1, evs))
      | (Inr _, s1) \<Rightarrow>
         (case batchBody cdc en ps (s1, evs) of
            (Inl e, (s2, evs2)) \<Rightarrow>
              (Inl e, (s2\<lparr>db := db s1, mem := discardAll ps (mem s2)\<rparr>, evs2))
          | (Inr _, (s2, evs2)) \<Rightarrow>
             (case dbExec id s2 of
                (Inl e, s3) \<Rightarrow> (Inl e, (s3\<lparr>db := db s1, mem := discardAll ps (mem s3)\<rparr>, evs2))
              | (Inr _, s3) \<Rightarrow> (Inr (), (s3\<lparr>mem := promoteAll ps (mem s3)\<rparr>, evs2))))))"

definition AppendBatch ::
  "codec \<Rightarrow> env \<Rightarrow> (('x, 'm, 'z) st, 'm) projectorReg list \<Rightarrow> event list
     \<Rightarrow> (('x, 'm, 'z) st, nat list) step" where
  "AppendBatch cdc en ps evs s =
     (if evs = [] then (Inr [], s)
      else case withRetry (env_ctxDone en) (batchTx cdc en ps) (s, evs) of
             (Inl e, (s', _)) \<Rightarrow> (Inl e, s')
           | (Inr _, (s', evs')) \<Rightarrow>
               (Inr (map Position evs'), s'\<lparr>latestPosition := Position (last evs')\<rparr>))"

section \<open>Reading\<close>

definition scanEvent :: "codec \<Rightarrow> event_row \<Rightarrow> error + event" where
  "scanEvent cdc r =
     (case unmarshalPayload cdc (r_payload r) of
        Inl e \<Rightarrow> Inl (''unmarshal payload: '' @ e)
      | Inr pl \<Rightarrow>
         Inr \<lparr>Position = uint64_of (int (r_position r)), Timestamp = time_Unix 0 (r_ts r),
              Kind = r_kind r,
              Entity = (case r_entity r of None \<Rightarrow> '''' | Some n \<Rightarrow> n),
              Source = r_source r,
              CorrelationID =
                (case r_correlation_id r of
                   None \<Rightarrow> uuid_Nil
                 | Some b \<Rightarrow> if length b = 16 then b else uuid_Nil),
              CausePosition = (case r_cause_position r of None \<Rightarrow> 0 | Some i \<Rightarrow> uint64_of i),
              Payload = Some pl\<rparr>)"

record QueryOptions =
  FromPosition :: nat
  ToPosition :: nat
  QFilter :: Filter
  Limit :: int

fun scanRows :: "codec \<Rightarrow> (event \<Rightarrow> bool) \<Rightarrow> event_row list \<Rightarrow> error + event list" where
  "scanRows cdc keep [] = Inr []"
| "scanRows cdc keep (r # rs) =
     (case scanEvent cdc r of
        Inl e \<Rightarrow> Inl e
      | Inr ev \<Rightarrow>
         (case scanRows cdc keep rs of
            Inl e \<Rightarrow> Inl e
          | Inr evs \<Rightarrow> Inr (if keep ev then ev # evs else evs)))"

definition selectRange :: "nat \<Rightarrow> nat \<Rightarrow> nat \<Rightarrow> event_row list \<Rightarrow> event_row list" where
  "selectRange from to lim rows =
     take lim (sort_key r_position
       (filter (\<lambda>r. r_position r > from \<and> (to = 0 \<or> r_position r \<le> to)) rows))"

text \<open>A query runs its statement, scans the rows and asks \<open>rows.Err()\<close>.\<close>

definition Query :: "codec \<Rightarrow> QueryOptions \<Rightarrow> (('x, 'm, 'z) st, event list) step" where
  "Query cdc q =
     (let limit = (if Limit q \<le> 0 then 1000 else nat (Limit q)) in
      bindS (wrapS ''query events''
        (dbQuery (\<lambda>d. selectRange (FromPosition q) (ToPosition q) limit (events d)))) (\<lambda>rows.
      case scanRows cdc (Matches (QFilter q)) rows of
        Inl e \<Rightarrow> failS e
      | Inr evs \<Rightarrow> bindS (dbExec id) (\<lambda>_. returnS evs)))"

text \<open>
  \<open>source LIKE '%substring%'\<close>: in a LIKE pattern \<open>%\<close> stands for any run of characters, \<open>_\<close> for one
  character, and ASCII letters match in either case.
\<close>

definition ascii_lower :: "char \<Rightarrow> char" where
  "ascii_lower c = (if of_char c \<ge> (65::nat) \<and> of_char c \<le> (90::nat)
     then char_of (of_char c + 32 :: nat) else c)"

fun sqlLike :: "string \<Rightarrow> string \<Rightarrow> bool" where
  "sqlLike [] s = (s = [])"
| "sqlLike (p # ps) s =
     (if p = CHR ''%'' then
        sqlLike ps s \<or> (case s of [] \<Rightarrow> False | _ # s' \<Rightarrow> sqlLike (p # ps) s')
      else case s of [] \<Rightarrow> False
           | c # s' \<Rightarrow> (p = CHR ''_'' \<or> ascii_lower p = ascii_lower c) \<and> sqlLike ps s')"

definition QueryBySourceSubstring ::
  "codec \<Rightarrow> string \<Rightarrow> (('x, 'm, 'z) st, event list) step" where
  "QueryBySourceSubstring cdc substring =
     bindS (wrapS ''query events by source''
       (dbQuery (\<lambda>d. sort_key r_position
          (filter (\<lambda>r. sqlLike (''%'' @ substring @ ''%'') (r_source r)) (events d))))) (\<lambda>rows.
     case scanRows cdc (\<lambda>_. True) rows of
       Inl e \<Rightarrow> failS e
     | Inr evs \<Rightarrow> bindS (dbExec id) (\<lambda>_. returnS evs))"


section \<open>Invariants of the log\<close>

text \<open>Positions are positive, strictly increasing in insertion order and bounded by the sequence.\<close>

definition log_wf :: "'x store_db_scheme \<Rightarrow> bool" where
  "log_wf d \<longleftrightarrow> sorted_wrt (<) (map r_position (events d)) \<and>
     (\<forall>r \<in> set (events d). 0 < r_position r \<and> r_position r \<le> sqlite_sequence d) \<and>
     sqlite_sequence d < 2 ^ 63"

text \<open>What a projector may not touch: the log, and everything of the store but memory and tables.\<close>

definition keeps_log :: "('x, 'm, 'z) st \<Rightarrow> ('x, 'm, 'z) st \<Rightarrow> bool" where
  "keeps_log s t \<longleftrightarrow> events (db t) = events (db s) \<and> sqlite_sequence (db t) = sqlite_sequence (db s) \<and>
     cfg t = cfg s \<and> latestPosition t = latestPosition s \<and> started t = started s"

lemma keeps_log_refl [simp]: "keeps_log s s"
  by (simp add: keeps_log_def)

lemma keeps_log_trans: "keeps_log s t \<Longrightarrow> keeps_log t u \<Longrightarrow> keeps_log s u"
  by (simp add: keeps_log_def)

text \<open>The transition of all sync projectors for one event, in registration order.\<close>

definition foldSync ::
  "('s, 'm) projectorReg list \<Rightarrow> (('s, 'm) projectorReg \<Rightarrow> event \<Rightarrow> 'v \<Rightarrow> 'v) \<Rightarrow> event \<Rightarrow> 'v \<Rightarrow> 'v"
  where
  "foldSync ps stp e =
     fold (\<lambda>reg v. if reg_mode reg = ProjectorModeSync then stp reg e v else v) ps"

section \<open>The retry loop\<close>

text \<open>
  An invariant kept by every failed attempt holds when the loop gives up, and holds in the state
  from which the successful attempt starts.
\<close>

lemma retryLoop_result:
  assumes "retryLoop ctx fn bs s = (r, t)" and "P s"
    and "\<And>s e s'. P s \<Longrightarrow> fn s = (Inl e, s') \<Longrightarrow> P s'"
  shows "case r of Inl e \<Rightarrow> P t | Inr x \<Rightarrow> \<exists>s'. P s' \<and> fn s' = (Inr x, t)"
  using assms
proof (induction bs arbitrary: s)
  case Nil
  then show ?case by (auto split: sum.splits)
next
  case (Cons b bs)
  obtain q s' where f: "fn s = (q, s')" by fastforce
  show ?case
  proof (cases q)
    case (Inr x)
    with f Cons.prems show ?thesis by auto
  next
    case (Inl e)
    with f Cons.prems have "P s'" by blast
    with f Inl Cons show ?thesis
      by (auto split: if_splits option.splits)
  qed
qed

text \<open>
  \<open>fn\<close> with a counter of its calls, and what the loop does to it: the counter does not change the
  result, one call is made per delay and one more, a busy error is only returned after the last one.
\<close>

definition counted :: "('s, 'a) step \<Rightarrow> ('s \<times> nat, 'a) step" where
  "counted fn = (\<lambda>(s, n). case fn s of (r, t) \<Rightarrow> (r, (t, Suc n)))"

lemma retryLoop_counted:
  "retryLoop ctx (counted fn) bs (s, n) =
     (case retryLoop ctx fn bs s of (r, t) \<Rightarrow> (r, (t, snd (snd (retryLoop ctx (counted fn) bs (s, n))))))"
proof (induction bs arbitrary: s n)
  case (Cons b bs)
  show ?case using Cons.IH [of "snd (fn s)" "Suc n"]
    by (cases "fn s") (auto simp: counted_def split: prod.splits sum.splits option.splits)
qed (simp add: counted_def split: prod.splits)

lemma retryLoop_count:
  assumes "retryLoop ctx (counted fn) bs (s, n) = (r, (t, m))"
  shows "n < m \<and> m \<le> n + Suc (length bs) \<and>
    (\<forall>e. r = Inl e \<longrightarrow> isSQLiteBusy e \<longrightarrow> m = n + Suc (length bs) \<or> (\<exists>b \<in> set bs. ctx b = Some e))"
  using assms
proof (induction bs arbitrary: s n)
  case (Cons b bs)
  obtain r1 t1 where f: "fn s = (r1, t1)" by fastforce
  show ?case
  proof (cases "\<exists>e. r1 = Inl e \<and> isSQLiteBusy e \<and> ctx b = None")
    case True
    with Cons.prems f have "retryLoop ctx (counted fn) bs (t1, Suc n) = (r, (t, m))"
      by (auto simp: counted_def)
    from Cons.IH [OF this] show ?thesis by auto
  next
    case False
    with Cons.prems f show ?thesis
      by (auto simp: counted_def split: sum.splits if_splits option.splits)
  qed
qed (auto simp: counted_def split: prod.splits)

text \<open>
  \<open>withRetry\<close> calls the transaction at least once and at most five times; counting does not
  disturb it; a busy error is returned only after the fifth call (or when the context's own error
  looks like one), and an error that is not busy is returned at once.
\<close>

theorem withRetry_bounded:
  "\<exists>n. withRetry ctx (counted fn) (s, 0) =
      (fst (withRetry ctx fn s), (snd (withRetry ctx fn s), n)) \<and> 1 \<le> n \<and> n \<le> 5 \<and>
    (\<forall>e. fst (withRetry ctx fn s) = Inl e \<longrightarrow> isSQLiteBusy e \<longrightarrow> n = 5 \<or> (\<exists>b \<in> set backoffs. ctx b = Some e)) \<and>
    (\<forall>e. fst (fn s) = Inl e \<longrightarrow> \<not> isSQLiteBusy e \<longrightarrow> n = 1 \<and> withRetry ctx fn s = fn s)"
proof -
  let ?w = "withRetry ctx fn s"
  obtain n where n: "withRetry ctx (counted fn) (s, 0) = (fst ?w, (snd ?w, n))"
    using retryLoop_counted [of ctx fn backoffs s 0] unfolding withRetry_def
    by (auto simp: case_prod_beta)
  have "n = 1 \<and> ?w = fn s" if "fst (fn s) = Inl e" "\<not> isSQLiteBusy e" for e
    using that n by (cases "fn s") (auto simp: withRetry_def backoffs_def counted_def)
  with n retryLoop_count [of ctx fn backoffs s 0 "fst ?w" "snd ?w" n] show ?thesis
    by (intro exI [of _ n]) (auto simp: withRetry_def backoffs_def)
qed

theorem withRetry_bounded_witness:
  "\<exists>n. withRetry (\<lambda>_. None) (counted (\<lambda>k. (if k < 3 then Inl ''SQLITE_BUSY'' else Inr k, Suc k))) (0 :: nat, 0) =
      (Inr 3, (4, n)) \<and> n \<le> 5"
  using withRetry_bounded [of "\<lambda>_. None" "\<lambda>k. (if k < 3 then Inl ''SQLITE_BUSY'' else Inr k, Suc k)" "0 :: nat"]
  by (auto simp: withRetry_def backoffs_def isSQLiteBusy_def)

section \<open>Positions of a well-formed log\<close>

lemma fold_max_last: "sorted (p # ps) \<Longrightarrow> fold max ps p = last (p # (ps :: nat list))"
  by (induction ps arbitrary: p) (auto simp: max_def)

lemma max_position_last:
  assumes "log_wf d"
  shows "max_position (events d) = (if events d = [] then None else Some (r_position (last (events d))))"
proof (cases "map r_position (events d)")
  case (Cons p ps)
  have "sorted_wrt (<) (p # ps)" using assms Cons by (simp add: log_wf_def)
  then have "sorted (p # ps)" by (rule strict_sorted_imp_sorted)
  then have "fold max ps p = last (map r_position (events d))" using Cons fold_max_last by metis
  moreover have ne: "events d \<noteq> []" using Cons by auto
  moreover have "last (map r_position (events d)) = r_position (last (events d))"
    using ne by (rule last_map)
  ultimately have "fold max ps p = r_position (last (events d))" by metis
  with ne Cons show ?thesis by (simp add: max_position_def)
qed (simp add: max_position_def)

text \<open>Appending rows above the sequence, in order, keeps the log well-formed.\<close>

lemma log_wf_append:
  assumes "log_wf d" "events d' = events d @ rows" "sqlite_sequence d' = sqlite_sequence d + length rows"
    "map r_position rows = map (\<lambda>j. sqlite_sequence d + Suc j) [0..<length rows]"
    "sqlite_sequence d' < 2 ^ 63"
  shows "log_wf d'"
proof -
  have new: "\<forall>p \<in> set (map r_position rows). sqlite_sequence d < p \<and> p \<le> sqlite_sequence d'"
    unfolding assms(3,4) by auto
  have old: "\<forall>p \<in> set (map r_position (events d)). 0 < p \<and> p \<le> sqlite_sequence d"
    using assms(1) by (auto simp: log_wf_def)
  have "sorted_wrt (<) (map r_position rows)"
    unfolding assms(4) by (simp add: sorted_wrt_map)
  moreover have "\<forall>p \<in> set (map r_position (events d)). \<forall>q \<in> set (map r_position rows). p < q"
    using new old by (meson le_less_trans)
  ultimately have 1: "sorted_wrt (<) (map r_position (events d'))"
    using assms(1,2) by (simp add: sorted_wrt_append log_wf_def)
  have "0 < p \<and> p \<le> sqlite_sequence d'" if "p \<in> set (map r_position (events d'))" for p
    using that new old assms(2,3) by (auto dest: gr_implies_not0 bspec)
  with 1 assms(5) show ?thesis by (simp add: log_wf_def)
qed

section \<open>The statements of a transaction\<close>

lemma insertEvent_cases:
  assumes "insertEvent e b s = (r, t)"
  shows "(case r of
      Inl _ \<Rightarrow> t = s\<lparr>faults := tl (faults s)\<rparr>
    | Inr _ \<Rightarrow> sqlite_sequence (db s) < 2 ^ 63 - 1 \<and>
        t = s\<lparr>faults := tl (faults s), db := (db s)\<lparr>
          events := events (db s) @ [eventRow e b (Suc (sqlite_sequence (db s)))],
          sqlite_sequence := Suc (sqlite_sequence (db s))\<rparr>\<rparr>)"
proof (cases "dbQuery sqlite_sequence s")
  case (Pair q s1)
  show ?thesis
  proof (cases q)
    case (Inl e0)
    with Pair assms show ?thesis
      by (auto simp: insertEvent_def bindS_def dest: dbQuery_InlD)
  next
    case (Inr n)
    with Pair have "n = sqlite_sequence (db s)" "s1 = s\<lparr>faults := tl (faults s)\<rparr>"
      by (auto dest: dbQuery_InrD)
    with Pair Inr assms show ?thesis
      by (auto simp: insertEvent_def bindS_def failS_def not_le split: if_splits)
  qed
qed

lemma advanceCursor_frame:
  assumes "advanceCursor now n p s = (r, t)"
  shows "mem t = mem s \<and> keeps_log s t \<and>
    (\<exists>c. db t = (db s)\<lparr>projection_cursors := c\<rparr>)"
proof (cases r)
  case (Inl e)
  with assms have "t = s\<lparr>faults := tl (faults s)\<rparr>"
    unfolding advanceCursor_def by (auto dest: dbExec_InlD)
  then show ?thesis
    by (auto simp: keeps_log_def intro: exI [of _ "projection_cursors (db s)"])
next
  case (Inr u)
  with assms show ?thesis
    unfolding advanceCursor_def by (auto simp: keeps_log_def dest!: dbExec_InrD)
qed

lemma lastInsertId_cases:
  assumes "lastInsertId s = (r, t)"
  shows "t = s\<lparr>faults := tl (faults s)\<rparr> \<and> (\<forall>p. r = Inr p \<longrightarrow> p = sqlite_sequence (db s))"
  using assms unfolding lastInsertId_def
  by (cases r) (auto dest: dbQuery_InrD dbQuery_InlD)

lemma wrapS_snd [simp]: "snd (wrapS p m s) = snd (m s)"
  by (auto simp: wrapS_def split: prod.splits sum.splits)

lemma wrapS_Inr_iff: "wrapS p m s = (Inr x, t) \<longleftrightarrow> m s = (Inr x, t)"
  by (auto simp: wrapS_def split: prod.splits sum.splits)

text \<open>
  How the event that was stored relates to the one passed in: the unset time and correlation id are
  filled in, everything else but the position is as given.
\<close>

definition filled :: "env \<Rightarrow> event \<Rightarrow> event \<Rightarrow> bool" where
  "filled en e e' \<longleftrightarrow> Kind e' = Kind e \<and> Entity e' = Entity e \<and> Source e' = Source e \<and>
     CausePosition e' = CausePosition e \<and> Payload e' = Payload e \<and>
     (Timestamp e' = Timestamp e \<or> Timestamp e' = env_now en) \<and>
     (CorrelationID e' = CorrelationID e \<or> CorrelationID e' \<in> range (env_uuid en))"

lemma filled_refl: "filled en e e"
  by (simp add: filled_def)

lemma filled_trans: "filled en a b \<Longrightarrow> filled en b c \<Longrightarrow> filled en a c"
  by (auto simp: filled_def)

lemma fillDefaults_simps [simp]:
  "Kind (fillDefaults n u e) = Kind e" "Entity (fillDefaults n u e) = Entity e"
  "Source (fillDefaults n u e) = Source e" "CausePosition (fillDefaults n u e) = CausePosition e"
  "Payload (fillDefaults n u e) = Payload e" "Position (fillDefaults n u e) = Position e"
  "Timestamp (fillDefaults n u e) = (if time_IsZero (Timestamp e) then n else Timestamp e)"
  "CorrelationID (fillDefaults n u e) = (if CorrelationID e = uuid_Nil then u else CorrelationID e)"
  by (auto simp: fillDefaults_def Let_def)

lemma filled_fillDefaults:
  "filled en e (fillDefaults (env_now en) (env_uuid en i) e)"
  "filled en e ((fillDefaults (env_now en) (env_uuid en i) e)\<lparr>Position := p\<rparr>)"
  by (auto simp: filled_def)

lemma list_all2_filled_update:
  "list_all2 (filled en) xs ys \<Longrightarrow> filled en (ys ! i) y \<Longrightarrow> list_all2 (filled en) xs (ys[i := y])"
  unfolding list_all2_conv_all_nth
  by (cases "i < length ys") (use filled_trans in \<open>fastforce simp: nth_list_update not_less\<close>)+

lemma list_all2_filled_trans:
  "list_all2 (filled en) xs ys \<Longrightarrow> list_all2 (filled en) ys zs \<Longrightarrow> list_all2 (filled en) xs zs"
  by (rule list_all2_trans [OF filled_trans])

text \<open>The row of a stored event, and the checks \<open>AppendBatch\<close> makes of it.\<close>

definition payloadBytes :: "codec \<Rightarrow> event \<Rightarrow> bytes" where
  "payloadBytes cdc e =
     (case Payload e of
        None \<Rightarrow> []
      | Some p \<Rightarrow> (case marshalPayload cdc p of Inl _ \<Rightarrow> [] | Inr b \<Rightarrow> b))"

definition rowOf :: "codec \<Rightarrow> event \<Rightarrow> event_row" where
  "rowOf cdc e = eventRow e (payloadBytes cdc e) (Position e)"

definition batch_valid :: "codec \<Rightarrow> env \<Rightarrow> event \<Rightarrow> bool" where
  "batch_valid cdc en e \<longleftrightarrow> Kind e \<noteq> [] \<and> Source e \<noteq> [] \<and>
     (Timestamp e = env_now en \<or> \<not> time_IsZero (Timestamp e)) \<and>
     (\<exists>p b. Payload e = Some p \<and> marshalPayload cdc p = Inr b)"

text \<open>
  Reading back a stored row gives the event. The hypotheses are the ranges of Go's types: an int64
  time, a 16-byte id, a uint64 cause.
\<close>

definition event_wf :: "event \<Rightarrow> bool" where
  "event_wf e \<longleftrightarrow> in_int64 (Timestamp e) \<and> length (CorrelationID e) = 16 \<and> CausePosition e < 2 ^ 64"

lemma scanEvent_rowOf:
  assumes "codec_roundtrip cdc" "event_wf e" "Position e < 2 ^ 64"
    "Payload e = Some p" "marshalPayload cdc p = Inr b"
  shows "scanEvent cdc (rowOf cdc e) = Inr e"
proof -
  have "unmarshalPayload cdc b = Inr p" using assms(1,5) by (simp add: codec_roundtrip_def)
  moreover have "uint64_of (int (Position e)) = Position e"
    using assms(3) by (simp add: uint64_of_def)
  ultimately show ?thesis
    using assms
    by (cases e) (auto simp: scanEvent_def rowOf_def payloadBytes_def eventRow_def event_wf_def
        time_Unix_def UnixNano_def)
qed

lemma scanRows_append:
  assumes "scanRows cdc P xs = Inr as" "scanRows cdc P ys = Inr bs"
  shows "scanRows cdc P (xs @ ys) = Inr (as @ bs)"
  using assms by (induction xs arbitrary: as) (auto split: sum.splits)

lemma scanRows_rowOf:
  assumes "codec_roundtrip cdc"
    "\<forall>e \<in> set evs. event_wf e \<and> Position e < 2 ^ 64 \<and> batch_valid cdc en e"
  shows "scanRows cdc (\<lambda>_. True) (map (rowOf cdc) evs) = Inr evs"
  using assms(2)
proof (induction evs)
  case (Cons e evs)
  then obtain p b where "Payload e = Some p" "marshalPayload cdc p = Inr b"
    by (auto simp: batch_valid_def)
  with Cons scanEvent_rowOf [OF assms(1), of e p b] show ?case by simp
qed simp

section \<open>The interface between the store and its projectors\<close>

text \<open>
  Each projector has a part of the memory with a published view and a staged view, and tables of its
  own in the database. \<open>Apply\<close> changes the staged view and its tables only, never the log and never
  the published view; \<open>Promote\<close> publishes what is staged; \<open>Discard\<close> drops it.
\<close>

locale event_projection =
  fixes ps :: "(('x, 'm, 'z) st, 'm) projectorReg list"
    and view :: "'m \<Rightarrow> 'v"
    and staged :: "'m \<Rightarrow> 'v"
    and pstep :: "(('x, 'm, 'z) st, 'm) projectorReg \<Rightarrow> event \<Rightarrow> 'v \<Rightarrow> 'v"
    and dview :: "'x store_db_scheme \<Rightarrow> 'w"
    and dstep :: "(('x, 'm, 'z) st, 'm) projectorReg \<Rightarrow> event \<Rightarrow> 'w \<Rightarrow> 'w"
  assumes apply_frame:
      "reg \<in> set ps \<Longrightarrow> Apply (reg_p reg) e s = (r, t) \<Longrightarrow>
         keeps_log s t \<and> view (mem t) = view (mem s)"
    and apply_step:
      "reg \<in> set ps \<Longrightarrow> Apply (reg_p reg) e s = (Inr (), t) \<Longrightarrow>
         staged (mem t) = pstep reg e (staged (mem s)) \<and> dview (db t) = dstep reg e (dview (db s))"
    and promote_view: "view (promoteAll ps m) = staged m"
    and promote_staged: "staged (promoteAll ps m) = staged m"
    and discard_view: "view (discardAll ps m) = view m"
    and discard_staged: "staged (discardAll ps m) = view m"
    and dview_log: "dview (d\<lparr>events := es, sqlite_sequence := n\<rparr>) = dview d"
    and dview_cursors: "dview (d\<lparr>projection_cursors := c\<rparr>) = dview d"
begin

abbreviation "vstep \<equiv> foldSync ps pstep"
abbreviation "wstep \<equiv> foldSync ps dstep"

text \<open>Nothing is staged.\<close>

definition settled :: "'m \<Rightarrow> bool" where
  "settled m \<longleftrightarrow> staged m = view m"

text \<open>A state that looks as before to every reader.\<close>

definition same_as :: "('x, 'm, 'z) st \<Rightarrow> ('x, 'm, 'z) st \<Rightarrow> bool" where
  "same_as s t \<longleftrightarrow> db t = db s \<and> view (mem t) = view (mem s) \<and> settled (mem t) \<and>
     cfg t = cfg s \<and> latestPosition t = latestPosition s \<and> started t = started s"

text \<open>What the loop over the projectors guarantees, for a continuation that only moves cursors.\<close>

lemma syncLoop_frame:
  assumes after: "\<And>n s r t. after n s = (r, t) \<Longrightarrow> mem t = mem s \<and> keeps_log s t"
  shows "keeps_log s (snd (syncLoop ps lbl after e s)) \<and>
    view (mem (snd (syncLoop ps lbl after e s))) = view (mem s)"
proof -
  let ?P = "\<lambda>t. keeps_log s t \<and> view (mem t) = view (mem s)"
  show ?thesis
    unfolding syncLoop_def
  proof (rule forS_inv [where P = ?P])
    fix reg t assume reg: "reg \<in> set ps" and t: "?P t"
    obtain r u where a: "wrapS (lbl (Name (reg_p reg))) (applyProjector reg e) t = (r, u)" by fastforce
    then have "snd (Apply (reg_p reg) e t) = u"
      unfolding applyProjector_def by (metis snd_conv wrapS_snd)
    then have u: "?P u"
      using apply_frame [OF reg, of e t] t by (metis keeps_log_trans prod.collapse)
    obtain q w where f: "after (Name (reg_p reg)) u = (q, w)" by fastforce
    with after u have w: "?P w" by (metis keeps_log_trans)
    show "?P (snd ((if reg_mode reg \<noteq> ProjectorModeSync then returnS ()
        else bindS (wrapS (lbl (Name (reg_p reg))) (applyProjector reg e))
               (\<lambda>_. after (Name (reg_p reg)))) t))"
      using a f t u w by (cases r) (auto simp: bindS_def returnS_def)
  qed simp
qed

lemma syncLoop_step:
  assumes after: "\<And>n s r t. after n s = (r, t) \<Longrightarrow> mem t = mem s \<and> dview (db t) = dview (db s)"
    and run: "syncLoop ps lbl after e s = (Inr (), t)"
  shows "staged (mem t) = vstep e (staged (mem s)) \<and> dview (db t) = wstep e (dview (db s))"
proof -
  have "staged (mem t) = foldSync qs pstep e (staged (mem s)) \<and>
      dview (db t) = foldSync qs dstep e (dview (db s))"
    if "set qs \<subseteq> set ps" "syncLoop qs lbl after e s = (Inr (), t)" for qs
    using that
  proof (induction qs arbitrary: s)
    case Nil
    then show ?case by (simp add: syncLoop_def foldSync_def returnS_def)
  next
    case (Cons reg qs)
    show ?case
    proof (cases "reg_mode reg = ProjectorModeSync")
      case False
      with Cons show ?thesis by (simp add: syncLoop_def foldSync_def bindS_def returnS_def)
    next
      case True
      with Cons.prems(2) obtain u w where
        "applyProjector reg e s = (Inr (), u)" "after (Name (reg_p reg)) u = (Inr (), w)"
        "syncLoop qs lbl after e w = (Inr (), t)"
        by (auto simp: syncLoop_def wrapS_Inr_iff elim!: bindS_InrE)
      moreover have "reg \<in> set ps" "set qs \<subseteq> set ps" using Cons.prems(1) by auto
      ultimately show ?thesis
        using Cons.IH after [of "Name (reg_p reg)" u] apply_step [of reg e s u] True
        by (auto simp: applyProjector_def foldSync_def)
    qed
  qed
  with run show ?thesis by blast
qed

lemma cursor_after:
  assumes "wrapS q (advanceCursor now n p) s = (r, t)"
  shows "mem t = mem s \<and> keeps_log s t \<and> dview (db t) = dview (db s)"
proof -
  have "snd (advanceCursor now n p s) = t" using assms by (metis snd_conv wrapS_snd)
  then show ?thesis
    using advanceCursor_frame [of now n p s "fst (advanceCursor now n p s)" t] dview_cursors
    by (metis prod.collapse)
qed

lemma syncLoop_cursor_frame:
  assumes "syncLoop ps lbl (\<lambda>n. wrapS (q n) (advanceCursor now n p)) e s = (r, t)"
  shows "keeps_log s t \<and> view (mem t) = view (mem s)"
proof -
  have "mem t' = mem s' \<and> keeps_log s' t'"
    if "wrapS (q n) (advanceCursor now n p) s' = (r', t')" for n r' and s' t' :: "('x, 'm, 'z) st"
    using cursor_after [OF that] by simp
  from syncLoop_frame [where after = "\<lambda>n. wrapS (q n) (advanceCursor now n p)" and s = s
      and lbl = lbl and e = e, OF this] assms
  show ?thesis by simp
qed

lemma syncLoop_cursor_step:
  assumes "syncLoop ps lbl (\<lambda>n. wrapS (q n) (advanceCursor now n p)) e s = (Inr (), t)"
  shows "staged (mem t) = vstep e (staged (mem s)) \<and> dview (db t) = wstep e (dview (db s))"
proof (rule syncLoop_step [OF _ assms])
  fix n r' and s' t' :: "('x, 'm, 'z) st"
  assume "wrapS (q n) (advanceCursor now n p) s' = (r', t')"
  from cursor_after [OF this] show "mem t' = mem s' \<and> dview (db t') = dview (db s')" by simp
qed

subsection \<open>One transaction\<close>

definition txBody where
  "txBody now e payload =
     bindS (wrapS ''insert event'' (insertEvent e payload)) (\<lambda>_.
        bindS (wrapS ''last insert id'' lastInsertId) (\<lambda>pos.
        bindS (syncLoop ps (\<lambda>n. ''projector '' @ n @ '' apply'')
                 (\<lambda>n. wrapS (''advance cursor '' @ n) (advanceCursor now n pos))
                 (e\<lparr>Position := pos\<rparr>)) (\<lambda>_.
        returnS pos)))"

lemma txBody_frame:
  assumes "txBody now e payload s = (r, t)"
  shows "view (mem t) = view (mem s) \<and> cfg t = cfg s \<and> latestPosition t = latestPosition s \<and>
    started t = started s"
proof -
  let ?P = "\<lambda>t. view (mem t) = view (mem s) \<and> cfg t = cfg s \<and> latestPosition t = latestPosition s \<and>
    started t = started s"
  obtain r1 s1 where 1: "insertEvent e payload s = (r1, s1)" by fastforce
  have p1: "?P s1" using insertEvent_cases [OF 1] by (auto split: sum.splits)
  obtain r2 s2 where 2: "lastInsertId s1 = (r2, s2)" by fastforce
  have p2: "?P s2" using lastInsertId_cases [OF 2] p1 by auto
  have p3: "?P t'"
    if "syncLoop ps lbl (\<lambda>n. wrapS (q n) (advanceCursor now n p)) e' s2 = (r', t')" for lbl q p e' r' t'
    using syncLoop_cursor_frame [OF that] p2 by (auto simp: keeps_log_def)
  show ?thesis
  proof (cases r1)
    case (Inl err)
    with 1 assms p1 show ?thesis by (auto simp: txBody_def bindS_def wrapS_def)
  next
    case r1: (Inr u)
    show ?thesis
    proof (cases r2)
      case (Inl err)
      with 1 2 r1 assms p2 show ?thesis by (auto simp: txBody_def bindS_def wrapS_def)
    next
      case (Inr pos)
      obtain r3 s3 where 3: "syncLoop ps (\<lambda>n. ''projector '' @ n @ '' apply'')
          (\<lambda>n. wrapS (''advance cursor '' @ n) (advanceCursor now n pos)) (e\<lparr>Position := pos\<rparr>) s2 = (r3, s3)"
        by fastforce
      have "t = s3"
        using assms 1 2 r1 Inr 3
        by (cases r3) (simp_all add: txBody_def bindS_def wrapS_Inr_iff [THEN iffD2] returnS_def)
      with p3 [OF 3] show ?thesis by simp
    qed
  qed
qed

lemma txBody_ok:
  assumes "txBody now e payload s = (Inr pos, t)"
  shows "pos = Suc (sqlite_sequence (db s)) \<and> sqlite_sequence (db s) < 2 ^ 63 - 1 \<and>
    events (db t) = events (db s) @ [eventRow e payload pos] \<and> sqlite_sequence (db t) = pos \<and>
    staged (mem t) = vstep (e\<lparr>Position := pos\<rparr>) (staged (mem s)) \<and>
    dview (db t) = wstep (e\<lparr>Position := pos\<rparr>) (dview (db s))"
proof -
  from assms obtain s1 s2 where 1: "insertEvent e payload s = (Inr (), s1)"
    and 2: "lastInsertId s1 = (Inr pos, s2)"
    and 3: "syncLoop ps (\<lambda>n. ''projector '' @ n @ '' apply'')
         (\<lambda>n. wrapS (''advance cursor '' @ n) (advanceCursor now n pos)) (e\<lparr>Position := pos\<rparr>) s2 = (Inr (), t)"
    by (auto simp: txBody_def wrapS_Inr_iff returnS_def elim!: bindS_InrE)
  show ?thesis
    using syncLoop_cursor_frame [OF 3] syncLoop_cursor_step [OF 3] insertEvent_cases [OF 1] lastInsertId_cases [OF 2] dview_log
    by (auto simp: keeps_log_def)
qed

lemma appendTx_fail:
  assumes "appendTx now ps e payload s = (Inl err, t)" and "same_as s0 s"
  shows "same_as s0 t"
proof -
  have run: "runTx (discardAll ps) (promoteAll ps) (\<lambda>e. ''commit: '' @ e) (txBody now e payload) s = (Inl err, t)"
    using assms(1) by (simp add: appendTx_def txBody_def)
  show ?thesis
  proof (cases rule: runTx_InlD [OF run])
    case 1
    with assms(2) show ?thesis by (simp add: same_as_def)
  next
    case (2 s1 r s2)
    with assms(2) txBody_frame [OF 2(2)] show ?thesis
      by (auto simp: same_as_def settled_def discard_view discard_staged)
  qed
qed

lemma appendTx_ok:
  assumes "appendTx now ps e payload s = (Inr pos, t)" and "settled (mem s)"
  shows "pos = Suc (sqlite_sequence (db s)) \<and> sqlite_sequence (db s) < 2 ^ 63 - 1 \<and>
    events (db t) = events (db s) @ [eventRow e payload pos] \<and> sqlite_sequence (db t) = pos \<and>
    view (mem t) = vstep (e\<lparr>Position := pos\<rparr>) (view (mem s)) \<and> settled (mem t) \<and>
    dview (db t) = wstep (e\<lparr>Position := pos\<rparr>) (dview (db s)) \<and>
    cfg t = cfg s \<and> latestPosition t = latestPosition s \<and> started t = started s"
proof -
  have run: "runTx (discardAll ps) (promoteAll ps) (\<lambda>e. ''commit: '' @ e) (txBody now e payload) s = (Inr pos, t)"
    using assms(1) by (simp add: appendTx_def txBody_def)
  obtain s1 s2 where s1: "s1 = s\<lparr>faults := tl (faults s)\<rparr>"
    and b: "txBody now e payload s1 = (Inr pos, s2)"
    and t: "t = s2\<lparr>faults := tl (faults s2), mem := promoteAll ps (mem s2)\<rparr>"
    using run by (rule runTx_InrD)
  from txBody_ok [OF b] txBody_frame [OF b] s1 t assms(2) show ?thesis
    by (auto simp: settled_def promote_view promote_staged)
qed

subsection \<open>Append\<close>

lemma Append_fail:
  assumes "Append cdc en ps e s = (Inl err, t)" and "settled (mem s)"
  shows "same_as s t"
proof -
  have s: "same_as s s" using assms(2) by (simp add: same_as_def)
  have retry: "same_as s t" if "withRetry (env_ctxDone en) (appendTx (env_now en) ps e' b) s = (Inl err, t)" for e' b
    using retryLoop_result [OF that [unfolded withRetry_def], of "same_as s"] s appendTx_fail by auto
  show ?thesis
    using assms(1) s retry
    by (auto simp: Append_def Let_def split: if_splits option.splits sum.splits prod.splits)
qed

lemma Append_ok:
  assumes "Append cdc en ps e s = (Inr pos, t)" and "settled (mem s)"
  obtains pl b where "Payload e = Some pl" "marshalPayload cdc pl = Inr b" "Kind e \<noteq> []" "Source e \<noteq> []"
    "pos = Suc (sqlite_sequence (db s))" "sqlite_sequence (db s) < 2 ^ 63 - 1"
    "events (db t) = events (db s) @ [eventRow (fillDefaults (env_now en) (env_uuid en 0) e) b pos]"
    "sqlite_sequence (db t) = pos"
    "view (mem t) = vstep ((fillDefaults (env_now en) (env_uuid en 0) e)\<lparr>Position := pos\<rparr>) (view (mem s))"
    "dview (db t) = wstep ((fillDefaults (env_now en) (env_uuid en 0) e)\<lparr>Position := pos\<rparr>) (dview (db s))"
    "settled (mem t)" "latestPosition t = max (latestPosition s) pos"
proof -
  let ?e = "fillDefaults (env_now en) (env_uuid en 0) e"
  from assms(1) obtain pl b s1 where
    pl: "Payload e = Some pl" "marshalPayload cdc pl = Inr b" "Kind e \<noteq> []" "Source e \<noteq> []"
    and r: "withRetry (env_ctxDone en) (appendTx (env_now en) ps ?e b) s = (Inr pos, s1)"
    and t: "t = (if pos > latestPosition s1 then s1\<lparr>latestPosition := pos\<rparr> else s1)"
    by (auto simp: Append_def Let_def split: if_splits option.splits sum.splits prod.splits)
  have "same_as s s" using assms(2) by (simp add: same_as_def)
  then obtain s' where s': "same_as s s'" "appendTx (env_now en) ps ?e b s' = (Inr pos, s1)"
    using retryLoop_result [OF r [unfolded withRetry_def], of "same_as s"] appendTx_fail by auto
  then have "settled (mem s')" by (simp add: same_as_def)
  from appendTx_ok [OF s'(2) this] s'(1) pl t show thesis
    by (intro that [of pl b]) (auto simp: same_as_def max_def)
qed

subsection \<open>AppendBatch\<close>

lemma syncLoop_plain_frame:
  assumes "syncLoop ps lbl (\<lambda>_. returnS ()) e s = (r, t)"
  shows "keeps_log s t \<and> view (mem t) = view (mem s)"
  using syncLoop_frame [where after = "\<lambda>_. returnS ()" and s = s and lbl = lbl and e = e] assms
  by (simp add: returnS_def)

lemma syncLoop_plain_step:
  assumes "syncLoop ps lbl (\<lambda>_. returnS ()) e s = (Inr (), t)"
  shows "staged (mem t) = vstep e (staged (mem s)) \<and> dview (db t) = wstep e (dview (db s))"
  by (rule syncLoop_step [OF _ assms]) (simp add: returnS_def)

lemma insert_last_cases:
  assumes "bindS (insertEvent e b) (\<lambda>_. lastInsertId) s = (r, t)"
  shows "mem t = mem s \<and> cfg t = cfg s \<and> latestPosition t = latestPosition s \<and> started t = started s \<and>
    (\<forall>pos. r = Inr pos \<longrightarrow> pos = Suc (sqlite_sequence (db s)) \<and> sqlite_sequence (db s) < 2 ^ 63 - 1 \<and>
      events (db t) = events (db s) @ [eventRow e b pos] \<and> sqlite_sequence (db t) = pos \<and>
      dview (db t) = dview (db s))"
proof (cases "insertEvent e b s")
  case (Pair r1 s1)
  obtain r2 s2 where 2: "lastInsertId s1 = (r2, s2)" by fastforce
  show ?thesis
    using assms Pair 2 insertEvent_cases [OF Pair] lastInsertId_cases [OF 2] dview_log
    by (cases r1) (auto simp: bindS_def)
qed

lemma batchEvent_frame:
  assumes "batchEvent cdc en ps i (s, evs) = (r, (t, evs'))"
  shows "view (mem t) = view (mem s) \<and> cfg t = cfg s \<and> latestPosition t = latestPosition s \<and>
    started t = started s \<and> (\<exists>e'. evs' = evs[i := e'] \<and> filled en (evs ! i) e')"
proof (cases "Payload (evs ! i)")
  case None
  with assms show ?thesis
    by (auto simp: batchEvent_def Let_def filled_refl intro: exI [of _ "evs' ! i"])
next
  case (Some pl)
  let ?e = "fillDefaults (env_now en) (env_uuid en i) (evs ! i)"
  show ?thesis
  proof (cases "Kind (evs ! i) = [] \<or> Source (evs ! i) = [] \<or> (\<exists>err. marshalPayload cdc pl = Inl err)")
    case True
    with assms Some show ?thesis
      by (cases "Kind (evs ! i) = [] \<or> Source (evs ! i) = []")
         (auto simp: batchEvent_def Let_def filled_refl
           intro: exI [of _ "evs' ! i"] exI [of _ ?e] filled_fillDefaults split: sum.splits)
  next
    case False
    then obtain b where b: "marshalPayload cdc pl = Inr b" by (cases "marshalPayload cdc pl") auto
    obtain r1 s1 where 1: "bindS (insertEvent ?e b) (\<lambda>_. lastInsertId) s = (r1, s1)" by fastforce
    note c = insert_last_cases [OF 1]
    show ?thesis
    proof (cases r1)
      case (Inl err)
      with assms Some False b 1 c show ?thesis
        by (auto simp: batchEvent_def Let_def intro: exI [of _ ?e] filled_fillDefaults)
    next
      case (Inr pos)
      obtain r2 s2 where 2: "syncLoop ps projectorLabel (\<lambda>_. returnS ()) (?e\<lparr>Position := pos\<rparr>) s1
          = (r2, s2)" by fastforce
      with assms Some False b 1 Inr have "t = s2" "evs' = evs[i := ?e\<lparr>Position := pos\<rparr>]"
        by (auto simp: batchEvent_def Let_def)
      with c syncLoop_plain_frame [OF 2] show ?thesis
        by (auto simp: keeps_log_def intro: exI [of _ "?e\<lparr>Position := pos\<rparr>"] filled_fillDefaults)
    qed
  qed
qed

lemma batchEvent_ok:
  assumes "batchEvent cdc en ps i (s, evs) = (Inr (), (t, evs'))"
  obtains e' where "evs' = evs[i := e']" "filled en (evs ! i) e'" "batch_valid cdc en e'"
    "Position e' = Suc (sqlite_sequence (db s))" "sqlite_sequence (db s) < 2 ^ 63 - 1"
    "events (db t) = events (db s) @ [rowOf cdc e']" "sqlite_sequence (db t) = Suc (sqlite_sequence (db s))"
    "staged (mem t) = vstep e' (staged (mem s))" "dview (db t) = wstep e' (dview (db s))"
proof -
  let ?e = "fillDefaults (env_now en) (env_uuid en i) (evs ! i)"
  from assms obtain pl b pos s1 where pl: "Payload (evs ! i) = Some pl" "marshalPayload cdc pl = Inr b"
      "Kind (evs ! i) \<noteq> []" "Source (evs ! i) \<noteq> []"
    and 1: "bindS (insertEvent ?e b) (\<lambda>_. lastInsertId) s = (Inr pos, s1)"
    and 2: "syncLoop ps projectorLabel (\<lambda>_. returnS ()) (?e\<lparr>Position := pos\<rparr>) s1 = (Inr (), t)"
    and evs': "evs' = evs[i := ?e\<lparr>Position := pos\<rparr>]"
    by (auto simp: batchEvent_def Let_def split: option.splits if_splits sum.splits prod.splits)
  have "eventRow (?e\<lparr>Position := pos\<rparr>) b pos = eventRow ?e b pos" by (simp add: eventRow_def)
  then have row: "eventRow ?e b pos = rowOf cdc (?e\<lparr>Position := pos\<rparr>)"
    using pl by (simp add: rowOf_def payloadBytes_def)
  have f: "filled en (evs ! i) (?e\<lparr>Position := pos\<rparr>)" by (simp add: filled_fillDefaults)
  moreover have "batch_valid cdc en (?e\<lparr>Position := pos\<rparr>)" using pl by (simp add: batch_valid_def)
  ultimately show thesis
    using evs' row insert_last_cases [OF 1] syncLoop_plain_frame [OF 2] syncLoop_plain_step [OF 2]
    by (intro that [of "?e\<lparr>Position := pos\<rparr>"]) (auto simp: keeps_log_def)
qed

lemma batchLoop_frame:
  assumes "forS is (batchEvent cdc en ps) (s, evs) = (r, (t, evs'))"
  shows "view (mem t) = view (mem s) \<and> cfg t = cfg s \<and> latestPosition t = latestPosition s \<and>
    started t = started s \<and> list_all2 (filled en) evs evs'"
proof -
  let ?P = "\<lambda>(t, evs'). view (mem t) = view (mem s) \<and> cfg t = cfg s \<and> latestPosition t = latestPosition s \<and>
    started t = started s \<and> list_all2 (filled en) evs evs'"
  have "?P (snd (forS is (batchEvent cdc en ps) (s, evs)))"
  proof (rule forS_inv)
    fix i and q :: "('x, 'm, 'z) batch"
    assume "?P q"
    moreover obtain r1 q1 where b: "batchEvent cdc en ps i q = (r1, q1)" by (metis surj_pair)
    moreover obtain s0 ev0 s1 ev1 where q: "q = (s0, ev0)" "q1 = (s1, ev1)" by fastforce
    ultimately show "?P (snd (batchEvent cdc en ps i q))"
      using batchEvent_frame [of cdc en i s0 ev0 r1 s1 ev1] list_all2_filled_update [of en evs ev0 i]
      by auto
  qed (simp add: list_all2_refl filled_refl)
  with assms show ?thesis by simp
qed

text \<open>A successful pass: rows, positions and projections of the slice from index \<open>i\<close> on.\<close>

lemma batchLoop_ok:
  assumes "forS [i..<length evs] (batchEvent cdc en ps) (s, evs) = (Inr (), (t, evs'))" "i \<le> length evs"
  shows "length evs' = length evs \<and> take i evs' = take i evs \<and>
    (\<forall>e \<in> set (drop i evs'). batch_valid cdc en e) \<and>
    map Position (drop i evs') = map (\<lambda>j. sqlite_sequence (db s) + Suc j) [0..<length evs - i] \<and>
    (i < length evs \<longrightarrow> sqlite_sequence (db t) < 2 ^ 63) \<and>
    events (db t) = events (db s) @ map (rowOf cdc) (drop i evs') \<and>
    sqlite_sequence (db t) = sqlite_sequence (db s) + (length evs - i) \<and>
    staged (mem t) = fold vstep (drop i evs') (staged (mem s)) \<and>
    dview (db t) = fold wstep (drop i evs') (dview (db s))"
  using assms
proof (induction "length evs - i" arbitrary: i s evs)
  case 0
  then show ?case by (simp add: returnS_def)
next
  case (Suc n)
  then have lt: "i < length evs" by simp
  then have "[i..<length evs] = i # [Suc i..<length evs]" by (simp add: upt_conv_Cons)
  with Suc.prems obtain s1 ev1 where 1: "batchEvent cdc en ps i (s, evs) = (Inr (), (s1, ev1))"
    and 2: "forS [Suc i..<length evs] (batchEvent cdc en ps) (s1, ev1) = (Inr (), (t, evs'))"
    by (auto elim!: bindS_InrE)
  obtain e' where e': "ev1 = evs[i := e']" "batch_valid cdc en e'"
    "Position e' = Suc (sqlite_sequence (db s))" "sqlite_sequence (db s) < 2 ^ 63 - 1"
    "events (db s1) = events (db s) @ [rowOf cdc e']"
    "sqlite_sequence (db s1) = Suc (sqlite_sequence (db s))"
    "staged (mem s1) = vstep e' (staged (mem s))" "dview (db s1) = wstep e' (dview (db s))"
    using 1 by (rule batchEvent_ok)
  have len: "length ev1 = length evs" using e' by simp
  have n: "n = length ev1 - Suc i" and le: "Suc i \<le> length ev1" using Suc.hyps(2) len lt by simp_all
  have rest: "forS [Suc i..<length ev1] (batchEvent cdc en ps) (s1, ev1) = (Inr (), (t, evs'))"
    using 2 len by simp
  have IH: "length evs' = length ev1" "take (Suc i) evs' = take (Suc i) ev1"
      "\<forall>e \<in> set (drop (Suc i) evs'). batch_valid cdc en e"
      "map Position (drop (Suc i) evs') = map (\<lambda>j. sqlite_sequence (db s1) + Suc j) [0..<n]"
      "Suc i < length ev1 \<longrightarrow> sqlite_sequence (db t) < 2 ^ 63"
      "events (db t) = events (db s1) @ map (rowOf cdc) (drop (Suc i) evs')"
      "sqlite_sequence (db t) = sqlite_sequence (db s1) + n"
      "staged (mem t) = fold vstep (drop (Suc i) evs') (staged (mem s1))"
      "dview (db t) = fold wstep (drop (Suc i) evs') (dview (db s1))"
    using Suc.hyps(1) [OF n rest le, folded n] by blast+
  have "drop i evs' = (evs' ! i) # drop (Suc i) evs'"
    using IH(1) len lt by (simp add: Cons_nth_drop_Suc)
  moreover have "evs' ! i = e'"
    using IH(2) e'(1) lt by (metis lessI nth_list_update_eq nth_take)
  ultimately have d: "drop i evs' = e' # drop (Suc i) evs'" by simp
  have tk: "take i evs' = take i evs"
    using IH(2) e'(1) by (metis take_update_cancel lessI less_imp_le_nat min_def take_take order_refl)
  have ix: "map (\<lambda>j. sqlite_sequence (db s) + Suc j) [0..<Suc n] =
      Suc (sqlite_sequence (db s)) # map (\<lambda>j. sqlite_sequence (db s1) + Suc j) [0..<n]"
    using e'(6) by (simp add: upt_conv_Cons map_Suc_upt [symmetric] del: upt_Suc)
  have sz: "length evs - i = Suc n" using Suc.hyps(2) by simp
  have bnd: "sqlite_sequence (db t) < 2 ^ 63"
    using IH(5,7) e'(4,6) len lt Suc.hyps(2) by (cases "Suc i < length evs") auto
  show ?case
    unfolding d sz ix using IH e' tk bnd len by auto
qed

lemma batchCursors_frame:
  fixes s t :: "('x, 'm, 'z) st"
  assumes "batchCursors now qs p s = (r, t)"
  shows "mem t = mem s \<and> keeps_log s t \<and> dview (db t) = dview (db s)"
proof -
  let ?P = "\<lambda>t. mem t = mem s \<and> keeps_log s t \<and> dview (db t) = dview (db s)"
  have "?P (snd (batchCursors now qs p s))"
    unfolding batchCursors_def
  proof (rule forS_inv)
    fix reg and u :: "('x, 'm, 'z) st"
    assume u: "?P u"
    obtain r1 v where a: "advanceCursor now (Name (reg_p reg)) p u = (r1, v)" by fastforce
    with u advanceCursor_frame [OF a] dview_cursors keeps_log_trans
    have "?P v" by (metis (no_types, lifting))
    with a u show "?P (snd ((if reg_mode reg \<noteq> ProjectorModeSync then returnS ()
        else advanceCursor now (Name (reg_p reg)) p) u))"
      by (simp add: returnS_def)
  qed simp
  with assms show ?thesis by simp
qed

lemma batchBody_frame:
  assumes "batchBody cdc en ps (s, evs) = (r, (t, evs'))"
  shows "view (mem t) = view (mem s) \<and> cfg t = cfg s \<and> latestPosition t = latestPosition s \<and>
    started t = started s \<and> list_all2 (filled en) evs evs'"
proof -
  obtain r1 s1 ev1 where 1: "forS [0..<length evs] (batchEvent cdc en ps) (s, evs) = (r1, (s1, ev1))"
    by (metis prod.collapse)
  obtain r2 s2 where 2: "batchCursors (env_now en) ps (Position (last ev1)) s1 = (r2, s2)" by fastforce
  from assms 1 2 batchLoop_frame [OF 1] batchCursors_frame [OF 2] show ?thesis
    by (cases r1) (auto simp: batchBody_def keeps_log_def)
qed

lemma batchTx_fail:
  assumes "batchTx cdc en ps q = (Inl err, q')"
    and "same_as s0 (fst q) \<and> list_all2 (filled en) evs0 (snd q)"
  shows "same_as s0 (fst q') \<and> list_all2 (filled en) evs0 (snd q')"
proof -
  obtain s evs t evs' where q: "q = (s, evs)" "q' = (t, evs')" by fastforce
  obtain r0 s1 where 0: "dbExec id s = (r0, s1)" by fastforce
  have s1: "s1 = s\<lparr>faults := tl (faults s)\<rparr>"
    using 0 by (cases r0) (auto dest: dbExec_InrD dbExec_InlD)
  obtain r1 s2 ev2 where 1: "batchBody cdc en ps (s1, evs) = (r1, (s2, ev2))" by (metis prod.collapse)
  obtain r3 s3 where 3: "dbExec id s2 = (r3, s3)" by fastforce
  have s3: "s3 = s2\<lparr>faults := tl (faults s2)\<rparr>"
    using 3 by (cases r3) (auto dest: dbExec_InrD dbExec_InlD)
  have l2: "list_all2 (filled en) evs0 ev2"
    using assms(2) q batchBody_frame [OF 1] list_all2_filled_trans by fastforce
  have f: "view (mem s2) = view (mem s)" "cfg s2 = cfg s" "latestPosition s2 = latestPosition s"
      "started s2 = started s"
    using batchBody_frame [OF 1] s1 by simp_all
  have "evs' = evs \<and> t = s1 \<or>
      evs' = ev2 \<and> (t = s2\<lparr>db := db s1, mem := discardAll ps (mem s2)\<rparr> \<or>
        t = s3\<lparr>db := db s1, mem := discardAll ps (mem s3)\<rparr>)"
    using assms(1) q 0 1 3 unfolding batchTx_def by (cases r0; cases r1; cases r3) simp_all
  then show ?thesis
  proof (elim disjE conjE)
    assume "evs' = evs" "t = s1"
    with assms(2) q s1 show ?thesis by (simp add: same_as_def)
  next
    assume t: "evs' = ev2" "t = s2\<lparr>db := db s1, mem := discardAll ps (mem s2)\<rparr>"
    with assms(2) q s1 f l2 show ?thesis
      by (simp add: same_as_def settled_def discard_view discard_staged)
  next
    assume t: "evs' = ev2" "t = s3\<lparr>db := db s1, mem := discardAll ps (mem s3)\<rparr>"
    with assms(2) q s1 s3 f l2 show ?thesis
      by (simp add: same_as_def settled_def discard_view discard_staged)
  qed
qed

lemma batchTx_ok:
  assumes "batchTx cdc en ps (s, evs) = (Inr (), (t, evs'))" "settled (mem s)"
  shows "length evs' = length evs \<and> list_all2 (filled en) evs evs' \<and>
    (\<forall>e \<in> set evs'. batch_valid cdc en e) \<and>
    map Position evs' = map (\<lambda>j. sqlite_sequence (db s) + Suc j) [0..<length evs] \<and>
    (evs \<noteq> [] \<longrightarrow> sqlite_sequence (db t) < 2 ^ 63) \<and>
    events (db t) = events (db s) @ map (rowOf cdc) evs' \<and>
    sqlite_sequence (db t) = sqlite_sequence (db s) + length evs \<and>
    view (mem t) = fold vstep evs' (view (mem s)) \<and> settled (mem t) \<and>
    dview (db t) = fold wstep evs' (dview (db s)) \<and>
    cfg t = cfg s \<and> latestPosition t = latestPosition s \<and> started t = started s"
proof -
  from assms(1) obtain u v s1 s2 s3 where 0: "dbExec id s = (Inr u, s1)"
    and 1: "batchBody cdc en ps (s1, evs) = (Inr (), (s2, evs'))"
    and 3: "dbExec id s2 = (Inr v, s3)" and t: "t = s3\<lparr>mem := promoteAll ps (mem s3)\<rparr>"
    by (auto simp: batchTx_def split: prod.splits sum.splits)
  have s1: "s1 = s\<lparr>faults := tl (faults s)\<rparr>" using dbExec_InrD [OF 0] by simp
  have s3: "s3 = s2\<lparr>faults := tl (faults s2)\<rparr>" using dbExec_InrD [OF 3] by simp
  from 1 obtain s4 where 4: "forS [0..<length evs] (batchEvent cdc en ps) (s1, evs) = (Inr (), (s4, evs'))"
    and 5: "batchCursors (env_now en) ps (Position (last evs')) s4 = (Inr (), s2)"
    by (auto simp: batchBody_def split: prod.splits sum.splits)
  from batchLoop_ok [OF 4] batchLoop_frame [OF 4] batchCursors_frame [OF 5] s1 s3 t assms(2)
  show ?thesis
    by (auto simp: keeps_log_def settled_def promote_view promote_staged)
qed

lemma AppendBatch_fail:
  assumes "AppendBatch cdc en ps evs s = (Inl err, t)" and "settled (mem s)"
  shows "same_as s t"
proof -
  let ?P = "\<lambda>q. same_as s (fst q) \<and> list_all2 (filled en) evs (snd q)"
  have P: "?P (s, evs)" using assms(2) by (simp add: same_as_def list_all2_refl filled_refl)
  from assms(1) obtain ev' where r: "withRetry (env_ctxDone en) (batchTx cdc en ps) (s, evs) = (Inl err, (t, ev'))"
    by (auto simp: AppendBatch_def split: if_splits prod.splits sum.splits)
  from retryLoop_result [OF r [unfolded withRetry_def], of ?P] P batchTx_fail [of cdc en _ _ _ s evs]
  show ?thesis by auto
qed

lemma AppendBatch_ok:
  assumes "AppendBatch cdc en ps evs s = (Inr poss, t)" and "settled (mem s)" and "evs \<noteq> []"
  obtains evs' where "list_all2 (filled en) evs evs'" "\<forall>e \<in> set evs'. batch_valid cdc en e"
    "poss = map Position evs'"
    "map Position evs' = map (\<lambda>j. sqlite_sequence (db s) + Suc j) [0..<length evs]"
    "sqlite_sequence (db t) < 2 ^ 63"
    "events (db t) = events (db s) @ map (rowOf cdc) evs'"
    "sqlite_sequence (db t) = sqlite_sequence (db s) + length evs"
    "view (mem t) = fold vstep evs' (view (mem s))" "settled (mem t)"
    "dview (db t) = fold wstep evs' (dview (db s))" "latestPosition t = Position (last evs')"
proof -
  let ?P = "\<lambda>q. same_as s (fst q) \<and> list_all2 (filled en) evs (snd q)"
  have P: "?P (s, evs)" using assms(2) by (simp add: same_as_def list_all2_refl filled_refl)
  from assms(1,3) obtain evs' s1 where
    r: "withRetry (env_ctxDone en) (batchTx cdc en ps) (s, evs) = (Inr (), (s1, evs'))"
    and t: "t = s1\<lparr>latestPosition := Position (last evs')\<rparr>" and poss: "poss = map Position evs'"
    by (auto simp: AppendBatch_def split: if_splits prod.splits sum.splits)
  obtain s2 ev2 where q: "same_as s s2" "list_all2 (filled en) evs ev2"
    "batchTx cdc en ps (s2, ev2) = (Inr (), (s1, evs'))"
    using retryLoop_result [OF r [unfolded withRetry_def], of ?P] P batchTx_fail [of cdc en _ _ _ s evs]
    by auto
  have "settled (mem s2)" using q(1) by (simp add: same_as_def)
  note ok = batchTx_ok [OF q(3) this]
  have "list_all2 (filled en) evs evs'"
    using q(2) ok list_all2_filled_trans by blast
  moreover have "length ev2 = length evs" using q(2) by (simp add: list_all2_lengthD)
  moreover from this have "ev2 \<noteq> []" using assms(3) by auto
  moreover have "db s2 = db s" "view (mem s2) = view (mem s)" using q(1) by (simp_all add: same_as_def)
  ultimately show thesis
    using ok t poss by (intro that [of evs']) simp_all
qed

end

end
