(* ===== verification/Keyed_Projection.thy ===== *)
theory Keyed_Projection
  imports Switchyard_Prelude
begin

text \<open>
  Projections of a log into a table. An event acts on the row of one key; it either overwrites the
  row, whatever was there, or leaves an existing row alone. The locale states that contract; its
  lemmas are what makes recovery sound: applying a stretch of the log a second time changes nothing,
  so replay may start at any position at or below the one the state already reflects.
\<close>

locale keyed_projection =
  fixes key :: "'e \<Rightarrow> 'k"
    and upd :: "'e \<Rightarrow> 'v option \<Rightarrow> 'v option"
  assumes upd_cases: "(\<exists>c. \<forall>x. upd e x = c) \<or> (\<forall>v. upd e (Some v) = Some v)"
begin

definition row_step :: "'e \<Rightarrow> ('k \<rightharpoonup> 'v) \<Rightarrow> ('k \<rightharpoonup> 'v)" where
  "row_step e m = m(key e := upd e (m (key e)))"

lemma fold_row_step:
  "fold row_step es m k = fold upd (filter (\<lambda>e. key e = k) es) (m k)"
  by (induction es arbitrary: m) (auto simp: row_step_def)

lemma fold_upd_shape:
  "(\<exists>c. \<forall>x. fold upd es x = c) \<or> (\<forall>v. fold upd es (Some v) = Some v)"
proof (induction es)
  case Nil
  then show ?case by simp
next
  case (Cons e es)
  from upd_cases [of e] Cons show ?case by fastforce
qed

lemma fold_upd_idem: "fold upd es (fold upd es x) = fold upd es x"
  using fold_upd_shape [of es] by (cases x; cases "fold upd es x") auto

lemma replay_idem: "fold row_step es (fold row_step es m) = fold row_step es m"
  by (rule ext) (simp add: fold_row_step fold_upd_idem)

text \<open>
  A state that reflects the log up to the end of \<open>mid\<close>, brought up to date by replaying from the
  start of \<open>mid\<close>, is the state of the whole log.
\<close>

lemma replay_overlap:
  "fold row_step (mid @ post) (fold row_step (pre @ mid) m) = fold row_step (pre @ mid @ post) m"
  by (simp add: replay_idem)

end

end
