(* ===== verification/State_Cache.thy ===== *)
theory State_Cache
  imports Event_Store Keyed_Projection
begin

text \<open>
  The entity state cache, \<^verbatim>\<open>internal/state/cache.go\<close>: the published map, the map staged by \<open>Apply\<close>
  inside a transaction, \<open>Promote\<close> and \<open>Discard\<close>, and the snapshot that is written to and restored
  from the \<open>snapshots\<close> table. The immutable map is an association list; its iteration order is the
  list order and no theorem depends on it.
\<close>

section \<open>State and operations\<close>

record State =
  EntityID :: string
  UpdatedAt :: gotime
  UpdatedBy :: string
  Attributes :: "attributes option"

type_synonym entity_map = "(string \<times> State) list"

record Cache =
  current :: entity_map
  pending :: "entity_map option"
  corruptionReports :: nat

definition New :: Cache where
  "New = \<lparr>current = [], pending = None, corruptionReports = 0\<rparr>"

definition View :: "Cache \<Rightarrow> entity_map" where
  "View c = current c"

definition Get :: "Cache \<Rightarrow> string \<Rightarrow> State option" where
  "Get c i = map_of (View c) i"

definition Len :: "Cache \<Rightarrow> nat" where
  "Len c = length (View c)"

definition Cache_Name :: string where
  "Cache_Name = ''state_cache''"

text \<open>The switch over the payload, on the staged map.\<close>

definition applyEvent :: "event \<Rightarrow> entity_map \<Rightarrow> entity_map" where
  "applyEvent e m =
     (case Payload e of
        Some (StateChanged attrs _) \<Rightarrow>
          AList.update (Entity e)
            \<lparr>EntityID = Entity e, UpdatedAt = Timestamp e, UpdatedBy = Source e,
             Attributes = attrs\<rparr> m
      | Some (EntityRegistered _) \<Rightarrow>
          (if map_of m (Entity e) = None
           then AList.update (Entity e)
             \<lparr>EntityID = Entity e, UpdatedAt = Timestamp e, UpdatedBy = Source e,
              Attributes = None\<rparr> m
           else m)
      | Some (EntityUnregistered _ _) \<Rightarrow> AList.delete (Entity e) m
      | _ \<Rightarrow> m)"

definition Cache_Apply :: "event \<Rightarrow> Cache \<Rightarrow> Cache" where
  "Cache_Apply e c =
     (let p = (case pending c of None \<Rightarrow> current c | Some p \<Rightarrow> p)
      in c\<lparr>pending := Some (applyEvent e p)\<rparr>)"

definition Cache_Promote :: "Cache \<Rightarrow> Cache" where
  "Cache_Promote c =
     (case pending c of None \<Rightarrow> c | Some p \<Rightarrow> c\<lparr>current := p, pending := None\<rparr>)"

definition Cache_Discard :: "Cache \<Rightarrow> Cache" where
  "Cache_Discard c = c\<lparr>pending := None\<rparr>"

definition reportCorruptSnapshot :: "Cache \<Rightarrow> Cache" where
  "reportCorruptSnapshot c = c\<lparr>corruptionReports := Suc (corruptionReports c)\<rparr>"

section \<open>Snapshots\<close>

record EntityState =
  es_EntityId :: string
  es_UpdatedAt :: int
  es_UpdatedBy :: string
  es_Attributes :: "attributes option"

record StateCacheSnapshot =
  sp_Ts :: int
  sp_Position :: nat
  sp_Entities :: "EntityState list"

text \<open>
  Third-party code as arguments: the protobuf codec of a snapshot and the zstd compressor, whose
  constructors can fail.
\<close>

record snapshot_codec =
  marshalSnapshot :: "StateCacheSnapshot \<Rightarrow> error + bytes"
  unmarshalSnapshot :: "bytes \<Rightarrow> error + StateCacheSnapshot"
  zstdNewWriter :: "error option"
  encodeAll :: "bytes \<Rightarrow> bytes"
  zstdNewReader :: "error option"
  decodeAll :: "bytes \<Rightarrow> error + bytes"

text \<open>What the two libraries document: both decoders invert their encoders.\<close>

definition snapshot_codec_ok :: "snapshot_codec \<Rightarrow> bool" where
  "snapshot_codec_ok k \<longleftrightarrow> zstdNewReader k = None \<and>
     (\<forall>p b. marshalSnapshot k p = Inr b \<longrightarrow> unmarshalSnapshot k b = Inr p) \<and>
     (\<forall>b. decodeAll k (encodeAll k b) = Inr b)"

definition snapshotEntities :: "entity_map \<Rightarrow> EntityState list" where
  "snapshotEntities m =
     map (\<lambda>(_, v). \<lparr>es_EntityId = EntityID v, es_UpdatedAt = UnixNano (UpdatedAt v),
                    es_UpdatedBy = UpdatedBy v, es_Attributes = Attributes v\<rparr>) m"

definition Cache_Snapshot :: "snapshot_codec \<Rightarrow> gotime \<Rightarrow> (('x, Cache, 'z) st, unit) step" where
  "Cache_Snapshot k now s =
     (let ents = snapshotEntities (View (mem s)) in
      bindS (wrapS ''read max position''
        (dbQuery (\<lambda>d. case max_position (events d) of None \<Rightarrow> 1 | Some p \<Rightarrow> p))) (\<lambda>pos.
      case marshalSnapshot k
             \<lparr>sp_Ts = UnixNano now, sp_Position = pos, sp_Entities = ents\<rparr> of
        Inl e \<Rightarrow> failS (''marshal snapshot: '' @ e)
      | Inr raw \<Rightarrow>
         (case zstdNewWriter k of
            Some e \<Rightarrow> failS (''zstd writer: '' @ e)
          | None \<Rightarrow>
              wrapS ''insert snapshot'' (dbExec (\<lambda>d. d\<lparr>snapshots := AList.update pos
                \<lparr>sn_ts = UnixNano now, sn_owner = Cache_Name, sn_encoding = ''protobuf+zstd'',
                 sn_state = encodeAll k raw\<rparr> (snapshots d)\<rparr>)))) s)"

definition decodeSnapshot :: "snapshot_codec \<Rightarrow> bytes \<Rightarrow> error + StateCacheSnapshot" where
  "decodeSnapshot k compressed =
     (case zstdNewReader k of
        Some e \<Rightarrow> Inl (''zstd reader: '' @ e)
      | None \<Rightarrow>
         (case decodeAll k compressed of
            Inl e \<Rightarrow> Inl (''zstd decode: '' @ e)
          | Inr raw \<Rightarrow>
             (case unmarshalSnapshot k raw of
                Inl e \<Rightarrow> Inl (''unmarshal snapshot: '' @ e)
              | Inr p \<Rightarrow> Inr p)))"

definition restoreEntities :: "EntityState list \<Rightarrow> entity_map" where
  "restoreEntities ess =
     fold (\<lambda>es m. AList.update (es_EntityId es)
       \<lparr>EntityID = es_EntityId es, UpdatedAt = time_Unix 0 (es_UpdatedAt es),
        UpdatedBy = es_UpdatedBy es, Attributes = es_Attributes es\<rparr> m) ess []"

text \<open>The rows of an owner, newest first.\<close>

definition snapshotRows :: "string \<Rightarrow> (nat \<times> snapshot_row) list \<Rightarrow> (nat \<times> snapshot_row) list" where
  "snapshotRows owner rows = rev (sort_key fst (filter (\<lambda>(_, r). sn_owner r = owner) rows))"

fun restoreLoop ::
  "snapshot_codec \<Rightarrow> (nat \<times> snapshot_row) list \<Rightarrow> Cache \<Rightarrow> (error + nat option) \<times> Cache" where
  "restoreLoop k [] c = (Inr None, c)"
| "restoreLoop k ((pos, r) # rows) c =
     (if sn_encoding r \<noteq> ''protobuf+zstd'' then (Inl (''unknown snapshot encoding '' @ quoted (sn_encoding r)), c)
      else case decodeSnapshot k (sn_state r) of
        Inl _ \<Rightarrow> restoreLoop k rows (reportCorruptSnapshot c)
      | Inr p \<Rightarrow> (Inr (Some pos), c\<lparr>current := restoreEntities (sp_Entities p)\<rparr>))"

definition Cache_Restore :: "snapshot_codec \<Rightarrow> (('x, Cache, 'z) st, nat) step" where
  "Cache_Restore k =
     bindS (wrapS ''read snapshot rows'' (dbQuery (\<lambda>d. snapshotRows Cache_Name (snapshots d))))
       (\<lambda>rows s. case restoreLoop k rows (mem s) of
          (Inl e, c) \<Rightarrow> (Inl e, s\<lparr>mem := c\<rparr>)
        | (Inr (Some pos), c) \<Rightarrow> (Inr pos, s\<lparr>mem := c\<rparr>)
        | (Inr None, c) \<Rightarrow>
            bindS (wrapS ''read snapshot rows'' (dbExec id)) (\<lambda>_. returnS 0) (s\<lparr>mem := c\<rparr>))"

section \<open>The projector\<close>

definition cacheProjector ::
  "snapshot_codec \<Rightarrow> gotime \<Rightarrow> (('x, Cache, 'z) st, Cache) Projector" where
  "cacheProjector k now =
     \<lparr>Name = Cache_Name,
      Apply = (\<lambda>e s. (Inr (), s\<lparr>mem := Cache_Apply e (mem s)\<rparr>)),
      Snapshot = Cache_Snapshot k now,
      Restore = Cache_Restore k,
      Promote = Some Cache_Promote,
      Discard = Some Cache_Discard\<rparr>"

section \<open>The cache as a projection\<close>

text \<open>The published and the staged map, as functions from entity ids.\<close>

definition cacheView :: "Cache \<Rightarrow> (string \<rightharpoonup> State)" where
  "cacheView c = map_of (current c)"

definition cacheStaged :: "Cache \<Rightarrow> (string \<rightharpoonup> State)" where
  "cacheStaged c = map_of (case pending c of None \<Rightarrow> current c | Some p \<Rightarrow> p)"

definition rowUpdate :: "event \<Rightarrow> State option \<Rightarrow> State option" where
  "rowUpdate e old =
     (case Payload e of
        Some (StateChanged attrs _) \<Rightarrow>
          Some \<lparr>EntityID = Entity e, UpdatedAt = Timestamp e, UpdatedBy = Source e,
                Attributes = attrs\<rparr>
      | Some (EntityRegistered _) \<Rightarrow>
          (case old of
             None \<Rightarrow> Some \<lparr>EntityID = Entity e, UpdatedAt = Timestamp e, UpdatedBy = Source e,
                            Attributes = None\<rparr>
           | Some v \<Rightarrow> Some v)
      | Some (EntityUnregistered _ _) \<Rightarrow> None
      | _ \<Rightarrow> old)"

definition cacheStep :: "event \<Rightarrow> (string \<rightharpoonup> State) \<Rightarrow> (string \<rightharpoonup> State)" where
  "cacheStep e m = m(Entity e := rowUpdate e (m (Entity e)))"

interpretation cache_rows: keyed_projection Entity rowUpdate
proof unfold_locales
  fix e
  show "(\<exists>c. \<forall>x. rowUpdate e x = c) \<or> (\<forall>v. rowUpdate e (Some v) = Some v)"
    by (cases "Payload e") (auto simp: rowUpdate_def split: payload.splits)
qed

lemma cacheStep_row_step: "cacheStep = cache_rows.row_step"
  by (simp add: fun_eq_iff cacheStep_def cache_rows.row_step_def)

lemma applyEvent_step: "map_of (applyEvent e m) = cacheStep e (map_of m)"
  by (auto simp: applyEvent_def cacheStep_def rowUpdate_def fun_eq_iff
      split: option.splits payload.splits)

lemma cacheStaged_Apply [simp]: "cacheStaged (Cache_Apply e c) = cacheStep e (cacheStaged c)"
  by (simp add: cacheStaged_def Cache_Apply_def Let_def applyEvent_step split: option.splits)

lemma cacheView_Apply [simp]: "cacheView (Cache_Apply e c) = cacheView c"
  by (simp add: cacheView_def Cache_Apply_def Let_def)

lemma cacheView_Promote [simp]: "cacheView (Cache_Promote c) = cacheStaged c"
  by (simp add: cacheView_def cacheStaged_def Cache_Promote_def split: option.splits)

lemma cacheStaged_Promote [simp]: "cacheStaged (Cache_Promote c) = cacheStaged c"
  by (simp add: cacheStaged_def Cache_Promote_def split: option.splits)

lemma cacheView_Discard [simp]: "cacheView (Cache_Discard c) = cacheView c"
  by (simp add: cacheView_def Cache_Discard_def)

lemma cacheStaged_Discard [simp]: "cacheStaged (Cache_Discard c) = cacheView c"
  by (simp add: cacheStaged_def cacheView_def Cache_Discard_def)

lemma Get_cacheView: "Get c i = cacheView c i"
  by (simp add: Get_def View_def cacheView_def)

text \<open>Replaying a stretch of the log that the cache already reflects changes nothing.\<close>

lemma cache_replay_overlap:
  "fold cacheStep (mid @ post) (fold cacheStep (pre @ mid) m) = fold cacheStep (pre @ mid @ post) m"
  unfolding cacheStep_row_step by (rule cache_rows.replay_overlap)

text \<open>
  Rows are stored under their own entity id, and times fit the 64 bits a snapshot has for them.
\<close>

definition cache_wf :: "entity_map \<Rightarrow> bool" where
  "cache_wf m \<longleftrightarrow> distinct (map fst m) \<and>
     (\<forall>(k, v) \<in> set m. EntityID v = k \<and> in_int64 (UpdatedAt v))"

lemma cache_wf_applyEvent:
  assumes "cache_wf m" and "in_int64 (Timestamp e)"
  shows "cache_wf (applyEvent e m)"
proof -
  have upd: "cache_wf (AList.update (Entity e) v m)"
    if "EntityID v = Entity e" "in_int64 (UpdatedAt v)" for v
    using assms(1) that set_update_subset [of "Entity e" v m]
    by (auto simp: cache_wf_def distinct_update)
  have del: "cache_wf (AList.delete (Entity e) m)"
    using assms(1) distinct_delete [of m "Entity e"] set_delete_subset [of "Entity e" m]
    by (auto simp: cache_wf_def)
  show ?thesis
    using assms upd del by (auto simp: applyEvent_def split: option.splits payload.splits)
qed

lemma restore_snapshot_aux:
  assumes "cache_wf m"
  shows "map_of (fold (\<lambda>es m. AList.update (es_EntityId es)
       \<lparr>EntityID = es_EntityId es, UpdatedAt = time_Unix 0 (es_UpdatedAt es),
        UpdatedBy = es_UpdatedBy es, Attributes = es_Attributes es\<rparr> m) (snapshotEntities m) al)
    = map_of al ++ map_of m"
  using assms
proof (induction m arbitrary: al)
  case Nil
  then show ?case by (simp add: snapshotEntities_def)
next
  case (Cons kv m)
  obtain k v where kv: "kv = (k, v)" by fastforce
  have "cache_wf m" using Cons.prems by (auto simp: cache_wf_def)
  moreover have "map_of m k = None" "EntityID v = k" "in_int64 (UpdatedAt v)"
    using Cons.prems kv by (auto simp: cache_wf_def map_of_eq_None_iff)
  ultimately show ?case
    using Cons.IH kv
    by (cases v) (simp add: snapshotEntities_def time_Unix_def UnixNano_def map_add_def fun_eq_iff split: option.splits)
qed

lemma restore_snapshot:
  "cache_wf m \<Longrightarrow> map_of (restoreEntities (snapshotEntities m)) = map_of m"
  using restore_snapshot_aux [of m "[]"] by (simp add: restoreEntities_def)

end
