(* ===== verification/Registry.thy ===== *)
theory Registry
  imports Event_Store "HOL-Library.List_Lexorder" "HOL-Library.Char_ord"
begin

text \<open>
  The registry, \<^verbatim>\<open>internal/registry\<close>: driver instances, devices and entities as SQL tables that
  \<open>Apply\<close> maintains inside the append transaction (\<^verbatim>\<open>registry.go\<close>), the read API (\<^verbatim>\<open>queries.go\<close>) and
  the in-memory areas (\<^verbatim>\<open>areas.go\<close>). The tables extend the database of the event store; their
  foreign keys are enforced, so an insert that violates one is refused. Strings are compared byte by
  byte, as SQLite's default collation and Go do.
\<close>

section \<open>Tables\<close>

record driver_instance =
  di_driver_name :: string
  di_display_name :: string
  di_transport :: string
  di_endpoint :: string
  di_config_hash :: string
  di_status :: string
  di_last_error :: "string option"
  di_started_at :: "int option"
  di_last_heartbeat :: "int option"
  di_created_at :: int

record device_row =
  dv_driver_instance_id :: string
  dv_friendly_name :: string
  dv_manufacturer :: "string option"
  dv_model :: "string option"
  dv_sw_version :: "string option"
  dv_metadata :: "bytes option"
  dv_disabled :: bool
  dv_created_at :: int
  dv_updated_at :: int

record entity_row =
  en_device_id :: "string option"
  en_driver_instance_id :: string
  en_entity_type :: string
  en_friendly_name :: string
  en_capabilities :: bytes
  en_disabled :: bool
  en_created_at :: int
  en_updated_at :: int

record registry_db = store_db +
  driver_instances :: "(string \<times> driver_instance) list"
  devices :: "(string \<times> device_row) list"
  entities :: "(string \<times> entity_row) list"

type_synonym ('y, 'm, 'z) rst = "('y registry_db_scheme, 'm, 'z) store_scheme"

section \<open>Applying events\<close>

definition ensureDriverInstance ::
  "string \<Rightarrow> int \<Rightarrow> (string \<times> driver_instance) list \<Rightarrow> (string \<times> driver_instance) list" where
  "ensureDriverInstance i now t =
     (if map_of t i = None
      then AList.update i
        \<lparr>di_driver_name = '''', di_display_name = '''', di_transport = ''local_subprocess'',
         di_endpoint = '''', di_config_hash = '''', di_status = ''starting'', di_last_error = None,
         di_started_at = None, di_last_heartbeat = None, di_created_at = now\<rparr> t
      else t)"

definition ensureDevice :: "string \<Rightarrow> string \<Rightarrow> int \<Rightarrow> 'y registry_db_scheme \<Rightarrow> error + 'y registry_db_scheme"
  where
  "ensureDevice dev drv now d =
     (if map_of (devices d) dev \<noteq> None then Inr d
      else if map_of (driver_instances d) drv = None then Inl ''FOREIGN KEY constraint failed''
      else Inr (d\<lparr>devices := AList.update dev
        \<lparr>dv_driver_instance_id = drv, dv_friendly_name = '''', dv_manufacturer = None,
         dv_model = None, dv_sw_version = None, dv_metadata = None, dv_disabled = False,
         dv_created_at = now, dv_updated_at = now\<rparr> (devices d)\<rparr>))"

definition upsertEntity ::
  "string \<Rightarrow> string option \<Rightarrow> entity_registered \<Rightarrow> bytes \<Rightarrow> int \<Rightarrow> 'y registry_db_scheme
     \<Rightarrow> error + 'y registry_db_scheme" where
  "upsertEntity i dev p caps now d =
     (if map_of (driver_instances d) (er_DriverInstanceId p) = None \<or>
         (\<exists>x. dev = Some x \<and> map_of (devices d) x = None)
      then Inl ''FOREIGN KEY constraint failed''
      else Inr (d\<lparr>entities := AList.update i
        \<lparr>en_device_id = dev, en_driver_instance_id = er_DriverInstanceId p,
         en_entity_type = er_EntityType p, en_friendly_name = er_FriendlyName p,
         en_capabilities = caps, en_disabled = False,
         en_created_at =
           (case map_of (entities d) i of None \<Rightarrow> now | Some old \<Rightarrow> en_created_at old),
         en_updated_at = now\<rparr> (entities d)\<rparr>))"

text \<open>\<open>marshalAttrs\<close> is \<open>proto.Marshal\<close> on the capabilities.\<close>

definition applyEntityRegistered ::
  "(attributes option \<Rightarrow> error + bytes) \<Rightarrow> event \<Rightarrow> entity_registered \<Rightarrow> (('y, 'm, 'z) rst, unit) step"
  where
  "applyEntityRegistered marshalAttrs e p =
     (case marshalAttrs (er_Capabilities p) of
        Inl err \<Rightarrow> failS (''marshal capabilities: '' @ err)
      | Inr caps \<Rightarrow>
         (let now = UnixNano (Timestamp e);
              deviceID = (if er_DeviceId p \<noteq> '''' then Some (er_DeviceId p) else None) in
          bindS (wrapS ''ensure driver_instance'' (dbExec (\<lambda>d. d\<lparr>driver_instances :=
            ensureDriverInstance (er_DriverInstanceId p) now (driver_instances d)\<rparr>))) (\<lambda>_.
          bindS (if er_DeviceId p \<noteq> ''''
                 then wrapS ''ensure device''
                        (dbTry (ensureDevice (er_DeviceId p) (er_DriverInstanceId p) now))
                 else returnS ()) (\<lambda>_.
          wrapS ''upsert entity'' (dbTry (upsertEntity (Entity e) deviceID p caps now))))))"

definition applyEntityUnregistered :: "event \<Rightarrow> (('y, 'm, 'z) rst, unit) step" where
  "applyEntityUnregistered e =
     wrapS (''disable entity '' @ Entity e) (dbExec (\<lambda>d. d\<lparr>entities :=
       AList.map_entry (Entity e)
         (\<lambda>r. r\<lparr>en_disabled := True, en_updated_at := UnixNano (Timestamp e)\<rparr>) (entities d)\<rparr>))"

definition driverStarted ::
  "string \<Rightarrow> int \<Rightarrow> (string \<times> driver_instance) list \<Rightarrow> (string \<times> driver_instance) list" where
  "driverStarted i ts t =
     (case map_of t i of
        None \<Rightarrow> AList.update i
          \<lparr>di_driver_name = i, di_display_name = i, di_transport = ''local_subprocess'',
           di_endpoint = '''', di_config_hash = '''', di_status = ''running'', di_last_error = None,
           di_started_at = Some ts, di_last_heartbeat = Some ts, di_created_at = ts\<rparr> t
      | Some _ \<Rightarrow> AList.map_entry i
          (\<lambda>r. r\<lparr>di_status := ''running'', di_last_error := None, di_started_at := Some ts,
                 di_last_heartbeat := Some ts\<rparr>) t)"

definition driverEventTable ::
  "driver_event \<Rightarrow> int \<Rightarrow> (string \<times> driver_instance) list \<Rightarrow> (string \<times> driver_instance) list" where
  "driverEventTable p ts t =
     (let i = de_DriverInstanceId p in
      if de_Kind p = ''started'' then driverStarted i ts t
      else if de_Kind p = ''stopped'' then AList.map_entry i (\<lambda>r. r\<lparr>di_status := ''stopped''\<rparr>) t
      else if de_Kind p = ''failed'' then
        AList.map_entry i (\<lambda>r. r\<lparr>di_status := ''failed'', di_last_error := Some (de_Detail p)\<rparr>) t
      else if de_Kind p = ''heartbeat'' then
        AList.map_entry i (\<lambda>r. r\<lparr>di_last_heartbeat := Some ts\<rparr>) t
      else t)"

definition applyDriverEvent :: "event \<Rightarrow> driver_event \<Rightarrow> (('y, 'm, 'z) rst, unit) step" where
  "applyDriverEvent e p =
     (if de_Kind p \<in> {''started'', ''stopped'', ''failed'', ''heartbeat''}
      then wrapS (''driver '' @ de_Kind p @ '' '' @ de_DriverInstanceId p)
             (dbExec (\<lambda>d. d\<lparr>driver_instances :=
                driverEventTable p (UnixNano (Timestamp e)) (driver_instances d)\<rparr>))
      else returnS ())"

definition Registry_Apply ::
  "(attributes option \<Rightarrow> error + bytes) \<Rightarrow> event \<Rightarrow> (('y, 'm, 'z) rst, unit) step" where
  "Registry_Apply marshalAttrs e =
     (case Payload e of
        Some (EntityRegistered p) \<Rightarrow> applyEntityRegistered marshalAttrs e p
      | Some (EntityUnregistered _ _) \<Rightarrow> applyEntityUnregistered e
      | Some (DriverEvent p) \<Rightarrow> applyDriverEvent e p
      | _ \<Rightarrow> returnS ())"

definition registryProjector ::
  "(attributes option \<Rightarrow> error + bytes) \<Rightarrow> (('y, 'm, 'z) rst, 'm) Projector" where
  "registryProjector marshalAttrs =
     \<lparr>Name = ''registry'', Apply = Registry_Apply marshalAttrs, Snapshot = NoSnapshot_Snapshot,
      Restore = NoSnapshot_Restore, Promote = None, Discard = None\<rparr>"

section \<open>Areas\<close>

record Area =
  area_ID :: string
  area_DisplayName :: string
  area_ParentID :: string

record area_state =
  areas :: "(string \<times> Area) list"
  entityAreas :: "(string \<times> string) list"

definition SetAreas :: "Area list \<Rightarrow> area_state \<Rightarrow> area_state" where
  "SetAreas as r =
     r\<lparr>areas := fold (\<lambda>a m. if area_ID a = '''' then m else AList.update (area_ID a) a m) as []\<rparr>"

text \<open>The argument is nil or a Go map, given by its entries; the copy has the same entries.\<close>

definition SetEntityAreas :: "(string \<times> string) list option \<Rightarrow> area_state \<Rightarrow> area_state" where
  "SetEntityAreas m r =
     (case m of
        None \<Rightarrow> r\<lparr>entityAreas := []\<rparr>
      | Some es \<Rightarrow> r\<lparr>entityAreas := fold (\<lambda>(k, v) dup. AList.update k v dup) es []\<rparr>)"

definition ListAreasInMemory :: "area_state \<Rightarrow> Area list" where
  "ListAreasInMemory r = insertionSort area_ID (map snd (areas r))"

definition GetAreaInMemory :: "area_state \<Rightarrow> string \<Rightarrow> Area option" where
  "GetAreaInMemory r i = map_of (areas r) i"

definition AreaForEntity :: "area_state \<Rightarrow> string \<Rightarrow> string" where
  "AreaForEntity r i = (case map_of (entityAreas r) i of None \<Rightarrow> '''' | Some a \<Rightarrow> a)"

section \<open>Reading\<close>

record RegEntity =
  ID :: string
  DeviceID :: string
  DriverInstanceID :: string
  EntityType :: string
  FriendlyName :: string
  Capabilities :: bytes
  Disabled :: bool
  CreatedAt :: gotime
  EUpdatedAt :: gotime
  AreaID :: string

record DriverInstance =
  DI_ID :: string
  DriverName :: string
  DisplayName :: string
  Transport :: string
  Endpoint :: string
  ConfigHash :: string
  Status :: string
  LastError :: string
  StartedAt :: gotime
  LastHeartbeat :: gotime
  DICreatedAt :: gotime

definition coalesce :: "'a \<Rightarrow> 'a option \<Rightarrow> 'a" where
  "coalesce d x = (case x of None \<Rightarrow> d | Some v \<Rightarrow> v)"

definition scanDriverInstance :: "string \<times> driver_instance \<Rightarrow> DriverInstance" where
  "scanDriverInstance = (\<lambda>(i, r).
     let startedAt = coalesce 0 (di_started_at r); lastHB = coalesce 0 (di_last_heartbeat r) in
     \<lparr>DI_ID = i, DriverName = di_driver_name r, DisplayName = di_display_name r,
      Transport = di_transport r, Endpoint = di_endpoint r, ConfigHash = di_config_hash r,
      Status = di_status r, LastError = coalesce '''' (di_last_error r),
      StartedAt = (if startedAt > 0 then time_Unix 0 startedAt else time_zero),
      LastHeartbeat = (if lastHB > 0 then time_Unix 0 lastHB else time_zero),
      DICreatedAt = time_Unix 0 (di_created_at r)\<rparr>)"

definition scanEntity :: "string \<times> entity_row \<Rightarrow> RegEntity" where
  "scanEntity = (\<lambda>(i, r).
     \<lparr>ID = i, DeviceID = coalesce '''' (en_device_id r), DriverInstanceID = en_driver_instance_id r,
      EntityType = en_entity_type r, FriendlyName = en_friendly_name r,
      Capabilities = en_capabilities r, Disabled = en_disabled r,
      CreatedAt = time_Unix 0 (en_created_at r), EUpdatedAt = time_Unix 0 (en_updated_at r),
      AreaID = ''''\<rparr>)"

definition GetDriverInstance :: "string \<Rightarrow> (('y, 'm, 'z) rst, DriverInstance) step" where
  "GetDriverInstance i =
     bindS (dbQuery (\<lambda>d. map_of (driver_instances d) i)) (\<lambda>r. case r of
       None \<Rightarrow> failS ''driver instance not found''
     | Some row \<Rightarrow> returnS (scanDriverInstance (i, row)))"

definition ListDriverInstances :: "(('y, 'm, 'z) rst, DriverInstance list) step" where
  "ListDriverInstances =
     bindS (dbQuery (\<lambda>d. sort_key fst (driver_instances d))) (\<lambda>rows.
     bindS (dbExec id) (\<lambda>_. returnS (map scanDriverInstance rows)))"

definition GetEntity :: "area_state \<Rightarrow> string \<Rightarrow> (('y, 'm, 'z) rst, RegEntity) step" where
  "GetEntity ar i =
     bindS (dbQuery (\<lambda>d. map_of (entities d) i)) (\<lambda>r. case r of
       None \<Rightarrow> failS ''entity not found''
     | Some row \<Rightarrow> returnS ((scanEntity (i, row))\<lparr>AreaID := AreaForEntity ar i\<rparr>))"

record EntityFilter =
  f_DriverInstanceID :: string
  f_DeviceID :: string
  f_EntityType :: string
  f_IncludeDisabled :: bool

text \<open>The WHERE clause that \<open>ListEntities\<close> assembles. A NULL device id equals nothing.\<close>

definition entityWhere :: "EntityFilter \<Rightarrow> entity_row \<Rightarrow> bool" where
  "entityWhere f r \<longleftrightarrow>
     (f_DriverInstanceID f \<noteq> '''' \<longrightarrow> en_driver_instance_id r = f_DriverInstanceID f) \<and>
     (f_DeviceID f \<noteq> '''' \<longrightarrow> en_device_id r = Some (f_DeviceID f)) \<and>
     (f_EntityType f \<noteq> '''' \<longrightarrow> en_entity_type r = f_EntityType f) \<and>
     (\<not> f_IncludeDisabled f \<longrightarrow> \<not> en_disabled r)"

definition ListEntities :: "area_state \<Rightarrow> EntityFilter \<Rightarrow> (('y, 'm, 'z) rst, RegEntity list) step" where
  "ListEntities ar f =
     bindS (dbQuery (\<lambda>d. sort_key fst (filter (\<lambda>(_, r). entityWhere f r) (entities d)))) (\<lambda>rows.
     bindS (dbExec id) (\<lambda>_.
       returnS (map (\<lambda>(i, r). (scanEntity (i, r))\<lparr>AreaID := AreaForEntity ar i\<rparr>) rows)))"

record Device =
  D_ID :: string
  D_DriverInstanceID :: string
  D_FriendlyName :: string
  D_Manufacturer :: string
  D_Model :: string
  D_SwVersion :: string
  D_Metadata :: "bytes option"
  D_Disabled :: bool
  D_CreatedAt :: gotime
  D_UpdatedAt :: gotime

definition scanDevice :: "string \<times> device_row \<Rightarrow> Device" where
  "scanDevice = (\<lambda>(i, r).
     \<lparr>D_ID = i, D_DriverInstanceID = dv_driver_instance_id r, D_FriendlyName = dv_friendly_name r,
      D_Manufacturer = coalesce '''' (dv_manufacturer r), D_Model = coalesce '''' (dv_model r),
      D_SwVersion = coalesce '''' (dv_sw_version r), D_Metadata = dv_metadata r,
      D_Disabled = dv_disabled r, D_CreatedAt = time_Unix 0 (dv_created_at r),
      D_UpdatedAt = time_Unix 0 (dv_updated_at r)\<rparr>)"

definition GetDevice :: "string \<Rightarrow> (('y, 'm, 'z) rst, Device) step" where
  "GetDevice i =
     bindS (dbQuery (\<lambda>d. map_of (devices d) i)) (\<lambda>r. case r of
       None \<Rightarrow> failS ''device not found''
     | Some row \<Rightarrow> returnS (scanDevice (i, row)))"

record DeviceFilter =
  df_DriverInstanceID :: string
  df_IncludeDisabled :: bool

definition ListDevices :: "DeviceFilter \<Rightarrow> (('y, 'm, 'z) rst, Device list) step" where
  "ListDevices f =
     bindS (dbQuery (\<lambda>d. sort_key fst (filter (\<lambda>(_, r).
         (df_DriverInstanceID f \<noteq> '''' \<longrightarrow> dv_driver_instance_id r = df_DriverInstanceID f) \<and>
         (\<not> df_IncludeDisabled f \<longrightarrow> \<not> dv_disabled r)) (devices d)))) (\<lambda>rows.
     bindS (dbExec id) (\<lambda>_. returnS (map scanDevice rows)))"

section \<open>The registry as a projection\<close>

text \<open>The three tables as functions of their primary keys, and what one event does to them.\<close>

record registry_view =
  rv_drivers :: "string \<rightharpoonup> driver_instance"
  rv_devices :: "string \<rightharpoonup> device_row"
  rv_entities :: "string \<rightharpoonup> entity_row"

definition regView :: "'y registry_db_scheme \<Rightarrow> registry_view" where
  "regView d = \<lparr>rv_drivers = map_of (driver_instances d), rv_devices = map_of (devices d),
     rv_entities = map_of (entities d)\<rparr>"

definition driverStep :: "driver_event \<Rightarrow> int \<Rightarrow> (string \<rightharpoonup> driver_instance) \<Rightarrow> (string \<rightharpoonup> driver_instance)"
  where
  "driverStep p ts t =
     (let i = de_DriverInstanceId p in
      if de_Kind p = ''started'' then
        t(i \<mapsto> (case t i of
          None \<Rightarrow> \<lparr>di_driver_name = i, di_display_name = i, di_transport = ''local_subprocess'',
             di_endpoint = '''', di_config_hash = '''', di_status = ''running'', di_last_error = None,
             di_started_at = Some ts, di_last_heartbeat = Some ts, di_created_at = ts\<rparr>
        | Some r \<Rightarrow> r\<lparr>di_status := ''running'', di_last_error := None, di_started_at := Some ts,
             di_last_heartbeat := Some ts\<rparr>))
      else if de_Kind p = ''stopped'' then t(i := map_option (\<lambda>r. r\<lparr>di_status := ''stopped''\<rparr>) (t i))
      else if de_Kind p = ''failed'' then
        t(i := map_option (\<lambda>r. r\<lparr>di_status := ''failed'', di_last_error := Some (de_Detail p)\<rparr>) (t i))
      else if de_Kind p = ''heartbeat'' then
        t(i := map_option (\<lambda>r. r\<lparr>di_last_heartbeat := Some ts\<rparr>) (t i))
      else t)"

definition registeredStep :: "bytes \<Rightarrow> event \<Rightarrow> entity_registered \<Rightarrow> registry_view \<Rightarrow> registry_view" where
  "registeredStep caps e p v =
     (let now = UnixNano (Timestamp e); drv = er_DriverInstanceId p; dev = er_DeviceId p in
      \<lparr>rv_drivers =
         (case rv_drivers v drv of
            None \<Rightarrow> (rv_drivers v)(drv \<mapsto>
              \<lparr>di_driver_name = '''', di_display_name = '''', di_transport = ''local_subprocess'',
               di_endpoint = '''', di_config_hash = '''', di_status = ''starting'', di_last_error = None,
               di_started_at = None, di_last_heartbeat = None, di_created_at = now\<rparr>)
          | Some _ \<Rightarrow> rv_drivers v),
       rv_devices =
         (if dev = '''' \<or> rv_devices v dev \<noteq> None then rv_devices v
          else (rv_devices v)(dev \<mapsto>
            \<lparr>dv_driver_instance_id = drv, dv_friendly_name = '''', dv_manufacturer = None,
             dv_model = None, dv_sw_version = None, dv_metadata = None, dv_disabled = False,
             dv_created_at = now, dv_updated_at = now\<rparr>)),
       rv_entities = (rv_entities v)(Entity e \<mapsto>
         \<lparr>en_device_id = (if dev = '''' then None else Some dev), en_driver_instance_id = drv,
          en_entity_type = er_EntityType p, en_friendly_name = er_FriendlyName p,
          en_capabilities = caps, en_disabled = False,
          en_created_at =
            (case rv_entities v (Entity e) of None \<Rightarrow> now | Some old \<Rightarrow> en_created_at old),
          en_updated_at = now\<rparr>)\<rparr>)"

definition registryStep ::
  "(attributes option \<Rightarrow> error + bytes) \<Rightarrow> event \<Rightarrow> registry_view \<Rightarrow> registry_view" where
  "registryStep marshalAttrs e v =
     (case Payload e of
        Some (EntityRegistered p) \<Rightarrow>
          (case marshalAttrs (er_Capabilities p) of
             Inl _ \<Rightarrow> v
           | Inr caps \<Rightarrow> registeredStep caps e p v)
      | Some (EntityUnregistered _ _) \<Rightarrow>
          v\<lparr>rv_entities := (rv_entities v)(Entity e :=
              map_option (\<lambda>r. r\<lparr>en_disabled := True, en_updated_at := UnixNano (Timestamp e)\<rparr>)
                (rv_entities v (Entity e)))\<rparr>
      | Some (DriverEvent p) \<Rightarrow>
          v\<lparr>rv_drivers := driverStep p (UnixNano (Timestamp e)) (rv_drivers v)\<rparr>
      | _ \<Rightarrow> v)"

lemma driverEventTable_step: "map_of (driverEventTable p ts t) = driverStep p ts (map_of t)"
  by (auto simp: driverEventTable_def driverStep_def driverStarted_def Let_def fun_eq_iff
      split: option.splits)

text \<open>What the statements of \<open>Apply\<close> leave alone, whatever they return.\<close>

definition same_log :: "'y registry_db_scheme \<Rightarrow> 'y registry_db_scheme \<Rightarrow> bool" where
  "same_log d d' \<longleftrightarrow> events d' = events d \<and> sqlite_sequence d' = sqlite_sequence d \<and>
     snapshots d' = snapshots d \<and> skipped_events d' = skipped_events d"

definition only_tables :: "('y, 'm, 'z) rst \<Rightarrow> ('y, 'm, 'z) rst \<Rightarrow> bool" where
  "only_tables s t \<longleftrightarrow> keeps_log s t \<and> mem t = mem s \<and> same_log (db s) (db t)"

lemma only_tables_trans: "only_tables s t \<Longrightarrow> only_tables t u \<Longrightarrow> only_tables s u"
  by (auto simp: only_tables_def same_log_def intro: keeps_log_trans)

lemma dbExec_only_tables:
  assumes "\<And>d. same_log d (f d)"
  shows "only_tables s (snd (dbExec f s))"
proof (cases "dbExec f s")
  case (Pair r t)
  with assms show ?thesis
    by (cases r) (auto simp: only_tables_def keeps_log_def same_log_def dest!: dbExec_InrD dbExec_InlD)
qed

lemma dbTry_only_tables:
  assumes "\<And>d d'. f d = Inr d' \<Longrightarrow> same_log d d'"
  shows "only_tables s (snd (dbTry f s))"
  using dbTry_cases [of f s "fst (dbTry f s)" "snd (dbTry f s)"] assms
  by (auto simp: only_tables_def keeps_log_def same_log_def split: sum.splits)

lemma bindS_only_tables:
  assumes "only_tables s (snd (m s))" "\<And>x s. only_tables s (snd (f x s))"
  shows "only_tables s (snd (bindS m f s))"
proof (cases "m s")
  case (Pair r t)
  with assms only_tables_trans show ?thesis
    by (cases r) (fastforce simp: bindS_def)+
qed

lemma only_tables_return [simp]: "only_tables s (snd (returnS x s))" "only_tables s (snd (failS e s))"
  by (simp_all add: only_tables_def same_log_def returnS_def failS_def)

lemma ensureDevice_log:
  "ensureDevice dev drv now d = Inr d' \<Longrightarrow> same_log d d'"
  by (auto simp: ensureDevice_def same_log_def split: if_splits)

lemma upsertEntity_log:
  "upsertEntity i dev p caps now d = Inr d' \<Longrightarrow> same_log d d'"
  by (auto simp: upsertEntity_def same_log_def split: if_splits)

lemma Registry_Apply_frame: "only_tables s (snd (Registry_Apply ma e s))"
proof -
  have 1: "only_tables s (snd (applyEntityRegistered ma e p s))" for s :: "('y, 'm, 'z) rst" and p
    unfolding applyEntityRegistered_def Let_def
    by (auto simp: same_log_def [of _ "_\<lparr>driver_instances := _\<rparr>"] split: sum.splits
        intro!: bindS_only_tables dbExec_only_tables dbTry_only_tables dest: ensureDevice_log upsertEntity_log)
  have 2: "only_tables s (snd (applyEntityUnregistered e s))"
    unfolding applyEntityUnregistered_def by (simp add: dbExec_only_tables same_log_def)
  have 3: "only_tables s (snd (applyDriverEvent e p s))" for p
    unfolding applyDriverEvent_def by (simp add: dbExec_only_tables same_log_def)
  show ?thesis
    using 1 2 3 by (auto simp: Registry_Apply_def split: option.splits payload.splits)
qed

text \<open>The effect of each statement on the tables.\<close>

lemma ensureDriverInstance_view:
  "regView (d\<lparr>driver_instances := ensureDriverInstance drv now (driver_instances d)\<rparr>) =
     (regView d)\<lparr>rv_drivers :=
        (case rv_drivers (regView d) drv of
           None \<Rightarrow> (rv_drivers (regView d))(drv \<mapsto>
              \<lparr>di_driver_name = [], di_display_name = [], di_transport = ''local_subprocess'',
               di_endpoint = [], di_config_hash = [], di_status = ''starting'', di_last_error = None,
               di_started_at = None, di_last_heartbeat = None, di_created_at = now\<rparr>)
         | Some _ \<Rightarrow> rv_drivers (regView d))\<rparr>"
  by (simp add: regView_def ensureDriverInstance_def split: option.splits)

lemma ensureDevice_view:
  assumes "ensureDevice dev drv now d = Inr d'"
  shows "regView d' = (regView d)\<lparr>rv_devices :=
     (if rv_devices (regView d) dev \<noteq> None then rv_devices (regView d)
      else (rv_devices (regView d))(dev \<mapsto>
            \<lparr>dv_driver_instance_id = drv, dv_friendly_name = [], dv_manufacturer = None,
             dv_model = None, dv_sw_version = None, dv_metadata = None, dv_disabled = False,
             dv_created_at = now, dv_updated_at = now\<rparr>))\<rparr>"
  using assms by (auto simp: regView_def ensureDevice_def split: if_splits)

lemma upsertEntity_view:
  assumes "upsertEntity i dev p caps now d = Inr d'"
  shows "regView d' = (regView d)\<lparr>rv_entities := (rv_entities (regView d))(i \<mapsto>
         \<lparr>en_device_id = dev, en_driver_instance_id = er_DriverInstanceId p,
          en_entity_type = er_EntityType p, en_friendly_name = er_FriendlyName p,
          en_capabilities = caps, en_disabled = False,
          en_created_at =
            (case rv_entities (regView d) i of None \<Rightarrow> now | Some old \<Rightarrow> en_created_at old),
          en_updated_at = now\<rparr>)\<rparr>"
  using assms by (auto simp: regView_def upsertEntity_def split: if_splits)

lemma applyEntityRegistered_ok:
  assumes "applyEntityRegistered ma e p s = (Inr (), t)"
  obtains caps where "ma (er_Capabilities p) = Inr caps"
    "regView (db t) = registeredStep caps e p (regView (db s))"
proof -
  let ?now = "UnixNano (Timestamp e)"
  let ?dev = "if er_DeviceId p \<noteq> '''' then Some (er_DeviceId p) else None"
  from assms obtain caps s1 s2 where caps: "ma (er_Capabilities p) = Inr caps"
    and 1: "dbExec (\<lambda>d. d\<lparr>driver_instances :=
            ensureDriverInstance (er_DriverInstanceId p) ?now (driver_instances d)\<rparr>) s = (Inr (), s1)"
    and 2: "(if er_DeviceId p \<noteq> ''''
           then wrapS ''ensure device'' (dbTry (ensureDevice (er_DeviceId p) (er_DriverInstanceId p) ?now))
           else returnS ()) s1 = (Inr (), s2)"
    and 3: "dbTry (upsertEntity (Entity e) ?dev p caps ?now) s2 = (Inr (), t)"
    by (auto simp: applyEntityRegistered_def Let_def failS_def wrapS_Inr_iff split: sum.splits
        elim!: bindS_InrE)
  have d1: "db s1 = (db s)\<lparr>driver_instances :=
      ensureDriverInstance (er_DriverInstanceId p) ?now (driver_instances (db s))\<rparr>"
    using dbExec_InrD [OF 1] by simp
  have d2: "(if er_DeviceId p = '''' then Inr (db s1)
      else ensureDevice (er_DeviceId p) (er_DriverInstanceId p) ?now (db s1)) = Inr (db s2)"
    using 2 dbTry_cases [of "ensureDevice (er_DeviceId p) (er_DriverInstanceId p) ?now" s1 "Inr ()" s2]
    by (auto simp: wrapS_Inr_iff returnS_def split: if_splits)
  have d3: "upsertEntity (Entity e) ?dev p caps ?now (db s2) = Inr (db t)"
    using dbTry_cases [OF 3] by auto
  have "regView (db t) = registeredStep caps e p (regView (db s))"
  proof (cases "er_DeviceId p = []")
    case True
    with d2 have "db s2 = db s1" by simp
    with True upsertEntity_view [OF d3] d1 show ?thesis
      by (simp add: ensureDriverInstance_view registeredStep_def Let_def)
  next
    case False
    with d2 have "ensureDevice (er_DeviceId p) (er_DriverInstanceId p) ?now (db s1) = Inr (db s2)" by simp
    from False upsertEntity_view [OF d3] ensureDevice_view [OF this] d1 show ?thesis
      by (simp add: ensureDriverInstance_view registeredStep_def Let_def)
  qed
  with caps show thesis by (rule that)
qed

lemma Registry_Apply_ok:
  assumes "Registry_Apply ma e s = (Inr (), t)"
  shows "regView (db t) = registryStep ma e (regView (db s))"
proof (cases "Payload e")
  case None
  with assms show ?thesis by (simp add: Registry_Apply_def registryStep_def returnS_def)
next
  case (Some pl)
  show ?thesis
  proof (cases pl)
    case (EntityRegistered p)
    with Some assms have "applyEntityRegistered ma e p s = (Inr (), t)"
      by (simp add: Registry_Apply_def)
    then show ?thesis
      using Some EntityRegistered by (elim applyEntityRegistered_ok) (simp add: registryStep_def)
  next
    case (EntityUnregistered r i)
    with Some assms have "applyEntityUnregistered e s = (Inr (), t)"
      by (simp add: Registry_Apply_def)
    then have "t = s\<lparr>db := (db s)\<lparr>entities := AList.map_entry (Entity e)
        (\<lambda>r. r\<lparr>en_disabled := True, en_updated_at := UnixNano (Timestamp e)\<rparr>) (entities (db s))\<rparr>,
        faults := tl (faults s)\<rparr>"
      by (auto simp: applyEntityUnregistered_def wrapS_Inr_iff dest!: dbExec_InrD)
    with Some EntityUnregistered show ?thesis by (simp add: registryStep_def regView_def)
  next
    case (DriverEvent p)
    with Some assms have a: "applyDriverEvent e p s = (Inr (), t)"
      by (simp add: Registry_Apply_def)
    show ?thesis
    proof (cases "de_Kind p \<in> {''started'', ''stopped'', ''failed'', ''heartbeat''}")
      case True
      with a have "t = s\<lparr>db := (db s)\<lparr>driver_instances :=
          driverEventTable p (UnixNano (Timestamp e)) (driver_instances (db s))\<rparr>, faults := tl (faults s)\<rparr>"
        by (auto simp: applyDriverEvent_def wrapS_Inr_iff dest: dbExec_InrD)
      with Some DriverEvent show ?thesis
        by (simp add: registryStep_def regView_def driverEventTable_step)
    next
      case False
      with a have "t = s" by (simp add: applyDriverEvent_def returnS_def)
      with Some DriverEvent False show ?thesis
        by (simp add: registryStep_def regView_def driverStep_def Let_def)
    qed
  qed (use Some assms in \<open>auto simp: Registry_Apply_def registryStep_def returnS_def\<close>)
qed

end
