(* ===== verification/Replay.thy ===== *)
theory Replay
  imports Event_Store
begin

text \<open>
  Start-up recovery, \<^verbatim>\<open>internal/eventstore/replay.go\<close>: restore every projector, then apply the events
  above the lowest restored position in batches.
\<close>

datatype replay_error = ReplayError nat string error | PlainError error

definition plain :: "(error + 'a) \<times> 's \<Rightarrow> (replay_error + 'a) \<times> 's" where
  "plain r = (case r of (Inl e, s) \<Rightarrow> (Inl (PlainError e), s) | (Inr x, s) \<Rightarrow> (Inr x, s))"

definition maxUint64 :: nat where
  "maxUint64 = 2 ^ 64 - 1"

text \<open>Each projector restores in a transaction of its own.\<close>

fun restoreLoop_projectors ::
  "(('x, 'm, 'z) st, 'm) projectorReg list \<Rightarrow> nat \<Rightarrow> (('x, 'm, 'z) st, nat) step" where
  "restoreLoop_projectors [] minCursor = returnS minCursor"
| "restoreLoop_projectors (reg # regs) minCursor =
     bindS (runTx id id id (wrapS (''restore '' @ Name (reg_p reg)) (Restore (reg_p reg))))
       (\<lambda>pos. restoreLoop_projectors regs (if pos < minCursor then pos else minCursor))"

definition restoreProjectors ::
  "(('x, 'm, 'z) st, 'm) projectorReg list \<Rightarrow> (('x, 'm, 'z) st, nat) step" where
  "restoreProjectors ps =
     bindS (restoreLoop_projectors ps maxUint64)
       (\<lambda>minCursor. returnS (if minCursor = maxUint64 then 0 else minCursor))"

definition loadLatestPosition :: "(('x, 'm, 'z) st, nat) step" where
  "loadLatestPosition =
     dbQuery (\<lambda>d. case max_position (events d) of None \<Rightarrow> 0 | Some p \<Rightarrow> p)"

definition isSkipped :: "nat \<Rightarrow> string \<Rightarrow> (('x, 'm, 'z) st, bool) step" where
  "isSkipped pos projector =
     dbQuery (\<lambda>d. length (filter (\<lambda>r. r = (pos, projector)) (skipped_events d)) > 0)"

fun replayEvent ::
  "(('x, 'm, 'z) st, 'm) projectorReg list \<Rightarrow> event \<Rightarrow> ('x, 'm, 'z) st
     \<Rightarrow> (replay_error + unit) \<times> ('x, 'm, 'z) st" where
  "replayEvent [] e s = (Inr (), s)"
| "replayEvent (reg # regs) e s =
     (if reg_mode reg \<noteq> ProjectorModeSync then replayEvent regs e s
      else case isSkipped (Position e) (Name (reg_p reg)) s of
        (Inl err, s1) \<Rightarrow> (Inl (PlainError err), s1)
      | (Inr skipped, s1) \<Rightarrow>
         if skipped then replayEvent regs e s1
         else case applyProjector reg e s1 of
           (Inl err, s2) \<Rightarrow> (Inl (ReplayError (Position e) (Name (reg_p reg)) err), s2)
         | (Inr _, s2) \<Rightarrow> replayEvent regs e s2)"

fun replayEvents ::
  "(('x, 'm, 'z) st, 'm) projectorReg list \<Rightarrow> event list \<Rightarrow> ('x, 'm, 'z) st
     \<Rightarrow> (replay_error + unit) \<times> ('x, 'm, 'z) st" where
  "replayEvents ps [] s = (Inr (), s)"
| "replayEvents ps (e # es) s =
     (case replayEvent ps e s of
        (Inl err, s1) \<Rightarrow> (Inl err, s1)
      | (Inr _, s1) \<Rightarrow> replayEvents ps es s1)"

text \<open>
  The transaction of one batch. Unlike \<open>appendTx\<close> its deferred function only rolls back: it does not
  call \<open>Discard\<close>.
\<close>

definition replayTx ::
  "gotime \<Rightarrow> (('x, 'm, 'z) st, 'm) projectorReg list \<Rightarrow> event list \<Rightarrow> ('x, 'm, 'z) st
     \<Rightarrow> (replay_error + nat) \<times> ('x, 'm, 'z) st" where
  "replayTx now ps batch s =
     (case dbExec id s of
        (Inl e, s1) \<Rightarrow> (Inl (PlainError e), s1)
      | (Inr _, s1) \<Rightarrow>
         (case replayEvents ps batch s1 of
            (Inl err, s2) \<Rightarrow> (Inl err, s2\<lparr>db := db s1\<rparr>)
          | (Inr _, s2) \<Rightarrow>
             (case batchCursors now ps (Position (last batch)) s2 of
                (Inl e, s3) \<Rightarrow> (Inl (PlainError e), s3\<lparr>db := db s1\<rparr>)
              | (Inr _, s3) \<Rightarrow>
                 (case dbExec id s3 of
                    (Inl e, s4) \<Rightarrow> (Inl (PlainError e), s4\<lparr>db := db s1\<rparr>)
                  | (Inr _, s4) \<Rightarrow>
                      (Inr (length batch), s4\<lparr>mem := promoteAll ps (mem s4)\<rparr>)))))"

definition replayRows :: "codec \<Rightarrow> nat \<Rightarrow> nat \<Rightarrow> (('x, 'm, 'z) st, event list) step" where
  "replayRows cdc after limit =
     bindS (dbQuery (\<lambda>d. take limit (sort_key r_position
        (filter (\<lambda>r. r_position r > after) (events d))))) (\<lambda>rows.
     case scanRows cdc (\<lambda>_. True) rows of
       Inl e \<Rightarrow> failS e
     | Inr evs \<Rightarrow> bindS (dbExec id) (\<lambda>_. returnS evs))"

definition replayBatch ::
  "codec \<Rightarrow> gotime \<Rightarrow> (('x, 'm, 'z) st, 'm) projectorReg list \<Rightarrow> nat \<Rightarrow> nat \<Rightarrow> ('x, 'm, 'z) st
     \<Rightarrow> (replay_error + nat) \<times> ('x, 'm, 'z) st" where
  "replayBatch cdc now ps after limit s =
     (case replayRows cdc after limit s of
        (Inl e, s1) \<Rightarrow> (Inl (PlainError e), s1)
      | (Inr batch, s1) \<Rightarrow>
          if batch = [] then (Inr 0, s1) else replayTx now ps batch s1)"

text \<open>The loop advances its cursor by the number of events applied.\<close>

function replayLoop ::
  "codec \<Rightarrow> gotime \<Rightarrow> (('x, 'm, 'z) st, 'm) projectorReg list \<Rightarrow> nat \<Rightarrow> nat \<Rightarrow> ('x, 'm, 'z) st
     \<Rightarrow> (replay_error + unit) \<times> ('x, 'm, 'z) st" where
  "replayLoop cdc now ps latest cursor s =
     (if cursor < latest then
        case replayBatch cdc now ps cursor 1000 s of
          (Inl e, s1) \<Rightarrow> (Inl e, s1)
        | (Inr applied, s1) \<Rightarrow>
            if applied = 0 then (Inr (), s1)
            else replayLoop cdc now ps latest (cursor + applied) s1
      else (Inr (), s))"
  by pat_completeness auto
termination
  by (relation "measure (\<lambda>(_, _, _, latest, cursor, _). latest - cursor)") auto

declare replayLoop.simps [simp del]

definition Replay ::
  "codec \<Rightarrow> gotime \<Rightarrow> (('x, 'm, 'z) st, 'm) projectorReg list \<Rightarrow> ('x, 'm, 'z) st
     \<Rightarrow> (replay_error + unit) \<times> ('x, 'm, 'z) st" where
  "Replay cdc now ps s =
     (if started s then (Inl (PlainError ''Replay: store already started''), s)
      else case plain (restoreProjectors ps s) of
        (Inl e, s1) \<Rightarrow> (Inl e, s1)
      | (Inr cursor, s1) \<Rightarrow>
         (case plain (loadLatestPosition s1) of
            (Inl e, s2) \<Rightarrow> (Inl e, s2)
          | (Inr latest, s2) \<Rightarrow> replayLoop cdc now ps latest cursor s2))"

section \<open>Lemmas: positions and rows of a well-formed log\<close>

lemma sort_key_sorted [simp]: "sorted (map f xs) \<Longrightarrow> sort_key f xs = xs"
  by (rule properties_for_sort_key) simp_all

lemma log_wf_sorted: "log_wf d \<Longrightarrow> sorted (map r_position (filter P (events d)))"
proof -
  assume "log_wf d"
  then have "sorted_wrt (<) (map r_position (events d))" by (simp add: log_wf_def)
  then have "sorted_wrt (\<lambda>a b. r_position a < r_position b) (filter P (events d))"
    by (simp add: sorted_wrt_map sorted_wrt_filter)
  then show ?thesis
    unfolding sorted_map by (rule sorted_wrt_mono_rel [rotated]) simp
qed

text \<open>How many rows of the log lie at or below a position.\<close>

definition posUpto :: "nat \<Rightarrow> event_row list \<Rightarrow> nat" where
  "posUpto c rows = length (takeWhile (\<lambda>r. r_position r \<le> c) rows)"

lemma filter_above_drop:
  assumes "sorted_wrt (<) (map r_position rows)"
  shows "filter (\<lambda>r. c < r_position r) rows = drop (posUpto c rows) rows"
  using assms
proof (induction rows)
  case Nil
  then show ?case by (simp add: posUpto_def)
next
  case (Cons r rows)
  then show ?case
    by (auto simp: posUpto_def less_trans intro!: filter_True)
qed

lemma posUpto_le: "posUpto c rows \<le> length rows"
  by (simp add: posUpto_def length_takeWhile_le)

lemma posUpto_mono: "c \<le> c' \<Longrightarrow> posUpto c rows \<le> posUpto c' rows"
proof (induction rows)
  case (Cons r rows)
  then show ?case by (auto simp: posUpto_def)
qed (simp add: posUpto_def)

lemma posUpto_all: "\<forall>r \<in> set rows. r_position r \<le> c \<Longrightarrow> posUpto c rows = length rows"
  by (metis posUpto_def takeWhile_eq_all_conv)

text \<open>
  Positions are distinct integers, so \<open>n\<close> rows above \<open>c\<close> reach at least position \<open>c + n\<close>: moving
  the cursor by the number of events applied never moves it past an event that was not applied.
\<close>

lemma sorted_positions_grow:
  "sorted_wrt (<) (map r_position rows) \<Longrightarrow> \<forall>r \<in> set rows. c < r_position r \<Longrightarrow> i < length rows
   \<Longrightarrow> c + Suc i \<le> r_position (rows ! i)"
proof (induction rows arbitrary: c i)
  case (Cons r rows)
  show ?case
  proof (cases i)
    case 0
    with Cons.prems show ?thesis by simp
  next
    case (Suc j)
    have "r_position r + Suc j \<le> r_position (rows ! j)"
      using Cons.prems Suc by (intro Cons.IH) auto
    with Cons.prems Suc show ?thesis by simp
  qed
qed simp

lemma posUpto_advance:
  assumes "sorted_wrt (<) (map r_position rows)"
  shows "posUpto (c + n) rows \<le> posUpto c rows + n"
proof (rule ccontr)
  assume a: "\<not> ?thesis"
  let ?k = "posUpto c rows + n"
  have sub: "?k < posUpto (c + n) rows" using a by simp
  have len: "?k < length rows" using sub posUpto_le by (meson less_le_trans)
  have drop: "drop (posUpto c rows) rows = filter (\<lambda>r. c < r_position r) rows"
    using filter_above_drop [OF assms] by simp
  have "c + Suc n \<le> r_position (drop (posUpto c rows) rows ! n)"
  proof (rule sorted_positions_grow)
    show "sorted_wrt (<) (map r_position (drop (posUpto c rows) rows))"
      using assms by (metis drop_map sorted_wrt_drop)
    show "\<forall>r \<in> set (drop (posUpto c rows) rows). c < r_position r"
      unfolding drop by simp
  qed (use len in simp)
  then have "c + n < r_position (rows ! ?k)" using len by simp
  moreover have "r_position (rows ! ?k) \<le> c + n"
    using sub nth_length_takeWhile takeWhile_nth [of ?k "\<lambda>r. r_position r \<le> c + n" rows]
      nth_mem [of ?k "takeWhile (\<lambda>r. r_position r \<le> c + n) rows"] set_takeWhileD
    unfolding posUpto_def by metis
  ultimately show False by simp
qed

end
