(* ===== verification/Daemon_Projections.thy ===== *)
theory Daemon_Projections
  imports State_Cache Registry Replay
begin

text \<open>
  The store with the projectors the daemon registers (\<^verbatim>\<open>internal/daemon/daemon.go\<close>): the state cache
  and the registry, both sync. The interface \<open>event_projection\<close> is interpreted on them, and the
  properties of appending, of reading back and of recovery are stated over the code's own functions.
\<close>

section \<open>The registered projectors\<close>

definition daemonProjectors ::
  "(attributes option \<Rightarrow> error + bytes) \<Rightarrow> snapshot_codec \<Rightarrow> gotime
     \<Rightarrow> (('y, Cache, 'z) rst, Cache) projectorReg list" where
  "daemonProjectors ma k now =
     [\<lparr>reg_p = cacheProjector k now, reg_mode = ProjectorModeSync\<rparr>,
      \<lparr>reg_p = registryProjector ma, reg_mode = ProjectorModeSync\<rparr>]"

definition daemonView where
  "daemonView reg = (if Name (reg_p reg) = Cache_Name then cacheStep else (\<lambda>_ v. v))"

definition daemonTables where
  "daemonTables ma reg = (if Name (reg_p reg) = ''registry'' then registryStep ma else (\<lambda>_ v. v))"

lemmas daemon_defs = daemonProjectors_def cacheProjector_def registryProjector_def
  promoteAll_def discardAll_def

interpretation daemon: event_projection "daemonProjectors ma k now" cacheView cacheStaged daemonView
  regView "daemonTables ma" for ma k now
proof
  fix reg :: "(('y, Cache, 'z) rst, Cache) projectorReg" and e r and s t :: "('y, Cache, 'z) rst"
  assume reg: "reg \<in> set (daemonProjectors ma k now)" and a: "Apply (reg_p reg) e s = (r, t)"
  then show "keeps_log s t \<and> cacheView (mem t) = cacheView (mem s)"
    using Registry_Apply_frame [of s ma e]
    by (auto simp: daemon_defs only_tables_def keeps_log_def)
next
  fix reg :: "(('y, Cache, 'z) rst, Cache) projectorReg" and e and s t :: "('y, Cache, 'z) rst"
  assume reg: "reg \<in> set (daemonProjectors ma k now)" and a: "Apply (reg_p reg) e s = (Inr (), t)"
  then show "cacheStaged (mem t) = daemonView reg e (cacheStaged (mem s)) \<and>
      regView (db t) = daemonTables ma reg e (regView (db s))"
    using Registry_Apply_frame [of s ma e] Registry_Apply_ok [of ma e s t]
    by (auto simp: daemon_defs daemonView_def daemonTables_def Cache_Name_def only_tables_def)
qed (simp_all add: daemon_defs regView_def)

lemma daemon_vstep: "foldSync (daemonProjectors ma k now) daemonView = cacheStep"
  by (simp add: fun_eq_iff foldSync_def daemon_defs daemonView_def Cache_Name_def)

lemma daemon_wstep: "foldSync (daemonProjectors ma k now) (daemonTables ma) = registryStep ma"
  by (simp add: fun_eq_iff foldSync_def daemon_defs daemonTables_def Cache_Name_def)

lemmas daemon_Append_ok = daemon.Append_ok [unfolded daemon_vstep daemon_wstep]
lemmas daemon_AppendBatch_ok = daemon.AppendBatch_ok [unfolded daemon_vstep daemon_wstep]

section \<open>The projections reflect the log\<close>

definition empty_registry :: registry_view where
  "empty_registry = \<lparr>rv_drivers = Map.empty, rv_devices = Map.empty, rv_entities = Map.empty\<rparr>"

text \<open>
  The log decodes, the published cache is the fold of the decoded log and nothing is staged, the
  registry tables are the fold of the decoded log, and the store knows the latest position.
\<close>

definition reflects ::
  "codec \<Rightarrow> (attributes option \<Rightarrow> error + bytes) \<Rightarrow> ('y, Cache, 'z) rst \<Rightarrow> bool" where
  "reflects cdc ma s \<longleftrightarrow>
     (case scanRows cdc (\<lambda>_. True) (events (db s)) of
        Inl _ \<Rightarrow> False
      | Inr evs \<Rightarrow>
          cacheView (mem s) = fold cacheStep evs Map.empty \<and>
          cacheStaged (mem s) = cacheView (mem s) \<and>
          regView (db s) = fold (registryStep ma) evs empty_registry)"

definition store_ok ::
  "codec \<Rightarrow> (attributes option \<Rightarrow> error + bytes) \<Rightarrow> ('y, Cache, 'z) rst \<Rightarrow> bool" where
  "store_ok cdc ma s \<longleftrightarrow> log_wf (db s) \<and> reflects cdc ma s \<and>
     latestPosition s = (case max_position (events (db s)) of None \<Rightarrow> 0 | Some p \<Rightarrow> p)"

text \<open>The operations that write to the store, and running a list of them, whatever they return.\<close>

datatype store_op = OpAppend env event | OpBatch env "event list"

fun execOp ::
  "codec \<Rightarrow> (('y, Cache, 'z) rst, Cache) projectorReg list \<Rightarrow> store_op \<Rightarrow> ('y, Cache, 'z) rst
     \<Rightarrow> ('y, Cache, 'z) rst" where
  "execOp cdc ps (OpAppend en e) s = snd (Append cdc en ps e s)"
| "execOp cdc ps (OpBatch en evs) s = snd (AppendBatch cdc en ps evs s)"

definition runOps ::
  "codec \<Rightarrow> (('y, Cache, 'z) rst, Cache) projectorReg list \<Rightarrow> store_op list \<Rightarrow> ('y, Cache, 'z) rst
     \<Rightarrow> ('y, Cache, 'z) rst" where
  "runOps cdc ps ops s = fold (execOp cdc ps) ops s"

text \<open>Go's types: times that fit int64 (or are unset), 16-byte identifiers, a uint64 cause.\<close>

definition env_wf :: "env \<Rightarrow> bool" where
  "env_wf en \<longleftrightarrow> in_int64 (env_now en) \<and> (\<forall>i. length (env_uuid en i) = 16)"

definition input_wf :: "event \<Rightarrow> bool" where
  "input_wf e \<longleftrightarrow> (time_IsZero (Timestamp e) \<or> in_int64 (Timestamp e)) \<and>
     length (CorrelationID e) = 16 \<and> CausePosition e < 2 ^ 64"

fun op_wf :: "store_op \<Rightarrow> bool" where
  "op_wf (OpAppend en e) \<longleftrightarrow> env_wf en \<and> input_wf e"
| "op_wf (OpBatch en evs) \<longleftrightarrow> env_wf en \<and> (\<forall>e \<in> set evs. input_wf e)"

lemma filled_event_wf:
  assumes "env_wf en" "input_wf e" "filled en e e'" "batch_valid cdc en e'"
  shows "event_wf e'"
  using assms
  by (auto simp: env_wf_def input_wf_def filled_def event_wf_def batch_valid_def time_IsZero_def)

lemma filled_batch_wf:
  assumes "list_all2 (filled en) evs evs'" "env_wf en" "\<forall>e \<in> set evs. input_wf e" "\<forall>e \<in> set evs'. batch_valid cdc en e"
  shows "\<forall>e \<in> set evs'. event_wf e"
proof
  fix e' assume e': "e' \<in> set evs'"
  then obtain i where i: "i < length evs'" "e' = evs' ! i" by (auto simp: in_set_conv_nth)
  then have "filled en (evs ! i) e'" "input_wf (evs ! i)"
    using assms(1,3) by (auto simp: list_all2_conv_all_nth)
  with e' assms(2,4) show "event_wf e'" by (blast intro: filled_event_wf)
qed

text \<open>Appending decoded rows extends every fold.\<close>

lemma store_ok_extend:
  assumes ok: "store_ok cdc ma s" and rt: "codec_roundtrip cdc"
    and evs: "\<forall>e \<in> set evs. event_wf e \<and> batch_valid cdc en e" and ne: "evs \<noteq> []"
    and log: "events (db t) = events (db s) @ map (rowOf cdc) evs"
      "sqlite_sequence (db t) = sqlite_sequence (db s) + length evs" "sqlite_sequence (db t) < 2 ^ 63"
    and pos: "map Position evs = map (\<lambda>j. sqlite_sequence (db s) + Suc j) [0..<length evs]"
    and view: "cacheView (mem t) = fold cacheStep evs (cacheView (mem s))"
      "cacheStaged (mem t) = cacheView (mem t)"
      "regView (db t) = fold (registryStep ma) evs (regView (db s))"
    and lat: "latestPosition t = Position (last evs)"
  shows "store_ok cdc ma t"
proof -
  have rp: "r_position (rowOf cdc e) = Position e" for e by (simp add: rowOf_def eventRow_def)
  have wf: "log_wf (db t)"
  proof (rule log_wf_append)
    show "log_wf (db s)" using ok by (simp add: store_ok_def)
    show "events (db t) = events (db s) @ map (rowOf cdc) evs" by (rule log(1))
    show "sqlite_sequence (db t) = sqlite_sequence (db s) + length (map (rowOf cdc) evs)"
      using log(2) by simp
    have "map r_position (map (rowOf cdc) evs) = map Position evs" using rp by simp
    then show "map r_position (map (rowOf cdc) evs) =
        map (\<lambda>j. sqlite_sequence (db s) + Suc j) [0..<length (map (rowOf cdc) evs)]"
      using pos by simp
  qed (rule log(3))
  have "Position e < 2 ^ 64" if "e \<in> set evs" for e
  proof -
    have "Position e \<in> set (map Position evs)" using that by simp
    with pos log(2,3) show ?thesis by auto
  qed
  then have dec: "scanRows cdc (\<lambda>_. True) (map (rowOf cdc) evs) = Inr evs"
    using rt evs by (intro scanRows_rowOf) auto
  obtain evs0 where d0: "scanRows cdc (\<lambda>_. True) (events (db s)) = Inr evs0"
      "cacheView (mem s) = fold cacheStep evs0 Map.empty"
      "regView (db s) = fold (registryStep ma) evs0 empty_registry"
    using ok by (auto simp: store_ok_def reflects_def split: sum.splits)
  have "reflects cdc ma t"
    using scanRows_append [OF d0(1) dec] log(1) view d0(2,3) by (simp add: reflects_def)
  moreover have "max_position (events (db t)) = Some (Position (last evs))"
    using max_position_last [OF wf] log(1) ne rp by (simp add: last_map)
  ultimately show ?thesis using wf lat by (simp add: store_ok_def)
qed

lemma store_ok_same:
  assumes "store_ok cdc ma s" "daemon.same_as s t"
  shows "store_ok cdc ma t"
  using assms by (auto simp: store_ok_def reflects_def daemon.same_as_def daemon.settled_def
      split: sum.splits)

lemma store_ok_settled: "store_ok cdc ma s \<Longrightarrow> daemon.settled (mem s)"
  by (auto simp: store_ok_def reflects_def daemon.settled_def split: sum.splits)

lemma store_ok_latest: "store_ok cdc ma s \<Longrightarrow> latestPosition s \<le> sqlite_sequence (db s)"
  by (auto simp: store_ok_def max_position_last log_wf_def)

lemma Append_store_ok:
  assumes ok: "store_ok cdc ma s" and rt: "codec_roundtrip cdc" and wf: "env_wf en" "input_wf e"
  shows "store_ok cdc ma (snd (Append cdc en (daemonProjectors ma k now) e s))"
proof (cases "Append cdc en (daemonProjectors ma k now) e s")
  case (Pair r t)
  note st = store_ok_settled [OF ok]
  show ?thesis
  proof (cases r)
    case (Inl err)
    with Pair daemon.Append_fail [of cdc en ma k now e s err t] st ok store_ok_same show ?thesis
      by simp
  next
    case (Inr pos)
    let ?e = "(fillDefaults (env_now en) (env_uuid en 0) e)\<lparr>Position := pos\<rparr>"
    from Pair Inr have a: "Append cdc en (daemonProjectors ma k now) e s = (Inr pos, t)" by simp
    obtain pl b where p: "Payload e = Some pl" "marshalPayload cdc pl = Inr b" "Kind e \<noteq> []" "Source e \<noteq> []"
      "pos = Suc (sqlite_sequence (db s))" "sqlite_sequence (db s) < 2 ^ 63 - 1"
      "events (db t) = events (db s) @ [eventRow (fillDefaults (env_now en) (env_uuid en 0) e) b pos]"
      "sqlite_sequence (db t) = pos"
      "cacheView (mem t) = cacheStep ?e (cacheView (mem s))"
      "regView (db t) = registryStep ma ?e (regView (db s))"
      "daemon.settled (mem t)" "latestPosition t = max (latestPosition s) pos"
      using a st by (rule daemon_Append_ok)
    have row: "eventRow (fillDefaults (env_now en) (env_uuid en 0) e) b pos = rowOf cdc ?e"
      using p(1,2) by (simp add: rowOf_def payloadBytes_def eventRow_def)
    have bv: "batch_valid cdc en ?e" using p(1-4) by (simp add: batch_valid_def)
    then have ew: "event_wf ?e" using wf filled_fillDefaults(2) by (intro filled_event_wf [of en e])
    show ?thesis
      using p row bv ew store_ok_latest [OF ok] Pair
      by (intro store_ok_extend [OF ok rt, of "[?e]" en])
         (simp_all add: daemon.settled_def)
  qed
qed

lemma AppendBatch_store_ok:
  assumes ok: "store_ok cdc ma s" and rt: "codec_roundtrip cdc" and wf: "env_wf en" "\<forall>e \<in> set evs. input_wf e"
  shows "store_ok cdc ma (snd (AppendBatch cdc en (daemonProjectors ma k now) evs s))"
proof (cases "AppendBatch cdc en (daemonProjectors ma k now) evs s")
  case (Pair r t)
  note st = store_ok_settled [OF ok]
  show ?thesis
  proof (cases r)
    case (Inl err)
    with Pair daemon.AppendBatch_fail [of cdc en ma k now evs s err t] st ok store_ok_same show ?thesis
      by simp
  next
    case (Inr poss)
    show ?thesis
    proof (cases "evs = []")
      case True
      with ok show ?thesis by (simp add: AppendBatch_def)
    next
      case False
      from Pair Inr have a: "AppendBatch cdc en (daemonProjectors ma k now) evs s = (Inr poss, t)" by simp
      obtain evs' where p: "list_all2 (filled en) evs evs'" "\<forall>e \<in> set evs'. batch_valid cdc en e"
        "poss = map Position evs'"
        "map Position evs' = map (\<lambda>j. sqlite_sequence (db s) + Suc j) [0..<length evs]"
        "sqlite_sequence (db t) < 2 ^ 63"
        "events (db t) = events (db s) @ map (rowOf cdc) evs'"
        "sqlite_sequence (db t) = sqlite_sequence (db s) + length evs"
        "cacheView (mem t) = fold cacheStep evs' (cacheView (mem s))"
        "daemon.settled (mem t)"
        "regView (db t) = fold (registryStep ma) evs' (regView (db s))"
        "latestPosition t = Position (last evs')"
        using a st False by (rule daemon_AppendBatch_ok)
      have len: "length evs' = length evs" using p(1) by (simp add: list_all2_lengthD)
      then have ne: "evs' \<noteq> []" using False by auto
      have "\<forall>e \<in> set evs'. event_wf e" using p(1,2) wf by (intro filled_batch_wf)
      then show ?thesis
        using p len ne Pair
        by (intro store_ok_extend [OF ok rt, of evs' en])
           (simp_all add: daemon.settled_def)
    qed
  qed
qed

lemma runOps_store_ok:
  assumes "store_ok cdc ma s" "codec_roundtrip cdc" "\<forall>op \<in> set ops. op_wf op"
  shows "store_ok cdc ma (runOps cdc (daemonProjectors ma k now) ops s)"
  using assms
proof (induction ops arbitrary: s)
  case (Cons op ops)
  have "store_ok cdc ma (execOp cdc (daemonProjectors ma k now) op s)"
    using Cons.prems by (cases op) (auto simp: Append_store_ok AppendBatch_store_ok)
  with Cons show ?case by (simp add: runOps_def)
qed (simp add: runOps_def)

section \<open>Properties\<close>

text \<open>A store opened on an empty database, with any failure schedule.\<close>

definition emptyStore :: "error option list \<Rightarrow> (registry_db, Cache) store" where
  "emptyStore fs =
     \<lparr>cfg = withDefaults \<lparr>SnapshotEveryEvents = 0, SnapshotEveryPeriod = 0, MaxSubscriberBuffer = 0,
              SnapshotRetainPerOwner = 0\<rparr>,
      db = \<lparr>events = [], sqlite_sequence = 0, snapshots = [], projection_cursors = [],
            skipped_events = [], event_subscriptions = [], driver_instances = [], devices = [],
            entities = []\<rparr>,
      mem = New, faults = fs, latestPosition = 0, started = False\<rparr>"

text \<open>Concrete values for the witnesses: a codec that knows two messages, and one event.\<close>

definition demoCodec :: codec where
  "demoCodec =
     \<lparr>marshalPayload = (\<lambda>p. if p = NoKind then Inr ''n''
        else if p = StateChanged None ''lamp'' then Inr ''s'' else Inl ''unsupported''),
      unmarshalPayload = (\<lambda>b. if b = ''n'' then Inr NoKind
        else if b = ''s'' then Inr (StateChanged None ''lamp'') else Inl ''bad'')\<rparr>"

definition demoEnv :: env where
  "demoEnv = \<lparr>env_now = 7, env_uuid = (\<lambda>_. replicate 16 (CHR ''x'')), env_ctxDone = (\<lambda>_. None)\<rparr>"

definition demoEvent :: event where
  "demoEvent = \<lparr>Position = 0, Timestamp = 5, Kind = ''state_changed'', Entity = ''lamp'', Source = ''hue'',
     CorrelationID = uuid_Nil, CausePosition = 0, Payload = Some (StateChanged None ''lamp'')\<rparr>"

definition demoSnapshotCodec :: snapshot_codec where
  "demoSnapshotCodec =
     \<lparr>marshalSnapshot = (\<lambda>p. if p = \<lparr>sp_Ts = 0, sp_Position = 1, sp_Entities = []\<rparr> then Inr ''e'' else Inl ''no''),
      unmarshalSnapshot = (\<lambda>b. if b = ''e'' then Inr \<lparr>sp_Ts = 0, sp_Position = 1, sp_Entities = []\<rparr> else Inl ''no''),
      zstdNewWriter = None, encodeAll = (\<lambda>b. b), zstdNewReader = None, decodeAll = Inr\<rparr>"

definition demoMarshal :: "attributes option \<Rightarrow> error + bytes" where
  "demoMarshal _ = Inr ''caps''"

lemma emptyStore_ok: "store_ok cdc ma (emptyStore fs)"
  by (simp add: store_ok_def reflects_def emptyStore_def log_wf_def max_position_def cacheView_def
      cacheStaged_def New_def regView_def empty_registry_def)

lemma emptyStore_settled: "cacheStaged (mem (emptyStore fs)) = cacheView (mem (emptyStore fs))"
  by (simp add: emptyStore_def New_def cacheStaged_def cacheView_def)

lemma demoCodec_roundtrip: "codec_roundtrip demoCodec"
  by (simp add: codec_roundtrip_def demoCodec_def)

lemma demo_wf: "env_wf demoEnv" "input_wf demoEvent"
  by (simp_all add: env_wf_def input_wf_def demoEnv_def demoEvent_def in_int64_def uuid_Nil_def)

lemmas demo_append_simps = Append_def demoEvent_def demoCodec_def demoEnv_def withRetry_def
  backoffs_def appendTx_def runTx_def bindS_def wrapS_def insertEvent_def lastInsertId_def
  db_call_simps emptyStore_def syncLoop_def daemonProjectors_def cacheProjector_def
  registryProjector_def applyProjector_def advanceCursor_def Registry_Apply_def returnS_def
  Cache_Name_def Let_def

lemma demo_append_ok:
  "fst (Append demoCodec demoEnv (daemonProjectors demoMarshal demoSnapshotCodec 0) demoEvent (emptyStore [])) = Inr 1"
  by (simp add: demo_append_simps)

lemma demo_append_fails:
  "fst (Append demoCodec demoEnv (daemonProjectors demoMarshal demoSnapshotCodec 0) demoEvent
     (emptyStore [None, None, None, Some ''disk I/O error''])) = Inl ''advance cursor state_cache: disk I/O error''"
  by (simp add: demo_append_simps isSQLiteBusy_def sublist_code)

text \<open>
  C1. From an empty database, after any sequence of \<open>Append\<close> and \<open>AppendBatch\<close> calls, each of which
  may fail or be retried at any database call of any attempt, the log is well-formed, the published
  state cache and the registry tables are exactly the fold of the stored events, nothing is left
  staged, and the store's latest position is the log's.
\<close>

theorem projections_follow_log:
  assumes "codec_roundtrip cdc" and "\<forall>op \<in> set ops. op_wf op"
  shows "store_ok cdc ma (runOps cdc (daemonProjectors ma k now) ops (emptyStore fs))"
  using emptyStore_ok assms by (rule runOps_store_ok)

theorem projections_follow_log_witness:
  "store_ok demoCodec demoMarshal (runOps demoCodec (daemonProjectors demoMarshal demoSnapshotCodec 0)
     [OpAppend demoEnv demoEvent, OpBatch demoEnv [demoEvent, demoEvent]]
     (emptyStore [None, None, Some ''database is locked'', None, None, Some ''disk I/O error'']))"
proof (rule projections_follow_log)
  show "codec_roundtrip demoCodec" by (rule demoCodec_roundtrip)
  show "\<forall>op \<in> set [OpAppend demoEnv demoEvent, OpBatch demoEnv [demoEvent, demoEvent]]. op_wf op"
    by (simp add: demo_wf)
qed

text \<open>
  C4. \<open>Append\<close> is atomic: when it returns an error, from whatever statement of whatever attempt, the
  database, the published cache, the registry tables and the latest position are as before, and
  nothing stays staged.
\<close>

theorem Append_atomic:
  assumes "Append cdc en (daemonProjectors ma k now) e s = (Inl err, t)"
    and "cacheStaged (mem s) = cacheView (mem s)"
  shows "db t = db s \<and> cacheView (mem t) = cacheView (mem s) \<and>
    cacheStaged (mem t) = cacheView (mem s) \<and> latestPosition t = latestPosition s"
  using daemon.Append_fail [OF assms(1)] assms(2)
  by (auto simp: daemon.same_as_def daemon.settled_def)

theorem Append_atomic_witness:
  "db (snd (Append demoCodec demoEnv (daemonProjectors demoMarshal demoSnapshotCodec 0) demoEvent
     (emptyStore [None, None, None, Some ''disk I/O error'']))) = db (emptyStore [])"
  using Append_atomic [OF prod_eqI [OF trans [OF demo_append_fails fst_conv [symmetric]] snd_conv [symmetric]]
      emptyStore_settled]
  by (simp add: emptyStore_def)

text \<open>
  A successful \<open>Append\<close> stores exactly one row, under the next position of the sequence; the row
  is the given event with its unset time and correlation id filled in; the published cache and the
  registry tables advance by exactly that event.
\<close>

theorem Append_effect:
  assumes "Append cdc en (daemonProjectors ma k now) e s = (Inr pos, t)"
    and "cacheStaged (mem s) = cacheView (mem s)"
  shows "pos = Suc (sqlite_sequence (db s)) \<and> sqlite_sequence (db t) = pos \<and> pos < 2 ^ 63 \<and>
    (let e' = (fillDefaults (env_now en) (env_uuid en 0) e)\<lparr>Position := pos\<rparr> in
       events (db t) = events (db s) @ [rowOf cdc e'] \<and>
       cacheView (mem t) = cacheStep e' (cacheView (mem s)) \<and>
       regView (db t) = registryStep ma e' (regView (db s))) \<and>
    latestPosition t = max (latestPosition s) pos"
proof -
  have st: "daemon.settled (mem s)" using assms(2) by (simp add: daemon.settled_def)
  from assms(1) st show ?thesis
  proof (rule daemon_Append_ok)
    fix pl b
    assume "Payload e = Some pl" "marshalPayload cdc pl = Inr b"
      "events (db t) = events (db s) @ [eventRow (fillDefaults (env_now en) (env_uuid en 0) e) b pos]"
      "pos = Suc (sqlite_sequence (db s))" "sqlite_sequence (db s) < 2 ^ 63 - 1"
      "sqlite_sequence (db t) = pos"
      "cacheView (mem t) =
         cacheStep (fillDefaults (env_now en) (env_uuid en 0) e\<lparr>Position := pos\<rparr>) (cacheView (mem s))"
      "regView (db t) =
         registryStep ma (fillDefaults (env_now en) (env_uuid en 0) e\<lparr>Position := pos\<rparr>) (regView (db s))"
      "latestPosition t = max (latestPosition s) pos"
    then show ?thesis by (simp add: Let_def rowOf_def payloadBytes_def eventRow_def)
  qed
qed

theorem Append_effect_witness:
  "latestPosition (snd (Append demoCodec demoEnv (daemonProjectors demoMarshal demoSnapshotCodec 0) demoEvent
     (emptyStore []))) = 1"
  using Append_effect [OF prod_eqI [OF trans [OF demo_append_ok fst_conv [symmetric]] snd_conv [symmetric]]
      emptyStore_settled]
  by (simp add: emptyStore_def)

text \<open>
  C19. \<open>AppendBatch\<close> is all-or-nothing. On an error nothing of the database, the published cache or
  the latest position changed and nothing stays staged; on success every event of the batch was
  stored, in order, under consecutive positions that continue the sequence, differing from what was
  passed only in filled-in defaults, and both projections advanced by exactly those events.
\<close>

theorem AppendBatch_all_or_nothing:
  assumes "AppendBatch cdc en (daemonProjectors ma k now) evs s = (r, t)"
    and "cacheStaged (mem s) = cacheView (mem s)" and "evs \<noteq> []"
  shows "case r of
      Inl _ \<Rightarrow> db t = db s \<and> cacheView (mem t) = cacheView (mem s) \<and>
        cacheStaged (mem t) = cacheView (mem s) \<and> latestPosition t = latestPosition s
    | Inr poss \<Rightarrow> poss = map (\<lambda>j. sqlite_sequence (db s) + Suc j) [0..<length evs] \<and>
        (\<exists>evs'. list_all2 (filled en) evs evs' \<and> map Position evs' = poss \<and>
          events (db t) = events (db s) @ map (rowOf cdc) evs' \<and>
          cacheView (mem t) = fold cacheStep evs' (cacheView (mem s)) \<and>
          cacheStaged (mem t) = cacheView (mem t) \<and>
          regView (db t) = fold (registryStep ma) evs' (regView (db s)) \<and>
          latestPosition t = last poss)"
proof -
  have st: "daemon.settled (mem s)" using assms(2) by (simp add: daemon.settled_def)
  show ?thesis
  proof (cases r)
    case (Inl e)
    with assms(1) daemon.AppendBatch_fail [OF _ st, of cdc en ma k now evs e t] assms(2) show ?thesis
      by (auto simp: daemon.same_as_def daemon.settled_def)
  next
    case (Inr poss)
    with assms(1) have a: "AppendBatch cdc en (daemonProjectors ma k now) evs s = (Inr poss, t)" by simp
    show ?thesis
    proof (rule daemon_AppendBatch_ok [OF a st assms(3)])
      fix evs'
      assume p: "list_all2 (filled en) evs evs'" "poss = map Position evs'"
        "map Position evs' = map (\<lambda>j. sqlite_sequence (db s) + Suc j) [0..<length evs]"
        "events (db t) = events (db s) @ map (rowOf cdc) evs'"
        "cacheView (mem t) = fold cacheStep evs' (cacheView (mem s))" "daemon.settled (mem t)"
        "regView (db t) = fold (registryStep ma) evs' (regView (db s))"
        "latestPosition t = Position (last evs')"
      have "evs' \<noteq> []" using p(1) assms(3) by (auto simp: list_all2_Nil2)
      then have "last poss = Position (last evs')" using p(2) by (simp add: last_map)
      with p have "list_all2 (filled en) evs evs' \<and> map Position evs' = poss \<and>
          events (db t) = events (db s) @ map (rowOf cdc) evs' \<and>
          cacheView (mem t) = fold cacheStep evs' (cacheView (mem s)) \<and>
          cacheStaged (mem t) = cacheView (mem t) \<and>
          regView (db t) = fold (registryStep ma) evs' (regView (db s)) \<and>
          latestPosition t = last poss"
        by (simp add: daemon.settled_def)
      with p(2,3) Inr show ?thesis by auto
    qed
  qed
qed

theorem AppendBatch_all_or_nothing_witness:
  "case AppendBatch demoCodec demoEnv (daemonProjectors demoMarshal demoSnapshotCodec 0) [demoEvent, demoEvent]
          (emptyStore [None, None, None, None, Some ''disk I/O error'']) of
     (Inl _, t) \<Rightarrow> db t = db (emptyStore [])
   | (Inr poss, _) \<Rightarrow> poss = [1, 2]"
  using AppendBatch_all_or_nothing [of demoCodec demoEnv demoMarshal demoSnapshotCodec 0 "[demoEvent, demoEvent]"
      "emptyStore [None, None, None, None, Some ''disk I/O error'']", OF prod.collapse [symmetric] emptyStore_settled]
  by (auto simp: emptyStore_def upt_rec split: sum.splits prod.splits)

section \<open>Reading back\<close>

lemma scanRows_filter:
  "scanRows cdc (\<lambda>_. True) rows = Inr evs \<Longrightarrow> scanRows cdc P rows = Inr (filter P evs)"
  by (induction rows arbitrary: evs) (auto split: sum.splits)

lemma scanEvent_Position: "scanEvent cdc r = Inr e \<Longrightarrow> r_position r < 2 ^ 63 \<Longrightarrow> Position e = r_position r"
  by (auto simp: scanEvent_def uint64_of_def split: sum.splits)

lemma scanRows_selected:
  assumes "scanRows cdc (\<lambda>_. True) rows = Inr evs" "\<forall>r \<in> set rows. r_position r < 2 ^ 63"
  shows "scanRows cdc (\<lambda>_. True) (take n (filter (\<lambda>r. P (r_position r)) rows)) =
    Inr (take n (filter (\<lambda>e. P (Position e)) evs))"
  using assms
proof (induction rows arbitrary: evs n)
  case (Cons r rows)
  then obtain e es where e: "scanEvent cdc r = Inr e" "scanRows cdc (\<lambda>_. True) rows = Inr es" "evs = e # es"
    by (auto split: sum.splits)
  have "Position e = r_position r" using e(1) Cons.prems(2) scanEvent_Position by simp
  with e Cons.IH [OF e(2)] Cons.prems(2) show ?case by (cases n) auto
qed simp

lemma selectRange_log:
  assumes "log_wf d"
  shows "selectRange from to lim (events d) =
    take lim (filter (\<lambda>r. r_position r > from \<and> (to = 0 \<or> r_position r \<le> to)) (events d))"
proof -
  have "sorted (map r_position (events d))"
    using assms by (simp add: log_wf_def strict_sorted_imp_sorted)
  then show ?thesis by (simp add: selectRange_def sorted_filter sort_key_id_if_sorted)
qed

lemma Query_decoded:
  assumes "log_wf (db s)" "scanRows cdc (\<lambda>_. True) (events (db s)) = Inr evs"
    and "Query cdc q s = (Inr out, t)"
  shows "out = filter (Matches (QFilter q))
      (take (if Limit q \<le> 0 then 1000 else nat (Limit q))
        (filter (\<lambda>e. Position e > FromPosition q \<and> (ToPosition q = 0 \<or> Position e \<le> ToPosition q)) evs))
    \<and> db t = db s"
proof -
  let ?lim = "if Limit q \<le> 0 then 1000 else nat (Limit q)"
  let ?P = "\<lambda>p. p > FromPosition q \<and> (ToPosition q = 0 \<or> p \<le> ToPosition q)"
  have "\<forall>r \<in> set (events (db s)). r_position r < 2 ^ 63"
    using assms(1) by (auto simp: log_wf_def dest: le_less_trans)
  from scanRows_filter [OF scanRows_selected [OF assms(2) this, of ?lim ?P], of "Matches (QFilter q)"]
  have sel: "scanRows cdc (Matches (QFilter q))
      (selectRange (FromPosition q) (ToPosition q) ?lim (events (db s))) =
    Inr (filter (Matches (QFilter q)) (take ?lim (filter (\<lambda>e. ?P (Position e)) evs)))"
    unfolding selectRange_log [OF assms(1)] .
  from assms(3) obtain rows s1 where q: "dbQuery (\<lambda>d. selectRange (FromPosition q) (ToPosition q) ?lim (events d)) s = (Inr rows, s1)"
    and rest: "(case scanRows cdc (Matches (QFilter q)) rows of
        Inl e \<Rightarrow> failS e
      | Inr evs \<Rightarrow> bindS (dbExec id) (\<lambda>_. returnS evs)) s1 = (Inr out, t)"
    by (auto simp: Query_def Let_def bindS_def wrapS_def split: prod.splits sum.splits)
  from dbQuery_InrD [OF q] have rows: "rows = selectRange (FromPosition q) (ToPosition q) ?lim (events (db s))"
      "db s1 = db s" by simp_all
  from rest [unfolded rows(1) sel] show ?thesis
    by (auto simp: bindS_def returnS_def rows(2) split: prod.splits sum.splits dest: dbExec_InrD)
qed

text \<open>
  \<open>Query\<close> on a well-formed log returns the events of the asked range of positions in log order,
  at most the limit of them (1000 when none is given), and of those the ones that match the filter;
  it changes nothing. The filter applies after the limit, as the code does it.
\<close>

theorem Query_functional:
  assumes "store_ok cdc ma s" "Query cdc q s = (Inr out, t)"
  shows "\<exists>evs. scanRows cdc (\<lambda>_. True) (events (db s)) = Inr evs \<and> sorted_wrt (<) (map r_position (events (db s))) \<and>
    out = filter (Matches (QFilter q))
      (take (if Limit q \<le> 0 then 1000 else nat (Limit q))
        (filter (\<lambda>e. Position e > FromPosition q \<and> (ToPosition q = 0 \<or> Position e \<le> ToPosition q)) evs)) \<and>
    db t = db s"
proof -
  obtain evs where "scanRows cdc (\<lambda>_. True) (events (db s)) = Inr evs" and "log_wf (db s)"
    using assms(1) by (auto simp: store_ok_def reflects_def split: sum.splits)
  with Query_decoded [OF this(2,1) assms(2)] show ?thesis by (auto simp: log_wf_def)
qed

lemma Append_stored:
  assumes "Append cdc en (daemonProjectors ma k now) e s = (Inr pos, t)" "daemon.settled (mem s)"
    and "codec_roundtrip cdc" "env_wf en" "input_wf e"
  defines "e' \<equiv> (fillDefaults (env_now en) (env_uuid en 0) e)\<lparr>Position := pos\<rparr>"
  shows "scanEvent cdc (rowOf cdc e') = Inr e' \<and> events (db t) = events (db s) @ [rowOf cdc e'] \<and>
    pos = Suc (sqlite_sequence (db s)) \<and> pos < 2 ^ 63"
proof (rule daemon_Append_ok [OF assms(1,2)])
  fix pl b
  assume p: "Payload e = Some pl" "marshalPayload cdc pl = Inr b" "Kind e \<noteq> []" "Source e \<noteq> []"
    "pos = Suc (sqlite_sequence (db s))" "sqlite_sequence (db s) < 2 ^ 63 - 1"
    "events (db t) = events (db s) @ [eventRow (fillDefaults (env_now en) (env_uuid en 0) e) b pos]"
  then have "batch_valid cdc en e'" by (simp add: batch_valid_def e'_def)
  then have "event_wf e'"
    using assms(4,5) filled_fillDefaults(2) unfolding e'_def by (intro filled_event_wf [of en e])
  then have "scanEvent cdc (rowOf cdc e') = Inr e'"
    using p by (intro scanEvent_rowOf [OF assms(3)]) (simp_all add: e'_def)
  with p show ?thesis by (simp add: e'_def rowOf_def payloadBytes_def eventRow_def)
qed

text \<open>
  C20. Round trip: querying from just below the position that a successful \<open>Append\<close> returned gives
  exactly the appended event, with its defaults filled in and its position set.
\<close>

theorem Append_Query_roundtrip:
  assumes "store_ok cdc ma s" "codec_roundtrip cdc" "env_wf en" "input_wf e"
    and "Append cdc en (daemonProjectors ma k now) e s = (Inr pos, t)"
    and "Query cdc \<lparr>FromPosition = pos - 1, ToPosition = 0, QFilter = Filter_zero, Limit = 0\<rparr> t = (Inr out, u)"
  shows "out = [(fillDefaults (env_now en) (env_uuid en 0) e)\<lparr>Position := pos\<rparr>]"
proof -
  let ?e = "(fillDefaults (env_now en) (env_uuid en 0) e)\<lparr>Position := pos\<rparr>"
  obtain evs where evs: "scanRows cdc (\<lambda>_. True) (events (db s)) = Inr evs" and wf: "log_wf (db s)"
    using assms(1) by (auto simp: store_ok_def reflects_def split: sum.splits)
  have st: "scanEvent cdc (rowOf cdc ?e) = Inr ?e" "events (db t) = events (db s) @ [rowOf cdc ?e]"
      "pos = Suc (sqlite_sequence (db s))"
    using Append_stored [OF assms(5) store_ok_settled [OF assms(1)] assms(2-4)] by auto
  have "log_wf (db t)"
    using Append_store_ok [OF assms(1-4), of k now] assms(5) by (simp add: store_ok_def)
  moreover have "scanRows cdc (\<lambda>_. True) (events (db t)) = Inr (evs @ [?e])"
    unfolding st(2) using st(1) by (intro scanRows_append [OF evs]) simp
  moreover have "filter (\<lambda>e. Position e > pos - 1) evs = []"
  proof -
    have le: "\<forall>r \<in> set (events (db s)). r_position r \<le> sqlite_sequence (db s) \<and> r_position r < 2 ^ 63"
      using wf by (auto simp: log_wf_def dest: le_less_trans)
    have "scanRows cdc (\<lambda>_. True) (filter (\<lambda>r. r_position r > pos - 1) (events (db s))) =
        Inr (filter (\<lambda>e. Position e > pos - 1) evs)"
      using scanRows_selected [OF evs, of "length evs + length (events (db s))" "\<lambda>p. p > pos - 1"] le
      by (simp add: le_trans [OF length_filter_le])
    moreover have "filter (\<lambda>r. r_position r > pos - 1) (events (db s)) = []"
      using le st(3) by (auto simp: filter_empty_conv)
    ultimately show ?thesis by simp
  qed
  ultimately show ?thesis
    using Query_decoded [OF _ _ assms(6)] st(3) by (auto simp: Matches_iff Filter_zero_def)
qed

text \<open>Two reads of the store after the append of \<open>demoEvent\<close>.\<close>

definition demoStored :: "(registry_db, Cache) store" where
  "demoStored = snd (Append demoCodec demoEnv (daemonProjectors demoMarshal demoSnapshotCodec 0) demoEvent (emptyStore []))"

lemma demoStored_append:
  "Append demoCodec demoEnv (daemonProjectors demoMarshal demoSnapshotCodec 0) demoEvent (emptyStore []) =
    (Inr 1, demoStored)"
  unfolding demoStored_def by (metis demo_append_ok prod.collapse)

lemma demoStored_ok: "store_ok demoCodec demoMarshal demoStored"
  unfolding demoStored_def by (intro Append_store_ok emptyStore_ok demoCodec_roundtrip demo_wf)

lemma demo_query:
  "\<exists>out u. Query demoCodec \<lparr>FromPosition = 0, ToPosition = 0, QFilter = Filter_zero, Limit = 0\<rparr> demoStored = (Inr out, u)"
  unfolding demoStored_def
  by (simp add: Query_def demo_append_simps selectRange_def eventRow_def scanEvent_def failS_def)

theorem Query_functional_witness:
  "\<exists>out t. Query demoCodec \<lparr>FromPosition = 0, ToPosition = 0, QFilter = Filter_zero, Limit = 0\<rparr> demoStored = (Inr out, t) \<and>
     db t = db demoStored"
  using demo_query Query_functional [OF demoStored_ok] by blast

theorem Append_Query_roundtrip_witness:
  "\<exists>u. Query demoCodec \<lparr>FromPosition = 0, ToPosition = 0, QFilter = Filter_zero, Limit = 0\<rparr> demoStored =
     (Inr [(fillDefaults 7 (replicate 16 (CHR ''x'')) demoEvent)\<lparr>Position := 1\<rparr>], u)"
  using demo_query
    Append_Query_roundtrip [OF emptyStore_ok demoCodec_roundtrip demo_wf demoStored_append]
  by (fastforce simp: demoEnv_def)

end
