(* ===== verification/Recovery.thy ===== *)
theory Recovery
  imports Daemon_Projections
begin

text \<open>
  Recovery after a restart: restoring the newest readable snapshot and replaying the log from the
  lowest restored position rebuilds the cache that was published before. The lemmas follow the code
  from one event to the whole loop on a database that does not fail.
\<close>

section \<open>Decoded logs\<close>

abbreviation "decode cdc rows \<equiv> scanRows cdc (\<lambda>_. True) rows"

lemma decode_length: "decode cdc rows = Inr evs \<Longrightarrow> length evs = length rows"
  by (induction rows arbitrary: evs) (auto split: sum.splits)

lemma decode_take: "decode cdc rows = Inr evs \<Longrightarrow> decode cdc (take n rows) = Inr (take n evs)"
proof (induction rows arbitrary: n evs)
  case (Cons r rows)
  then show ?case by (cases n) (auto split: sum.splits)
qed simp

lemma decode_drop: "decode cdc rows = Inr evs \<Longrightarrow> decode cdc (drop n rows) = Inr (drop n evs)"
proof (induction rows arbitrary: n evs)
  case (Cons r rows)
  then show ?case by (cases n) (auto split: sum.splits)
qed simp

text \<open>Segments of the log and how overlapping ones combine.\<close>

definition seg :: "nat \<Rightarrow> nat \<Rightarrow> 'a list \<Rightarrow> 'a list" where
  "seg a b xs = take (b - a) (drop a xs)"

lemma seg_append: "a \<le> b \<Longrightarrow> b \<le> c \<Longrightarrow> seg a b xs @ seg b c xs = seg a c xs"
proof -
  assume "a \<le> b" "b \<le> c"
  then have "c - a = (b - a) + (c - b)" "(b - a) + a = b" by simp_all
  then show ?thesis unfolding seg_def by (simp only: take_add drop_drop)
qed

lemma fold_seg_overlap:
  assumes "a \<le> c" "c \<le> h" "h \<le> h'"
  shows "fold cacheStep (seg c h' evs) (fold cacheStep (seg a h evs) m) = fold cacheStep (seg a h' evs) m"
proof -
  have "seg c h' evs = seg c h evs @ seg h h' evs" "seg a h evs = seg a c evs @ seg c h evs"
    "seg a h' evs = seg a c evs @ seg c h evs @ seg h h' evs"
    using assms by (simp_all add: seg_append)
  then show ?thesis using cache_replay_overlap by simp
qed

section \<open>Replay on a database that does not fail\<close>

definition quiet :: "('y, Cache, 'z) rst \<Rightarrow> bool" where
  "quiet s \<longleftrightarrow> faults s = [] \<and> skipped_events (db s) = []"

definition marshals :: "(attributes option \<Rightarrow> error + bytes) \<Rightarrow> bool" where
  "marshals ma \<longleftrightarrow> (\<forall>a. \<exists>b. ma a = Inr b)"

lemma dbTry_no_faults: "faults s = [] \<Longrightarrow> f (db s) = Inr d \<Longrightarrow> dbTry f s = (Inr (), s\<lparr>db := d\<rparr>)"
  by (simp add: dbTry_def bindS_def)

lemma Registry_Apply_total:
  assumes "quiet s" "marshals ma"
  shows "\<exists>t. Registry_Apply ma e s = (Inr (), t) \<and> quiet t"
proof (cases "Payload e")
  case None
  with assms show ?thesis by (simp add: Registry_Apply_def returnS_def)
next
  case (Some pl)
  show ?thesis
  proof (cases pl)
    case (EntityRegistered p)
    obtain caps where caps: "ma (er_Capabilities p) = Inr caps" using assms(2) by (auto simp: marshals_def)
    let ?now = "UnixNano (Timestamp e)"
    let ?dev = "if er_DeviceId p \<noteq> [] then Some (er_DeviceId p) else None"
    let ?d1 = "(db s)\<lparr>driver_instances :=
      ensureDriverInstance (er_DriverInstanceId p) ?now (driver_instances (db s))\<rparr>"
    have drv: "map_of (driver_instances ?d1) (er_DriverInstanceId p) \<noteq> None"
      by (simp add: ensureDriverInstance_def)
    have "\<exists>d2. (if er_DeviceId p \<noteq> [] then ensureDevice (er_DeviceId p) (er_DriverInstanceId p) ?now ?d1
        else Inr ?d1) = Inr d2"
      using drv by (auto simp: ensureDevice_def)
    then obtain d2 where d2: "(if er_DeviceId p \<noteq> []
        then ensureDevice (er_DeviceId p) (er_DriverInstanceId p) ?now ?d1 else Inr ?d1) = Inr d2" ..
    have fk: "map_of (driver_instances d2) (er_DriverInstanceId p) \<noteq> None"
        "\<forall>x. ?dev = Some x \<longrightarrow> map_of (devices d2) x \<noteq> None" "skipped_events d2 = skipped_events (db s)"
      using d2 drv by (auto simp: ensureDevice_def split: if_splits)
    then obtain d3 where d3: "upsertEntity (Entity e) ?dev p caps ?now d2 = Inr d3"
        "skipped_events d3 = skipped_events (db s)"
      by (auto simp: upsertEntity_def)
    have "applyEntityRegistered ma e p s = (Inr (), s\<lparr>db := d3\<rparr>)"
      using assms(1) caps d2 d3(1)
      by (auto simp: applyEntityRegistered_def Let_def quiet_def bindS_def wrapS_def returnS_def
          dbTry_no_faults split: if_splits)
    with Some EntityRegistered assms(1) d3(2) show ?thesis by (simp add: Registry_Apply_def quiet_def)
  next
    case (DriverEvent p)
    with Some assms(1) show ?thesis
      by (auto simp: Registry_Apply_def applyDriverEvent_def quiet_def wrapS_def returnS_def)
  next
    case (EntityUnregistered r i)
    with Some assms(1) show ?thesis
      by (auto simp: Registry_Apply_def applyEntityUnregistered_def quiet_def wrapS_def)
  qed (use Some assms in \<open>auto simp: Registry_Apply_def returnS_def\<close>)
qed

lemma replayEvent_quiet:
  assumes "quiet s" "marshals ma"
  shows "\<exists>t. replayEvent (daemonProjectors ma k now) e s = (Inr (), t) \<and> quiet t \<and>
    cacheStaged (mem t) = cacheStep e (cacheStaged (mem s)) \<and> keeps_log s t"
proof -
  let ?s = "s\<lparr>mem := Cache_Apply e (mem s)\<rparr>"
  have q: "quiet ?s" using assms(1) by (simp add: quiet_def)
  then obtain t where t: "Registry_Apply ma e ?s = (Inr (), t)" "quiet t"
    using Registry_Apply_total assms(2) by blast
  moreover have "keeps_log ?s t" "mem t = mem ?s"
    using Registry_Apply_frame [of ?s ma e] t(1) by (auto simp: only_tables_def)
  ultimately show ?thesis
    using assms(1)
    by (auto simp: daemonProjectors_def cacheProjector_def registryProjector_def isSkipped_def
        applyProjector_def quiet_def keeps_log_def)
qed

lemma replayEvents_quiet:
  assumes "quiet s" "marshals ma"
  shows "\<exists>t. replayEvents (daemonProjectors ma k now) es s = (Inr (), t) \<and> quiet t \<and>
    cacheStaged (mem t) = fold cacheStep es (cacheStaged (mem s)) \<and> keeps_log s t"
  using assms(1)
proof (induction es arbitrary: s)
  case (Cons e es)
  obtain s1 where 1: "replayEvent (daemonProjectors ma k now) e s = (Inr (), s1)" "quiet s1"
      "cacheStaged (mem s1) = cacheStep e (cacheStaged (mem s))" "keeps_log s s1"
    using replayEvent_quiet Cons.prems assms(2) by metis
  with Cons.IH [of s1] show ?case by (auto intro: keeps_log_trans)
qed simp

lemma batchCursors_quiet:
  assumes "quiet s"
  shows "\<exists>t. batchCursors now qs p s = (Inr (), t) \<and> quiet t \<and> mem t = mem s \<and> keeps_log s t"
  using assms unfolding batchCursors_def
proof (induction qs arbitrary: s)
  case (Cons reg qs)
  obtain s1 where 1: "advanceCursor now (Name (reg_p reg)) p s = (Inr (), s1)" "quiet s1" "mem s1 = mem s"
      "keeps_log s s1"
    using Cons.prems by (simp add: advanceCursor_def quiet_def keeps_log_def)
  from Cons.IH [OF 1(2)] Cons.IH [OF Cons.prems] 1 show ?case
    by (auto simp: bindS_def returnS_def intro: keeps_log_trans)
qed (simp add: returnS_def)

lemma replayTx_quiet:
  fixes s :: "('y, Cache, 'z) rst"
  assumes "quiet s" "marshals ma" "cacheStaged (mem s) = cacheView (mem s)"
  shows "\<exists>t. replayTx now' (daemonProjectors ma k now) batch s = (Inr (length batch), t) \<and> quiet t \<and>
    cacheView (mem t) = fold cacheStep batch (cacheView (mem s)) \<and>
    cacheStaged (mem t) = cacheView (mem t) \<and> keeps_log s t"
proof -
  obtain s2 where 2: "replayEvents (daemonProjectors ma k now) batch s = (Inr (), s2)" "quiet s2"
      "cacheStaged (mem s2) = fold cacheStep batch (cacheStaged (mem s))" "keeps_log s s2"
    using replayEvents_quiet assms(1,2) by metis
  obtain s3 where 3: "batchCursors now' (daemonProjectors ma k now) (Position (last batch)) s2 = (Inr (), s3)"
      "quiet s3" "mem s3 = mem s2" "keeps_log s2 s3"
    using batchCursors_quiet 2(2) by metis
  define ps :: "(('y, Cache, 'z) rst, Cache) projectorReg list" where "ps = daemonProjectors ma k now"
  let ?t = "s3\<lparr>mem := promoteAll ps (mem s3)\<rparr>"
  have "replayTx now' (daemonProjectors ma k now) batch s = (Inr (length batch), ?t)"
    using assms(1) 2(1,2) 3(1,2) unfolding ps_def by (simp add: replayTx_def quiet_def)
  moreover have "keeps_log s ?t" using keeps_log_trans [OF 2(4) 3(4)] by (simp add: keeps_log_def)
  moreover have "quiet ?t" using 3(2) by (simp add: quiet_def)
  ultimately show ?thesis
    using assms(3) 2(3) 3(3) unfolding ps_def
    by (auto simp: daemon.promote_view daemon.promote_staged)
qed

lemma replayBatch_quiet:
  assumes "quiet s" "marshals ma" "cacheStaged (mem s) = cacheView (mem s)" "log_wf (db s)"
    and evs: "decode cdc (events (db s)) = Inr evs"
    and batch: "batch = take lim (drop (posUpto c (events (db s))) evs)"
  shows "\<exists>t. replayBatch cdc now' (daemonProjectors ma k now) c lim s = (Inr (length batch), t) \<and> quiet t \<and>
    cacheView (mem t) = fold cacheStep batch (cacheView (mem s)) \<and>
    cacheStaged (mem t) = cacheView (mem t) \<and> keeps_log s t"
proof -
  have "sort_key r_position (filter (\<lambda>r. c < r_position r) (events (db s))) =
      drop (posUpto c (events (db s))) (events (db s))"
    using sort_key_sorted [OF log_wf_sorted [OF assms(4)], of "\<lambda>r. c < r_position r"]
      filter_above_drop [of "events (db s)" c] assms(4) by (simp add: log_wf_def)
  moreover have "decode cdc (take lim (drop (posUpto c (events (db s))) (events (db s)))) = Inr batch"
    unfolding batch by (intro decode_take decode_drop evs)
  ultimately have r: "replayRows cdc c lim s = (Inr batch, s)"
    using assms(1) by (simp add: replayRows_def quiet_def bindS_def returnS_def)
  show ?thesis
  proof (cases "batch = []")
    case True
    with r assms show ?thesis by (simp add: replayBatch_def)
  next
    case False
    with r replayTx_quiet [OF assms(1-3), of now' k now batch] show ?thesis by (simp add: replayBatch_def)
  qed
qed

text \<open>
  The loop, from the index \<open>a\<close> at which replay began. The cursor moves by counts and not by
  positions, so with gaps in the positions it may lag behind the events already applied (up to index
  \<open>h\<close>): they are applied again, which changes nothing.
\<close>

lemma replayLoop_quiet:
  assumes "quiet s" "marshals ma" "cacheStaged (mem s) = cacheView (mem s)" "log_wf (db s)"
    and "decode cdc (events (db s)) = Inr evs"
    and "cacheView (mem s) = fold cacheStep (seg a h evs) m"
    and "a \<le> posUpto c (events (db s))" "posUpto c (events (db s)) \<le> h" "h \<le> length evs"
      "h \<le> posUpto c (events (db s)) + 1000"
    and "\<forall>r \<in> set (events (db s)). r_position r \<le> latest"
  shows "\<exists>t. replayLoop cdc now' (daemonProjectors ma k now) latest c s = (Inr (), t) \<and>
    cacheView (mem t) = fold cacheStep (drop a evs) m \<and> cacheStaged (mem t) = cacheView (mem t) \<and>
    keeps_log s t"
  using assms
proof (induction "latest - c" arbitrary: c s h rule: less_induct)
  case less
  let ?rows = "events (db s)" and ?j = "posUpto c (events (db s))"
  have len: "length evs = length ?rows" using less.prems(5) by (rule decode_length)
  have fin: ?case if e: "?j = length ?rows" and r: "replayLoop cdc now' (daemonProjectors ma k now) latest c s = (Inr (), t)"
      "cacheView (mem t) = cacheView (mem s)" "cacheStaged (mem t) = cacheView (mem t)" "keeps_log s t" for t
  proof -
    have "h = length evs" using e less.prems(8,9) len by simp
    then have "seg a h evs = drop a evs" by (simp add: seg_def)
    with r less.prems(6) show ?thesis by auto
  qed
  show ?case
  proof (cases "c < latest")
    case False
    then have "?j = length ?rows" using less.prems(11) by (intro posUpto_all) auto
    then show ?thesis using False less.prems(3) by (intro fin [of s]) (simp_all add: replayLoop.simps)
  next
    case True
    let ?batch = "take 1000 (drop ?j evs)"
    obtain s1 where b: "replayBatch cdc now' (daemonProjectors ma k now) c 1000 s = (Inr (length ?batch), s1)"
      "quiet s1" "cacheView (mem s1) = fold cacheStep ?batch (cacheView (mem s))"
      "cacheStaged (mem s1) = cacheView (mem s1)" "keeps_log s s1"
      using replayBatch_quiet [where lim = 1000 and c = c and now' = now' and k = k and now = now,
          OF less.prems(1-5) refl] by blast
    show ?thesis
    proof (cases "?batch = []")
      case True
      then have e: "?j = length ?rows" using len posUpto_le [of c ?rows] by simp
      have "replayLoop cdc now' (daemonProjectors ma k now) latest c s = (Inr (), s1)"
        using True b(1) \<open>c < latest\<close> by (simp add: replayLoop.simps)
      then show ?thesis using e b(3-5) True by (intro fin [of s1]) simp_all
    next
      case False
      let ?n = "length ?batch" and ?h = "?j + length ?batch"
      have rows: "events (db s1) = ?rows" "sqlite_sequence (db s1) = sqlite_sequence (db s)"
        using b(5) by (simp_all add: keeps_log_def)
      have "sorted_wrt (<) (map r_position ?rows)" using less.prems(4) by (simp add: log_wf_def)
      then have adv: "posUpto (c + ?n) ?rows \<le> ?h" by (rule posUpto_advance)
      have mono: "?j \<le> posUpto (c + ?n) ?rows" by (rule posUpto_mono) simp
      have h: "h \<le> ?h" using less.prems(9,10) by simp
      have n: "0 < ?n" "?n \<le> 1000" using False by simp_all
      have "?batch = seg ?j ?h evs" by (simp add: seg_def min_def)
      then have view: "cacheView (mem s1) = fold cacheStep (seg a ?h evs) m"
        using b(3) less.prems(6-8) h fold_seg_overlap by metis
      have "\<exists>t. replayLoop cdc now' (daemonProjectors ma k now) latest (c + ?n) s1 = (Inr (), t) \<and>
          cacheView (mem t) = fold cacheStep (drop a evs) m \<and> cacheStaged (mem t) = cacheView (mem t) \<and>
          keeps_log s1 t"
      proof (rule less.hyps [of "c + ?n" s1 ?h])
        show "latest - (c + ?n) < latest - c" using True n by linarith
        show "log_wf (db s1)" using less.prems(4) rows by (simp add: log_wf_def)
        show "a \<le> posUpto (c + ?n) (events (db s1))" using mono less.prems(7) rows by simp
        show "?h \<le> length evs" using len posUpto_le [of c ?rows] by simp
        show "?h \<le> posUpto (c + ?n) (events (db s1)) + 1000" using mono rows n by simp
      qed (use b view less.prems adv rows in simp_all)
      moreover have "replayLoop cdc now' (daemonProjectors ma k now) latest c s =
          replayLoop cdc now' (daemonProjectors ma k now) latest (c + ?n) s1"
        using b(1) True n(1) replayLoop.simps [of cdc now' "daemonProjectors ma k now" latest c s]
        by (simp del: length_take length_drop)
      ultimately show ?thesis using keeps_log_trans [OF b(5)] by auto
    qed
  qed
qed

section \<open>Restoring snapshots\<close>

text \<open>
  A row of the snapshots table that belongs to the cache is either unreadable (and will be skipped)
  or holds the cache of some prefix of the log.
\<close>

definition snapshot_row_ok :: "snapshot_codec \<Rightarrow> event list \<Rightarrow> nat \<times> snapshot_row \<Rightarrow> bool" where
  "snapshot_row_ok k evs = (\<lambda>(pos, r). sn_owner r = Cache_Name \<longrightarrow>
     sn_encoding r = ''protobuf+zstd'' \<and>
     (case decodeSnapshot k (sn_state r) of
        Inl _ \<Rightarrow> True
      | Inr p \<Rightarrow> (\<exists>j. map_of (restoreEntities (sp_Entities p)) = fold cacheStep (take j evs) Map.empty)))"

lemma restoreLoop_ok:
  assumes "\<forall>x \<in> set rows. snapshot_row_ok k evs x \<and> sn_owner (snd x) = Cache_Name"
    "current c = []" "pending c = None"
  shows "\<exists>p c'. restoreLoop k rows c = (Inr p, c') \<and> pending c' = None \<and>
    (\<exists>j. cacheView c' = fold cacheStep (take j evs) Map.empty)"
  using assms
proof (induction rows arbitrary: c)
  case Nil
  then show ?case by (auto simp: cacheView_def intro: exI [of _ 0])
next
  case (Cons x rows)
  obtain pos r where x: "x = (pos, r)" by fastforce
  have enc: "sn_encoding r = ''protobuf+zstd''" using Cons.prems(1) x by (auto simp: snapshot_row_ok_def)
  show ?case
  proof (cases "decodeSnapshot k (sn_state r)")
    case (Inl e)
    then show ?thesis
      using Cons.IH [of "reportCorruptSnapshot c"] Cons.prems x enc
      by (simp add: reportCorruptSnapshot_def)
  next
    case (Inr p)
    with Cons.prems x enc show ?thesis
      by (auto simp: snapshot_row_ok_def cacheView_def)
  qed
qed

text \<open>A restarted process, as \<open>Open\<close> makes it: the same database, empty projectors, nothing fails.\<close>

definition restarted :: "'y registry_db_scheme \<Rightarrow> Config \<Rightarrow> ('y registry_db_scheme, Cache) store" where
  "restarted d c = \<lparr>cfg = c, db = d, mem = New, faults = [],
     latestPosition = (case max_position (events d) of None \<Rightarrow> 0 | Some p \<Rightarrow> p), started = False\<rparr>"

lemma Open_restarted: "Open c d New [] = Inr (restarted d (withDefaults c))"
  by (simp add: Open_def restarted_def Let_def split: option.splits)

lemma restoreProjectors_quiet:
  assumes "\<forall>x \<in> set (snapshots d). snapshot_row_ok k evs x"
  shows "\<exists>c'. restoreProjectors (daemonProjectors ma k now) (restarted d c) =
      (Inr 0, (restarted d c)\<lparr>mem := c'\<rparr>) \<and> pending c' = None \<and>
    (\<exists>j. cacheView c' = fold cacheStep (take j evs) Map.empty)"
proof -
  have "\<forall>x \<in> set (snapshotRows Cache_Name (snapshots d)). snapshot_row_ok k evs x \<and> sn_owner (snd x) = Cache_Name"
    using assms by (auto simp: snapshotRows_def)
  then obtain p c' where r: "restoreLoop k (snapshotRows Cache_Name (snapshots d)) New = (Inr p, c')"
      "pending c' = None" "\<exists>j. cacheView c' = fold cacheStep (take j evs) Map.empty"
    using restoreLoop_ok [of "snapshotRows Cache_Name (snapshots d)" k evs New] by (auto simp: New_def)
  have "restoreProjectors (daemonProjectors ma k now) (restarted d c) = (Inr 0, (restarted d c)\<lparr>mem := c'\<rparr>)"
    using r(1)
    by (cases p) (auto simp: restoreProjectors_def daemonProjectors_def cacheProjector_def
        registryProjector_def Cache_Restore_def NoSnapshot_Restore_def runTx_def restarted_def bindS_def
        wrapS_def returnS_def maxUint64_def)
  with r show ?thesis by blast
qed

text \<open>
  A process that opens the database of a store that reflects its log, and does not fail, completes
  \<open>Replay\<close> with the cache the previous process had.
\<close>

lemma Replay_restores:
  assumes "store_ok cdc ma s" "marshals ma" "skipped_events (db s) = []"
    and ok: "\<forall>evs. decode cdc (events (db s)) = Inr evs \<longrightarrow>
      (\<forall>x \<in> set (snapshots (db s)). snapshot_row_ok k evs x)"
  shows "\<exists>u t. Open c (db s) New [] = Inr u \<and>
    Replay cdc now' (daemonProjectors ma k now) u = (Inr (), t) \<and>
    cacheView (mem t) = cacheView (mem s) \<and> cacheStaged (mem t) = cacheView (mem t) \<and>
    events (db t) = events (db s) \<and> latestPosition t = latestPosition s"
proof -
  obtain evs where evs: "decode cdc (events (db s)) = Inr evs"
      "cacheView (mem s) = fold cacheStep evs Map.empty" and wf: "log_wf (db s)"
    and lat: "latestPosition s = (case max_position (events (db s)) of None \<Rightarrow> 0 | Some p \<Rightarrow> p)"
    using assms(1) by (auto simp: store_ok_def reflects_def split: sum.splits)
  obtain c' where r: "restoreProjectors (daemonProjectors ma k now) (restarted (db s) (withDefaults c)) =
      (Inr 0, (restarted (db s) (withDefaults c))\<lparr>mem := c'\<rparr>)" "pending c' = None"
    and "\<exists>j. cacheView c' = fold cacheStep (take j evs) Map.empty"
    using restoreProjectors_quiet ok evs(1) by blast
  then obtain j where j: "cacheView c' = fold cacheStep (take j evs) Map.empty" by blast
  let ?s = "(restarted (db s) (withDefaults c))\<lparr>mem := c'\<rparr>"
  let ?latest = "case max_position (events (db s)) of None \<Rightarrow> 0 | Some p \<Rightarrow> p"
  have zero: "posUpto 0 (events (db s)) = 0"
    using wf by (cases "events (db s)") (auto simp: posUpto_def log_wf_def)
  have latest: "\<forall>r \<in> set (events (db s)). r_position r \<le> ?latest"
  proof
    fix r assume "r \<in> set (events (db s))"
    then have "events (db s) \<noteq> []" "r_position r \<in> set (map r_position (events (db s)))" by auto
    with wf sorted_wrt_less_last [of "map r_position (events (db s))" "r_position r"]
    show "r_position r \<le> ?latest" by (simp add: max_position_last log_wf_def last_map)
  qed
  have "\<exists>t. replayLoop cdc now' (daemonProjectors ma k now) ?latest 0 ?s = (Inr (), t) \<and>
      cacheView (mem t) = fold cacheStep (drop 0 evs) (cacheView c') \<and> cacheStaged (mem t) = cacheView (mem t) \<and>
      keeps_log ?s t"
    using assms(2,3) wf evs(1) zero latest r(2)
    by (intro replayLoop_quiet [where h = 0])
       (auto simp: quiet_def restarted_def seg_def cacheStaged_def cacheView_def)
  moreover have "fold cacheStep evs (cacheView c') = cacheView (mem s)"
    using cache_replay_overlap [of "take j evs" "drop j evs" "[]" Map.empty] j evs(2) by simp
  ultimately show ?thesis
    using r(1) lat
    by (auto simp: Open_restarted Replay_def plain_def loadLatestPosition_def restarted_def keeps_log_def)
qed

end
