(* ===== verification/Snapshots.thy ===== *)
theory Snapshots
  imports Recovery
begin

text \<open>
  Snapshots, \<^verbatim>\<open>internal/eventstore/snapshot.go\<close>: taking one, pruning old ones and the cadence of the
  background snapshotter; and what they mean for recovery.
\<close>

section \<open>Operations\<close>

text \<open>
  The rows of an owner beyond the newest \<open>retain\<close> go. As a LIMIT of SQLite, a negative \<open>retain\<close> keeps
  every row.
\<close>

definition pruneSnapshots :: "string \<Rightarrow> int \<Rightarrow> (nat \<times> snapshot_row) list \<Rightarrow> (nat \<times> snapshot_row) list" where
  "pruneSnapshots owner retain rows =
     (let newest = map fst (snapshotRows owner rows);
          kept = (if retain < 0 then newest else take (nat retain) newest) in
      filter (\<lambda>(pos, r). \<not> (sn_owner r = owner \<and> pos \<notin> set kept)) rows)"

definition runSnapshot :: "(('x, 'm, 'z) st, 'm) Projector \<Rightarrow> (('x, 'm, 'z) st, nat) step" where
  "runSnapshot p s =
     bindS (runTx id id id
         (bindS (wrapS (''snapshot '' @ Name p) (Snapshot p)) (\<lambda>_.
          wrapS ''prune snapshots'' (dbExec (\<lambda>d. d\<lparr>snapshots :=
            pruneSnapshots (Name p) (SnapshotRetainPerOwner (cfg s)) (snapshots d)\<rparr>)))))
       (\<lambda>_. bindS (dbQuery (\<lambda>d. snapshotRows (Name p) (snapshots d)))
         (\<lambda>rows s'. case rows of
            [] \<Rightarrow> (Inr (latestPosition s'), s')
          | (pos, _) # _ \<Rightarrow> (Inr pos, s'))) s"

fun snapshotEach :: "(('x, 'm, 'z) st, 'm) projectorReg list \<Rightarrow> nat \<Rightarrow> (('x, 'm, 'z) st, nat) step" where
  "snapshotEach [] lastPos = returnS lastPos"
| "snapshotEach (reg # regs) lastPos =
     bindS (runSnapshot (reg_p reg)) (\<lambda>pos. snapshotEach regs (if pos > lastPos then pos else lastPos))"

definition SnapshotNow ::
  "(('x, 'm, 'z) st, 'm) projectorReg list \<Rightarrow> string \<Rightarrow> (('x, 'm, 'z) st, nat) step" where
  "SnapshotNow ps owner =
     (if owner = '''' then snapshotEach ps 0
      else case filter (\<lambda>reg. Name (reg_p reg) = owner) ps of
        [] \<Rightarrow> failS (''snapshot: unknown owner '' @ quoted owner)
      | reg # _ \<Rightarrow> snapshotEach [reg] 0)"

text \<open>The entries of the background goroutine and one tick of its timer, at time \<open>now\<close>.\<close>

record ('s, 'm) snapshotEntry =
  se_projector :: "('s, 'm) Projector"
  lastRun :: gotime
  lastPos :: nat

definition startEntries :: "gotime \<Rightarrow> ('s, 'm) projectorReg list \<Rightarrow> ('s, 'm) snapshotEntry list" where
  "startEntries now ps = map (\<lambda>reg. \<lparr>se_projector = reg_p reg, lastRun = now, lastPos = 0\<rparr>) ps"

definition snapshotDue :: "gotime \<Rightarrow> ('s, 'm) snapshotEntry \<Rightarrow> ('x, 'm, 'z) st \<Rightarrow> bool" where
  "snapshotDue now e s \<longleftrightarrow>
     (let eventsSince = uint64_of (int (latestPosition s) - int (lastPos e)); timeSince = now - lastRun e in
      eventsSince \<ge> uint64_of (SnapshotEveryEvents (cfg s)) \<or> timeSince \<ge> SnapshotEveryPeriod (cfg s))"

fun snapshotterTick ::
  "gotime \<Rightarrow> (('x, 'm, 'z) st, 'm) snapshotEntry list \<Rightarrow> ('x, 'm, 'z) st
     \<Rightarrow> (('x, 'm, 'z) st, 'm) snapshotEntry list \<times> ('x, 'm, 'z) st" where
  "snapshotterTick now [] s = ([], s)"
| "snapshotterTick now (e # es) s =
     (if snapshotDue now e s then
        (case runSnapshot (se_projector e) s of
           (Inr pos, s1) \<Rightarrow>
             (case snapshotterTick now es s1 of
                (es', s2) \<Rightarrow> (e\<lparr>lastRun := now, lastPos := pos\<rparr> # es', s2))
         | (Inl _, s1) \<Rightarrow> (case snapshotterTick now es s1 of (es', s2) \<Rightarrow> (e # es', s2)))
      else (case snapshotterTick now es s of (es', s2) \<Rightarrow> (e # es', s2)))"

section \<open>The cache as a list, and the tables that appends leave alone\<close>

definition stagedList :: "Cache \<Rightarrow> entity_map" where
  "stagedList c = (case pending c of None \<Rightarrow> current c | Some p \<Rightarrow> p)"

definition listStep where
  "listStep reg = (if Name (reg_p reg) = Cache_Name then applyEvent else (\<lambda>_ v. v))"

definition recoveryTables :: "'y registry_db_scheme \<Rightarrow> (nat \<times> snapshot_row) list \<times> (nat \<times> string) list" where
  "recoveryTables d = (snapshots d, skipped_events d)"

lemma stagedList_Apply [simp]: "stagedList (Cache_Apply e c) = applyEvent e (stagedList c)"
  by (simp add: stagedList_def Cache_Apply_def Let_def)

interpretation rows: event_projection "daemonProjectors ma k now" current stagedList listStep
  recoveryTables "\<lambda>_ _ w. w" for ma k now
proof
  fix reg :: "(('y, Cache, 'z) rst, Cache) projectorReg" and e r and s t :: "('y, Cache, 'z) rst"
  assume "reg \<in> set (daemonProjectors ma k now)" "Apply (reg_p reg) e s = (r, t)"
  then show "keeps_log s t \<and> current (mem t) = current (mem s)"
    using Registry_Apply_frame [of s ma e]
    by (auto simp: daemon_defs only_tables_def keeps_log_def Cache_Apply_def Let_def)
next
  fix reg :: "(('y, Cache, 'z) rst, Cache) projectorReg" and e and s t :: "('y, Cache, 'z) rst"
  assume "reg \<in> set (daemonProjectors ma k now)" "Apply (reg_p reg) e s = (Inr (), t)"
  then show "stagedList (mem t) = listStep reg e (stagedList (mem s)) \<and> recoveryTables (db t) = recoveryTables (db s)"
    using Registry_Apply_frame [of s ma e]
    by (auto simp: daemon_defs listStep_def Cache_Name_def only_tables_def same_log_def recoveryTables_def)
qed (simp_all add: daemon_defs recoveryTables_def stagedList_def Cache_Promote_def Cache_Discard_def split: option.splits)

lemma rows_vstep: "foldSync (daemonProjectors ma k now) listStep = applyEvent"
  by (simp add: fun_eq_iff foldSync_def daemon_defs listStep_def Cache_Name_def)

lemma rows_wstep: "foldSync (daemonProjectors ma k now) (\<lambda>_ _ w. w) = (\<lambda>_ w. w)"
  by (simp add: fun_eq_iff foldSync_def daemon_defs)

lemmas rows_Append_ok = rows.Append_ok [unfolded rows_vstep rows_wstep]
lemmas rows_AppendBatch_ok = rows.AppendBatch_ok [unfolded rows_vstep rows_wstep]

section \<open>Histories with snapshots\<close>

datatype daemon_op = Write store_op | TakeSnapshot gotime string

fun execDaemon ::
  "codec \<Rightarrow> (attributes option \<Rightarrow> error + bytes) \<Rightarrow> snapshot_codec \<Rightarrow> daemon_op \<Rightarrow> ('y, Cache, 'z) rst
     \<Rightarrow> ('y, Cache, 'z) rst" where
  "execDaemon cdc ma k (Write op) s = execOp cdc (daemonProjectors ma k 0) op s"
| "execDaemon cdc ma k (TakeSnapshot now owner) s = snd (SnapshotNow (daemonProjectors ma k now) owner s)"

fun daemon_op_wf :: "daemon_op \<Rightarrow> bool" where
  "daemon_op_wf (Write op) = op_wf op"
| "daemon_op_wf (TakeSnapshot _ _) = True"

definition durable_inv ::
  "codec \<Rightarrow> (attributes option \<Rightarrow> error + bytes) \<Rightarrow> snapshot_codec \<Rightarrow> ('y, Cache, 'z) rst \<Rightarrow> bool" where
  "durable_inv cdc ma k s \<longleftrightarrow> store_ok cdc ma s \<and> cache_wf (current (mem s)) \<and>
     stagedList (mem s) = current (mem s) \<and> skipped_events (db s) = [] \<and>
     (\<exists>evs. decode cdc (events (db s)) = Inr evs \<and> (\<forall>x \<in> set (snapshots (db s)). snapshot_row_ok k evs x))"

lemma cache_wf_fold:
  "cache_wf m \<Longrightarrow> \<forall>e \<in> set evs. event_wf e \<Longrightarrow> cache_wf (fold applyEvent evs m)"
  by (induction evs arbitrary: m) (simp_all add: cache_wf_applyEvent event_wf_def)

lemma snapshot_row_ok_extend:
  assumes "snapshot_row_ok k evs x"
  shows "snapshot_row_ok k (evs @ new) x"
proof -
  obtain pos r where x: "x = (pos, r)" by fastforce
  have ext: "\<exists>i. m = fold cacheStep (take i (evs @ new)) Map.empty"
    if "m = fold cacheStep (take j evs) Map.empty" for m j
    using that by (intro exI [of _ "min j (length evs)"]) (simp add: min_def)
  show ?thesis
  proof (cases "decodeSnapshot k (sn_state r)")
    case (Inr p)
    with assms x ext show ?thesis
      by (auto simp: snapshot_row_ok_def simp del: take_append fold_append)
  qed (use assms x in \<open>simp add: snapshot_row_ok_def\<close>)
qed

lemma scanRows_appendD:
  assumes "scanRows cdc P (xs @ ys) = Inr zs" "scanRows cdc P xs = Inr as"
  shows "\<exists>bs. zs = as @ bs"
  using assms by (induction xs arbitrary: zs as) (auto split: sum.splits)

lemma durable_inv_extend:
  assumes "durable_inv cdc ma k s" "store_ok cdc ma t" "cache_wf (current (mem t))"
    "stagedList (mem t) = current (mem t)" "recoveryTables (db t) = recoveryTables (db s)"
    "events (db t) = events (db s) @ rs"
  shows "durable_inv cdc ma k t"
proof -
  obtain evs where evs: "decode cdc (events (db s)) = Inr evs" "\<forall>x \<in> set (snapshots (db s)). snapshot_row_ok k evs x"
    using assms(1) by (auto simp: durable_inv_def)
  obtain evs' where evs': "decode cdc (events (db t)) = Inr evs'"
    using assms(2) by (auto simp: store_ok_def reflects_def split: sum.splits)
  obtain new where "evs' = evs @ new"
    using scanRows_appendD [of cdc "\<lambda>_. True" "events (db s)" rs] evs(1) evs' assms(6) by auto
  then have "\<forall>x \<in> set (snapshots (db t)). snapshot_row_ok k evs' x"
    using evs(2) assms(5) snapshot_row_ok_extend by (simp add: recoveryTables_def)
  with assms evs' show ?thesis by (auto simp: durable_inv_def recoveryTables_def)
qed

lemma write_durable_inv:
  assumes "durable_inv cdc ma k s" "codec_roundtrip cdc" "op_wf op"
  shows "durable_inv cdc ma k (execOp cdc (daemonProjectors ma k now) op s)"
proof (cases op)
  case (OpAppend en e)
  let ?ps = "daemonProjectors ma k now"
  have st: "rows.settled (mem s)" using assms(1) by (simp add: durable_inv_def rows.settled_def)
  have sok: "store_ok cdc ma s" using assms(1) by (simp add: durable_inv_def)
  obtain r t where a: "Append cdc en ?ps e s = (r, t)" by fastforce
  have ok: "store_ok cdc ma t"
    using Append_store_ok [OF sok assms(2), of en e k now] assms(3) OpAppend a by simp
  show ?thesis
  proof (cases r)
    case (Inl err)
    with a rows.Append_fail [of cdc en ma k now e s err t] st have "rows.same_as s t" by simp
    then show ?thesis using assms(1) OpAppend a ok
      by (intro durable_inv_extend [OF assms(1), where rs = "[]"])
         (auto simp: rows.same_as_def rows.settled_def durable_inv_def)
  next
    case (Inr pos)
    with a have a': "Append cdc en ?ps e s = (Inr pos, t)" by simp
    let ?e = "(fillDefaults (env_now en) (env_uuid en 0) e)\<lparr>Position := pos\<rparr>"
    show ?thesis
    proof (rule rows_Append_ok [OF a' st])
      fix pl b
      assume p: "Payload e = Some pl" "marshalPayload cdc pl = Inr b" "Kind e \<noteq> []" "Source e \<noteq> []"
        "events (db t) = events (db s) @ [eventRow (fillDefaults (env_now en) (env_uuid en 0) e) b pos]"
        "current (mem t) = applyEvent ?e (current (mem s))" "rows.settled (mem t)"
        "recoveryTables (db t) = recoveryTables (db s)"
      have "batch_valid cdc en ?e" using p(1-4) by (simp add: batch_valid_def)
      then have "event_wf ?e"
        using assms(3) OpAppend filled_fillDefaults(2) by (intro filled_event_wf [of en e]) auto
      then have "cache_wf (current (mem t))"
        using p(6) assms(1) by (simp add: durable_inv_def cache_wf_applyEvent event_wf_def)
      then show ?thesis
        using p OpAppend a ok by (intro durable_inv_extend [OF assms(1)]) (simp_all add: rows.settled_def)
    qed
  qed
next
  case (OpBatch en evs)
  let ?ps = "daemonProjectors ma k now"
  have st: "rows.settled (mem s)" using assms(1) by (simp add: durable_inv_def rows.settled_def)
  have sok: "store_ok cdc ma s" using assms(1) by (simp add: durable_inv_def)
  obtain r t where a: "AppendBatch cdc en ?ps evs s = (r, t)" by fastforce
  have ok: "store_ok cdc ma t"
    using AppendBatch_store_ok [OF sok assms(2), of en evs k now] assms(3) OpBatch a by simp
  show ?thesis
  proof (cases r)
    case (Inl err)
    with a rows.AppendBatch_fail [of cdc en ma k now evs s err t] st have "rows.same_as s t" by simp
    then show ?thesis using assms(1) OpBatch a ok
      by (intro durable_inv_extend [OF assms(1), where rs = "[]"])
         (auto simp: rows.same_as_def rows.settled_def durable_inv_def)
  next
    case (Inr poss)
    show ?thesis
    proof (cases "evs = []")
      case True
      with assms(1) OpBatch show ?thesis by (simp add: AppendBatch_def)
    next
      case False
      from a Inr have a': "AppendBatch cdc en ?ps evs s = (Inr poss, t)" by simp
      show ?thesis
      proof (rule rows_AppendBatch_ok [OF a' st False])
        fix evs'
        assume p: "list_all2 (filled en) evs evs'" "\<forall>e \<in> set evs'. batch_valid cdc en e"
          "events (db t) = events (db s) @ map (rowOf cdc) evs'"
          "current (mem t) = fold applyEvent evs' (current (mem s))" "rows.settled (mem t)"
          "recoveryTables (db t) = fold (\<lambda>_ w. w) evs' (recoveryTables (db s))"
        have "\<forall>e \<in> set evs'. event_wf e"
          using p(1,2) assms(3) OpBatch by (intro filled_batch_wf) auto
        then have "cache_wf (current (mem t))"
          using p(4) assms(1) by (simp add: durable_inv_def cache_wf_fold)
        moreover have "recoveryTables (db t) = recoveryTables (db s)" using p(6) by (induction evs') auto
        ultimately show ?thesis
          using p OpBatch a ok by (intro durable_inv_extend [OF assms(1)]) (simp_all add: rows.settled_def)
      qed
    qed
  qed
qed

text \<open>Taking a snapshot changes the snapshots table only.\<close>

definition snapshots_only :: "(nat \<times> snapshot_row \<Rightarrow> bool) \<Rightarrow> ('y, Cache, 'z) rst \<Rightarrow> ('y, Cache, 'z) rst \<Rightarrow> bool" where
  "snapshots_only P s t \<longleftrightarrow> mem t = mem s \<and> latestPosition t = latestPosition s \<and> cfg t = cfg s \<and>
     (\<exists>rows. db t = (db s)\<lparr>snapshots := rows\<rparr> \<and> set rows \<subseteq> set (snapshots (db s)) \<union> Collect P)"

lemma snapshots_only_refl [intro]: "db t = db s \<Longrightarrow> mem t = mem s \<Longrightarrow> latestPosition t = latestPosition s \<Longrightarrow>
    cfg t = cfg s \<Longrightarrow> snapshots_only P s t"
  by (auto simp: snapshots_only_def intro!: exI [of _ "snapshots (db s)"])

lemma snapshots_only_trans:
  assumes "snapshots_only P s t" "snapshots_only P t u"
  shows "snapshots_only P s u"
proof -
  obtain r1 where r1: "db t = (db s)\<lparr>snapshots := r1\<rparr>" "set r1 \<subseteq> set (snapshots (db s)) \<union> Collect P"
    using assms(1) by (auto simp: snapshots_only_def)
  obtain r2 where r2: "db u = (db t)\<lparr>snapshots := r2\<rparr>" "set r2 \<subseteq> set (snapshots (db t)) \<union> Collect P"
    using assms(2) by (auto simp: snapshots_only_def)
  have "db u = (db s)\<lparr>snapshots := r2\<rparr>" "set r2 \<subseteq> set (snapshots (db s)) \<union> Collect P"
    using r1 r2 by auto
  with assms show ?thesis by (auto simp: snapshots_only_def)
qed

lemma dbExec_snapshots_only:
  assumes "\<And>d. \<exists>rows. f d = d\<lparr>snapshots := rows\<rparr> \<and> set rows \<subseteq> set (snapshots d) \<union> Collect P"
  shows "snapshots_only P s (snd (dbExec f s))"
proof (cases "dbExec f s")
  case (Pair r t)
  show ?thesis
  proof (cases r)
    case (Inl e)
    with Pair show ?thesis by (auto dest!: dbExec_InlD)
  next
    case (Inr x)
    with Pair assms [of "db s"] show ?thesis by (auto simp: snapshots_only_def dest!: dbExec_InrD)
  qed
qed

lemma dbQuery_snapshots_only: "snapshots_only P s (snd (dbQuery f s))"
proof (cases "dbQuery f s")
  case (Pair r t)
  then show ?thesis by (cases r) (auto dest!: dbQuery_Inr_both dbQuery_InlD)
qed

lemma bindS_snapshots_only:
  assumes "snapshots_only P s (snd (m s))"
    "\<And>x t. m s = (Inr x, t) \<Longrightarrow> snapshots_only P t (snd (f x t))"
  shows "snapshots_only P s (snd (bindS m f s))"
proof (cases "m s")
  case (Pair r t)
  with assms snapshots_only_trans show ?thesis by (cases r) (auto simp: bindS_def)
qed

lemma runTx_snapshots_only:
  assumes "\<And>t. snapshots_only P s t \<Longrightarrow> snapshots_only P s (snd (body t))"
  shows "snapshots_only P s (snd (runTx id id f body s))"
proof -
  obtain r1 s1 where 1: "dbExec id s = (r1, s1)" by fastforce
  have s1: "s1 = s\<lparr>faults := tl (faults s)\<rparr>" using 1 by (cases r1) (auto dest: dbExec_InrD dbExec_InlD)
  obtain r2 s2 where 2: "body s1 = (r2, s2)" by fastforce
  have "snapshots_only P s s1" using s1 by (intro snapshots_only_refl) simp_all
  with assms [of s1] 2 have o2: "snapshots_only P s s2" by simp
  obtain r3 s3 where 3: "dbExec id s2 = (r3, s3)" by fastforce
  have s3: "s3 = s2\<lparr>faults := tl (faults s2)\<rparr>" using 3 by (cases r3) (auto dest: dbExec_InrD dbExec_InlD)
  have "snapshots_only P s (s3\<lparr>db := db s1\<rparr>)" "snapshots_only P s (s2\<lparr>db := db s1\<rparr>)" "snapshots_only P s s3"
    using o2 s1 s3 by (auto simp: snapshots_only_def intro: exI [of _ "snapshots (db s)"])
  with 1 2 3 s1 show ?thesis
    by (cases r1; cases r2; cases r3) (auto simp: runTx_def)
qed

text \<open>A row that holds the cache \<open>m\<close>.\<close>

definition holds_cache :: "snapshot_codec \<Rightarrow> entity_map \<Rightarrow> nat \<times> snapshot_row \<Rightarrow> bool" where
  "holds_cache k m = (\<lambda>(_, r). sn_owner r = Cache_Name \<and> sn_encoding r = ''protobuf+zstd'' \<and>
     (\<exists>p. decodeSnapshot k (sn_state r) = Inr p \<and> sp_Entities p = snapshotEntities m))"

lemma Cache_Snapshot_only:
  assumes "snapshot_codec_ok k"
  shows "snapshots_only (holds_cache k (current (mem s))) s (snd (Cache_Snapshot k now s))"
proof -
  let ?P = "holds_cache k (current (mem s))"
  have row: "?P (pos, \<lparr>sn_ts = ts, sn_owner = Cache_Name, sn_encoding = ''protobuf+zstd'', sn_state = encodeAll k raw\<rparr>)"
    if "marshalSnapshot k \<lparr>sp_Ts = ts', sp_Position = pos', sp_Entities = snapshotEntities (current (mem s))\<rparr> = Inr raw"
    for pos ts ts' pos' raw
    using that assms by (auto simp: holds_cache_def decodeSnapshot_def snapshot_codec_ok_def)
  show ?thesis
    unfolding Cache_Snapshot_def Let_def View_def
    by (rule bindS_snapshots_only)
       (auto simp: dbQuery_snapshots_only failS_def row
         intro!: dbExec_snapshots_only exI [of _ "AList.update _ _ _"]
         dest: subsetD [OF set_update_subset] split: sum.splits option.splits)
qed

lemma pruneSnapshots_subset: "set (pruneSnapshots owner n rows) \<subseteq> set rows"
  by (auto simp: pruneSnapshots_def Let_def)

lemma runSnapshot_only:
  assumes "\<And>t. snapshots_only P s t \<Longrightarrow> snapshots_only P t (snd (Snapshot p t))"
  shows "snapshots_only P s (snd (runSnapshot p s))"
  unfolding runSnapshot_def
proof (rule bindS_snapshots_only)
  let ?body = "bindS (wrapS (''snapshot '' @ Name p) (Snapshot p)) (\<lambda>_. wrapS ''prune snapshots''
    (dbExec (\<lambda>d. d\<lparr>snapshots := pruneSnapshots (Name p) (SnapshotRetainPerOwner (cfg s)) (snapshots d)\<rparr>)))"
  show "snapshots_only P s (snd (runTx id id id ?body s))"
  proof (rule runTx_snapshots_only)
    fix t assume t: "snapshots_only P s t"
    have "snapshots_only P t (snd (?body t))"
      using assms [OF t] pruneSnapshots_subset
      by (intro bindS_snapshots_only) (fastforce intro!: dbExec_snapshots_only)+
    with t show "snapshots_only P s (snd (?body t))" by (rule snapshots_only_trans)
  qed
next
  fix x t
  show "snapshots_only P t (snd (bindS (dbQuery (\<lambda>d. snapshotRows (Name p) (snapshots d)))
     (\<lambda>rows s'. case rows of [] \<Rightarrow> (Inr (latestPosition s'), s') | (pos, _) # _ \<Rightarrow> (Inr pos, s')) t))"
    by (rule bindS_snapshots_only [OF dbQuery_snapshots_only]) (auto split: list.splits)
qed

lemma snapshotEach_only:
  assumes "\<And>reg t. reg \<in> set regs \<Longrightarrow> snapshots_only P s t \<Longrightarrow> snapshots_only P t (snd (Snapshot (reg_p reg) t))"
    and "snapshots_only P s t"
  shows "snapshots_only P t (snd (snapshotEach regs n t))"
  using assms
proof (induction regs arbitrary: n t)
  case Nil
  then show ?case by (auto simp: returnS_def)
next
  case (Cons reg regs)
  have first: "snapshots_only P t (snd (runSnapshot (reg_p reg) t))"
  proof (rule runSnapshot_only)
    fix u assume "snapshots_only P t u"
    with Cons.prems(2) have "snapshots_only P s u" by (rule snapshots_only_trans)
    with Cons.prems(1) show "snapshots_only P u (snd (Snapshot (reg_p reg) u))" by simp
  qed
  show ?case
    unfolding snapshotEach.simps
  proof (rule bindS_snapshots_only)
    show "snapshots_only P t (snd (runSnapshot (reg_p reg) t))" by (rule first)
    fix x u assume "runSnapshot (reg_p reg) t = (Inr x, u)"
    with first Cons.prems(2) have "snapshots_only P s u" using snapshots_only_trans by fastforce
    with Cons show "snapshots_only P u (snd (snapshotEach regs (if n < x then x else n) u))" by simp
  qed
qed

lemma SnapshotNow_only:
  fixes s :: "('y, Cache, 'z) rst"
  assumes "snapshot_codec_ok k"
  shows "snapshots_only (holds_cache k (current (mem s))) s (snd (SnapshotNow (daemonProjectors ma k now) owner s))"
proof -
  let ?P = "holds_cache k (current (mem s))"
  have each: "snapshots_only ?P t (snd (Snapshot (reg_p reg) t))"
    if "reg \<in> set (daemonProjectors ma k now)" "snapshots_only ?P s t" for reg t
    using that Cache_Snapshot_only [OF assms, of t now]
    by (auto simp: daemonProjectors_def cacheProjector_def registryProjector_def NoSnapshot_Snapshot_def
        snapshots_only_def returnS_def)
  have s: "snapshots_only ?P s s" by blast
  show ?thesis
  proof (cases "filter (\<lambda>reg. Name (reg_p reg) = owner)
      (daemonProjectors ma k now :: (('y, Cache, 'z) rst, Cache) projectorReg list)")
    case Nil
    with s snapshotEach_only [OF each s] show ?thesis by (auto simp: SnapshotNow_def failS_def)
  next
    case (Cons reg regs)
    then have "reg \<in> set (daemonProjectors ma k now)" by (metis filter_is_subset list.set_intros(1) subsetD)
    then have "snapshots_only ?P s (snd (snapshotEach [reg] 0 s))"
      using each s by (intro snapshotEach_only [where s = s]) auto
    with Cons snapshotEach_only [OF each s] show ?thesis by (auto simp: SnapshotNow_def)
  qed
qed

lemma snapshot_durable_inv:
  assumes "durable_inv cdc ma k s" "snapshots_only (holds_cache k (current (mem s))) s t"
  shows "durable_inv cdc ma k t"
proof -
  obtain rows where t: "mem t = mem s" "latestPosition t = latestPosition s" "db t = (db s)\<lparr>snapshots := rows\<rparr>"
    and rows: "set rows \<subseteq> set (snapshots (db s)) \<union> {x. holds_cache k (current (mem s)) x}"
    using assms(2) by (auto simp: snapshots_only_def)
  obtain evs where evs: "decode cdc (events (db s)) = Inr evs" "\<forall>x \<in> set (snapshots (db s)). snapshot_row_ok k evs x"
    and wf: "cache_wf (current (mem s))" and ok: "store_ok cdc ma s"
    using assms(1) by (auto simp: durable_inv_def)
  have view: "map_of (current (mem s)) = fold cacheStep (take (length evs) evs) Map.empty"
    using ok evs(1) by (simp add: store_ok_def reflects_def cacheView_def)
  have "snapshot_row_ok k evs x" if "holds_cache k (current (mem s)) x" for x
    using that restore_snapshot [OF wf] view
    by (auto simp: holds_cache_def snapshot_row_ok_def simp del: take_all)
  then have "\<forall>x \<in> set rows. snapshot_row_ok k evs x" using rows evs(2) by auto
  moreover have "store_ok cdc ma t"
    using ok t evs(1) by (simp add: store_ok_def reflects_def log_wf_def regView_def)
  ultimately show ?thesis using assms(1) t evs by (simp add: durable_inv_def)
qed

lemma daemon_op_durable_inv:
  assumes "durable_inv cdc ma k s" "codec_roundtrip cdc" "snapshot_codec_ok k" "daemon_op_wf op"
  shows "durable_inv cdc ma k (execDaemon cdc ma k op s)"
  using assms write_durable_inv snapshot_durable_inv [OF assms(1) SnapshotNow_only [OF assms(3)]]
  by (cases op) auto

lemma emptyStore_durable: "durable_inv cdc ma k (emptyStore fs)"
  using emptyStore_ok [of cdc ma fs]
  by (simp add: durable_inv_def emptyStore_def New_def stagedList_def cache_wf_def)

lemma daemon_ops_durable_inv:
  assumes "durable_inv cdc ma k s" "codec_roundtrip cdc" "snapshot_codec_ok k" "\<forall>op \<in> set ops. daemon_op_wf op"
  shows "durable_inv cdc ma k (fold (execDaemon cdc ma k) ops s)"
  using assms(1,4) by (induction ops arbitrary: s) (simp_all add: daemon_op_durable_inv assms(2,3))

text \<open>
  C2. Crash recovery. Whatever the history of appends, batches and snapshots, each of which may have
  failed or been retried at any database call, a new process that opens the same database, if the
  database does not fail, completes \<open>Replay\<close>; the cache it publishes is the cache the previous process
  had published, and its log and its latest position are the same. It does not matter which snapshots
  were kept, nor that the cursor of the replay counts events rather than positions.
\<close>

theorem crash_recovery:
  fixes s :: "(registry_db, Cache) store"
  assumes "codec_roundtrip cdc" "snapshot_codec_ok k" "marshals ma" "\<forall>op \<in> set ops. daemon_op_wf op"
    and s: "s = fold (execDaemon cdc ma k) ops (emptyStore fs)"
  shows "\<exists>u t. Open c (db s) New [] = Inr u \<and>
    Replay cdc now' (daemonProjectors ma k now) u = (Inr (), t) \<and>
    cacheView (mem t) = cacheView (mem s) \<and> cacheStaged (mem t) = cacheView (mem t) \<and>
    events (db t) = events (db s) \<and> latestPosition t = latestPosition s"
proof -
  have "durable_inv cdc ma k s"
    unfolding s by (rule daemon_ops_durable_inv [OF emptyStore_durable assms(1,2,4)])
  with assms(3) show ?thesis by (intro Replay_restores) (auto simp: durable_inv_def)
qed

text \<open>A snapshot codec that round-trips every message the encoder accepts, for the witness.\<close>

definition lampState :: State where
  "lampState = \<lparr>EntityID = ''lamp'', UpdatedAt = 5, UpdatedBy = ''hue'', Attributes = None\<rparr>"

definition lampSnapshot :: StateCacheSnapshot where
  "lampSnapshot = \<lparr>sp_Ts = 8, sp_Position = 1, sp_Entities = snapshotEntities [(''lamp'', lampState)]\<rparr>"

definition lampCodec :: snapshot_codec where
  "lampCodec =
     \<lparr>marshalSnapshot = (\<lambda>p. if p = lampSnapshot then Inr ''l'' else Inl ''no''),
      unmarshalSnapshot = (\<lambda>b. if b = ''l'' then Inr lampSnapshot else Inl ''no''),
      zstdNewWriter = None, encodeAll = (\<lambda>b. b), zstdNewReader = None, decodeAll = Inr\<rparr>"

lemma lampCodec_ok: "snapshot_codec_ok lampCodec"
  by (simp add: snapshot_codec_ok_def lampCodec_def)

theorem crash_recovery_witness:
  "\<exists>u t. Open (cfg (emptyStore [])) (db (fold (execDaemon demoCodec demoMarshal lampCodec)
        [Write (OpAppend demoEnv demoEvent), TakeSnapshot 8 Cache_Name, Write (OpAppend demoEnv demoEvent)]
        (emptyStore [None, Some ''database is locked'']))) New [] = Inr u \<and>
     Replay demoCodec 9 (daemonProjectors demoMarshal lampCodec 0) u = (Inr (), t)"
  using crash_recovery [OF demoCodec_roundtrip lampCodec_ok, of demoMarshal
      "[Write (OpAppend demoEnv demoEvent), TakeSnapshot 8 Cache_Name, Write (OpAppend demoEnv demoEvent)]" _
      "[None, Some ''database is locked'']" "cfg (emptyStore [])" 9 0, OF _ _ refl]
  by (auto simp: marshals_def demoMarshal_def demo_wf)

section \<open>Cadence\<close>

text \<open>
  The cadence of the background snapshotter. While an entry's last position is not ahead of the
  log, a snapshot is due exactly when at least the configured number of events was appended since,
  or the configured period has passed. But a snapshot of an empty log is stored under position 1,
  ahead of the log: the subtraction of unsigned 64-bit numbers wraps around, and the entry is due
  again at once, at every tick.
\<close>

theorem snapshot_cadence:
  assumes "0 \<le> SnapshotEveryEvents (cfg s)" "SnapshotEveryEvents (cfg s) < 2 ^ 63" "latestPosition s < 2 ^ 64" "lastPos e < 2 ^ 64"
  shows "(lastPos e \<le> latestPosition s \<longrightarrow>
      snapshotDue now e s = (lastPos e + nat (SnapshotEveryEvents (cfg s)) \<le> latestPosition s \<or>
        SnapshotEveryPeriod (cfg s) \<le> now - lastRun e)) \<and>
    (latestPosition s = 0 \<and> lastPos e = 1 \<longrightarrow> snapshotDue now e s)"
proof -
  have n: "uint64_of (SnapshotEveryEvents (cfg s)) = nat (SnapshotEveryEvents (cfg s))"
    using assms(1,2) by (simp add: uint64_of_def)
  have "uint64_of (int (latestPosition s) - int (lastPos e)) = latestPosition s - lastPos e" if "lastPos e \<le> latestPosition s"
    using that assms(3) by (simp add: uint64_of_def flip: of_nat_diff)
  moreover have "uint64_of (- 1) = 2 ^ 64 - 1" by (simp add: uint64_of_def)
  ultimately show ?thesis using n assms(1,2) by (auto simp: snapshotDue_def Let_def)
qed

text \<open>The tick after an hour without events: the entry comes back with position 1.\<close>

definition idleEntry :: "((registry_db, Cache) store, Cache) snapshotEntry" where
  "idleEntry = \<lparr>se_projector = cacheProjector demoSnapshotCodec 0, lastRun = - 3600000000000, lastPos = 0\<rparr>"

lemma idle_tick:
  "\<exists>e t. snapshotterTick 0 [idleEntry] (emptyStore []) = ([e], t) \<and> lastPos e = 1 \<and> latestPosition t = 0 \<and>
     SnapshotEveryEvents (cfg t) = 10000"
  by (simp add: idleEntry_def snapshotDue_def emptyStore_def withDefaults_def runSnapshot_def cacheProjector_def
      runTx_def bindS_def wrapS_def Cache_Snapshot_def snapshotEntities_def View_def New_def max_position_def
      demoSnapshotCodec_def UnixNano_def int64_of_def pruneSnapshots_def snapshotRows_def Let_def uint64_of_def)

theorem snapshot_cadence_witness:
  "\<exists>e t. snapshotterTick 0 [idleEntry] (emptyStore []) = ([e], t) \<and> snapshotDue 0 e t"
proof -
  obtain e t where "snapshotterTick 0 [idleEntry] (emptyStore []) = ([e], t)" "lastPos e = 1" "latestPosition t = 0"
      "SnapshotEveryEvents (cfg t) = 10000"
    using idle_tick by blast
  with snapshot_cadence [of t e 0] show ?thesis by auto
qed

end
