(* ===== verification/Registry_Properties.thy ===== *)
theory Registry_Properties
  imports Recovery
begin

text \<open>
  What holds of the registry's tables, of the read API on them, and of the registry and the cache
  together, after any history of the store; and what a replay does to the tables.
\<close>

section \<open>Invariants of the tables\<close>

definition driver_statuses :: "string set" where
  "driver_statuses = {''starting'', ''running'', ''stopped'', ''failed''}"

text \<open>Foreign keys hold, statuses are known, a device has a driver, an error belongs to a failure or what followed it.\<close>

definition registry_inv :: "registry_view \<Rightarrow> bool" where
  "registry_inv v \<longleftrightarrow>
     (\<forall>i r. rv_drivers v i = Some r \<longrightarrow> di_status r \<in> driver_statuses \<and>
        (di_status r = ''running'' \<longrightarrow> di_last_error r = None \<and> di_started_at r \<noteq> None)) \<and>
     (\<forall>i r. rv_devices v i = Some r \<longrightarrow> i \<noteq> [] \<and> dv_driver_instance_id r \<in> dom (rv_drivers v)) \<and>
     (\<forall>i r. rv_entities v i = Some r \<longrightarrow> en_driver_instance_id r \<in> dom (rv_drivers v) \<and>
        (\<forall>d. en_device_id r = Some d \<longrightarrow> d \<in> dom (rv_devices v)))"

lemma registry_inv_empty: "registry_inv empty_registry"
  by (simp add: registry_inv_def empty_registry_def)

lemma dom_driverStep: "dom (driverStep p ts t) \<supseteq> dom t"
  by (auto simp: driverStep_def Let_def dom_def split: option.splits)

lemma registry_inv_driver:
  assumes "registry_inv v"
  shows "registry_inv (v\<lparr>rv_drivers := driverStep p ts (rv_drivers v)\<rparr>)"
proof -
  have "di_status r \<in> driver_statuses \<and> (di_status r = ''running'' \<longrightarrow> di_last_error r = None \<and> di_started_at r \<noteq> None)"
    if "driverStep p ts (rv_drivers v) i = Some r" for i r
    using that assms
    by (fastforce simp: registry_inv_def driverStep_def Let_def driver_statuses_def split: if_splits option.splits)
  moreover have "x \<in> dom (driverStep p ts (rv_drivers v))" if "x \<in> dom (rv_drivers v)" for x
    using that dom_driverStep by blast
  ultimately show ?thesis using assms by (simp add: registry_inv_def)
qed

lemma registry_inv_registered:
  assumes "registry_inv v"
  shows "registry_inv (registeredStep caps e p v)"
  using assms
  by (auto simp: registry_inv_def registeredStep_def Let_def driver_statuses_def split: option.splits if_splits)

lemma registry_inv_unregistered:
  assumes "registry_inv v"
  shows "registry_inv (v\<lparr>rv_entities := (rv_entities v)(i :=
    map_option (\<lambda>r. r\<lparr>en_disabled := True, en_updated_at := ts\<rparr>) (rv_entities v i))\<rparr>)"
  using assms by (fastforce simp: registry_inv_def split: if_splits)

lemma registry_inv_step: "registry_inv v \<Longrightarrow> registry_inv (registryStep ma e v)"
  by (auto simp: registryStep_def registry_inv_driver registry_inv_registered registry_inv_unregistered
      split: option.splits payload.splits sum.splits)

lemma registry_inv_fold: "registry_inv v \<Longrightarrow> registry_inv (fold (registryStep ma) evs v)"
  by (induction evs arbitrary: v) (simp_all add: registry_inv_step)

lemma reached_folds:
  assumes "codec_roundtrip cdc" "\<forall>op \<in> set ops. op_wf op"
  obtains evs where
    "regView (db (runOps cdc (daemonProjectors ma k now) ops (emptyStore fs))) =
      fold (registryStep ma) evs empty_registry"
    "cacheView (mem (runOps cdc (daemonProjectors ma k now) ops (emptyStore fs))) = fold cacheStep evs Map.empty"
  using runOps_store_ok [OF emptyStore_ok assms, of ma k now fs]
  by (auto simp: store_ok_def reflects_def split: sum.splits)

text \<open>
  C21. After any history of appends, batches, failures and retries the registry is referentially
  sound: every entity and every device belongs to a known driver instance, an entity's device exists,
  a driver's status is one of the four, and a running driver has a start time and no error.
\<close>

theorem registry_sound:
  assumes "codec_roundtrip cdc" and "\<forall>op \<in> set ops. op_wf op"
  shows "registry_inv (regView (db (runOps cdc (daemonProjectors ma k now) ops (emptyStore fs))))"
  using assms
proof (rule reached_folds [of cdc ops ma k now fs])
qed (simp add: registry_inv_fold registry_inv_empty)

theorem registry_sound_witness:
  "registry_inv (regView (db (runOps demoCodec (daemonProjectors demoMarshal demoSnapshotCodec 0)
     [OpAppend demoEnv demoEvent] (emptyStore []))))"
  by (rule registry_sound) (simp_all add: demoCodec_roundtrip demo_wf)

section \<open>The registry and the cache\<close>

definition coherent :: "registry_view \<Rightarrow> (string \<rightharpoonup> State) \<Rightarrow> bool" where
  "coherent v m \<longleftrightarrow> (\<forall>i r. rv_entities v i = Some r \<longrightarrow> \<not> en_disabled r \<longrightarrow> i \<in> dom m)"

lemma coherent_step: "coherent v m \<Longrightarrow> coherent (registryStep ma e v) (cacheStep e m)"
  by (auto simp: coherent_def registryStep_def registeredStep_def cacheStep_def rowUpdate_def Let_def
      split: option.splits payload.splits sum.splits if_splits)

lemma coherent_fold:
  "coherent v m \<Longrightarrow> coherent (fold (registryStep ma) evs v) (fold cacheStep evs m)"
  by (induction evs arbitrary: v m) (simp_all add: coherent_step)

lemma coherent_empty: "coherent empty_registry Map.empty"
  by (simp add: coherent_def empty_registry_def)

text \<open>
  The two projections agree after any history: every entity that the registry lists as enabled
  has a row in the published state cache.
\<close>

theorem enabled_entities_cached:
  assumes "codec_roundtrip cdc" and "\<forall>op \<in> set ops. op_wf op"
    and "t = runOps cdc (daemonProjectors ma k now) ops (emptyStore fs)"
    and "map_of (entities (db t)) i = Some r" and "\<not> en_disabled r"
  shows "Get (mem t) i \<noteq> None"
proof -
  have "coherent (regView (db t)) (cacheView (mem t))"
    unfolding assms(3)
  proof (rule reached_folds [OF assms(1,2), of ma k now fs])
  qed (simp add: coherent_fold coherent_empty)
  with assms(4,5) show ?thesis by (auto simp: coherent_def regView_def Get_cacheView)
qed

text \<open>A hub that announces a failed driver and then a lamp of that driver.\<close>

definition hubRegistered :: entity_registered where
  "hubRegistered = \<lparr>er_DriverInstanceId = ''hue'', er_DeviceId = [], er_EntityType = ''light'',
     er_FriendlyName = ''Lamp'', er_Capabilities = None\<rparr>"

definition hubFailed :: driver_event where
  "hubFailed = \<lparr>de_DriverInstanceId = ''hue'', de_Kind = ''failed'', de_Detail = ''exit 1''\<rparr>"

definition hubCodec :: codec where
  "hubCodec =
     \<lparr>marshalPayload = (\<lambda>p. if p = EntityRegistered hubRegistered then Inr ''r''
        else if p = DriverEvent hubFailed then Inr ''f'' else Inl ''unsupported''),
      unmarshalPayload = (\<lambda>b. if b = ''r'' then Inr (EntityRegistered hubRegistered)
        else if b = ''f'' then Inr (DriverEvent hubFailed) else Inl ''bad'')\<rparr>"

definition hubFailedEvent :: event where
  "hubFailedEvent = demoEvent\<lparr>Kind := ''driver_event'', Entity := [], Payload := Some (DriverEvent hubFailed)\<rparr>"

definition hubRegisteredEvent :: event where
  "hubRegisteredEvent = demoEvent\<lparr>Kind := ''entity_registered'', Payload := Some (EntityRegistered hubRegistered)\<rparr>"

lemma hubCodec_roundtrip: "codec_roundtrip hubCodec"
  by (simp add: codec_roundtrip_def hubCodec_def)

lemma hub_wf: "input_wf hubFailedEvent" "input_wf hubRegisteredEvent"
  by (simp_all add: input_wf_def hubFailedEvent_def hubRegisteredEvent_def demoEvent_def in_int64_def uuid_Nil_def)

lemmas hub_simps = hubCodec_def hubFailedEvent_def hubRegisteredEvent_def hubRegistered_def hubFailed_def
  demoMarshal_def demoEnv_def demoEvent_def

abbreviation "hubAppend \<equiv> Append hubCodec demoEnv (daemonProjectors demoMarshal demoSnapshotCodec 0)"

definition hubStore1 :: "(registry_db, Cache) store" where
  "hubStore1 = snd (hubAppend hubFailedEvent (emptyStore []))"

definition hubStore :: "(registry_db, Cache) store" where
  "hubStore = snd (hubAppend hubRegisteredEvent hubStore1)"

lemmas hub_append_simps = hub_simps demo_append_simps applyDriverEvent_def applyEntityRegistered_def
  dbTry_def driverEventTable_def ensureDriverInstance_def upsertEntity_def UnixNano_def int64_of_def
  fillDefaults_def time_IsZero_def time_zero_def eventRow_def uuid_Nil_def promoteAll_def Cache_Promote_def Cache_Apply_def
  applyEvent_def New_def

lemma hubStore1_eval:
  "hubStore1 = \<lparr>cfg = cfg (emptyStore []),
     db = \<lparr>events = [\<lparr>r_position = 1, r_ts = 5, r_kind = ''driver_event'', r_entity = None,
              r_source = ''hue'', r_correlation_id = Some (replicate 16 (CHR ''x'')),
              r_cause_position = None, r_payload = ''f''\<rparr>],
           sqlite_sequence = 1, snapshots = [],
           projection_cursors = [(''state_cache'', \<lparr>cur_position = 1, cur_updated_at = 7\<rparr>),
              (''registry'', \<lparr>cur_position = 1, cur_updated_at = 7\<rparr>)],
           skipped_events = [], event_subscriptions = [],
           driver_instances = [], devices = [], entities = []\<rparr>,
     mem = \<lparr>current = [], pending = None, corruptionReports = 0\<rparr>,
     faults = [], latestPosition = 1, started = False\<rparr>"
  unfolding hubStore1_def by (simp add: hub_append_simps)

definition hubDb :: registry_db where
  "hubDb = \<lparr>events = [\<lparr>r_position = 1, r_ts = 5, r_kind = ''driver_event'', r_entity = None,
              r_source = ''hue'', r_correlation_id = Some (replicate 16 (CHR ''x'')),
              r_cause_position = None, r_payload = ''f''\<rparr>,
            \<lparr>r_position = 2, r_ts = 5, r_kind = ''entity_registered'', r_entity = Some ''lamp'',
              r_source = ''hue'', r_correlation_id = Some (replicate 16 (CHR ''x'')),
              r_cause_position = None, r_payload = ''r''\<rparr>],
     sqlite_sequence = 2, snapshots = [],
     projection_cursors = [(''state_cache'', \<lparr>cur_position = 2, cur_updated_at = 7\<rparr>),
        (''registry'', \<lparr>cur_position = 2, cur_updated_at = 7\<rparr>)],
     skipped_events = [], event_subscriptions = [],
     driver_instances = [(''hue'', \<lparr>di_driver_name = [], di_display_name = [],
        di_transport = ''local_subprocess'', di_endpoint = [], di_config_hash = [],
        di_status = ''starting'', di_last_error = None, di_started_at = None,
        di_last_heartbeat = None, di_created_at = 5\<rparr>)],
     devices = [],
     entities = [(''lamp'', \<lparr>en_device_id = None, en_driver_instance_id = ''hue'',
        en_entity_type = ''light'', en_friendly_name = ''Lamp'', en_capabilities = ''caps'',
        en_disabled = False, en_created_at = 5, en_updated_at = 5\<rparr>)]\<rparr>"

lemma hubStore_db: "db hubStore = hubDb"
  unfolding hubStore_def hubStore1_eval hubDb_def by (simp add: hub_append_simps)

lemma hubStore_run:
  "hubStore = runOps hubCodec (daemonProjectors demoMarshal demoSnapshotCodec 0)
     [OpAppend demoEnv hubFailedEvent, OpAppend demoEnv hubRegisteredEvent] (emptyStore [])"
  by (simp add: runOps_def hubStore_def hubStore1_def)

theorem enabled_entities_cached_witness: "Get (mem hubStore) ''lamp'' \<noteq> None"
  using enabled_entities_cached [OF hubCodec_roundtrip _ hubStore_run, of "''lamp''"]
  by (simp add: hub_wf demo_wf hubStore_db hubDb_def)

section \<open>Replaying over the tables\<close>

lemmas hub_replay_simps = Replay_def plain_def restoreProjectors_def restarted_def NoSnapshot_Restore_def
  Cache_Restore_def snapshotRows_def loadLatestPosition_def max_position_def replayLoop.simps
  replayBatch_def replayRows_def replayTx_def isSkipped_def batchCursors_def maxUint64_def
  scanEvent_def uint64_of_def time_Unix_def

lemma hub_replay:
  "\<exists>t. Replay hubCodec 9 (daemonProjectors demoMarshal demoSnapshotCodec 0)
     (restarted hubDb (withDefaults c) :: (registry_db, Cache) store) = (Inr (), t) \<and>
   map_option di_status (map_of (driver_instances (db t)) ''hue'') = Some ''failed''"
  unfolding hubDb_def by (simp add: hub_append_simps hub_replay_simps)

text \<open>
  \<open>Replay\<close> does not keep the registry: the tables persist and no snapshot of the registry
  exists, so every restart applies the whole log again over them, and \<open>Apply\<close> is not idempotent.
  Here a driver fails before it is known, and an entity of it is registered; the tables say
  ``starting'', and after a restart and a replay that succeeds they say ``failed''.
\<close>

theorem Replay_changes_registry:
  "\<exists>(s :: (registry_db, Cache) store) u t. store_ok hubCodec demoMarshal s \<and> skipped_events (db s) = [] \<and>
    Open (cfg s) (db s) New [] = Inr u \<and>
    Replay hubCodec 9 (daemonProjectors demoMarshal demoSnapshotCodec 0) u = (Inr (), t) \<and>
    map_option di_status (map_of (driver_instances (db s)) ''hue'') = Some ''starting'' \<and>
    map_option di_status (map_of (driver_instances (db t)) ''hue'') = Some ''failed''"
proof -
  have "store_ok hubCodec demoMarshal hubStore"
    unfolding hubStore_run by (rule runOps_store_ok [OF emptyStore_ok hubCodec_roundtrip]) (simp add: hub_wf demo_wf)
  moreover have "skipped_events hubDb = []" "map_option di_status (map_of (driver_instances hubDb) ''hue'') = Some ''starting''"
    by (simp_all add: hubDb_def)
  ultimately show ?thesis using hub_replay hubStore_db Open_restarted by metis
qed

section \<open>Reading\<close>

text \<open>
  \<open>ListEntities\<close> returns, in ascending order of their ids and without repetition, exactly the
  entities of the table that pass every set field of the filter and (unless asked for) are not
  disabled, each with the area it is assigned to in memory.
\<close>

theorem ListEntities_spec:
  assumes "distinct (map fst (entities (db s)))" "ListEntities ar f s = (Inr es, t)"
  shows "sorted_wrt (<) (map ID es) \<and>
    set es = {(scanEntity (i, r))\<lparr>AreaID := AreaForEntity ar i\<rparr> |i r.
      map_of (entities (db s)) i = Some r \<and>
      (f_DriverInstanceID f = [] \<or> en_driver_instance_id r = f_DriverInstanceID f) \<and>
      (f_DeviceID f = [] \<or> en_device_id r = Some (f_DeviceID f)) \<and>
      (f_EntityType f = [] \<or> en_entity_type r = f_EntityType f) \<and>
      (f_IncludeDisabled f \<or> \<not> en_disabled r)} \<and> db t = db s"
proof -
  let ?rows = "sort_key fst (filter (\<lambda>(_, r). entityWhere f r) (entities (db s)))"
  have es: "es = map (\<lambda>(i, r). (scanEntity (i, r))\<lparr>AreaID := AreaForEntity ar i\<rparr>) ?rows" "db t = db s"
    using assms(2)
    by (auto simp: ListEntities_def bindS_def returnS_def split: prod.splits sum.splits
        dest!: dbQuery_Inr_both dbExec_InrD)
  have ids: "map ID es = map fst ?rows" unfolding es(1) by (auto simp: scanEntity_def)
  have "distinct (map fst (filter (\<lambda>(_, r). entityWhere f r) (entities (db s))))"
    using assms(1) by (rule distinct_map_filter)
  then have "distinct (map fst ?rows)"
    by (metis distinct_map distinct_sort set_sort)
  then have "sorted_wrt (<) (map ID es)"
    unfolding ids strict_sorted_iff by (simp add: sorted_sort_key)
  moreover have "set es = {(scanEntity (i, r))\<lparr>AreaID := AreaForEntity ar i\<rparr> |i r.
      map_of (entities (db s)) i = Some r \<and> entityWhere f r}"
    unfolding es(1) using assms(1) by (force simp: map_of_eq_Some_iff)
  moreover have "entityWhere f r \<longleftrightarrow>
      (f_DriverInstanceID f = [] \<or> en_driver_instance_id r = f_DriverInstanceID f) \<and>
      (f_DeviceID f = [] \<or> en_device_id r = Some (f_DeviceID f)) \<and>
      (f_EntityType f = [] \<or> en_entity_type r = f_EntityType f) \<and>
      (f_IncludeDisabled f \<or> \<not> en_disabled r)" for r
    by (auto simp: entityWhere_def)
  ultimately show ?thesis using es(2) by simp
qed

definition hubAreas :: area_state where
  "hubAreas = \<lparr>areas = [], entityAreas = [(''lamp'', ''attic'')]\<rparr>"

definition hubFilter :: EntityFilter where
  "hubFilter = \<lparr>f_DriverInstanceID = ''hue'', f_DeviceID = [], f_EntityType = [], f_IncludeDisabled = False\<rparr>"

lemma hub_list:
  "\<exists>es. ListEntities hubAreas hubFilter (restarted hubDb (cfg hubStore)) = (Inr es, restarted hubDb (cfg hubStore))"
  by (simp add: ListEntities_def restarted_def hubDb_def entityWhere_def bindS_def returnS_def hubFilter_def)

theorem ListEntities_spec_witness:
  "\<exists>es t. ListEntities hubAreas hubFilter (restarted hubDb (cfg hubStore)) = (Inr es, t) \<and> ID ` set es = {''lamp''}"
proof -
  obtain es where es: "ListEntities hubAreas hubFilter (restarted hubDb (cfg hubStore)) =
      (Inr es, restarted hubDb (cfg hubStore))"
    using hub_list by (elim exE)
  have "ID ` set es = {''lamp''}"
    using ListEntities_spec [OF _ es]
    by (force simp: restarted_def hubDb_def hubFilter_def scanEntity_def split: if_splits)
  with es show ?thesis by (intro exI conjI)
qed

end
