(* ===== verification/Subscriptions.thy ===== *)
theory Subscriptions
  imports Event_Store
begin

text \<open>
  Live delivery, \<^verbatim>\<open>internal/eventstore/subscribe.go\<close> and \<^verbatim>\<open>tailer.go\<close>: durable cursors, the catch-up of a
  new subscription, the tailer and its dispatch. Appenders, the tailer, one catch-up goroutine per
  subscription, consumers and closers run concurrently: a step of the system is one locked section,
  one query or one channel operation of one of them, and a run is any interleaving of such steps.
\<close>

section \<open>Subscriptions\<close>

record SubscribeOptions =
  so_FromPosition :: nat
  so_Filter :: Filter
  so_Durable :: bool
  so_Name :: string
  so_ChannelBuffer :: int

text \<open>
  Where the goroutine that runs \<open>catchupAndRegister\<close> stands: at the head of its loop, holding the
  target it read, sending a batch, returned.
\<close>

datatype catchup = AtHead | HasTarget nat | Sending "event list" | Returned

text \<open>
  \<open>ch\<close> is the content of the channel and \<open>chCap\<close> its capacity. \<open>sentLog\<close> records every event ever put
  into the channel and \<open>startPos\<close> where the subscription began; the code has neither.
\<close>

record subscriber =
  s_name :: string
  s_filter :: Filter
  ch :: "event list"
  chCap :: nat
  delivered :: nat
  dropped :: nat
  lastSent :: nat
  s_durable :: bool
  isClosed :: bool
  phase :: catchup
  sentLog :: "event list"
  startPos :: nat

definition trySend :: "subscriber \<Rightarrow> event \<Rightarrow> subscriber \<times> bool \<times> bool" where
  "trySend sub e =
     (if isClosed sub then (sub, False, False)
      else if length (ch sub) < chCap sub
        then (sub\<lparr>ch := ch sub @ [e], sentLog := sentLog sub @ [e]\<rparr>, True, False)
        else (sub, False, True))"

text \<open>
  A blocking send waits while the channel is full (None: it cannot move yet); it gives up when the
  subscription is closed.
\<close>

definition blockingSend :: "subscriber \<Rightarrow> event \<Rightarrow> (subscriber \<times> bool) option" where
  "blockingSend sub e =
     (if isClosed sub then Some (sub, False)
      else if length (ch sub) < chCap sub
        then Some (sub\<lparr>ch := ch sub @ [e], sentLog := sentLog sub @ [e]\<rparr>, True)
        else None)"

record SubscriptionStats =
  st_Delivered :: nat
  st_Dropped :: nat
  st_LagEvents :: nat
  st_Buffered :: nat

definition Stats :: "subscriber \<Rightarrow> SubscriptionStats" where
  "Stats sub = \<lparr>st_Delivered = delivered sub, st_Dropped = dropped sub, st_LagEvents = 0,
     st_Buffered = length (ch sub)\<rparr>"

section \<open>Durable cursors\<close>

definition loadDurableCursor :: "gotime \<Rightarrow> string \<Rightarrow> nat \<Rightarrow> (('x, 'm, 'z) st, nat) step" where
  "loadDurableCursor now name fallback =
     bindS (wrapS ''load durable cursor'' (dbQuery (\<lambda>d. map_of (event_subscriptions d) name))) (\<lambda>r. case r of
       None \<Rightarrow>
         bindS (wrapS ''insert durable subscription'' (dbExec (\<lambda>d. d\<lparr>event_subscriptions :=
           AList.update name \<lparr>sub_cursor = int64_of (int fallback), sub_created_at = UnixNano now,
             sub_last_active = UnixNano now\<rparr> (event_subscriptions d)\<rparr>)))
         (\<lambda>_. returnS fallback)
     | Some row \<Rightarrow> returnS (uint64_of (sub_cursor row)))"

definition persistCursor :: "gotime \<Rightarrow> string \<Rightarrow> nat \<Rightarrow> (('x, 'm, 'z) st, unit) step" where
  "persistCursor now name position =
     bindS (wrapS (''persist cursor '' @ name) (dbStmt (\<lambda>d.
       (d\<lparr>event_subscriptions := AList.map_entry name
            (\<lambda>row. row\<lparr>sub_cursor := int64_of (int position), sub_last_active := UnixNano now\<rparr>)
            (event_subscriptions d)\<rparr>,
        map_of (event_subscriptions d) name \<noteq> None))))
     (\<lambda>found. if found then returnS ()
        else failS (''persist cursor '' @ name @ '': subscription not found''))"

definition Ack :: "gotime \<Rightarrow> subscriber \<Rightarrow> nat \<Rightarrow> (('x, 'm, 'z) st, unit) step" where
  "Ack now sub position =
     (if \<not> s_durable sub then returnS () else persistCursor now (s_name sub) position)"

definition newSubscriber :: "string \<Rightarrow> Filter \<Rightarrow> nat \<Rightarrow> bool \<Rightarrow> nat \<Rightarrow> subscriber" where
  "newSubscriber name f buf dur fromPos =
     \<lparr>s_name = name, s_filter = f, ch = [], chCap = buf, delivered = 0, dropped = 0,
      lastSent = fromPos, s_durable = dur, isClosed = False, phase = AtHead, sentLog = [],
      startPos = fromPos\<rparr>"

definition Subscribe :: "gotime \<Rightarrow> SubscribeOptions \<Rightarrow> (('x, 'm, 'z) st, subscriber) step" where
  "Subscribe now opts s =
     (if \<not> started s then (Inl ''Subscribe: store not started'', s)
      else if so_Durable opts \<and> so_Name opts = '''' then (Inl ''Subscribe: Durable requires Name'', s)
      else
        (let buf = (if so_ChannelBuffer opts \<le> 0 then MaxSubscriberBuffer (cfg s) else so_ChannelBuffer opts);
             name = (if so_Name opts = '''' then ''anon'' else so_Name opts) in
         bindS (if so_Durable opts then loadDurableCursor now name (so_FromPosition opts)
                else returnS (so_FromPosition opts))
           (\<lambda>fromPos. returnS (newSubscriber name (so_Filter opts) (nat buf) (so_Durable opts) fromPos)) s))"

section \<open>The running system\<close>

text \<open>
  The tailer waits, or dispatches a batch: the event in hand with the subscribers it still has to
  offer it to, and the rest of the batch.
\<close>

datatype tailer = Waiting | Batch "event list" | Dispatching event "nat list" "event list"

text \<open>
  \<open>committed\<close> is the committed log, decoded; \<open>latest\<close> is \<open>latestPosition\<close>; \<open>subs\<close> is the list of registered
  subscribers, as keys of \<open>heap\<close>, which holds every subscriber ever made.
\<close>

record hub =
  committed :: "event list"
  latest :: nat
  subs :: "nat list"
  heap :: "(nat \<times> subscriber) list"
  cursor :: nat
  tail :: tailer

definition putSub :: "nat \<Rightarrow> subscriber \<Rightarrow> hub \<Rightarrow> hub" where
  "putSub h sub s = s\<lparr>heap := AList.update h sub (heap s)\<rparr>"

definition unregisterSubscriber :: "nat \<Rightarrow> hub \<Rightarrow> hub" where
  "unregisterSubscriber h s = s\<lparr>subs := filter (\<lambda>i. i \<noteq> h) (subs s)\<rparr>"

definition Close :: "nat \<Rightarrow> subscriber \<Rightarrow> hub \<Rightarrow> hub" where
  "Close h sub s =
     (if isClosed sub then s else putSub h (sub\<lparr>isClosed := True\<rparr>) (unregisterSubscriber h s))"

text \<open>What \<open>Query\<close> returns on the committed log (see \<open>Query_decoded\<close>).\<close>

definition queryLog :: "nat \<Rightarrow> nat \<Rightarrow> (event \<Rightarrow> bool) \<Rightarrow> nat \<Rightarrow> event list \<Rightarrow> event list" where
  "queryLog lo hi keep lim l =
     filter keep (take lim (filter (\<lambda>e. Position e > lo \<and> (hi = 0 \<or> Position e \<le> hi)) l))"

text \<open>The body of \<open>dispatch\<close>'s loop, for one subscriber, and the whole of \<open>dispatch\<close>.\<close>

definition dispatchTo :: "event \<Rightarrow> nat \<Rightarrow> hub \<Rightarrow> hub" where
  "dispatchTo e h s =
     (case map_of (heap s) h of
        None \<Rightarrow> s
      | Some sub \<Rightarrow>
         if \<not> Matches (s_filter sub) e then s
         else if lastSent sub \<ge> Position e then s
         else (case trySend sub e of
             (sub', True, _) \<Rightarrow>
               putSub h (sub'\<lparr>delivered := delivered sub' + 1, lastSent := Position e\<rparr>) s
           | (sub', False, True) \<Rightarrow>
               unregisterSubscriber h (putSub h (sub'\<lparr>dropped := dropped sub' + 1\<rparr>) s)
           | (sub', False, False) \<Rightarrow> s))"

definition dispatch :: "event \<Rightarrow> hub \<Rightarrow> hub" where
  "dispatch e s = fold (dispatchTo e) (subs s) s"

text \<open>One move of the goroutine of subscriber \<open>h\<close> in \<open>catchupAndRegister\<close>.\<close>

definition catchupMove :: "nat \<Rightarrow> subscriber \<Rightarrow> hub \<Rightarrow> hub option" where
  "catchupMove h sub s =
     (case phase sub of
        AtHead \<Rightarrow> Some (putSub h (sub\<lparr>phase := HasTarget (latest s)\<rparr>) s)
      | HasTarget target \<Rightarrow>
          if lastSent sub \<ge> target then
            (if latest s > lastSent sub then Some (putSub h (sub\<lparr>phase := AtHead\<rparr>) s)
             else Some (putSub h (sub\<lparr>phase := Returned\<rparr>) (s\<lparr>subs := subs s @ [h]\<rparr>)))
          else
            (let evts = queryLog (lastSent sub) target (Matches (s_filter sub)) 1000 (committed s) in
             if evts = [] then Some (putSub h (sub\<lparr>lastSent := target, phase := AtHead\<rparr>) s)
             else Some (putSub h (sub\<lparr>phase := Sending evts\<rparr>) s))
      | Sending [] \<Rightarrow> Some (putSub h (sub\<lparr>phase := AtHead\<rparr>) s)
      | Sending (e # es) \<Rightarrow>
          (case blockingSend sub e of
             None \<Rightarrow> None
           | Some (sub', False) \<Rightarrow> Some (putSub h (sub'\<lparr>phase := Returned\<rparr>) s)
           | Some (sub', True) \<Rightarrow>
               Some (putSub h (sub'\<lparr>delivered := delivered sub' + 1, lastSent := Position e,
                                   phase := Sending es\<rparr>) s))
      | Returned \<Rightarrow> None)"

text \<open>
  One move of the tailer: wake up and query the next batch, take the next event and a copy of the
  list of subscribers, offer the event to one subscriber, move the cursor.
\<close>

definition tailerMove :: "hub \<Rightarrow> hub option" where
  "tailerMove s =
     (case tail s of
        Waiting \<Rightarrow>
          if cursor s \<ge> latest s then None
          else Some (s\<lparr>tail := Batch (queryLog (cursor s) (latest s) (\<lambda>_. True) 1000 (committed s))\<rparr>)
      | Batch [] \<Rightarrow> Some (s\<lparr>tail := Waiting\<rparr>)
      | Batch (e # es) \<Rightarrow> Some (s\<lparr>tail := Dispatching e (subs s) es\<rparr>)
      | Dispatching e [] es \<Rightarrow> Some (s\<lparr>cursor := Position e, tail := Batch es\<rparr>)
      | Dispatching e (h # hs) es \<Rightarrow> Some ((dispatchTo e h s)\<lparr>tail := Dispatching e hs es\<rparr>))"

text \<open>
  The steps of the system. A commit adds a row above every position handed out so far; publishing
  the position is a later step of its own, guarded in \<open>Append\<close> and an assignment in \<open>AppendBatch\<close>.
\<close>

datatype action =
    Commit event
  | PublishAppend nat
  | PublishBatch nat
  | NewSubscription nat string Filter nat bool nat
  | CatchupMove nat
  | CatchupError nat
  | Receive nat
  | CloseSub nat
  | TailerMove

fun exec :: "action \<Rightarrow> hub \<Rightarrow> hub option" where
  "exec (Commit e) s =
     (if 0 < Position e \<and> (\<forall>x \<in> set (committed s). Position x < Position e) then Some (s\<lparr>committed := committed s @ [e]\<rparr>) else None)"
| "exec (PublishAppend p) s =
     (if p \<in> Position ` set (committed s) then Some (s\<lparr>latest := (if p > latest s then p else latest s)\<rparr>) else None)"
| "exec (PublishBatch p) s =
     (if p \<in> Position ` set (committed s) then Some (s\<lparr>latest := p\<rparr>) else None)"
| "exec (NewSubscription h n f buf dur fromPos) s =
     (if map_of (heap s) h = None then Some (putSub h (newSubscriber n f buf dur fromPos) s) else None)"
| "exec (CatchupMove h) s = Option.bind (map_of (heap s) h) (\<lambda>sub. catchupMove h sub s)"
| "exec (CatchupError h) s =
     Option.bind (map_of (heap s) h) (\<lambda>sub. if phase sub = Returned then None
       else Some (Close h (sub\<lparr>phase := Returned\<rparr>) (putSub h (sub\<lparr>phase := Returned\<rparr>) s)))"
| "exec (Receive h) s =
     Option.bind (map_of (heap s) h) (\<lambda>sub. case ch sub of [] \<Rightarrow> None
       | _ # es \<Rightarrow> Some (putSub h (sub\<lparr>ch := es\<rparr>) s))"
| "exec (CloseSub h) s = Option.bind (map_of (heap s) h) (\<lambda>sub. Some (Close h sub s))"
| "exec TailerMove s = tailerMove s"

text \<open>A started store: the tailer begins at the latest position, which is the last of the log.\<close>

definition startHub :: "event list \<Rightarrow> hub" where
  "startHub l = \<lparr>committed = l, latest = (if l = [] then 0 else Position (last l)), subs = [], heap = [],
     cursor = (if l = [] then 0 else Position (last l)), tail = Waiting\<rparr>"

text \<open>
  What is reachable. With \<open>ordered\<close>, batches publish their positions in the order in which they
  committed, that is, an assignment never lowers \<open>latestPosition\<close>.
\<close>

inductive reach :: "bool \<Rightarrow> hub \<Rightarrow> bool" for ordered where
  start: "sorted_wrt (<) (map Position l) \<Longrightarrow> \<forall>e \<in> set l. 0 < Position e \<Longrightarrow> reach ordered (startHub l)"
| step: "reach ordered s \<Longrightarrow> exec a s = Some t \<Longrightarrow>
    (\<And>p. ordered \<Longrightarrow> a = PublishBatch p \<Longrightarrow> latest s \<le> p) \<Longrightarrow> reach ordered t"

inductive_cases reachE: "reach ordered s"

section \<open>Invariants\<close>

text \<open>The events of the log that a subscription with filter \<open>f\<close> wants, above \<open>lo\<close> and up to \<open>hi\<close>.\<close>

definition window :: "Filter \<Rightarrow> nat \<Rightarrow> nat \<Rightarrow> event list \<Rightarrow> event list" where
  "window f lo hi l = filter (\<lambda>e. lo < Position e \<and> Position e \<le> hi \<and> Matches f e) l"

definition topPos :: "hub \<Rightarrow> nat" where
  "topPos s = (if committed s = [] then 0 else Position (last (committed s)))"

fun pendingEvents :: "tailer \<Rightarrow> event list" where
  "pendingEvents Waiting = []"
| "pendingEvents (Batch es) = es"
| "pendingEvents (Dispatching e hs es) = e # es"

fun remaining :: "tailer \<Rightarrow> nat list" where
  "remaining (Dispatching e hs es) = hs"
| "remaining _ = []"

text \<open>Up to where the tailer has offered the log to subscriber \<open>h\<close>.\<close>

definition frontier :: "hub \<Rightarrow> nat \<Rightarrow> nat" where
  "frontier s h = (case tail s of Dispatching e hs es \<Rightarrow> if h \<in> set hs then cursor s else Position e
     | _ \<Rightarrow> cursor s)"

definition hub_inv :: "hub \<Rightarrow> bool" where
  "hub_inv s \<longleftrightarrow> sorted_wrt (<) (map Position (committed s)) \<and> (\<forall>e \<in> set (committed s). 0 < Position e) \<and>
     latest s \<le> topPos s \<and> cursor s \<le> latest s \<and>
     prefix (pendingEvents (tail s)) (filter (\<lambda>x. cursor s < Position x) (committed s)) \<and>
     (\<forall>x \<in> set (pendingEvents (tail s)). Position x \<le> latest s) \<and>
     distinct (subs s) \<and> distinct (remaining (tail s)) \<and>
     (\<forall>h sub. map_of (heap s) h = Some sub \<longrightarrow> phase sub \<noteq> Returned \<longrightarrow>
        h \<notin> set (subs s) \<and> h \<notin> set (remaining (tail s))) \<and>
     set (subs s) \<union> set (remaining (tail s)) \<subseteq> fst ` set (heap s)"

text \<open>
  The condition under which catch-up skips nothing: the subscription takes every event, or the log
  fits one query.
\<close>

definition fits :: "hub \<Rightarrow> subscriber \<Rightarrow> bool" where
  "fits s sub \<longleftrightarrow> length (committed s) \<le> 1000 \<or> (\<forall>e. Matches (s_filter sub) e)"

definition sub_inv :: "hub \<Rightarrow> nat \<Rightarrow> subscriber \<Rightarrow> bool" where
  "sub_inv s h sub \<longleftrightarrow>
     sentLog sub = window (s_filter sub) (startPos sub) (lastSent sub) (committed s) \<and>
     startPos sub \<le> lastSent sub \<and> (lastSent sub = startPos sub \<or> lastSent sub \<le> topPos s) \<and>
     (\<forall>target. phase sub = HasTarget target \<longrightarrow> target \<le> topPos s) \<and>
     (\<forall>es. phase sub = Sending es \<longrightarrow>
        prefix es (filter (\<lambda>x. lastSent sub < Position x \<and> Matches (s_filter sub) x) (committed s))) \<and>
     (h \<in> set (subs s) \<union> set (remaining (tail s)) \<longrightarrow> \<not> isClosed sub \<longrightarrow>
        window (s_filter sub) (lastSent sub) (frontier s h) (committed s) = [])"

definition system_inv :: "hub \<Rightarrow> bool" where
  "system_inv s \<longleftrightarrow> hub_inv s \<and>
     (\<forall>h sub. map_of (heap s) h = Some sub \<longrightarrow> fits s sub \<longrightarrow> sub_inv s h sub)"

text \<open>Lists of events in ascending order of position.\<close>

lemma window_split:
  assumes "sorted_wrt (<) (map Position l)" "lo \<le> mid" "mid \<le> hi"
  shows "window f lo hi l = window f lo mid l @ window f mid hi l"
  using assms(1)
proof (induction l)
  case (Cons x l)
  have "window f lo mid l = []" if "mid < Position x"
    using that Cons.prems by (fastforce simp: window_def filter_empty_conv)
  with Cons assms(2,3) show ?case by (auto simp: window_def)
qed (simp add: window_def)

lemma window_append:
  "window f lo hi (l @ [e]) = window f lo hi l" if "hi < Position e \<or> hi \<le> lo"
  using that by (auto simp: window_def)

lemma window_empty [simp]: "window f lo lo l = []"
  by (auto simp: window_def filter_empty_conv)

lemma window_antimono:
  "window f lo hi l = [] \<Longrightarrow> lo \<le> lo' \<Longrightarrow> hi' \<le> hi \<Longrightarrow> window f lo' hi' l = []"
  by (auto simp: window_def filter_empty_conv)

lemma sorted_le_top:
  "sorted_wrt (<) (map Position (committed s)) \<Longrightarrow> e \<in> set (committed s) \<Longrightarrow> Position e \<le> topPos s"
  using sorted_wrt_less_last [of "map Position (committed s)" "Position e"]
  by (auto simp: topPos_def last_map)

text \<open>The head of what lies above a point is the next event: nothing lies in between.\<close>

lemma next_event:
  assumes "sorted_wrt (<) (map Position l)" "prefix (e # es) (filter (\<lambda>x. lo < Position x \<and> P x) l)"
  shows "e \<in> set l" "lo < Position e" "P e"
    "filter (\<lambda>x. lo < Position x \<and> Position x \<le> Position e \<and> P x) l = [e]"
    "prefix es (filter (\<lambda>x. Position e < Position x \<and> P x) l)"
proof -
  obtain r where r: "filter (\<lambda>x. lo < Position x \<and> P x) l = e # es @ r"
    using assms(2) by (auto simp: prefix_def)
  then have "e \<in> set (filter (\<lambda>x. lo < Position x \<and> P x) l)" by simp
  then show e: "e \<in> set l" "lo < Position e" "P e" by auto
  have "sorted_wrt (<) (map Position (filter (\<lambda>x. lo < Position x \<and> P x) l))"
    using assms(1) by (simp add: sorted_wrt_map sorted_wrt_filter)
  then have above: "\<forall>x \<in> set (es @ r). Position e < Position x" by (auto simp: r)
  have "filter (\<lambda>x. lo < Position x \<and> Position x \<le> Position e \<and> P x) l =
      filter (\<lambda>x. Position x \<le> Position e) (e # es @ r)"
    unfolding r [symmetric] by (simp add: filter_filter) (metis)
  also have "\<dots> = [e]" using above by (simp add: filter_empty_conv not_le)
  finally show "filter (\<lambda>x. lo < Position x \<and> Position x \<le> Position e \<and> P x) l = [e]" .
  have "filter (\<lambda>x. Position e < Position x \<and> P x) l = filter (\<lambda>x. Position e < Position x) (e # es @ r)"
    unfolding r [symmetric] using e(2) by (auto simp: filter_filter intro!: filter_cong)
  also have "\<dots> = es @ r" using above by (simp add: filter_id_conv)
  finally show "prefix es (filter (\<lambda>x. Position e < Position x \<and> P x) l)" by simp
qed

lemma prefix_filter_snoc: "prefix es (filter P l) \<Longrightarrow> prefix es (filter P (l @ [x]))"
  by (auto simp: prefix_def)

lemma prefix_filter: "prefix xs ys \<Longrightarrow> prefix (filter P xs) (filter P ys)"
  by (auto simp: prefix_def)

lemma filter_upto_prefix:
  assumes "sorted_wrt (<) (map Position l)"
  shows "prefix (filter (\<lambda>x. lo < Position x \<and> Position x \<le> hi) l) (filter (\<lambda>x. lo < Position x) l)"
  using assms
proof (induction l)
  case (Cons x l)
  have "filter (\<lambda>x. lo < Position x \<and> Position x \<le> hi) l = []" if "hi < Position x"
    using that Cons.prems by (fastforce simp: filter_empty_conv)
  with Cons show ?case by auto
qed simp

text \<open>What a query returns, for a target that is not 0.\<close>

lemma queryLog_prefix:
  assumes "sorted_wrt (<) (map Position l)" "0 < hi"
  shows "prefix (queryLog lo hi keep lim l) (filter (\<lambda>x. lo < Position x \<and> keep x) l)"
    and "\<forall>x \<in> set (queryLog lo hi keep lim l). Position x \<le> hi"
proof -
  let ?r = "filter (\<lambda>x. lo < Position x \<and> Position x \<le> hi) l"
  have q: "queryLog lo hi keep lim l = filter keep (take lim ?r)" using assms(2) by (simp add: queryLog_def)
  have "prefix (take lim ?r) (filter (\<lambda>x. lo < Position x) l)"
    using filter_upto_prefix [OF assms(1)] take_is_prefix prefix_order.order_trans by metis
  from prefix_filter [OF this, of keep] show "prefix (queryLog lo hi keep lim l) (filter (\<lambda>x. lo < Position x \<and> keep x) l)"
    unfolding q by (simp add: filter_filter conj_commute)
  show "\<forall>x \<in> set (queryLog lo hi keep lim l). Position x \<le> hi"
    unfolding q by (auto dest: in_set_takeD)
qed

lemma queryLog_empty:
  assumes "queryLog lo hi (Matches f) 1000 l = []" "0 < hi"
    and "length l \<le> 1000 \<or> (\<forall>e. Matches f e)"
  shows "window f lo hi l = []"
proof -
  let ?r = "filter (\<lambda>x. lo < Position x \<and> Position x \<le> hi) l"
  have q: "filter (Matches f) (take 1000 ?r) = []" using assms(1,2) by (simp add: queryLog_def)
  have "filter (Matches f) ?r = []"
  proof (cases "length l \<le> 1000")
    case True
    then have "take 1000 ?r = ?r" using length_filter_le le_trans by (intro take_all) blast
    with q show ?thesis by simp
  next
    case False
    with assms(3) q show ?thesis by (auto simp: filter_empty_conv)
  qed
  then show ?thesis by (simp add: window_def filter_filter conj_ac)
qed

section \<open>Every step keeps the invariants\<close>

lemma putSub_simps [simp]:
  "committed (putSub h x s) = committed s" "latest (putSub h x s) = latest s" "subs (putSub h x s) = subs s"
  "cursor (putSub h x s) = cursor s" "tail (putSub h x s) = tail s" "topPos (putSub h x s) = topPos s"
  "map_of (heap (putSub h x s)) = (map_of (heap s))(h \<mapsto> x)" "frontier (putSub h x s) = frontier s"
  "fits (putSub h x s) = fits s" "fst ` set (heap (putSub h x s)) = insert h (fst ` set (heap s))"
  by (auto simp: putSub_def topPos_def frontier_def fits_def fun_eq_iff update_conv' dom_update
      simp flip: dom_map_of_conv_image_fst split: tailer.splits)

lemma unregister_simps [simp]:
  "committed (unregisterSubscriber h s) = committed s" "latest (unregisterSubscriber h s) = latest s"
  "cursor (unregisterSubscriber h s) = cursor s" "tail (unregisterSubscriber h s) = tail s"
  "heap (unregisterSubscriber h s) = heap s" "topPos (unregisterSubscriber h s) = topPos s"
  "subs (unregisterSubscriber h s) = filter (\<lambda>i. i \<noteq> h) (subs s)"
  "frontier (unregisterSubscriber h s) = frontier s" "fits (unregisterSubscriber h s) = fits s"
  by (auto simp: unregisterSubscriber_def topPos_def frontier_def fits_def fun_eq_iff split: tailer.splits)

lemma sub_inv_frame:
  assumes "sub_inv s h sub" "committed t = committed s"
    and "h \<in> set (subs t) \<union> set (remaining (tail t)) \<Longrightarrow> h \<in> set (subs s) \<union> set (remaining (tail s))"
    and "frontier t h \<le> frontier s h"
  shows "sub_inv t h sub"
  using assms window_antimono [of "s_filter sub" "lastSent sub" "frontier s h" "committed s" "lastSent sub" "frontier t h"]
  by (auto simp: sub_inv_def topPos_def)

lemma system_invD:
  assumes "system_inv s" "map_of (heap s) h = Some sub"
  shows "hub_inv s" "fits s sub \<Longrightarrow> sub_inv s h sub"
  using assms by (auto simp: system_inv_def)

text \<open>A step that changes one subscriber and possibly unregisters it.\<close>

lemma system_inv_put:
  assumes "system_inv s" "map_of (heap s) h = Some sub"
    and "s' = s \<or> s' = unregisterSubscriber h s"
    and "phase sub' = Returned \<or> phase sub \<noteq> Returned"
    and "fits s sub' \<Longrightarrow> fits s sub"
    and "fits s sub' \<Longrightarrow> sub_inv s h sub \<Longrightarrow> sub_inv s' h sub'"
  shows "system_inv (putSub h sub' s')"
proof -
  have hub: "hub_inv (putSub h sub' s')"
    using assms(1-4) by (auto simp: hub_inv_def system_inv_def)
  have "sub_inv (putSub h sub' s') i x" if "map_of (heap (putSub h sub' s')) i = Some x" "fits (putSub h sub' s') x" for i x
  proof (cases "i = h")
    case True
    with that have x: "x = sub'" "fits s sub'" using assms(3) by auto
    then have "sub_inv s' h sub'" using assms(5,6) system_invD(2) [OF assms(1,2)] by blast
    with True x show ?thesis by (auto intro: sub_inv_frame)
  next
    case False
    with that assms(3) have "map_of (heap s) i = Some x" "fits s x" by auto
    with assms(1) have "sub_inv s i x" by (auto simp: system_inv_def)
    then show ?thesis by (rule sub_inv_frame) (use assms(3) in auto)
  qed
  with hub show ?thesis by (simp add: system_inv_def)
qed

lemma commit_inv:
  assumes "system_inv s" "exec (Commit e) s = Some t"
  shows "system_inv t"
proof -
  have e: "0 < Position e" "\<forall>x \<in> set (committed s). Position x < Position e"
    and t: "t = s\<lparr>committed := committed s @ [e]\<rparr>" using assms(2) by (auto split: if_splits)
  have h: "hub_inv s" using assms(1) by (simp add: system_inv_def)
  have above: "topPos s < Position e" using e by (auto simp: topPos_def)
  then have top: "topPos s \<le> topPos t" "topPos t = Position e" by (simp_all add: t topPos_def)
  have lt: "latest t \<le> topPos t" using h top by (simp add: hub_inv_def t)
  have "hub_inv t"
    using h e lt prefix_filter_snoc by (auto simp: hub_inv_def t sorted_wrt_append)
  moreover have "sub_inv t i x" if x: "map_of (heap t) i = Some x" "fits t x" for i x
  proof -
    have "fits s x" using x(2) by (auto simp: fits_def t)
    then have si: "sub_inv s i x" using x(1) assms(1) by (auto simp: system_inv_def t)
    have fr: "frontier s i < Position e" "frontier t i = frontier s i"
      using h e(2) by (auto simp: frontier_def hub_inv_def t prefix_def split: tailer.splits
          dest!: arg_cong [where f = set] intro: le_less_trans [OF _ above])
    have "lastSent x < Position e \<or> lastSent x \<le> startPos x"
      using si above by (auto simp: sub_inv_def)
    then have "window (s_filter x) (startPos x) (lastSent x) (committed t) =
        window (s_filter x) (startPos x) (lastSent x) (committed s)"
      unfolding t by (simp add: window_append)
    moreover have "window (s_filter x) (lastSent x) (frontier t i) (committed t) =
        window (s_filter x) (lastSent x) (frontier s i) (committed s)"
      using fr unfolding t by (simp add: window_append)
    ultimately show ?thesis
      using si top(1) prefix_filter_snoc by (auto simp: sub_inv_def t)
  qed
  ultimately show ?thesis by (simp add: system_inv_def)
qed

lemma publish_inv:
  assumes "system_inv s" "p \<in> Position ` set (committed s)" "latest s \<le> n" "n \<le> max p (latest s)"
  shows "system_inv (s\<lparr>latest := n\<rparr>)"
proof -
  have h: "hub_inv s" using assms(1) by (simp add: system_inv_def)
  have "p \<le> topPos s" using assms(2) h sorted_le_top by (auto simp: hub_inv_def)
  with h assms(3,4) have "hub_inv (s\<lparr>latest := n\<rparr>)"
    by (fastforce simp: hub_inv_def topPos_def)
  moreover have "sub_inv (s\<lparr>latest := n\<rparr>) h sub = sub_inv s h sub" for h sub
    by (simp add: sub_inv_def topPos_def frontier_def split: tailer.splits)
  ultimately show ?thesis using assms(1) by (simp add: system_inv_def fits_def)
qed

lemma subscribe_inv:
  assumes "system_inv s" "map_of (heap s) h = None"
  shows "system_inv (putSub h (newSubscriber n f buf dur fromPos) s)"
proof -
  have h: "hub_inv s" using assms(1) by (simp add: system_inv_def)
  have "h \<notin> fst ` set (heap s)" using assms(2) by (simp add: map_of_eq_None_iff)
  then have fresh: "h \<notin> set (subs s) \<union> set (remaining (tail s))" using h by (auto simp: hub_inv_def)
  have "hub_inv (putSub h (newSubscriber n f buf dur fromPos) s)"
    using h fresh by (auto simp: hub_inv_def)
  moreover have "sub_inv (putSub h (newSubscriber n f buf dur fromPos) s) i x"
    if x: "map_of (heap (putSub h (newSubscriber n f buf dur fromPos) s)) i = Some x"
      "fits (putSub h (newSubscriber n f buf dur fromPos) s) x" for i x
  proof (cases "i = h")
    case True
    with x fresh show ?thesis by (auto simp: sub_inv_def newSubscriber_def)
  next
    case False
    with x assms(1) have "sub_inv s i x" by (auto simp: system_inv_def)
    then show ?thesis by (rule sub_inv_frame) auto
  qed
  ultimately show ?thesis by (simp add: system_inv_def)
qed

lemma close_inv:
  assumes "system_inv s" "map_of (heap s) h = Some sub"
  shows "system_inv (Close h sub s)"
proof (cases "isClosed sub")
  case False
  have "system_inv (putSub h (sub\<lparr>isClosed := True\<rparr>) (unregisterSubscriber h s))"
    by (rule system_inv_put [OF assms]) (auto simp: fits_def sub_inv_def)
  with False show ?thesis by (simp add: Close_def)
qed (simp add: Close_def assms)

lemma receive_inv:
  assumes "system_inv s" "map_of (heap s) h = Some sub"
  shows "system_inv (putSub h (sub\<lparr>ch := es\<rparr>) s)"
  by (rule system_inv_put [OF assms]) (auto simp: fits_def sub_inv_def)

lemma returned_inv:
  assumes "system_inv s" "map_of (heap s) h = Some sub"
  shows "system_inv (putSub h (sub\<lparr>phase := Returned\<rparr>) s)"
  by (rule system_inv_put [OF assms]) (auto simp: fits_def sub_inv_def)

text \<open>The catch-up goroutine.\<close>

lemma catchup_send_inv:
  assumes "system_inv s" "map_of (heap s) h = Some sub" "phase sub = Sending (e # es)" "\<not> isClosed sub"
  shows "system_inv (putSub h (sub\<lparr>ch := c, sentLog := sentLog sub @ [e], delivered := n,
    lastSent := Position e, phase := Sending es\<rparr>) s)"
proof (rule system_inv_put [OF assms(1,2)])
  let ?sub = "sub\<lparr>ch := c, sentLog := sentLog sub @ [e], delivered := n, lastSent := Position e, phase := Sending es\<rparr>"
  have h: "hub_inv s" and srt: "sorted_wrt (<) (map Position (committed s))"
    using assms(1) by (simp_all add: system_inv_def hub_inv_def)
  assume si: "sub_inv s h sub"
  then have "prefix (e # es) (filter (\<lambda>x. lastSent sub < Position x \<and> Matches (s_filter sub) x) (committed s))"
    using assms(3) by (simp add: sub_inv_def)
  note e = next_event [OF srt this]
  have "window (s_filter sub) (lastSent sub) (Position e) (committed s) = [e]"
    using e(4) by (simp add: window_def)
  with window_split [OF srt, of "startPos sub" "lastSent sub" "Position e" "s_filter sub"] si e(2)
  have "window (s_filter sub) (startPos sub) (Position e) (committed s) = sentLog sub @ [e]"
    by (simp add: sub_inv_def)
  moreover have "h \<notin> set (subs s) \<union> set (remaining (tail s))"
    using h assms(2,3) by (auto simp: hub_inv_def)
  ultimately show "sub_inv s h ?sub"
    using si e sorted_le_top [OF srt e(1)] by (auto simp: sub_inv_def)
qed (use assms in \<open>auto simp: fits_def\<close>)

lemma catchup_register_inv:
  assumes "system_inv s" "map_of (heap s) h = Some sub" "phase sub \<noteq> Returned" "latest s \<le> lastSent sub"
  shows "system_inv (putSub h (sub\<lparr>phase := Returned\<rparr>) (s\<lparr>subs := subs s @ [h]\<rparr>))"
proof -
  let ?t = "putSub h (sub\<lparr>phase := Returned\<rparr>) (s\<lparr>subs := subs s @ [h]\<rparr>)"
  have h: "hub_inv s" using assms(1) by (simp add: system_inv_def)
  have new: "h \<notin> set (subs s) \<union> set (remaining (tail s))" using h assms(2,3) by (auto simp: hub_inv_def)
  have hub: "hub_inv ?t" using h new by (auto simp: hub_inv_def topPos_def)
  have fr: "frontier s i \<le> latest s" for i
    using h by (auto simp: frontier_def hub_inv_def split: tailer.splits)
  have "sub_inv ?t i x" if x: "map_of (heap ?t) i = Some x" "fits ?t x" for i x
  proof (cases "i = h")
    case True
    with x have xx: "x = sub\<lparr>phase := Returned\<rparr>" "fits s sub" by (auto simp: fits_def)
    have si: "sub_inv s h sub" using xx(2) assms(1,2) by (simp add: system_inv_def)
    have "window (s_filter sub) (lastSent sub) (frontier s h) (committed s) = []"
      using fr [of h] assms(4) by (auto simp: window_def filter_empty_conv)
    moreover have "frontier ?t h = frontier s h" by (simp add: frontier_def split: tailer.splits)
    ultimately show ?thesis using si True xx by (auto simp: sub_inv_def topPos_def)
  next
    case False
    with x assms(1) have "sub_inv s i x" by (auto simp: system_inv_def fits_def)
    then show ?thesis
      by (rule sub_inv_frame) (use False in \<open>auto simp: frontier_def split: tailer.splits\<close>)
  qed
  with hub show ?thesis by (simp add: system_inv_def)
qed

lemma catchup_inv:
  assumes "system_inv s" "map_of (heap s) h = Some sub" "catchupMove h sub s = Some t"
  shows "system_inv t"
proof (cases "phase sub")
  case AtHead
  have "latest s \<le> topPos s" using assms(1) by (simp add: system_inv_def hub_inv_def)
  with AtHead assms(3) show ?thesis
    by (auto simp: catchupMove_def fits_def sub_inv_def intro!: system_inv_put [OF assms(1,2)])
next
  case (HasTarget target)
  have srt: "sorted_wrt (<) (map Position (committed s))"
    using assms(1) by (simp add: system_inv_def hub_inv_def)
  let ?q = "queryLog (lastSent sub) target (Matches (s_filter sub)) 1000 (committed s)"
  consider "lastSent sub \<ge> target" "latest s > lastSent sub" | "lastSent sub \<ge> target" "latest s \<le> lastSent sub"
    | "lastSent sub < target" "?q = []" | "lastSent sub < target" "?q \<noteq> []" by fastforce
  then show ?thesis
  proof cases
    case 1
    with HasTarget assms(3) show ?thesis
      by (auto simp: catchupMove_def fits_def sub_inv_def intro!: system_inv_put [OF assms(1,2)])
  next
    case 2
    with HasTarget assms(3) catchup_register_inv [OF assms(1,2)] show ?thesis by (auto simp: catchupMove_def)
  next
    case 3
    have "system_inv (putSub h (sub\<lparr>lastSent := target, phase := AtHead\<rparr>) s)"
    proof (rule system_inv_put [OF assms(1,2)])
      assume "fits s (sub\<lparr>lastSent := target, phase := AtHead\<rparr>)" and si: "sub_inv s h sub"
      then have w: "window (s_filter sub) (lastSent sub) target (committed s) = []"
        using 3 by (intro queryLog_empty) (auto simp: fits_def)
      have "window (s_filter sub) (startPos sub) target (committed s) = sentLog sub"
        using window_split [OF srt, of "startPos sub" "lastSent sub" target "s_filter sub"] w si 3
        by (simp add: sub_inv_def)
      then show "sub_inv s h (sub\<lparr>lastSent := target, phase := AtHead\<rparr>)"
        using si 3 HasTarget window_antimono [of "s_filter sub" "lastSent sub" "frontier s h" "committed s" target "frontier s h"]
        by (auto simp: sub_inv_def)
    qed (use HasTarget in \<open>auto simp: fits_def\<close>)
    with 3 HasTarget assms(3) show ?thesis by (auto simp: catchupMove_def)
  next
    case 4
    have "system_inv (putSub h (sub\<lparr>phase := Sending ?q\<rparr>) s)"
      using HasTarget queryLog_prefix(1) [OF srt, of target "lastSent sub" "Matches (s_filter sub)" 1000] 4
      by (intro system_inv_put [OF assms(1,2)]) (auto simp: fits_def sub_inv_def)
    with 4 HasTarget assms(3) show ?thesis by (auto simp: catchupMove_def)
  qed
next
  case (Sending es)
  show ?thesis
  proof (cases es)
    case Nil
    with Sending assms(3) show ?thesis
      by (auto simp: catchupMove_def fits_def sub_inv_def intro!: system_inv_put [OF assms(1,2)])
  next
    case (Cons e es')
    with Sending assms(3) catchup_send_inv [OF assms(1,2)] returned_inv [OF assms(1,2)] show ?thesis
      by (auto simp: catchupMove_def blockingSend_def split: if_splits)
  qed
next
  case Returned
  with assms(3) show ?thesis by (simp add: catchupMove_def)
qed

text \<open>The tailer.\<close>

lemma next_of_all:
  assumes "sorted_wrt (<) (map Position l)" "prefix (e # es) (filter (\<lambda>x. lo < Position x) l)"
  shows "e \<in> set l" "lo < Position e" "filter (\<lambda>x. lo < Position x \<and> Position x \<le> Position e) l = [e]"
    "prefix es (filter (\<lambda>x. Position e < Position x) l)"
proof -
  have "prefix (e # es) (filter (\<lambda>x. lo < Position x \<and> True) l)" using assms(2) by simp
  note n = next_event [OF assms(1) this]
  show "e \<in> set l" "lo < Position e" by (rule n(1,2))+
  show "filter (\<lambda>x. lo < Position x \<and> Position x \<le> Position e) l = [e]" using n(4) by simp
  show "prefix es (filter (\<lambda>x. Position e < Position x) l)" using n(5) by simp
qed

lemma window_next:
  assumes "sorted_wrt (<) (map Position l)" "prefix (e # es) (filter (\<lambda>x. c < Position x) l)"
    and "window f lo c l = []"
  shows "window f lo (Position e) l = (if lo < Position e \<and> Matches f e then [e] else [])"
proof -
  note e = next_of_all [OF assms(1,2)]
  have c: "window f c (Position e) l = (if Matches f e then [e] else [])"
  proof -
    have "window f c (Position e) l = filter (Matches f) (filter (\<lambda>x. c < Position x \<and> Position x \<le> Position e) l)"
      by (simp add: window_def filter_filter conj_ac)
    with e(3) show ?thesis by simp
  qed
  show ?thesis
  proof (cases "lo \<le> c")
    case True
    with window_split [OF assms(1), of lo c "Position e" f] assms(3) c e(2) show ?thesis by auto
  next
    case False
    have "window f lo (Position e) l = filter (\<lambda>x. lo < Position x) (window f c (Position e) l)"
      using False by (auto simp: window_def filter_filter intro!: filter_cong)
    with c show ?thesis by simp
  qed
qed

text \<open>After the event in hand has been offered to \<open>h\<close>.\<close>

definition offered :: "nat \<Rightarrow> subscriber \<Rightarrow> hub \<Rightarrow> tailer \<Rightarrow> hub" where
  "offered h sub' s' ta = (putSub h sub' s')\<lparr>tail := ta\<rparr>"

lemma offered_inv:
  assumes "system_inv s" "tail s = Dispatching e (h # hs) es" "map_of (heap s) h = Some sub"
    and "s' = s \<or> s' = unregisterSubscriber h s"
    and "phase sub' = phase sub" "s_filter sub' = s_filter sub"
    and "fits s sub \<Longrightarrow> sub_inv s h sub \<Longrightarrow> sub_inv (offered h sub' s' (Dispatching e hs es)) h sub'"
  shows "system_inv (offered h sub' s' (Dispatching e hs es))"
proof -
  let ?t = "offered h sub' s' (Dispatching e hs es)"
  have t: "committed ?t = committed s" "latest ?t = latest s" "cursor ?t = cursor s" "topPos ?t = topPos s"
    "map_of (heap ?t) = (map_of (heap s))(h \<mapsto> sub')" "tail ?t = Dispatching e hs es"
    "fst ` set (heap ?t) = insert h (fst ` set (heap s))" "set (subs ?t) \<subseteq> set (subs s)" "distinct (subs s) \<Longrightarrow> distinct (subs ?t)"
    "fits ?t = fits s"
    using assms(4) putSub_simps(10) [of h sub' s] putSub_simps(10) [of h sub' s']
    by (auto simp: offered_def topPos_def fits_def fun_eq_iff)
  have h: "hub_inv s" using assms(1) by (simp add: system_inv_def)
  have "\<forall>i x. map_of (heap ?t) i = Some x \<longrightarrow> phase x \<noteq> Returned \<longrightarrow> i \<notin> set (subs ?t) \<and> i \<notin> set hs"
  proof (intro allI impI)
    fix i x assume x: "map_of (heap ?t) i = Some x" "phase x \<noteq> Returned"
    obtain y where "map_of (heap s) i = Some y" "phase y \<noteq> Returned"
      using x t(5) assms(3,5) by (cases "i = h") auto
    then have "i \<notin> set (subs s)" "i \<notin> set (h # hs)" using h assms(2) by (auto simp: hub_inv_def)
    with t(8) show "i \<notin> set (subs ?t) \<and> i \<notin> set hs" by auto
  qed
  moreover have "set (subs ?t) \<union> set hs \<subseteq> fst ` set (heap ?t)"
    using h t(7,8) assms(2) by (auto simp: hub_inv_def)
  ultimately have hub: "hub_inv ?t"
    using h t(1-4,6,9) assms(2) by (simp add: hub_inv_def)
  have "sub_inv ?t i x" if x: "map_of (heap ?t) i = Some x" "fits ?t x" for i x
  proof (cases "i = h")
    case True
    with x t(5) have "x = sub'" by simp
    moreover from this x(2) t(10) have "fits s sub" using assms(6) fits_def by metis
    ultimately have "x = sub'" "fits s sub" by simp_all
    with True assms(7) system_invD(2) [OF assms(1,3)] show ?thesis by simp
  next
    case False
    with x t(5,10) assms(1) have si: "sub_inv s i x" by (simp add: system_inv_def)
    have fr: "frontier ?t i \<le> frontier s i" using False t(3,6) assms(2) by (simp add: frontier_def)
    have "i \<in> set (subs ?t) \<union> set (remaining (tail ?t)) \<Longrightarrow> i \<in> set (subs s) \<union> set (remaining (tail s))"
      using t(6,8) assms(2) by auto
    then show ?thesis by (rule sub_inv_frame [OF si t(1) _ fr])
  qed
  with hub show ?thesis by (simp add: system_inv_def)
qed

lemma deliver_inv:
  assumes "system_inv s" "tail s = Dispatching e (h # hs) es"
  shows "system_inv ((dispatchTo e h s)\<lparr>tail := Dispatching e hs es\<rparr>)"
proof -
  have hub: "hub_inv s" using assms(1) by (simp add: system_inv_def)
  then have srt: "sorted_wrt (<) (map Position (committed s))"
    and pre: "prefix (e # es) (filter (\<lambda>x. cursor s < Position x) (committed s))"
    and dist: "h \<notin> set hs" and dom: "h \<in> fst ` set (heap s)"
    using assms(2) by (auto simp: hub_inv_def)
  note ne = next_of_all [OF srt pre]
  obtain sub where sub: "map_of (heap s) h = Some sub"
    using dom by (metis domD dom_map_of_conv_image_fst)
  have put: "putSub h sub s = s" if "AList.update h sub (heap s) = heap s"
    using that by (simp add: putSub_def)
  have fr: "frontier s h = cursor s" using assms(2) by (simp add: frontier_def)
  have w: "window (s_filter sub) (lastSent sub) (Position e) (committed s) =
      (if lastSent sub < Position e \<and> Matches (s_filter sub) e then [e] else [])"
    if "sub_inv s h sub" "\<not> isClosed sub"
    using that fr assms(2) by (intro window_next [OF srt pre]) (simp add: sub_inv_def)
  have same: "sub_inv (offered h sub s (Dispatching e hs es)) h sub"
    if "sub_inv s h sub" "\<not> isClosed sub \<longrightarrow> lastSent sub \<ge> Position e \<or> \<not> Matches (s_filter sub) e"
  proof -
    have "window (s_filter sub) (lastSent sub) (Position e) (committed s) = []" if "\<not> isClosed sub"
      using w [OF \<open>sub_inv s h sub\<close> that] \<open>_ \<longrightarrow> _\<close> that by auto
    moreover have "topPos (offered h sub s (Dispatching e hs es)) = topPos s" by (simp add: offered_def topPos_def)
    ultimately show ?thesis using that(1) dist by (simp add: sub_inv_def offered_def frontier_def)
  qed
  show ?thesis
  proof (cases "Matches (s_filter sub) e \<and> lastSent sub < Position e \<and> \<not> isClosed sub")
    case False
    then have d: "dispatchTo e h s = s"
      using sub by (auto simp: dispatchTo_def trySend_def split: prod.splits bool.splits)
    have "system_inv (offered h sub s (Dispatching e hs es))"
      by (rule offered_inv [OF assms sub]) (use same False in auto)
    then have o: "system_inv ((putSub h sub s)\<lparr>tail := Dispatching e hs es\<rparr>)" by (simp add: offered_def)
    have "map_of (heap (putSub h sub s)) = map_of (heap s)" using sub by auto
    then have "system_inv ((putSub h sub s)\<lparr>tail := Dispatching e hs es\<rparr>) =
        system_inv (s\<lparr>tail := Dispatching e hs es\<rparr>)"
      using dom putSub_simps(10) [of h sub s]
      by (simp add: system_inv_def hub_inv_def sub_inv_def topPos_def frontier_def fits_def insert_absorb)
    with o d show ?thesis by simp
  next
    case True
    show ?thesis
    proof (cases "length (ch sub) < chCap sub")
      case room: True
      let ?sub = "sub\<lparr>ch := ch sub @ [e], sentLog := sentLog sub @ [e], delivered := delivered sub + 1, lastSent := Position e\<rparr>"
      have d: "dispatchTo e h s = putSub h ?sub s"
        using True room sub by (simp add: dispatchTo_def trySend_def)
      have "system_inv (offered h ?sub s (Dispatching e hs es))"
      proof (rule offered_inv [OF assms sub])
        assume si: "sub_inv s h sub"
        have "window (s_filter sub) (startPos sub) (Position e) (committed s) = sentLog sub @ [e]"
          using window_split [OF srt, of "startPos sub" "lastSent sub" "Position e" "s_filter sub"] w si True
          by (simp add: sub_inv_def)
        moreover have "phase sub = Returned"
          using hub sub assms(2) by (auto simp: hub_inv_def)
        ultimately show "sub_inv (offered h ?sub s (Dispatching e hs es)) h ?sub"
          using si True sorted_le_top [OF srt ne(1)] dist
          by (auto simp: sub_inv_def offered_def topPos_def frontier_def)
      qed auto
      then show ?thesis by (simp add: d offered_def)
    next
      case False
      let ?sub = "sub\<lparr>dropped := dropped sub + 1\<rparr>"
      have d: "dispatchTo e h s = putSub h ?sub (unregisterSubscriber h s)"
        using True False sub by (simp add: dispatchTo_def trySend_def putSub_def unregisterSubscriber_def)
      have "system_inv (offered h ?sub (unregisterSubscriber h s) (Dispatching e hs es))"
        by (rule offered_inv [OF assms sub]) (use dist in \<open>auto simp: sub_inv_def offered_def topPos_def\<close>)
      then show ?thesis by (simp add: d offered_def)
    qed
  qed
qed

lemma tailer_inv:
  assumes "system_inv s" "tailerMove s = Some t"
  shows "system_inv t"
proof -
  have hub: "hub_inv s" using assms(1) by (simp add: system_inv_def)
  then have srt: "sorted_wrt (<) (map Position (committed s))" by (simp add: hub_inv_def)
  have keep: "system_inv (s\<lparr>cursor := c, tail := ta\<rparr>)"
    if "hub_inv (s\<lparr>cursor := c, tail := ta\<rparr>)" "set (remaining ta) \<subseteq> set (subs s) \<union> set (remaining (tail s))"
      "\<And>h. frontier (s\<lparr>cursor := c, tail := ta\<rparr>) h \<le> frontier s h" for c ta
  proof -
    have "sub_inv (s\<lparr>cursor := c, tail := ta\<rparr>) h sub" if "sub_inv s h sub" for h sub
    proof (rule sub_inv_frame [OF that])
      show "frontier (s\<lparr>cursor := c, tail := ta\<rparr>) h \<le> frontier s h" by fact
      assume "h \<in> set (subs (s\<lparr>cursor := c, tail := ta\<rparr>)) \<union> set (remaining (tail (s\<lparr>cursor := c, tail := ta\<rparr>)))"
      then show "h \<in> set (subs s) \<union> set (remaining (tail s))" using \<open>set (remaining ta) \<subseteq> _\<close> by auto
    qed simp
    with assms(1) that(1) show ?thesis by (simp add: system_inv_def fits_def)
  qed
  have s: "s = s\<lparr>cursor := cursor s, tail := tail s\<rparr>" by simp
  show ?thesis
  proof (cases "tail s")
    case Waiting
    let ?b = "Batch (queryLog (cursor s) (latest s) (\<lambda>_. True) 1000 (committed s))"
    have c: "cursor s < latest s" and t: "t = s\<lparr>tail := ?b\<rparr>"
      using Waiting assms(2) by (auto simp: tailerMove_def split: if_splits)
    have "hub_inv (s\<lparr>cursor := cursor s, tail := ?b\<rparr>)"
      using hub c queryLog_prefix [OF srt, of "latest s" "cursor s" "\<lambda>_. True" 1000] Waiting
      by (auto simp: hub_inv_def topPos_def)
    from keep [OF this] show ?thesis using Waiting by (simp add: t frontier_def)
  next
    case (Batch es)
    show ?thesis
    proof (cases es)
      case Nil
      have "hub_inv (s\<lparr>cursor := cursor s, tail := Waiting\<rparr>)" using hub Batch by (auto simp: hub_inv_def topPos_def)
      from keep [OF this] show ?thesis using assms(2) Batch Nil by (auto simp: tailerMove_def frontier_def)
    next
      case (Cons e es')
      have "hub_inv (s\<lparr>cursor := cursor s, tail := Dispatching e (subs s) es'\<rparr>)"
        using hub Batch Cons by (auto simp: hub_inv_def topPos_def)
      then have "hub_inv (s\<lparr>tail := Dispatching e (subs s) es'\<rparr>)" by simp
      moreover have "sub_inv (s\<lparr>tail := Dispatching e (subs s) es'\<rparr>) h sub"
        if "map_of (heap s) h = Some sub" "fits s sub" for h sub
      proof -
        have "sub_inv s h sub" using that assms(1) by (simp add: system_inv_def)
        then show ?thesis using Batch by (auto simp: sub_inv_def topPos_def frontier_def)
      qed
      ultimately show ?thesis
        using assms(2) Batch Cons by (auto simp: tailerMove_def system_inv_def fits_def)
    qed
  next
    case (Dispatching e hs es)
    show ?thesis
    proof (cases hs)
      case Nil
      have "prefix (e # es) (filter (\<lambda>x. cursor s < Position x) (committed s))" "Position e \<le> latest s"
        using hub Dispatching by (auto simp: hub_inv_def)
      with next_of_all(4) [OF srt] hub Dispatching Nil
      have "hub_inv (s\<lparr>cursor := Position e, tail := Batch es\<rparr>)"
        by (auto simp: hub_inv_def topPos_def)
      from keep [OF this] show ?thesis
        using assms(2) Dispatching Nil by (auto simp: tailerMove_def frontier_def)
    next
      case (Cons h hs')
      with assms Dispatching deliver_inv show ?thesis by (auto simp: tailerMove_def)
    qed
  qed
qed

lemma start_inv:
  assumes "sorted_wrt (<) (map Position l)" "\<forall>e \<in> set l. 0 < Position e"
  shows "system_inv (startHub l)"
  using assms by (simp add: system_inv_def hub_inv_def startHub_def topPos_def)

lemma exec_inv:
  assumes "system_inv s" "exec a s = Some t" "\<And>p. a = PublishBatch p \<Longrightarrow> latest s \<le> p"
  shows "system_inv t"
proof (cases a)
  case (PublishAppend p)
  with assms publish_inv [OF assms(1), of p "max p (latest s)"] show ?thesis
    by (auto simp: max_def split: if_splits)
next
  case (PublishBatch p)
  with assms publish_inv [OF assms(1), of p p] show ?thesis by (auto split: if_splits)
next
  case (CatchupError h)
  with assms(2) obtain sub where sub: "map_of (heap s) h = Some sub"
      "t = Close h (sub\<lparr>phase := Returned\<rparr>) (putSub h (sub\<lparr>phase := Returned\<rparr>) s)"
    by (auto simp: bind_eq_Some_conv split: if_splits)
  with close_inv [OF returned_inv [OF assms(1) sub(1)], of h "sub\<lparr>phase := Returned\<rparr>"] show ?thesis by simp
next
  case (Receive h)
  with assms(2) obtain sub where "map_of (heap s) h = Some sub"
      "(case ch sub of [] \<Rightarrow> None | _ # es \<Rightarrow> Some (putSub h (sub\<lparr>ch := es\<rparr>) s)) = Some t"
    by (auto simp: bind_eq_Some_conv)
  then obtain es where "map_of (heap s) h = Some sub" "t = putSub h (sub\<lparr>ch := es\<rparr>) s"
    by (cases "ch sub") auto
  with receive_inv [OF assms(1)] show ?thesis by simp
qed (use assms commit_inv [OF assms(1)] subscribe_inv [OF assms(1)] catchup_inv [OF assms(1)]
    close_inv [OF assms(1)] tailer_inv [OF assms(1)]
  in \<open>auto simp: bind_eq_Some_conv simp del: exec.simps(1) split: if_splits list.splits\<close>)

lemma reach_inv: "reach True s \<Longrightarrow> system_inv s"
  by (induction rule: reach.induct) (auto intro: start_inv exec_inv)

text \<open>
  Left alone, the tailer's moves for one event are the \<open>dispatch\<close> of that event to the subscribers
  registered at that moment.
\<close>

fun tailerMoves :: "nat \<Rightarrow> hub \<Rightarrow> hub option" where
  "tailerMoves 0 s = Some s"
| "tailerMoves (Suc n) s = Option.bind (tailerMove s) (tailerMoves n)"

lemma dispatchTo_tail [simp]: "dispatchTo e h (s\<lparr>tail := ta\<rparr>) = (dispatchTo e h s)\<lparr>tail := ta\<rparr>"
  by (auto simp: dispatchTo_def putSub_def unregisterSubscriber_def split: option.splits prod.splits bool.splits)

lemma tailerMoves_dispatching:
  "tailerMoves (Suc (length hs)) (s\<lparr>tail := Dispatching e hs es\<rparr>) =
     Some ((fold (dispatchTo e) hs s)\<lparr>cursor := Position e, tail := Batch es\<rparr>)"
  by (induction hs arbitrary: s) (simp_all add: tailerMove_def)

section \<open>Delivery\<close>

lemma window_all:
  assumes "hub_inv s" "h \<in> set (subs s)" "\<not> isClosed sub" "sub_inv s h sub" "tail s = Waiting" "cursor s = topPos s"
  shows "sentLog sub = filter (\<lambda>e. startPos sub < Position e \<and> Matches (s_filter sub) e) (committed s)"
proof -
  have srt: "sorted_wrt (<) (map Position (committed s))" using assms(1) by (simp add: hub_inv_def)
  have le: "\<forall>e \<in> set (committed s). Position e \<le> topPos s" using sorted_le_top [OF srt] by simp
  have w: "window (s_filter sub) (lastSent sub) (topPos s) (committed s) = []"
    using assms(2-6) by (simp add: sub_inv_def frontier_def)
  have si: "sentLog sub = window (s_filter sub) (startPos sub) (lastSent sub) (committed s)"
      "startPos sub \<le> lastSent sub" "lastSent sub = startPos sub \<or> lastSent sub \<le> topPos s"
    using assms(4) by (auto simp: sub_inv_def)
  have "window (s_filter sub) (startPos sub) (topPos s) (committed s) = sentLog sub"
  proof (cases "lastSent sub \<le> topPos s")
    case True
    with window_split [OF srt si(2) True, of "s_filter sub"] w si(1) show ?thesis by simp
  next
    case False
    with si show ?thesis using w by simp
  qed
  moreover have "window (s_filter sub) (startPos sub) (topPos s) (committed s) =
      filter (\<lambda>e. startPos sub < Position e \<and> Matches (s_filter sub) e) (committed s)"
    unfolding window_def using le by (intro filter_cong) auto
  ultimately show ?thesis by simp
qed


text \<open>A demonstration: one stored event, a subscription from the start, and one more event.\<close>

definition note_event :: "nat \<Rightarrow> string \<Rightarrow> event" where
  "note_event p k = \<lparr>Position = p, Timestamp = 5, Kind = k, Entity = [], Source = ''test'',
     CorrelationID = uuid_Nil, CausePosition = 0, Payload = None\<rparr>"

fun runActions :: "action list \<Rightarrow> hub \<Rightarrow> hub option" where
  "runActions [] s = Some s"
| "runActions (a # as) s = Option.bind (exec a s) (runActions as)"

lemma reach_runActions:
  assumes "reach ordered s" "runActions as s = Some t" "ordered \<Longrightarrow> \<forall>p. PublishBatch p \<notin> set as"
  shows "reach ordered t"
  using assms
proof (induction as arbitrary: s)
  case (Cons a as)
  then obtain u where "exec a s = Some u" "runActions as u = Some t" by (auto simp: bind_eq_Some_conv)
  moreover have "reach ordered u"
    using Cons.prems(1,3) \<open>exec a s = Some u\<close> by (auto intro: reach.step)
  ultimately show ?case using Cons by auto
qed simp

definition demoActions :: "action list" where
  "demoActions = [NewSubscription 0 ''ui'' Filter_zero 8 False 0, CatchupMove 0, CatchupMove 0, CatchupMove 0,
     Commit (note_event 2 ''b''), CatchupMove 0, CatchupMove 0, CatchupMove 0, PublishAppend 2,
     TailerMove, TailerMove, TailerMove, TailerMove, TailerMove, Receive 0]"

lemmas action_simps = catchupMove_def tailerMove_def dispatchTo_def trySend_def blockingSend_def
  newSubscriber_def putSub_def unregisterSubscriber_def queryLog_def startHub_def Close_def note_event_def Let_def

lemma demoActions_run:
  "\<exists>s sub. runActions demoActions (startHub [note_event 1 ''a'']) = Some s \<and> map_of (heap s) 0 = Some sub \<and>
     committed s = [note_event 1 ''a'', note_event 2 ''b''] \<and> s_filter sub = Filter_zero \<and>
     0 \<in> set (subs s) \<and> \<not> isClosed sub \<and> tail s = Waiting \<and> cursor s = topPos s \<and> startPos sub = 0"
  by (simp add: demoActions_def action_simps topPos_def)


section \<open>What can be missed\<close>

text \<open>
  A log of 1000 notes of kind \<open>a\<close> and one of kind \<open>b\<close>, and a subscription to kind \<open>b\<close> from the start.
\<close>

definition longLog :: "event list" where
  "longLog = map (\<lambda>i. note_event (Suc i) ''a'') [0..<1000] @ [note_event 1001 ''b'']"

definition onlyB :: Filter where
  "onlyB = Filter_zero\<lparr>Kinds := [''b'']\<rparr>"

lemma onlyB_a: "\<not> Matches onlyB (note_event p ''a'')" "Matches onlyB (note_event p ''b'')"
  by (simp_all add: onlyB_def Matches_iff Filter_zero_def note_event_def)

lemma longLog_query: "queryLog 0 1001 (Matches onlyB) 1000 longLog = []"
proof -
  have "filter (\<lambda>e. 0 < Position e \<and> Position e \<le> 1001) longLog = longLog"
    by (auto simp: filter_id_conv longLog_def note_event_def)
  moreover have "take 1000 longLog = map (\<lambda>i. note_event (Suc i) ''a'') [0..<1000]"
    by (simp add: longLog_def)
  ultimately show ?thesis by (auto simp: queryLog_def filter_empty_conv onlyB_a)
qed

lemma longLog_ok: "sorted_wrt (<) (map Position longLog)" "\<forall>e \<in> set longLog. 0 < Position e"
  "longLog \<noteq> []" "Position (last longLog) = 1001" "note_event 1001 ''b'' \<in> set longLog"
  by (auto simp: longLog_def note_event_def sorted_wrt_append sorted_wrt_map)

definition longSub :: "nat \<Rightarrow> catchup \<Rightarrow> subscriber" where
  "longSub p ph = (newSubscriber ''ui'' onlyB 8 False 0)\<lparr>lastSent := p, phase := ph\<rparr>"

text \<open>
  The catch-up query applies the filter to at most 1000 rows, but takes an empty answer to mean
  that nothing up to the target matches: here a subscription is registered, open and caught up, and
  an event of the log above its start that matches its filter has not been sent and never will be.
\<close>

theorem catchup_skips_matching_event:
  "\<exists>s sub e. reach True s \<and> map_of (heap s) 0 = Some sub \<and> 0 \<in> set (subs s) \<and> \<not> isClosed sub \<and>
     tail s = Waiting \<and> cursor s = topPos s \<and> e \<in> set (committed s) \<and> startPos sub < Position e \<and>
     Matches (s_filter sub) e \<and> sentLog sub = [] \<and> Position e \<le> lastSent sub"
proof -
  let ?as = "[NewSubscription 0 ''ui'' onlyB 8 False 0, CatchupMove 0, CatchupMove 0, CatchupMove 0, CatchupMove 0]"
  let ?s = "(startHub longLog)\<lparr>subs := [0], heap := [(0, longSub 1001 Returned)]\<rparr>"
  have run: "runActions ?as (startHub longLog) = Some ?s"
    using longLog_query longLog_ok
    by (simp add: startHub_def catchupMove_def putSub_def longSub_def newSubscriber_def Let_def)
  have "reach True ?s"
    by (rule reach_runActions [OF reach.start run]) (use longLog_ok in simp_all)
  moreover have "Matches (s_filter (longSub 1001 Returned)) (note_event 1001 ''b'')"
    by (simp add: longSub_def newSubscriber_def onlyB_a)
  ultimately show ?thesis
    using longLog_ok
    by (intro exI [of _ ?s] exI [of _ "longSub 1001 Returned"] exI [of _ "note_event 1001 ''b''"])
       (simp add: startHub_def topPos_def longSub_def newSubscriber_def note_event_def)
qed

text \<open>
  \<open>AppendBatch\<close> assigns \<open>latestPosition\<close> without the guard that \<open>Append\<close> has. When a batch that
  committed first publishes last, the latest position goes back, a subscription made then registers
  below it, and although the tailer has passed every event of the log, a matching one is never sent.
\<close>

theorem batch_publish_race:
  "\<exists>s sub e. reach False s \<and> map_of (heap s) 0 = Some sub \<and> 0 \<in> set (subs s) \<and> \<not> isClosed sub \<and>
     s_filter sub = Filter_zero \<and> startPos sub = 0 \<and> tail s = Waiting \<and> cursor s = topPos s \<and>
     e \<in> set (committed s) \<and> e \<notin> set (sentLog sub) \<and> latest s < cursor s"
proof -
  let ?as = "[Commit (note_event 1 ''a''), Commit (note_event 2 ''b''), PublishAppend 2,
     TailerMove, TailerMove, TailerMove, TailerMove, TailerMove, TailerMove, PublishBatch 1,
     NewSubscription 0 ''ui'' Filter_zero 8 False 0, CatchupMove 0, CatchupMove 0, CatchupMove 0,
     CatchupMove 0, CatchupMove 0, CatchupMove 0]"
  have "\<exists>s sub. runActions ?as (startHub []) = Some s \<and> map_of (heap s) 0 = Some sub \<and> 0 \<in> set (subs s) \<and>
     \<not> isClosed sub \<and> s_filter sub = Filter_zero \<and> startPos sub = 0 \<and> tail s = Waiting \<and> cursor s = topPos s \<and>
     note_event 2 ''b'' \<in> set (committed s) \<and> note_event 2 ''b'' \<notin> set (sentLog sub) \<and> latest s < cursor s"
    by (simp add: action_simps topPos_def)
  moreover have "reach False s" if "runActions ?as (startHub []) = Some s" for s
    by (rule reach_runActions [OF reach.start that]) simp_all
  ultimately show ?thesis by blast
qed

text \<open>
  A subscription that is closed while its catch-up runs is registered after it was removed: the
  closed subscriber stays in the list that every dispatch walks.
\<close>

theorem closed_subscriber_registered:
  "\<exists>s sub. reach True s \<and> map_of (heap s) 0 = Some sub \<and> isClosed sub \<and> phase sub = Returned \<and> 0 \<in> set (subs s)"
proof -
  let ?as = "[NewSubscription 0 ''ui'' Filter_zero 8 False 0, CatchupMove 0, CloseSub 0, CatchupMove 0]"
  have "\<exists>s sub. runActions ?as (startHub []) = Some s \<and> map_of (heap s) 0 = Some sub \<and> isClosed sub \<and>
      phase sub = Returned \<and> 0 \<in> set (subs s)"
    by (simp add: action_simps)
  moreover have "reach True s" if "runActions ?as (startHub []) = Some s" for s
    by (rule reach_runActions [OF reach.start that]) simp_all
  ultimately show ?thesis by blast
qed

section \<open>Durable subscriptions\<close>

text \<open>
  Round trip of a durable cursor: once a position has been acknowledged, a later \<open>Subscribe\<close>
  under the same name starts there, whatever start position it asks for; this holds for every uint64
  position, although the column is a signed 64-bit integer.
\<close>

theorem Ack_Subscribe_roundtrip:
  assumes "Ack now sub p s = (Inr (), t)" "s_durable sub" "p < 2 ^ 64"
    and "Subscribe now' opts t = (Inr sub', u)" "so_Durable opts" "so_Name opts = s_name sub"
  shows "startPos sub' = p \<and> lastSent sub' = p \<and> s_durable sub' \<and> phase sub' = AtHead"
proof -
  have t: "\<exists>row. map_of (event_subscriptions (db t)) (s_name sub) = Some row \<and> sub_cursor row = int64_of (int p)"
    using assms(1,2)
    by (auto simp: Ack_def persistCursor_def bindS_def returnS_def failS_def wrapS_Inr_iff
        split: prod.splits sum.splits if_splits dest!: dbStmt_Inr_both)
  have nm: "s_name sub \<noteq> []" using assms(4-6) by (auto simp: Subscribe_def split: if_splits)
  with assms(4-6) obtain v where "loadDurableCursor now' (s_name sub) (so_FromPosition opts) t = (Inr (startPos sub'), v)"
    "lastSent sub' = startPos sub'" "s_durable sub'" "phase sub' = AtHead"
    by (auto simp: Subscribe_def Let_def bindS_def returnS_def newSubscriber_def split: prod.splits sum.splits if_splits)
  moreover from this(1) t assms(3) have "startPos sub' = p"
    by (auto simp: loadDurableCursor_def bindS_def returnS_def wrapS_Inr_iff split: prod.splits sum.splits option.splits
        dest!: dbQuery_Inr_both)
  ultimately show ?thesis by simp
qed

text \<open>A running store with one durable subscription, acknowledged beyond the signed range.\<close>

definition durableStore :: "(store_db, unit) store" where
  "durableStore = \<lparr>cfg = withDefaults \<lparr>SnapshotEveryEvents = 0, SnapshotEveryPeriod = 0, MaxSubscriberBuffer = 0,
              SnapshotRetainPerOwner = 0\<rparr>,
      db = \<lparr>events = [], sqlite_sequence = 0, snapshots = [], projection_cursors = [], skipped_events = [],
            event_subscriptions = [(''ui'', \<lparr>sub_cursor = 0, sub_created_at = 1, sub_last_active = 1\<rparr>)]\<rparr>,
      mem = (), faults = [], latestPosition = 0, started = True\<rparr>"

definition durableOptions :: SubscribeOptions where
  "durableOptions = \<lparr>so_FromPosition = 3, so_Filter = Filter_zero, so_Durable = True, so_Name = ''ui'', so_ChannelBuffer = 0\<rparr>"

lemma durable_run:
  "\<exists>t sub' u. Ack 2 (newSubscriber ''ui'' Filter_zero 8 True 0) (2 ^ 63 + 1) durableStore = (Inr (), t) \<and>
     Subscribe 3 durableOptions t = (Inr sub', u)"
  by (simp add: Ack_def persistCursor_def durableStore_def bindS_def returnS_def wrapS_def dbStmt_def newSubscriber_def
      Subscribe_def durableOptions_def loadDurableCursor_def dbQuery_def Let_def)

theorem Ack_Subscribe_roundtrip_witness:
  "\<exists>t sub' u. Ack 2 (newSubscriber ''ui'' Filter_zero 8 True 0) (2 ^ 63 + 1) durableStore = (Inr (), t) \<and>
     Subscribe 3 durableOptions t = (Inr sub', u) \<and> lastSent sub' = 2 ^ 63 + 1"
proof -
  obtain t sub' u where r: "Ack 2 (newSubscriber ''ui'' Filter_zero 8 True 0) (2 ^ 63 + 1) durableStore = (Inr (), t)"
     "Subscribe 3 durableOptions t = (Inr sub', u)"
    using durable_run by blast
  have "lastSent sub' = 2 ^ 63 + 1"
    using Ack_Subscribe_roundtrip [OF r(1) _ _ r(2)] by (simp add: newSubscriber_def durableOptions_def)
  with r show ?thesis by blast
qed

end
