(* ===== verification/Graph_Walk.thy ===== *)
theory Graph_Walk
  imports Switchyard_Prelude
begin

text \<open>
  Depth-first walks over a finite graph given by successor lists, as the policy compiler makes them
  over the area tree and over the role graph. The interface: a walk from a root adds to the set of
  visited nodes only nodes reachable from the root, and leaves no successor of an added node out.
\<close>

definition edges :: "('a \<Rightarrow> 'a list) \<Rightarrow> ('a \<times> 'a) set" where
  "edges succ = {(x, y). y \<in> set (succ x)}"

definition closed_under :: "('a \<Rightarrow> 'a list) \<Rightarrow> 'a set \<Rightarrow> bool" where
  "closed_under succ s \<longleftrightarrow> (\<forall>x \<in> s. set (succ x) \<subseteq> s)"

lemma closed_under_reach:
  assumes "closed_under succ s" "x \<in> s" "(x, y) \<in> (edges succ)\<^sup>*"
  shows "y \<in> s"
  using assms(3,1,2) by (induction rule: rtrancl_induct) (auto simp: closed_under_def edges_def)

lemma edges_step: "y \<in> set (succ x) \<Longrightarrow> (x, y) \<in> edges succ"
  by (simp add: edges_def)

locale graph_walk =
  fixes succ :: "'a \<Rightarrow> 'a list"
    and walk :: "'a \<Rightarrow> 'a set \<Rightarrow> 'a set \<Rightarrow> bool"
  assumes walk_grows: "walk r out out' \<Longrightarrow> insert r out \<subseteq> out'"
    and walk_new: "walk r out out' \<Longrightarrow> x \<in> out' \<Longrightarrow> x \<notin> out \<Longrightarrow>
      (r, x) \<in> (edges succ)\<^sup>* \<and> set (succ x) \<subseteq> out'"
begin

lemma walk_closed: "walk r out out' \<Longrightarrow> closed_under succ out \<Longrightarrow> closed_under succ out'"
  unfolding closed_under_def using walk_grows walk_new by blast

lemma walk_reaches:
  assumes "walk r out out'" "closed_under succ out"
  shows "out' = out \<union> (edges succ)\<^sup>* `` {r}"
proof
  show "out' \<subseteq> out \<union> (edges succ)\<^sup>* `` {r}" using walk_new [OF assms(1)] by blast
  have "r \<in> out'" using walk_grows [OF assms(1)] by blast
  then have "(edges succ)\<^sup>* `` {r} \<subseteq> out'"
    using closed_under_reach [OF walk_closed [OF assms]] by blast
  then show "out \<union> (edges succ)\<^sup>* `` {r} \<subseteq> out'" using walk_grows [OF assms(1)] by blast
qed

text \<open>A sequence of walks from several roots.\<close>

inductive walks :: "'a list \<Rightarrow> 'a set \<Rightarrow> 'a set \<Rightarrow> bool" where
  walks_Nil: "walks [] out out"
| walks_Cons: "walk r out out1 \<Longrightarrow> walks rs out1 out' \<Longrightarrow> walks (r # rs) out out'"

lemma walks_reach:
  "walks rs out out' \<Longrightarrow> closed_under succ out \<Longrightarrow>
     out' = out \<union> (edges succ)\<^sup>* `` set rs \<and> closed_under succ out'"
proof (induction rule: walks.induct)
  case (walks_Cons r out out1 rs out')
  have c: "closed_under succ out1" "out1 = out \<union> (edges succ)\<^sup>* `` {r}"
    using walk_closed [OF walks_Cons(1,4)] walk_reaches [OF walks_Cons(1,4)] by auto
  with walks_Cons.IH show ?case by auto
qed simp

end

end
