(* ===== verification/Policy_Compiler.thy ===== *)
theory Policy_Compiler
  imports Graph_Walk "HOL-Library.List_Lexorder" "HOL-Library.Char_ord"
begin

text \<open>
  Compiling policies, \<^verbatim>\<open>internal/policy\<close>: the compiled artifact (\<^verbatim>\<open>schema.go\<close>), selectors and the
  expansion of areas (\<^verbatim>\<open>selector.go\<close>), role inheritance and rules (\<^verbatim>\<open>compiler.go\<close>). A Go set, a map to
  the empty struct, is a set; the maps of the artifact are maps; the maps that the code ranges over
  are association lists, in the order of that range.
\<close>

section \<open>The artifact\<close>

type_synonym Verb = string
type_synonym RoleSlug = string
type_synonym ActionKey = string
type_synonym AreaSlug = string
type_synonym SelectorHash = string

definition AllVerbs :: "Verb list" where
  "AllVerbs = [''read'', ''call'', ''write'', ''admin'']"

record CompiledSelector =
  Hash :: SelectorHash
  AreaSet :: "AreaSlug set"
  ClassSet :: "string set"
  EntitySet :: "string set"
  MatchAny :: bool

record CompiledRule =
  PolicyName :: string
  Verbs :: "Verb set"
  Services :: "string set"
  Targets :: CompiledSelector

record Compiled =
  Generation :: nat
  ActionAllowlist :: "RoleSlug \<times> Verb \<rightharpoonup> ActionKey set"
  AllowRules :: "RoleSlug \<Rightarrow> CompiledRule list"
  DenyRules :: "RoleSlug \<Rightarrow> CompiledRule list"
  AreaExpansion :: "SelectorHash \<rightharpoonup> AreaSlug set"
  RoleInheritance :: "(RoleSlug \<times> RoleSlug set) list"

definition permitsAction :: "Compiled option \<Rightarrow> RoleSlug \<Rightarrow> Verb \<Rightarrow> ActionKey \<Rightarrow> bool" where
  "permitsAction c role verb key =
     (case c of
        None \<Rightarrow> False
      | Some c' \<Rightarrow> (case ActionAllowlist c' (role, verb) of None \<Rightarrow> False | Some s \<Rightarrow> key \<in> s))"

definition MakeActionKey :: "string \<Rightarrow> string \<Rightarrow> ActionKey" where
  "MakeActionKey service meth = service @ ''.'' @ meth"

text \<open>
  The bytes that \<open>HashSelector\<close> feeds to SHA-256; the hash and its hexadecimal notation are the
  parameter \<open>sha\<close>. The last eight bytes are the number of items, big endian.
\<close>

definition writeItems :: "string \<Rightarrow> string list \<Rightarrow> bytes" where
  "writeItems label items =
     label @ [CHR 0x00] @ concat (map (\<lambda>s. s @ [CHR 0x00]) (sort items)) @ [CHR 0x01]"

definition bigEndian64 :: "nat \<Rightarrow> bytes" where
  "bigEndian64 n = map (\<lambda>i. char_of (n div 256 ^ i)) (rev [0..<8])"

definition HashSelector :: "(bytes \<Rightarrow> SelectorHash) \<Rightarrow> string list \<Rightarrow> string list \<Rightarrow> string list \<Rightarrow> SelectorHash" where
  "HashSelector sha areas classes entityIDs =
     sha (writeItems ''a'' areas @ writeItems ''c'' classes @ writeItems ''e'' entityIDs @
          bigEndian64 (length areas + length classes + length entityIDs))"

section \<open>Selectors and areas\<close>

record Target =
  t_Kind :: string
  t_ID :: string
  t_Area :: AreaSlug
  t_Class :: string

record AreaTree =
  Children :: "(AreaSlug \<times> AreaSlug list) list"
  Parent :: "(AreaSlug \<times> AreaSlug) list"

definition SelectorMatches :: "CompiledSelector \<Rightarrow> Target \<Rightarrow> bool" where
  "SelectorMatches sel t =
     (if MatchAny sel then True
      else if AreaSet sel \<noteq> {} \<and> t_Area t \<in> AreaSet sel then True
      else if ClassSet sel \<noteq> {} \<and> t_Class t \<in> ClassSet sel then True
      else if EntitySet sel \<noteq> {} \<and> t_ID t \<in> EntitySet sel then True
      else False)"

definition childrenOf :: "AreaTree \<Rightarrow> AreaSlug \<Rightarrow> AreaSlug list" where
  "childrenOf tree a = (case map_of (Children tree) a of None \<Rightarrow> [] | Some cs \<Rightarrow> cs)"

text \<open>
  The recursion of \<open>walkDescendants\<close> and its loop over the children. The first argument bounds the
  depth; \<open>None\<close> says that the bound was reached.
\<close>

fun walkDescendants :: "nat \<Rightarrow> AreaTree \<Rightarrow> AreaSlug \<Rightarrow> AreaSlug set \<Rightarrow> AreaSlug set option"
  and walkChildren :: "nat \<Rightarrow> AreaTree \<Rightarrow> AreaSlug list \<Rightarrow> AreaSlug set \<Rightarrow> AreaSlug set option" where
  "walkDescendants 0 tree root out = None"
| "walkDescendants (Suc n) tree root out =
     (if root \<in> out then Some out
      else walkChildren n tree (childrenOf tree root) (insert root out))"
| "walkChildren n tree [] out = Some out"
| "walkChildren n tree (c # cs) out =
     (case walkDescendants n tree c out of None \<Rightarrow> None | Some out' \<Rightarrow> walkChildren n tree cs out')"

definition areaNodes :: "AreaTree \<Rightarrow> AreaSlug set" where
  "areaNodes tree = set (map fst (Children tree)) \<union> set (concat (map snd (Children tree)))"

definition areaDepth :: "AreaTree \<Rightarrow> nat" where
  "areaDepth tree = Suc (length (Children tree) + length (concat (map snd (Children tree))))"

definition expandDecl :: "AreaTree \<Rightarrow> string \<Rightarrow> AreaSlug set \<Rightarrow> AreaSlug set option" where
  "expandDecl tree d out =
     (if d = ''*'' then walkChildren (areaDepth tree) tree (map fst (Children tree)) out
      else if map_of (Children tree) d = None then Some out
      else walkDescendants (areaDepth tree) tree d out)"

fun ExpandAreas_from :: "AreaTree \<Rightarrow> string list \<Rightarrow> AreaSlug set \<Rightarrow> AreaSlug set option" where
  "ExpandAreas_from tree [] out = Some out"
| "ExpandAreas_from tree (d # ds) out =
     (case expandDecl tree d out of None \<Rightarrow> None | Some out' \<Rightarrow> ExpandAreas_from tree ds out')"

definition ExpandAreas :: "AreaTree \<Rightarrow> string list \<Rightarrow> AreaSlug set option" where
  "ExpandAreas tree decls = ExpandAreas_from tree decls {}"

text \<open>What the expansion denotes.\<close>

definition areaEdges :: "AreaTree \<Rightarrow> (AreaSlug \<times> AreaSlug) set" where
  "areaEdges tree = edges (childrenOf tree)"

definition declRoots :: "AreaTree \<Rightarrow> string \<Rightarrow> AreaSlug set" where
  "declRoots tree d = (if d = ''*'' then set (map fst (Children tree))
     else if d \<in> set (map fst (Children tree)) then {d} else {})"

lemma area_walk_grows:
  "walkDescendants n tree root out = Some out' \<Longrightarrow> insert root out \<subseteq> out'"
  "walkChildren n tree cs out = Some out' \<Longrightarrow> set cs \<union> out \<subseteq> out'"
  by (induction n tree root out and n tree cs out arbitrary: out' and out'
      rule: walkDescendants_walkChildren.induct)
     (force split: if_splits option.splits)+

lemma area_walk_new:
  "walkDescendants n tree root out = Some out' \<Longrightarrow> x \<in> out' \<Longrightarrow> x \<notin> out \<Longrightarrow>
     (root, x) \<in> (areaEdges tree)\<^sup>* \<and> set (childrenOf tree x) \<subseteq> out'"
  "walkChildren n tree cs out = Some out' \<Longrightarrow> x \<in> out' \<Longrightarrow> x \<notin> out \<Longrightarrow>
     (\<exists>c \<in> set cs. (c, x) \<in> (areaEdges tree)\<^sup>*) \<and> set (childrenOf tree x) \<subseteq> out'"
proof (induction n tree root out and n tree cs out arbitrary: out' and out'
      rule: walkDescendants_walkChildren.induct)
  case (2 n tree root out)
  then have w: "walkChildren n tree (childrenOf tree root) (insert root out) = Some out'" "root \<notin> out"
    by (auto split: if_splits)
  show ?case
  proof (cases "x = root")
    case True
    with area_walk_grows(2) [OF w(1)] show ?thesis by auto
  next
    case False
    with 2 w obtain c where c: "c \<in> set (childrenOf tree root)" "(c, x) \<in> (areaEdges tree)\<^sup>*"
        "set (childrenOf tree x) \<subseteq> out'" by auto
    then have "(root, c) \<in> areaEdges tree" by (simp add: areaEdges_def edges_step)
    with c show ?thesis by (auto intro: converse_rtrancl_into_rtrancl)
  qed
next
  case (4 n tree c cs out)
  then obtain out1 where o: "walkDescendants n tree c out = Some out1" "walkChildren n tree cs out1 = Some out'"
    by (auto split: option.splits)
  show ?case
  proof (cases "x \<in> out1")
    case True
    with 4 o area_walk_grows(2) [OF o(2)] show ?thesis by fastforce
  next
    case False
    with 4 o show ?thesis by fastforce
  qed
qed auto

interpretation area_walk: graph_walk "childrenOf tree" "\<lambda>r out out'. \<exists>n. walkDescendants n tree r out = Some out'" for tree
proof
  fix r out out' assume "\<exists>n. walkDescendants n tree r out = Some out'"
  then show "insert r out \<subseteq> out'" using area_walk_grows(1) by blast
next
  fix r out out' x assume "\<exists>n. walkDescendants n tree r out = Some out'" "x \<in> out'" "x \<notin> out"
  then show "(r, x) \<in> (edges (childrenOf tree))\<^sup>* \<and> set (childrenOf tree x) \<subseteq> out'"
    using area_walk_new(1) unfolding areaEdges_def by blast
qed

text \<open>The bound on the depth is never reached: every level adds a node.\<close>

lemma childrenOf_nodes: "set (childrenOf tree a) \<subseteq> areaNodes tree"
  by (cases "map_of (Children tree) a") (fastforce simp: childrenOf_def areaNodes_def dest: map_of_SomeD)+

lemma finite_areaNodes [simp]: "finite (areaNodes tree)"
  by (simp add: areaNodes_def)

lemma card_areaNodes: "card (areaNodes tree) < areaDepth tree"
proof -
  have "card (areaNodes tree) \<le> length (map fst (Children tree)) + length (concat (map snd (Children tree)))"
    unfolding areaNodes_def by (meson add_mono card_Un_le card_length le_trans)
  then show ?thesis by (simp add: areaDepth_def)
qed

lemma walk_enough:
  "root \<in> areaNodes tree \<Longrightarrow> card (areaNodes tree - out) < n \<Longrightarrow> \<exists>out'. walkDescendants n tree root out = Some out'"
  "set cs \<subseteq> areaNodes tree \<Longrightarrow> card (areaNodes tree - out) < n \<Longrightarrow> \<exists>out'. walkChildren n tree cs out = Some out'"
proof (induction n tree root out and n tree cs out rule: walkDescendants_walkChildren.induct)
  case (2 n tree root out)
  show ?case
  proof (cases "root \<in> out")
    case False
    have "areaNodes tree - insert root out \<subset> areaNodes tree - out" using False 2(2) by blast
    then have "card (areaNodes tree - insert root out) < card (areaNodes tree - out)"
      by (intro psubset_card_mono) simp_all
    with 2 False childrenOf_nodes show ?thesis by simp
  qed simp
next
  case (4 n tree c cs out)
  then obtain out1 where o: "walkDescendants n tree c out = Some out1" by auto
  have "card (areaNodes tree - out1) \<le> card (areaNodes tree - out)"
    using area_walk_grows(1) [OF o] by (intro card_mono) auto
  with 4 o show ?case by simp
qed auto

lemma walk_depth:
  "root \<in> areaNodes tree \<Longrightarrow> \<exists>out'. walkDescendants (areaDepth tree) tree root out = Some out'"
  "set cs \<subseteq> areaNodes tree \<Longrightarrow> \<exists>out'. walkChildren (areaDepth tree) tree cs out = Some out'"
  using card_areaNodes [of tree] card_mono [of "areaNodes tree" "areaNodes tree - out"]
  by (auto intro!: walk_enough)

lemma walkChildren_walks:
  "walkChildren n tree cs out = Some out' \<Longrightarrow> area_walk.walks tree cs out out'"
  by (induction cs arbitrary: out) (auto split: option.splits intro: area_walk.walks.intros)

lemma expandDecl_reach:
  assumes "closed_under (childrenOf tree) out"
  shows "\<exists>out'. expandDecl tree d out = Some out' \<and> closed_under (childrenOf tree) out' \<and>
    out' = out \<union> (areaEdges tree)\<^sup>* `` declRoots tree d"
proof (cases "d = ''*''")
  case True
  obtain out' where o: "walkChildren (areaDepth tree) tree (map fst (Children tree)) out = Some out'"
    using walk_depth(2) [of "map fst (Children tree)" tree out] by (auto simp: areaNodes_def)
  from area_walk.walks_reach [OF walkChildren_walks [OF o] assms] o True show ?thesis
    by (auto simp: expandDecl_def declRoots_def areaEdges_def)
next
  case False
  show ?thesis
  proof (cases "map_of (Children tree) d")
    case None
    then have "d \<notin> set (map fst (Children tree))" by (simp add: map_of_eq_None_iff)
    with None False assms show ?thesis by (simp add: expandDecl_def declRoots_def)
  next
    case (Some cs)
    then have d: "d \<in> set (map fst (Children tree))" by (metis list.set_map domI dom_map_of_conv_image_fst)
    then have "d \<in> areaNodes tree" by (simp add: areaNodes_def)
    then obtain out' where o: "walkDescendants (areaDepth tree) tree d out = Some out'" using walk_depth(1) by blast
    then have w: "\<exists>n. walkDescendants n tree d out = Some out'" by blast
    show ?thesis
      using area_walk.walk_reaches [OF w assms] area_walk.walk_closed [OF w assms] o d False Some
      by (auto simp: expandDecl_def declRoots_def areaEdges_def)
  qed
qed

lemma ExpandAreas_from_reach:
  "closed_under (childrenOf tree) out \<Longrightarrow>
     ExpandAreas_from tree ds out = Some (out \<union> (areaEdges tree)\<^sup>* `` (\<Union>d \<in> set ds. declRoots tree d))"
proof (induction ds arbitrary: out)
  case (Cons d ds)
  obtain out' where o: "expandDecl tree d out = Some out'" "closed_under (childrenOf tree) out'"
      "out' = out \<union> (areaEdges tree)\<^sup>* `` declRoots tree d"
    using expandDecl_reach [OF Cons.prems] by blast
  with Cons.IH [OF o(2)] show ?case by (auto simp: Image_Un Un_assoc)
qed simp

lemma ExpandAreas_eq:
  "ExpandAreas tree ds = Some ((areaEdges tree)\<^sup>* `` (\<Union>d \<in> set ds. declRoots tree d))"
  by (simp add: ExpandAreas_def ExpandAreas_from_reach closed_under_def)

section \<open>Role inheritance\<close>

record RoleNode =
  rn_Slug :: RoleSlug
  rn_Inherits :: "RoleSlug list"

type_synonym RoleGraph = "(RoleSlug \<times> RoleNode) list"

definition inheritsOf :: "RoleGraph \<Rightarrow> RoleSlug \<Rightarrow> RoleSlug list" where
  "inheritsOf g s = (case map_of g s of None \<Rightarrow> [] | Some n \<Rightarrow> rn_Inherits n)"

text \<open>
  The recursive closure \<open>visit\<close> and its loop over the parents, with the bound on the depth. \<open>path\<close> is
  the set of roles whose visit is under way.
\<close>

fun visit :: "nat \<Rightarrow> RoleGraph \<Rightarrow> RoleSlug \<Rightarrow> RoleSlug set \<Rightarrow> RoleSlug set \<Rightarrow> (error + RoleSlug set) option"
  and visitAll :: "nat \<Rightarrow> RoleGraph \<Rightarrow> RoleSlug list \<Rightarrow> RoleSlug set \<Rightarrow> RoleSlug set \<Rightarrow> (error + RoleSlug set) option"
where
  "visit 0 g s path seen = None"
| "visit (Suc n) g s path seen =
     (if s \<in> path then Some (Inl (''policy: role inheritance cycle through '' @ quoted s))
      else if s \<in> seen then Some (Inr seen)
      else visitAll n g (inheritsOf g s) (insert s path) (insert s seen))"
| "visitAll n g [] path seen = Some (Inr seen)"
| "visitAll n g (p # ps) path seen =
     (case visit n g p path seen of
        Some (Inr seen') \<Rightarrow> visitAll n g ps path seen'
      | r \<Rightarrow> r)"

definition roleDepth :: "RoleGraph \<Rightarrow> nat" where
  "roleDepth g = Suc (Suc (length g + length (concat (map (rn_Inherits \<circ> snd) g))))"

fun resolveEach :: "RoleGraph \<Rightarrow> RoleSlug list \<Rightarrow> (error + (RoleSlug \<times> RoleSlug set) list) option" where
  "resolveEach g [] = Some (Inr [])"
| "resolveEach g (slug # slugs) =
     (case visit (roleDepth g) g slug {} {} of
        None \<Rightarrow> None
      | Some (Inl e) \<Rightarrow> Some (Inl e)
      | Some (Inr seen) \<Rightarrow>
          (case resolveEach g slugs of
             Some (Inr out) \<Rightarrow> Some (Inr ((slug, seen) # out))
           | r \<Rightarrow> r))"

definition resolveRoleInheritance :: "RoleGraph \<Rightarrow> (error + (RoleSlug \<times> RoleSlug set) list) option" where
  "resolveRoleInheritance g = resolveEach g (map fst g)"

definition roleEdges :: "RoleGraph \<Rightarrow> (RoleSlug \<times> RoleSlug) set" where
  "roleEdges g = edges (inheritsOf g)"

lemma visit_grows:
  "visit n g s path seen = Some (Inr seen') \<Longrightarrow> insert s seen \<subseteq> seen'"
  "visitAll n g ps path seen = Some (Inr seen') \<Longrightarrow> set ps \<union> seen \<subseteq> seen'"
  by (induction n g s path seen and n g ps path seen arbitrary: seen' and seen' rule: visit_visitAll.induct)
     (force split: if_splits option.splits sum.splits)+

lemma visit_new:
  "visit n g s path seen = Some (Inr seen') \<Longrightarrow> x \<in> seen' \<Longrightarrow> x \<notin> seen \<Longrightarrow>
     (s, x) \<in> (roleEdges g)\<^sup>* \<and> set (inheritsOf g x) \<subseteq> seen'"
  "visitAll n g ps path seen = Some (Inr seen') \<Longrightarrow> x \<in> seen' \<Longrightarrow> x \<notin> seen \<Longrightarrow>
     (\<exists>p \<in> set ps. (p, x) \<in> (roleEdges g)\<^sup>*) \<and> set (inheritsOf g x) \<subseteq> seen'"
proof (induction n g s path seen and n g ps path seen arbitrary: seen' and seen' rule: visit_visitAll.induct)
  case (2 n g s path seen)
  show ?case
  proof (cases "x = s")
    case True
    with 2 visit_grows(2) [of n g "inheritsOf g s" "insert s path" "insert s seen" seen'] show ?thesis
      by (auto split: if_splits)
  next
    case False
    with 2 obtain p where p: "p \<in> set (inheritsOf g s)" "(p, x) \<in> (roleEdges g)\<^sup>*" "set (inheritsOf g x) \<subseteq> seen'"
      by (auto split: if_splits)
    then have "(s, p) \<in> roleEdges g" by (simp add: roleEdges_def edges_step)
    with p show ?thesis by (auto intro: converse_rtrancl_into_rtrancl)
  qed
next
  case (4 n g p ps path seen)
  then obtain seen1 where o: "visit n g p path seen = Some (Inr seen1)" "visitAll n g ps path seen1 = Some (Inr seen')"
    by (auto split: option.splits sum.splits)
  show ?case
  proof (cases "x \<in> seen1")
    case True
    with 4 o visit_grows(2) [OF o(2)] show ?thesis by fastforce
  next
    case False
    with 4 o show ?thesis by fastforce
  qed
qed auto

interpretation role_walk: graph_walk "inheritsOf g"
  "\<lambda>s seen seen'. \<exists>n path. visit n g s path seen = Some (Inr seen')" for g
proof
  fix s seen seen' assume "\<exists>n path. visit n g s path seen = Some (Inr seen')"
  then show "insert s seen \<subseteq> seen'" using visit_grows(1) by blast
next
  fix s seen seen' x assume "\<exists>n path. visit n g s path seen = Some (Inr seen')" "x \<in> seen'" "x \<notin> seen"
  then show "(s, x) \<in> (edges (inheritsOf g))\<^sup>* \<and> set (inheritsOf g x) \<subseteq> seen'"
    using visit_new(1) unfolding roleEdges_def by blast
qed

text \<open>The roles that are seen and no longer on the path: their parents are too, and none is on a cycle.\<close>

definition done_ok :: "RoleGraph \<Rightarrow> RoleSlug set \<Rightarrow> bool" where
  "done_ok g d \<longleftrightarrow> closed_under (inheritsOf g) d \<and> (\<forall>x \<in> d. (x, x) \<notin> (roleEdges g)\<^sup>+)"

lemma done_ok_insert:
  assumes "done_ok g d" "s \<notin> d" "set (inheritsOf g s) \<subseteq> d"
  shows "done_ok g (insert s d)"
proof -
  have "(s, s) \<notin> (roleEdges g)\<^sup>+"
  proof
    assume "(s, s) \<in> (roleEdges g)\<^sup>+"
    then obtain y where "(s, y) \<in> roleEdges g" "(y, s) \<in> (roleEdges g)\<^sup>*" by (meson tranclD)
    then have "y \<in> d" "(y, s) \<in> (edges (inheritsOf g))\<^sup>*" using assms(3) by (auto simp: roleEdges_def edges_def)
    with assms(1) have "s \<in> d" by (auto simp: done_ok_def intro: closed_under_reach)
    with assms(2) show False by simp
  qed
  with assms show ?thesis by (auto simp: done_ok_def closed_under_def)
qed

lemma visit_done:
  "visit n g s path seen = Some (Inr seen') \<Longrightarrow> path \<subseteq> seen \<Longrightarrow> done_ok g (seen - path) \<Longrightarrow>
     s \<in> seen' - path \<and> done_ok g (seen' - path)"
  "visitAll n g ps path seen = Some (Inr seen') \<Longrightarrow> path \<subseteq> seen \<Longrightarrow> done_ok g (seen - path) \<Longrightarrow>
     set ps \<subseteq> seen' - path \<and> done_ok g (seen' - path)"
proof (induction n g s path seen and n g ps path seen arbitrary: seen' and seen' rule: visit_visitAll.induct)
  case (2 n g s path seen)
  show ?case
  proof (cases "s \<in> seen")
    case False
    have s: "s \<notin> path" and v: "visitAll n g (inheritsOf g s) (insert s path) (insert s seen) = Some (Inr seen')"
      using 2(2) False by (auto split: if_splits)
    have "insert s seen - insert s path = seen - path" using False s by blast
    then have "set (inheritsOf g s) \<subseteq> seen' - insert s path \<and> done_ok g (seen' - insert s path)"
      using 2 False s v by auto
    moreover have "seen' - path = insert s (seen' - insert s path)"
      using visit_grows(2) [OF v] s by blast
    ultimately show ?thesis using done_ok_insert [of g "seen' - insert s path" s] s by auto
  qed (use 2 in \<open>auto split: if_splits\<close>)
next
  case (4 n g p ps path seen)
  then obtain seen1 where o: "visit n g p path seen = Some (Inr seen1)" "visitAll n g ps path seen1 = Some (Inr seen')"
    by (auto split: option.splits sum.splits)
  have "path \<subseteq> seen1" "p \<in> seen1 - path" "done_ok g (seen1 - path)"
    using 4 o visit_grows(1) [OF o(1)] by auto
  with 4 o visit_grows(2) [OF o(2)] show ?case by auto
qed auto

lemma visit_cycle:
  "visit n g s path seen = Some (Inl e) \<Longrightarrow> \<forall>p \<in> path. (p, s) \<in> (roleEdges g)\<^sup>+ \<Longrightarrow>
     \<exists>x. (x, x) \<in> (roleEdges g)\<^sup>+"
  "visitAll n g ps path seen = Some (Inl e) \<Longrightarrow> \<forall>q \<in> set ps. \<forall>p \<in> path. (p, q) \<in> (roleEdges g)\<^sup>+ \<Longrightarrow>
     \<exists>x. (x, x) \<in> (roleEdges g)\<^sup>+"
proof (induction n g s path seen and n g ps path seen rule: visit_visitAll.induct)
  case (2 n g s path seen)
  show ?case
  proof (cases "s \<in> path")
    case False
    have "\<forall>q \<in> set (inheritsOf g s). \<forall>p \<in> insert s path. (p, q) \<in> (roleEdges g)\<^sup>+"
      using 2(3) by (auto simp: roleEdges_def edges_step intro: trancl_into_trancl)
    with 2 False show ?thesis by (auto split: if_splits)
  qed (use 2 in auto)
next
  case (4 n g p ps path seen)
  then show ?case by (auto split: option.splits sum.splits)
qed auto

definition roleNodes :: "RoleGraph \<Rightarrow> RoleSlug set" where
  "roleNodes g = set (map fst g) \<union> set (concat (map (rn_Inherits \<circ> snd) g))"

lemma inheritsOf_nodes: "set (inheritsOf g s) \<subseteq> roleNodes g"
  by (cases "map_of g s") (fastforce simp: inheritsOf_def roleNodes_def dest: map_of_SomeD)+

lemma card_roleNodes: "card (roleNodes g - path) < roleDepth g"
proof -
  have "card (roleNodes g) \<le> length (map fst g) + length (concat (map (rn_Inherits \<circ> snd) g))"
    unfolding roleNodes_def by (meson add_mono card_Un_le card_length le_trans)
  moreover have "card (roleNodes g - path) \<le> card (roleNodes g)"
    by (rule card_mono) (auto simp: roleNodes_def)
  ultimately show ?thesis by (simp add: roleDepth_def)
qed

lemma visit_enough:
  "s \<in> roleNodes g \<Longrightarrow> card (roleNodes g - path) < n \<Longrightarrow> visit n g s path seen \<noteq> None"
  "set ps \<subseteq> roleNodes g \<Longrightarrow> card (roleNodes g - path) < n \<Longrightarrow> visitAll n g ps path seen \<noteq> None"
proof (induction n g s path seen and n g ps path seen rule: visit_visitAll.induct)
  case (2 n g s path seen)
  show ?case
  proof (cases "s \<in> path")
    case False
    have "roleNodes g - insert s path \<subset> roleNodes g - path" using False 2(2) by blast
    then have "card (roleNodes g - insert s path) < card (roleNodes g - path)"
      by (intro psubset_card_mono) (auto simp: roleNodes_def)
    with 2 False inheritsOf_nodes show ?thesis by simp
  qed simp
next
  case (4 n g p ps path seen)
  then show ?case by (auto split: option.splits sum.splits)
qed auto

text \<open>A visit from the top: it reports a cycle, or returns everything the role inherits.\<close>

lemma visit_top:
  assumes "slug \<in> set (map fst g)"
  shows "(\<exists>e. visit (roleDepth g) g slug {} {} = Some (Inl e) \<and> \<not> acyclic (roleEdges g)) \<or>
    visit (roleDepth g) g slug {} {} = Some (Inr ((roleEdges g)\<^sup>* `` {slug})) \<and>
      (slug, slug) \<notin> (roleEdges g)\<^sup>+"
proof -
  have "slug \<in> roleNodes g" using assms by (simp add: roleNodes_def)
  then obtain r where r: "visit (roleDepth g) g slug {} {} = Some r"
    using visit_enough(1) [of slug g "{}"] card_roleNodes [of g "{}"] by fastforce
  show ?thesis
  proof (cases r)
    case (Inl e)
    with r visit_cycle(1) show ?thesis unfolding acyclic_def by fastforce
  next
    case (Inr seen)
    then have w: "\<exists>n path. visit n g slug path {} = Some (Inr seen)" using r by blast
    have "seen = (roleEdges g)\<^sup>* `` {slug}"
      using role_walk.walk_reaches [OF w] by (simp add: closed_under_def roleEdges_def)
    moreover have "slug \<in> seen - {} \<and> done_ok g (seen - {})"
      using visit_done(1) [OF r [unfolded Inr]] by (simp add: done_ok_def closed_under_def)
    ultimately show ?thesis using r Inr by (auto simp: done_ok_def)
  qed
qed

lemma roleEdges_source: "(x, y) \<in> roleEdges g \<Longrightarrow> x \<in> set (map fst g)"
  by (cases "map_of g x") (force simp: roleEdges_def edges_def inheritsOf_def dest: map_of_SomeD)+

lemma acyclic_roles: "acyclic (roleEdges g) \<longleftrightarrow> (\<forall>s \<in> set (map fst g). (s, s) \<notin> (roleEdges g)\<^sup>+)"
proof -
  have "x \<in> set (map fst g)" if "(x, x) \<in> (roleEdges g)\<^sup>+" for x
    using that by (meson roleEdges_source tranclD)
  then show ?thesis unfolding acyclic_def by blast
qed

lemma resolveEach_spec:
  assumes "set slugs \<subseteq> set (map fst g)"
  shows "(\<exists>e. resolveEach g slugs = Some (Inl e) \<and> \<not> acyclic (roleEdges g)) \<or>
    resolveEach g slugs = Some (Inr (map (\<lambda>s. (s, (roleEdges g)\<^sup>* `` {s})) slugs)) \<and>
      (\<forall>s \<in> set slugs. (s, s) \<notin> (roleEdges g)\<^sup>+)"
  using assms
proof (induction slugs)
  case (Cons slug slugs)
  from Cons.prems visit_top [of slug g] consider
    e where "visit (roleDepth g) g slug {} {} = Some (Inl e)" "\<not> acyclic (roleEdges g)"
  | "visit (roleDepth g) g slug {} {} = Some (Inr ((roleEdges g)\<^sup>* `` {slug}))" "(slug, slug) \<notin> (roleEdges g)\<^sup>+"
    by auto
  then show ?case
  proof cases
    case 2
    with Cons show ?thesis by fastforce
  qed simp
qed simp

text \<open>
  C22. Role inheritance is resolved correctly for every role graph: the depth-first search always
  ends; it reports a cycle exactly when the graph has one; and otherwise every role is mapped to the
  set of all roles it inherits transitively, itself included.
\<close>

theorem resolveRoleInheritance_correct:
  "(if acyclic (roleEdges g)
    then resolveRoleInheritance g = Some (Inr (map (\<lambda>s. (s, (roleEdges g)\<^sup>* `` {s})) (map fst g)))
    else \<exists>e. resolveRoleInheritance g = Some (Inl e))"
  using resolveEach_spec [of "map fst g" g] acyclic_roles [of g]
  by (auto simp: resolveRoleInheritance_def)

section \<open>Compiling rules\<close>

record RawSelector =
  rs_Areas :: "string list"
  rs_Classes :: "string list"
  rs_EntityIDs :: "string list"
  rs_MatchAny :: bool

record RawRule =
  rr_Verbs :: "Verb list"
  rr_Targets :: RawSelector
  rr_Services :: "string list"

record RawPolicy =
  rp_Name :: string
  rp_Subjects :: "RoleSlug list"
  rp_Allow :: "RawRule list"
  rp_Deny :: "RawRule list"

record CatalogAction =
  ca_Service :: string
  ca_Method :: string
  ca_Verb :: Verb
  ca_IsEntity :: bool

definition selectorIsEmpty :: "CompiledSelector \<Rightarrow> bool" where
  "selectorIsEmpty cs \<longleftrightarrow> \<not> MatchAny cs \<and> AreaSet cs = {} \<and> ClassSet cs = {} \<and> EntitySet cs = {}"

definition indexCatalog :: "CatalogAction list \<Rightarrow> string \<Rightarrow> CatalogAction list" where
  "indexCatalog catalog svc = filter (\<lambda>a. ca_Service a = svc) catalog"

definition expandedAreas :: "AreaTree \<Rightarrow> string list \<Rightarrow> AreaSlug set" where
  "expandedAreas tree ds = (case ExpandAreas tree ds of None \<Rightarrow> {} | Some s \<Rightarrow> s)"

text \<open>
  \<open>compileSelector\<close> keeps the expansions it has computed in the artifact, under the selector's hash.
\<close>

definition compileSelector ::
  "(bytes \<Rightarrow> SelectorHash) \<Rightarrow> RawSelector \<Rightarrow> AreaTree \<Rightarrow> Compiled \<Rightarrow> CompiledSelector \<times> Compiled" where
  "compileSelector sha rs areas sink =
     (if rs_MatchAny rs then
        (\<lparr>Hash = '''', AreaSet = {}, ClassSet = {}, EntitySet = {}, MatchAny = True\<rparr>, sink)
      else
        (let h = HashSelector sha (rs_Areas rs) (rs_Classes rs) (rs_EntityIDs rs);
             (expansion, sink') = (case AreaExpansion sink h of
                Some x \<Rightarrow> (x, sink)
              | None \<Rightarrow> (let x = expandedAreas areas (rs_Areas rs) in
                          (x, sink\<lparr>AreaExpansion := (AreaExpansion sink)(h \<mapsto> x)\<rparr>))) in
         (\<lparr>Hash = h, AreaSet = expansion, ClassSet = set (rs_Classes rs),
           EntitySet = set (rs_EntityIDs rs), MatchAny = False\<rparr>, sink')))"

definition unknownService :: "string set \<Rightarrow> string list \<Rightarrow> string option" where
  "unknownService known svcs = List.find (\<lambda>s. s \<notin> known) svcs"

definition nonEntityAction :: "CatalogAction list \<Rightarrow> string list \<Rightarrow> CatalogAction option" where
  "nonEntityAction catalog svcs =
     List.find (\<lambda>a. \<not> ca_IsEntity a) (concat (map (indexCatalog catalog) svcs))"

definition compileRule ::
  "(bytes \<Rightarrow> SelectorHash) \<Rightarrow> string \<Rightarrow> RawRule \<Rightarrow> AreaTree \<Rightarrow> CatalogAction list \<Rightarrow> string set \<Rightarrow> Compiled \<Rightarrow> bool
     \<Rightarrow> error + CompiledRule \<times> Compiled" where
  "compileRule sha policyName rr areas catalog knownServices sink isDeny =
     (case unknownService knownServices (rr_Services rr) of
        Some s \<Rightarrow> Inl (''policy: '' @ policyName @ '' references unknown service '' @ quoted s)
      | None \<Rightarrow>
         (let (sel, sink') = compileSelector sha (rr_Targets rr) areas sink;
              cr = \<lparr>PolicyName = policyName, Verbs = set (rr_Verbs rr), Services = set (rr_Services rr),
                    Targets = sel\<rparr> in
          if isDeny \<and> rr_Services rr \<noteq> [] \<and> \<not> selectorIsEmpty sel then
            (case nonEntityAction catalog (rr_Services rr) of
               Some a \<Rightarrow> Inl (''policy: '' @ policyName @ '' deny rule on non-entity action '' @
                   ca_Service a @ ''.'' @ ca_Method a @ '' must not have target selector'')
             | None \<Rightarrow> Inr (cr, sink'))
          else Inr (cr, sink')))"

definition allowsAction :: "RawRule \<Rightarrow> CatalogAction \<Rightarrow> bool" where
  "allowsAction rr a \<longleftrightarrow>
     (rr_Services rr = [] \<or> ca_Service a \<in> set (rr_Services rr)) \<and>
     ca_Verb a \<in> set (if rr_Verbs rr = [] then AllVerbs else rr_Verbs rr)"

definition addAction :: "RoleSlug \<Rightarrow> CatalogAction \<Rightarrow> Compiled \<Rightarrow> Compiled" where
  "addAction role a out =
     (let key = (role, ca_Verb a);
          old = (case ActionAllowlist out key of None \<Rightarrow> {} | Some s \<Rightarrow> s) in
      out\<lparr>ActionAllowlist := (ActionAllowlist out)(key \<mapsto> insert (MakeActionKey (ca_Service a) (ca_Method a)) old)\<rparr>)"

definition addToActionAllowlist :: "RoleSlug \<Rightarrow> RawRule \<Rightarrow> CatalogAction list \<Rightarrow> Compiled \<Rightarrow> Compiled" where
  "addToActionAllowlist role rr catalog out =
     fold (\<lambda>a. if allowsAction rr a then addAction role a else id) catalog out"

text \<open>The loops of \<open>Compile\<close>, from the inside out.\<close>

definition compileAllow ::
  "(bytes \<Rightarrow> SelectorHash) \<Rightarrow> AreaTree \<Rightarrow> CatalogAction list \<Rightarrow> string \<Rightarrow> RoleSlug \<Rightarrow> RawRule \<Rightarrow> Compiled \<Rightarrow> error + Compiled"
  where
  "compileAllow sha areas catalog name role allow out =
     (case compileRule sha name allow areas catalog (ca_Service ` set catalog) out False of
        Inl e \<Rightarrow> Inl e
      | Inr (cr, out1) \<Rightarrow>
          Inr (addToActionAllowlist role allow catalog
            (out1\<lparr>AllowRules := (AllowRules out1)(role := AllowRules out1 role @ [cr])\<rparr>)))"

definition compileDeny ::
  "(bytes \<Rightarrow> SelectorHash) \<Rightarrow> AreaTree \<Rightarrow> CatalogAction list \<Rightarrow> string \<Rightarrow> RoleSlug \<Rightarrow> RawRule \<Rightarrow> Compiled \<Rightarrow> error + Compiled"
  where
  "compileDeny sha areas catalog name role deny out =
     (case compileRule sha name deny areas catalog (ca_Service ` set catalog) out True of
        Inl e \<Rightarrow> Inl e
      | Inr (cr, out1) \<Rightarrow> Inr (out1\<lparr>DenyRules := (DenyRules out1)(role := DenyRules out1 role @ [cr])\<rparr>))"

fun tryFold :: "('x \<Rightarrow> 's \<Rightarrow> error + 's) \<Rightarrow> 'x list \<Rightarrow> 's \<Rightarrow> error + 's" where
  "tryFold f [] s = Inr s"
| "tryFold f (x # xs) s = (case f x s of Inl e \<Rightarrow> Inl e | Inr s' \<Rightarrow> tryFold f xs s')"

definition compileSubject ::
  "(bytes \<Rightarrow> SelectorHash) \<Rightarrow> AreaTree \<Rightarrow> CatalogAction list \<Rightarrow> RawPolicy \<Rightarrow> RoleSlug \<Rightarrow> Compiled \<Rightarrow> error + Compiled" where
  "compileSubject sha areas catalog rp role out =
     (case tryFold (compileAllow sha areas catalog (rp_Name rp) role) (rp_Allow rp) out of
        Inl e \<Rightarrow> Inl e
      | Inr out1 \<Rightarrow> tryFold (compileDeny sha areas catalog (rp_Name rp) role) (rp_Deny rp) out1)"

definition compilePolicies ::
  "(bytes \<Rightarrow> SelectorHash) \<Rightarrow> AreaTree \<Rightarrow> CatalogAction list \<Rightarrow> RawPolicy list \<Rightarrow> Compiled \<Rightarrow> error + Compiled" where
  "compilePolicies sha areas catalog rps out =
     tryFold (\<lambda>rp. tryFold (compileSubject sha areas catalog rp) (rp_Subjects rp)) rps out"

definition emptyCompiled :: "nat \<Rightarrow> (RoleSlug \<times> RoleSlug set) list \<Rightarrow> Compiled" where
  "emptyCompiled gen inh = \<lparr>Generation = gen, ActionAllowlist = Map.empty, AllowRules = (\<lambda>_. []),
     DenyRules = (\<lambda>_. []), AreaExpansion = Map.empty, RoleInheritance = inh\<rparr>"

text \<open>
  \<open>Compile\<close>, with the package's generation counter before and after. \<open>None\<close> would say that the bound
  on the depth of the role search was reached.
\<close>

definition Compile ::
  "(bytes \<Rightarrow> SelectorHash) \<Rightarrow> RawPolicy list \<Rightarrow> RoleGraph \<Rightarrow> AreaTree \<Rightarrow> CatalogAction list \<Rightarrow> nat
     \<Rightarrow> ((error + Compiled) \<times> nat) option" where
  "Compile sha rawPolicies roles areas catalog generation =
     (case resolveRoleInheritance roles of
        None \<Rightarrow> None
      | Some (Inl e) \<Rightarrow> Some (Inl e, generation)
      | Some (Inr inh) \<Rightarrow>
          (let gen = (generation + 1) mod 2 ^ 64 in
           Some (compilePolicies sha areas catalog rawPolicies (emptyCompiled gen inh), gen)))"

definition SortedActionsForRole :: "Compiled \<Rightarrow> RoleSlug \<Rightarrow> Verb \<Rightarrow> ActionKey list" where
  "SortedActionsForRole c role verb =
     (case ActionAllowlist c (role, verb) of None \<Rightarrow> [] | Some s \<Rightarrow> sorted_list_of_set s)"

section \<open>What a compiled policy denotes\<close>

text \<open>The rules of a kind that apply to a role, in the order of the policies.\<close>

definition rulesFor :: "(RawPolicy \<Rightarrow> RawRule list) \<Rightarrow> RawPolicy list \<Rightarrow> RoleSlug \<Rightarrow> (string \<times> RawRule) list" where
  "rulesFor kind rps role =
     concat (map (\<lambda>rp. concat (map (\<lambda>r. if r = role then map (Pair (rp_Name rp)) (kind rp) else [])
       (rp_Subjects rp))) rps)"

definition rawSelects :: "AreaTree \<Rightarrow> RawSelector \<Rightarrow> Target \<Rightarrow> bool" where
  "rawSelects areas rs t \<longleftrightarrow> rs_MatchAny rs \<or>
     t_Area t \<in> (areaEdges areas)\<^sup>* `` (\<Union>d \<in> set (rs_Areas rs). declRoots areas d) \<or>
     t_Class t \<in> set (rs_Classes rs) \<or> t_ID t \<in> set (rs_EntityIDs rs)"

definition compiled_as :: "AreaTree \<Rightarrow> CompiledRule \<Rightarrow> string \<times> RawRule \<Rightarrow> bool" where
  "compiled_as areas cr = (\<lambda>(name, rr). PolicyName cr = name \<and> Verbs cr = set (rr_Verbs rr) \<and>
     Services cr = set (rr_Services rr) \<and> (\<forall>t. SelectorMatches (Targets cr) t = rawSelects areas (rr_Targets rr) t))"

definition grants :: "CatalogAction list \<Rightarrow> (string \<times> RawRule) list \<Rightarrow> Verb \<Rightarrow> ActionKey \<Rightarrow> bool" where
  "grants catalog rules verb key \<longleftrightarrow> (\<exists>(name, rr) \<in> set rules. \<exists>a \<in> set catalog. allowsAction rr a \<and>
     ca_Verb a = verb \<and> key = MakeActionKey (ca_Service a) (ca_Method a))"

lemma expandedAreas_eq:
  "expandedAreas areas ds = (areaEdges areas)\<^sup>* `` (\<Union>d \<in> set ds. declRoots areas d)"
  by (simp add: expandedAreas_def ExpandAreas_eq)

lemma SelectorMatches_iff:
  "SelectorMatches sel t \<longleftrightarrow> MatchAny sel \<or> t_Area t \<in> AreaSet sel \<or> t_Class t \<in> ClassSet sel \<or> t_ID t \<in> EntitySet sel"
  by (auto simp: SelectorMatches_def)

text \<open>
  The cache of expansions is right when no two selectors with different areas have the same hash.
  \<open>S\<close> is the set of selectors of the policies that are compiled.
\<close>

definition selHash :: "(bytes \<Rightarrow> SelectorHash) \<Rightarrow> RawSelector \<Rightarrow> SelectorHash" where
  "selHash sha rs = HashSelector sha (rs_Areas rs) (rs_Classes rs) (rs_EntityIDs rs)"

definition no_collision :: "(bytes \<Rightarrow> SelectorHash) \<Rightarrow> RawSelector set \<Rightarrow> bool" where
  "no_collision sha S \<longleftrightarrow> (\<forall>a \<in> S. \<forall>b \<in> S. selHash sha a = selHash sha b \<longrightarrow> set (rs_Areas a) = set (rs_Areas b))"

definition cache_ok :: "(bytes \<Rightarrow> SelectorHash) \<Rightarrow> AreaTree \<Rightarrow> RawSelector set \<Rightarrow> Compiled \<Rightarrow> bool" where
  "cache_ok sha areas S c \<longleftrightarrow> (\<forall>h x. AreaExpansion c h = Some x \<longrightarrow>
     (\<exists>rs \<in> S. h = selHash sha rs \<and> x = expandedAreas areas (rs_Areas rs)))"

lemma compileSelector_ok:
  assumes "cache_ok sha areas S c" "rs \<in> S" "no_collision sha S" "compileSelector sha rs areas c = (sel, c')"
  shows "(\<forall>t. SelectorMatches sel t = rawSelects areas rs t) \<and> cache_ok sha areas S c' \<and>
    (\<exists>x. c' = c\<lparr>AreaExpansion := x\<rparr>)"
proof (cases "rs_MatchAny rs")
  case True
  with assms show ?thesis
    by (auto simp: compileSelector_def SelectorMatches_iff rawSelects_def intro: exI [of _ "AreaExpansion c"])
next
  case False
  show ?thesis
  proof (cases "AreaExpansion c (selHash sha rs)")
    case None
    let ?x = "expandedAreas areas (rs_Areas rs)"
    have "sel = \<lparr>Hash = selHash sha rs, AreaSet = ?x, ClassSet = set (rs_Classes rs),
        EntitySet = set (rs_EntityIDs rs), MatchAny = False\<rparr>"
      and c': "c' = c\<lparr>AreaExpansion := (AreaExpansion c)(selHash sha rs \<mapsto> ?x)\<rparr>"
      using assms(4) False None by (auto simp: compileSelector_def selHash_def Let_def)
    then have "\<forall>t. SelectorMatches sel t = rawSelects areas rs t"
      using False by (simp add: SelectorMatches_iff rawSelects_def expandedAreas_eq)
    moreover have "cache_ok sha areas S c'" using assms(1,2) by (auto simp: c' cache_ok_def)
    ultimately show ?thesis using c' by auto
  next
    case (Some x)
    then obtain rs' where rs': "rs' \<in> S" "selHash sha rs = selHash sha rs'" "x = expandedAreas areas (rs_Areas rs')"
      using assms(1) unfolding cache_ok_def by blast
    then have "set (rs_Areas rs) = set (rs_Areas rs')"
      using assms(2,3) unfolding no_collision_def by blast
    with rs' have x: "x = expandedAreas areas (rs_Areas rs)" by (simp add: expandedAreas_eq)
    have "sel = \<lparr>Hash = selHash sha rs, AreaSet = x, ClassSet = set (rs_Classes rs),
        EntitySet = set (rs_EntityIDs rs), MatchAny = False\<rparr>" and c': "c' = c"
      using assms(4) False Some by (auto simp: compileSelector_def selHash_def Let_def)
    then have "\<forall>t. SelectorMatches sel t = rawSelects areas rs t"
      using False by (simp add: SelectorMatches_iff rawSelects_def x expandedAreas_eq)
    with assms(1) c' show ?thesis by (auto intro: exI [of _ "AreaExpansion c"])
  qed
qed

lemma compileRule_ok:
  assumes "cache_ok sha areas S c" "rr_Targets rr \<in> S" "no_collision sha S"
    "compileRule sha name rr areas catalog known c isDeny = Inr (cr, c')"
  shows "compiled_as areas cr (name, rr) \<and> cache_ok sha areas S c' \<and> (\<exists>x. c' = c\<lparr>AreaExpansion := x\<rparr>)"
proof -
  obtain sel c1 where s: "compileSelector sha (rr_Targets rr) areas c = (sel, c1)" by fastforce
  with assms(4) have "cr = \<lparr>PolicyName = name, Verbs = set (rr_Verbs rr), Services = set (rr_Services rr), Targets = sel\<rparr>"
      "c' = c1"
    by (auto simp: compileRule_def Let_def split: option.splits if_splits)
  with compileSelector_ok [OF assms(1-3) s] show ?thesis by (simp add: compiled_as_def)
qed

text \<open>The allowlist.\<close>

definition allowed :: "Compiled \<Rightarrow> RoleSlug \<Rightarrow> Verb \<Rightarrow> ActionKey \<Rightarrow> bool" where
  "allowed c role verb key \<longleftrightarrow> permitsAction (Some c) role verb key"

lemma allowed_addAction:
  "allowed (addAction r a c) role verb key \<longleftrightarrow> allowed c role verb key \<or>
     r = role \<and> ca_Verb a = verb \<and> key = MakeActionKey (ca_Service a) (ca_Method a)"
  by (auto simp: allowed_def permitsAction_def addAction_def Let_def split: option.splits)

lemma addAction_frame [simp]:
  "AllowRules (addAction r a c) = AllowRules c" "DenyRules (addAction r a c) = DenyRules c"
  "AreaExpansion (addAction r a c) = AreaExpansion c"
  by (simp_all add: addAction_def Let_def)

lemma addToActionAllowlist_frame [simp]:
  "AllowRules (addToActionAllowlist r rr catalog c) = AllowRules c"
  "DenyRules (addToActionAllowlist r rr catalog c) = DenyRules c"
  "AreaExpansion (addToActionAllowlist r rr catalog c) = AreaExpansion c"
  unfolding addToActionAllowlist_def by (induction catalog arbitrary: c) (simp_all add: id_def)

lemma allowed_addToActionAllowlist:
  "allowed (addToActionAllowlist r rr catalog c) role verb key \<longleftrightarrow>
     allowed c role verb key \<or> r = role \<and> grants catalog [(name, rr)] verb key"
  unfolding addToActionAllowlist_def
proof (induction catalog arbitrary: c)
  case (Cons a catalog)
  then show ?case by (auto simp: allowed_addAction grants_def)
qed (simp add: grants_def)

text \<open>The artifact reflects a list of rules that were compiled for roles so far.\<close>

definition denotes ::
  "(bytes \<Rightarrow> SelectorHash) \<Rightarrow> AreaTree \<Rightarrow> CatalogAction list \<Rightarrow> RawSelector set \<Rightarrow> Compiled
     \<Rightarrow> (RoleSlug \<Rightarrow> (string \<times> RawRule) list) \<Rightarrow> (RoleSlug \<Rightarrow> (string \<times> RawRule) list) \<Rightarrow> bool" where
  "denotes sha areas catalog S c al dn \<longleftrightarrow> cache_ok sha areas S c \<and>
     (\<forall>role. list_all2 (compiled_as areas) (AllowRules c role) (al role)) \<and>
     (\<forall>role. list_all2 (compiled_as areas) (DenyRules c role) (dn role)) \<and>
     (\<forall>role verb key. allowed c role verb key = grants catalog (al role) verb key)"

lemma grants_append: "grants catalog (xs @ ys) verb key \<longleftrightarrow> grants catalog xs verb key \<or> grants catalog ys verb key"
  by (auto simp: grants_def)

lemma compileAllow_denotes:
  assumes "denotes sha areas catalog S c al dn" "rr_Targets rr \<in> S" "no_collision sha S"
    "compileAllow sha areas catalog name role rr c = Inr c'"
  shows "denotes sha areas catalog S c' (al(role := al role @ [(name, rr)])) dn"
proof -
  obtain cr c1 where r: "compileRule sha name rr areas catalog (ca_Service ` set catalog) c False = Inr (cr, c1)"
    and c': "c' = addToActionAllowlist role rr catalog (c1\<lparr>AllowRules := (AllowRules c1)(role := AllowRules c1 role @ [cr])\<rparr>)"
    using assms(4) by (auto simp: compileAllow_def split: sum.splits)
  have co: "cache_ok sha areas S c" using assms(1) by (simp add: denotes_def)
  obtain x where ok: "compiled_as areas cr (name, rr)" "cache_ok sha areas S c1" "c1 = c\<lparr>AreaExpansion := x\<rparr>"
    using compileRule_ok [OF co assms(2,3) r] by auto
  have "allowed c' r verb key \<longleftrightarrow> allowed c r verb key \<or> role = r \<and> grants catalog [(name, rr)] verb key" for r verb key
    unfolding c' allowed_addToActionAllowlist [where name = name]
    by (simp add: ok(3) allowed_def permitsAction_def)
  with assms(1) ok show ?thesis
    by (auto simp: denotes_def c' cache_ok_def grants_append list_all2_appendI)
qed

lemma compileDeny_denotes:
  assumes "denotes sha areas catalog S c al dn" "rr_Targets rr \<in> S" "no_collision sha S"
    "compileDeny sha areas catalog name role rr c = Inr c'"
  shows "denotes sha areas catalog S c' al (dn(role := dn role @ [(name, rr)]))"
proof -
  obtain cr c1 where r: "compileRule sha name rr areas catalog (ca_Service ` set catalog) c True = Inr (cr, c1)"
    and c': "c' = c1\<lparr>DenyRules := (DenyRules c1)(role := DenyRules c1 role @ [cr])\<rparr>"
    using assms(4) by (auto simp: compileDeny_def split: sum.splits)
  have co: "cache_ok sha areas S c" using assms(1) by (simp add: denotes_def)
  obtain x where "compiled_as areas cr (name, rr)" "cache_ok sha areas S c1" "c1 = c\<lparr>AreaExpansion := x\<rparr>"
    using compileRule_ok [OF co assms(2,3) r] by auto
  with assms(1) show ?thesis
    by (auto simp: denotes_def c' cache_ok_def allowed_def permitsAction_def list_all2_appendI)
qed

lemma compileAllows_denote:
  assumes "denotes sha areas catalog S c al dn" "\<forall>rr \<in> set rrs. rr_Targets rr \<in> S" "no_collision sha S"
    "tryFold (compileAllow sha areas catalog name role) rrs c = Inr c'"
  shows "denotes sha areas catalog S c' (al(role := al role @ map (Pair name) rrs)) dn"
  using assms(1,2,4)
proof (induction rrs arbitrary: c al)
  case (Cons rr rrs)
  then obtain c1 where c1: "compileAllow sha areas catalog name role rr c = Inr c1"
      "tryFold (compileAllow sha areas catalog name role) rrs c1 = Inr c'"
    by (auto split: sum.splits)
  have "denotes sha areas catalog S c1 (al(role := al role @ [(name, rr)])) dn"
    using Cons.prems compileAllow_denotes [OF _ _ assms(3) c1(1)] by simp
  moreover have "(al(role := al role @ [(name, rr)]))(role := (al(role := al role @ [(name, rr)])) role @ map (Pair name) rrs) =
      al(role := al role @ map (Pair name) (rr # rrs))" by (simp add: fun_eq_iff)
  ultimately show ?case using Cons.IH [OF _ _ c1(2)] Cons.prems(2) by (metis list.set_intros(2))
qed simp

lemma compileDenies_denote:
  assumes "denotes sha areas catalog S c al dn" "\<forall>rr \<in> set rrs. rr_Targets rr \<in> S" "no_collision sha S"
    "tryFold (compileDeny sha areas catalog name role) rrs c = Inr c'"
  shows "denotes sha areas catalog S c' al (dn(role := dn role @ map (Pair name) rrs))"
  using assms(1,2,4)
proof (induction rrs arbitrary: c dn)
  case (Cons rr rrs)
  then obtain c1 where c1: "compileDeny sha areas catalog name role rr c = Inr c1"
      "tryFold (compileDeny sha areas catalog name role) rrs c1 = Inr c'"
    by (auto split: sum.splits)
  have "denotes sha areas catalog S c1 al (dn(role := dn role @ [(name, rr)]))"
    using Cons.prems compileDeny_denotes [OF _ _ assms(3) c1(1)] by simp
  moreover have "(dn(role := dn role @ [(name, rr)]))(role := (dn(role := dn role @ [(name, rr)])) role @ map (Pair name) rrs) =
      dn(role := dn role @ map (Pair name) (rr # rrs))" by (simp add: fun_eq_iff)
  ultimately show ?case using Cons.IH [OF _ _ c1(2)] Cons.prems(2) by (metis list.set_intros(2))
qed simp

definition policySelectors :: "RawPolicy \<Rightarrow> RawSelector set" where
  "policySelectors rp = rr_Targets ` (set (rp_Allow rp) \<union> set (rp_Deny rp))"

definition subjectRules :: "(RawPolicy \<Rightarrow> RawRule list) \<Rightarrow> RawPolicy \<Rightarrow> RoleSlug list \<Rightarrow> RoleSlug \<Rightarrow> (string \<times> RawRule) list" where
  "subjectRules kind rp rs role = concat (map (\<lambda>r. if r = role then map (Pair (rp_Name rp)) (kind rp) else []) rs)"

lemma compileSubjects_denote:
  assumes "denotes sha areas catalog S c al dn" "policySelectors rp \<subseteq> S" "no_collision sha S"
    "tryFold (compileSubject sha areas catalog rp) rs c = Inr c'"
  shows "denotes sha areas catalog S c' (\<lambda>r. al r @ subjectRules rp_Allow rp rs r)
    (\<lambda>r. dn r @ subjectRules rp_Deny rp rs r)"
  using assms(1,4)
proof (induction rs arbitrary: c al dn)
  case (Cons r rs)
  then obtain c2 where c2: "compileSubject sha areas catalog rp r c = Inr c2"
      "tryFold (compileSubject sha areas catalog rp) rs c2 = Inr c'"
    by (auto split: sum.splits)
  then obtain c1 where c: "tryFold (compileAllow sha areas catalog (rp_Name rp) r) (rp_Allow rp) c = Inr c1"
      "tryFold (compileDeny sha areas catalog (rp_Name rp) r) (rp_Deny rp) c1 = Inr c2"
    by (auto simp: compileSubject_def split: sum.splits)
  have S: "\<forall>rr \<in> set (rp_Allow rp). rr_Targets rr \<in> S" "\<forall>rr \<in> set (rp_Deny rp). rr_Targets rr \<in> S"
    using assms(2) by (auto simp: policySelectors_def)
  note d = compileDenies_denote [OF compileAllows_denote [OF Cons.prems(1) S(1) assms(3) c(1)] S(2) assms(3) c(2)]
  let ?al = "al(r := al r @ map (Pair (rp_Name rp)) (rp_Allow rp))"
  let ?dn = "dn(r := dn r @ map (Pair (rp_Name rp)) (rp_Deny rp))"
  have "(\<lambda>x. ?al x @ subjectRules rp_Allow rp rs x) = (\<lambda>x. al x @ subjectRules rp_Allow rp (r # rs) x)"
    "(\<lambda>x. ?dn x @ subjectRules rp_Deny rp rs x) = (\<lambda>x. dn x @ subjectRules rp_Deny rp (r # rs) x)"
    by (auto simp: subjectRules_def fun_eq_iff)
  with Cons.IH [OF d c2(2)] show ?case by simp
qed (simp add: subjectRules_def)

lemma compilePolicies_denote:
  assumes "denotes sha areas catalog S c al dn" "\<Union> (policySelectors ` set rps) \<subseteq> S" "no_collision sha S"
    "compilePolicies sha areas catalog rps c = Inr c'"
  shows "denotes sha areas catalog S c' (\<lambda>r. al r @ rulesFor rp_Allow rps r) (\<lambda>r. dn r @ rulesFor rp_Deny rps r)"
  using assms(1,2,4) unfolding compilePolicies_def
proof (induction rps arbitrary: c al dn)
  case (Cons rp rps)
  then obtain c1 where c: "tryFold (compileSubject sha areas catalog rp) (rp_Subjects rp) c = Inr c1"
      "tryFold (\<lambda>rp. tryFold (compileSubject sha areas catalog rp) (rp_Subjects rp)) rps c1 = Inr c'"
    by (auto split: sum.splits)
  have "policySelectors rp \<subseteq> S" using Cons.prems(2) by simp
  note d = compileSubjects_denote [OF Cons.prems(1) this assms(3) c(1)]
  have "rulesFor kind (rp # rps) r = subjectRules kind rp (rp_Subjects rp) r @ rulesFor kind rps r" for kind r
    by (simp add: rulesFor_def subjectRules_def)
  with Cons.IH [OF d _ c(2)] Cons.prems(2) show ?case by simp
qed (simp add: rulesFor_def)

lemma emptyCompiled_denotes: "denotes sha areas catalog S (emptyCompiled g inh) (\<lambda>_. []) (\<lambda>_. [])"
  by (simp add: denotes_def emptyCompiled_def cache_ok_def allowed_def permitsAction_def grants_def)

lemma Compile_denotes:
  assumes "Compile sha rps roles areas catalog gen = Some (Inr c, gen')"
    "no_collision sha (\<Union> (policySelectors ` set rps))"
  shows "denotes sha areas catalog (\<Union> (policySelectors ` set rps)) c (rulesFor rp_Allow rps) (rulesFor rp_Deny rps)"
proof -
  obtain inh where "compilePolicies sha areas catalog rps (emptyCompiled ((gen + 1) mod 2 ^ 64) inh) = Inr c"
    using assms(1) by (auto simp: Compile_def Let_def split: option.splits sum.splits)
  from compilePolicies_denote [OF emptyCompiled_denotes _ assms(2) this] show ?thesis by simp
qed

section \<open>The selector encoding\<close>

text \<open>
  Items without NUL bytes that do not begin with the byte 1 can be read back from the encoding, so
  equal encodings have equal areas: only SHA-256 itself could make two selectors collide.
\<close>

definition clean_item :: "string \<Rightarrow> bool" where
  "clean_item s \<longleftrightarrow> CHR 0x00 \<notin> set s \<and> (s = [] \<or> hd s \<noteq> CHR 0x01)"

lemma item_split:
  "s @ CHR 0x00 # u = s' @ CHR 0x00 # u' \<Longrightarrow> CHR 0x00 \<notin> set s \<Longrightarrow> CHR 0x00 \<notin> set s' \<Longrightarrow> s = s' \<and> u = u'"
  by (induction s arbitrary: s') (auto simp: Cons_eq_append_conv)

lemma items_inj:
  assumes "concat (map (\<lambda>s. s @ [CHR 0x00]) xs) @ [CHR 0x01] @ r = concat (map (\<lambda>s. s @ [CHR 0x00]) ys) @ [CHR 0x01] @ r'"
    "\<forall>s \<in> set xs. clean_item s" "\<forall>s \<in> set ys. clean_item s"
  shows "xs = ys \<and> r = r'"
  using assms
proof (induction xs arbitrary: ys)
  case Nil
  then show ?case by (cases ys; cases "hd ys") (auto simp: clean_item_def)
next
  case (Cons x xs)
  show ?case
  proof (cases ys)
    case Nil
    with Cons.prems show ?thesis by (cases x) (auto simp: clean_item_def)
  next
    case (Cons y ys')
    with Cons.prems(1) have "x @ CHR 0x00 # (concat (map (\<lambda>s. s @ [CHR 0x00]) xs) @ [CHR 0x01] @ r) =
        y @ CHR 0x00 # (concat (map (\<lambda>s. s @ [CHR 0x00]) ys') @ [CHR 0x01] @ r')" by simp
    from item_split [OF this] Cons.prems(2,3) Cons have "x = y"
      "concat (map (\<lambda>s. s @ [CHR 0x00]) xs) @ [CHR 0x01] @ r = concat (map (\<lambda>s. s @ [CHR 0x00]) ys') @ [CHR 0x01] @ r'"
      by (auto simp: clean_item_def)
    with Cons.IH [of ys'] Cons.prems(2,3) Cons show ?thesis by auto
  qed
qed

definition selBytes :: "RawSelector \<Rightarrow> bytes" where
  "selBytes rs = writeItems ''a'' (rs_Areas rs) @ writeItems ''c'' (rs_Classes rs) @ writeItems ''e'' (rs_EntityIDs rs) @
     bigEndian64 (length (rs_Areas rs) + length (rs_Classes rs) + length (rs_EntityIDs rs))"

lemma selBytes_areas:
  assumes "selBytes a = selBytes b" "\<forall>s \<in> set (rs_Areas a) \<union> set (rs_Areas b). clean_item s"
  shows "set (rs_Areas a) = set (rs_Areas b)"
proof -
  let ?rest = "\<lambda>rs. writeItems ''c'' (rs_Classes rs) @ writeItems ''e'' (rs_EntityIDs rs) @
     bigEndian64 (length (rs_Areas rs) + length (rs_Classes rs) + length (rs_EntityIDs rs))"
  have "concat (map (\<lambda>s. s @ [CHR 0x00]) (sort (rs_Areas a))) @ [CHR 0x01] @ ?rest a =
      concat (map (\<lambda>s. s @ [CHR 0x00]) (sort (rs_Areas b))) @ [CHR 0x01] @ ?rest b"
    using assms(1) unfolding selBytes_def writeItems_def [of "''a''"]
    by (simp only: append_assoc append_Cons append_Nil list.inject simp_thms)
  from items_inj [OF this] assms(2) have "sort (rs_Areas a) = sort (rs_Areas b)" by simp
  then show ?thesis by (metis set_sort)
qed

lemma selHash_selBytes: "selHash sha rs = sha (selBytes rs)"
  by (simp add: selHash_def HashSelector_def selBytes_def)

lemma no_collisionI:
  assumes "inj_on sha (selBytes ` S)" "\<forall>rs \<in> S. \<forall>s \<in> set (rs_Areas rs). clean_item s"
  shows "no_collision sha S"
proof -
  have "set (rs_Areas a) = set (rs_Areas b)" if "a \<in> S" "b \<in> S" "selHash sha a = selHash sha b" for a b
  proof -
    have "selBytes a = selBytes b"
      using that assms(1) by (auto simp: selHash_selBytes dest: inj_onD)
    with assms(2) that show ?thesis by (intro selBytes_areas) auto
  qed
  then show ?thesis unfolding no_collision_def by blast
qed

end
