(* ===== verification/Policy_Runtime.thy ===== *)
theory Policy_Runtime
  imports Policy_Compiler
begin

text \<open>
  Deciding requests, \<^verbatim>\<open>internal/policy\<close>: \<open>Authorize\<close> and \<open>FilterEntities\<close> (\<^verbatim>\<open>runtime.go\<close>), token scopes
  (\<^verbatim>\<open>intersect.go\<close>) with their compilation and minting in \<^verbatim>\<open>internal/api/token_scope.go\<close>, and \<open>Explain\<close>
  (\<^verbatim>\<open>explain.go\<close>). The roles of a principal, a Go map that the code ranges over, are the list of its
  keys in the order of that range: nothing is assumed of the order.
\<close>

section \<open>Requests\<close>

record Principal =
  p_ID :: string
  p_DisplayName :: string
  p_Kind :: string
  p_Metadata :: "(string \<times> string) list"

record Action =
  a_Service :: string
  a_Method :: string
  a_Verb :: string

record AuthTarget =
  at_Kind :: string
  at_ID :: string
  at_Area :: string
  at_Class :: string
  at_Attr :: "(string \<times> string) list option"

definition attr :: "(string \<times> string) list \<Rightarrow> string \<Rightarrow> string" where
  "attr m k = (case map_of m k of None \<Rightarrow> '''' | Some v \<Rightarrow> v)"

definition targetFromAuth :: "AuthTarget \<Rightarrow> Target" where
  "targetFromAuth t =
     \<lparr>t_Kind = at_Kind t, t_ID = at_ID t,
      t_Area = (case at_Attr t of Some m \<Rightarrow> if at_Area t = '''' then attr m ''area'' else at_Area t
                | None \<Rightarrow> at_Area t),
      t_Class = (case at_Attr t of Some m \<Rightarrow> if at_Class t = '''' then attr m ''class'' else at_Class t
                 | None \<Rightarrow> at_Class t)\<rparr>"

definition ruleMatches :: "CompiledRule \<Rightarrow> Action \<Rightarrow> Target \<Rightarrow> bool" where
  "ruleMatches r a t =
     (if Verbs r \<noteq> {} \<and> a_Verb a \<notin> Verbs r then False
      else if Services r \<noteq> {} \<and> a_Service a \<notin> Services r then False
      else SelectorMatches (Targets r) t)"

section \<open>Token scopes\<close>

record CompiledTokenScope =
  AllowedActions :: "ActionKey set"
  AllowedTools :: "string list"
  AllowedServices :: "string list"
  AllowedTargets :: CompiledSelector

definition hasStar :: "string \<Rightarrow> bool" where
  "hasStar p \<longleftrightarrow> p \<noteq> [] \<and> last p = CHR ''*''"

definition trimStar :: "string \<Rightarrow> string" where
  "trimStar p = (if hasStar p then butlast p else p)"

definition tokenPatternMatches :: "string \<Rightarrow> string \<Rightarrow> bool" where
  "tokenPatternMatches pattern action =
     (if hasStar pattern then prefix (trimStar pattern) action else pattern = action)"

definition tokenPatternCovers :: "string \<Rightarrow> string \<Rightarrow> bool" where
  "tokenPatternCovers parent child =
     (if \<not> hasStar parent then \<not> hasStar child \<and> parent = child
      else if \<not> hasStar child then prefix (trimStar parent) child
      else prefix (trimStar parent) (trimStar child))"

definition hasActionNarrowing :: "CompiledTokenScope \<Rightarrow> bool" where
  "hasActionNarrowing s \<longleftrightarrow> AllowedActions s \<noteq> {} \<or> AllowedTools s \<noteq> [] \<or> AllowedServices s \<noteq> []"

definition actionAllowed :: "CompiledTokenScope \<Rightarrow> string \<Rightarrow> bool" where
  "actionAllowed s action =
     (if AllowedActions s = {} \<and> AllowedTools s = [] \<and> AllowedServices s = [] then True
      else action \<in> AllowedActions s \<or>
        (\<exists>p \<in> set (AllowedTools s). tokenPatternMatches p action) \<or>
        (\<exists>p \<in> set (AllowedServices s). tokenPatternMatches p action))"

definition targetAllowed :: "CompiledTokenScope \<Rightarrow> Target \<Rightarrow> bool" where
  "targetAllowed s t =
     (if MatchAny (AllowedTargets s) then True
      else if AreaSet (AllowedTargets s) = {} \<and> ClassSet (AllowedTargets s) = {} \<and>
              EntitySet (AllowedTargets s) = {} then True
      else SelectorMatches (AllowedTargets s) t)"

definition PermitsAction :: "CompiledTokenScope \<Rightarrow> Verb \<Rightarrow> ActionKey \<Rightarrow> bool" where
  "PermitsAction s verb key = actionAllowed s key"

definition PermitsTarget :: "CompiledTokenScope \<Rightarrow> Target \<Rightarrow> bool" where
  "PermitsTarget s t = targetAllowed s t"

definition Allow :: "CompiledTokenScope \<Rightarrow> string \<Rightarrow> Target \<Rightarrow> bool" where
  "Allow s action t \<longleftrightarrow> actionAllowed s action \<and> targetAllowed s t"

definition coversPattern :: "CompiledTokenScope \<Rightarrow> string \<Rightarrow> bool" where
  "coversPattern s child \<longleftrightarrow>
     (\<exists>parent \<in> AllowedActions s. tokenPatternCovers parent child) \<or>
     (\<exists>parent \<in> set (AllowedTools s). tokenPatternCovers parent child) \<or>
     (\<exists>parent \<in> set (AllowedServices s). tokenPatternCovers parent child)"

definition containsActions :: "CompiledTokenScope \<Rightarrow> CompiledTokenScope \<Rightarrow> bool" where
  "containsActions s child =
     (if \<not> hasActionNarrowing s then True
      else if \<not> hasActionNarrowing child then False
      else (\<forall>a \<in> AllowedActions child. actionAllowed s a) \<and>
        (\<forall>p \<in> set (AllowedTools child). coversPattern s p) \<and>
        (\<forall>p \<in> set (AllowedServices child). coversPattern s p))"

definition containsTargets :: "CompiledTokenScope \<Rightarrow> CompiledTokenScope \<Rightarrow> bool" where
  "containsTargets s child =
     (let parent = AllowedTargets s; target = AllowedTargets child in
      if MatchAny parent then True
      else if selectorIsEmpty parent then True
      else if selectorIsEmpty target \<or> MatchAny target then False
      else AreaSet target \<subseteq> AreaSet parent \<and> ClassSet target \<subseteq> ClassSet parent \<and>
        EntitySet target \<subseteq> EntitySet parent)"

definition Contains :: "CompiledTokenScope \<Rightarrow> CompiledTokenScope \<Rightarrow> bool" where
  "Contains s child \<longleftrightarrow> containsActions s child \<and> containsTargets s child"

section \<open>The runtime\<close>

record ErrForbidden =
  Reason :: string
  RuleName :: string

definition forbidden :: "string \<Rightarrow> ErrForbidden" where
  "forbidden reason = \<lparr>Reason = reason, RuleName = ''''\<rparr>"

record Runtime =
  compiled :: "Compiled option"
  subs :: "nat list"

definition NewRuntime :: Runtime where
  "NewRuntime = \<lparr>compiled = None, subs = []\<rparr>"

text \<open>\<open>Replace\<close> swaps the artifact and then calls the registered callbacks, in order.\<close>

definition Replace :: "Compiled option \<Rightarrow> Runtime \<Rightarrow> Runtime \<times> nat list" where
  "Replace c r = (r\<lparr>compiled := c\<rparr>, subs r)"

definition OnReload :: "nat \<Rightarrow> Runtime \<Rightarrow> Runtime" where
  "OnReload fn r = r\<lparr>subs := subs r @ [fn]\<rparr>"

definition CurrentGeneration :: "Runtime \<Rightarrow> nat" where
  "CurrentGeneration r = (case compiled r of None \<Rightarrow> 0 | Some c \<Rightarrow> Generation c)"

definition checkScope :: "CompiledTokenScope option \<Rightarrow> Verb \<Rightarrow> ActionKey \<Rightarrow> AuthTarget \<Rightarrow> ErrForbidden option" where
  "checkScope scope verb key t =
     (case scope of
        None \<Rightarrow> None
      | Some s \<Rightarrow>
          if at_Kind t = ''entity'' then
            (if \<not> Allow s key (targetFromAuth t) then
               (if \<not> PermitsAction s verb key then Some (forbidden ''token_action_denied'')
                else Some (forbidden ''token_target_denied''))
             else None)
          else if \<not> PermitsAction s verb key then Some (forbidden ''token_action_denied'')
          else None)"

text \<open>The first deny rule that matches, over the roles in order.\<close>

definition firstDeny :: "Compiled \<Rightarrow> RoleSlug list \<Rightarrow> Action \<Rightarrow> Target \<Rightarrow> CompiledRule option" where
  "firstDeny c roles a t = List.find (\<lambda>r. ruleMatches r a t) (concat (map (DenyRules c) roles))"

definition checkTarget :: "Compiled \<Rightarrow> RoleSlug list \<Rightarrow> Action \<Rightarrow> AuthTarget \<Rightarrow> ErrForbidden option" where
  "checkTarget c roles a t =
     (if at_Kind t = ''entity'' then
        (let target = targetFromAuth t in
         if \<not> (\<exists>role \<in> set roles. \<exists>rule \<in> set (AllowRules c role). ruleMatches rule a target)
           then Some (forbidden ''target_denied'')
         else case firstDeny c roles a target of
                Some rule \<Rightarrow> Some \<lparr>Reason = ''explicit_deny'', RuleName = PolicyName rule\<rparr>
              | None \<Rightarrow> None)
      else None)"

definition Authorize ::
  "Runtime \<Rightarrow> (Principal \<Rightarrow> RoleSlug list) \<Rightarrow> CompiledTokenScope option \<Rightarrow> Principal \<Rightarrow> Action \<Rightarrow> AuthTarget
     \<Rightarrow> ErrForbidden option" where
  "Authorize r rolesFor scope p a t =
     (if p_Kind p = ''system'' then None
      else case compiled r of
        None \<Rightarrow> Some (forbidden ''no_policy'')
      | Some c \<Rightarrow>
         (let roles = rolesFor p; actionKey = MakeActionKey (a_Service a) (a_Method a); verb = a_Verb a in
          if \<not> (\<exists>role \<in> set roles. permitsAction (Some c) role verb actionKey)
            then Some (forbidden ''action_denied'')
          else case checkScope scope verb actionKey t of
            Some e \<Rightarrow> Some e
          | None \<Rightarrow> checkTarget c roles a t))"

text \<open>The decision of \<open>FilterEntities\<close> on one candidate.\<close>

definition entityVisible ::
  "Runtime \<Rightarrow> (Principal \<Rightarrow> RoleSlug list) \<Rightarrow> CompiledTokenScope option \<Rightarrow> Principal \<Rightarrow> string \<Rightarrow> Target \<Rightarrow> bool" where
  "entityVisible r rolesFor scope p verb t =
     (if Authorize r rolesFor scope p \<lparr>a_Service = ''EntityService'', a_Method = ''Subscribe'', a_Verb = verb\<rparr>
           \<lparr>at_Kind = ''entity'', at_ID = t_ID t, at_Area = t_Area t, at_Class = t_Class t, at_Attr = None\<rparr> \<noteq> None
        then False
      else case compiled r of
        None \<Rightarrow> True
      | Some c \<Rightarrow> \<not> (\<exists>role \<in> set (rolesFor p). \<exists>rule \<in> set (DenyRules c role). SelectorMatches (Targets rule) t))"

definition FilterEntities ::
  "Runtime \<Rightarrow> (Principal \<Rightarrow> RoleSlug list) \<Rightarrow> CompiledTokenScope option \<Rightarrow> Principal \<Rightarrow> string \<Rightarrow> Target list
     \<Rightarrow> Target list \<times> Target list" where
  "FilterEntities r rolesFor scope p verb candidates =
     (filter (entityVisible r rolesFor scope p verb) candidates,
      filter (\<lambda>t. \<not> entityVisible r rolesFor scope p verb t) candidates)"

section \<open>Explanations\<close>

text \<open>The lines of a trace, one constructor per message that \<open>Explain\<close> formats.\<close>

datatype explain_step =
    SystemBypass
  | PrincipalRoles string "RoleSlug list"
  | ActionPermitted RoleSlug Verb ActionKey
  | NoRolePermits Verb ActionKey
  | AllowMatches RoleSlug string nat
  | NoAllowMatches
  | DenyMatches RoleSlug string nat

record Trace =
  Decision :: string
  tr_Reason :: string
  tr_RuleName :: string
  Steps :: "explain_step list"

definition sortedRoles :: "RoleSlug list \<Rightarrow> RoleSlug list" where
  "sortedRoles roles = insertionSort (\<lambda>r. r) roles"

text \<open>The first rule that matches, with its role and its index in the rules of that role.\<close>

fun matchingRule :: "CompiledRule list \<Rightarrow> nat \<Rightarrow> Action \<Rightarrow> Target \<Rightarrow> (CompiledRule \<times> nat) option" where
  "matchingRule [] i a t = None"
| "matchingRule (r # rs) i a t = (if ruleMatches r a t then Some (r, i) else matchingRule rs (Suc i) a t)"

fun matchingRole ::
  "(RoleSlug \<Rightarrow> CompiledRule list) \<Rightarrow> RoleSlug list \<Rightarrow> Action \<Rightarrow> Target \<Rightarrow> (RoleSlug \<times> CompiledRule \<times> nat) option" where
  "matchingRole rules [] a t = None"
| "matchingRole rules (role # roles) a t =
     (case matchingRule (rules role) 0 a t of
        Some (r, i) \<Rightarrow> Some (role, r, i)
      | None \<Rightarrow> matchingRole rules roles a t)"

definition explainTarget :: "Compiled \<Rightarrow> RoleSlug list \<Rightarrow> Action \<Rightarrow> AuthTarget \<Rightarrow> explain_step list \<Rightarrow> Trace" where
  "explainTarget c rolesList a t steps =
     (let target = targetFromAuth t in
      if at_Kind t = ''entity'' then
        (case matchingRole (AllowRules c) rolesList a target of
           None \<Rightarrow> \<lparr>Decision = ''DENIED'', tr_Reason = ''target_denied'', tr_RuleName = '''',
                    Steps = steps @ [NoAllowMatches]\<rparr>
         | Some (role, rule, i) \<Rightarrow>
            (let steps1 = steps @ [AllowMatches role (PolicyName rule) i] in
             case matchingRole (DenyRules c) rolesList a target of
               Some (role', rule', j) \<Rightarrow>
                 \<lparr>Decision = ''DENIED'', tr_Reason = ''explicit_deny'', tr_RuleName = PolicyName rule',
                  Steps = steps1 @ [DenyMatches role' (PolicyName rule') j]\<rparr>
             | None \<Rightarrow> \<lparr>Decision = ''ALLOWED'', tr_Reason = '''', tr_RuleName = '''', Steps = steps1\<rparr>))
      else \<lparr>Decision = ''ALLOWED'', tr_Reason = '''', tr_RuleName = '''', Steps = steps\<rparr>)"

definition Explain ::
  "Runtime \<Rightarrow> (Principal \<Rightarrow> RoleSlug list) \<Rightarrow> Principal \<Rightarrow> Action \<Rightarrow> AuthTarget \<Rightarrow> Trace" where
  "Explain r rolesFor p a t =
     (if p_Kind p = ''system'' then
        \<lparr>Decision = ''ALLOWED'', tr_Reason = ''system_bypass'', tr_RuleName = '''', Steps = [SystemBypass]\<rparr>
      else
        (let c = compiled r; rolesList = sortedRoles (rolesFor p);
             actionKey = MakeActionKey (a_Service a) (a_Method a); verb = a_Verb a;
             steps = [PrincipalRoles (p_ID p) rolesList] in
         case List.find (\<lambda>role. permitsAction c role verb actionKey) rolesList of
           None \<Rightarrow> \<lparr>Decision = ''DENIED'', tr_Reason = ''action_denied'', tr_RuleName = '''',
                    Steps = steps @ [NoRolePermits verb actionKey]\<rparr>
         | Some role \<Rightarrow>
            (case c of
               None \<Rightarrow> \<lparr>Decision = ''ALLOWED'', tr_Reason = '''', tr_RuleName = '''', Steps = steps\<rparr>
             | Some c' \<Rightarrow> explainTarget c' rolesList a t (steps @ [ActionPermitted role verb actionKey]))))"

section \<open>Minting tokens\<close>

record TokenTargetSelector =
  tt_Areas :: "string list"
  tt_Classes :: "string list"
  tt_EntityIds :: "string list"

record TokenScope =
  ts_AllowTools :: "string list"
  ts_AllowServices :: "string list"
  ts_AllowTargets :: "TokenTargetSelector option"

definition countStars :: "string \<Rightarrow> nat" where
  "countStars p = length (filter (\<lambda>c. c = CHR ''*'') p)"

definition validateTokenScopePattern :: "string \<Rightarrow> error option" where
  "validateTokenScopePattern pattern =
     (if pattern = '''' then Some ''validation failed: empty token scope pattern''
      else if countStars pattern = 0 then None
      else if countStars pattern = 1 \<and> hasStar pattern then None
      else Some ''validation failed: token scope wildcards must be trailing-only'')"

fun firstError :: "('a \<Rightarrow> error option) \<Rightarrow> 'a list \<Rightarrow> error option" where
  "firstError f [] = None"
| "firstError f (x # xs) = (case f x of Some e \<Rightarrow> Some e | None \<Rightarrow> firstError f xs)"

definition scopeTargets :: "TokenScope \<Rightarrow> TokenTargetSelector" where
  "scopeTargets scope = (case ts_AllowTargets scope of
     None \<Rightarrow> \<lparr>tt_Areas = [], tt_Classes = [], tt_EntityIds = []\<rparr> | Some s \<Rightarrow> s)"

definition rejectEmpty :: "error \<Rightarrow> string \<Rightarrow> error option" where
  "rejectEmpty e item = (if item = '''' then Some e else None)"

definition validateTokenScopePB :: "TokenScope option \<Rightarrow> error option" where
  "validateTokenScopePB scope =
     (case scope of
        None \<Rightarrow> None
      | Some s \<Rightarrow>
         (case firstError validateTokenScopePattern (ts_AllowTools s) of Some e \<Rightarrow> Some e | None \<Rightarrow>
          (case firstError validateTokenScopePattern (ts_AllowServices s) of Some e \<Rightarrow> Some e | None \<Rightarrow>
           (case firstError (rejectEmpty ''validation failed: empty area selector'') (tt_Areas (scopeTargets s)) of
              Some e \<Rightarrow> Some e | None \<Rightarrow>
            (case firstError (rejectEmpty ''validation failed: empty class selector'') (tt_Classes (scopeTargets s)) of
               Some e \<Rightarrow> Some e | None \<Rightarrow>
             firstError (rejectEmpty ''validation failed: empty entity selector'') (tt_EntityIds (scopeTargets s)))))))"

definition emptySelector :: CompiledSelector where
  "emptySelector = \<lparr>Hash = '''', AreaSet = {}, ClassSet = {}, EntitySet = {}, MatchAny = False\<rparr>"

definition compileTokenTargetSelector :: "TokenTargetSelector option \<Rightarrow> CompiledSelector" where
  "compileTokenTargetSelector sel =
     (case sel of
        None \<Rightarrow> emptySelector
      | Some s \<Rightarrow> \<lparr>Hash = '''', AreaSet = set (tt_Areas s), ClassSet = set (tt_Classes s),
                   EntitySet = set (tt_EntityIds s), MatchAny = False\<rparr>)"

definition fullScope :: CompiledTokenScope where
  "fullScope = \<lparr>AllowedActions = {}, AllowedTools = [], AllowedServices = [], AllowedTargets = emptySelector\<rparr>"

definition compileTokenScopePB :: "TokenScope option \<Rightarrow> error + CompiledTokenScope" where
  "compileTokenScopePB scope =
     (case validateTokenScopePB scope of
        Some e \<Rightarrow> Inl e
      | None \<Rightarrow>
         (case scope of
            None \<Rightarrow> Inr fullScope
          | Some s \<Rightarrow> Inr \<lparr>AllowedActions = {}, AllowedTools = ts_AllowTools s, AllowedServices = ts_AllowServices s,
                           AllowedTargets = compileTokenTargetSelector (ts_AllowTargets s)\<rparr>))"

definition emptyTokenScopePB :: "TokenScope option \<Rightarrow> bool" where
  "emptyTokenScopePB scope \<longleftrightarrow>
     (case scope of
        None \<Rightarrow> True
      | Some s \<Rightarrow> ts_AllowTools s = [] \<and> ts_AllowServices s = [] \<and> tt_Areas (scopeTargets s) = [] \<and>
          tt_Classes (scopeTargets s) = [] \<and> tt_EntityIds (scopeTargets s) = [])"

text \<open>
  \<open>tokenScopeBlobForMint\<close>; \<open>marshal\<close> is \<open>proto.Marshal\<close>. Its first result is what the token stores. The
  summary is \<open>tokenScopeSummary\<close>.
\<close>

definition tokenScopeSummary :: "TokenScope option \<Rightarrow> string" where
  "tokenScopeSummary scope =
     (case scope of
        None \<Rightarrow> ''full''
      | Some s \<Rightarrow>
         if emptyTokenScopePB scope then ''full''
         else joinWith '',''
           (concat (map (\<lambda>(label, n). if n > (0::nat) then [label @ showNat n] else [])
             [(''tools='', length (ts_AllowTools s)), (''services='', length (ts_AllowServices s)),
              (''areas='', length (tt_Areas (scopeTargets s))), (''classes='', length (tt_Classes (scopeTargets s))),
              (''entities='', length (tt_EntityIds (scopeTargets s)))])))"

definition tokenScopeBlobForMint ::
  "(TokenScope \<Rightarrow> error + bytes) \<Rightarrow> CompiledTokenScope option \<Rightarrow> TokenScope option \<Rightarrow> error + bytes \<times> string" where
  "tokenScopeBlobForMint marshal parent scope =
     (case compileTokenScopePB scope of
        Inl e \<Rightarrow> Inl e
      | Inr c \<Rightarrow>
          if (case parent of None \<Rightarrow> False | Some s \<Rightarrow> \<not> Contains s c) then Inl ''token scope broader than issuer''
          else if emptyTokenScopePB scope then Inr ('''', ''full'')
          else (case scope of
             None \<Rightarrow> Inr ('''', ''full'')
           | Some s \<Rightarrow> (case marshal s of
               Inl e \<Rightarrow> Inl e
             | Inr blob \<Rightarrow> Inr (blob, tokenScopeSummary scope))))"

text \<open>
  Reading a token's scope on a later request: the decoding proper, and \<open>decodeTokenScope\<close>, which
  remembers what it decoded in the cache \<open>tokenScopeCache\<close> under the token's id (or, without an id,
  the hash of the stored bytes).
\<close>

definition decodeScopeBlob :: "(bytes \<Rightarrow> error + TokenScope) \<Rightarrow> bytes \<Rightarrow> error + CompiledTokenScope" where
  "decodeScopeBlob unmarshal blob =
     (if blob = '''' then Inr fullScope
      else case unmarshal blob of
        Inl e \<Rightarrow> Inl e
      | Inr s \<Rightarrow> compileTokenScopePB (Some s))"

definition scopeCacheKey :: "(bytes \<Rightarrow> string) \<Rightarrow> string \<Rightarrow> bytes \<Rightarrow> string" where
  "scopeCacheKey sha tokenID blob = (if tokenID = '''' then sha blob else tokenID)"

definition decodeTokenScope ::
  "(bytes \<Rightarrow> error + TokenScope) \<Rightarrow> (bytes \<Rightarrow> string) \<Rightarrow> string \<Rightarrow> bytes \<Rightarrow> (string \<rightharpoonup> CompiledTokenScope)
     \<Rightarrow> (error + CompiledTokenScope) \<times> (string \<rightharpoonup> CompiledTokenScope)" where
  "decodeTokenScope unmarshal sha tokenID blob cache =
     (if blob = '''' then (Inr fullScope, cache)
      else case cache (scopeCacheKey sha tokenID blob) of
        Some s \<Rightarrow> (Inr s, cache)
      | None \<Rightarrow> (case decodeScopeBlob unmarshal blob of
          Inl e \<Rightarrow> (Inl e, cache)
        | Inr s \<Rightarrow> (Inr s, cache(scopeCacheKey sha tokenID blob \<mapsto> s))))"

text \<open>
  The cache is transparent as long as a key stands for one stored blob, which \<open>blobOf\<close> gives.
\<close>

definition scope_cache_ok ::
  "(bytes \<Rightarrow> error + TokenScope) \<Rightarrow> (string \<Rightarrow> bytes) \<Rightarrow> (string \<rightharpoonup> CompiledTokenScope) \<Rightarrow> bool" where
  "scope_cache_ok unmarshal blobOf cache \<longleftrightarrow>
     (\<forall>k s. cache k = Some s \<longrightarrow> decodeScopeBlob unmarshal (blobOf k) = Inr s)"

lemma decodeTokenScope_transparent:
  assumes "scope_cache_ok unmarshal blobOf cache" "blobOf (scopeCacheKey sha tokenID blob) = blob"
  shows "fst (decodeTokenScope unmarshal sha tokenID blob cache) = decodeScopeBlob unmarshal blob \<and>
    scope_cache_ok unmarshal blobOf (snd (decodeTokenScope unmarshal sha tokenID blob cache))"
proof (cases "blob = ''''")
  case True
  with assms(1) show ?thesis by (simp add: decodeTokenScope_def decodeScopeBlob_def)
next
  case False
  show ?thesis
  proof (cases "cache (scopeCacheKey sha tokenID blob)")
    case None
    with False assms show ?thesis
      by (auto simp: decodeTokenScope_def scope_cache_ok_def split: sum.split)
  next
    case (Some s)
    with assms have "decodeScopeBlob unmarshal blob = Inr s" by (metis scope_cache_ok_def)
    with Some False assms(1) show ?thesis by (simp add: decodeTokenScope_def)
  qed
qed

section \<open>What \<open>Authorize\<close> decides\<close>

definition rawApplies :: "AreaTree \<Rightarrow> RawRule \<Rightarrow> Action \<Rightarrow> Target \<Rightarrow> bool" where
  "rawApplies areas rr a t \<longleftrightarrow> (rr_Verbs rr = [] \<or> a_Verb a \<in> set (rr_Verbs rr)) \<and>
     (rr_Services rr = [] \<or> a_Service a \<in> set (rr_Services rr)) \<and> rawSelects areas (rr_Targets rr) t"

lemma ruleMatches_raw:
  "compiled_as areas cr (name, rr) \<Longrightarrow> ruleMatches cr a t = rawApplies areas rr a t"
  by (auto simp: compiled_as_def ruleMatches_def rawApplies_def)

lemma some_rule_matches:
  assumes "list_all2 (compiled_as areas) crs rrs"
  shows "(\<exists>cr \<in> set crs. ruleMatches cr a t) \<longleftrightarrow> (\<exists>(name, rr) \<in> set rrs. rawApplies areas rr a t)"
  using assms
proof (induction rule: list_all2_induct)
  case (Cons cr crs x rrs)
  obtain name rr where "x = (name, rr)" by fastforce
  with Cons ruleMatches_raw [of areas cr name rr a t] show ?case by auto
qed simp

lemma firstDeny_None:
  "firstDeny c roles a t = None \<longleftrightarrow> \<not> (\<exists>role \<in> set roles. \<exists>rule \<in> set (DenyRules c role). ruleMatches rule a t)"
  by (auto simp: firstDeny_def find_None_iff)

lemma checkScope_None:
  "checkScope scope verb key t = None \<longleftrightarrow> (case scope of None \<Rightarrow> True | Some s \<Rightarrow> actionAllowed s key \<and>
     (at_Kind t = ''entity'' \<longrightarrow> targetAllowed s (targetFromAuth t)))"
  by (auto simp: checkScope_def Allow_def PermitsAction_def split: option.splits)

lemma checkTarget_None:
  "checkTarget c roles a t = None \<longleftrightarrow> (at_Kind t = ''entity'' \<longrightarrow>
     (\<exists>role \<in> set roles. \<exists>rule \<in> set (AllowRules c role). ruleMatches rule a (targetFromAuth t)) \<and>
     \<not> (\<exists>role \<in> set roles. \<exists>rule \<in> set (DenyRules c role). ruleMatches rule a (targetFromAuth t)))"
  using firstDeny_None [of c roles a "targetFromAuth t"]
  by (cases "firstDeny c roles a (targetFromAuth t)") (auto simp: checkTarget_def Let_def)

lemma Authorize_raw:
  assumes "Compile sha rps roleGraph areas catalog gen = Some (Inr c, gen')"
    and "inj_on sha (selBytes ` (\<Union> (policySelectors ` set rps)))"
    and "\<forall>rs \<in> \<Union> (policySelectors ` set rps). \<forall>s \<in> set (rs_Areas rs). clean_item s"
    and "compiled r = Some c" "p_Kind p \<noteq> ''system''"
  shows "Authorize r rolesFor scope p a t = None \<longleftrightarrow>
    (\<exists>role \<in> set (rolesFor p). grants catalog (rulesFor rp_Allow rps role) (a_Verb a)
       (MakeActionKey (a_Service a) (a_Method a))) \<and>
    (case scope of None \<Rightarrow> True | Some s \<Rightarrow> actionAllowed s (MakeActionKey (a_Service a) (a_Method a)) \<and>
       (at_Kind t = ''entity'' \<longrightarrow> targetAllowed s (targetFromAuth t))) \<and>
    (at_Kind t = ''entity'' \<longrightarrow>
       (\<exists>role \<in> set (rolesFor p). \<exists>(name, rr) \<in> set (rulesFor rp_Allow rps role). rawApplies areas rr a (targetFromAuth t)) \<and>
       \<not> (\<exists>role \<in> set (rolesFor p). \<exists>(name, rr) \<in> set (rulesFor rp_Deny rps role). rawApplies areas rr a (targetFromAuth t)))"
proof -
  note d = Compile_denotes [OF assms(1) no_collisionI [OF assms(2,3)]]
  then have al: "list_all2 (compiled_as areas) (AllowRules c role) (rulesFor rp_Allow rps role)"
    and dn: "list_all2 (compiled_as areas) (DenyRules c role) (rulesFor rp_Deny rps role)"
    and gr: "permitsAction (Some c) role verb key = grants catalog (rulesFor rp_Allow rps role) verb key" for role verb key
    by (auto simp: denotes_def allowed_def)
  show ?thesis
    unfolding some_rule_matches [OF al, symmetric] some_rule_matches [OF dn, symmetric] gr [symmetric]
      checkScope_None [of scope "a_Verb a" _ t, symmetric] checkTarget_None [symmetric]
    using assms(4,5) by (auto simp: Authorize_def Let_def split: option.splits)
qed


text \<open>A household with one policy, for the witnesses.\<close>

definition homeTree :: AreaTree where
  "homeTree = \<lparr>Children = [(''home'', [''attic'', ''cellar'']), (''attic'', []), (''cellar'', [])], Parent = []\<rparr>"

definition homeCatalog :: "CatalogAction list" where
  "homeCatalog = [\<lparr>ca_Service = ''EntityService'', ca_Method = ''Call'', ca_Verb = ''call'', ca_IsEntity = True\<rparr>]"

definition areaSelector :: "string list \<Rightarrow> RawSelector" where
  "areaSelector as = \<lparr>rs_Areas = as, rs_Classes = [], rs_EntityIDs = [], rs_MatchAny = False\<rparr>"

definition homePolicy :: RawPolicy where
  "homePolicy = \<lparr>rp_Name = ''kids'', rp_Subjects = [''kid''],
     rp_Allow = [\<lparr>rr_Verbs = [], rr_Targets = areaSelector [''home''], rr_Services = []\<rparr>],
     rp_Deny = [\<lparr>rr_Verbs = [''call''], rr_Targets = areaSelector [''cellar''], rr_Services = []\<rparr>]\<rparr>"

definition homeRoles :: RoleGraph where
  "homeRoles = [(''kid'', \<lparr>rn_Slug = ''kid'', rn_Inherits = []\<rparr>)]"

definition kid :: Principal where
  "kid = \<lparr>p_ID = ''user:kim'', p_DisplayName = ''Kim'', p_Kind = ''user'', p_Metadata = []\<rparr>"

definition callEntity :: Action where
  "callEntity = \<lparr>a_Service = ''EntityService'', a_Method = ''Call'', a_Verb = ''call''\<rparr>"

definition lampIn :: "string \<Rightarrow> AuthTarget" where
  "lampIn area = \<lparr>at_Kind = ''entity'', at_ID = ''lamp'', at_Area = area, at_Class = ''light'', at_Attr = None\<rparr>"

lemma home_acyclic: "acyclic (roleEdges homeRoles)"
  by (auto simp: acyclic_def roleEdges_def edges_def homeRoles_def inheritsOf_def split: option.splits if_splits dest!: tranclD)

lemma home_compiles:
  assumes "acyclic (roleEdges graph)"
  shows "\<exists>c. Compile id [homePolicy] graph homeTree homeCatalog 0 = Some (Inr c, 1)"
proof -
  obtain inh where "resolveRoleInheritance graph = Some (Inr inh)"
    using resolveEach_spec [of "map fst graph" graph] assms by (auto simp: resolveRoleInheritance_def)
  then show ?thesis
    by (simp add: Compile_def compilePolicies_def homePolicy_def compileSubject_def compileAllow_def compileDeny_def
        compileRule_def unknownService_def Let_def case_prod_beta)
qed

lemma home_selectors: "\<Union> (policySelectors ` set [homePolicy]) = {areaSelector [''home''], areaSelector [''cellar'']}"
  by (auto simp: policySelectors_def homePolicy_def)

lemma home_clean: "\<forall>rs \<in> \<Union> (policySelectors ` set [homePolicy]). \<forall>s \<in> set (rs_Areas rs). clean_item s"
  unfolding home_selectors by (simp add: areaSelector_def clean_item_def)

lemma home_reach: "(areaEdges homeTree)\<^sup>* `` {''home''} = {''home'', ''attic'', ''cellar''}"
    "(areaEdges homeTree)\<^sup>* `` {''cellar''} = {''cellar''}"
proof -
  have e: "ExpandAreas homeTree [''home''] = Some {''home'', ''attic'', ''cellar''}"
      "ExpandAreas homeTree [''cellar''] = Some {''cellar''}"
    by (simp_all add: ExpandAreas_def expandDecl_def homeTree_def areaDepth_def childrenOf_def insert_commute)
  have "declRoots homeTree ''home'' = {''home''}" "declRoots homeTree ''cellar'' = {''cellar''}"
    by (simp_all add: declRoots_def homeTree_def)
  with e show "(areaEdges homeTree)\<^sup>* `` {''home''} = {''home'', ''attic'', ''cellar''}"
    "(areaEdges homeTree)\<^sup>* `` {''cellar''} = {''cellar''}"
    by (simp_all add: ExpandAreas_eq)
qed

lemma home_rules:
  "rulesFor rp_Allow [homePolicy] ''kid'' =
     [(''kids'', \<lparr>rr_Verbs = [], rr_Targets = areaSelector [''home''], rr_Services = []\<rparr>)]"
  "rulesFor rp_Deny [homePolicy] ''kid'' =
     [(''kids'', \<lparr>rr_Verbs = [''call''], rr_Targets = areaSelector [''cellar''], rr_Services = []\<rparr>)]"
  by (simp_all add: rulesFor_def homePolicy_def)

lemma home_selects:
  "rawSelects homeTree (areaSelector [''home'']) (targetFromAuth (lampIn ''attic''))"
  "\<not> rawSelects homeTree (areaSelector [''cellar'']) (targetFromAuth (lampIn ''attic''))"
  "rawSelects homeTree (areaSelector [''cellar'']) (targetFromAuth (lampIn ''cellar''))"
proof -
  have "declRoots homeTree ''home'' = {''home''}" "declRoots homeTree ''cellar'' = {''cellar''}"
    by (simp_all add: declRoots_def homeTree_def)
  then show "rawSelects homeTree (areaSelector [''home'']) (targetFromAuth (lampIn ''attic''))"
    "\<not> rawSelects homeTree (areaSelector [''cellar'']) (targetFromAuth (lampIn ''attic''))"
    "rawSelects homeTree (areaSelector [''cellar'']) (targetFromAuth (lampIn ''cellar''))"
    by (simp_all add: rawSelects_def areaSelector_def targetFromAuth_def lampIn_def home_reach)
qed

lemma home_grants: "grants homeCatalog (rulesFor rp_Allow [homePolicy] ''kid'') ''call'' (MakeActionKey ''EntityService'' ''Call'')"
  by (simp add: home_rules grants_def homeCatalog_def allowsAction_def areaSelector_def AllVerbs_def)


section \<open>Delegation\<close>

lemma tokenPatternCovers_matches:
  "tokenPatternCovers parent child \<Longrightarrow> tokenPatternMatches child action \<Longrightarrow> tokenPatternMatches parent action"
  by (auto simp: tokenPatternCovers_def tokenPatternMatches_def split: if_splits)

lemma coversPattern_matches:
  assumes "AllowedActions s = {}" "coversPattern s p" "tokenPatternMatches p action"
  shows "(\<exists>q \<in> set (AllowedTools s). tokenPatternMatches q action) \<or>
    (\<exists>q \<in> set (AllowedServices s). tokenPatternMatches q action)"
  using assms by (auto simp: coversPattern_def dest: tokenPatternCovers_matches [OF _ assms(3)])

lemma containsActions_sound:
  assumes "AllowedActions s = {}" "containsActions s child" "actionAllowed child action"
  shows "actionAllowed s action"
proof (cases "hasActionNarrowing s")
  case True
  with assms(2) have child: "hasActionNarrowing child" and cover: "\<forall>a \<in> AllowedActions child. actionAllowed s a"
    "\<forall>p \<in> set (AllowedTools child). coversPattern s p" "\<forall>p \<in> set (AllowedServices child). coversPattern s p"
    by (auto simp: containsActions_def split: if_splits)
  from child assms(3) consider "action \<in> AllowedActions child"
    | p where "p \<in> set (AllowedTools child) \<union> set (AllowedServices child)" "tokenPatternMatches p action"
    by (auto simp: actionAllowed_def hasActionNarrowing_def split: if_splits)
  then show ?thesis
  proof cases
    case 1
    with cover(1) show ?thesis by blast
  next
    case 2
    with cover(2,3) have "coversPattern s p" by blast
    from coversPattern_matches [OF assms(1) this 2(2)] show ?thesis by (auto simp: actionAllowed_def)
  qed
qed (auto simp: actionAllowed_def hasActionNarrowing_def)

lemma containsTargets_sound:
  "containsTargets s child \<Longrightarrow> targetAllowed child t \<Longrightarrow> targetAllowed s t"
  by (auto simp: containsTargets_def targetAllowed_def selectorIsEmpty_def SelectorMatches_def Let_def split: if_splits)

lemma Authorize_scope_mono:
  assumes "\<And>action. actionAllowed child action \<Longrightarrow> actionAllowed s action"
    and "\<And>t. targetAllowed child t \<Longrightarrow> targetAllowed s t"
    and "Authorize r rolesFor (Some child) p a t = None"
  shows "Authorize r rolesFor (Some s) p a t = None"
proof -
  have "checkScope (Some child) verb key t = None \<Longrightarrow> checkScope (Some s) verb key t = None" for verb key
    using assms(1,2) by (auto simp: checkScope_None)
  then show ?thesis
    using assms(3) by (auto simp: Authorize_def Let_def split: option.splits if_splits)
qed

lemma Authorize_unscoped:
  "Authorize r rolesFor (Some s) p a t = None \<Longrightarrow> Authorize r rolesFor None p a t = None"
  by (auto simp: Authorize_def Let_def checkScope_def split: option.splits if_splits)

text \<open>
  A request without a token scope (\<open>None\<close>), or one whose scope was read from a token, mints a token;
  \<open>delegates\<close> follows any number of such steps from the scope of one request to the scope of another.
\<close>

inductive delegates ::
  "(TokenScope \<Rightarrow> error + bytes) \<Rightarrow> (bytes \<Rightarrow> error + TokenScope) \<Rightarrow> CompiledTokenScope option
     \<Rightarrow> CompiledTokenScope option \<Rightarrow> bool"
  for marshal unmarshal where
  delegates_refl: "delegates marshal unmarshal s s"
| delegates_mint: "delegates marshal unmarshal s s' \<Longrightarrow> tokenScopeBlobForMint marshal s' scope = Inr (blob, summary) \<Longrightarrow>
     decodeScopeBlob unmarshal blob = Inr c \<Longrightarrow> delegates marshal unmarshal s (Some c)"

definition emptyTokenScope :: TokenScope where
  "emptyTokenScope = \<lparr>ts_AllowTools = [], ts_AllowServices = [], ts_AllowTargets = None\<rparr>"

text \<open>What the code relies on of \<open>proto.Marshal\<close> and \<open>proto.Unmarshal\<close>.\<close>

definition proto_codec :: "(TokenScope \<Rightarrow> error + bytes) \<Rightarrow> (bytes \<Rightarrow> error + TokenScope) \<Rightarrow> bool" where
  "proto_codec marshal unmarshal \<longleftrightarrow>
     (\<forall>s b. marshal s = Inr b \<longrightarrow> unmarshal b = Inr s) \<and> unmarshal '''' = Inr emptyTokenScope"

lemma compileTokenScopePB_Inr:
  "compileTokenScopePB (Some s) = Inr c \<longleftrightarrow> validateTokenScopePB (Some s) = None \<and>
     c = \<lparr>AllowedActions = {}, AllowedTools = ts_AllowTools s, AllowedServices = ts_AllowServices s,
          AllowedTargets = compileTokenTargetSelector (ts_AllowTargets s)\<rparr>"
  by (auto simp: compileTokenScopePB_def split: option.splits)

lemma compileTokenScopePB_no_actions: "compileTokenScopePB scope = Inr c \<Longrightarrow> AllowedActions c = {}"
  by (auto simp: compileTokenScopePB_def fullScope_def split: option.splits)

lemma decodeScopeBlob_no_actions: "decodeScopeBlob unmarshal blob = Inr c \<Longrightarrow> AllowedActions c = {}"
  by (auto simp: decodeScopeBlob_def fullScope_def compileTokenScopePB_no_actions split: if_splits sum.splits)

text \<open>A scope that restricts nothing compiles to selectors that admit what \<open>fullScope\<close> admits.\<close>

lemma emptyTokenScopePB_full:
  assumes "emptyTokenScopePB scope" "compileTokenScopePB scope = Inr c"
  shows "actionAllowed c action = actionAllowed fullScope action \<and> targetAllowed c t = targetAllowed fullScope t"
  using assms
  by (auto simp: emptyTokenScopePB_def compileTokenScopePB_def scopeTargets_def fullScope_def emptySelector_def
      compileTokenTargetSelector_def actionAllowed_def targetAllowed_def split: option.splits)

lemma mint_decode:
  assumes codec: "proto_codec marshal unmarshal"
    and mint: "tokenScopeBlobForMint marshal parent scope = Inr (blob, summary)"
    and dec: "decodeScopeBlob unmarshal blob = Inr c"
  shows "\<exists>c'. compileTokenScopePB scope = Inr c' \<and> (\<forall>s. parent = Some s \<longrightarrow> Contains s c') \<and>
    (\<forall>action t. actionAllowed c' action = actionAllowed c action \<and> targetAllowed c' t = targetAllowed c t)"
proof -
  from mint obtain c' where c': "compileTokenScopePB scope = Inr c'" "\<forall>s. parent = Some s \<longrightarrow> Contains s c'"
    by (auto simp: tokenScopeBlobForMint_def split: sum.splits option.splits if_splits)
  show ?thesis
  proof (cases "emptyTokenScopePB scope")
    case True
    with mint c' have "blob = ''''" by (auto simp: tokenScopeBlobForMint_def split: if_splits option.splits)
    with dec emptyTokenScopePB_full [OF True c'(1)] c' show ?thesis by (auto simp: decodeScopeBlob_def)
  next
    case False
    then obtain s where s: "scope = Some s" by (auto simp: emptyTokenScopePB_def split: option.splits)
    with False mint c' have m: "marshal s = Inr blob"
      by (auto simp: tokenScopeBlobForMint_def split: if_splits option.splits sum.splits)
    then have u: "unmarshal blob = Inr s" using codec by (simp add: proto_codec_def)
    have "blob \<noteq> ''''"
      using u False codec by (auto simp: s proto_codec_def emptyTokenScope_def emptyTokenScopePB_def scopeTargets_def)
    with u dec c' have "c = c'" by (simp add: decodeScopeBlob_def s)
    with c' show ?thesis by auto
  qed
qed

lemma Contains_Authorize:
  assumes "AllowedActions s = {}" "Contains s c'" "Authorize r rolesFor (Some c) p a t = None"
    and "\<And>action t. actionAllowed c' action = actionAllowed c action \<and> targetAllowed c' t = targetAllowed c t"
  shows "Authorize r rolesFor (Some s) p a t = None"
  using assms containsActions_sound [of s c'] containsTargets_sound [of s c']
  by (intro Authorize_scope_mono [OF _ _ assms(3)]) (auto simp: Contains_def)

text \<open>
  C6. Delegation never widens. When the holder of a token (or of a session, which has no scope) mints a
  token, and that token mints another, and so on, whatever a request with the last token may do, a
  request of the same principal with the first scope may do too, under every policy. The scope of a
  token is what \<open>decodeScopeBlob\<close> reads back from the stored bytes.
\<close>

theorem delegation_never_widens:
  assumes "proto_codec marshal unmarshal"
    and "delegates marshal unmarshal s s'"
    and "\<forall>c. s = Some c \<longrightarrow> (\<exists>blob. decodeScopeBlob unmarshal blob = Inr c)"
    and "Authorize r rolesFor s' p a t = None"
  shows "Authorize r rolesFor s p a t = None"
  using assms(2,4,3)
proof (induction rule: delegates.induct)
  case (delegates_mint s s' scope blob summary c)
  obtain c' where c': "\<forall>x. s' = Some x \<longrightarrow> Contains x c'"
    "\<forall>action t. actionAllowed c' action = actionAllowed c action \<and> targetAllowed c' t = targetAllowed c t"
    using mint_decode [OF assms(1) delegates_mint.hyps(2,3)] by blast
  have no_actions: "AllowedActions x = {}" if "s' = Some x" for x
    using delegates_mint.hyps(1) that delegates_mint.prems(2)
    by cases (auto dest: decodeScopeBlob_no_actions)
  have "Authorize r rolesFor s' p a t = None"
  proof (cases s')
    case None
    with delegates_mint.prems(1) show ?thesis by (auto dest: Authorize_unscoped)
  next
    case (Some x)
    with Contains_Authorize [OF no_actions _ delegates_mint.prems(1), of x c'] c' show ?thesis by blast
  qed
  with delegates_mint.IH delegates_mint.prems(2) show ?case by blast
qed

text \<open>A codec with the laws of \<open>proto_codec\<close> (on scopes without targets), for the witness.\<close>

definition scopeMarshal :: "TokenScope \<Rightarrow> error + bytes" where
  "scopeMarshal s = (case ts_AllowTools s of
     [t] \<Rightarrow> if ts_AllowServices s = [] \<and> ts_AllowTargets s = None then Inr (CHR ''T'' # t) else Inl ''unsupported''
   | _ \<Rightarrow> Inl ''unsupported'')"

definition scopeUnmarshal :: "bytes \<Rightarrow> error + TokenScope" where
  "scopeUnmarshal b = (case b of
     [] \<Rightarrow> Inr emptyTokenScope
   | _ # t \<Rightarrow> Inr \<lparr>ts_AllowTools = [t], ts_AllowServices = [], ts_AllowTargets = None\<rparr>)"

definition toolScope :: "string \<Rightarrow> TokenScope" where
  "toolScope p = \<lparr>ts_AllowTools = [p], ts_AllowServices = [], ts_AllowTargets = None\<rparr>"

definition toolCompiled :: "string \<Rightarrow> CompiledTokenScope" where
  "toolCompiled p = \<lparr>AllowedActions = {}, AllowedTools = [p], AllowedServices = [], AllowedTargets = emptySelector\<rparr>"

lemma demo_codec: "proto_codec scopeMarshal scopeUnmarshal"
  by (auto simp: proto_codec_def scopeMarshal_def scopeUnmarshal_def split: list.splits if_splits)

lemma tool_mint:
  assumes "tokenPatternCovers q p" "validateTokenScopePattern p = None"
  shows "tokenScopeBlobForMint scopeMarshal (Some (toolCompiled q)) (Some (toolScope p)) =
    Inr (CHR ''T'' # p, tokenScopeSummary (Some (toolScope p)))"
  using assms
  by (simp add: tokenScopeBlobForMint_def compileTokenScopePB_def validateTokenScopePB_def toolScope_def scopeTargets_def
      toolCompiled_def Contains_def containsActions_def hasActionNarrowing_def coversPattern_def containsTargets_def
      selectorIsEmpty_def emptySelector_def compileTokenTargetSelector_def emptyTokenScopePB_def scopeMarshal_def)

lemma tool_decode:
  "validateTokenScopePattern p = None \<Longrightarrow> decodeScopeBlob scopeUnmarshal (CHR ''T'' # p) = Inr (toolCompiled p)"
  by (simp add: decodeScopeBlob_def scopeUnmarshal_def compileTokenScopePB_def validateTokenScopePB_def scopeTargets_def
      toolCompiled_def compileTokenTargetSelector_def)

theorem delegation_never_widens_witness:
  "Authorize \<lparr>compiled = Some ((emptyCompiled 1 [])\<lparr>ActionAllowlist := [(''kid'', ''call'') \<mapsto> {''S.Call''}]\<rparr>), subs = []\<rparr>
     (\<lambda>_. [''kid'']) (Some (toolCompiled ''S.*'')) kid \<lparr>a_Service = ''S'', a_Method = ''Call'', a_Verb = ''call''\<rparr>
     \<lparr>at_Kind = ''system'', at_ID = '''', at_Area = '''', at_Class = '''', at_Attr = None\<rparr> = None"
proof -
  let ?r = "\<lparr>compiled = Some ((emptyCompiled 1 [])\<lparr>ActionAllowlist := [(''kid'', ''call'') \<mapsto> {''S.Call''}]\<rparr>), subs = []\<rparr>"
  let ?a = "\<lparr>a_Service = ''S'', a_Method = ''Call'', a_Verb = ''call''\<rparr>"
  let ?t = "\<lparr>at_Kind = ''system'', at_ID = '''', at_Area = '''', at_Class = '''', at_Attr = None\<rparr>"
  have v: "validateTokenScopePattern ''S.Call'' = None" "validateTokenScopePattern ''S.*'' = None"
    by (simp_all add: validateTokenScopePattern_def countStars_def hasStar_def)
  have "tokenPatternCovers ''S.*'' ''S.Call''" by (simp add: tokenPatternCovers_def hasStar_def trimStar_def)
  then have "delegates scopeMarshal scopeUnmarshal (Some (toolCompiled ''S.*'')) (Some (toolCompiled ''S.Call''))"
    by (intro delegates_mint [OF delegates_refl tool_mint tool_decode] v)
  moreover have "Authorize ?r (\<lambda>_. [''kid'']) (Some (toolCompiled ''S.Call'')) kid ?a ?t = None"
    by (simp add: Authorize_def kid_def permitsAction_def MakeActionKey_def checkScope_def PermitsAction_def actionAllowed_def
        toolCompiled_def tokenPatternMatches_def hasStar_def checkTarget_def emptyCompiled_def)
  ultimately show ?thesis
    using delegation_never_widens [OF demo_codec] tool_decode [OF v(2)] by blast
qed

section \<open>Explanations and decisions\<close>

lemma set_sortedRoles [simp]: "set (sortedRoles roles) = set roles"
  by (simp add: sortedRoles_def)

lemma matchingRule_None: "matchingRule rs i a t = None \<longleftrightarrow> (\<forall>r \<in> set rs. \<not> ruleMatches r a t)"
  by (induction rs arbitrary: i) auto

lemma matchingRule_Some: "matchingRule rs i a t = Some (r, j) \<Longrightarrow> r \<in> set rs \<and> ruleMatches r a t"
  by (induction rs arbitrary: i) (auto split: if_splits)

lemma matchingRole_None:
  "matchingRole rules roles a t = None \<longleftrightarrow> (\<forall>role \<in> set roles. \<forall>r \<in> set (rules role). \<not> ruleMatches r a t)"
  by (induction roles) (auto simp: matchingRule_None split: option.splits dest: matchingRule_Some)

lemma matchingRole_Some:
  "matchingRole rules roles a t = Some (role, r, j) \<Longrightarrow> role \<in> set roles \<and> r \<in> set (rules role) \<and> ruleMatches r a t"
  by (induction roles) (auto split: option.splits dest: matchingRule_Some)

lemma explainTarget_agrees:
  assumes "set rolesList = set roles"
  shows "case checkTarget c roles a t of
      None \<Rightarrow> Decision (explainTarget c rolesList a t steps) = ''ALLOWED''
    | Some e \<Rightarrow> Decision (explainTarget c rolesList a t steps) = ''DENIED'' \<and>
        tr_Reason (explainTarget c rolesList a t steps) = Reason e"
proof -
  let ?t = "targetFromAuth t"
  have al: "matchingRole (AllowRules c) rolesList a ?t = None \<longleftrightarrow>
      \<not> (\<exists>role \<in> set roles. \<exists>rule \<in> set (AllowRules c role). ruleMatches rule a ?t)"
    and dn: "matchingRole (DenyRules c) rolesList a ?t = None \<longleftrightarrow> firstDeny c roles a ?t = None"
    using assms by (simp_all add: matchingRole_None firstDeny_None)
  show ?thesis
    unfolding checkTarget_def explainTarget_def Let_def al [symmetric] using dn
    by (auto simp: forbidden_def split: option.splits)
qed

text \<open>
  \<open>Explain\<close> tells the truth about requests without a token scope: for a loaded policy its decision is
  \<open>ALLOWED\<close> exactly when \<open>Authorize\<close> lets the request through, and on a denial both give the same
  reason, in whatever order the roles are visited.
\<close>

theorem Explain_agrees:
  assumes "compiled r = Some c"
  shows "case Authorize r rolesFor None p a t of
      None \<Rightarrow> Decision (Explain r rolesFor p a t) = ''ALLOWED''
    | Some e \<Rightarrow> Decision (Explain r rolesFor p a t) = ''DENIED'' \<and> tr_Reason (Explain r rolesFor p a t) = Reason e"
proof (cases "p_Kind p = ''system''")
  case False
  let ?roles = "rolesFor p" and ?key = "MakeActionKey (a_Service a) (a_Method a)"
  let ?find = "List.find (\<lambda>role. permitsAction (Some c) role (a_Verb a) ?key) (sortedRoles ?roles)"
  have f: "?find = None \<longleftrightarrow> \<not> (\<exists>role \<in> set ?roles. permitsAction (Some c) role (a_Verb a) ?key)"
    by (auto simp: find_None_iff)
  show ?thesis
  proof (cases ?find)
    case None
    with False f assms show ?thesis by (simp add: Authorize_def Explain_def Let_def forbidden_def)
  next
    case (Some role)
    then have "\<exists>role \<in> set ?roles. permitsAction (Some c) role (a_Verb a) ?key" using f by simp
    with False Some assms have A: "Authorize r rolesFor None p a t = checkTarget c ?roles a t"
      and E: "Explain r rolesFor p a t = explainTarget c (sortedRoles ?roles) a t
         [PrincipalRoles (p_ID p) (sortedRoles ?roles), ActionPermitted role (a_Verb a) ?key]"
      by (auto simp: Authorize_def Explain_def Let_def checkScope_def)
    show ?thesis unfolding A E by (rule explainTarget_agrees) simp
  qed
qed (simp add: Authorize_def Explain_def)

theorem Explain_agrees_witness:
  "Decision (Explain \<lparr>compiled = Some (emptyCompiled 1 []), subs = []\<rparr> (\<lambda>_. [''kid'']) kid callEntity (lampIn ''attic'')) = ''DENIED'' \<and>
   Authorize \<lparr>compiled = Some (emptyCompiled 1 []), subs = []\<rparr> (\<lambda>_. [''kid'']) None kid callEntity (lampIn ''attic'') =
     Some (forbidden ''action_denied'')"
proof -
  have "Authorize \<lparr>compiled = Some (emptyCompiled 1 []), subs = []\<rparr> (\<lambda>_. [''kid'']) None kid callEntity (lampIn ''attic'') =
     Some (forbidden ''action_denied'')"
    by (simp add: Authorize_def kid_def permitsAction_def emptyCompiled_def)
  with Explain_agrees [of "\<lparr>compiled = Some (emptyCompiled 1 []), subs = []\<rparr>" "emptyCompiled 1 []" "\<lambda>_. [''kid'']" kid
      callEntity "lampIn ''attic''"]
  show ?thesis by simp
qed

section \<open>Role inheritance has no effect\<close>

text \<open>
  Role inheritance is resolved and stored by \<open>Compile\<close>, and changes no decision: two role graphs
  that both compile with the same policies give runtimes that let the same requests through. A role that
  inherits another does not get the permissions of that other role.
\<close>

theorem inheritance_ignored:
  assumes "Compile sha rps graph areas catalog gen = Some (Inr c, gen')"
    and "Compile sha rps graph' areas catalog gen2 = Some (Inr d, gen2')"
    and "inj_on sha (selBytes ` (\<Union> (policySelectors ` set rps)))"
    and "\<forall>rs \<in> \<Union> (policySelectors ` set rps). \<forall>s \<in> set (rs_Areas rs). clean_item s"
  shows "Authorize \<lparr>compiled = Some c, subs = fs\<rparr> rolesFor scope p a t = None \<longleftrightarrow>
    Authorize \<lparr>compiled = Some d, subs = fs\<rparr> rolesFor scope p a t = None"
proof (cases "p_Kind p = ''system''")
  case False
  show ?thesis
    using Authorize_raw [OF assms(1,3,4), of "\<lparr>compiled = Some c, subs = fs\<rparr>" p rolesFor scope a t]
      Authorize_raw [OF assms(2,3,4), of "\<lparr>compiled = Some d, subs = fs\<rparr>" p rolesFor scope a t] False
    by simp
qed (simp add: Authorize_def)

definition parentRoles :: RoleGraph where
  "parentRoles = [(''parent'', \<lparr>rn_Slug = ''parent'', rn_Inherits = [''kid'']\<rparr>), (''kid'', \<lparr>rn_Slug = ''kid'', rn_Inherits = []\<rparr>)]"

lemma parent_acyclic: "acyclic (roleEdges parentRoles)"
proof -
  have "roleEdges parentRoles \<subseteq> {(''parent'', ''kid'')}"
    by (auto simp: roleEdges_def edges_def parentRoles_def inheritsOf_def split: option.splits if_splits)
  moreover have "acyclic {(''parent'', ''kid'')}" by (auto simp: acyclic_def trancl_insert)
  ultimately show ?thesis by (rule acyclic_subset [rotated])
qed

theorem inheritance_ignored_witness:
  "\<exists>c d. Compile id [homePolicy] parentRoles homeTree homeCatalog 0 = Some (Inr c, 1) \<and>
     Compile id [homePolicy] homeRoles homeTree homeCatalog 0 = Some (Inr d, 1) \<and>
     (Authorize \<lparr>compiled = Some c, subs = []\<rparr> (\<lambda>_. [''parent'']) None kid callEntity (lampIn ''attic'') = None \<longleftrightarrow>
      Authorize \<lparr>compiled = Some d, subs = []\<rparr> (\<lambda>_. [''parent'']) None kid callEntity (lampIn ''attic'') = None)"
  using home_compiles [OF parent_acyclic] home_compiles [OF home_acyclic]
    inheritance_ignored [OF _ _ inj_on_id home_clean] by blast

end
