(* ===== verification/Go_Strings.thy ===== *)
theory Go_Strings
  imports Switchyard_Prelude
begin

text \<open>
  What the code uses of Go's \<^verbatim>\<open>strings\<close> and \<^verbatim>\<open>strconv\<close> packages: splitting at a byte, prefixes, and decimal
  integers in both directions, with their round trips.
\<close>

section \<open>Splitting\<close>

text \<open>\<open>strings.IndexByte\<close> followed by the two slices around the byte; \<open>None\<close>: not found.\<close>

definition cutAt :: "char \<Rightarrow> string \<Rightarrow> (string \<times> string) option" where
  "cutAt c s = (if c \<in> set s then Some (takeWhile (\<lambda>x. x \<noteq> c) s, tl (dropWhile (\<lambda>x. x \<noteq> c) s)) else None)"

text \<open>\<open>strings.SplitN\<close> with a separator of one byte.\<close>

fun splitN :: "char \<Rightarrow> nat \<Rightarrow> string \<Rightarrow> string list" where
  "splitN c 0 s = []"
| "splitN c (Suc 0) s = [s]"
| "splitN c (Suc (Suc n)) s = (case cutAt c s of None \<Rightarrow> [s] | Some (a, b) \<Rightarrow> a # splitN c (Suc n) b)"

text \<open>\<open>strings.TrimPrefix\<close>.\<close>

definition trimPrefix :: "string \<Rightarrow> string \<Rightarrow> string" where
  "trimPrefix s p = (if take (length p) s = p then drop (length p) s else s)"

definition hasPrefix :: "string \<Rightarrow> string \<Rightarrow> bool" where
  "hasPrefix s p \<longleftrightarrow> take (length p) s = p"

lemma cutAt_append [simp]: "c \<notin> set a \<Longrightarrow> cutAt c (a @ c # b) = Some (a, b)"
  by (induction a) (auto simp: cutAt_def)

lemma cutAt_None_iff [simp]: "cutAt c s = None \<longleftrightarrow> c \<notin> set s"
  by (simp add: cutAt_def)

lemma cutAt_SomeD: "cutAt c s = Some (a, b) \<Longrightarrow> s = a @ c # b \<and> c \<notin> set a"
proof -
  assume "cutAt c s = Some (a, b)"
  then have c: "c \<in> set s" and ab: "a = takeWhile (\<lambda>x. x \<noteq> c) s" "b = tl (dropWhile (\<lambda>x. x \<noteq> c) s)"
    by (auto simp: cutAt_def split: if_splits)
  from c obtain x xs where "dropWhile (\<lambda>x. x \<noteq> c) s = x # xs"
    by (cases "dropWhile (\<lambda>x. x \<noteq> c) s") auto
  moreover from this have "x = c" using hd_dropWhile [of "\<lambda>x. x \<noteq> c" s] by auto
  ultimately show ?thesis
    using takeWhile_dropWhile_id [of "\<lambda>x. x \<noteq> c" s] ab by (auto dest: set_takeWhileD)
qed

lemma trimPrefix_append [simp]: "trimPrefix (p @ s) p = s" "hasPrefix (p @ s) p"
  by (simp_all add: trimPrefix_def hasPrefix_def)

section \<open>Decimal integers\<close>

definition isDigit :: "char \<Rightarrow> bool" where
  "isDigit c \<longleftrightarrow> c \<in> set ''0123456789''"

definition digitsValue :: "string \<Rightarrow> int" where
  "digitsValue ds = foldl (\<lambda>n c. 10 * n + (int (of_char c) - 48)) 0 ds"

text \<open>\<open>strconv.FormatInt(i, 10)\<close>, which is also \<open>%d\<close>.\<close>

definition showInt :: "int \<Rightarrow> string" where
  "showInt i = (if i < 0 then CHR ''-'' # showNat (nat (- i)) else showNat (nat i))"

text \<open>\<open>strconv.ParseInt(s, 10, 64)\<close>; \<open>None\<close> is a syntax or range error.\<close>

definition parseInt64 :: "string \<Rightarrow> int option" where
  "parseInt64 s =
     (let neg = (s \<noteq> [] \<and> hd s = CHR ''-'');
          ds = (if s \<noteq> [] \<and> (hd s = CHR ''-'' \<or> hd s = CHR ''+'') then tl s else s);
          n = (if neg then - digitsValue ds else digitsValue ds) in
      if ds = [] \<or> (\<exists>c \<in> set ds. \<not> isDigit c) \<or> \<not> in_int64 n then None else Some n)"

lemma char_of_digit: "n < 10 \<Longrightarrow> isDigit (char_of (48 + n :: nat)) \<and> of_char (char_of (48 + n) :: char) = (48 + n :: nat)"
proof -
  assume n: "n < 10"
  have "isDigit (char_of (48 + k :: nat))" if "k \<in> {0,1,2,3,4,5,6,7,8,9}" for k :: nat
    using that by (auto simp: isDigit_def char_of_eq_iff)
  moreover have "n \<in> {0,1,2,3,4,5,6,7,8,9}" using n by auto
  ultimately show ?thesis using n by (simp add: of_char_of)
qed

lemma showNat_digits: "c \<in> set (showNat n) \<Longrightarrow> isDigit c"
proof (induction n rule: showNat.induct)
  case (1 n)
  then show ?case using char_of_digit [of n] char_of_digit [of "n mod 10"]
    by (subst (asm) showNat.simps) (auto split: if_splits)
qed

lemma showNat_not_Nil [simp]: "showNat n \<noteq> []"
  by (subst showNat.simps) simp

lemma digitsValue_snoc: "digitsValue (ds @ [c]) = 10 * digitsValue ds + (int (of_char c) - 48)"
  by (simp add: digitsValue_def)

lemma digitsValue_showNat [simp]: "digitsValue (showNat n) = int n"
proof (induction n rule: showNat.induct)
  case (1 n)
  show ?case
  proof (cases "n < 10")
    case True
    then show ?thesis using char_of_digit [of n] by (subst showNat.simps) (simp add: digitsValue_def)
  next
    case False
    then have "digitsValue (showNat n) = 10 * int (n div 10) + int (n mod 10)"
      using 1 char_of_digit [of "n mod 10"] by (subst showNat.simps) (simp add: digitsValue_snoc)
    also have "\<dots> = int n" by presburger
    finally show ?thesis .
  qed
qed

lemma digit_neq: "isDigit c \<Longrightarrow> c \<noteq> CHR ''-'' \<and> c \<noteq> CHR ''+'' \<and> c \<noteq> CHR ''|'' \<and> c \<noteq> CHR ''.''"
  by (auto simp: isDigit_def)

lemma parseInt64_showInt [simp]: "in_int64 i \<Longrightarrow> parseInt64 (showInt i) = Some i"
proof -
  assume i: "in_int64 i"
  have "hd (showNat n) \<noteq> CHR ''-'' \<and> hd (showNat n) \<noteq> CHR ''+''" for n
    using showNat_digits [of "hd (showNat n)" n] digit_neq by (metis hd_in_set showNat_not_Nil)
  with i show ?thesis
    by (auto simp: parseInt64_def showInt_def Let_def dest: showNat_digits)
qed

lemma showInt_chars: "c \<in> set (showInt i) \<Longrightarrow> c = CHR ''-'' \<or> isDigit c"
  by (auto simp: showInt_def dest: showNat_digits split: if_splits)

section \<open>Scanning\<close>

text \<open>\<open>strings.Split\<close> with a separator of one byte.\<close>

fun splitAll :: "char \<Rightarrow> string \<Rightarrow> string list" where
  "splitAll c [] = [[]]"
| "splitAll c (x # s) = (if x = c then [] # splitAll c s else (x # hd (splitAll c s)) # tl (splitAll c s))"

text \<open>The verb \<open>%d\<close> of \<open>fmt.Sscanf\<close>: blanks, a sign, digits; the rest of the input is returned.\<close>

definition scanInt :: "string \<Rightarrow> (int \<times> string) option" where
  "scanInt s =
     (let s1 = dropWhile (\<lambda>c. c = CHR '' '') s;
          neg = (s1 \<noteq> [] \<and> hd s1 = CHR ''-'');
          s2 = (if s1 \<noteq> [] \<and> (hd s1 = CHR ''-'' \<or> hd s1 = CHR ''+'') then tl s1 else s1);
          ds = takeWhile isDigit s2;
          n = (if neg then - digitsValue ds else digitsValue ds) in
      if ds = [] \<or> \<not> in_int64 n then None else Some (n, dropWhile isDigit s2))"

lemma splitAll_not_Nil [simp]: "splitAll c s \<noteq> []"
  by (induction s) auto

lemma splitAll_free [simp]: "c \<notin> set s \<Longrightarrow> splitAll c s = [s]"
  by (induction s) auto

lemma splitAll_append [simp]: "c \<notin> set a \<Longrightarrow> splitAll c (a @ c # b) = a # splitAll c b"
  by (induction a) auto

lemma scanInt_showNat: "in_int64 (int n) \<Longrightarrow> scanInt (showNat n) = Some (int n, [])"
proof -
  assume n: "in_int64 (int n)"
  have d: "isDigit c" if "c \<in> set (showNat n)" for c using that by (rule showNat_digits)
  then have h: "isDigit (hd (showNat n))" by simp
  then have "hd (showNat n) \<noteq> CHR '' ''" by (auto simp: isDigit_def)
  then have "dropWhile (\<lambda>c. c = CHR '' '') (showNat n) = showNat n"
    by (cases "showNat n") auto
  moreover have "takeWhile isDigit (showNat n) = showNat n" "dropWhile isDigit (showNat n) = []"
    using d by (simp_all add: takeWhile_eq_all_conv dropWhile_eq_Nil_conv)
  ultimately show ?thesis using n digit_neq [OF h]
    by (simp add: scanInt_def Let_def del: takeWhile_eq_all_conv dropWhile_eq_Nil_conv)
qed

end
