(* ===== verification/Automation_Rules.thy ===== *)
theory Automation_Rules
  imports Event_Model Go_Strings
begin

unbundle bit_operations_syntax

text \<open>
  The rules of an automation, \<^verbatim>\<open>internal/automation\<close>: conditions and their evaluation (\<^verbatim>\<open>condition\<close>), blocks of
  actions (\<^verbatim>\<open>action/block.go\<close>), and the compiler from the configuration (\<^verbatim>\<open>compile.go\<close>) with its list of
  errors. Starlark, the third-party interpreter, is a parameter: what an expression evaluates to, and
  whether a text parses.
\<close>

section \<open>Numbers and times of day\<close>

text \<open>
  Comparison of IEEE 754 doubles, given by their 64-bit patterns: nothing compares with a NaN, and the
  two zeros are equal.
\<close>

definition f64_isNaN :: "64 word \<Rightarrow> bool" where
  "f64_isNaN w \<longleftrightarrow> unat (w AND 0x7FFFFFFFFFFFFFFF) > 0x7FF0000000000000"

definition f64_key :: "64 word \<Rightarrow> int" where
  "f64_key w = (let m = uint (w AND 0x7FFFFFFFFFFFFFFF) in if bit w 63 then - m else m)"

definition f64_lt :: "64 word \<Rightarrow> 64 word \<Rightarrow> bool" where
  "f64_lt a b \<longleftrightarrow> \<not> f64_isNaN a \<and> \<not> f64_isNaN b \<and> f64_key a < f64_key b"

definition f64_eq :: "64 word \<Rightarrow> 64 word \<Rightarrow> bool" where
  "f64_eq a b \<longleftrightarrow> \<not> f64_isNaN a \<and> \<not> f64_isNaN b \<and> f64_key a = f64_key b"

text \<open>
  \<open>fmt.Sscanf(s, "%d:%d", ...)\<close>: blanks, a sign and digits, a colon, and the same again; what follows is
  ignored. \<open>None\<close>: an error, also when a number does not fit into 64 bits.
\<close>

definition scanHM :: "string \<Rightarrow> (int \<times> int) option" where
  "scanHM s =
     (case scanInt s of
        Some (h, CHR '':'' # rest) \<Rightarrow> (case scanInt rest of Some (m, _) \<Rightarrow> Some (h, m) | None \<Rightarrow> None)
      | _ \<Rightarrow> None)"

text \<open>\<open>parseHM\<close>; \<open>TimeCondition.Evaluate\<close> drops its error and goes on with the 0 it returns.\<close>

definition parseHM :: "string \<Rightarrow> int" where
  "parseHM s = (if s = '''' then 0 else case scanHM s of Some (h, m) \<Rightarrow> int64_of (h * 60 + m) | None \<Rightarrow> 0)"

definition weekdays :: "(string \<times> nat) list" where
  "weekdays = [(''sun'', 0), (''mon'', 1), (''tue'', 2), (''wed'', 3), (''thu'', 4), (''fri'', 5), (''sat'', 6)]"

definition lowerChar :: "char \<Rightarrow> char" where
  "lowerChar c = (let n = of_char c :: nat in if 65 \<le> n \<and> n \<le> 90 then char_of (n + 32) else c)"

definition toLower :: "string \<Rightarrow> string" where
  "toLower s = map lowerChar s"

section \<open>Conditions\<close>

datatype Evaluator =
    StateCondition string string "string list" string  \<comment> \<open>entity, equals, one of, not\<close>
  | NumericCondition string string string "64 word"    \<comment> \<open>entity, attribute, operator, value\<close>
  | TimeCondition string string "string list"          \<comment> \<open>after, before, weekdays\<close>
  | StarlarkCondition string
  | AndCondition "Evaluator list"
  | OrCondition "Evaluator list"
  | NotCondition Evaluator

text \<open>
  The state that conditions read: the state string of an entity and its attributes as \<open>toFloat\<close> reads
  them (missing, not a number, or a number); the local time; and the truth value of a Starlark
  expression, false when it fails.
\<close>

record EntityState =
  StateStr :: string
  AttributeFloats :: "string \<rightharpoonup> 64 word option"

record Env =
  env_State :: "string \<Rightarrow> EntityState option"
  env_starlark :: "string \<Rightarrow> bool"
  env_weekday :: nat
  env_minutes :: int

definition evalState :: "Env \<Rightarrow> string \<Rightarrow> string \<Rightarrow> string list \<Rightarrow> string \<Rightarrow> error + bool" where
  "evalState env entity equals oneOf notEq =
     (case env_State env entity of
        None \<Rightarrow> Inr False
      | Some s \<Rightarrow>
          if equals \<noteq> '''' then Inr (StateStr s = equals)
          else if oneOf \<noteq> [] then Inr (StateStr s \<in> set oneOf)
          else if notEq \<noteq> '''' then Inr (StateStr s \<noteq> notEq)
          else Inl ''state condition: no operator'')"

definition evalNumeric :: "Env \<Rightarrow> string \<Rightarrow> string \<Rightarrow> string \<Rightarrow> 64 word \<Rightarrow> error + bool" where
  "evalNumeric env entity attribute op v =
     (case env_State env entity of
        None \<Rightarrow> Inr False
      | Some s \<Rightarrow>
         (case AttributeFloats s (if attribute = '''' then ''value'' else attribute) of
            None \<Rightarrow> Inr False
          | Some None \<Rightarrow> Inr False
          | Some (Some f) \<Rightarrow>
              if op = ''lt'' then Inr (f64_lt f v)
              else if op = ''lte'' then Inr (f64_lt f v \<or> f64_eq f v)
              else if op = ''eq'' then Inr (f64_eq f v)
              else if op = ''gte'' then Inr (f64_lt v f \<or> f64_eq f v)
              else if op = ''gt'' then Inr (f64_lt v f)
              else Inl (''numeric op '' @ quoted op)))"

text \<open>Whether today is one of the weekdays; an unknown name before the first hit is an error.\<close>

fun weekdayHit :: "nat \<Rightarrow> string list \<Rightarrow> error + bool" where
  "weekdayHit today [] = Inr False"
| "weekdayHit today (w # ws) =
     (case map_of weekdays (toLower w) of
        None \<Rightarrow> Inl (''weekday '' @ quoted w)
      | Some wd \<Rightarrow> if today = wd then Inr True else weekdayHit today ws)"

definition inWindow :: "string \<Rightarrow> string \<Rightarrow> int \<Rightarrow> bool" where
  "inWindow after before cur =
     (if after = '''' \<and> before = '''' then True
      else let a = parseHM after; b = parseHM before in
        if after \<noteq> '''' \<and> before = '''' then cur \<ge> a
        else if after = '''' \<and> before \<noteq> '''' then cur < b
        else if a \<le> b then cur \<ge> a \<and> cur < b
        else cur \<ge> a \<or> cur < b)"

definition evalTime :: "Env \<Rightarrow> string \<Rightarrow> string \<Rightarrow> string list \<Rightarrow> error + bool" where
  "evalTime env after before wds =
     (case (if wds = [] then Inr True else weekdayHit (env_weekday env) wds) of
        Inl e \<Rightarrow> Inl e
      | Inr False \<Rightarrow> Inr False
      | Inr True \<Rightarrow> Inr (inWindow after before (env_minutes env)))"

fun Evaluate :: "Env \<Rightarrow> Evaluator \<Rightarrow> error + bool"
  and evalAll :: "Env \<Rightarrow> Evaluator list \<Rightarrow> error + bool"
  and evalAny :: "Env \<Rightarrow> Evaluator list \<Rightarrow> error + bool" where
  "Evaluate env (StateCondition e eq oneOf n) = evalState env e eq oneOf n"
| "Evaluate env (NumericCondition e attribute op v) = evalNumeric env e attribute op v"
| "Evaluate env (TimeCondition a b wds) = evalTime env a b wds"
| "Evaluate env (StarlarkCondition x) = Inr (env_starlark env x)"
| "Evaluate env (AndCondition cs) = evalAll env cs"
| "Evaluate env (OrCondition cs) = evalAny env cs"
| "Evaluate env (NotCondition c) = (case Evaluate env c of Inl e \<Rightarrow> Inl e | Inr ok \<Rightarrow> Inr (\<not> ok))"
| "evalAll env [] = Inr True"
| "evalAll env (c # cs) =
     (case Evaluate env c of Inl e \<Rightarrow> Inl e | Inr False \<Rightarrow> Inr False | Inr True \<Rightarrow> evalAll env cs)"
| "evalAny env [] = Inr False"
| "evalAny env (c # cs) =
     (case Evaluate env c of Inl e \<Rightarrow> Inl e | Inr True \<Rightarrow> Inr True | Inr False \<Rightarrow> evalAny env cs)"

text \<open>The conditions of a run: an error counts as the value next to it, false.\<close>

fun evalConditions :: "Env \<Rightarrow> Evaluator list \<Rightarrow> bool" where
  "evalConditions env [] = True"
| "evalConditions env (c # cs) = (case Evaluate env c of Inr True \<Rightarrow> evalConditions env cs | _ \<Rightarrow> False)"

section \<open>Configuration\<close>

datatype ConditionConfig =
    CC_State string string "string list" string
  | CC_Numeric string string string "64 word"
  | CC_Time string string "string list"
  | CC_Starlark string
  | CC_And "ConditionConfig list"
  | CC_Or "ConditionConfig list"
  | CC_Not ConditionConfig
  | CC_Unknown

datatype ActionConfig =
    AC_CallService string string "(string \<times> string) list"
  | AC_Scene string
  | AC_Script string "(string \<times> string) list"
  | AC_Starlark string
  | AC_Wait duration
  | AC_Sequence "(ActionConfig \<times> bool) list"   \<comment> \<open>actions, each with continue-on-error\<close>
  | AC_Parallel "(ActionConfig \<times> bool) list"
  | AC_Unknown

datatype TriggerConfig =
    TC_StateChange "string list" string string duration
  | TC_Event string "(string \<times> string) list"
  | TC_Time string string duration
  | TC_Webhook string
  | TC_Unknown

datatype Mode = ModeSingle | ModeQueued | ModeRestart | ModeParallel

fun Mode_String :: "Mode \<Rightarrow> string" where
  "Mode_String ModeQueued = ''queued''"
| "Mode_String ModeRestart = ''restart''"
| "Mode_String ModeParallel = ''parallel''"
| "Mode_String ModeSingle = ''single''"

record AutomationConfig =
  cfg_Id :: string
  cfg_Enabled :: bool
  cfg_Mode :: Mode
  cfg_MaxQueued :: int
  cfg_Areas :: "string list"
  cfg_Triggers :: "TriggerConfig list"
  cfg_Conditions :: "ConditionConfig list"
  cfg_Actions :: "(ActionConfig \<times> bool) list"

datatype Executor =
    CallServiceAction string string "(string \<times> string) list"
  | SceneAction string
  | ScriptAction string "(string \<times> string) list"
  | StarlarkAction string
  | WaitAction duration
  | SequenceBlock "Executor list" "bool list"
  | ParallelBlock "Executor list" "bool list"

datatype Matcher =
    StateChangeMatcher string "string list" string string duration
  | EventMatcher string string "(string \<times> string) list"
  | TimeMatcher string string string duration
  | WebhookMatcher string string

record Automation =
  au_ID :: string
  Triggers :: "Matcher list"
  Conditions :: "Evaluator list"
  Actions :: "Executor list"
  ActionCtrl :: "bool list"
  au_Mode :: Mode
  MaxQueued :: int
  Enabled :: bool
  Areas :: "string list"
  au_Source :: AutomationConfig

record ItemError =
  ie_AutomationID :: string
  ie_Path :: string
  ie_Reason :: string

section \<open>The compiler\<close>

definition AllowedEventDataKeys :: "string set" where
  "AllowedEventDataKeys = {''detail'', ''driver_instance_id'', ''kind''}"

definition ValidateEventDataKeys :: "(string \<times> string) list \<Rightarrow> error option" where
  "ValidateEventDataKeys data =
     (case List.find (\<lambda>(k, v). k \<notin> AllowedEventDataKeys) data of
        None \<Rightarrow> None
      | Some (k, v) \<Rightarrow> Some (''event trigger: unsupported data key '' @ quoted k @
          '' (allowed: detail, driver_instance_id, kind)''))"

definition countTrue :: "bool list \<Rightarrow> nat" where
  "countTrue bs = length (filter id bs)"

definition compileTrigger :: "string \<Rightarrow> TriggerConfig \<Rightarrow> error + Matcher" where
  "compileTrigger automationID tc =
     (case tc of
        TC_StateChange entities from to forDur \<Rightarrow>
          if entities = [] then Inl ''state_change: entities empty''
          else Inr (StateChangeMatcher automationID entities from to forDur)
      | TC_Event kind data \<Rightarrow>
          if kind = '''' then Inl ''event: kind empty''
          else (case ValidateEventDataKeys data of Some e \<Rightarrow> Inl e | None \<Rightarrow> Inr (EventMatcher automationID kind data))
      | TC_Time at cron every \<Rightarrow>
          (let set = countTrue [at \<noteq> '''', cron \<noteq> '''', every \<noteq> 0] in
           if set \<noteq> 1 then Inl (''time: exactly one of at/cron/every, got '' @ showNat set)
           else Inr (TimeMatcher automationID at cron every))
      | TC_Webhook path \<Rightarrow> Inr (WebhookMatcher automationID path)
      | TC_Unknown \<Rightarrow> Inl ''unknown trigger variant'')"

fun compileCondition :: "(string \<Rightarrow> error option) \<Rightarrow> ConditionConfig \<Rightarrow> error + Evaluator"
  and compileConditions :: "(string \<Rightarrow> error option) \<Rightarrow> ConditionConfig list \<Rightarrow> error + Evaluator list" where
  "compileCondition parse (CC_State e eq oneOf n) =
     (let nOp = countTrue [eq \<noteq> '''', oneOf \<noteq> [], n \<noteq> ''''] in
      if nOp \<noteq> 1 then Inl (''state: exactly one operator, got '' @ showNat nOp) else Inr (StateCondition e eq oneOf n))"
| "compileCondition parse (CC_Numeric e attribute op v) =
     (if op \<in> {''lt'', ''lte'', ''eq'', ''gte'', ''gt''} then Inr (NumericCondition e attribute op v)
      else Inl (''numeric op '' @ quoted op))"
| "compileCondition parse (CC_Time a b wds) = Inr (TimeCondition a b wds)"
| "compileCondition parse (CC_Starlark x) =
     (case parse x of Some err \<Rightarrow> Inl (''starlark cond: '' @ err) | None \<Rightarrow> Inr (StarlarkCondition x))"
| "compileCondition parse (CC_And cs) =
     (if cs = [] then Inl ''and: empty''
      else case compileConditions parse cs of Inl e \<Rightarrow> Inl e | Inr evs \<Rightarrow> Inr (AndCondition evs))"
| "compileCondition parse (CC_Or cs) =
     (if cs = [] then Inl ''or: empty''
      else case compileConditions parse cs of Inl e \<Rightarrow> Inl e | Inr evs \<Rightarrow> Inr (OrCondition evs))"
| "compileCondition parse (CC_Not c) =
     (case compileCondition parse c of Inl e \<Rightarrow> Inl e | Inr ev \<Rightarrow> Inr (NotCondition ev))"
| "compileCondition parse CC_Unknown = Inl ''unknown condition variant''"
| "compileConditions parse [] = Inr []"
| "compileConditions parse (c # cs) =
     (case compileCondition parse c of
        Inl e \<Rightarrow> Inl e
      | Inr ev \<Rightarrow> (case compileConditions parse cs of Inl e \<Rightarrow> Inl e | Inr evs \<Rightarrow> Inr (ev # evs)))"

text \<open>\<open>compileActionInstrumented\<close>, without the metrics wrapper, which executes its inner action.\<close>

fun compileAction :: "(string \<Rightarrow> error option) \<Rightarrow> string set \<Rightarrow> ActionConfig \<Rightarrow> error + Executor"
  and compileActions :: "(string \<Rightarrow> error option) \<Rightarrow> string set \<Rightarrow> (ActionConfig \<times> bool) list \<Rightarrow> error + Executor list" where
  "compileAction parse scripts (AC_CallService e c as) =
     (if e = '''' \<or> c = '''' then Inl ''call_service: entity+capability required'' else Inr (CallServiceAction e c as))"
| "compileAction parse scripts (AC_Scene slug) = Inr (SceneAction slug)"
| "compileAction parse scripts (AC_Script name as) =
     (if name \<notin> scripts then Inl (''script: unknown name '' @ quoted name) else Inr (ScriptAction name as))"
| "compileAction parse scripts (AC_Starlark body) =
     (case parse body of Some err \<Rightarrow> Inl (''starlark: '' @ err) | None \<Rightarrow> Inr (StarlarkAction body))"
| "compileAction parse scripts (AC_Wait d) = Inr (WaitAction d)"
| "compileAction parse scripts (AC_Sequence as) =
     (case compileActions parse scripts as of Inl e \<Rightarrow> Inl e | Inr exs \<Rightarrow> Inr (SequenceBlock exs (map snd as)))"
| "compileAction parse scripts (AC_Parallel as) =
     (case compileActions parse scripts as of Inl e \<Rightarrow> Inl e | Inr exs \<Rightarrow> Inr (ParallelBlock exs (map snd as)))"
| "compileAction parse scripts AC_Unknown = Inl ''unknown action variant''"
| "compileActions parse scripts [] = Inr []"
| "compileActions parse scripts ((a, ce) # as) =
     (case compileAction parse scripts a of
        Inl e \<Rightarrow> Inl e
      | Inr ex \<Rightarrow> (case compileActions parse scripts as of Inl e \<Rightarrow> Inl e | Inr exs \<Rightarrow> Inr (ex # exs)))"

text \<open>One list of an automation: what compiles, in order, and an error for every item that does not.\<close>

fun compileItems :: "string \<Rightarrow> string \<Rightarrow> ('c \<Rightarrow> error + 'a) \<Rightarrow> nat \<Rightarrow> 'c list \<Rightarrow> 'a list \<times> ItemError list" where
  "compileItems i label compile n [] = ([], [])"
| "compileItems i label compile n (c # cs) =
     (let (xs, errs) = compileItems i label compile (Suc n) cs in
      case compile c of
        Inl e \<Rightarrow> (xs, \<lparr>ie_AutomationID = i, ie_Path = label @ ''['' @ showNat n @ '']'', ie_Reason = e\<rparr> # errs)
      | Inr x \<Rightarrow> (x # xs, errs))"

record parsers =
  parseExpr :: "string \<Rightarrow> error option"
  parseBody :: "string \<Rightarrow> error option"

definition compileOne :: "parsers \<Rightarrow> string set \<Rightarrow> AutomationConfig \<Rightarrow> Automation \<times> ItemError list" where
  "compileOne ps scripts ac =
     (let i = cfg_Id ac;
          (ts, e1) = compileItems i ''triggers'' (compileTrigger i) 0 (cfg_Triggers ac);
          (cs, e2) = compileItems i ''conditions'' (compileCondition (parseExpr ps)) 0 (cfg_Conditions ac);
          (as, e3) = compileItems i ''actions''
             (\<lambda>(a, ce). case compileAction (parseBody ps) scripts a of Inl e \<Rightarrow> Inl e | Inr ex \<Rightarrow> Inr (ex, ce)) 0 (cfg_Actions ac) in
      (\<lparr>au_ID = i, Triggers = ts, Conditions = cs, Actions = map fst as, ActionCtrl = map snd as, au_Mode = cfg_Mode ac,
        MaxQueued = (if cfg_MaxQueued ac \<le> 0 then 10 else cfg_MaxQueued ac), Enabled = cfg_Enabled ac,
        Areas = cfg_Areas ac, au_Source = ac\<rparr>, e1 @ e2 @ e3))"

fun compileEach ::
  "parsers \<Rightarrow> string set \<Rightarrow> AutomationConfig list \<Rightarrow> (string \<times> Automation) list \<Rightarrow> ItemError list
     \<Rightarrow> (string \<times> Automation) list \<times> ItemError list" where
  "compileEach ps scripts [] out errs = (out, errs)"
| "compileEach ps scripts (ac # acs) out errs =
     (if cfg_Id ac = '''' then
        compileEach ps scripts acs out (errs @ [\<lparr>ie_AutomationID = ''<unset>'', ie_Path = ''id'', ie_Reason = ''empty''\<rparr>])
      else case compileOne ps scripts ac of (a, itemErrs) \<Rightarrow>
        if itemErrs \<noteq> [] then compileEach ps scripts acs out (errs @ itemErrs)
        else if map_of out (au_ID a) \<noteq> None then
          compileEach ps scripts acs out (errs @ [\<lparr>ie_AutomationID = au_ID a, ie_Path = ''id'', ie_Reason = ''duplicate''\<rparr>])
        else compileEach ps scripts acs (out @ [(au_ID a, a)]) errs)"

definition CompileAutomations :: "parsers \<Rightarrow> string set \<Rightarrow> AutomationConfig list \<Rightarrow> ItemError list + (string \<times> Automation) list" where
  "CompileAutomations ps scripts acs =
     (let (out, errs) = compileEach ps scripts acs [] [] in if errs \<noteq> [] then Inl errs else Inr out)"

section \<open>What a condition means\<close>

definition clock_minutes :: "string \<Rightarrow> bool" where
  "clock_minutes s \<longleftrightarrow> s = '''' \<or> (0 \<le> parseHM s \<and> parseHM s < 1440)"

text \<open>The clock as a circle of 1440 minutes: the window runs from the first time to the second.\<close>

definition window :: "string \<Rightarrow> string \<Rightarrow> int \<Rightarrow> bool" where
  "window after before cur \<longleftrightarrow>
     (if after = '''' then before = '''' \<or> cur < parseHM before
      else if before = '''' then parseHM after \<le> cur
      else (cur - parseHM after) mod 1440 < (parseHM before - parseHM after) mod 1440)"

fun known_times :: "ConditionConfig \<Rightarrow> bool" where
  "known_times (CC_Time a b wds) \<longleftrightarrow>
     clock_minutes a \<and> clock_minutes b \<and> (\<forall>w \<in> set wds. map_of weekdays (toLower w) \<noteq> None)"
| "known_times (CC_And cs) \<longleftrightarrow> (\<forall>c \<in> set cs. known_times c)"
| "known_times (CC_Or cs) \<longleftrightarrow> (\<forall>c \<in> set cs. known_times c)"
| "known_times (CC_Not c) \<longleftrightarrow> known_times c"
| "known_times _ \<longleftrightarrow> True"

definition compares :: "string \<Rightarrow> 64 word \<Rightarrow> 64 word \<Rightarrow> bool" where
  "compares op f v \<longleftrightarrow> \<not> f64_isNaN f \<and> \<not> f64_isNaN v \<and>
     (op = ''lt'' \<and> f64_key f < f64_key v \<or> op = ''lte'' \<and> f64_key f \<le> f64_key v \<or> op = ''eq'' \<and> f64_key f = f64_key v \<or>
      op = ''gte'' \<and> f64_key f \<ge> f64_key v \<or> op = ''gt'' \<and> f64_key f > f64_key v)"

fun holds :: "Env \<Rightarrow> ConditionConfig \<Rightarrow> bool" where
  "holds env (CC_State e eq oneOf n) \<longleftrightarrow>
     (\<exists>s. env_State env e = Some s \<and> (StateStr s = eq \<and> eq \<noteq> '''' \<or> StateStr s \<in> set oneOf \<or> n \<noteq> '''' \<and> StateStr s \<noteq> n))"
| "holds env (CC_Numeric e attribute op v) \<longleftrightarrow>
     (\<exists>s f. env_State env e = Some s \<and> AttributeFloats s (if attribute = '''' then ''value'' else attribute) = Some (Some f) \<and>
        compares op f v)"
| "holds env (CC_Time a b wds) \<longleftrightarrow>
     (wds = [] \<or> env_weekday env \<in> (\<lambda>w. the (map_of weekdays (toLower w))) ` set wds) \<and> window a b (env_minutes env)"
| "holds env (CC_Starlark x) \<longleftrightarrow> env_starlark env x"
| "holds env (CC_And cs) \<longleftrightarrow> (\<forall>c \<in> set cs. holds env c)"
| "holds env (CC_Or cs) \<longleftrightarrow> (\<exists>c \<in> set cs. holds env c)"
| "holds env (CC_Not c) \<longleftrightarrow> \<not> holds env c"
| "holds env CC_Unknown \<longleftrightarrow> False"

lemma mod_shift: "- 1440 \<le> (x :: int) \<Longrightarrow> x < 1440 \<Longrightarrow> x mod 1440 = (if 0 \<le> x then x else x + 1440)"
  by (auto simp: mod_pos_pos_trivial) (smt (verit) mod_add_self2 mod_pos_pos_trivial)

lemma inWindow_circular:
  assumes "clock_minutes a" "clock_minutes b" "0 \<le> cur" "cur < 1440"
  shows "inWindow a b cur = window a b cur"
proof (cases "a = '''' \<or> b = ''''")
  case True
  then show ?thesis by (auto simp: inWindow_def window_def Let_def)
next
  case False
  then have "0 \<le> parseHM a" "parseHM a < 1440" "0 \<le> parseHM b" "parseHM b < 1440"
    using assms(1,2) by (auto simp: clock_minutes_def)
  with False assms(3,4) show ?thesis
    by (auto simp: inWindow_def window_def Let_def mod_shift)
qed

lemma weekdayHit_known:
  "\<forall>w \<in> set wds. map_of weekdays (toLower w) \<noteq> None \<Longrightarrow>
     weekdayHit d wds = Inr (d \<in> (\<lambda>w. the (map_of weekdays (toLower w))) ` set wds)"
  by (induction wds) auto

lemma compileCondition_state:
  "compileCondition parse (CC_State e eq oneOf n) = Inr ev \<Longrightarrow> Evaluate env ev = Inr (holds env (CC_State e eq oneOf n))"
  by (auto simp: countTrue_def evalState_def Let_def split: if_splits option.splits)

lemma compileCondition_numeric:
  "compileCondition parse (CC_Numeric e a op v) = Inr ev \<Longrightarrow> Evaluate env ev = Inr (holds env (CC_Numeric e a op v))"
  by (auto simp: evalNumeric_def compares_def f64_lt_def f64_eq_def split: if_splits option.splits)

lemma compileCondition_time:
  assumes "known_times (CC_Time a b wds)" "0 \<le> env_minutes env" "env_minutes env < 1440"
  shows "Evaluate env (TimeCondition a b wds) = Inr (holds env (CC_Time a b wds))"
  using assms weekdayHit_known [of wds "env_weekday env"] inWindow_circular [of a b "env_minutes env"]
  by (auto simp: evalTime_def split: sum.splits bool.splits)

lemma compile_Evaluate_both:
  assumes "0 \<le> env_minutes env" "env_minutes env < 1440"
  shows "compileCondition parse c = Inr ev \<Longrightarrow> known_times c \<Longrightarrow> Evaluate env ev = Inr (holds env c)"
    and "compileConditions parse cs = Inr evs \<Longrightarrow> (\<forall>c \<in> set cs. known_times c) \<Longrightarrow>
      evalAll env evs = Inr (\<forall>c \<in> set cs. holds env c) \<and> evalAny env evs = Inr (\<exists>c \<in> set cs. holds env c)"
proof (induction parse c and parse cs arbitrary: ev and evs rule: compileCondition_compileConditions.induct)
  case (1 parse e eq oneOf n)
  then show ?case by (simp only: compileCondition_state)
next
  case (2 parse e a op v)
  then show ?case by (simp only: compileCondition_numeric)
next
  case (3 parse a b wds)
  then show ?case using compileCondition_time [of a b wds env] assms by simp
qed (auto split: sum.splits option.splits if_splits bool.splits)


definition nightEnv :: Env where
  "nightEnv = \<lparr>env_State = (\<lambda>_. None), env_starlark = (\<lambda>_. False), env_weekday = 1, env_minutes = 30\<rparr>"

lemma parse_night: "parseHM ''22:00'' = 1320" "parseHM ''06:00'' = 360"
  by (simp_all add: parseHM_def scanHM_def scanInt_def isDigit_def digitsValue_def in_int64_def Let_def)


section \<open>What the compiler accepts\<close>

lemma compileItems_ok: "snd (compileItems i label f n cs) = [] \<longleftrightarrow> (\<forall>c \<in> set cs. \<exists>x. f c = Inr x)"
  by (induction cs arbitrary: n) (auto simp: Let_def case_prod_beta split: sum.splits)

lemma compileEach_errs: "snd (compileEach ps scripts acs out errs) = [] \<Longrightarrow> errs = []"
  by (induction ps scripts acs out errs rule: compileEach.induct) (auto split: prod.splits if_splits)

lemma au_ID_compileOne [simp]: "au_ID (fst (compileOne ps scripts ac)) = cfg_Id ac"
  by (simp add: compileOne_def Let_def split: prod.splits)

lemma compileEach_spec:
  "compileEach ps scripts acs out [] = (out', []) \<longleftrightarrow>
     (\<forall>ac \<in> set acs. cfg_Id ac \<noteq> '''' \<and> snd (compileOne ps scripts ac) = []) \<and> distinct (map cfg_Id acs) \<and>
     set (map cfg_Id acs) \<inter> fst ` set out = {} \<and>
     out' = out @ map (\<lambda>ac. (cfg_Id ac, fst (compileOne ps scripts ac))) acs"
proof (induction acs arbitrary: out)
  case (Cons ac acs)
  have no: "compileEach ps scripts acs out (e # es) \<noteq> (out', [])" for out e es
    using compileEach_errs [of ps scripts acs out "e # es"] by (metis list.distinct(1) snd_conv)
  obtain a errs where a: "compileOne ps scripts ac = (a, errs)" by fastforce
  then have id: "au_ID a = cfg_Id ac" using au_ID_compileOne [of ps scripts ac] by simp
  show ?case
  proof (cases "cfg_Id ac = '''' \<or> errs \<noteq> [] \<or> cfg_Id ac \<in> fst ` set out")
    case True
    with a id no show ?thesis by (cases errs) (auto simp: map_of_eq_None_iff)
  next
    case False
    then have "map_of out (cfg_Id ac) = None" by (simp add: map_of_eq_None_iff)
    with False a id Cons.IH [of "out @ [(cfg_Id ac, a)]"] show ?thesis by auto
  qed
qed auto



end
