(* ===== verification/Automation_Triggers.thy ===== *)
theory Automation_Triggers
  imports Automation_Rules
begin

text \<open>
  Triggers of the automation engine: the matchers and the registry that indexes them
  (\<^verbatim>\<open>internal/automation/trigger\<close>), and \<open>Reload\<close> (\<^verbatim>\<open>internal/automation/reload.go\<close>), which exchanges the
  automations of a running engine. A matcher is a Go pointer: it is identified by a number, and two
  matchers compiled from the same configuration are different matchers.
\<close>

section \<open>Matchers\<close>

record Match =
  m_AutomationID :: string
  m_TriggerKind :: string
  m_Event :: "event option"

definition extractStateString :: "event \<Rightarrow> string" where
  "extractStateString ev =
     (case Payload ev of
        Some (StateChanged (Some a) _) \<Rightarrow>
          (case attr_kind a of
             Some (Light on _ _ _) \<Rightarrow> if on then ''on'' else ''off''
           | Some (Switch on) \<Rightarrow> if on then ''on'' else ''off''
           | _ \<Rightarrow> '''')
      | _ \<Rightarrow> '''')"

text \<open>
  What a state matcher remembers, per matcher and entity: the last state seen, and the event of a
  pending hold timer.
\<close>

record holdState =
  last_state :: "nat \<times> string \<Rightarrow> string"
  hold_timers :: "nat \<times> string \<rightharpoonup> event"

definition OnStateChanged ::
  "nat \<Rightarrow> string \<Rightarrow> string list \<Rightarrow> string \<Rightarrow> string \<Rightarrow> duration \<Rightarrow> event \<Rightarrow> holdState \<Rightarrow> Match list \<times> holdState" where
  "OnStateChanged ptr i entities from to forDur ev h =
     (if Entity ev \<notin> set entities then ([], h)
      else
        (let newState = extractStateString ev; k = (ptr, Entity ev); prev = last_state h k;
             h' = h\<lparr>last_state := (last_state h)(k := newState), hold_timers := (hold_timers h)(k := None)\<rparr> in
         if from \<noteq> '''' \<and> prev \<noteq> from then ([], h')
         else if to \<noteq> '''' \<and> newState \<noteq> to then ([], h')
         else if forDur = 0 then ([\<lparr>m_AutomationID = i, m_TriggerKind = ''state_changed'', m_Event = Some ev\<rparr>], h')
         else ([], h'\<lparr>hold_timers := (hold_timers h')(k \<mapsto> ev)\<rparr>)))"

text \<open>A hold timer that has run its time.\<close>

definition holdFires :: "nat \<Rightarrow> string \<Rightarrow> string \<Rightarrow> holdState \<Rightarrow> Match list \<times> holdState" where
  "holdFires ptr i entity h =
     (case hold_timers h (ptr, entity) of
        None \<Rightarrow> ([], h)
      | Some ev \<Rightarrow> ([\<lparr>m_AutomationID = i, m_TriggerKind = ''state_changed'', m_Event = Some ev\<rparr>],
          h\<lparr>hold_timers := (hold_timers h)((ptr, entity) := None)\<rparr>))"

definition StopTimers :: "nat \<Rightarrow> holdState \<Rightarrow> holdState" where
  "StopTimers ptr h = h\<lparr>hold_timers := (\<lambda>(p, e). if p = ptr then None else hold_timers h (p, e))\<rparr>"

definition driverEventOf :: "event \<Rightarrow> driver_event option" where
  "driverEventOf ev = (case Payload ev of Some (DriverEvent de) \<Rightarrow> Some de | _ \<Rightarrow> None)"

definition dataMatches :: "(string \<times> string) list \<Rightarrow> string \<Rightarrow> string \<Rightarrow> bool" where
  "dataMatches data key v = (case map_of data key of None \<Rightarrow> True | Some want \<Rightarrow> v = want)"

text \<open>The webhook payload is one the model keeps encoded; \<open>slugOf\<close> reads its slug.\<close>

definition OnEvent :: "(payload \<Rightarrow> string option) \<Rightarrow> Matcher \<Rightarrow> event \<Rightarrow> Match option" where
  "OnEvent slugOf m ev =
     (case m of
        EventMatcher i kind data \<Rightarrow>
          if Kind ev \<noteq> kind then None
          else if data \<noteq> [] \<and> (case driverEventOf ev of
              None \<Rightarrow> True
            | Some de \<Rightarrow> \<not> (dataMatches data ''detail'' (de_Detail de) \<and>
                dataMatches data ''driver_instance_id'' (de_DriverInstanceId de) \<and> dataMatches data ''kind'' (de_Kind de)))
            then None
          else Some \<lparr>m_AutomationID = i, m_TriggerKind = ''event'', m_Event = Some ev\<rparr>
      | WebhookMatcher i path \<Rightarrow>
          (case Payload ev of
             None \<Rightarrow> None
           | Some pl \<Rightarrow> if slugOf pl \<noteq> Some path then None
               else Some \<lparr>m_AutomationID = i, m_TriggerKind = ''webhook'', m_Event = Some ev\<rparr>)
      | _ \<Rightarrow> None)"

section \<open>The registry of matchers\<close>

type_synonym matcher_ptr = "nat \<times> Matcher"

record TriggerRegistry =
  stateByEntity :: "string \<Rightarrow> matcher_ptr list"
  eventByKind :: "string \<Rightarrow> matcher_ptr list"

fun EventKind :: "Matcher \<Rightarrow> string" where
  "EventKind (EventMatcher i kind data) = kind"
| "EventKind (WebhookMatcher i path) = ''webhook_received''"
| "EventKind _ = ''''"

definition RegisterState :: "matcher_ptr \<Rightarrow> string list \<Rightarrow> TriggerRegistry \<Rightarrow> TriggerRegistry" where
  "RegisterState m entities r =
     r\<lparr>stateByEntity := (\<lambda>e. if e \<in> set entities then stateByEntity r e @ [m] else stateByEntity r e)\<rparr>"

definition RegisterEvent :: "matcher_ptr \<Rightarrow> TriggerRegistry \<Rightarrow> TriggerRegistry" where
  "RegisterEvent m r = (let k = EventKind (snd m) in
     r\<lparr>eventByKind := (eventByKind r)(k := eventByKind r k @ [m])\<rparr>)"

definition dropPtr :: "nat \<Rightarrow> matcher_ptr list \<Rightarrow> matcher_ptr list" where
  "dropPtr ptr ms = filter (\<lambda>m. fst m \<noteq> ptr) ms"

definition Unregister :: "matcher_ptr \<Rightarrow> TriggerRegistry \<Rightarrow> TriggerRegistry" where
  "Unregister m r =
     (case snd m of
        StateChangeMatcher i entities from to forDur \<Rightarrow>
          r\<lparr>stateByEntity := (\<lambda>e. if e \<in> set entities then dropPtr (fst m) (stateByEntity r e) else stateByEntity r e)\<rparr>
      | TimeMatcher i at cron every \<Rightarrow> r
      | ev \<Rightarrow> r\<lparr>eventByKind := (eventByKind r)(EventKind ev := dropPtr (fst m) (eventByKind r (EventKind ev)))\<rparr>)"

fun dispatchState :: "matcher_ptr list \<Rightarrow> event \<Rightarrow> holdState \<Rightarrow> Match list \<times> holdState" where
  "dispatchState [] ev h = ([], h)"
| "dispatchState ((ptr, StateChangeMatcher i entities from to forDur) # ms) ev h =
     (let (out, h1) = OnStateChanged ptr i entities from to forDur ev h; (rest, h2) = dispatchState ms ev h1 in (out @ rest, h2))"
| "dispatchState (m # ms) ev h = dispatchState ms ev h"

definition Registry_Dispatch ::
  "(payload \<Rightarrow> string option) \<Rightarrow> TriggerRegistry \<Rightarrow> event \<Rightarrow> holdState \<Rightarrow> Match list \<times> holdState" where
  "Registry_Dispatch slugOf r ev h =
     (if Kind ev = ''state_changed'' then dispatchState (stateByEntity r (Entity ev)) ev h
      else (List.map_filter (\<lambda>m. OnEvent slugOf (snd m) ev) (eventByKind r (Kind ev)), h))"

section \<open>The time scheduler\<close>

text \<open>
  The entries of \<open>TimeScheduler\<close>; \<open>cronOK\<close> says which expressions the cron library parses. The error that
  an \<open>Add\<close> returns is dropped by the engine, which then goes on without the entry.
\<close>

datatype Schedule = CronSchedule string | EverySchedule duration

definition AddCron :: "(string \<Rightarrow> bool) \<Rightarrow> string \<Rightarrow> string \<Rightarrow> (string \<times> Schedule) list \<Rightarrow> (string \<times> Schedule) list" where
  "AddCron cronOK i expr es = (if cronOK expr then es @ [(i, CronSchedule expr)] else es)"

definition AddAt :: "(string \<Rightarrow> bool) \<Rightarrow> string \<Rightarrow> string \<Rightarrow> (string \<times> Schedule) list \<Rightarrow> (string \<times> Schedule) list" where
  "AddAt cronOK i hm es =
     (case scanHM hm of
        None \<Rightarrow> es
      | Some (h, m) \<Rightarrow> if h < 0 \<or> h > 23 \<or> m < 0 \<or> m > 59 then es
          else AddCron cronOK i (showNat (nat m) @ '' '' @ showNat (nat h) @ '' * * *'') es)"

definition AddEvery :: "string \<Rightarrow> duration \<Rightarrow> (string \<times> Schedule) list \<Rightarrow> (string \<times> Schedule) list" where
  "AddEvery i d es = (if d \<le> 0 then es else es @ [(i, EverySchedule d)])"

definition scheduleMatcher ::
  "(string \<Rightarrow> bool) \<Rightarrow> string \<Rightarrow> Matcher \<Rightarrow> (string \<times> Schedule) list \<Rightarrow> (string \<times> Schedule) list" where
  "scheduleMatcher cronOK i m es =
     (case m of
        TimeMatcher _ at cron every \<Rightarrow>
          if at \<noteq> '''' then AddAt cronOK i at es
          else if cron \<noteq> '''' then AddCron cronOK i cron es
          else if every > 0 then AddEvery i every es
          else es
      | _ \<Rightarrow> es)"

section \<open>The engine's automations\<close>

text \<open>A compiled automation in memory: with the pointers of its matchers.\<close>

record autoObj =
  ao_auto :: Automation
  ao_ptrs :: "nat list"

definition matchersOf :: "autoObj \<Rightarrow> matcher_ptr list" where
  "matchersOf a = zip (ao_ptrs a) (Triggers (ao_auto a))"

text \<open>\<open>runStates\<close> holds the automation that a fire finds.\<close>

record Engine =
  automations :: "string \<rightharpoonup> autoObj"
  runStates :: "string \<rightharpoonup> autoObj"
  triggers :: TriggerRegistry
  matcherState :: holdState
  scheduler :: "(string \<times> Schedule) list"

definition registerMatcher :: "matcher_ptr \<Rightarrow> TriggerRegistry \<Rightarrow> TriggerRegistry" where
  "registerMatcher m r =
     (case snd m of
        StateChangeMatcher i entities from to forDur \<Rightarrow> RegisterState m entities r
      | TimeMatcher i at cron every \<Rightarrow> r
      | _ \<Rightarrow> RegisterEvent m r)"

definition registerTriggers :: "(string \<Rightarrow> bool) \<Rightarrow> autoObj \<Rightarrow> Engine \<Rightarrow> Engine" where
  "registerTriggers cronOK a e =
     e\<lparr>triggers := fold registerMatcher (matchersOf a) (triggers e),
       scheduler := fold (scheduleMatcher cronOK (au_ID (ao_auto a))) (Triggers (ao_auto a)) (scheduler e)\<rparr>"

definition stopMatcher :: "matcher_ptr \<Rightarrow> holdState \<Rightarrow> holdState" where
  "stopMatcher m h = (case snd m of StateChangeMatcher i entities from to forDur \<Rightarrow> StopTimers (fst m) h | _ \<Rightarrow> h)"

definition unregisterTriggers :: "autoObj \<Rightarrow> Engine \<Rightarrow> Engine" where
  "unregisterTriggers a e =
     e\<lparr>triggers := fold Unregister (matchersOf a) (triggers e), matcherState := fold stopMatcher (matchersOf a) (matcherState e)\<rparr>"

text \<open>\<open>proto.Equal\<close> of the two sources, which the compiler always sets.\<close>

definition structurallyEqual :: "autoObj \<Rightarrow> autoObj \<Rightarrow> bool" where
  "structurallyEqual a b \<longleftrightarrow> au_Source (ao_auto a) = au_Source (ao_auto b)"

definition NewEngine :: "(string \<Rightarrow> bool) \<Rightarrow> (string \<times> autoObj) list \<Rightarrow> Engine" where
  "NewEngine cronOK autos =
     fold (\<lambda>(i, a). registerTriggers cronOK a) autos
       \<lparr>automations = map_of autos, runStates = map_of autos,
        triggers = \<lparr>stateByEntity = (\<lambda>_. []), eventByKind = (\<lambda>_. [])\<rparr>,
        matcherState = \<lparr>last_state = (\<lambda>_. ''''), hold_timers = Map.empty\<rparr>, scheduler = []\<rparr>"

text \<open>
  One round of the loop over the old automations, for the old automation under \<open>i\<close>; the runs and the
  queue of a removed automation belong to the run modes.
\<close>

definition reloadOld :: "(string \<Rightarrow> bool) \<Rightarrow> (string \<rightharpoonup> autoObj) \<Rightarrow> string \<Rightarrow> autoObj \<Rightarrow> Engine \<Rightarrow> Engine" where
  "reloadOld cronOK newAutos i oldA e =
     (case newAutos i of
        None \<Rightarrow> (unregisterTriggers oldA e)\<lparr>runStates := (runStates e)(i := None)\<rparr>
      | Some newA \<Rightarrow>
          if structurallyEqual oldA newA then e
          else (let e' = registerTriggers cronOK newA (unregisterTriggers oldA e) in
            e'\<lparr>runStates := (case runStates e' i of None \<Rightarrow> runStates e' | Some _ \<Rightarrow> (runStates e')(i \<mapsto> newA))\<rparr>))"

definition reloadNew :: "(string \<Rightarrow> bool) \<Rightarrow> (string \<rightharpoonup> autoObj) \<Rightarrow> string \<Rightarrow> autoObj \<Rightarrow> Engine \<Rightarrow> Engine" where
  "reloadNew cronOK olds i newA e =
     (if olds i \<noteq> None then e
      else registerTriggers cronOK newA (e\<lparr>runStates := (runStates e)(i \<mapsto> newA)\<rparr>))"

text \<open>The scheduler is rebuilt from the new automations.\<close>

definition timeEntries :: "(string \<Rightarrow> bool) \<Rightarrow> (string \<times> autoObj) list \<Rightarrow> (string \<times> Schedule) list" where
  "timeEntries cronOK autos =
     fold (\<lambda>(i, a). fold (scheduleMatcher cronOK (au_ID (ao_auto a))) (Triggers (ao_auto a))) autos []"

text \<open>
  \<open>Reload\<close> with a configuration that has compiled to \<open>news\<close>; \<open>olds\<close> lists the automations in the order in
  which Go ranges over the old map, \<open>news\<close> in the order over the new one.
\<close>

definition Reload ::
  "(string \<Rightarrow> bool) \<Rightarrow> (string \<times> autoObj) list \<Rightarrow> (string \<times> autoObj) list \<Rightarrow> Engine \<Rightarrow> Engine" where
  "Reload cronOK olds news e =
     (let newAutos = map_of news;
          e1 = fold (\<lambda>(i, a). reloadOld cronOK newAutos i a) olds e;
          e2 = fold (\<lambda>(i, a). reloadNew cronOK (automations e) i a) news e1 in
      e2\<lparr>automations := newAutos, scheduler := timeEntries cronOK news\<rparr>)"

section \<open>What the registry holds after a reload\<close>

fun on_entity :: "Matcher \<Rightarrow> string \<Rightarrow> bool" where
  "on_entity (StateChangeMatcher i es from to forDur) e = (e \<in> set es)"
| "on_entity _ e = False"

fun on_kind :: "Matcher \<Rightarrow> string \<Rightarrow> bool" where
  "on_kind (EventMatcher i kind data) k = (k = kind)"
| "on_kind (WebhookMatcher i path) k = (k = ''webhook_received'')"
| "on_kind _ k = False"

text \<open>The registry indexes exactly the matchers \<open>ms\<close>.\<close>

definition indexed :: "TriggerRegistry \<Rightarrow> matcher_ptr set \<Rightarrow> bool" where
  "indexed r ms \<longleftrightarrow>
     (\<forall>e. set (stateByEntity r e) = {m \<in> ms. on_entity (snd m) e}) \<and>
     (\<forall>k. set (eventByKind r k) = {m \<in> ms. on_kind (snd m) k})"

lemma indexed_register: "indexed r ms \<Longrightarrow> indexed (registerMatcher m r) (insert m ms)"
  by (cases "snd m") (auto simp: indexed_def registerMatcher_def RegisterState_def RegisterEvent_def Let_def)

lemma indexed_registers: "indexed r ms \<Longrightarrow> indexed (fold registerMatcher xs r) (ms \<union> set xs)"
proof (induction xs arbitrary: r ms)
  case (Cons x xs)
  then show ?case using Cons.IH [OF indexed_register [OF Cons.prems, of x]] by simp
qed simp

lemma indexed_registerTriggers:
  "indexed (triggers e) ms \<Longrightarrow> indexed (triggers (registerTriggers cronOK a e)) (ms \<union> set (matchersOf a))"
  by (simp add: registerTriggers_def indexed_registers)

lemma indexed_unregister:
  assumes "indexed r ms" "\<forall>m' \<in> ms. fst m' = fst m \<longrightarrow> m' = m"
  shows "indexed (Unregister m r) (ms - {m})"
  using assms by (cases "snd m") (auto simp: indexed_def Unregister_def dropPtr_def)

lemma indexed_unregisters:
  assumes "indexed r ms" "\<forall>m \<in> set xs. \<forall>m' \<in> ms. fst m' = fst m \<longrightarrow> m' = m"
  shows "indexed (fold Unregister xs r) (ms - set xs)"
  using assms
proof (induction xs arbitrary: r ms)
  case (Cons x xs)
  then have u: "indexed (Unregister x r) (ms - {x})" by (intro indexed_unregister) auto
  have "ms - {x} - set xs = ms - set (x # xs)" by auto
  with Cons.IH [OF u] Cons.prems(2) show ?case by (metis DiffD1 fold_simps(2) list.set_intros(2))
qed simp

lemma indexed_unregisterTriggers:
  assumes "indexed (triggers e) ms" "\<forall>m \<in> set (matchersOf a). \<forall>m' \<in> ms. fst m' = fst m \<longrightarrow> m' = m"
  shows "indexed (triggers (unregisterTriggers a e)) (ms - set (matchersOf a))"
  using indexed_unregisters [OF assms] by (simp add: unregisterTriggers_def)

definition allMatchers :: "(string \<times> autoObj) list \<Rightarrow> matcher_ptr set" where
  "allMatchers as = (\<Union>(i, a) \<in> set as. set (matchersOf a))"

definition keptOld :: "(string \<rightharpoonup> autoObj) \<Rightarrow> string \<times> autoObj \<Rightarrow> matcher_ptr set" where
  "keptOld newAutos = (\<lambda>(i, a). case newAutos i of None \<Rightarrow> {}
     | Some n \<Rightarrow> if structurallyEqual a n then set (matchersOf a) else set (matchersOf n))"

lemma allMatchers_simps [simp]:
  "allMatchers [] = {}" "allMatchers ((i, a) # as) = set (matchersOf a) \<union> allMatchers as"
  by (auto simp: allMatchers_def)

text \<open>Matchers with different pointers.\<close>

definition apart :: "matcher_ptr set \<Rightarrow> matcher_ptr set \<Rightarrow> bool" where
  "apart A B \<longleftrightarrow> fst ` A \<inter> fst ` B = {}"

lemma apart_Un [simp]: "apart (A \<union> B) C \<longleftrightarrow> apart A C \<and> apart B C" "apart C (A \<union> B) \<longleftrightarrow> apart C A \<and> apart C B"
  by (auto simp: apart_def)

lemma apart_sym: "apart A B \<Longrightarrow> apart B A"
  by (auto simp: apart_def)

lemma apart_mono: "A \<subseteq> A' \<Longrightarrow> apart A' B \<Longrightarrow> apart A B"
  by (auto simp: apart_def)

lemma reloadOld_indexed:
  assumes "indexed (triggers e) (M \<union> set (matchersOf a) \<union> R)" "inj_on fst (set (matchersOf a))"
    and "apart (set (matchersOf a)) M" "apart (set (matchersOf a)) R"
  shows "indexed (triggers (reloadOld cronOK newAutos i a e)) (M \<union> keptOld newAutos (i, a) \<union> R)"
proof -
  have rest: "(M \<union> set (matchersOf a) \<union> R) - set (matchersOf a) = M \<union> R"
    using assms(3,4) by (auto simp: apart_def)
  have "\<forall>m \<in> set (matchersOf a). \<forall>m' \<in> M \<union> set (matchersOf a) \<union> R. fst m' = fst m \<longrightarrow> m' = m"
    using assms(2-4) by (auto simp: apart_def dest: inj_onD)
  from indexed_unregisterTriggers [OF assms(1) this]
  have u: "indexed (triggers (unregisterTriggers a e)) (M \<union> R)" unfolding rest .
  show ?thesis
  proof (cases "newAutos i")
    case None
    with u show ?thesis by (simp add: reloadOld_def keptOld_def)
  next
    case (Some n)
    have "M \<union> R \<union> set (matchersOf n) = M \<union> set (matchersOf n) \<union> R" by auto
    with Some assms(1) indexed_registerTriggers [OF u, of cronOK n] show ?thesis
      by (simp add: reloadOld_def keptOld_def Let_def)
  qed
qed

text \<open>Every matcher object has its own pointer.\<close>

definition wellPointed :: "(string \<times> autoObj) list \<Rightarrow> bool" where
  "wellPointed as \<longleftrightarrow> distinct (concat (map (\<lambda>(i, a). ao_ptrs a) as)) \<and>
     (\<forall>(i, a) \<in> set as. length (ao_ptrs a) = length (Triggers (ao_auto a)))"

lemma wellPointed_Cons:
  "wellPointed ((i, a) # as) \<longleftrightarrow> distinct (ao_ptrs a) \<and> length (ao_ptrs a) = length (Triggers (ao_auto a)) \<and>
     set (ao_ptrs a) \<inter> (\<Union>(j, b) \<in> set as. set (ao_ptrs b)) = {} \<and> wellPointed as"
  by (auto simp: wellPointed_def)

lemma wellPointed_inj:
  assumes "wellPointed ((i, a) # as)"
  shows "inj_on fst (set (matchersOf a))"
proof -
  have "map fst (matchersOf a) = ao_ptrs a" using assms by (simp add: wellPointed_Cons matchersOf_def)
  with assms show ?thesis by (metis distinct_map wellPointed_Cons)
qed

lemma wellPointed_apart: "wellPointed ((i, a) # as) \<Longrightarrow> apart (set (matchersOf a)) (allMatchers as)"
  by (fastforce simp: wellPointed_Cons apart_def allMatchers_def matchersOf_def dest: set_zip_leftD)

lemma fold_reloadOld_indexed:
  assumes "indexed (triggers e) (M \<union> allMatchers olds)" "apart M (allMatchers olds)"
    and "apart (allMatchers news) (allMatchers olds)" "wellPointed olds"
  shows "indexed (triggers (fold (\<lambda>(i, a). reloadOld cronOK (map_of news) i a) olds e)) (M \<union> (\<Union> (keptOld (map_of news) ` set olds)))"
  using assms
proof (induction olds arbitrary: e M)
  case (Cons x olds)
  obtain i a where x: "x = (i, a)" by fastforce
  have a: "inj_on fst (set (matchersOf a))" "apart (set (matchersOf a)) (allMatchers olds)" "wellPointed olds"
    using Cons.prems(4) wellPointed_inj wellPointed_apart by (auto simp: x wellPointed_Cons)
  have k: "keptOld (map_of news) (i, a) \<subseteq> set (matchersOf a) \<union> allMatchers news"
    by (auto simp: keptOld_def allMatchers_def split: option.splits if_splits dest!: map_of_SomeD)
  have "indexed (triggers (reloadOld cronOK (map_of news) i a e)) ((M \<union> keptOld (map_of news) (i, a)) \<union> allMatchers olds)"
    using reloadOld_indexed [of e M a "allMatchers olds" cronOK "map_of news" i] Cons.prems(1,2) a apart_sym
    by (simp add: x Un_assoc)
  moreover have "apart (M \<union> keptOld (map_of news) (i, a)) (allMatchers olds)"
    using Cons.prems(2,3) a(2) apart_mono [OF k] by (simp add: x)
  ultimately show ?case
    using Cons.IH [of "reloadOld cronOK (map_of news) i a e" "M \<union> keptOld (map_of news) (i, a)"] Cons.prems(3) a(3)
    by (simp add: x Un_assoc)
qed simp

lemma fold_reloadNew_indexed:
  "indexed (triggers e) M \<Longrightarrow> indexed (triggers (fold (\<lambda>(i, a). reloadNew cronOK olds i a) news e))
     (M \<union> allMatchers (filter (\<lambda>(i, a). olds i = None) news))"
proof (induction news arbitrary: e M)
  case (Cons x news)
  obtain i a where x: "x = (i, a)" by fastforce
  have "indexed (triggers (reloadNew cronOK olds i a e)) (M \<union> (if olds i = None then set (matchersOf a) else {}))"
    using Cons.prems indexed_registerTriggers [of "e\<lparr>runStates := (runStates e)(i \<mapsto> a)\<rparr>" M cronOK a]
    by (simp add: reloadNew_def)
  from Cons.IH [OF this] show ?case by (auto simp: x Un_assoc)
qed simp

subsection \<open>Timers and run states\<close>

fun isState :: "Matcher \<Rightarrow> bool" where
  "isState (StateChangeMatcher i es from to forDur) = True"
| "isState _ = False"

lemma stopMatchers_timers:
  "hold_timers (fold stopMatcher ms h) (p, x) =
     (if \<exists>m \<in> set ms. fst m = p \<and> isState (snd m) then None else hold_timers h (p, x))"
proof (induction ms arbitrary: h)
  case (Cons m ms)
  then show ?case by (cases "snd m") (auto simp: stopMatcher_def StopTimers_def)
qed simp

lemma registerTriggers_simps [simp]:
  "matcherState (registerTriggers cronOK a e) = matcherState e" "runStates (registerTriggers cronOK a e) = runStates e"
  "runStates (unregisterTriggers a e) = runStates e"
  by (simp_all add: registerTriggers_def unregisterTriggers_def)

lemma matcherState_reloadNew [simp]: "matcherState (fold (\<lambda>(i, a). reloadNew cronOK olds i a) news e) = matcherState e"
  by (induction news arbitrary: e) (auto simp: reloadNew_def)

text \<open>A reload drops the timers of \<open>oldA\<close> unless it is unchanged.\<close>

definition unchanged :: "(string \<rightharpoonup> autoObj) \<Rightarrow> string \<Rightarrow> autoObj \<Rightarrow> bool" where
  "unchanged newAutos i a = (case newAutos i of None \<Rightarrow> False | Some n \<Rightarrow> structurallyEqual a n)"

definition stopsTimer :: "(string \<rightharpoonup> autoObj) \<Rightarrow> nat \<Rightarrow> string \<times> autoObj \<Rightarrow> bool" where
  "stopsTimer newAutos p = (\<lambda>(i, a). \<not> unchanged newAutos i a \<and> (\<exists>m \<in> set (matchersOf a). fst m = p \<and> isState (snd m)))"

lemma timers_reloadOld:
  "hold_timers (matcherState (reloadOld cronOK newAutos i a e)) (p, x) =
     (if stopsTimer newAutos p (i, a) then None else hold_timers (matcherState e) (p, x))"
  by (auto simp: stopsTimer_def reloadOld_def unchanged_def unregisterTriggers_def stopMatchers_timers Let_def split: option.splits)

lemma timers_fold_reloadOld:
  "hold_timers (matcherState (fold (\<lambda>(i, a). reloadOld cronOK newAutos i a) olds e)) (p, x) =
     (if \<exists>ia \<in> set olds. stopsTimer newAutos p ia then None else hold_timers (matcherState e) (p, x))"
  by (induction olds arbitrary: e) (auto simp: timers_reloadOld)

lemma dom_reloadOld: "dom (runStates (reloadOld cronOK newAutos i a e)) = dom (runStates e) - (if newAutos i = None then {i} else {})"
  by (auto simp: reloadOld_def Let_def split: option.splits if_splits)

lemma dom_fold_reloadOld:
  "dom (runStates (fold (\<lambda>(i, a). reloadOld cronOK newAutos i a) olds e)) =
     dom (runStates e) - {i \<in> fst ` set olds. newAutos i = None}"
proof (induction olds arbitrary: e)
  case (Cons x olds)
  show ?case by (cases x) (auto simp: Cons.IH dom_reloadOld simp del: domIff split: if_splits)
qed simp

lemma dom_reloadNew: "dom (runStates (reloadNew cronOK olds i a e)) = dom (runStates e) \<union> (if olds i = None then {i} else {})"
  by (auto simp: reloadNew_def)

lemma dom_fold_reloadNew:
  "dom (runStates (fold (\<lambda>(i, a). reloadNew cronOK olds i a) news e)) =
     dom (runStates e) \<union> {i \<in> fst ` set news. olds i = None}"
proof (induction news arbitrary: e)
  case (Cons x news)
  show ?case by (cases x) (auto simp: Cons.IH dom_reloadNew simp del: domIff split: if_splits)
qed simp

lemma allMatchers_append [simp]: "allMatchers (xs @ ys) = allMatchers xs \<union> allMatchers ys"
  by (auto simp: allMatchers_def)

lemma wellPointed_append:
  "wellPointed (xs @ ys) \<Longrightarrow> wellPointed xs \<and> wellPointed ys \<and> apart (allMatchers ys) (allMatchers xs)"
  by (fastforce simp: wellPointed_def apart_def allMatchers_def matchersOf_def dest: set_zip_leftD)

lemma snd_matchersOf: "length (ao_ptrs a) = length (Triggers (ao_auto a)) \<Longrightarrow> snd ` set (matchersOf a) = set (Triggers (ao_auto a))"
  by (metis list.set_map map_snd_zip matchersOf_def)

subsection \<open>A reload from an engine in step with its configuration\<close>

definition inSync :: "(string \<times> autoObj) list \<Rightarrow> Engine \<Rightarrow> bool" where
  "inSync olds e \<longleftrightarrow> indexed (triggers e) (allMatchers olds) \<and> automations e = map_of olds \<and>
     dom (runStates e) = fst ` set olds"

text \<open>Compilation is a function: equal sources have equal triggers.\<close>

definition sameSources :: "(string \<times> autoObj) list \<Rightarrow> (string \<times> autoObj) list \<Rightarrow> bool" where
  "sameSources olds news \<longleftrightarrow> (\<forall>(i, a) \<in> set olds. \<forall>(j, b) \<in> set news.
     structurallyEqual a b \<longrightarrow> Triggers (ao_auto a) = Triggers (ao_auto b))"

lemma Reload_indexed:
  assumes "inSync olds e" "wellPointed (olds @ news)"
  shows "indexed (triggers (Reload cronOK olds news e))
     (\<Union> (keptOld (map_of news) ` set olds) \<union> allMatchers (filter (\<lambda>(i, a). map_of olds i = None) news))"
proof -
  have w: "apart (allMatchers news) (allMatchers olds)" "wellPointed olds" using wellPointed_append [OF assms(2)] by auto
  have "indexed (triggers (fold (\<lambda>(i, a). reloadOld cronOK (map_of news) i a) olds e)) ({} \<union> \<Union> (keptOld (map_of news) ` set olds))"
    using assms(1) w by (intro fold_reloadOld_indexed) (auto simp: inSync_def apart_def)
  from fold_reloadNew_indexed [OF this] assms(1) show ?thesis by (simp add: Reload_def inSync_def Let_def)
qed

lemma keptOld_triggers:
  assumes "distinct (map fst olds)" "distinct (map fst news)" "wellPointed (olds @ news)" "sameSources olds news"
  shows "snd ` (\<Union> (keptOld (map_of news) ` set olds) \<union> allMatchers (filter (\<lambda>(i, a). map_of olds i = None) news)) =
     (\<Union>(i, a) \<in> set news. set (Triggers (ao_auto a)))"
    (is "snd ` (\<Union> (?k ` set olds) \<union> ?new) = ?all")
proof -
  have same: "Triggers (ao_auto a) = Triggers (ao_auto b)"
    if "(i, a) \<in> set olds" "(j, b) \<in> set news" "structurallyEqual a b" for i a j b
    using that assms(4) by (fastforce simp: sameSources_def)
  have len: "snd ` set (matchersOf a) = set (Triggers (ao_auto a))" if "(i, a) \<in> set (olds @ news)" for i a
    using that assms(3) by (intro snd_matchersOf) (auto simp: wellPointed_def)
  have kept: "snd ` ?k (i, a) = (case map_of news i of None \<Rightarrow> {} | Some n \<Rightarrow> set (Triggers (ao_auto n)))"
    if "(i, a) \<in> set olds" for i a
    using that len [of i a] len [of i] same
    by (auto simp: keptOld_def split: option.splits dest!: map_of_SomeD)
  show ?thesis
  proof (intro set_eqI iffI)
    fix m
    assume "m \<in> snd ` (\<Union> (?k ` set olds) \<union> ?new)"
    then consider i a where "(i, a) \<in> set olds" "m \<in> snd ` ?k (i, a)" | "m \<in> snd ` ?new" by auto
    then show "m \<in> ?all"
    proof cases
      case 1
      then obtain b where "map_of news i = Some b" "m \<in> set (Triggers (ao_auto b))"
        using kept [of i a] by (cases "map_of news i") simp_all
      then show ?thesis by (auto dest!: map_of_SomeD)
    next
      case 2
      then obtain i a where "(i, a) \<in> set news" "m \<in> snd ` set (matchersOf a)" by (auto simp: allMatchers_def)
      then show ?thesis using len [of i a] by auto
    qed
  next
    fix m
    assume "m \<in> ?all"
    then obtain i b where b: "(i, b) \<in> set news" "m \<in> set (Triggers (ao_auto b))" by auto
    then have mb: "map_of news i = Some b" using assms(2) by simp
    show "m \<in> snd ` (\<Union> (?k ` set olds) \<union> ?new)"
    proof (cases "map_of olds i")
      case None
      then have "set (matchersOf b) \<subseteq> ?new" using b(1) by (auto simp: allMatchers_def)
      moreover have "m \<in> snd ` set (matchersOf b)" using b len [of i b] by simp
      ultimately show ?thesis by (meson image_mono subsetD sup.coboundedI2)
    next
      case (Some a)
      then have a: "(i, a) \<in> set olds" by (rule map_of_SomeD)
      then have "m \<in> snd ` ?k (i, a)" using kept [OF a] mb b(2) by simp
      then show ?thesis using a by auto
    qed
  qed
qed

lemma indexed_snd:
  assumes "indexed r ms"
  shows "snd ` set (stateByEntity r x) = {m \<in> snd ` ms. on_entity m x}" "snd ` set (eventByKind r k) = {m \<in> snd ` ms. on_kind m k}"
  using assms by (auto simp: indexed_def image_iff)

lemma stopsTimer_own:
  assumes "wellPointed olds" "(i, a) \<in> set olds" "(p, m) \<in> set (matchersOf a)" "isState m"
  shows "(\<exists>ia \<in> set olds. stopsTimer newAutos p ia) \<longleftrightarrow> \<not> unchanged newAutos i a"
proof -
  have "(j, b) = (i, a)" if "(j, b) \<in> set olds" "(p, m') \<in> set (matchersOf b)" for j b m'
    using assms(1,2,3) that
  proof (induction olds)
    case (Cons x olds)
    obtain k c where x: "x = (k, c)" by fastforce
    have "p \<in> set (ao_ptrs a)" "p \<in> set (ao_ptrs b)"
      using Cons.prems(3,5) by (auto simp: matchersOf_def dest: set_zip_leftD)
    with Cons.prems(1,2,4) have "(i, a) = x \<and> (j, b) = x \<or> (i, a) \<in> set olds \<and> (j, b) \<in> set olds"
      by (auto simp: x wellPointed_Cons)
    with Cons.IH Cons.prems(1,3,5) show ?case by (auto simp: x wellPointed_Cons)
  qed simp
  moreover have "\<exists>j b m'. ia = (j, b) \<and> (p, m') \<in> set (matchersOf b)" if "stopsTimer newAutos p ia" for ia
    using that by (cases ia) (auto simp: stopsTimer_def)
  ultimately have "ia = (i, a)" if "ia \<in> set olds" "stopsTimer newAutos p ia" for ia
    using that by metis
  moreover have "stopsTimer newAutos p (i, a) \<longleftrightarrow> \<not> unchanged newAutos i a"
    using assms(3,4) by (force simp: stopsTimer_def)
  ultimately show ?thesis using assms(2) by blast
qed


subsection \<open>A reload after a reload that changed nothing\<close>

lemma stateByEntity_unregisters:
  "pm \<in> set (stateByEntity r x) \<Longrightarrow> fst pm \<notin> fst ` set xs \<Longrightarrow> pm \<in> set (stateByEntity (fold Unregister xs r) x)"
proof (induction xs arbitrary: r)
  case (Cons y xs)
  then have "pm \<in> set (stateByEntity (Unregister y r) x)" by (cases "snd y") (auto simp: Unregister_def dropPtr_def)
  with Cons show ?case by simp
qed simp

lemma stateByEntity_registers:
  "pm \<in> set (stateByEntity r x) \<Longrightarrow> pm \<in> set (stateByEntity (fold registerMatcher xs r) x)"
proof (induction xs arbitrary: r)
  case (Cons y xs)
  then have "pm \<in> set (stateByEntity (registerMatcher y r) x)"
    by (cases "snd y") (auto simp: registerMatcher_def RegisterState_def RegisterEvent_def Let_def)
  with Cons show ?case by simp
qed simp

lemma stateByEntity_reloadOld:
  "pm \<in> set (stateByEntity (triggers e) x) \<Longrightarrow> fst pm \<notin> fst ` set (matchersOf a) \<Longrightarrow>
     pm \<in> set (stateByEntity (triggers (reloadOld cronOK newAutos i a e)) x)"
  by (auto simp: reloadOld_def Let_def registerTriggers_def unregisterTriggers_def stateByEntity_unregisters
    stateByEntity_registers split: option.splits)

lemma stateByEntity_Reload:
  assumes "pm \<in> set (stateByEntity (triggers e) x)" "fst pm \<notin> fst ` allMatchers olds"
  shows "pm \<in> set (stateByEntity (triggers (Reload cronOK olds news e)) x)"
proof -
  have new: "pm \<in> set (stateByEntity (triggers (fold (\<lambda>(i, a). reloadNew cronOK m i a) news e)) x)"
    if "pm \<in> set (stateByEntity (triggers e) x)" for e m
    using that
  proof (induction news arbitrary: e)
    case (Cons y news)
    then show ?case by (cases y) (simp add: reloadNew_def registerTriggers_def stateByEntity_registers)
  qed simp
  have "pm \<in> set (stateByEntity (triggers (fold (\<lambda>(i, a). reloadOld cronOK m i a) olds e)) x)" for m
    using assms
  proof (induction olds arbitrary: e)
    case (Cons y olds)
    then show ?case by (cases y) (simp add: stateByEntity_reloadOld image_Un)
  qed simp
  then show ?thesis by (simp add: Reload_def Let_def new)
qed

text \<open>
  A reload that leaves an automation unchanged keeps its matchers but records the newly compiled
  object, whose matchers were never registered, as the current automation. The next reload, whatever
  it does with the automation, unregisters the matchers of the recorded object: the state triggers of
  the original one stay in the registry.
\<close>

theorem Reload_leaks_triggers:
  assumes "inSync olds e" "wellPointed (olds @ news)" "(i, a) \<in> set olds" "unchanged (map_of news) i a"
    and "(p, m) \<in> set (matchersOf a)" "on_entity m x"
  shows "(p, m) \<in> set (stateByEntity (triggers (Reload cronOK news news' (Reload cronOK olds news e))) x)"
proof (rule stateByEntity_Reload)
  have "(p, m) \<in> keptOld (map_of news) (i, a)"
    using assms(4,5) by (auto simp: keptOld_def unchanged_def split: option.splits)
  with Reload_indexed [OF assms(1,2), of cronOK] assms(3,6)
  show "(p, m) \<in> set (stateByEntity (triggers (Reload cronOK olds news e)) x)" by (auto simp: indexed_def)
  have "(p, m) \<in> allMatchers olds" using assms(3,5) by (auto simp: allMatchers_def)
  with wellPointed_append [OF assms(2)] show "fst (p, m) \<notin> fst ` allMatchers news" by (force simp: apart_def)
qed

definition onEntity :: "string \<Rightarrow> nat \<Rightarrow> autoObj" where
  "onEntity x p = \<lparr>ao_auto = fst (compileOne \<lparr>parseExpr = (\<lambda>_. None), parseBody = (\<lambda>_. None)\<rparr> {}
     \<lparr>cfg_Id = ''a'', cfg_Enabled = True, cfg_Mode = ModeSingle, cfg_MaxQueued = 0, cfg_Areas = [],
      cfg_Triggers = [TC_StateChange [x] '''' '''' 0], cfg_Conditions = [], cfg_Actions = []\<rparr>), ao_ptrs = [p]\<rparr>"

lemma onEntity_simps [simp]:
  "Triggers (ao_auto (onEntity x p)) = [StateChangeMatcher ''a'' [x] '''' '''' 0]" "ao_ptrs (onEntity x p) = [p]"
  "structurallyEqual (onEntity x p) (onEntity y q) \<longleftrightarrow> x = y"
  "matchersOf (onEntity x p) = [(p, StateChangeMatcher ''a'' [x] '''' '''' 0)]"
  by (simp_all add: onEntity_def compileOne_def compileTrigger_def structurallyEqual_def matchersOf_def Let_def)

lemma inSync_onEntity: "inSync [(''a'', onEntity x p)] (NewEngine cronOK [(''a'', onEntity x p)])"
  by (auto simp: inSync_def NewEngine_def registerTriggers_def indexed_def registerMatcher_def RegisterState_def
      scheduleMatcher_def split: if_splits)


theorem Reload_leaks_triggers_witness:
  "(0, StateChangeMatcher ''a'' [''lamp''] '''' '''' 0) \<in> set (stateByEntity (triggers
     (Reload (\<lambda>_. True) [(''a'', onEntity ''lamp'' 1)] [(''a'', onEntity ''door'' 2)]
       (Reload (\<lambda>_. True) [(''a'', onEntity ''lamp'' 0)] [(''a'', onEntity ''lamp'' 1)]
         (NewEngine (\<lambda>_. True) [(''a'', onEntity ''lamp'' 0)])))) ''lamp'')"
  using Reload_leaks_triggers [of "[(''a'', onEntity ''lamp'' 0)]" "NewEngine (\<lambda>_. True) [(''a'', onEntity ''lamp'' 0)]"
      "[(''a'', onEntity ''lamp'' 1)]" "''a''" "onEntity ''lamp'' 0" 0 "StateChangeMatcher ''a'' [''lamp''] '''' '''' 0" "''lamp''"
      "\<lambda>_. True" "[(''a'', onEntity ''door'' 2)]"]
  by (simp add: inSync_onEntity wellPointed_def unchanged_def)

end
