(* ===== verification/Automation_Runs.thy ===== *)
theory Automation_Runs
  imports Automation_Triggers "HOL-Library.Multiset" "HOL-Library.Sublist"
begin

text \<open>
  One run of an automation: the blocks of actions (\<^verbatim>\<open>internal/automation/action\<close>) and \<open>executeRun\<close>
  (\<^verbatim>\<open>internal/automation/run.go\<close>), which evaluates the conditions, executes the actions and records the
  run in the event log. What a command, a scene, a script or a Starlark body does is outside: its
  result is arbitrary, and the list of calls with their results is what a run is observed by.
\<close>

section \<open>Executing actions\<close>

text \<open>An error as \<open>classify\<close> distinguishes it.\<close>

datatype runErr = LimitError | Canceled | OtherErr string

type_synonym calls = "(Executor \<times> runErr option) list"

text \<open>The collaborators of a run that are not nil.\<close>

record RunDeps =
  hasDispatcher :: bool
  hasScenes :: bool
  hasScripts :: bool
  hasRuntime :: bool

fun missing :: "RunDeps \<Rightarrow> Executor \<Rightarrow> string option" where
  "missing d (CallServiceAction e c as) = (if hasDispatcher d then None else Some ''call_service: no dispatcher'')"
| "missing d (SceneAction s) = (if hasScenes d then None else Some ''scene: no applier'')"
| "missing d (ScriptAction n as) = (if hasScripts d then None else Some ''script: no caller'')"
| "missing d (StarlarkAction b) = (if hasRuntime d then None else Some ''starlark: no runtime'')"
| "missing d _ = None"

fun isCall :: "Executor \<Rightarrow> bool" where
  "isCall (WaitAction t) = False"
| "isCall (SequenceBlock cs ctrl) = False"
| "isCall (ParallelBlock cs ctrl) = False"
| "isCall _ = True"

definition continueAt :: "bool list \<Rightarrow> nat \<Rightarrow> bool" where
  "continueAt ctrl i = (if i < length ctrl then ctrl ! i else False)"

text \<open>The errors that the goroutines of a parallel block return.\<close>

fun hardErrors :: "bool list \<Rightarrow> nat \<Rightarrow> runErr option list \<Rightarrow> runErr list" where
  "hardErrors ctrl i [] = []"
| "hardErrors ctrl i (None # rs) = hardErrors ctrl (Suc i) rs"
| "hardErrors ctrl i (Some e # rs) = (if continueAt ctrl i then hardErrors ctrl (Suc i) rs else e # hardErrors ctrl (Suc i) rs)"

fun interleavings :: "'a list list \<Rightarrow> 'a list set" where
  "interleavings [] = {[]}"
| "interleavings (t # ts) = (\<Union>u \<in> interleavings ts. shuffles t u)"

text \<open>
  \<open>Execute d ex calls r\<close>: the executor can make these calls and return \<open>r\<close>. \<open>ExecuteSeq\<close> is the loop of a
  sequence from child \<open>i\<close> on, \<open>ExecuteAll\<close> the goroutines of a parallel block; the errgroup returns one of
  the errors, and cancels the context of the others, which shows in their results.
\<close>

inductive Execute :: "RunDeps \<Rightarrow> Executor \<Rightarrow> calls \<Rightarrow> runErr option \<Rightarrow> bool"
  and ExecuteSeq :: "RunDeps \<Rightarrow> bool list \<Rightarrow> nat \<Rightarrow> Executor list \<Rightarrow> calls \<Rightarrow> runErr option \<Rightarrow> bool"
  and ExecuteAll :: "RunDeps \<Rightarrow> Executor list \<Rightarrow> calls list \<Rightarrow> runErr option list \<Rightarrow> bool"
  for d :: RunDeps
where
  call_missing: "isCall ex \<Longrightarrow> missing d ex = Some err \<Longrightarrow> Execute d ex [] (Some (OtherErr err))"
| call_made: "isCall ex \<Longrightarrow> missing d ex = None \<Longrightarrow> Execute d ex [(ex, r)] r"
| wait_none: "t \<le> 0 \<Longrightarrow> Execute d (WaitAction t) [] None"
| wait_done: "0 < t \<Longrightarrow> Execute d (WaitAction t) [(WaitAction t, None)] None"
| wait_ctx: "0 < t \<Longrightarrow> e = Canceled \<or> e = OtherErr ''context deadline exceeded'' \<Longrightarrow>
    Execute d (WaitAction t) [(WaitAction t, Some e)] (Some e)"
| sequence: "ExecuteSeq d ctrl 0 cs tr r \<Longrightarrow> Execute d (SequenceBlock cs ctrl) tr r"
| parallel: "ExecuteAll d cs trs rs \<Longrightarrow> tr \<in> interleavings trs \<Longrightarrow>
    (if hardErrors ctrl 0 rs = [] then r = None else \<exists>e \<in> set (hardErrors ctrl 0 rs). r = Some e) \<Longrightarrow>
    Execute d (ParallelBlock cs ctrl) tr r"
| seq_end: "ExecuteSeq d ctrl i [] [] None"
| seq_ok: "Execute d c t None \<Longrightarrow> ExecuteSeq d ctrl (Suc i) cs u r \<Longrightarrow> ExecuteSeq d ctrl i (c # cs) (t @ u) r"
| seq_continue: "Execute d c t (Some e) \<Longrightarrow> continueAt ctrl i \<Longrightarrow> ExecuteSeq d ctrl (Suc i) cs u r \<Longrightarrow>
    ExecuteSeq d ctrl i (c # cs) (t @ u) r"
| seq_stop: "Execute d c t (Some e) \<Longrightarrow> \<not> continueAt ctrl i \<Longrightarrow> ExecuteSeq d ctrl i (c # cs) t (Some e)"
| all_none: "ExecuteAll d [] [] []"
| all_more: "Execute d c t r \<Longrightarrow> ExecuteAll d cs ts rs \<Longrightarrow> ExecuteAll d (c # cs) (t # ts) (r # rs)"

section \<open>A run\<close>

datatype RunOutcome = OUTCOME_OK | OUTCOME_CONDITION_FAIL | OUTCOME_ACTION_ERROR | OUTCOME_LIMIT_EXCEEDED
  | OUTCOME_CANCELLED | OUTCOME_SKIPPED

definition classify :: "runErr option \<Rightarrow> bool \<Rightarrow> RunOutcome" where
  "classify err ctxCanceled =
     (case err of
        None \<Rightarrow> OUTCOME_OK
      | Some LimitError \<Rightarrow> OUTCOME_LIMIT_EXCEEDED
      | Some e \<Rightarrow> if ctxCanceled \<or> e = Canceled then OUTCOME_CANCELLED else OUTCOME_ACTION_ERROR)"

datatype autoEvent =
    AutomationTriggered string nat string string  \<comment> \<open>automation, trigger position, trigger kind, invoked by\<close>
  | AutomationFinished string RunOutcome          \<comment> \<open>automation, outcome\<close>

definition triggerPos :: "Match \<Rightarrow> nat" where
  "triggerPos m = (case m_Event m of None \<Rightarrow> 0 | Some ev \<Rightarrow> Position ev)"

text \<open>
  The events that reach the log: both appends drop their error, and an append under a cancelled context
  fails. \<open>logged1\<close> and \<open>logged2\<close> say whether they succeed.
\<close>

definition runLog :: "string \<Rightarrow> Match \<Rightarrow> string \<Rightarrow> bool \<Rightarrow> bool \<Rightarrow> RunOutcome \<Rightarrow> autoEvent list" where
  "runLog i m invokedBy logged1 logged2 out =
     (if logged1 then [AutomationTriggered i (triggerPos m) (m_TriggerKind m) invokedBy] else []) @
     (if logged2 then [AutomationFinished i out] else [])"

record runResult =
  rr_outcome :: RunOutcome
  rr_calls :: calls
  rr_log :: "autoEvent list"

inductive executeRun :: "RunDeps \<Rightarrow> Env \<Rightarrow> Automation \<Rightarrow> Match \<Rightarrow> string \<Rightarrow> runResult \<Rightarrow> bool"
  for d :: RunDeps and env :: Env and auto :: Automation and m :: Match and invokedBy :: string
where
  condition_fail: "\<not> evalConditions env (Conditions auto) \<Longrightarrow>
    executeRun d env auto m invokedBy \<lparr>rr_outcome = OUTCOME_CONDITION_FAIL, rr_calls = [],
      rr_log = runLog (au_ID auto) m invokedBy l1 l2 OUTCOME_CONDITION_FAIL\<rparr>"
| actions: "evalConditions env (Conditions auto) \<Longrightarrow>
    Execute d (SequenceBlock (Actions auto) (ActionCtrl auto)) tr err \<Longrightarrow>
    \<not> (l2 \<and> ctxCanceled) \<Longrightarrow>
    executeRun d env auto m invokedBy \<lparr>rr_outcome = classify err ctxCanceled, rr_calls = tr,
      rr_log = runLog (au_ID auto) m invokedBy l1 l2 (classify err ctxCanceled)\<rparr>"

inductive_cases sequenceE: "Execute d (SequenceBlock cs ctrl) tr r"

section \<open>What the actions of a run do\<close>

text \<open>The calls and waits that an executor is made of.\<close>

fun leaves :: "Executor \<Rightarrow> Executor list" where
  "leaves (SequenceBlock cs ctrl) = concat (map leaves cs)"
| "leaves (ParallelBlock cs ctrl) = concat (map leaves cs)"
| "leaves (WaitAction t) = (if t \<le> 0 then [] else [WaitAction t])"
| "leaves ex = [ex]"

lemma leaves_call: "isCall ex \<Longrightarrow> leaves ex = [ex]"
  by (cases ex) auto

lemma mset_interleavings: "tr \<in> interleavings trs \<Longrightarrow> mset tr = (\<Sum>t \<leftarrow> trs. mset t)"
  by (induction trs arbitrary: tr) (auto simp: mset_shuffles)

lemma hardErrors_sub: "e \<in> set (hardErrors ctrl i rs) \<Longrightarrow> Some e \<in> set rs"
  by (induction ctrl i rs rule: hardErrors.induct) (auto split: if_splits)

lemma hardErrors_none: "\<forall>r \<in> set rs. r = None \<Longrightarrow> hardErrors ctrl i rs = []"
  by (induction ctrl i rs rule: hardErrors.induct) auto

text \<open>No call is made twice.\<close>

lemma calls_once:
  "Execute d ex tr r \<Longrightarrow> mset (map fst tr) \<subseteq># mset (leaves ex)"
  "ExecuteSeq d ctrl i cs tr r \<Longrightarrow> mset (map fst tr) \<subseteq># mset (concat (map leaves cs))"
  "ExecuteAll d cs trs rs \<Longrightarrow> (\<Sum>t \<leftarrow> trs. mset (map fst t)) \<subseteq># mset (concat (map leaves cs))"
proof (induction rule: Execute_ExecuteSeq_ExecuteAll.inducts)
  case (parallel cs trs rs tr ctrl r)
  have "mset (map fst tr) = image_mset fst (\<Sum>t \<leftarrow> trs. mset t)" using mset_interleavings [OF parallel.hyps(1)] by simp
  also have "\<dots> = (\<Sum>t \<leftarrow> trs. mset (map fst t))" by (induction trs) auto
  finally show ?case using parallel.IH by simp
qed (auto simp: leaves_call subset_mset.add_mono intro: subset_mset.add_increasing2)

text \<open>An error comes from a call that failed or from a collaborator that is missing.\<close>

definition blamed :: "RunDeps \<Rightarrow> Executor list \<Rightarrow> calls \<Rightarrow> runErr \<Rightarrow> bool" where
  "blamed d exs tr e \<longleftrightarrow> (\<exists>c. (c, Some e) \<in> set tr) \<or> (\<exists>ex \<in> set exs. \<exists>err. missing d ex = Some err \<and> e = OtherErr err)"

lemma blamed_mono: "blamed d exs tr e \<Longrightarrow> set exs \<subseteq> set exs' \<Longrightarrow> set tr \<subseteq> set tr' \<Longrightarrow> blamed d exs' tr' e"
  by (fastforce simp: blamed_def)

lemma set_interleavings: "tr \<in> interleavings trs \<Longrightarrow> set tr = (\<Union>t \<in> set trs. set t)"
  by (induction trs arbitrary: tr) (auto simp: set_shuffles)

lemma error_blamed:
  "Execute d ex tr r \<Longrightarrow> (\<forall>e. r = Some e \<longrightarrow> blamed d (leaves ex) tr e)"
  "ExecuteSeq d ctrl i cs tr r \<Longrightarrow> (\<forall>e. r = Some e \<longrightarrow> blamed d (concat (map leaves cs)) tr e)"
  "ExecuteAll d cs trs rs \<Longrightarrow> (\<forall>e. Some e \<in> set rs \<longrightarrow> blamed d (concat (map leaves cs)) (concat trs) e)"
proof (induction rule: Execute_ExecuteSeq_ExecuteAll.inducts)
  case (parallel cs trs rs tr ctrl r)
  then have "r = Some e \<Longrightarrow> Some e \<in> set rs" for e by (auto dest: hardErrors_sub split: if_splits)
  with parallel.IH set_interleavings [OF parallel.hyps(1)] show ?case
    by (auto intro!: blamed_mono [of d _ "concat trs" _ _ tr])
next
  case (seq_ok c t ctrl i cs u r)
  then show ?case by (auto intro: blamed_mono)
next
  case (seq_continue c t e ctrl i cs u r)
  then show ?case by (auto intro: blamed_mono)
next
  case (seq_stop c t e ctrl i cs)
  then show ?case by (auto intro: blamed_mono)
next
  case (all_more c t r cs ts rs)
  then show ?case by (auto intro: blamed_mono)
qed (auto simp: blamed_def leaves_call)

text \<open>Without a failing call and a missing collaborator everything is executed.\<close>

definition clean :: "calls \<Rightarrow> bool" where
  "clean tr \<longleftrightarrow> (\<forall>(c, r) \<in> set tr. r = None)"

lemma clean_append [simp]: "clean (t @ u) \<longleftrightarrow> clean t \<and> clean u"
  by (auto simp: clean_def)

lemma clean_runs_all:
  assumes "\<And>ex. missing d ex = None"
  shows "Execute d ex tr r \<Longrightarrow> clean tr \<longrightarrow> r = None \<and> mset (map fst tr) = mset (leaves ex)"
    "ExecuteSeq d ctrl i cs tr r \<Longrightarrow> clean tr \<longrightarrow> r = None \<and> mset (map fst tr) = mset (concat (map leaves cs))"
    "ExecuteAll d cs trs rs \<Longrightarrow> (\<forall>t \<in> set trs. clean t) \<longrightarrow>
       (\<forall>r \<in> set rs. r = None) \<and> (\<Sum>t \<leftarrow> trs. mset (map fst t)) = mset (concat (map leaves cs))"
proof (induction rule: Execute_ExecuteSeq_ExecuteAll.inducts)
  case (parallel cs trs rs tr ctrl r)
  have "mset (map fst tr) = image_mset fst (\<Sum>t \<leftarrow> trs. mset t)" using mset_interleavings [OF parallel.hyps(1)] by simp
  also have "\<dots> = (\<Sum>t \<leftarrow> trs. mset (map fst t))" by (induction trs) auto
  finally have calls: "mset (map fst tr) = (\<Sum>t \<leftarrow> trs. mset (map fst t))" .
  show ?case
  proof
    assume "clean tr"
    then have "\<forall>t \<in> set trs. clean t" using set_interleavings [OF parallel.hyps(1)] by (auto simp: clean_def)
    with parallel.IH have rs: "\<forall>r \<in> set rs. r = None" "(\<Sum>t \<leftarrow> trs. mset (map fst t)) = mset (concat (map leaves cs))" by auto
    with parallel.hyps(2) hardErrors_none [OF rs(1)] calls
    show "r = None \<and> mset (map fst tr) = mset (leaves (ParallelBlock cs ctrl))" by simp
  qed
qed (use assms in \<open>auto simp: leaves_call clean_def\<close>)

lemma interleavings_ex: "\<exists>tr. tr \<in> interleavings trs"
  by (induction trs) (auto intro: splice_in_shuffles)

text \<open>Every executor can run to its end, with any results that its calls can have.\<close>

lemma call_such:
  assumes "isCall c" "Q c r"
  shows "\<exists>tr r. Execute d c tr r \<and> (\<forall>(c, x) \<in> set tr. isCall c \<longrightarrow> Q c x)"
proof (cases "missing d c")
  case None
  from call_made [of c, OF assms(1) None, of r] assms(2) show ?thesis by fastforce
next
  case (Some err)
  from call_missing [of c, OF assms(1) Some] show ?thesis by fastforce
qed

lemma Execute_such:
  assumes "\<And>c. c \<in> set (leaves ex) \<Longrightarrow> isCall c \<Longrightarrow> \<exists>r. Q c r"
  shows "\<exists>tr r. Execute d ex tr r \<and> (\<forall>(c, x) \<in> set tr. isCall c \<longrightarrow> Q c x)"
  using assms
proof (induction ex)
  case (WaitAction t)
  have "Execute d (WaitAction t) [] None" if "t \<le> 0" using that by (rule wait_none)
  moreover have "Execute d (WaitAction t) [(WaitAction t, None)] None" if "0 < t" using that by (rule wait_done)
  ultimately show ?case by (cases "t \<le> 0") fastforce+
next
  case (SequenceBlock cs ctrl)
  have "\<exists>tr r. ExecuteSeq d ctrl i cs' tr r \<and> (\<forall>(c, x) \<in> set tr. isCall c \<longrightarrow> Q c x)" if "set cs' \<subseteq> set cs" for cs' i
    using that
  proof (induction cs' arbitrary: i)
    case (Cons c cs')
    obtain t r where c: "Execute d c t r" "\<forall>(c, x) \<in> set t. isCall c \<longrightarrow> Q c x"
      using SequenceBlock.IH [of c, OF _ SequenceBlock.prems] Cons.prems by fastforce
    obtain u r' where u: "ExecuteSeq d ctrl (Suc i) cs' u r'" "\<forall>(c, x) \<in> set u. isCall c \<longrightarrow> Q c x"
      using Cons by (metis set_subset_Cons subset_trans)
    then have "\<forall>(c, x) \<in> set (t @ u). isCall c \<longrightarrow> Q c x" using c(2) by auto
    with c u show ?case by (cases r; cases "continueAt ctrl i") (blast intro: seq_ok seq_continue seq_stop)+
  qed (use seq_end in fastforce)
  then show ?case by (blast intro: sequence)
next
  case (ParallelBlock cs ctrl)
  have "\<exists>trs rs. ExecuteAll d cs' trs rs \<and> (\<forall>t \<in> set trs. \<forall>(c, x) \<in> set t. isCall c \<longrightarrow> Q c x)" if "set cs' \<subseteq> set cs" for cs'
    using that
  proof (induction cs')
    case (Cons c cs')
    obtain t r where "Execute d c t r" "\<forall>(c, x) \<in> set t. isCall c \<longrightarrow> Q c x"
      using ParallelBlock.IH [of c, OF _ ParallelBlock.prems] Cons.prems by fastforce
    moreover obtain ts rs where "ExecuteAll d cs' ts rs" "\<forall>t \<in> set ts. \<forall>(c, x) \<in> set t. isCall c \<longrightarrow> Q c x" using Cons by auto
    ultimately show ?case by (intro exI [of _ "t # ts"] exI [of _ "r # rs"]) (auto intro: all_more)
  qed (use all_none in fastforce)
  then obtain trs rs where all: "ExecuteAll d cs trs rs" "\<forall>t \<in> set trs. \<forall>(c, x) \<in> set t. isCall c \<longrightarrow> Q c x" by blast
  obtain tr where tr: "tr \<in> interleavings trs" using interleavings_ex by blast
  have "\<exists>r. if hardErrors ctrl 0 rs = [] then r = None else \<exists>e \<in> set (hardErrors ctrl 0 rs). r = Some e"
    by (cases "hardErrors ctrl 0 rs") auto
  then obtain r where "Execute d (ParallelBlock cs ctrl) tr r" using parallel [OF all(1) tr] by blast
  moreover have "\<forall>(c, x) \<in> set tr. isCall c \<longrightarrow> Q c x" using all(2) set_interleavings [OF tr] by auto
  ultimately show ?case by blast
qed (use call_such in auto)

corollary Execute_total: "\<exists>tr r. Execute d ex tr r"
  using Execute_such [of ex "\<lambda>c r. True" d] by auto

text \<open>A sequence stops at the first child that fails and may not be passed over.\<close>

lemma sequence_stops:
  assumes "ExecuteSeq d ctrl i cs tr (Some e)"
  shows "\<exists>k t u. k < length cs \<and> \<not> continueAt ctrl (i + k) \<and> ExecuteSeq d ctrl i (take k cs) t None \<and>
    Execute d (cs ! k) u (Some e) \<and> tr = t @ u"
  using assms
proof (induction cs arbitrary: i tr)
  case (Cons c cs)
  from Cons.prems show ?case
  proof cases
    case (seq_ok t u)
    from Cons.IH [OF seq_ok(3)] obtain k t' u' where k: "k < length cs" "\<not> continueAt ctrl (Suc i + k)"
      "ExecuteSeq d ctrl (Suc i) (take k cs) t' None" "Execute d (cs ! k) u' (Some e)" "u = t' @ u'" by blast
    with seq_ok show ?thesis
      by (intro exI [of _ "Suc k"] exI [of _ "t @ t'"] exI [of _ u']) (auto intro: Execute_ExecuteSeq_ExecuteAll.seq_ok)
  next
    case (seq_continue t e' u)
    from Cons.IH [OF seq_continue(4)] obtain k t' u' where k: "k < length cs" "\<not> continueAt ctrl (Suc i + k)"
      "ExecuteSeq d ctrl (Suc i) (take k cs) t' None" "Execute d (cs ! k) u' (Some e)" "u = t' @ u'" by blast
    with seq_continue show ?thesis
      by (intro exI [of _ "Suc k"] exI [of _ "t @ t'"] exI [of _ u']) (auto intro: Execute_ExecuteSeq_ExecuteAll.seq_continue)
  next
    case seq_stop
    then show ?thesis by (intro exI [of _ 0] exI [of _ "[]"] exI [of _ tr]) (auto intro: seq_end)
  qed
qed (auto elim: ExecuteSeq.cases)


text \<open>A lamp that fails to switch on, and a scene that is applied nevertheless.\<close>

definition eveningRun :: Automation where
  "eveningRun = \<lparr>au_ID = ''evening'', Triggers = [], Conditions = [], Actions = [CallServiceAction ''lamp'' ''on'' [], SceneAction ''dusk''],
     ActionCtrl = [True, False], au_Mode = ModeSingle, MaxQueued = 10, Enabled = True, Areas = [],
     au_Source = \<lparr>cfg_Id = ''evening'', cfg_Enabled = True, cfg_Mode = ModeSingle, cfg_MaxQueued = 0, cfg_Areas = [],
       cfg_Triggers = [], cfg_Conditions = [], cfg_Actions = []\<rparr>\<rparr>"


end
