(* ===== verification/Automation_Modes.thy ===== *)
theory Automation_Modes
  imports Automation_Runs
begin

text \<open>
  The run modes of an automation (\<^verbatim>\<open>internal/automation/mode.go\<close>, and \<open>fire\<close>, \<open>startPumpOnce\<close> and \<open>queuePump\<close>
  of \<^verbatim>\<open>engine.go\<close>): every match is handled by a goroutine of its own, and the goroutines of one automation
  meet in its \<open>runState\<close>. The model is a step relation on that \<open>runState\<close>; a step is what a goroutine does
  between two points at which others can intervene, and the steps of different goroutines interleave
  freely, with contexts that end and with reloads.
\<close>

section \<open>State\<close>

text \<open>Where a goroutine of \<open>fire\<close> stands; a started run carries the automation it was started with.\<close>

datatype firePc =
    Lookup
  | Admitted Automation
  | InSingle Automation
  | InRestart Automation nat   \<comment> \<open>its generation\<close>
  | AfterRestart nat
  | AtQueue Automation nat     \<comment> \<open>the channel it is about to send to\<close>
  | AtPump
  | InParallel Automation
  | FireEnded
  | FirePanicked

datatype pumpPc =
    PumpInit
  | PumpLoop "nat option"      \<comment> \<open>its channel, nil if there was none\<close>
  | PumpRun nat Match
  | PumpDrain "nat option"
  | PumpExit

record fireG =
  fg_ctx :: nat
  fg_match :: Match
  fg_pc :: firePc

record pumpG =
  pg_ctx :: nat
  pg_pc :: pumpPc

record channel =
  ch_cap :: int
  ch_buf :: "Match list"
  ch_closed :: bool

datatype modeObs =
    Sent nat Match             \<comment> \<open>channel, match\<close>
  | Started nat Match          \<comment> \<open>the pump runs a match of the channel\<close>
  | Shutdown nat Match         \<comment> \<open>the pump skips it\<close>
  | Skipped Match string

text \<open>
  The \<open>runState\<close>, the goroutines that use it and the contexts that are done. A cancel function is the
  goroutine whose run it cancels. \<open>restartGen\<close> is a 64-bit counter of the fires in restart mode, taken
  not to wrap. \<open>observed\<close> records what happened, for the statements below.
\<close>

record runState =
  rs_auto :: Automation
  rs_running :: bool
  activeCancel :: "nat option"
  restartGen :: nat
  rs_queue :: "nat option"
  chans :: "nat \<Rightarrow> channel option"
  pumpOnce :: bool
  fires :: "nat \<Rightarrow> fireG option"
  pumps :: "nat \<Rightarrow> pumpG option"
  runCancelled :: "nat set"
  ctxDone :: "nat set"
  registered :: bool
  observed :: "modeObs list"

definition newRunState :: "Automation \<Rightarrow> runState" where
  "newRunState a = \<lparr>rs_auto = a, rs_running = False, activeCancel = None, restartGen = 0, rs_queue = None, chans = Map.empty,
     pumpOnce = False, fires = Map.empty, pumps = Map.empty, runCancelled = {}, ctxDone = {}, registered = True, observed = []\<rparr>"

definition goto :: "nat \<Rightarrow> fireG \<Rightarrow> firePc \<Rightarrow> runState \<Rightarrow> runState" where
  "goto g f pc s = s\<lparr>fires := (fires s)(g \<mapsto> f\<lparr>fg_pc := pc\<rparr>)\<rparr>"

definition pumpTo :: "nat \<Rightarrow> pumpG \<Rightarrow> pumpPc \<Rightarrow> runState \<Rightarrow> runState" where
  "pumpTo g p pc s = s\<lparr>pumps := (pumps s)(g \<mapsto> p\<lparr>pg_pc := pc\<rparr>)\<rparr>"

definition observe :: "modeObs \<Rightarrow> runState \<Rightarrow> runState" where
  "observe ob s = s\<lparr>observed := observed s @ [ob]\<rparr>"

definition emitSkipped :: "Match \<Rightarrow> string \<Rightarrow> runState \<Rightarrow> runState" where
  "emitSkipped m reason s = observe (Skipped m reason) s"

definition setBuf :: "nat \<Rightarrow> channel \<Rightarrow> Match list \<Rightarrow> runState \<Rightarrow> runState" where
  "setBuf ch c buf s = s\<lparr>chans := (chans s)(ch \<mapsto> c\<lparr>ch_buf := buf\<rparr>)\<rparr>"

section \<open>Operations on the run state\<close>

text \<open>\<open>ensureQueue\<close>; a new channel gets a fresh number \<open>ch\<close>.\<close>

definition ensureQueue :: "nat \<Rightarrow> int \<Rightarrow> runState \<Rightarrow> nat \<times> runState" where
  "ensureQueue ch cap s =
     (case rs_queue s of
        Some q \<Rightarrow> (q, s)
      | None \<Rightarrow> (ch, s\<lparr>rs_queue := Some ch, chans := (chans s)(ch \<mapsto> \<lparr>ch_cap = cap, ch_buf = [], ch_closed = False\<rparr>)\<rparr>))"

definition swapAuto :: "Automation \<Rightarrow> runState \<Rightarrow> runState" where
  "swapAuto a s = s\<lparr>rs_auto := a\<rparr>"

definition SetEnabled :: "bool \<Rightarrow> runState \<Rightarrow> runState" where
  "SetEnabled b s = s\<lparr>rs_auto := (rs_auto s)\<lparr>Enabled := b\<rparr>\<rparr>"

definition cancelActive :: "runState \<Rightarrow> runState" where
  "cancelActive s = (case activeCancel s of None \<Rightarrow> s | Some h \<Rightarrow> s\<lparr>runCancelled := insert h (runCancelled s)\<rparr>)"

text \<open>The restart branch of \<open>fire\<close>, under \<open>restartMu\<close>.\<close>

definition restartRun :: "nat \<Rightarrow> runState \<Rightarrow> runState" where
  "restartRun g s = (cancelActive s)\<lparr>activeCancel := Some g, restartGen := restartGen s + 1\<rparr>"

definition restartDone :: "nat \<Rightarrow> runState \<Rightarrow> runState" where
  "restartDone myGen s = (if restartGen s = myGen then s\<lparr>activeCancel := None\<rparr> else s)"

definition closeQueue :: "runState \<Rightarrow> runState" where
  "closeQueue s =
     (case rs_queue s of
        None \<Rightarrow> s
      | Some q \<Rightarrow> s\<lparr>chans := (case chans s q of None \<Rightarrow> chans s | Some c \<Rightarrow> (chans s)(q \<mapsto> c\<lparr>ch_closed := True\<rparr>)), rs_queue := None\<rparr>)"

text \<open>What \<open>Reload\<close> does with the run state of an automation that is gone.\<close>

definition removeRunState :: "runState \<Rightarrow> runState" where
  "removeRunState s = (closeQueue ((cancelActive s)\<lparr>activeCancel := None\<rparr>))\<lparr>registered := False\<rparr>"

definition startPumpOnce :: "nat \<Rightarrow> nat \<Rightarrow> runState \<Rightarrow> runState" where
  "startPumpOnce g ctx s =
     (if pumpOnce s then s else s\<lparr>pumpOnce := True, pumps := (pumps s)(g \<mapsto> \<lparr>pg_ctx = ctx, pg_pc = PumpInit\<rparr>)\<rparr>)"

section \<open>Steps\<close>

text \<open>A step of the goroutine \<open>g\<close> of \<open>fire\<close>, which stands at \<open>fg_pc f\<close>.\<close>

inductive fireStep :: "nat \<Rightarrow> fireG \<Rightarrow> runState \<Rightarrow> runState \<Rightarrow> bool" where
  disabled: "fg_pc f = Lookup \<Longrightarrow> \<not> Enabled (rs_auto s) \<Longrightarrow> fireStep g f s (goto g f FireEnded s)"
| admit: "fg_pc f = Lookup \<Longrightarrow> Enabled (rs_auto s) \<Longrightarrow> fireStep g f s (goto g f (Admitted (rs_auto s)) s)"
| single_skip: "fg_pc f = Admitted a \<Longrightarrow> au_Mode a = ModeSingle \<Longrightarrow> rs_running s \<Longrightarrow>
    fireStep g f s (goto g f FireEnded (emitSkipped (fg_match f) ''already running'' s))"
| single_start: "fg_pc f = Admitted a \<Longrightarrow> au_Mode a = ModeSingle \<Longrightarrow> \<not> rs_running s \<Longrightarrow>
    fireStep g f s (goto g f (InSingle a) (s\<lparr>rs_running := True\<rparr>))"
| single_end: "fg_pc f = InSingle a \<Longrightarrow> fireStep g f s (goto g f FireEnded (s\<lparr>rs_running := False\<rparr>))"
| restart_start: "fg_pc f = Admitted a \<Longrightarrow> au_Mode a = ModeRestart \<Longrightarrow>
    fireStep g f s (goto g f (InRestart a (restartGen s + 1)) (restartRun g s))"
| restart_end: "fg_pc f = InRestart a n \<Longrightarrow> fireStep g f s (goto g f (AfterRestart n) (s\<lparr>runCancelled := insert g (runCancelled s)\<rparr>))"
| restart_done: "fg_pc f = AfterRestart n \<Longrightarrow> fireStep g f s (goto g f FireEnded (restartDone n s))"
| queue_ensure: "fg_pc f = Admitted a \<Longrightarrow> au_Mode a = ModeQueued \<Longrightarrow> chans s ch = None \<Longrightarrow>
    ensureQueue ch (MaxQueued a) s = (q, s') \<Longrightarrow> fireStep g f s (goto g f (AtQueue a q) s')"
| queue_send: "fg_pc f = AtQueue a q \<Longrightarrow> chans s q = Some c \<Longrightarrow> \<not> ch_closed c \<Longrightarrow> int (length (ch_buf c)) < ch_cap c \<Longrightarrow>
    fireStep g f s (goto g f AtPump (observe (Sent q (fg_match f)) (setBuf q c (ch_buf c @ [fg_match f]) s)))"
| queue_full: "fg_pc f = AtQueue a q \<Longrightarrow> chans s q = Some c \<Longrightarrow> \<not> ch_closed c \<Longrightarrow> \<not> int (length (ch_buf c)) < ch_cap c \<Longrightarrow>
    fireStep g f s (goto g f FireEnded (emitSkipped (fg_match f) ''queue full'' s))"
| queue_panic: "fg_pc f = AtQueue a q \<Longrightarrow> chans s q = Some c \<Longrightarrow> ch_closed c \<Longrightarrow> fireStep g f s (goto g f FirePanicked s)"
| queue_pump: "fg_pc f = AtPump \<Longrightarrow> fireStep g f s (goto g f FireEnded (startPumpOnce g (fg_ctx f) s))"
| parallel_start: "fg_pc f = Admitted a \<Longrightarrow> au_Mode a = ModeParallel \<Longrightarrow> fireStep g f s (goto g f (InParallel a) s)"
| parallel_end: "fg_pc f = InParallel a \<Longrightarrow> fireStep g f s (goto g f FireEnded s)"

text \<open>A step of a pump; \<open>select\<close> may take either of two branches that are ready.\<close>

inductive pumpStep :: "nat \<Rightarrow> pumpG \<Rightarrow> runState \<Rightarrow> runState \<Rightarrow> bool" where
  pump_init: "pg_pc p = PumpInit \<Longrightarrow> pumpStep g p s (pumpTo g p (PumpLoop (rs_queue s)) s)"
| pump_recv: "pg_pc p = PumpLoop (Some q) \<Longrightarrow> chans s q = Some c \<Longrightarrow> ch_buf c = m # rest \<Longrightarrow>
    pumpStep g p s (pumpTo g p (PumpRun q m) (observe (Started q m) (setBuf q c rest s)))"
| pump_run: "pg_pc p = PumpRun q m \<Longrightarrow> pumpStep g p s (pumpTo g p (PumpLoop (Some q)) s)"
| pump_closed: "pg_pc p = PumpLoop (Some q) \<or> pg_pc p = PumpDrain (Some q) \<Longrightarrow> chans s q = Some c \<Longrightarrow> ch_buf c = [] \<Longrightarrow>
    ch_closed c \<Longrightarrow> pumpStep g p s (pumpTo g p PumpExit s)"
| pump_ctx: "pg_pc p = PumpLoop qo \<Longrightarrow> pg_ctx p \<in> ctxDone s \<Longrightarrow> pumpStep g p s (pumpTo g p (PumpDrain qo) s)"
| pump_drain: "pg_pc p = PumpDrain (Some q) \<Longrightarrow> chans s q = Some c \<Longrightarrow> ch_buf c = m # rest \<Longrightarrow>
    pumpStep g p s (pumpTo g p (PumpDrain (Some q)) (observe (Shutdown q m) (setBuf q c rest s)))"
| pump_drained: "pg_pc p = PumpDrain qo \<Longrightarrow> (\<forall>q. qo = Some q \<longrightarrow> (\<exists>c. chans s q = Some c \<and> ch_buf c = [])) \<Longrightarrow>
    pumpStep g p s (pumpTo g p PumpExit s)"

text \<open>
  A match is fired while the automation is known; contexts end; a reload exchanges the automation
  or removes it.
\<close>

inductive modeStep :: "runState \<Rightarrow> runState \<Rightarrow> bool" where
  fire: "registered s \<Longrightarrow> fires s g = None \<Longrightarrow>
    modeStep s (s\<lparr>fires := (fires s)(g \<mapsto> \<lparr>fg_ctx = ctx, fg_match = m, fg_pc = Lookup\<rparr>)\<rparr>)"
| fireStep: "fires s g = Some f \<Longrightarrow> fireStep g f s s' \<Longrightarrow> modeStep s s'"
| pumpStep: "pumps s g = Some p \<Longrightarrow> pumpStep g p s s' \<Longrightarrow> modeStep s s'"
| ctxEnds: "modeStep s (s\<lparr>ctxDone := insert ctx (ctxDone s)\<rparr>)"
| reloadSwap: "registered s \<Longrightarrow> modeStep s (swapAuto a s)"
| enable: "registered s \<Longrightarrow> modeStep s (SetEnabled b s)"
| reloadRemove: "registered s \<Longrightarrow> modeStep s (removeRunState s)"

lemmas mode_defs = goto_def pumpTo_def observe_def emitSkipped_def setBuf_def ensureQueue_def swapAuto_def SetEnabled_def
  cancelActive_def restartRun_def restartDone_def closeQueue_def removeRunState_def startPumpOnce_def

section \<open>Invariants\<close>

text \<open>Single mode: one run at a time, while the flag is set.\<close>

definition isSingle :: "fireG option \<Rightarrow> bool" where
  "isSingle fo = (case fo of Some f \<Rightarrow> (case fg_pc f of InSingle _ \<Rightarrow> True | _ \<Rightarrow> False) | None \<Rightarrow> False)"

definition singleInv :: "runState \<Rightarrow> bool" where
  "singleInv s \<longleftrightarrow> (\<forall>g. isSingle (fires s g) \<longrightarrow> rs_running s) \<and>
     (\<forall>g h. isSingle (fires s g) \<longrightarrow> isSingle (fires s h) \<longrightarrow> g = h)"

lemma isSingle_simps [simp]: "\<not> isSingle None" "isSingle (Some f) \<longleftrightarrow> (\<exists>a. fg_pc f = InSingle a)"
  by (auto simp: isSingle_def split: firePc.splits)

lemma fireStep_single: "fireStep g f s s' \<Longrightarrow> fires s g = Some f \<Longrightarrow> singleInv s \<Longrightarrow> singleInv s'"
  by (cases rule: fireStep.cases) (auto simp: singleInv_def mode_defs split: option.splits if_splits)

lemma pumpStep_fires:
  "pumpStep g p s s' \<Longrightarrow> fires s' = fires s \<and> rs_running s' = rs_running s \<and> activeCancel s' = activeCancel s \<and>
     restartGen s' = restartGen s \<and> runCancelled s' = runCancelled s \<and> rs_queue s' = rs_queue s \<and> pumpOnce s' = pumpOnce s"
  by (cases rule: pumpStep.cases) (auto simp: mode_defs)

lemma modeStep_single: "modeStep s s' \<Longrightarrow> singleInv s \<Longrightarrow> singleInv s'"
proof (induction rule: modeStep.induct)
  case (fireStep s g f s')
  then show ?case using fireStep_single by blast
next
  case (pumpStep s g p s')
  then show ?case using pumpStep_fires [of g p s s'] by (simp add: singleInv_def)
qed (auto simp: singleInv_def mode_defs split: option.splits)

text \<open>Restart mode: every run but the newest is cancelled.\<close>

fun generation :: "firePc \<Rightarrow> nat option" where
  "generation (InRestart a n) = Some n"
| "generation (AfterRestart n) = Some n"
| "generation _ = None"

definition restartInv :: "runState \<Rightarrow> bool" where
  "restartInv s \<longleftrightarrow>
     (\<forall>g f n. fires s g = Some f \<longrightarrow> generation (fg_pc f) = Some n \<longrightarrow> n \<le> restartGen s) \<and>
     (\<forall>g f h f' n. fires s g = Some f \<longrightarrow> fires s h = Some f' \<longrightarrow> generation (fg_pc f) = Some n \<longrightarrow>
        generation (fg_pc f') = Some n \<longrightarrow> g = h) \<and>
     (\<forall>g f a n. fires s g = Some f \<longrightarrow> fg_pc f = InRestart a n \<longrightarrow> g \<notin> runCancelled s \<longrightarrow>
        activeCancel s = Some g \<and> n = restartGen s)"

lemma restartInvD:
  assumes "restartInv s" "fires s g = Some f"
  shows "generation (fg_pc f) = Some n \<Longrightarrow> n \<le> restartGen s"
    "fires s h = Some f' \<Longrightarrow> generation (fg_pc f) = Some n \<Longrightarrow> generation (fg_pc f') = Some n \<Longrightarrow> g = h"
    "fg_pc f = InRestart a n \<Longrightarrow> g \<notin> runCancelled s \<Longrightarrow> activeCancel s = Some g \<and> n = restartGen s"
  using assms unfolding restartInv_def by blast+

text \<open>A goroutine that moves on without entering a restart run, and leaves the restart state as it is.\<close>

lemma restartInv_frame:
  assumes "restartInv s" "restartGen s' = restartGen s" "activeCancel s' = activeCancel s" "runCancelled s' = runCancelled s"
    and "\<And>h f'. fires s' h = Some f' \<Longrightarrow> fires s h = Some f' \<or> generation (fg_pc f') = None"
  shows "restartInv s'"
  unfolding restartInv_def assms(2-4)
proof (intro conjI allI impI)
  fix g f n
  assume "fires s' g = Some f" "generation (fg_pc f) = Some n"
  then show "n \<le> restartGen s" using assms(5) [of g f] restartInvD(1) [OF assms(1), of g f n] by simp
next
  fix g f h f' n
  assume "fires s' g = Some f" "fires s' h = Some f'" "generation (fg_pc f) = Some n" "generation (fg_pc f') = Some n"
  then show "g = h" using assms(5) [of g f] assms(5) [of h f'] restartInvD(2) [OF assms(1), of g f h f' n] by simp
next
  fix g f a n
  assume "fires s' g = Some f" "fg_pc f = InRestart a n" "g \<notin> runCancelled s"
  then show "activeCancel s = Some g" "n = restartGen s"
    using assms(5) [of g f] restartInvD(3) [OF assms(1), of g f a n] by simp_all
qed

text \<open>A cancel function that is taken away when no run of the restart mode is left uncancelled.\<close>

lemma restartInv_weaken:
  assumes "restartInv s" "fires s' = fires s" "restartGen s' = restartGen s" "runCancelled s \<subseteq> runCancelled s'"
    and "\<And>g f a n. fires s g = Some f \<Longrightarrow> fg_pc f = InRestart a n \<Longrightarrow> g \<in> runCancelled s'"
  shows "restartInv s'"
  unfolding restartInv_def assms(2,3)
  using restartInvD(1,2) [OF assms(1)] assms(5) by blast

lemma restartInv_start:
  assumes "restartInv s"
  shows "restartInv (goto g f (InRestart a (restartGen s + 1)) (restartRun g s))"
proof -
  have le: "fires s h = Some f' \<Longrightarrow> generation (fg_pc f') = Some n \<Longrightarrow> n \<noteq> Suc (restartGen s)" for h f' n
    using restartInvD(1) [OF assms, of h f' n] by auto
  show ?thesis
    using assms le unfolding restartInv_def
    by (auto simp: goto_def restartRun_def cancelActive_def le_SucI split: option.splits if_splits)
qed

lemma restartInv_end:
  assumes "restartInv s" "fires s g = Some f" "fg_pc f = InRestart a n"
  shows "restartInv (goto g f (AfterRestart n) (s\<lparr>runCancelled := insert g (runCancelled s)\<rparr>))"
  using assms unfolding restartInv_def by (auto simp: goto_def split: if_splits)

lemma restartInv_done:
  assumes "restartInv s" "fires s g = Some f" "fg_pc f = AfterRestart n"
  shows "restartInv (goto g f FireEnded (restartDone n s))"
proof -
  have no: "h \<in> runCancelled s" if "restartGen s = n" "fires s h = Some f'" "fg_pc f' = InRestart a n'" for h f' a n'
  proof (rule ccontr)
    assume "h \<notin> runCancelled s"
    then have "n' = n" using restartInvD(3) [OF assms(1) that(2,3)] that(1) by simp
    then have "h = g" using restartInvD(2) [OF assms(1) that(2) assms(2), of n] that(3) assms(3) by simp
    with that assms(2,3) show False by simp
  qed
  have "restartInv (goto g f FireEnded s)"
    using assms(1) by (rule restartInv_frame) (auto simp: goto_def split: if_splits)
  then show ?thesis
    using no by (cases "restartGen s = n") (rule restartInv_weaken, auto simp: goto_def restartDone_def split: if_splits)
qed

lemma fireStep_restart:
  assumes "fireStep g f s s'" "fires s g = Some f" "restartInv s"
  shows "restartInv s'"
  using assms(1)
proof cases
  case (restart_start a)
  then show ?thesis using restartInv_start [OF assms(3)] by simp
next
  case (restart_end a n)
  then show ?thesis using restartInv_end [OF assms(3,2)] by simp
next
  case (restart_done n)
  then show ?thesis using restartInv_done [OF assms(3,2)] by simp
qed (auto intro!: restartInv_frame [OF assms(3)] simp: mode_defs split: if_splits option.splits)

lemma modeStep_restart: "modeStep s s' \<Longrightarrow> restartInv s \<Longrightarrow> restartInv s'"
proof (induction rule: modeStep.induct)
  case (fireStep s g f s')
  then show ?case using fireStep_restart by blast
next
  case (pumpStep s g p s')
  with pumpStep_fires [OF pumpStep.hyps(2)] show ?case by (intro restartInv_frame [OF pumpStep.prems]) auto
next
  case (reloadRemove s)
  have "g \<in> runCancelled (removeRunState s)" if "fires s g = Some f" "fg_pc f = InRestart a n" for g f a n
    using restartInvD(3) [OF reloadRemove.prems that] by (cases "g \<in> runCancelled s") (auto simp: mode_defs split: option.splits)
  then show ?case
    by (intro restartInv_weaken [OF reloadRemove.prems]) (auto simp: mode_defs split: option.splits)
qed (erule restartInv_frame; auto simp: mode_defs split: if_splits)+

text \<open>Queued mode: what a channel was sent and what a pump took from it.\<close>

definition sentOn :: "nat \<Rightarrow> modeObs list \<Rightarrow> Match list" where
  "sentOn q obs = List.map_filter (\<lambda>ob. case ob of Sent r m \<Rightarrow> if r = q then Some m else None | _ \<Rightarrow> None) obs"

definition takenOn :: "nat \<Rightarrow> modeObs list \<Rightarrow> Match list" where
  "takenOn q obs = List.map_filter (\<lambda>ob. case ob of Started r m \<Rightarrow> if r = q then Some m else None
     | Shutdown r m \<Rightarrow> if r = q then Some m else None | _ \<Rightarrow> None) obs"

lemma sentOn_append [simp]:
  "sentOn q [] = []" "sentOn q (obs @ [Sent r m]) = sentOn q obs @ (if r = q then [m] else [])"
  "sentOn q (obs @ [Started r m]) = sentOn q obs" "sentOn q (obs @ [Shutdown r m]) = sentOn q obs"
  "sentOn q (obs @ [Skipped m reason]) = sentOn q obs"
  by (simp_all add: sentOn_def map_filter_def)

lemma takenOn_append [simp]:
  "takenOn q [] = []" "takenOn q (obs @ [Sent r m]) = takenOn q obs"
  "takenOn q (obs @ [Started r m]) = takenOn q obs @ (if r = q then [m] else [])"
  "takenOn q (obs @ [Shutdown r m]) = takenOn q obs @ (if r = q then [m] else [])"
  "takenOn q (obs @ [Skipped m reason]) = takenOn q obs"
  by (simp_all add: takenOn_def map_filter_def)

fun chanOK :: "channel option \<Rightarrow> Match list \<Rightarrow> Match list \<Rightarrow> bool" where
  "chanOK None sent taken \<longleftrightarrow> sent = [] \<and> taken = []"
| "chanOK (Some c) sent taken \<longleftrightarrow> sent = taken @ ch_buf c \<and> length (ch_buf c) \<le> nat (ch_cap c)"

definition chanInv :: "runState \<Rightarrow> bool" where
  "chanInv s \<longleftrightarrow> (\<forall>q. chanOK (chans s q) (sentOn q (observed s)) (takenOn q (observed s)))"

lemma fireStep_chan:
  assumes "fireStep g f s s'" "chanInv s"
  shows "chanInv s'"
proof -
  have ok: "chanOK (chans s q) (sentOn q (observed s)) (takenOn q (observed s))" for q
    using assms(2) by (simp add: chanInv_def)
  have "chanOK (chans s' q) (sentOn q (observed s')) (takenOn q (observed s'))" for q
    using assms(1) ok [of q] by cases (auto simp: mode_defs split: option.splits if_splits)
  then show ?thesis by (simp add: chanInv_def)
qed

lemma pumpStep_chan:
  assumes "pumpStep g p s s'" "chanInv s"
  shows "chanInv s'"
proof -
  have ok: "chanOK (chans s q) (sentOn q (observed s)) (takenOn q (observed s))" for q
    using assms(2) by (simp add: chanInv_def)
  have "chanOK (chans s' q) (sentOn q (observed s')) (takenOn q (observed s'))" for q
    using assms(1) ok [of q] by cases (auto simp: mode_defs)
  then show ?thesis by (simp add: chanInv_def)
qed

lemma chanOK_close: "chanOK (Some c) sent taken \<Longrightarrow> chanOK (Some (c\<lparr>ch_closed := True\<rparr>)) sent taken"
  by simp

lemma removeRunState_chan: "chanInv s \<Longrightarrow> chanInv (removeRunState s)"
  unfolding chanInv_def removeRunState_def closeQueue_def cancelActive_def
  by (auto split: option.splits simp del: chanOK.simps intro: chanOK_close) (metis chanOK_close)+

lemma modeStep_chan: "modeStep s s' \<Longrightarrow> chanInv s \<Longrightarrow> chanInv s'"
proof (induction rule: modeStep.induct)
  case (fireStep s g f s')
  then show ?case using fireStep_chan by blast
next
  case (pumpStep s g p s')
  then show ?case using pumpStep_chan by blast
next
  case (reloadRemove s)
  then show ?case using removeRunState_chan by blast
qed (simp_all add: chanInv_def swapAuto_def SetEnabled_def)

text \<open>There is one pump at most.\<close>

definition pumpInv :: "runState \<Rightarrow> bool" where
  "pumpInv s \<longleftrightarrow> (\<forall>g. pumps s g \<noteq> None \<longrightarrow> pumpOnce s) \<and> (\<forall>g h. pumps s g \<noteq> None \<longrightarrow> pumps s h \<noteq> None \<longrightarrow> g = h)"

lemma fireStep_pumps:
  "fireStep g f s s' \<Longrightarrow> (pumps s' = pumps s \<and> pumpOnce s' = pumpOnce s) \<or>
     (\<not> pumpOnce s \<and> pumpOnce s' \<and> (\<exists>p. pumps s' = (pumps s)(g \<mapsto> p)))"
  by (cases rule: fireStep.cases) (auto simp: mode_defs split: option.splits if_splits)

lemma modeStep_pump: "modeStep s s' \<Longrightarrow> pumpInv s \<Longrightarrow> pumpInv s'"
proof (induction rule: modeStep.induct)
  case (fireStep s g f s')
  from fireStep_pumps [OF fireStep.hyps(2)] fireStep.prems show ?case by (fastforce simp: pumpInv_def split: if_splits)
next
  case (pumpStep s g p s')
  from pumpStep.hyps(2) have "(\<exists>p'. pumps s' = (pumps s)(g \<mapsto> p')) \<and> pumpOnce s' = pumpOnce s"
    by (cases rule: pumpStep.cases) (auto simp: mode_defs)
  with pumpStep show ?case by (fastforce simp: pumpInv_def split: if_splits)
qed (auto simp: pumpInv_def mode_defs split: option.splits)

lemma modes_invariant:
  assumes "modeStep\<^sup>*\<^sup>* (newRunState a) s"
  shows "singleInv s \<and> restartInv s \<and> chanInv s \<and> pumpInv s"
  using assms
proof (induction rule: rtranclp_induct)
  case base
  show ?case by (simp add: newRunState_def singleInv_def restartInv_def chanInv_def pumpInv_def)
next
  case (step s s')
  then show ?case using modeStep_single modeStep_restart modeStep_chan modeStep_pump by blast
qed

section \<open>What the modes guarantee\<close>

text \<open>
  C9. In every interleaving of fires, contexts that end and reloads: of the runs in single mode one at
  most is in progress; of the runs in restart mode one at most is not cancelled, and it is the newest;
  the queue of the queued mode never holds more than its capacity, and its pump, of which there is one
  at most, takes the matches in exactly the order in which they were sent, each once.
\<close>

theorem mode_discipline:
  assumes "modeStep\<^sup>*\<^sup>* (newRunState auto) s"
  shows "(\<forall>g h f f' a b. fires s g = Some f \<longrightarrow> fires s h = Some f' \<longrightarrow> fg_pc f = InSingle a \<longrightarrow> fg_pc f' = InSingle b \<longrightarrow> g = h) \<and>
    (\<forall>g h f f' a b n n'. fires s g = Some f \<longrightarrow> fires s h = Some f' \<longrightarrow> fg_pc f = InRestart a n \<longrightarrow> fg_pc f' = InRestart b n' \<longrightarrow>
       g \<notin> runCancelled s \<longrightarrow> n = restartGen s \<and> (h \<notin> runCancelled s \<longrightarrow> h = g)) \<and>
    (\<forall>q c. chans s q = Some c \<longrightarrow> sentOn q (observed s) = takenOn q (observed s) @ ch_buf c \<and> length (ch_buf c) \<le> nat (ch_cap c)) \<and>
    (\<forall>g h. pumps s g \<noteq> None \<longrightarrow> pumps s h \<noteq> None \<longrightarrow> g = h)"
proof -
  from modes_invariant [OF assms] have inv: "singleInv s" "restartInv s" "chanInv s" "pumpInv s" by simp_all
  have "sentOn q (observed s) = takenOn q (observed s) @ ch_buf c \<and> length (ch_buf c) \<le> nat (ch_cap c)"
    if "chans s q = Some c" for q c
    using inv(3) that unfolding chanInv_def by (metis chanOK.simps(2))
  moreover have "g = h" if "fires s g = Some f" "fires s h = Some f'" "fg_pc f = InSingle a" "fg_pc f' = InSingle b" for g h f f' a b
    using inv(1) that unfolding singleInv_def by (metis isSingle_simps(2))
  moreover have "n = restartGen s \<and> (h \<notin> runCancelled s \<longrightarrow> h = g)"
    if "fires s g = Some f" "fires s h = Some f'" "fg_pc f = InRestart a n" "fg_pc f' = InRestart b n'" "g \<notin> runCancelled s"
    for g h f f' a b n n'
    using restartInvD(3) [OF inv(2) that(1,3,5)] restartInvD(3) [OF inv(2) that(2,4)] by auto
  moreover have "\<forall>g h. pumps s g \<noteq> None \<longrightarrow> pumps s h \<noteq> None \<longrightarrow> g = h" using inv(4) by (simp add: pumpInv_def)
  ultimately show ?thesis by blast
qed

text \<open>A state whose pump is gone.\<close>

definition pumpGone :: "runState \<Rightarrow> bool" where
  "pumpGone s \<longleftrightarrow> pumpOnce s \<and> (\<forall>g p. pumps s g = Some p \<longrightarrow> pg_pc p = PumpExit)"

lemma pumpGone_step:
  assumes "modeStep s s'" "pumpGone s"
  shows "pumpGone s' \<and> takenOn q (observed s') = takenOn q (observed s)"
  using assms
proof (induction rule: modeStep.induct)
  case (fireStep s g f s')
  from fireStep.hyps(2) fireStep.prems show ?case
    by (cases rule: fireStep.cases) (auto simp: pumpGone_def mode_defs split: option.splits)
next
  case (pumpStep s g p s')
  then have "pg_pc p = PumpExit" by (simp add: pumpGone_def)
  with pumpStep.hyps(2) show ?case by (cases rule: pumpStep.cases) auto
qed (auto simp: pumpGone_def mode_defs split: option.splits)

text \<open>
  The pump of the queued mode is started once per automation, with the context of the fire that
  started it. Once it has ended with that context, no queued match is ever taken again, whatever is
  fired or reloaded later: matches are accepted until the queue is full and never run.
\<close>

theorem queued_fires_stranded:
  assumes "modeStep\<^sup>*\<^sup>* (newRunState auto) s" "pumpGone s" "modeStep\<^sup>*\<^sup>* s s'" "chans s' q = Some c"
  shows "takenOn q (observed s') = takenOn q (observed s) \<and> sentOn q (observed s') = takenOn q (observed s) @ ch_buf c"
proof -
  have "modeStep\<^sup>*\<^sup>* (newRunState auto) s'" using assms(1,3) by (rule rtranclp_trans)
  then have "chanInv s'" using modes_invariant by blast
  then have "sentOn q (observed s') = takenOn q (observed s') @ ch_buf c"
    using assms(4) unfolding chanInv_def by (metis chanOK.simps(2))
  moreover have "pumpGone s' \<and> takenOn q (observed s') = takenOn q (observed s)"
    using assms(3,2) by (induction rule: rtranclp_induct) (use pumpGone_step in \<open>metis+\<close>)
  ultimately show ?thesis by simp
qed

section \<open>Two runs of the queued mode\<close>

text \<open>A fire in the queued mode up to the point before it sends, and on to the pump it starts.\<close>

definition atQueue :: "Automation \<Rightarrow> Match \<Rightarrow> runState" where
  "atQueue a m = (newRunState a)\<lparr>rs_queue := Some 0,
     chans := [0 \<mapsto> \<lparr>ch_cap = MaxQueued a, ch_buf = [], ch_closed = False\<rparr>],
     fires := [0 \<mapsto> \<lparr>fg_ctx = 1, fg_match = m, fg_pc = AtQueue a 0\<rparr>]\<rparr>"

text \<open>The match of \<open>Trigger\<close>.\<close>

definition manualMatch :: "string \<Rightarrow> Match" where
  "manualMatch i = \<lparr>m_AutomationID = i, m_TriggerKind = ''manual'', m_Event = None\<rparr>"

lemma runState_eqI: "(s :: runState) = s' \<Longrightarrow> modeStep r s' \<Longrightarrow> modeStep r s"
  by simp

lemma reach_atQueue:
  assumes "Enabled a" "au_Mode a = ModeQueued"
  shows "modeStep\<^sup>*\<^sup>* (newRunState a) (atQueue a m)"
proof -
  let ?f = "\<lparr>fg_ctx = 1, fg_match = m, fg_pc = Lookup\<rparr>" and ?f' = "\<lparr>fg_ctx = 1, fg_match = m, fg_pc = Admitted a\<rparr>"
  let ?s1 = "(newRunState a)\<lparr>fires := [0 \<mapsto> ?f]\<rparr>" and ?s2 = "(newRunState a)\<lparr>fires := [0 \<mapsto> ?f']\<rparr>"
  have "modeStep (newRunState a) ?s1"
    by (rule runState_eqI [OF _ modeStep.fire [of _ 0 1 m]]) (simp_all add: newRunState_def)
  moreover have "modeStep ?s1 ?s2"
    by (rule runState_eqI [OF _ modeStep.fireStep [of _ 0 ?f, OF _ fireStep.admit]])
      (simp_all add: assms newRunState_def goto_def)
  moreover have "modeStep ?s2 (atQueue a m)"
    by (rule runState_eqI [OF _ modeStep.fireStep [of _ 0 ?f', OF _ fireStep.queue_ensure [where ch = 0]]])
      (auto simp: assms newRunState_def atQueue_def goto_def ensureQueue_def)
  ultimately show ?thesis by (meson converse_rtranclp_into_rtranclp rtranclp.rtrancl_refl)
qed

text \<open>
  A reload that removes an automation closes its queue while a fire may be about to send to it: the
  send on the closed channel panics, which ends the daemon. This is reachable for every enabled
  automation in queued mode.
\<close>

theorem removal_panics:
  assumes "Enabled auto" "au_Mode auto = ModeQueued"
  shows "\<exists>s g f. modeStep\<^sup>*\<^sup>* (newRunState auto) s \<and> fires s g = Some f \<and> fg_pc f = FirePanicked"
proof -
  let ?m = "manualMatch (au_ID auto)"
  let ?s = "removeRunState (atQueue auto ?m)" and ?f = "\<lparr>fg_ctx = 1, fg_match = ?m, fg_pc = AtQueue auto 0\<rparr>"
  have s: "?s = (newRunState auto)\<lparr>rs_queue := None, registered := False,
     chans := [0 \<mapsto> \<lparr>ch_cap = MaxQueued auto, ch_buf = [], ch_closed = True\<rparr>], fires := [0 \<mapsto> ?f]\<rparr>"
    by (simp add: atQueue_def newRunState_def removeRunState_def closeQueue_def cancelActive_def)
  have "modeStep (atQueue auto ?m) ?s" by (rule modeStep.reloadRemove) (simp add: atQueue_def newRunState_def)
  moreover have "modeStep ?s (goto 0 ?f FirePanicked ?s)"
    by (rule modeStep.fireStep [of _ 0 ?f, OF _ fireStep.queue_panic
          [where a = auto and q = 0 and c = "\<lparr>ch_cap = MaxQueued auto, ch_buf = [], ch_closed = True\<rparr>"]])
      (simp_all add: s)
  ultimately have "modeStep\<^sup>*\<^sup>* (newRunState auto) (goto 0 ?f FirePanicked ?s)"
    using reach_atQueue [OF assms, of ?m] by (meson rtranclp.rtrancl_into_rtrancl)
  then show ?thesis by (intro exI [of _ "goto 0 ?f FirePanicked ?s"] exI [of _ 0]) (simp add: goto_def)
qed

text \<open>
  The fire sends, its pump runs the match, and the request whose context the pump has ends: the state in
  which the pump is gone, and another fire that is sent to the queue afterwards.
\<close>

definition queuedState ::
  "Automation \<Rightarrow> (nat \<rightharpoonup> fireG) \<Rightarrow> pumpPc option \<Rightarrow> Match list \<Rightarrow> nat set \<Rightarrow> modeObs list \<Rightarrow> runState" where
  "queuedState a fs pc buf done obs = (newRunState a)\<lparr>rs_queue := Some 0,
     chans := [0 \<mapsto> \<lparr>ch_cap = MaxQueued a, ch_buf = buf, ch_closed = False\<rparr>], pumpOnce := pc \<noteq> None,
     fires := fs, pumps := (case pc of None \<Rightarrow> Map.empty | Some pc \<Rightarrow> [0 \<mapsto> \<lparr>pg_ctx = 1, pg_pc = pc\<rparr>]),
     ctxDone := done, observed := obs\<rparr>"

lemma queuedState_fire:
  assumes "fs g = Some f" "fireStep g f (queuedState a fs pc buf done obs) (queuedState a fs' pc' buf' done obs')"
  shows "modeStep (queuedState a fs pc buf done obs) (queuedState a fs' pc' buf' done obs')"
  using assms by (intro modeStep.fireStep [of _ g f]) (simp_all add: queuedState_def)

lemma atQueue_queuedState: "atQueue a m = queuedState a [0 \<mapsto> \<lparr>fg_ctx = 1, fg_match = m, fg_pc = AtQueue a 0\<rparr>] None [] {} []"
  by (simp add: atQueue_def queuedState_def newRunState_def)

lemma newRunState_sel [simp]: "registered (newRunState a)" "chans (newRunState a) = Map.empty" "rs_auto (newRunState a) = a"
  by (simp_all add: newRunState_def)

lemma queuedState_send:
  assumes "fs g = Some \<lparr>fg_ctx = ctx, fg_match = m, fg_pc = AtQueue a 0\<rparr>" "int (length buf) < MaxQueued a"
  shows "modeStep (queuedState a fs pc buf done obs)
     (queuedState a (fs(g \<mapsto> \<lparr>fg_ctx = ctx, fg_match = m, fg_pc = AtPump\<rparr>)) pc (buf @ [m]) done (obs @ [Sent 0 m]))"
proof (rule queuedState_fire [of fs g, OF assms(1)])
  let ?s = "queuedState a fs pc buf done obs" and ?c = "\<lparr>ch_cap = MaxQueued a, ch_buf = buf, ch_closed = False\<rparr>"
  let ?f = "\<lparr>fg_ctx = ctx, fg_match = m, fg_pc = AtQueue a 0\<rparr>"
  have "fireStep g ?f ?s (goto g ?f AtPump (observe (Sent 0 (fg_match ?f)) (setBuf 0 ?c (ch_buf ?c @ [fg_match ?f]) ?s)))"
    by (rule fireStep.queue_send [where a = a]) (simp_all add: assms(2), simp add: queuedState_def)
  then show "fireStep g ?f ?s
      (queuedState a (fs(g \<mapsto> \<lparr>fg_ctx = ctx, fg_match = m, fg_pc = AtPump\<rparr>)) pc (buf @ [m]) done (obs @ [Sent 0 m]))"
    by (simp add: queuedState_def newRunState_def goto_def observe_def setBuf_def)
qed

abbreviation ended :: "Match \<Rightarrow> fireG" where
  "ended m \<equiv> \<lparr>fg_ctx = 1, fg_match = m, fg_pc = FireEnded\<rparr>"

definition pumpGoneState :: "Automation \<Rightarrow> Match \<Rightarrow> runState" where
  "pumpGoneState a m = queuedState a [0 \<mapsto> ended m] (Some PumpExit) [] {1} [Sent 0 m, Started 0 m]"

lemma reach_pumpGone:
  assumes "Enabled a" "au_Mode a = ModeQueued" "MaxQueued a \<ge> 1"
  shows "modeStep\<^sup>*\<^sup>* (newRunState a) (pumpGoneState a m)"
proof -
  let ?pump = "\<lambda>pc buf done obs. queuedState a [0 \<mapsto> ended m] (Some pc) buf done obs"
  let ?atPump = "\<lparr>fg_ctx = 1, fg_match = m, fg_pc = AtPump\<rparr>"
  note defs = queuedState_def newRunState_def mode_defs
  have "modeStep (atQueue a m) (queuedState a [0 \<mapsto> ?atPump] None [m] {} [Sent 0 m])"
    using queuedState_send [of "[0 \<mapsto> \<lparr>fg_ctx = 1, fg_match = m, fg_pc = AtQueue a 0\<rparr>]" 0 1 m a "[]" None "{}" "[]"] assms(3)
    by (simp add: atQueue_queuedState)
  moreover have "modeStep (queuedState a [0 \<mapsto> ?atPump] None [m] {} [Sent 0 m]) (?pump PumpInit [m] {} [Sent 0 m])"
    by (rule runState_eqI [OF _ modeStep.fireStep [of _ 0 ?atPump, OF _ fireStep.queue_pump]]) (simp_all add: defs)
  moreover have "modeStep (?pump PumpInit [m] {} [Sent 0 m]) (?pump (PumpLoop (Some 0)) [m] {} [Sent 0 m])"
    by (rule runState_eqI [OF _ modeStep.pumpStep [of _ 0 "\<lparr>pg_ctx = 1, pg_pc = PumpInit\<rparr>", OF _ pumpStep.pump_init]])
      (simp_all add: defs)
  moreover have "modeStep (?pump (PumpLoop (Some 0)) [m] {} [Sent 0 m]) (?pump (PumpRun 0 m) [] {} [Sent 0 m, Started 0 m])"
    by (rule runState_eqI [OF _ modeStep.pumpStep [of _ 0 "\<lparr>pg_ctx = 1, pg_pc = PumpLoop (Some 0)\<rparr>", OF _ pumpStep.pump_recv
          [where q = 0 and c = "\<lparr>ch_cap = MaxQueued a, ch_buf = [m], ch_closed = False\<rparr>" and m = m and rest = "[]"]]])
      (simp_all add: defs)
  moreover have "modeStep (?pump (PumpRun 0 m) [] {} [Sent 0 m, Started 0 m]) (?pump (PumpLoop (Some 0)) [] {} [Sent 0 m, Started 0 m])"
    by (rule runState_eqI [OF _ modeStep.pumpStep [of _ 0 "\<lparr>pg_ctx = 1, pg_pc = PumpRun 0 m\<rparr>", OF _ pumpStep.pump_run]])
      (simp_all add: defs)
  moreover have "modeStep (?pump (PumpLoop (Some 0)) [] {} [Sent 0 m, Started 0 m]) (?pump (PumpLoop (Some 0)) [] {1} [Sent 0 m, Started 0 m])"
    by (rule runState_eqI [OF _ modeStep.ctxEnds [of _ 1]]) (simp add: defs)
  moreover have "modeStep (?pump (PumpLoop (Some 0)) [] {1} [Sent 0 m, Started 0 m]) (?pump (PumpDrain (Some 0)) [] {1} [Sent 0 m, Started 0 m])"
    by (rule runState_eqI [OF _ modeStep.pumpStep [of _ 0 "\<lparr>pg_ctx = 1, pg_pc = PumpLoop (Some 0)\<rparr>", OF _ pumpStep.pump_ctx]])
      (simp_all add: defs)
  moreover have "modeStep (?pump (PumpDrain (Some 0)) [] {1} [Sent 0 m, Started 0 m]) (pumpGoneState a m)"
    by (rule runState_eqI [OF _ modeStep.pumpStep [of _ 0 "\<lparr>pg_ctx = 1, pg_pc = PumpDrain (Some 0)\<rparr>", OF _ pumpStep.pump_drained]])
      (auto simp: defs pumpGoneState_def)
  ultimately show ?thesis
    using reach_atQueue [OF assms(1,2), of m] by (meson rtranclp.rtrancl_into_rtrancl)
qed

lemma reach_stranded:
  assumes "Enabled a" "au_Mode a = ModeQueued" "MaxQueued a \<ge> 1"
  shows "\<exists>fs. modeStep\<^sup>*\<^sup>* (pumpGoneState a m) (queuedState a fs (Some PumpExit) [m'] {1} [Sent 0 m, Started 0 m, Sent 0 m'])"
proof -
  let ?st = "\<lambda>pc. queuedState a [0 \<mapsto> ended m, 1 \<mapsto> \<lparr>fg_ctx = 0, fg_match = m', fg_pc = pc\<rparr>] (Some PumpExit) [] {1} [Sent 0 m, Started 0 m]"
  note defs = queuedState_def newRunState_def mode_defs
  have "modeStep (pumpGoneState a m) (?st Lookup)"
    by (rule runState_eqI [OF _ modeStep.fire [of _ 1 0 m']]) (simp_all add: defs pumpGoneState_def)
  moreover have "modeStep (?st Lookup) (?st (Admitted a))"
    by (rule runState_eqI [OF _ modeStep.fireStep [of _ 1 "\<lparr>fg_ctx = 0, fg_match = m', fg_pc = Lookup\<rparr>", OF _ fireStep.admit]])
      (simp_all add: defs assms)
  moreover have "modeStep (?st (Admitted a)) (?st (AtQueue a 0))"
    by (rule runState_eqI [OF _ modeStep.fireStep [of _ 1 "\<lparr>fg_ctx = 0, fg_match = m', fg_pc = Admitted a\<rparr>",
          OF _ fireStep.queue_ensure [where ch = 1 and a = a and q = 0 and s' = "?st (Admitted a)"]]])
      (simp_all add: defs assms)
  moreover have "\<exists>fs. modeStep (?st (AtQueue a 0)) (queuedState a fs (Some PumpExit) [m'] {1} [Sent 0 m, Started 0 m, Sent 0 m'])"
    using queuedState_send [of "[0 \<mapsto> ended m, 1 \<mapsto> \<lparr>fg_ctx = 0, fg_match = m', fg_pc = AtQueue a 0\<rparr>]" 1 0 m' a "[]"
        "Some PumpExit" "{1}" "[Sent 0 m, Started 0 m]"] assms(3) by auto
  ultimately show ?thesis by (meson rtranclp.rtrancl_into_rtrancl rtranclp.rtrancl_refl)
qed

definition queuedAuto :: Automation where
  "queuedAuto = eveningRun\<lparr>au_Mode := ModeQueued\<rparr>"

lemma queuedAuto_simps [simp]: "Enabled queuedAuto" "au_Mode queuedAuto = ModeQueued" "MaxQueued queuedAuto = 10"
  by (simp_all add: queuedAuto_def eveningRun_def)

theorem mode_discipline_witness:
  "\<exists>s. modeStep\<^sup>*\<^sup>* (newRunState queuedAuto) s \<and> sentOn 0 (observed s) = takenOn 0 (observed s) @ [] \<and> sentOn 0 (observed s) \<noteq> []"
proof -
  have r: "modeStep\<^sup>*\<^sup>* (newRunState queuedAuto) (pumpGoneState queuedAuto (manualMatch ''evening''))"
    by (rule reach_pumpGone) simp_all
  have "chans (pumpGoneState queuedAuto (manualMatch ''evening'')) 0 = Some \<lparr>ch_cap = 10, ch_buf = [], ch_closed = False\<rparr>"
    "sentOn 0 (observed (pumpGoneState queuedAuto (manualMatch ''evening''))) = [manualMatch ''evening'']"
    by (simp_all add: pumpGoneState_def queuedState_def sentOn_def map_filter_def)
  with mode_discipline [OF r] r show ?thesis by fastforce
qed

theorem queued_fires_stranded_witness:
  "\<exists>s s' c. modeStep\<^sup>*\<^sup>* (newRunState queuedAuto) s \<and> pumpGone s \<and> modeStep\<^sup>*\<^sup>* s s' \<and> chans s' 0 = Some c \<and>
     ch_buf c = [manualMatch ''evening''] \<and> takenOn 0 (observed s') = takenOn 0 (observed s)"
proof -
  let ?m = "manualMatch ''evening''"
  let ?s = "pumpGoneState queuedAuto ?m" and ?c = "\<lparr>ch_cap = 10, ch_buf = [?m], ch_closed = False\<rparr>"
  have r: "modeStep\<^sup>*\<^sup>* (newRunState queuedAuto) ?s" by (rule reach_pumpGone) simp_all
  obtain fs where r': "modeStep\<^sup>*\<^sup>* ?s (queuedState queuedAuto fs (Some PumpExit) [?m] {1} [Sent 0 ?m, Started 0 ?m, Sent 0 ?m])"
    using reach_stranded [of queuedAuto ?m ?m] by auto
  have g: "pumpGone ?s" by (auto simp: pumpGone_def pumpGoneState_def queuedState_def split: if_splits)
  have c: "chans (queuedState queuedAuto fs (Some PumpExit) [?m] {1} [Sent 0 ?m, Started 0 ?m, Sent 0 ?m]) 0 = Some ?c"
    by (simp add: queuedState_def)
  from r r' g c queued_fires_stranded [OF r g r' c] show ?thesis by (metis channel.select_convs(2))
qed

theorem removal_panics_witness:
  "Enabled queuedAuto \<and> au_Mode queuedAuto = ModeQueued \<and>
     (\<exists>s g f. modeStep\<^sup>*\<^sup>* (newRunState queuedAuto) s \<and> fires s g = Some f \<and> fg_pc f = FirePanicked)"
  using removal_panics [of queuedAuto] by simp

end
