(* ===== verification/Auth_Store.thy ===== *)
theory Auth_Store
  imports Storage_Model Go_Strings "HOL-Library.Char_ord" "HOL-Library.List_Lexorder"
begin

text \<open>
  The tables of authentication (\<^verbatim>\<open>internal/auth/migrations\<close>) and the stores over them: the failed-login
  throttle (\<^verbatim>\<open>throttle\<close>), users and roles (\<^verbatim>\<open>identity\<close>), passwords, API tokens, enrollment tokens and passkeys
  (\<^verbatim>\<open>credentials\<close>). Database calls fail by the schedule of \<open>Storage_Model\<close>. Hash functions and text encodings
  of the standard library are arguments of the model.
\<close>

section \<open>Tables\<close>

record user_row =
  us_display_name :: string
  us_active :: bool
  us_password_allowed :: bool
  us_passkey_allowed :: bool

record password_row =
  pw_hash :: string
  pw_set_at :: int
  pw_set_by :: string

record passkey_row =
  pk_user_slug :: string
  pk_public_key :: bytes
  pk_sign_count :: int
  pk_label :: string
  pk_registered_at :: int
  pk_last_used_at :: "int option"

record token_row =
  tk_user_slug :: string
  tk_hash :: string
  tk_scope :: bytes
  tk_label :: string
  tk_issued_at :: int
  tk_issued_by :: string
  tk_expires_at :: "int option"
  tk_revoked_at :: "int option"
  tk_last_used_at :: "int option"

record session_row =
  ss_user_slug :: string
  ss_auth_method :: string
  ss_refresh_hash :: string
  ss_issued_at :: int
  ss_ttl_at :: int
  ss_idle_at :: int
  ss_user_agent :: string
  ss_remote_ip :: string

record enrollment_row =
  et_user_slug :: string
  et_intent :: string
  et_expires_at :: int
  et_consumed_at :: "int option"

record attempt_row =
  aa_bucket :: string
  aa_attempted_at :: int
  aa_succeeded :: bool

record auth_db =
  auth_users :: "(string \<times> user_row) list"
  auth_user_roles :: "(string \<times> string) list"
  auth_passwords :: "(string \<times> password_row) list"
  auth_passkeys :: "(bytes \<times> passkey_row) list"
  auth_tokens :: "(string \<times> token_row) list"
  auth_sessions :: "(string \<times> session_row) list"
  auth_enrollment_tokens :: "(string \<times> enrollment_row) list"
  auth_attempts :: "attempt_row list"

section \<open>Errors\<close>

text \<open>The sentinel errors that callers test with \<open>errors.Is\<close>, and all others.\<close>

datatype auth_error =
    ErrThrottled
  | ErrUserNotFound
  | ErrTokenInvalid | ErrTokenRevoked | ErrTokenExpired
  | ErrEnrollmentInvalid | ErrEnrollmentExpired | ErrEnrollmentConsumed
  | ErrSessionInvalid | ErrSessionExpired | ErrSessionReplay
  | ErrSignCountRegression | ErrChallengeNotFound
  | PlainErr error

type_synonym ('s, 'a) astep = "'s \<Rightarrow> (auth_error + 'a) \<times> 's"

definition bindA :: "('s, 'a) astep \<Rightarrow> ('a \<Rightarrow> ('s, 'b) astep) \<Rightarrow> ('s, 'b) astep" where
  "bindA m f s = (case m s of (Inl e, s') \<Rightarrow> (Inl e, s') | (Inr x, s') \<Rightarrow> f x s')"

definition retA :: "'a \<Rightarrow> ('s, 'a) astep" where
  "retA x s = (Inr x, s)"

definition throwA :: "auth_error \<Rightarrow> ('s, 'a) astep" where
  "throwA e s = (Inl e, s)"

text \<open>A database call whose error is returned as it is.\<close>

definition sql :: "('s, 'a) step \<Rightarrow> ('s, 'a) astep" where
  "sql m s = (case m s of (Inl e, s') \<Rightarrow> (Inl (PlainErr e), s') | (Inr x, s') \<Rightarrow> (Inr x, s'))"

text \<open>\<open>BeginTx\<close>, a body, \<open>Commit\<close>; the deferred \<open>Rollback\<close> undoes the body when it or the commit fails.\<close>

definition txA :: "(('d, 'm, 'z) store_scheme, 'a) astep \<Rightarrow> (('d, 'm, 'z) store_scheme, 'a) astep" where
  "txA body = bindA (sql (dbExec id)) (\<lambda>_ s1.
     case bindA body (\<lambda>x. bindA (sql (dbExec id)) (\<lambda>_. retA x)) s1 of
       (Inl e, s2) \<Rightarrow> (Inl e, s2\<lparr>db := db s1\<rparr>)
     | r \<Rightarrow> r)"

lemmas astep_defs = bindA_def retA_def throwA_def sql_def

text \<open>A store whose database never fails again.\<close>

definition calm :: "('d, 'm, 'z) store_scheme \<Rightarrow> bool" where
  "calm s \<longleftrightarrow> faults s = []"

lemma calm_dbStmt [simp]:
  "faults s = [] \<Longrightarrow> dbExec f s = (Inr (), s\<lparr>db := f (db s)\<rparr>)"
  "faults s = [] \<Longrightarrow> dbQuery g s = (Inr (g (db s)), s)"
  by (simp_all add: dbExec_def dbQuery_def dbStmt_def)

section \<open>The throttle\<close>

definition unix :: "gotime \<Rightarrow> int" where
  "unix t = t div 1000000000"

record ThrottleConfig =
  Window :: duration
  Threshold :: nat
  Block :: duration

definition bucketOf :: "string \<Rightarrow> string \<Rightarrow> string" where
  "bucketOf ip method = ip @ [CHR 0x00] @ method"

definition recentFailures :: "ThrottleConfig \<Rightarrow> gotime \<Rightarrow> string \<Rightarrow> attempt_row list \<Rightarrow> attempt_row list" where
  "recentFailures c now bucket rows =
     filter (\<lambda>r. aa_bucket r = bucket \<and> \<not> aa_succeeded r \<and> aa_attempted_at r \<ge> unix (now - Window c)) rows"

text \<open>\<open>COUNT(*)\<close> is scanned into a uint32; a count beyond it is an error of \<open>Scan\<close>.\<close>

definition Check :: "ThrottleConfig \<Rightarrow> gotime \<Rightarrow> string \<Rightarrow> string \<Rightarrow> ((auth_db, 'm, 'z) store_scheme, unit) astep" where
  "Check c now ip method =
     bindA (sql (dbQuery (\<lambda>d. recentFailures c now (bucketOf ip method) (auth_attempts d)))) (\<lambda>rows.
       let failures = length rows; lastFail = fold max (map aa_attempted_at rows) 0 in
       if failures \<ge> 2 ^ 32 then throwA (PlainErr ''converting driver.Value type to uint32: value out of range'')
       else if failures \<ge> Threshold c \<and> (Block c = 0 \<or> now < time_Unix lastFail 0 + Block c) then throwA ErrThrottled
       else retA ())"

definition Record :: "gotime \<Rightarrow> string \<Rightarrow> string \<Rightarrow> bool \<Rightarrow> ((auth_db, 'm, 'z) store_scheme, unit) astep" where
  "Record now ip method succeeded =
     sql (dbExec (\<lambda>d. d\<lparr>auth_attempts := auth_attempts d @
       [\<lparr>aa_bucket = bucketOf ip method, aa_attempted_at = unix now, aa_succeeded = succeeded\<rparr>]\<rparr>))"

definition Throttle_Sweep :: "ThrottleConfig \<Rightarrow> gotime \<Rightarrow> ((auth_db, 'm, 'z) store_scheme, unit) astep" where
  "Throttle_Sweep c now =
     sql (dbExec (\<lambda>d. d\<lparr>auth_attempts := filter (\<lambda>r. \<not> aa_attempted_at r < unix (now - Window c)) (auth_attempts d)\<rparr>))"

section \<open>Users and roles\<close>

record User =
  Slug :: string
  DisplayName :: string
  Active :: bool
  PasswordAllowed :: bool
  PasskeyAllowed :: bool
  Roles :: "string list"

text \<open>The two inserts fail on a duplicate key.\<close>

definition insertUser :: "User \<Rightarrow> auth_db \<Rightarrow> error + auth_db" where
  "insertUser u d =
     (if map_of (auth_users d) (Slug u) \<noteq> None then Inl ''UNIQUE constraint failed: auth_users.slug''
      else Inr (d\<lparr>auth_users := auth_users d @ [(Slug u, \<lparr>us_display_name = DisplayName u, us_active = Active u,
        us_password_allowed = PasswordAllowed u, us_passkey_allowed = PasskeyAllowed u\<rparr>)]\<rparr>))"

definition insertRole :: "string \<Rightarrow> string \<Rightarrow> auth_db \<Rightarrow> error + auth_db" where
  "insertRole slug role d =
     (if (slug, role) \<in> set (auth_user_roles d) then Inl ''UNIQUE constraint failed: auth_user_roles''
      else Inr (d\<lparr>auth_user_roles := auth_user_roles d @ [(slug, role)]\<rparr>))"

definition insertUserRoles :: "User \<Rightarrow> ((auth_db, 'm, 'z) store_scheme, unit) step" where
  "insertUserRoles u =
     bindS (wrapS (''insert user '' @ Slug u) (dbTry (insertUser u))) (\<lambda>_.
       forS (Roles u) (\<lambda>role. wrapS (''insert role '' @ role @ '' for user '' @ Slug u) (dbTry (insertRole (Slug u) role))))"

definition txS :: "(('d, 'm, 'z) store_scheme, 'a) step \<Rightarrow> (('d, 'm, 'z) store_scheme, 'a) step" where
  "txS body = bindS (wrapS ''begin tx'' (dbExec id)) (\<lambda>_ s1.
     case bindS body (\<lambda>x. bindS (wrapS ''commit'' (dbExec id)) (\<lambda>_. returnS x)) s1 of
       (Inl e, s2) \<Rightarrow> (Inl e, s2\<lparr>db := db s1\<rparr>)
     | r \<Rightarrow> r)"

definition ApplySnapshot :: "User list \<Rightarrow> ((auth_db, 'm, 'z) store_scheme, unit) step" where
  "ApplySnapshot users = txS
     (bindS (wrapS ''clear auth_user_roles'' (dbExec (\<lambda>d. d\<lparr>auth_user_roles := []\<rparr>))) (\<lambda>_.
      bindS (wrapS ''clear auth_users'' (dbExec (\<lambda>d. d\<lparr>auth_users := []\<rparr>))) (\<lambda>_.
      forS users insertUserRoles)))"

definition rolesOf :: "string \<Rightarrow> auth_db \<Rightarrow> string list" where
  "rolesOf slug d = sort (map snd (filter (\<lambda>(u, _). u = slug) (auth_user_roles d)))"

definition userFrom :: "string \<Rightarrow> user_row \<Rightarrow> string list \<Rightarrow> User" where
  "userFrom slug u roles = \<lparr>Slug = slug, DisplayName = us_display_name u, Active = us_active u,
     PasswordAllowed = us_password_allowed u, PasskeyAllowed = us_passkey_allowed u, Roles = roles\<rparr>"

definition Identity_Get :: "string \<Rightarrow> ((auth_db, 'm, 'z) store_scheme, User) astep" where
  "Identity_Get slug =
     bindA (sql (wrapS ''scan user'' (dbQuery (\<lambda>d. map_of (auth_users d) slug)))) (\<lambda>row.
     case row of
       None \<Rightarrow> throwA ErrUserNotFound
     | Some u \<Rightarrow> bindA (sql (wrapS ''query roles'' (dbQuery (rolesOf slug)))) (\<lambda>roles. retA (userFrom slug u roles)))"

definition RolesFor :: "string \<Rightarrow> ((auth_db, 'm, 'z) store_scheme, string list) astep" where
  "RolesFor slug = sql (wrapS ''query roles'' (dbQuery (rolesOf slug)))"

text \<open>\<open>ListUsers\<close>: the users in order of their slugs, each with a query for its roles.\<close>

fun listRoles :: "(string \<times> user_row) list \<Rightarrow> ((auth_db, 'm, 'z) store_scheme, User list) step" where
  "listRoles [] = returnS []"
| "listRoles ((slug, u) # us) =
     bindS (wrapS (''query roles for user '' @ slug) (dbQuery (rolesOf slug))) (\<lambda>roles.
     bindS (listRoles us) (\<lambda>rest. returnS (userFrom slug u roles # rest)))"

definition Identity_ListUsers :: "((auth_db, 'm, 'z) store_scheme, User list) step" where
  "Identity_ListUsers = bindS (wrapS ''query users'' (dbQuery (\<lambda>d. sort_key fst (auth_users d)))) listRoles"

section \<open>The library functions\<close>

record Argon2idParams =
  ap_Time :: nat
  ap_MemoryKiB :: nat
  ap_Parallelism :: nat

text \<open>
  \<open>base32\<close> without padding, \<open>base64\<close> without padding (the standard and the URL alphabet), the hexadecimal
  SHA-256 of a text, the URL base64 of an HMAC-SHA-256, and argon2id.
\<close>

record lib =
  b32enc :: "bytes \<Rightarrow> string"
  b32dec :: "string \<Rightarrow> bytes option"
  b64enc :: "bytes \<Rightarrow> string"
  b64dec :: "string \<Rightarrow> bytes option"
  b64stdenc :: "bytes \<Rightarrow> string"
  b64stddec :: "string \<Rightarrow> bytes option"
  sha256 :: "bytes \<Rightarrow> string"
  hmac :: "bytes \<Rightarrow> bytes \<Rightarrow> string"
  argon2 :: "bytes \<Rightarrow> bytes \<Rightarrow> Argon2idParams \<Rightarrow> nat \<Rightarrow> bytes"

text \<open>
  What is documented of them: decoding inverts encoding, the alphabets lack the separators that the
  code uses, and argon2id returns as many bytes as it is asked for. Nothing is assumed of the hash
  functions beyond this.
\<close>

definition lib_ok :: "lib \<Rightarrow> bool" where
  "lib_ok l \<longleftrightarrow> (\<forall>b. b32dec l (b32enc l b) = Some b) \<and> (\<forall>b. b64dec l (b64enc l b) = Some b) \<and>
     (\<forall>b. b64stddec l (b64stdenc l b) = Some b) \<and>
     (\<forall>b. CHR ''_'' \<notin> set (b32enc l b)) \<and> (\<forall>b. CHR ''.'' \<notin> set (b64enc l b)) \<and>
     (\<forall>b. CHR ''$'' \<notin> set (b64stdenc l b)) \<and> (\<forall>pw salt p n. length (argon2 l pw salt p n) = n)"

section \<open>Passwords\<close>

definition argonVersion :: int where
  "argonVersion = 19"

definition Password_encode :: "lib \<Rightarrow> Argon2idParams \<Rightarrow> bytes \<Rightarrow> string \<Rightarrow> string" where
  "Password_encode l p salt plaintext =
     ''$argon2id$v='' @ showInt argonVersion @ ''$m='' @ showNat (ap_MemoryKiB p) @ '',t='' @ showNat (ap_Time p) @
     '',p='' @ showNat (ap_Parallelism p) @ ''$'' @ b64stdenc l salt @ ''$'' @ b64stdenc l (argon2 l plaintext salt p 32)"

text \<open>One \<open>key=value\<close> of the parameters; the conversions to uint32 and uint8 wrap around.\<close>

definition decodeParam :: "string \<Rightarrow> Argon2idParams \<Rightarrow> error + Argon2idParams" where
  "decodeParam kv p =
     (case cutAt (CHR ''='') kv of
        None \<Rightarrow> Inl ''credentials: malformed params''
      | Some (k, v) \<Rightarrow>
         (case parseInt64 v of
            None \<Rightarrow> Inl (''strconv.Atoi: parsing '' @ quoted v)
          | Some n \<Rightarrow>
              if k = ''m'' then Inr (p\<lparr>ap_MemoryKiB := nat (n mod 2 ^ 32)\<rparr>)
              else if k = ''t'' then Inr (p\<lparr>ap_Time := nat (n mod 2 ^ 32)\<rparr>)
              else if k = ''p'' then Inr (p\<lparr>ap_Parallelism := nat (n mod 2 ^ 8)\<rparr>)
              else Inl (''credentials: unknown param '' @ quoted k)))"

fun decodeParams :: "string list \<Rightarrow> Argon2idParams \<Rightarrow> error + Argon2idParams" where
  "decodeParams [] p = Inr p"
| "decodeParams (kv # kvs) p = (case decodeParam kv p of Inl e \<Rightarrow> Inl e | Inr p' \<Rightarrow> decodeParams kvs p')"

definition Password_decode :: "lib \<Rightarrow> string \<Rightarrow> error + Argon2idParams \<times> bytes \<times> bytes" where
  "Password_decode l encoded =
     (case splitAll (CHR ''$'') encoded of
        [_, alg, ver, params, salt64, hash64] \<Rightarrow>
          if alg \<noteq> ''argon2id'' then Inl ''credentials: invalid hash format''
          else if \<not> hasPrefix ver ''v='' \<or> map_option fst (scanInt (trimPrefix ver ''v='')) \<noteq> Some argonVersion
            then Inl ''credentials: unsupported argon2 version''
          else (case decodeParams (splitAll (CHR '','') params) \<lparr>ap_Time = 0, ap_MemoryKiB = 0, ap_Parallelism = 0\<rparr> of
              Inl e \<Rightarrow> Inl e
            | Inr p \<Rightarrow> (case b64stddec l salt64 of
                None \<Rightarrow> Inl ''illegal base64 data''
              | Some salt \<Rightarrow> (case b64stddec l hash64 of
                  None \<Rightarrow> Inl ''illegal base64 data''
                | Some hash \<Rightarrow> Inr (p, salt, hash))))
      | _ \<Rightarrow> Inl ''credentials: invalid hash format'')"

text \<open>The random salt is an argument.\<close>

definition Password_Set ::
  "lib \<Rightarrow> Argon2idParams \<Rightarrow> gotime \<Rightarrow> bytes \<Rightarrow> string \<Rightarrow> string \<Rightarrow> string \<Rightarrow> ((auth_db, 'm, 'z) store_scheme, unit) astep" where
  "Password_Set l p now salt slug plaintext setBy =
     sql (dbExec (\<lambda>d. d\<lparr>auth_passwords := AList.update slug
       \<lparr>pw_hash = Password_encode l p salt plaintext, pw_set_at = unix now, pw_set_by = setBy\<rparr> (auth_passwords d)\<rparr>))"

definition BootstrapHash ::
  "lib \<Rightarrow> gotime \<Rightarrow> string \<Rightarrow> string \<Rightarrow> string \<Rightarrow> ((auth_db, 'm, 'z) store_scheme, unit) astep" where
  "BootstrapHash l now slug encoded setBy =
     (case Password_decode l encoded of
        Inl e \<Rightarrow> throwA (PlainErr e)
      | Inr _ \<Rightarrow> sql (dbExec (\<lambda>d. if map_of (auth_passwords d) slug \<noteq> None then d
          else d\<lparr>auth_passwords := AList.update slug \<lparr>pw_hash = encoded, pw_set_at = unix now, pw_set_by = setBy\<rparr> (auth_passwords d)\<rparr>)))"

definition Password_Delete :: "string \<Rightarrow> ((auth_db, 'm, 'z) store_scheme, unit) astep" where
  "Password_Delete slug = sql (dbExec (\<lambda>d. d\<lparr>auth_passwords := AList.delete slug (auth_passwords d)\<rparr>))"

text \<open>Whether the password is right, and whether its hash should be renewed.\<close>

definition Password_Verify ::
  "lib \<Rightarrow> Argon2idParams \<Rightarrow> string \<Rightarrow> string \<Rightarrow> ((auth_db, 'm, 'z) store_scheme, bool \<times> bool) astep" where
  "Password_Verify l params slug plaintext =
     bindA (sql (dbQuery (\<lambda>d. map_option pw_hash (map_of (auth_passwords d) slug)))) (\<lambda>row.
     case row of
       None \<Rightarrow> retA (False, False)
     | Some encoded \<Rightarrow>
        (case Password_decode l encoded of
           Inl e \<Rightarrow> throwA (PlainErr e)
         | Inr (p, salt, hash) \<Rightarrow>
             if argon2 l plaintext salt p (length hash) \<noteq> hash then retA (False, False) else retA (True, p \<noteq> params)))"

definition params_ok :: "Argon2idParams \<Rightarrow> bool" where
  "params_ok p \<longleftrightarrow> ap_Time p < 2 ^ 32 \<and> ap_MemoryKiB p < 2 ^ 32 \<and> ap_Parallelism p < 2 ^ 8"

lemma showNat_free: "\<not> isDigit c \<Longrightarrow> c \<notin> set (showNat n)"
  using showNat_digits by blast

lemma decodeParam_show:
  assumes "n < 2 ^ 32" "cutAt (CHR ''='') kv = Some (k, showNat n)"
  shows "decodeParam kv p = (if k = ''m'' then Inr (p\<lparr>ap_MemoryKiB := n\<rparr>) else if k = ''t'' then Inr (p\<lparr>ap_Time := n\<rparr>)
    else if k = ''p'' then Inr (p\<lparr>ap_Parallelism := n mod 2 ^ 8\<rparr>) else Inl (''credentials: unknown param '' @ quoted k))"
proof -
  have "parseInt64 (showInt (int n)) = Some (int n)" using assms(1) by (simp add: in_int64_def)
  then have "parseInt64 (showNat n) = Some (int n)" by (simp add: showInt_def)
  moreover have "nat (int n mod 2 ^ 32) = n" "nat (int n mod 2 ^ 8) = n mod 2 ^ 8"
    using assms(1) by (simp_all add: nat_mod_distrib)
  ultimately show ?thesis using assms(2) by (simp add: decodeParam_def)
qed

lemma Password_decode_encode:
  assumes "lib_ok l" "params_ok p"
  shows "Password_decode l (Password_encode l p salt pw) = Inr (p, salt, argon2 l pw salt p 32)"
proof -
  have v: "showInt argonVersion = ''19''" by (simp add: argonVersion_def showInt_def showNat.simps char_of_eq_iff)
  have "scanInt ''19'' = Some (19, [])"
    using scanInt_showNat [of 19] v by (simp add: in_int64_def showInt_def argonVersion_def)
  then have ver: "hasPrefix ''v=19'' ''v=''" "map_option fst (scanInt (trimPrefix ''v=19'' ''v='')) = Some argonVersion"
    by (simp_all add: hasPrefix_def trimPrefix_def argonVersion_def)
  have free: "CHR ''$'' \<notin> set (showNat n)" "CHR '','' \<notin> set (showNat n)" for n by (simp_all add: showNat_free isDigit_def)
  have m: "cutAt (CHR ''='') (''m='' @ showNat n) = Some (''m'', showNat n)" "cutAt (CHR ''='') (''t='' @ showNat n) = Some (''t'', showNat n)"
    "cutAt (CHR ''='') (''p='' @ showNat n) = Some (''p'', showNat n)" for n
    using cutAt_append [of "CHR ''=''" "''m''"] cutAt_append [of "CHR ''=''" "''t''"] cutAt_append [of "CHR ''=''" "''p''"] by simp_all
  have split: "splitAll (CHR '','') (''m='' @ showNat a @ '',t='' @ showNat b @ '',p='' @ showNat c) =
      [''m='' @ showNat a, ''t='' @ showNat b, ''p='' @ showNat c]" for a b c
    using free splitAll_append [of "CHR '',''" "''m='' @ showNat a" "''t='' @ showNat b @ '',p='' @ showNat c"]
      splitAll_append [of "CHR '',''" "''t='' @ showNat b" "''p='' @ showNat c"] by simp
  note dp = m [unfolded append_Cons append_Nil, THEN decodeParam_show [rotated]]
  have "decodeParams (splitAll (CHR '','') (''m='' @ showNat (ap_MemoryKiB p) @ '',t='' @ showNat (ap_Time p) @ '',p='' @ showNat (ap_Parallelism p)))
      \<lparr>ap_Time = 0, ap_MemoryKiB = 0, ap_Parallelism = 0\<rparr> = Inr p"
    unfolding split using assms(2) by (simp add: params_ok_def dp)
  moreover have "splitAll (CHR ''$'') (Password_encode l p salt pw) = [[], ''argon2id'', ''v=19'',
      ''m='' @ showNat (ap_MemoryKiB p) @ '',t='' @ showNat (ap_Time p) @ '',p='' @ showNat (ap_Parallelism p),
      b64stdenc l salt, b64stdenc l (argon2 l pw salt p 32)]"
  proof -
    let ?ps = "''m='' @ showNat (ap_MemoryKiB p) @ '',t='' @ showNat (ap_Time p) @ '',p='' @ showNat (ap_Parallelism p)"
    have 64: "CHR ''$'' \<notin> set (b64stdenc l b)" for b using assms(1) by (simp add: lib_ok_def)
    have fr: "CHR ''$'' \<notin> set []" "CHR ''$'' \<notin> set ''argon2id''" "CHR ''$'' \<notin> set ''v=19''" "CHR ''$'' \<notin> set ?ps"
      using free by simp_all
    have "Password_encode l p salt pw = [] @ CHR ''$'' # (''argon2id'' @ CHR ''$'' # (''v=19'' @ CHR ''$'' # (?ps @ CHR ''$'' #
        (b64stdenc l salt @ CHR ''$'' # b64stdenc l (argon2 l pw salt p 32)))))"
      by (simp add: Password_encode_def v)
    then show ?thesis
      by (simp only: splitAll_append [OF fr(1)] splitAll_append [OF fr(2)] splitAll_append [OF fr(3)] splitAll_append [OF fr(4)]
          splitAll_append [OF 64] splitAll_free [OF 64])
  qed
  ultimately show ?thesis using ver assms(1) by (simp add: Password_decode_def lib_ok_def)
qed

section \<open>API tokens\<close>

record IssueTokenInput =
  it_UserSlug :: string
  it_Label :: string
  it_IssuedBy :: string
  it_Scope :: bytes
  it_TTL :: duration

record TokenLookup =
  lk_TokenID :: string
  lk_UserSlug :: string
  lk_Label :: string
  lk_Scope :: bytes
  lk_IssuedBy :: string

definition tokenPlaintext :: "lib \<Rightarrow> string \<Rightarrow> bytes \<Rightarrow> string" where
  "tokenPlaintext l tokenID secret = ''switchyard_'' @ tokenID @ ''_'' @ b32enc l secret"

text \<open>A statement that fails when the primary key is taken.\<close>

definition insertNew :: "string \<Rightarrow> 'k \<Rightarrow> 'v \<Rightarrow> ('k \<times> 'v) list \<Rightarrow> error + ('k \<times> 'v) list" where
  "insertNew table k v rows =
     (if map_of rows k \<noteq> None then Inl (''UNIQUE constraint failed: '' @ table) else Inr (rows @ [(k, v)]))"

text \<open>The fresh id (\<open>ulid.Make\<close>) and the random secret are arguments.\<close>

definition Tokens_Issue ::
  "lib \<Rightarrow> gotime \<Rightarrow> string \<Rightarrow> bytes \<Rightarrow> IssueTokenInput \<Rightarrow> ((auth_db, 'm, 'z) store_scheme, string \<times> string) astep" where
  "Tokens_Issue l now tokenID secret i =
     (let expiresAt = (if it_TTL i \<noteq> 0 then Some (unix (now + it_TTL i)) else None) in
      bindA (sql (dbTry (\<lambda>d. map_sum id (\<lambda>ts. d\<lparr>auth_tokens := ts\<rparr>) (insertNew ''auth_tokens.token_id'' tokenID
        \<lparr>tk_user_slug = it_UserSlug i, tk_hash = sha256 l secret, tk_scope = it_Scope i, tk_label = it_Label i,
         tk_issued_at = unix now, tk_issued_by = it_IssuedBy i, tk_expires_at = expiresAt, tk_revoked_at = None,
         tk_last_used_at = None\<rparr> (auth_tokens d))))) (\<lambda>_.
      retA (tokenPlaintext l tokenID secret, tokenID)))"

text \<open>
  The presented secret is hashed and compared with the stored hash; the stored text is the hexadecimal
  of a hash, so decoding it before the comparison changes nothing.
\<close>

definition Tokens_Verify :: "lib \<Rightarrow> gotime \<Rightarrow> string \<Rightarrow> ((auth_db, 'm, 'z) store_scheme, TokenLookup) astep" where
  "Tokens_Verify l now plaintext =
     (case splitN (CHR ''_'') 3 plaintext of
        [brand, tokenID, encodedSecret] \<Rightarrow>
          if brand \<noteq> ''switchyard'' then throwA ErrTokenInvalid
          else (case b32dec l encodedSecret of
              None \<Rightarrow> throwA ErrTokenInvalid
            | Some secret \<Rightarrow>
                bindA (sql (dbQuery (\<lambda>d. map_of (auth_tokens d) tokenID))) (\<lambda>row.
                case row of
                  None \<Rightarrow> throwA ErrTokenInvalid
                | Some t \<Rightarrow>
                    if tk_revoked_at t \<noteq> None then throwA ErrTokenRevoked
                    else if (case tk_expires_at t of None \<Rightarrow> False | Some x \<Rightarrow> x < unix now) then throwA ErrTokenExpired
                    else if sha256 l secret \<noteq> tk_hash t then throwA ErrTokenInvalid
                    else retA \<lparr>lk_TokenID = tokenID, lk_UserSlug = tk_user_slug t, lk_Label = tk_label t,
                      lk_Scope = tk_scope t, lk_IssuedBy = tk_issued_by t\<rparr>))
      | _ \<Rightarrow> throwA ErrTokenInvalid)"

definition Tokens_Revoke :: "gotime \<Rightarrow> string \<Rightarrow> ((auth_db, 'm, 'z) store_scheme, unit) astep" where
  "Tokens_Revoke now tokenID = sql (dbExec (\<lambda>d. d\<lparr>auth_tokens := AList.map_entry tokenID
     (\<lambda>t. if tk_revoked_at t = None then t\<lparr>tk_revoked_at := Some (unix now)\<rparr> else t) (auth_tokens d)\<rparr>))"

definition TouchLastUsed :: "gotime \<Rightarrow> string \<Rightarrow> ((auth_db, 'm, 'z) store_scheme, unit) astep" where
  "TouchLastUsed now tokenID = sql (dbExec (\<lambda>d. d\<lparr>auth_tokens := AList.map_entry tokenID
     (\<lambda>t. t\<lparr>tk_last_used_at := Some (unix now)\<rparr>) (auth_tokens d)\<rparr>))"

text \<open>\<open>ORDER BY issued_at DESC\<close>; the order of tokens issued in the same second is SQLite's.\<close>

definition Tokens_List :: "string \<Rightarrow> ((auth_db, 'm, 'z) store_scheme, (string \<times> token_row) list) astep" where
  "Tokens_List userSlug = sql (dbQuery (\<lambda>d. sort_key (\<lambda>(_, t). - tk_issued_at t)
     (filter (\<lambda>(_, t). userSlug = '''' \<or> tk_user_slug t = userSlug) (auth_tokens d))))"

section \<open>Enrollment tokens\<close>

definition IntentRegisterPasskey :: string where
  "IntentRegisterPasskey = ''register_passkey''"

definition IntentSetPassword :: string where
  "IntentSetPassword = ''set_password''"

definition Mint ::
  "lib \<Rightarrow> gotime \<Rightarrow> bytes \<Rightarrow> string \<Rightarrow> string \<Rightarrow> duration \<Rightarrow> ((auth_db, 'm, 'z) store_scheme, string) astep" where
  "Mint l now secret userSlug intent ttl =
     (if intent \<noteq> IntentRegisterPasskey \<and> intent \<noteq> IntentSetPassword then throwA (PlainErr ''credentials: invalid intent'')
      else bindA (sql (dbTry (\<lambda>d. map_sum id (\<lambda>es. d\<lparr>auth_enrollment_tokens := es\<rparr>)
          (insertNew ''auth_enrollment_tokens.token_hash'' (sha256 l secret)
            \<lparr>et_user_slug = userSlug, et_intent = intent, et_expires_at = unix (now + ttl), et_consumed_at = None\<rparr>
            (auth_enrollment_tokens d))))) (\<lambda>_. retA (b32enc l secret)))"

definition redeemTx :: "gotime \<Rightarrow> string \<Rightarrow> ((auth_db, 'm, 'z) store_scheme, string \<times> string) astep" where
  "redeemTx now hash =
     bindA (sql (dbQuery (\<lambda>d. map_of (auth_enrollment_tokens d) hash))) (\<lambda>row.
     case row of
       None \<Rightarrow> throwA ErrEnrollmentInvalid
     | Some t \<Rightarrow>
         if et_consumed_at t \<noteq> None then throwA ErrEnrollmentConsumed
         else if et_expires_at t < unix now then throwA ErrEnrollmentExpired
         else bindA (sql (dbExec (\<lambda>d. d\<lparr>auth_enrollment_tokens := AList.map_entry hash
             (\<lambda>t. t\<lparr>et_consumed_at := Some (unix now)\<rparr>) (auth_enrollment_tokens d)\<rparr>))) (\<lambda>_.
           retA (et_user_slug t, et_intent t)))"

definition Redeem :: "lib \<Rightarrow> gotime \<Rightarrow> string \<Rightarrow> ((auth_db, 'm, 'z) store_scheme, string \<times> string) astep" where
  "Redeem l now plaintext =
     (case b32dec l plaintext of
        None \<Rightarrow> throwA ErrEnrollmentInvalid
      | Some secret \<Rightarrow> txA (redeemTx now (sha256 l secret)))"

definition Enrollment_Sweep :: "gotime \<Rightarrow> ((auth_db, 'm, 'z) store_scheme, unit) astep" where
  "Enrollment_Sweep cutoff = sql (dbExec (\<lambda>d. d\<lparr>auth_enrollment_tokens := filter (\<lambda>(_, t).
     \<not> (et_expires_at t < unix cutoff \<or> (case et_consumed_at t of None \<Rightarrow> False | Some c \<Rightarrow> c < unix cutoff)))
     (auth_enrollment_tokens d)\<rparr>))"

section \<open>What a database call can do\<close>

lemma sql_dbExec_out:
  "sql (dbExec f) s = (r, s') \<Longrightarrow> (\<exists>e. r = Inl (PlainErr e) \<and> db s' = db s) \<or> (r = Inr () \<and> db s' = f (db s))"
  by (cases "dbExec f s" rule: prod.exhaust) (auto simp: sql_def split: sum.splits dest!: dbExec_InrD dbExec_InlD)

lemma sql_dbQuery_out:
  "sql (dbQuery f) s = (r, s') \<Longrightarrow> db s' = db s \<and> ((\<exists>e. r = Inl (PlainErr e)) \<or> r = Inr (f (db s)))"
  by (cases "dbQuery f s" rule: prod.exhaust) (auto simp: sql_def split: sum.splits dest!: dbQuery_Inr_both dbQuery_InlD)

lemma sql_dbTry_out:
  assumes "sql (dbTry f) s = (r, s')"
  shows "(\<exists>e. r = Inl (PlainErr e) \<and> db s' = db s) \<or> (\<exists>d. f (db s) = Inr d \<and> r = Inr () \<and> db s' = d)"
proof -
  obtain q t where q: "dbTry f s = (q, t)" by fastforce
  from dbTry_cases [OF q] assms q show ?thesis by (cases q) (auto simp: sql_def)
qed

text \<open>A transaction that fails leaves the database as it was.\<close>

lemma txA_out:
  assumes "txA body s = (r, s')"
  shows "(\<exists>e. r = Inl e \<and> db s' = db s \<and> ((\<exists>m. e = PlainErr m) \<or> (\<exists>s1 s2. db s1 = db s \<and> body s1 = (Inl e, s2)))) \<or> (\<exists>x s1 s2. db s1 = db s \<and> body s1 = (Inr x, s2) \<and> r = Inr x \<and> db s' = db s2)"
proof -
  obtain b s1 where b: "sql (dbExec id) s = (b, s1)" by fastforce
  from sql_dbExec_out [OF b] have s1: "db s1 = db s" by auto
  show ?thesis
  proof (cases b)
    case (Inl e)
    with assms b s1 sql_dbExec_out [OF b] show ?thesis by (auto simp: txA_def bindA_def)
  next
    case (Inr u)
    obtain q s2 where q: "body s1 = (q, s2)" by fastforce
    show ?thesis
    proof (cases q)
      case (Inl e)
      with assms b Inr q s1 show ?thesis by (auto simp: txA_def bindA_def)
    next
      case (Inr x)
      obtain c s3 where c: "sql (dbExec id) s2 = (c, s3)" by fastforce
      with sql_dbExec_out [OF c] assms b \<open>b = Inr u\<close> q Inr s1 show ?thesis
        by (cases c) (auto simp: txA_def bindA_def retA_def)
    qed
  qed
qed

section \<open>An instance of the library functions\<close>

text \<open>Bytes written as two letters each, and stand-ins for the hash functions: what \<open>lib_ok\<close> asks for can be had.\<close>

definition letters :: "bytes \<Rightarrow> string" where
  "letters b = concat (map (\<lambda>c. [char_of (97 + of_char c div 16 :: nat), char_of (97 + of_char c mod 16 :: nat)]) b)"

fun unletters :: "string \<Rightarrow> bytes option" where
  "unletters [] = Some []"
| "unletters [x] = None"
| "unletters (x # y # r) = map_option (Cons (char_of (16 * (of_char x - 97) + (of_char y - 97) :: nat))) (unletters r)"

definition exampleLib :: lib where
  "exampleLib = \<lparr>b32enc = letters, b32dec = unletters, b64enc = letters, b64dec = unletters, b64stdenc = letters,
     b64stddec = unletters, sha256 = id, hmac = (\<lambda>k b. k @ b), argon2 = (\<lambda>pw salt p n. take n (pw @ salt @ replicate n (CHR 0x00)))\<rparr>"

lemma of_char_less: "(of_char c :: nat) < 256"
  using nat_of_char_less_256 by (simp add: comp_def)

lemma of_char_div: "(of_char c :: nat) div 16 < 16"
  using of_char_less [of c] by (intro less_mult_imp_div_less) simp

lemma letter_bounds:
  "97 + of_char c div 16 < (113 :: nat)" "97 + of_char c mod 16 < (113 :: nat)"
  "(97 + of_char c div 16) mod 256 = (97 + of_char c div 16 :: nat)" "(97 + of_char c mod 16) mod 256 = (97 + of_char c mod 16 :: nat)"
proof -
  show 1: "97 + of_char c div 16 < (113 :: nat)" "97 + of_char c mod 16 < (113 :: nat)" using of_char_div [of c] by auto
  show "(97 + of_char c div 16) mod 256 = (97 + of_char c div 16 :: nat)" "(97 + of_char c mod 16) mod 256 = (97 + of_char c mod 16 :: nat)"
    using 1 by (simp_all add: mod_less)
qed

lemma unletters_letters: "unletters (letters b) = Some b"
proof (induction b)
  case (Cons c b)
  have "16 * (of_char c div 16) + of_char c mod 16 = (of_char c :: nat)" by simp
  with Cons show ?case by (simp add: letters_def of_char_of letter_bounds)
qed (simp add: letters_def)

lemma letters_chars: "x \<in> set (letters b) \<Longrightarrow> (of_char x :: nat) \<ge> 97 \<and> (of_char x :: nat) < 113"
  by (auto simp: letters_def of_char_of letter_bounds)

lemma exampleLib_ok: "lib_ok exampleLib"
proof -
  have "CHR ''_'' \<notin> set (letters b)" "CHR ''.'' \<notin> set (letters b)" "CHR ''$'' \<notin> set (letters b)" for b
    using letters_chars [of _ b] by fastforce+
  then show ?thesis by (auto simp: lib_ok_def exampleLib_def unletters_letters min_def)
qed

definition emptyAuth :: auth_db where
  "emptyAuth = \<lparr>auth_users = [], auth_user_roles = [], auth_passwords = [], auth_passkeys = [], auth_tokens = [],
     auth_sessions = [], auth_enrollment_tokens = [], auth_attempts = []\<rparr>"

definition storeOf :: "auth_db \<Rightarrow> (auth_db, unit) store" where
  "storeOf d = \<lparr>cfg = \<lparr>SnapshotEveryEvents = 0, SnapshotEveryPeriod = 0, MaxSubscriberBuffer = 0, SnapshotRetainPerOwner = 0\<rparr>,
      db = d, mem = (), faults = [], latestPosition = 0, started = True\<rparr>"

lemma storeOf_sel [simp]: "db (storeOf d) = d" "faults (storeOf d) = []"
  by (simp_all add: storeOf_def)

end
