(* ===== verification/Auth_Sessions.thy ===== *)
theory Auth_Sessions
  imports Auth_Store
begin

text \<open>
  Browser sessions (\<^verbatim>\<open>internal/auth/sessions\<close>): the signed access cookie, the refresh cookie whose secret is
  rotated at every use, and the store over \<open>auth_sessions\<close>. Random values and fresh ids are arguments.
\<close>

section \<open>Cookies\<close>

record SessionConfig =
  Key :: bytes
  AccessTTL :: duration
  RefreshTTL :: duration
  RefreshIdle :: duration

record AccessClaim =
  ac_SessionID :: string
  ac_UserSlug :: string
  ac_AuthMethod :: string
  ac_Exp :: int

definition claimPayload :: "AccessClaim \<Rightarrow> bytes" where
  "claimPayload c = ac_SessionID c @ ''|'' @ ac_UserSlug c @ ''|'' @ ac_AuthMethod c @ ''|'' @ showInt (ac_Exp c)"

definition encodeAccessCookie :: "lib \<Rightarrow> AccessClaim \<Rightarrow> bytes \<Rightarrow> string" where
  "encodeAccessCookie l c key = b64enc l (claimPayload c) @ ''.'' @ hmac l key (claimPayload c)"

definition decodeAccessCookie :: "lib \<Rightarrow> string \<Rightarrow> bytes \<Rightarrow> auth_error + AccessClaim" where
  "decodeAccessCookie l v key =
     (case cutAt (CHR ''.'') v of
        None \<Rightarrow> Inl ErrSessionInvalid
      | Some (payloadB64, sig) \<Rightarrow>
         (case b64dec l payloadB64 of
            None \<Rightarrow> Inl ErrSessionInvalid
          | Some payload \<Rightarrow>
              if hmac l key payload \<noteq> sig then Inl ErrSessionInvalid
              else (case splitN (CHR ''|'') 4 payload of
                  [sid, user, method, e] \<Rightarrow>
                    (case parseInt64 e of
                       None \<Rightarrow> Inl ErrSessionInvalid
                     | Some exp \<Rightarrow> Inr \<lparr>ac_SessionID = sid, ac_UserSlug = user, ac_AuthMethod = method, ac_Exp = exp\<rparr>)
                | _ \<Rightarrow> Inl ErrSessionInvalid)))"

definition encodeRefreshCookie :: "string \<Rightarrow> string \<Rightarrow> string" where
  "encodeRefreshCookie sid secret = sid @ ''.'' @ secret"

definition decodeRefreshCookie :: "string \<Rightarrow> auth_error + string \<times> string" where
  "decodeRefreshCookie v = (case cutAt (CHR ''.'') v of None \<Rightarrow> Inl ErrSessionInvalid | Some p \<Rightarrow> Inr p)"

definition deadline :: "gotime \<Rightarrow> duration \<Rightarrow> int" where
  "deadline now ttl = unix (now + ttl)"

section \<open>The store\<close>

record IssueInput =
  in_UserSlug :: string
  in_AuthMethod :: string
  in_RemoteIP :: string
  in_UserAgent :: string

record SessionData =
  sd_SessionID :: string
  sd_UserSlug :: string
  sd_AuthMethod :: string

text \<open>The values of the access and the refresh cookie.\<close>

definition writeCookies :: "lib \<Rightarrow> SessionConfig \<Rightarrow> string \<Rightarrow> string \<Rightarrow> string \<Rightarrow> string \<Rightarrow> gotime \<Rightarrow> string \<times> string" where
  "writeCookies l c sid user method secret now =
     (encodeAccessCookie l \<lparr>ac_SessionID = sid, ac_UserSlug = user, ac_AuthMethod = method, ac_Exp = deadline now (AccessTTL c)\<rparr> (Key c),
      encodeRefreshCookie sid secret)"

definition Sessions_Issue ::
  "lib \<Rightarrow> SessionConfig \<Rightarrow> gotime \<Rightarrow> string \<Rightarrow> string \<Rightarrow> IssueInput
     \<Rightarrow> ((auth_db, 'm, 'z) store_scheme, SessionData \<times> string \<times> string) astep" where
  "Sessions_Issue l c now sid secret i =
     bindA (sql (dbTry (\<lambda>d. map_sum id (\<lambda>ss. d\<lparr>auth_sessions := ss\<rparr>) (insertNew ''auth_sessions.session_id'' sid
       \<lparr>ss_user_slug = in_UserSlug i, ss_auth_method = in_AuthMethod i, ss_refresh_hash = sha256 l secret,
        ss_issued_at = unix now, ss_ttl_at = deadline now (RefreshTTL c), ss_idle_at = deadline now (RefreshIdle c),
        ss_user_agent = in_UserAgent i, ss_remote_ip = in_RemoteIP i\<rparr> (auth_sessions d))))) (\<lambda>_.
     retA (\<lparr>sd_SessionID = sid, sd_UserSlug = in_UserSlug i, sd_AuthMethod = in_AuthMethod i\<rparr>,
       writeCookies l c sid (in_UserSlug i) (in_AuthMethod i) secret now))"

text \<open>The cookie of the request, if it has one; the principal is the user, session and method of the claim.\<close>

definition VerifyAccess ::
  "lib \<Rightarrow> SessionConfig \<Rightarrow> gotime \<Rightarrow> string option \<Rightarrow> ((auth_db, 'm, 'z) store_scheme, SessionData) astep" where
  "VerifyAccess l c now cookie =
     (case cookie of
        None \<Rightarrow> throwA ErrSessionInvalid
      | Some v \<Rightarrow>
         (case decodeAccessCookie l v (Key c) of
            Inl e \<Rightarrow> throwA e
          | Inr claim \<Rightarrow>
              if unix now \<ge> ac_Exp claim then throwA ErrSessionExpired
              else bindA (sql (dbQuery (\<lambda>d. map_of (auth_sessions d) (ac_SessionID claim)))) (\<lambda>row.
                case row of
                  None \<Rightarrow> throwA ErrSessionInvalid
                | Some _ \<Rightarrow> retA \<lparr>sd_SessionID = ac_SessionID claim, sd_UserSlug = ac_UserSlug claim,
                    sd_AuthMethod = ac_AuthMethod claim\<rparr>)))"

text \<open>
  The transaction of \<open>Refresh\<close>. A secret that does not match deletes the session, and this is committed:
  \<open>None\<close> is the replay, \<open>Some\<close> the rotated session.
\<close>

definition refreshTx ::
  "lib \<Rightarrow> SessionConfig \<Rightarrow> gotime \<Rightarrow> string \<Rightarrow> string \<Rightarrow> string \<Rightarrow> ((auth_db, 'm, 'z) store_scheme, session_row option) astep" where
  "refreshTx l c now newSecret sid secret =
     bindA (sql (dbQuery (\<lambda>d. map_of (auth_sessions d) sid))) (\<lambda>row.
     case row of
       None \<Rightarrow> throwA ErrSessionInvalid
     | Some r \<Rightarrow>
         if unix now \<ge> ss_ttl_at r \<or> unix now \<ge> ss_idle_at r then throwA ErrSessionExpired
         else if sha256 l secret \<noteq> ss_refresh_hash r then
           bindA (sql (dbExec (\<lambda>d. d\<lparr>auth_sessions := AList.delete sid (auth_sessions d)\<rparr>))) (\<lambda>_. retA None)
         else
           bindA (sql (dbExec (\<lambda>d. d\<lparr>auth_sessions := AList.map_entry sid
             (\<lambda>r. r\<lparr>ss_refresh_hash := sha256 l newSecret, ss_idle_at := deadline now (RefreshIdle c)\<rparr>) (auth_sessions d)\<rparr>)))
             (\<lambda>_. retA (Some r)))"

definition Sessions_Refresh ::
  "lib \<Rightarrow> SessionConfig \<Rightarrow> gotime \<Rightarrow> string \<Rightarrow> string option
     \<Rightarrow> ((auth_db, 'm, 'z) store_scheme, SessionData \<times> string \<times> string) astep" where
  "Sessions_Refresh l c now newSecret cookie =
     (case cookie of
        None \<Rightarrow> throwA ErrSessionInvalid
      | Some v \<Rightarrow>
         (case decodeRefreshCookie v of
            Inl e \<Rightarrow> throwA e
          | Inr (sid, secret) \<Rightarrow>
              bindA (txA (refreshTx l c now newSecret sid secret)) (\<lambda>r.
              case r of
                None \<Rightarrow> throwA ErrSessionReplay
              | Some r \<Rightarrow> retA (\<lparr>sd_SessionID = sid, sd_UserSlug = ss_user_slug r, sd_AuthMethod = ss_auth_method r\<rparr>,
                  writeCookies l c sid (ss_user_slug r) (ss_auth_method r) newSecret now))))"

definition Sessions_Logout :: "string \<Rightarrow> ((auth_db, 'm, 'z) store_scheme, unit) astep" where
  "Sessions_Logout sid = sql (dbExec (\<lambda>d. d\<lparr>auth_sessions := AList.delete sid (auth_sessions d)\<rparr>))"

section \<open>Round trip of the cookies\<close>

definition plainClaim :: "AccessClaim \<Rightarrow> bool" where
  "plainClaim c \<longleftrightarrow> CHR ''|'' \<notin> set (ac_SessionID c) \<and> CHR ''|'' \<notin> set (ac_UserSlug c) \<and>
     CHR ''|'' \<notin> set (ac_AuthMethod c) \<and> in_int64 (ac_Exp c)"

lemma splitN_payload:
  assumes "plainClaim c"
  shows "splitN (CHR ''|'') 4 (claimPayload c) = [ac_SessionID c, ac_UserSlug c, ac_AuthMethod c, showInt (ac_Exp c)]"
  using assms by (simp add: claimPayload_def plainClaim_def numeral_eq_Suc)

lemma access_cookie_roundtrip:
  assumes "lib_ok l" "plainClaim c"
  shows "decodeAccessCookie l (encodeAccessCookie l c key) key = Inr c"
  using assms splitN_payload [OF assms(2)]
  by (simp add: decodeAccessCookie_def encodeAccessCookie_def lib_ok_def plainClaim_def)

lemma refresh_cookie_roundtrip:
  "CHR ''.'' \<notin> set sid \<Longrightarrow> decodeRefreshCookie (encodeRefreshCookie sid secret) = Inr (sid, secret)"
  by (simp add: decodeRefreshCookie_def encodeRefreshCookie_def)

section \<open>What the operations do to the sessions\<close>

lemma refreshTx_no_replay: "refreshTx l c now newSecret sid secret s \<noteq> (Inl ErrSessionReplay, s')"
  by (auto simp: refreshTx_def bindA_def throwA_def retA_def split: prod.splits sum.splits option.splits if_splits
      dest: sql_dbExec_out sql_dbQuery_out)

lemma Refresh_out:
  assumes "Sessions_Refresh l c now newSecret cookie s = (r, s')"
  shows "(\<exists>e. r = Inl e \<and> e \<noteq> ErrSessionReplay \<and> db s' = db s) \<or>
    (\<exists>v sid secret row. cookie = Some v \<and> decodeRefreshCookie v = Inr (sid, secret) \<and> map_of (auth_sessions (db s)) sid = Some row \<and>
       unix now < ss_ttl_at row \<and> unix now < ss_idle_at row \<and>
       (sha256 l secret \<noteq> ss_refresh_hash row \<and> r = Inl ErrSessionReplay \<and>
          db s' = (db s)\<lparr>auth_sessions := AList.delete sid (auth_sessions (db s))\<rparr> \<or>
        sha256 l secret = ss_refresh_hash row \<and>
          r = Inr (\<lparr>sd_SessionID = sid, sd_UserSlug = ss_user_slug row, sd_AuthMethod = ss_auth_method row\<rparr>,
            writeCookies l c sid (ss_user_slug row) (ss_auth_method row) newSecret now) \<and>
          db s' = (db s)\<lparr>auth_sessions := AList.map_entry sid (\<lambda>r. r\<lparr>ss_refresh_hash := sha256 l newSecret,
            ss_idle_at := deadline now (RefreshIdle c)\<rparr>) (auth_sessions (db s))\<rparr>))"
proof (cases "\<exists>v sid secret. cookie = Some v \<and> decodeRefreshCookie v = Inr (sid, secret)")
  case False
  with assms show ?thesis
    by (auto simp: Sessions_Refresh_def throwA_def decodeRefreshCookie_def split: option.splits sum.splits)
next
  case True
  then obtain v sid secret where v: "cookie = Some v" "decodeRefreshCookie v = Inr (sid, secret)" by blast
  obtain t s1 where t: "txA (refreshTx l c now newSecret sid secret) s = (t, s1)" by fastforce
  from txA_out [OF t] show ?thesis
  proof (elim disjE exE conjE)
    fix e m assume "t = Inl e" "db s1 = db s" "e = PlainErr m"
    with assms v t show ?thesis by (auto simp: Sessions_Refresh_def bindA_def)
  next
    fix e a b assume "t = Inl e" "db s1 = db s" "refreshTx l c now newSecret sid secret a = (Inl e, b)"
    with assms v t refreshTx_no_replay [of l c now newSecret sid secret a b] show ?thesis by (auto simp: Sessions_Refresh_def bindA_def)
  next
    fix x a b
    assume a: "db a = db s" "refreshTx l c now newSecret sid secret a = (Inr x, b)" "t = Inr x" "db s1 = db b"
    obtain q a1 where q: "sql (dbQuery (\<lambda>d. map_of (auth_sessions d) sid)) a = (q, a1)" by fastforce
    from sql_dbQuery_out [OF q] a(1,2) q obtain row where row: "map_of (auth_sessions (db s)) sid = Some row" "q = Inr (Some row)" "db a1 = db s"
      by (auto simp: refreshTx_def bindA_def throwA_def split: option.splits)
    have "unix now < ss_ttl_at row \<and> unix now < ss_idle_at row"
      using a(2) q row(2) by (auto simp: refreshTx_def bindA_def throwA_def split: if_splits)
    moreover have "sha256 l secret \<noteq> ss_refresh_hash row \<and> x = None \<and> db b = (db s)\<lparr>auth_sessions := AList.delete sid (auth_sessions (db s))\<rparr> \<or>
        sha256 l secret = ss_refresh_hash row \<and> x = Some row \<and> db b = (db s)\<lparr>auth_sessions := AList.map_entry sid (\<lambda>r. r\<lparr>ss_refresh_hash := sha256 l newSecret,
            ss_idle_at := deadline now (RefreshIdle c)\<rparr>) (auth_sessions (db s))\<rparr>"
      using a(2) q row(2,3)
      by (auto simp: refreshTx_def bindA_def throwA_def retA_def split: if_splits prod.splits sum.splits dest!: sql_dbExec_out)
    ultimately show ?thesis
      using assms v t a(3,4) row(1) by (auto simp: Sessions_Refresh_def bindA_def throwA_def retA_def)
  qed
qed

lemma Issue_out:
  assumes "Sessions_Issue l c now sid secret i s = (r, s')"
  shows "(\<exists>e. r = Inl e \<and> db s' = db s) \<or>
    (map_of (auth_sessions (db s)) sid = None \<and>
      r = Inr (\<lparr>sd_SessionID = sid, sd_UserSlug = in_UserSlug i, sd_AuthMethod = in_AuthMethod i\<rparr>,
        writeCookies l c sid (in_UserSlug i) (in_AuthMethod i) secret now) \<and>
      db s' = (db s)\<lparr>auth_sessions := auth_sessions (db s) @ [(sid,
       \<lparr>ss_user_slug = in_UserSlug i, ss_auth_method = in_AuthMethod i, ss_refresh_hash = sha256 l secret,
        ss_issued_at = unix now, ss_ttl_at = deadline now (RefreshTTL c), ss_idle_at = deadline now (RefreshIdle c),
        ss_user_agent = in_UserAgent i, ss_remote_ip = in_RemoteIP i\<rparr>)]\<rparr>)"
  using assms unfolding Sessions_Issue_def bindA_def
  by (auto simp: retA_def insertNew_def split: prod.splits sum.splits if_splits dest!: sql_dbTry_out)

lemma Logout_out:
  "Sessions_Logout sid s = (r, s') \<Longrightarrow> db s' = db s \<or> db s' = (db s)\<lparr>auth_sessions := AList.delete sid (auth_sessions (db s))\<rparr>"
  unfolding Sessions_Logout_def by (drule sql_dbExec_out) auto

section \<open>A signed payload determines its claim\<close>

lemma splitN_ConsD:
  assumes "splitN c (Suc (Suc n)) s = x # y # xs"
  shows "\<exists>r. s = x @ c # r \<and> c \<notin> set x \<and> splitN c (Suc n) r = y # xs"
proof (cases "cutAt c s")
  case None
  with assms show ?thesis by simp
next
  case (Some p)
  then obtain a b where "cutAt c s = Some (a, b)" by (cases p) auto
  with cutAt_SomeD [OF this] assms show ?thesis by auto
qed

lemma splitN_4D:
  assumes "splitN c 4 s = [a, b, d, e]"
  shows "s = a @ c # b @ c # d @ c # e \<and> c \<notin> set a \<and> c \<notin> set b \<and> c \<notin> set d"
proof -
  have "splitN c (Suc (Suc (Suc (Suc 0)))) s = [a, b, d, e]" using assms by (simp add: numeral_eq_Suc)
  from splitN_ConsD [OF this] obtain r where r: "s = a @ c # r" "c \<notin> set a" "splitN c (Suc (Suc (Suc 0))) r = [b, d, e]" by blast
  from splitN_ConsD [OF r(3)] obtain q where q: "r = b @ c # q" "c \<notin> set b" "splitN c (Suc (Suc 0)) q = [d, e]" by blast
  from splitN_ConsD [OF q(3)] obtain t where "q = d @ c # t" "c \<notin> set d" "splitN c (Suc 0) t = [e]" by blast
  with r q show ?thesis by simp
qed

lemma parseInt64_chars: "parseInt64 s = Some n \<Longrightarrow> x \<in> set s \<Longrightarrow> isDigit x \<or> x = CHR ''-'' \<or> x = CHR ''+''"
  by (cases s) (auto simp: parseInt64_def Let_def split: if_splits)

lemma parseInt64_free: "parseInt64 s = Some n \<Longrightarrow> CHR ''|'' \<notin> set s"
  by (auto dest: parseInt64_chars simp: isDigit_def)

lemma parseInt64_showInt_SomeD: "parseInt64 (showInt i) = Some n \<Longrightarrow> n = i"
proof -
  assume p: "parseInt64 (showInt i) = Some n"
  have "hd (showNat k) \<noteq> CHR ''-'' \<and> hd (showNat k) \<noteq> CHR ''+''" for k
    using showNat_digits [of "hd (showNat k)" k] digit_neq by (metis hd_in_set showNat_not_Nil)
  with p show ?thesis
    by (auto simp: parseInt64_def showInt_def Let_def split: if_splits)
qed

lemma count_list_free: "c \<notin> set xs \<Longrightarrow> count_list xs c = 0"
  by (simp add: count_list_0_iff)

text \<open>
  The payload does not escape its separator; still a text that the store signed decodes to the claim
  it was made from or to none, even when the user's slug has a separator in it.
\<close>

lemma payload_determines_claim:
  assumes sid: "CHR ''|'' \<notin> set (ac_SessionID c)"
    and split: "splitN (CHR ''|'') 4 (claimPayload c) = [a, b, m, e]" and e: "parseInt64 e = Some x"
  shows "c = \<lparr>ac_SessionID = a, ac_UserSlug = b, ac_AuthMethod = m, ac_Exp = x\<rparr>"
proof -
  let ?n = "\<lambda>s. count_list s (CHR ''|'')"
  from splitN_4D [OF split] have p: "claimPayload c = a @ CHR ''|'' # b @ CHR ''|'' # m @ CHR ''|'' # e"
    and free: "CHR ''|'' \<notin> set a" "CHR ''|'' \<notin> set b" "CHR ''|'' \<notin> set m" by auto
  have num: "CHR ''|'' \<notin> set (showInt (ac_Exp c))" using showInt_chars by (fastforce simp: isDigit_def)
  have "?n (claimPayload c) = 3 + ?n (ac_UserSlug c) + ?n (ac_AuthMethod c)"
    using sid num by (simp add: claimPayload_def count_list_append count_list_free)
  moreover have "?n (claimPayload c) = 3"
    using free parseInt64_free [OF e] by (simp add: p count_list_append count_list_free)
  ultimately have "?n (ac_UserSlug c) = 0" "?n (ac_AuthMethod c) = 0" by simp_all
  then have "splitN (CHR ''|'') 4 (claimPayload c) = [ac_SessionID c, ac_UserSlug c, ac_AuthMethod c, showInt (ac_Exp c)]"
    using sid by (simp add: claimPayload_def numeral_eq_Suc count_list_0_iff)
  with split e show ?thesis by (auto dest: parseInt64_showInt_SomeD)
qed

section \<open>Every history of sessions\<close>

text \<open>
  The store under any sequence of calls by any number of clients: every call is a statement or a
  transaction. Kept beside the store: the texts signed with the key, the sessions issued with their
  time, the hashes of all refresh secrets given out and those that a refresh has replaced. Session ids are ulids,
  fresh and without a separator; a new secret hashes to a value not seen before. The other stores
  leave the sessions alone.
\<close>

record ghost =
  signed :: "bytes set"
  issued :: "(string \<times> IssueInput \<times> gotime) list"
  given :: "string set"
  spent :: "(string \<times> string) set"

definition claimFor :: "SessionConfig \<Rightarrow> SessionData \<Rightarrow> gotime \<Rightarrow> AccessClaim" where
  "claimFor c d now = \<lparr>ac_SessionID = sd_SessionID d, ac_UserSlug = sd_UserSlug d, ac_AuthMethod = sd_AuthMethod d,
     ac_Exp = deadline now (AccessTTL c)\<rparr>"

definition ghostIssue :: "lib \<Rightarrow> SessionConfig \<Rightarrow> gotime \<Rightarrow> string \<Rightarrow> IssueInput \<Rightarrow> SessionData \<Rightarrow> ghost \<Rightarrow> ghost" where
  "ghostIssue l c now secret i d g = g\<lparr>signed := insert (claimPayload (claimFor c d now)) (signed g),
     issued := issued g @ [(sd_SessionID d, i, now)], given := insert (sha256 l secret) (given g)\<rparr>"

definition ghostRefresh :: "lib \<Rightarrow> SessionConfig \<Rightarrow> gotime \<Rightarrow> string \<Rightarrow> string \<Rightarrow> SessionData \<Rightarrow> ghost \<Rightarrow> ghost" where
  "ghostRefresh l c now newSecret old d g = g\<lparr>signed := insert (claimPayload (claimFor c d now)) (signed g),
     given := insert (sha256 l newSecret) (given g), spent := insert (sd_SessionID d, sha256 l old) (spent g)\<rparr>"

definition freshID :: "string \<Rightarrow> ghost \<Rightarrow> bool" where
  "freshID sid g \<longleftrightarrow> sid \<notin> fst ` set (issued g) \<and> CHR ''|'' \<notin> set sid"

inductive sessStep ::
  "lib \<Rightarrow> SessionConfig \<Rightarrow> ghost \<times> (auth_db, 'm, 'z) store_scheme \<Rightarrow> ghost \<times> (auth_db, 'm, 'z) store_scheme \<Rightarrow> bool"
  for l c where
  issue: "Sessions_Issue l c now sid secret i s = (Inr (d, cookies), s') \<Longrightarrow> freshID sid g \<Longrightarrow> sha256 l secret \<notin> given g
    \<Longrightarrow> sessStep l c (g, s) (ghostIssue l c now secret i d g, s')"
| issue_failed: "Sessions_Issue l c now sid secret i s = (Inl e, s') \<Longrightarrow> sessStep l c (g, s) (g, s')"
| refresh: "Sessions_Refresh l c now newSecret (Some v) s = (Inr (d, cookies), s') \<Longrightarrow> sha256 l newSecret \<notin> given g
    \<Longrightarrow> decodeRefreshCookie v = Inr (sid, old) \<Longrightarrow> sessStep l c (g, s) (ghostRefresh l c now newSecret old d g, s')"
| refresh_failed: "Sessions_Refresh l c now newSecret cookie s = (Inl e, s') \<Longrightarrow> sessStep l c (g, s) (g, s')"
| logout: "Sessions_Logout sid s = (r, s') \<Longrightarrow> sessStep l c (g, s) (g, s')"
| other: "auth_sessions (db s') = auth_sessions (db s) \<Longrightarrow> sessStep l c (g, s) (g, s')"

definition noSessions :: ghost where
  "noSessions = \<lparr>signed = {}, issued = [], given = {}, spent = {}\<rparr>"

definition sessReach :: "lib \<Rightarrow> SessionConfig \<Rightarrow> ghost \<Rightarrow> (auth_db, 'm, 'z) store_scheme \<Rightarrow> bool" where
  "sessReach l c g s \<longleftrightarrow> (\<exists>s0. auth_sessions (db s0) = [] \<and> (sessStep l c)\<^sup>*\<^sup>* (noSessions, s0) (g, s))"

text \<open>What holds of the sessions \<open>m\<close> in the store after every history.\<close>

definition wasIssued :: "ghost \<Rightarrow> string \<Rightarrow> string \<Rightarrow> string \<Rightarrow> gotime \<Rightarrow> bool" where
  "wasIssued g sid user method t0 \<longleftrightarrow> (\<exists>i. (sid, i, t0) \<in> set (issued g) \<and> in_UserSlug i = user \<and> in_AuthMethod i = method)"

definition rowsInv :: "SessionConfig \<Rightarrow> ghost \<Rightarrow> (string \<Rightarrow> session_row option) \<Rightarrow> bool" where
  "rowsInv c g m \<longleftrightarrow> (\<forall>sid r. m sid = Some r \<longrightarrow> ss_refresh_hash r \<in> given g \<and>
     (\<exists>t0. wasIssued g sid (ss_user_slug r) (ss_auth_method r) t0 \<and> ss_ttl_at r = deadline t0 (RefreshTTL c)))"

definition signedInv :: "SessionConfig \<Rightarrow> ghost \<Rightarrow> bool" where
  "signedInv c g \<longleftrightarrow> (\<forall>p \<in> signed g. \<exists>k t0. p = claimPayload k \<and> CHR ''|'' \<notin> set (ac_SessionID k) \<and>
     wasIssued g (ac_SessionID k) (ac_UserSlug k) (ac_AuthMethod k) t0 \<and> ac_Exp k \<le> unix (t0 + RefreshTTL c + AccessTTL c))"

definition spentInv :: "ghost \<Rightarrow> (string \<Rightarrow> session_row option) \<Rightarrow> bool" where
  "spentInv g m \<longleftrightarrow> (\<forall>(sid, h) \<in> spent g. sid \<in> fst ` set (issued g) \<and> h \<in> given g \<and>
     (\<forall>r. m sid = Some r \<longrightarrow> ss_refresh_hash r \<noteq> h))"

definition idsInv :: "ghost \<Rightarrow> bool" where
  "idsInv g \<longleftrightarrow> distinct (map fst (issued g)) \<and> (\<forall>sid \<in> fst ` set (issued g). CHR ''|'' \<notin> set sid)"

definition sessInv :: "SessionConfig \<Rightarrow> ghost \<times> (auth_db, 'm, 'z) store_scheme \<Rightarrow> bool" where
  "sessInv c = (\<lambda>(g, s). let m = map_of (auth_sessions (db s)) in rowsInv c g m \<and> signedInv c g \<and> spentInv g m \<and> idsInv g)"

lemma sessInv_submap:
  assumes "sessInv c (g, s)" "map_of (auth_sessions (db s')) \<subseteq>\<^sub>m map_of (auth_sessions (db s))"
  shows "sessInv c (g, s')"
  using assms unfolding sessInv_def Let_def rowsInv_def spentInv_def
  by (auto simp: map_le_def dom_def)

lemma wasIssued_mono: "wasIssued g sid u m t \<Longrightarrow> set (issued g) \<subseteq> set (issued g') \<Longrightarrow> wasIssued g' sid u m t"
  by (auto simp: wasIssued_def)

lemma wasIssued_unique:
  "wasIssued g sid u m t \<Longrightarrow> wasIssued g sid u' m' t' \<Longrightarrow> idsInv g \<Longrightarrow> u = u' \<and> m = m' \<and> t = t'"
  unfolding wasIssued_def idsInv_def by (auto dest: eq_key_imp_eq_value)

lemma unix_mono: "a \<le> b \<Longrightarrow> unix a \<le> unix b"
  by (simp add: unix_def zdiv_mono1)

lemma signedInv_insert:
  assumes "signedInv c g" "set (issued g) \<subseteq> set (issued g')" "signed g' = insert (claimPayload k) (signed g)"
    and "CHR ''|'' \<notin> set (ac_SessionID k)" "wasIssued g' (ac_SessionID k) (ac_UserSlug k) (ac_AuthMethod k) start"
    and "ac_Exp k \<le> unix (start + RefreshTTL c + AccessTTL c)"
  shows "signedInv c g'"
  unfolding signedInv_def assms(3)
proof (rule ballI)
  fix p assume "p \<in> insert (claimPayload k) (signed g)"
  then show "\<exists>k t0. p = claimPayload k \<and> CHR ''|'' \<notin> set (ac_SessionID k) \<and>
      wasIssued g' (ac_SessionID k) (ac_UserSlug k) (ac_AuthMethod k) t0 \<and> ac_Exp k \<le> unix (t0 + RefreshTTL c + AccessTTL c)"
    using assms(1,4-6) wasIssued_mono [OF _ assms(2)] unfolding signedInv_def by blast
qed

lemma sessInv_issue:
  assumes inv: "sessInv c (g, s)" and run: "Sessions_Issue l c now sid secret i s = (Inr (d, cookies), s')"
    and fresh: "freshID sid g" "sha256 l secret \<notin> given g" and ttl: "0 \<le> RefreshTTL c"
  shows "sessInv c (ghostIssue l c now secret i d g, s')"
proof -
  let ?g = "ghostIssue l c now secret i d g"
  let ?row = "\<lparr>ss_user_slug = in_UserSlug i, ss_auth_method = in_AuthMethod i, ss_refresh_hash = sha256 l secret,
        ss_issued_at = unix now, ss_ttl_at = deadline now (RefreshTTL c), ss_idle_at = deadline now (RefreshIdle c),
        ss_user_agent = in_UserAgent i, ss_remote_ip = in_RemoteIP i\<rparr>"
  let ?m = "map_of (auth_sessions (db s))"
  from Issue_out [OF run] have d: "d = \<lparr>sd_SessionID = sid, sd_UserSlug = in_UserSlug i, sd_AuthMethod = in_AuthMethod i\<rparr>"
    and none: "?m sid = None" and db: "auth_sessions (db s') = auth_sessions (db s) @ [(sid, ?row)]" by auto
  have m: "map_of (auth_sessions (db s')) = ?m(sid \<mapsto> ?row)"
    using none by (auto simp: db map_add_def fun_eq_iff split: option.splits)
  have iss: "set (issued g) \<subseteq> set (issued ?g)" "wasIssued ?g sid (in_UserSlug i) (in_AuthMethod i) now"
    by (auto simp: ghostIssue_def wasIssued_def d)
  have giv: "given ?g = insert (sha256 l secret) (given g)" and spt: "spent ?g = spent g" by (simp_all add: ghostIssue_def)
  have I: "rowsInv c g ?m" "signedInv c g" "spentInv g ?m" "idsInv g" using inv by (simp_all add: sessInv_def Let_def)
  have "rowsInv c ?g (?m(sid \<mapsto> ?row))"
    using I(1) iss(2) wasIssued_mono [OF _ iss(1)] giv unfolding rowsInv_def
    by (simp split: if_splits) (metis insertI2)
  moreover have "signedInv c ?g"
    by (rule signedInv_insert [OF I(2) iss(1), where k = "claimFor c d now" and start = now])
      (use fresh iss ttl in \<open>auto simp: ghostIssue_def claimFor_def d freshID_def deadline_def intro!: unix_mono\<close>)
  moreover have "spentInv ?g (?m(sid \<mapsto> ?row))"
    using I(3) fresh(1) iss(1) giv unfolding spentInv_def freshID_def spt
    by (auto split: if_splits dest!: bspec) (metis image_eqI subsetD fst_conv)+
  moreover have "idsInv ?g"
    using I(4) fresh by (auto simp: idsInv_def freshID_def ghostIssue_def d)
  ultimately show ?thesis by (simp add: sessInv_def Let_def m)
qed

lemma sessInv_refresh:
  assumes inv: "sessInv c (g, s)" and run: "Sessions_Refresh l c now newSecret (Some v) s = (Inr (d, cookies), s')"
    and fresh: "sha256 l newSecret \<notin> given g" and v: "decodeRefreshCookie v = Inr (sid, old)"
  shows "sessInv c (ghostRefresh l c now newSecret old d g, s')"
proof -
  let ?g = "ghostRefresh l c now newSecret old d g"
  let ?m = "map_of (auth_sessions (db s))"
  let ?f = "\<lambda>r. r\<lparr>ss_refresh_hash := sha256 l newSecret, ss_idle_at := deadline now (RefreshIdle c)\<rparr>"
  from Refresh_out [OF run] v obtain row where
      row: "?m sid = Some row" "unix now < ss_ttl_at row" "sha256 l old = ss_refresh_hash row"
      "d = \<lparr>sd_SessionID = sid, sd_UserSlug = ss_user_slug row, sd_AuthMethod = ss_auth_method row\<rparr>"
      "auth_sessions (db s') = AList.map_entry sid ?f (auth_sessions (db s))" by auto
  have m: "map_of (auth_sessions (db s')) = ?m(sid \<mapsto> ?f row)"
    using row(1) by (simp add: row(5) AList.map_of_map_entry fun_eq_iff)
  have I: "rowsInv c g ?m" "signedInv c g" "spentInv g ?m" "idsInv g" using inv by (simp_all add: sessInv_def Let_def)
  have eq: "issued ?g = issued g" and sg: "signed ?g = insert (claimPayload (claimFor c d now)) (signed g)"
    by (simp_all add: ghostRefresh_def)
  then have wi: "wasIssued ?g = wasIssued g" by (simp add: wasIssued_def fun_eq_iff)
  from I(1) row(1) obtain t0 where t0: "wasIssued g sid (ss_user_slug row) (ss_auth_method row) t0"
      "ss_ttl_at row = deadline t0 (RefreshTTL c)" and h: "ss_refresh_hash row \<in> given g"
    unfolding rowsInv_def by blast
  have sid: "sid \<in> fst ` set (issued g)" using t0(1) by (force simp: wasIssued_def)
  have "now < t0 + RefreshTTL c" using row(2) t0(2) unix_mono [of "t0 + RefreshTTL c" now] by (force simp: deadline_def)
  then have exp: "deadline now (AccessTTL c) \<le> unix (t0 + RefreshTTL c + AccessTTL c)"
    by (simp add: deadline_def unix_mono)
  have "rowsInv c ?g (?m(sid \<mapsto> ?f row))"
    using I(1) t0 unfolding rowsInv_def wi by (auto simp: ghostRefresh_def)
  moreover have "signedInv c ?g"
  proof (rule signedInv_insert [OF I(2) _ sg, where start = t0])
    have k: "ac_SessionID (claimFor c d now) = sid" "ac_UserSlug (claimFor c d now) = ss_user_slug row"
      "ac_AuthMethod (claimFor c d now) = ss_auth_method row" "ac_Exp (claimFor c d now) = deadline now (AccessTTL c)"
      by (simp_all add: claimFor_def row(4))
    show "CHR ''|'' \<notin> set (ac_SessionID (claimFor c d now))" using sid I(4) by (auto simp: k idsInv_def)
    show "wasIssued ?g (ac_SessionID (claimFor c d now)) (ac_UserSlug (claimFor c d now)) (ac_AuthMethod (claimFor c d now)) t0"
      using t0(1) by (simp add: k wi)
    show "ac_Exp (claimFor c d now) \<le> unix (t0 + RefreshTTL c + AccessTTL c)" using exp by (simp add: k)
  qed (simp add: eq)
  moreover have "spentInv ?g (?m(sid \<mapsto> ?f row))"
    unfolding spentInv_def eq
  proof (clarify, intro conjI allI impI)
    fix a k assume ak: "(a, k) \<in> spent ?g"
    then consider "a = sid" "k = ss_refresh_hash row" | "(a, k) \<in> spent g" by (auto simp: ghostRefresh_def row(3,4))
    then have old: "a \<in> fst ` set (issued g) \<and> k \<in> given g \<and> (a \<noteq> sid \<longrightarrow> (\<forall>r. ?m a = Some r \<longrightarrow> ss_refresh_hash r \<noteq> k))"
      using I(3) h sid by cases (auto simp: spentInv_def)
    then show "a \<in> fst ` set (issued g)" "k \<in> given ?g" by (simp_all add: ghostRefresh_def)
    fix r assume r: "(?m(sid \<mapsto> ?f row)) a = Some r"
    show "ss_refresh_hash r \<noteq> k"
    proof (cases "a = sid")
      case True
      with r have "ss_refresh_hash r = sha256 l newSecret" by auto
      with old fresh show ?thesis by auto
    next
      case False
      with r old show ?thesis by auto
    qed
  qed
  moreover have "idsInv ?g" using I(4) by (simp add: idsInv_def eq)
  ultimately show ?thesis by (simp add: sessInv_def Let_def m)
qed

lemma Refresh_failed_submap:
  "Sessions_Refresh l c now newSecret cookie s = (Inl e, s') \<Longrightarrow> map_of (auth_sessions (db s')) \<subseteq>\<^sub>m map_of (auth_sessions (db s))"
  by (drule Refresh_out) (auto simp: AList.delete_conv' map_le_def split: if_splits)

lemma Logout_submap:
  "Sessions_Logout sid s = (r, s') \<Longrightarrow> map_of (auth_sessions (db s')) \<subseteq>\<^sub>m map_of (auth_sessions (db s))"
  by (drule Logout_out) (auto simp: AList.delete_conv' map_le_def split: if_splits)

lemma sessInv_step: "sessStep l c x y \<Longrightarrow> sessInv c x \<Longrightarrow> 0 \<le> RefreshTTL c \<Longrightarrow> sessInv c y"
proof (induction rule: sessStep.induct)
  case (issue_failed now sid secret i s e s' g)
  then show ?case using Issue_out [OF issue_failed.hyps] by (auto elim: sessInv_submap)
qed (auto intro: sessInv_issue sessInv_refresh sessInv_submap Refresh_failed_submap Logout_submap)

lemma sessInv_reach: "sessReach l c g s \<Longrightarrow> 0 \<le> RefreshTTL c \<Longrightarrow> sessInv c (g, s)"
proof -
  assume "sessReach l c g s" and ttl: "0 \<le> RefreshTTL c"
  then obtain s0 where s0: "auth_sessions (db s0) = []" and "(sessStep l c)\<^sup>*\<^sup>* (noSessions, s0) (g, s)"
    by (auto simp: sessReach_def)
  from this(2) show ?thesis
  proof (induction rule: rtranclp_induct)
    case base
    then show ?case by (simp add: sessInv_def rowsInv_def signedInv_def spentInv_def idsInv_def noSessions_def s0)
  qed (use ttl in \<open>auto intro: sessInv_step\<close>)
qed

text \<open>
  The presented cookie is not a forgery: if its signature is accepted, the store has signed this
  payload. This is what HMAC promises for a secret key.
\<close>

definition unforged :: "lib \<Rightarrow> bytes \<Rightarrow> string \<Rightarrow> bytes set \<Rightarrow> bool" where
  "unforged l key v texts \<longleftrightarrow> (case cutAt (CHR ''.'') v of None \<Rightarrow> True | Some (p64, sig) \<Rightarrow>
     (case b64dec l p64 of None \<Rightarrow> True | Some payload \<Rightarrow> hmac l key payload = sig \<longrightarrow> payload \<in> texts))"

lemma decodeAccessCookie_signed:
  assumes "decodeAccessCookie l v key = Inr k" "unforged l key v S"
  shows "\<exists>p \<in> S. \<exists>e. splitN (CHR ''|'') 4 p = [ac_SessionID k, ac_UserSlug k, ac_AuthMethod k, e] \<and> parseInt64 e = Some (ac_Exp k)"
  using assms by (auto simp: decodeAccessCookie_def unforged_def split: option.splits if_splits list.splits prod.splits) blast

lemma VerifyAccess_InrD:
  assumes "VerifyAccess l c now (Some v) s = (Inr p, s')"
  obtains k row where "decodeAccessCookie l v (Key c) = Inr k" "unix now < ac_Exp k"
    "map_of (auth_sessions (db s)) (ac_SessionID k) = Some row" "db s' = db s"
    "p = \<lparr>sd_SessionID = ac_SessionID k, sd_UserSlug = ac_UserSlug k, sd_AuthMethod = ac_AuthMethod k\<rparr>"
proof -
  from assms obtain k where k: "decodeAccessCookie l v (Key c) = Inr k" "unix now < ac_Exp k"
    by (auto simp: VerifyAccess_def throwA_def split: sum.splits if_splits)
  obtain q s1 where q: "sql (dbQuery (\<lambda>d. map_of (auth_sessions d) (ac_SessionID k))) s = (q, s1)" by fastforce
  from sql_dbQuery_out [OF q] assms k q
  have "db s' = db s \<and> (\<exists>row. map_of (auth_sessions (db s)) (ac_SessionID k) = Some row) \<and>
      p = \<lparr>sd_SessionID = ac_SessionID k, sd_UserSlug = ac_UserSlug k, sd_AuthMethod = ac_AuthMethod k\<rparr>"
    by (auto simp: VerifyAccess_def throwA_def retA_def bindA_def split: option.splits)
  with k that show thesis by blast
qed

lemma sessionOwner:
  assumes "sessReach l c g s" "0 \<le> RefreshTTL c" "unforged l (Key c) v (signed g)"
    and "VerifyAccess l c now (Some v) s = (Inr p, s')"
  shows "\<exists>t0 row. wasIssued g (sd_SessionID p) (sd_UserSlug p) (sd_AuthMethod p) t0 \<and>
      unix now < unix (t0 + RefreshTTL c + AccessTTL c) \<and>
      map_of (auth_sessions (db s)) (sd_SessionID p) = Some row \<and>
      ss_user_slug row = sd_UserSlug p \<and> ss_auth_method row = sd_AuthMethod p"
proof -
  from sessInv_reach [OF assms(1,2)] have I: "rowsInv c g (map_of (auth_sessions (db s)))" "signedInv c g" "idsInv g"
    by (simp_all add: sessInv_def Let_def)
  from assms(4) obtain k row where k: "decodeAccessCookie l v (Key c) = Inr k" "unix now < ac_Exp k"
    and row: "map_of (auth_sessions (db s)) (ac_SessionID k) = Some row"
    and p: "p = \<lparr>sd_SessionID = ac_SessionID k, sd_UserSlug = ac_UserSlug k, sd_AuthMethod = ac_AuthMethod k\<rparr>"
    by (rule VerifyAccess_InrD)
  from decodeAccessCookie_signed [OF k(1) assms(3)] obtain b e where b: "b \<in> signed g"
      "splitN (CHR ''|'') 4 b = [ac_SessionID k, ac_UserSlug k, ac_AuthMethod k, e]" "parseInt64 e = Some (ac_Exp k)" by blast
  from I(2) b(1) obtain k' t0 where k': "b = claimPayload k'" "CHR ''|'' \<notin> set (ac_SessionID k')"
      "wasIssued g (ac_SessionID k') (ac_UserSlug k') (ac_AuthMethod k') t0" "ac_Exp k' \<le> unix (t0 + RefreshTTL c + AccessTTL c)"
    unfolding signedInv_def by blast
  have "k' = k" using payload_determines_claim [OF k'(2), of "ac_SessionID k" "ac_UserSlug k" "ac_AuthMethod k" e "ac_Exp k"] b k'(1) by simp
  moreover from I(1) row obtain t1 where "wasIssued g (ac_SessionID k) (ss_user_slug row) (ss_auth_method row) t1"
    unfolding rowsInv_def by blast
  ultimately have "ss_user_slug row = ac_UserSlug k" "ss_auth_method row = ac_AuthMethod k"
    using k'(3) I(3) by (auto dest: wasIssued_unique)
  with \<open>k' = k\<close> k' k(2) row show ?thesis by (auto simp: p intro!: exI [of _ t0])
qed

text \<open>
  C11. Whoever passes \<open>VerifyAccess\<close>, after any history of logins, refreshes, logouts and replays by any
  clients and with database failures anywhere, is the user of a session that was issued to that user by
  that method, that has not been logged out or revoked since, and whose issue is less than the refresh
  lifetime and one access lifetime ago; provided the cookie is not a forged signature.
\<close>

theorem session_authentic:
  assumes "sessReach l c g s" "0 \<le> RefreshTTL c" "unforged l (Key c) v (signed g)"
    and "VerifyAccess l c now (Some v) s = (Inr p, s')"
  shows "\<exists>t0 row. wasIssued g (sd_SessionID p) (sd_UserSlug p) (sd_AuthMethod p) t0 \<and>
      unix now < unix (t0 + RefreshTTL c + AccessTTL c) \<and>
      map_of (auth_sessions (db s)) (sd_SessionID p) = Some row \<and>
      ss_user_slug row = sd_UserSlug p \<and> ss_auth_method row = sd_AuthMethod p"
  using assms by (rule sessionOwner)

definition sessionGone :: "string \<Rightarrow> ghost \<times> (auth_db, 'm, 'z) store_scheme \<Rightarrow> bool" where
  "sessionGone sid = (\<lambda>(g, s). sid \<in> fst ` set (issued g) \<and> map_of (auth_sessions (db s)) sid = None)"

lemma map_le_NoneD: "m' \<subseteq>\<^sub>m m \<Longrightarrow> m k = None \<Longrightarrow> m' k = None"
  by (cases "m' k") (auto simp: map_le_def dom_def dest: spec [of _ k])

lemma sessionGone_step: "sessStep l c x y \<Longrightarrow> sessionGone sid x \<Longrightarrow> sessionGone sid y"
proof (induction rule: sessStep.induct)
  case (issue now sid' secret i s d cookies s' g)
  then have "sid' \<noteq> sid" by (auto simp: freshID_def sessionGone_def)
  with issue Issue_out [OF issue.hyps(1)] show ?case by (auto simp: sessionGone_def ghostIssue_def)
next
  case (issue_failed now sid' secret i s e s' g)
  then show ?case using Issue_out [OF issue_failed.hyps] by (auto simp: sessionGone_def)
next
  case (refresh now newSecret v s d cookies s' g sid' old)
  then show ?case using Refresh_out [OF refresh.hyps(1)]
    by (auto simp: sessionGone_def ghostRefresh_def AList.map_of_map_entry)
qed (auto simp: sessionGone_def dest!: Refresh_failed_submap Logout_submap dest: map_le_NoneD)

lemma sessionGone_steps: "(sessStep l c)\<^sup>*\<^sup>* x y \<Longrightarrow> sessionGone sid x \<Longrightarrow> sessionGone sid y"
  by (induction rule: rtranclp_induct) (auto intro: sessionGone_step)

lemma sessionGone_unusable:
  assumes "sessionGone sid (g, s)"
  shows "VerifyAccess l c t ck s = (Inr p, s') \<Longrightarrow> sd_SessionID p \<noteq> sid"
    and "Sessions_Refresh l c t new ck s = (Inr (d, cookies), s') \<Longrightarrow> sd_SessionID d \<noteq> sid"
proof -
  assume "VerifyAccess l c t ck s = (Inr p, s')"
  moreover from this obtain v where "ck = Some v" by (cases ck) (auto simp: VerifyAccess_def throwA_def)
  ultimately show "sd_SessionID p \<noteq> sid" using assms by (auto simp: sessionGone_def elim!: VerifyAccess_InrD)
next
  assume "Sessions_Refresh l c t new ck s = (Inr (d, cookies), s')"
  from Refresh_out [OF this] assms show "sd_SessionID d \<noteq> sid" by (auto simp: sessionGone_def)
qed

lemma Refresh_mismatch_calm:
  assumes "faults s = []" "decodeRefreshCookie v = Inr (sid, secret)" "map_of (auth_sessions (db s)) sid = Some row"
    and "unix now < ss_ttl_at row" "unix now < ss_idle_at row" "sha256 l secret \<noteq> ss_refresh_hash row"
  shows "fst (Sessions_Refresh l c now newSecret (Some v) s) = Inl ErrSessionReplay"
  using assms by (simp add: Sessions_Refresh_def txA_def refreshTx_def bindA_def sql_def retA_def throwA_def)

text \<open>
  C12. A refresh secret works once. Whoever presents, after any history, a secret that a refresh has
  already replaced is refused; when the database works and the session has not run out, the refusal is
  the detected replay, and from then on, whatever happens, neither a refresh nor an access cookie of
  this session is accepted, the holder of the newer secret included.
\<close>

theorem refresh_replay_revokes:
  assumes "sessReach l c g s" "0 \<le> RefreshTTL c" "(sid, sha256 l secret) \<in> spent g"
    and "decodeRefreshCookie v = Inr (sid, secret)" "Sessions_Refresh l c now newSecret (Some v) s = (r, s')"
  shows "(\<exists>e. r = Inl e) \<and>
    (faults s = [] \<longrightarrow> (\<forall>row. map_of (auth_sessions (db s)) sid = Some row \<longrightarrow> unix now < ss_ttl_at row \<longrightarrow> unix now < ss_idle_at row \<longrightarrow>
       r = Inl ErrSessionReplay)) \<and>
    (r = Inl ErrSessionReplay \<longrightarrow> (\<forall>g2 s2. (sessStep l c)\<^sup>*\<^sup>* (g, s') (g2, s2) \<longrightarrow>
       (\<forall>t ck p s3. VerifyAccess l c t ck s2 = (Inr p, s3) \<longrightarrow> sd_SessionID p \<noteq> sid) \<and>
       (\<forall>t new ck d cookies s3. Sessions_Refresh l c t new ck s2 = (Inr (d, cookies), s3) \<longrightarrow> sd_SessionID d \<noteq> sid)))"
proof -
  from sessInv_reach [OF assms(1,2)] assms(3) have iss: "sid \<in> fst ` set (issued g)"
    and hash: "\<And>row. map_of (auth_sessions (db s)) sid = Some row \<Longrightarrow> sha256 l secret \<noteq> ss_refresh_hash row"
    by (auto simp: sessInv_def Let_def spentInv_def)
  have "\<exists>e. r = Inl e" using Refresh_out [OF assms(5)] assms(4) hash by auto
  moreover have "r = Inl ErrSessionReplay"
    if "faults s = []" "map_of (auth_sessions (db s)) sid = Some row" "unix now < ss_ttl_at row" "unix now < ss_idle_at row" for row
    using Refresh_mismatch_calm [OF that(1) assms(4) that(2-4) hash [OF that(2)]] assms(5) by (metis fst_conv)
  moreover have "sessionGone sid (g2, s2)" if "r = Inl ErrSessionReplay" "(sessStep l c)\<^sup>*\<^sup>* (g, s') (g2, s2)" for g2 s2
  proof (rule sessionGone_steps [OF that(2)])
    show "sessionGone sid (g, s')"
      using Refresh_out [OF assms(5)] that(1) iss assms(4) by (auto simp: sessionGone_def AList.delete_conv')
  qed
  ultimately show ?thesis
    by (intro conjI impI allI; (elim sessionGone_unusable [rotated])?; simp)
qed

section \<open>A session in use\<close>

text \<open>The access cookie that \<open>Issue\<close> wrote is accepted until it runs out.\<close>

lemma issued_session_works:
  assumes "lib_ok l" "Sessions_Issue l c now sid secret i s = (Inr (d, access, refresh), s')" "faults s' = []"
    and "plainClaim (claimFor c d now)" "unix later < deadline now (AccessTTL c)"
  shows "VerifyAccess l c later (Some access) s' = (Inr d, s')"
proof -
  from Issue_out [OF assms(2)] have d: "d = \<lparr>sd_SessionID = sid, sd_UserSlug = in_UserSlug i, sd_AuthMethod = in_AuthMethod i\<rparr>"
    and none: "map_of (auth_sessions (db s)) sid = None"
    and db: "\<exists>row. auth_sessions (db s') = auth_sessions (db s) @ [(sid, row)]"
    and "access = encodeAccessCookie l (claimFor c d now) (Key c)" by (auto simp: writeCookies_def claimFor_def)
  then have "decodeAccessCookie l access (Key c) = Inr (claimFor c d now)"
    using access_cookie_roundtrip [OF assms(1,4)] by simp
  then show ?thesis using none db assms(3,5)
    by (auto simp: VerifyAccess_def claimFor_def d bindA_def retA_def throwA_def sql_def map_add_def split: option.splits)
qed

lemma unforged_written:
  assumes "lib_ok l" shows "unforged l key (encodeAccessCookie l k key) {claimPayload k}"
  using assms by (simp add: unforged_def encodeAccessCookie_def lib_ok_def)

definition exCfg :: SessionConfig where
  "exCfg = \<lparr>Key = ''k'', AccessTTL = 900000000000, RefreshTTL = 2592000000000000, RefreshIdle = 1209600000000000\<rparr>"

definition exLogin :: IssueInput where
  "exLogin = \<lparr>in_UserSlug = ''fdatoo'', in_AuthMethod = ''password'', in_RemoteIP = ''::1'', in_UserAgent = ''ua''\<rparr>"

definition exData :: SessionData where
  "exData = \<lparr>sd_SessionID = ''S1'', sd_UserSlug = ''fdatoo'', sd_AuthMethod = ''password''\<rparr>"

definition exRow :: "string \<Rightarrow> int \<Rightarrow> session_row" where
  "exRow secret idle = \<lparr>ss_user_slug = ''fdatoo'', ss_auth_method = ''password'', ss_refresh_hash = secret,
     ss_issued_at = 0, ss_ttl_at = 2592000, ss_idle_at = idle, ss_user_agent = ''ua'', ss_remote_ip = ''::1''\<rparr>"

definition exStore :: "string \<Rightarrow> int \<Rightarrow> (auth_db, unit) store" where
  "exStore secret idle = storeOf (emptyAuth\<lparr>auth_sessions := [(''S1'', exRow secret idle)]\<rparr>)"

lemma ex_issue:
  "Sessions_Issue exampleLib exCfg 0 ''S1'' ''x'' exLogin (storeOf emptyAuth) =
     (Inr (exData, writeCookies exampleLib exCfg ''S1'' ''fdatoo'' ''password'' ''x'' 0), exStore ''x'' 1209600)"
  by (simp add: Sessions_Issue_def exLogin_def exData_def exStore_def exRow_def storeOf_def emptyAuth_def dbTry_def bindS_def
      bindA_def sql_def retA_def insertNew_def exampleLib_def deadline_def unix_def exCfg_def)

lemma ex_refresh:
  "Sessions_Refresh exampleLib exCfg 1000000000 ''y'' (Some ''S1.x'') (exStore ''x'' 1209600) =
     (Inr (exData, writeCookies exampleLib exCfg ''S1'' ''fdatoo'' ''password'' ''y'' 1000000000), exStore ''y'' 1209601)"
  by (simp add: Sessions_Refresh_def decodeRefreshCookie_def cutAt_def exData_def exStore_def exRow_def storeOf_def emptyAuth_def
      txA_def refreshTx_def bindA_def sql_def retA_def exampleLib_def deadline_def unix_def exCfg_def)

definition exGhost :: ghost where
  "exGhost = ghostIssue exampleLib exCfg 0 ''x'' exLogin exData noSessions"

lemma ex_reach_issue: "sessReach exampleLib exCfg exGhost (exStore ''x'' 1209600)"
proof -
  have "sessStep exampleLib exCfg (noSessions, storeOf emptyAuth) (exGhost, exStore ''x'' 1209600)"
    unfolding exGhost_def using ex_issue by (rule sessStep.issue) (simp_all add: freshID_def noSessions_def)
  then show ?thesis unfolding sessReach_def by (auto simp: emptyAuth_def intro!: exI [of _ "storeOf emptyAuth"])
qed

lemma ex_reach_refresh:
  "sessReach exampleLib exCfg (ghostRefresh exampleLib exCfg 1000000000 ''y'' ''x'' exData exGhost) (exStore ''y'' 1209601)"
proof -
  have "decodeRefreshCookie ''S1.x'' = Inr (''S1'', ''x'')" by (simp add: decodeRefreshCookie_def cutAt_def)
  then have "sessStep exampleLib exCfg (exGhost, exStore ''x'' 1209600)
      (ghostRefresh exampleLib exCfg 1000000000 ''y'' ''x'' exData exGhost, exStore ''y'' 1209601)"
    by (rule sessStep.refresh [OF ex_refresh, rotated]) (simp add: exGhost_def ghostIssue_def noSessions_def exampleLib_def)
  with ex_reach_issue show ?thesis unfolding sessReach_def by (meson rtranclp.rtrancl_into_rtrancl)
qed

theorem session_authentic_witness:
  "\<exists>t0 row. wasIssued exGhost ''S1'' ''fdatoo'' ''password'' t0 \<and> unix 1000000000 < unix (t0 + RefreshTTL exCfg + AccessTTL exCfg) \<and>
     map_of (auth_sessions (db (exStore ''x'' 1209600))) ''S1'' = Some row \<and> ss_user_slug row = ''fdatoo'' \<and> ss_auth_method row = ''password''"
proof -
  let ?v = "encodeAccessCookie exampleLib (claimFor exCfg exData 0) (Key exCfg)"
  have "plainClaim (claimFor exCfg exData 0)"
    by (simp add: plainClaim_def claimFor_def exData_def exCfg_def deadline_def unix_def in_int64_def)
  moreover have w: "writeCookies exampleLib exCfg ''S1'' ''fdatoo'' ''password'' ''x'' 0 = (?v, ''S1.x'')"
    by (simp add: writeCookies_def claimFor_def exData_def encodeRefreshCookie_def)
  ultimately have "VerifyAccess exampleLib exCfg 1000000000 (Some ?v) (exStore ''x'' 1209600) = (Inr exData, exStore ''x'' 1209600)"
    by (intro issued_session_works [OF exampleLib_ok ex_issue [unfolded w]])
      (simp_all add: exStore_def deadline_def unix_def exCfg_def)
  moreover have "unforged exampleLib (Key exCfg) ?v (signed exGhost)"
    using unforged_written [OF exampleLib_ok] by (simp add: exGhost_def ghostIssue_def noSessions_def)
  ultimately show ?thesis
    using session_authentic [OF ex_reach_issue] by (fastforce simp: exData_def exCfg_def)
qed

theorem refresh_replay_revokes_witness:
  "fst (Sessions_Refresh exampleLib exCfg 2000000000 ''z'' (Some ''S1.x'') (exStore ''y'' 1209601)) = Inl ErrSessionReplay"
proof -
  let ?g = "ghostRefresh exampleLib exCfg 1000000000 ''y'' ''x'' exData exGhost"
  obtain r s' where run: "Sessions_Refresh exampleLib exCfg 2000000000 ''z'' (Some ''S1.x'') (exStore ''y'' 1209601) = (r, s')" by fastforce
  have "(''S1'', sha256 exampleLib ''x'') \<in> spent ?g" by (simp add: ghostRefresh_def exData_def)
  moreover have "decodeRefreshCookie ''S1.x'' = Inr (''S1'', ''x'')" by (simp add: decodeRefreshCookie_def cutAt_def)
  ultimately have "r = Inl ErrSessionReplay"
    using refresh_replay_revokes [OF ex_reach_refresh _ _ _ run] by (auto simp: exCfg_def exStore_def exRow_def unix_def)
  with run show ?thesis by simp
qed

end
