(* ===== verification/Auth_Credentials.thy ===== *)
theory Auth_Credentials
  imports Auth_Store
begin

text \<open>
  API tokens and enrollment tokens over their whole life: what a presented token is worth after any history of
  issues, revocations, redemptions and sweeps with database failures anywhere.
\<close>

section \<open>API tokens\<close>

text \<open>
  Beside the store: what each token was issued for, with its secret and time, and the tokens revoked.
  Token ids are ulids, fresh, not empty and without an underscore. The other stores leave the tokens alone.
\<close>

record tokenLog =
  tl_issued :: "(string \<times> bytes \<times> IssueTokenInput \<times> gotime) list"
  tl_revoked :: "string set"

inductive tokenStep ::
  "lib \<Rightarrow> tokenLog \<times> (auth_db, 'm, 'z) store_scheme \<Rightarrow> tokenLog \<times> (auth_db, 'm, 'z) store_scheme \<Rightarrow> bool" for l where
  issue: "Tokens_Issue l now tokenID secret i s = (Inr r, s') \<Longrightarrow> tokenID \<notin> fst ` set (tl_issued g) \<Longrightarrow> CHR ''_'' \<notin> set tokenID \<Longrightarrow> tokenID \<noteq> []
    \<Longrightarrow> tokenStep l (g, s) (g\<lparr>tl_issued := tl_issued g @ [(tokenID, secret, i, now)]\<rparr>, s')"
| issue_failed: "Tokens_Issue l now tokenID secret i s = (Inl e, s') \<Longrightarrow> tokenStep l (g, s) (g, s')"
| revoke: "Tokens_Revoke now tokenID s = (Inr r, s') 
    \<Longrightarrow> tokenStep l (g, s) (g\<lparr>tl_revoked := tl_revoked g \<union> ({tokenID} \<inter> fst ` set (tl_issued g))\<rparr>, s')"
| revoke_failed: "Tokens_Revoke now tokenID s = (Inl e, s') \<Longrightarrow> tokenStep l (g, s) (g, s')"
| touch: "TouchLastUsed now tokenID s = (r, s') \<Longrightarrow> tokenStep l (g, s) (g, s')"
| other: "auth_tokens (db s') = auth_tokens (db s) \<Longrightarrow> tokenStep l (g, s) (g, s')"

definition tokenReach :: "lib \<Rightarrow> tokenLog \<Rightarrow> (auth_db, 'm, 'z) store_scheme \<Rightarrow> bool" where
  "tokenReach l g s \<longleftrightarrow> (\<exists>s0. auth_tokens (db s0) = [] \<and> (tokenStep l)\<^sup>*\<^sup>* (\<lparr>tl_issued = [], tl_revoked = {}\<rparr>, s0) (g, s))"

definition expiryOf :: "IssueTokenInput \<Rightarrow> gotime \<Rightarrow> int option" where
  "expiryOf i t0 = (if it_TTL i \<noteq> 0 then Some (unix (t0 + it_TTL i)) else None)"

definition tokenRowOf :: "lib \<Rightarrow> bytes \<times> IssueTokenInput \<times> gotime \<Rightarrow> bool \<Rightarrow> token_row \<Rightarrow> bool" where
  "tokenRowOf l = (\<lambda>(secret, i, t0) revoked t. tk_user_slug t = it_UserSlug i \<and> tk_hash t = sha256 l secret \<and> tk_scope t = it_Scope i \<and>
     tk_label t = it_Label i \<and> tk_issued_by t = it_IssuedBy i \<and> tk_expires_at t = expiryOf i t0 \<and> (tk_revoked_at t \<noteq> None) = revoked)"

text \<open>The table holds the tokens issued and no other.\<close>

definition tokenInv :: "lib \<Rightarrow> tokenLog \<times> (auth_db, 'm, 'z) store_scheme \<Rightarrow> bool" where
  "tokenInv l = (\<lambda>(g, s). distinct (map fst (tl_issued g)) \<and> (\<forall>k \<in> fst ` set (tl_issued g). CHR ''_'' \<notin> set k \<and> k \<noteq> []) \<and>
     tl_revoked g \<subseteq> fst ` set (tl_issued g) \<and>
     (\<forall>k. rel_option (\<lambda>x. tokenRowOf l x (k \<in> tl_revoked g)) (map_of (tl_issued g) k) (map_of (auth_tokens (db s)) k)))"

definition newTokenRow :: "lib \<Rightarrow> gotime \<Rightarrow> bytes \<Rightarrow> IssueTokenInput \<Rightarrow> token_row" where
  "newTokenRow l now secret i = \<lparr>tk_user_slug = it_UserSlug i, tk_hash = sha256 l secret, tk_scope = it_Scope i, tk_label = it_Label i,
     tk_issued_at = unix now, tk_issued_by = it_IssuedBy i, tk_expires_at = expiryOf i now, tk_revoked_at = None, tk_last_used_at = None\<rparr>"

lemma Tokens_Issue_out:
  assumes "Tokens_Issue l now tokenID secret i s = (r, s')"
  shows "(\<exists>e. r = Inl e \<and> db s' = db s) \<or>
    (r = Inr (tokenPlaintext l tokenID secret, tokenID) \<and> map_of (auth_tokens (db s)) tokenID = None \<and>
     db s' = (db s)\<lparr>auth_tokens := auth_tokens (db s) @ [(tokenID, newTokenRow l now secret i)]\<rparr>)"
  using assms unfolding Tokens_Issue_def bindA_def Let_def expiryOf_def [symmetric] newTokenRow_def [symmetric]
  by (auto simp: retA_def insertNew_def split: prod.splits sum.splits if_splits dest!: sql_dbTry_out)

lemma tokenInv_cong: "tokenInv l (g, s) \<Longrightarrow> auth_tokens (db s') = auth_tokens (db s) \<Longrightarrow> tokenInv l (g, s')"
  by (simp add: tokenInv_def)

lemma tokenInv_map_entry:
  assumes inv: "tokenInv l (g, s)" and db: "auth_tokens (db s') = AList.map_entry tokenID f (auth_tokens (db s))"
    and sub: "tl_revoked g' \<subseteq> fst ` set (tl_issued g)" "tl_issued g' = tl_issued g"
    and f: "\<And>x t. tokenRowOf l x (tokenID \<in> tl_revoked g) t \<Longrightarrow> tokenID \<in> fst ` set (tl_issued g) \<Longrightarrow> tokenRowOf l x (tokenID \<in> tl_revoked g') (f t)"
    and rest: "\<And>k. k \<noteq> tokenID \<Longrightarrow> k \<in> tl_revoked g' \<longleftrightarrow> k \<in> tl_revoked g"
  shows "tokenInv l (g', s')"
proof -
  have "rel_option (\<lambda>x. tokenRowOf l x (k \<in> tl_revoked g')) (map_of (tl_issued g) k) (map_of (auth_tokens (db s')) k)" for k
  proof -
    have r: "rel_option (\<lambda>x. tokenRowOf l x (k \<in> tl_revoked g)) (map_of (tl_issued g) k) (map_of (auth_tokens (db s)) k)"
      using inv by (simp add: tokenInv_def)
    show ?thesis
    proof (cases "k = tokenID")
      case True
      have "tokenID \<in> fst ` set (tl_issued g)" if "map_of (tl_issued g) tokenID = Some x" for x
        using that by (metis image_eqI fst_conv map_of_SomeD)
      with r f True show ?thesis by (auto simp: db AList.map_of_map_entry elim!: option.rel_cases)
    next
      case False
      with r rest [OF False] show ?thesis by (simp add: db AList.map_of_map_entry)
    qed
  qed
  with inv sub show ?thesis by (simp add: tokenInv_def)
qed

lemma tokenInv_step: "tokenStep l x y \<Longrightarrow> tokenInv l x \<Longrightarrow> tokenInv l y"
proof (induction rule: tokenStep.induct)
  case (issue now tokenID secret i s r s' g)
  let ?t = "newTokenRow l now secret i"
  from Tokens_Issue_out [OF issue.hyps(1)] have t: "tokenRowOf l (secret, i, now) False ?t"
      "auth_tokens (db s') = auth_tokens (db s) @ [(tokenID, ?t)]" "map_of (auth_tokens (db s)) tokenID = None" by (auto simp: tokenRowOf_def newTokenRow_def)
  have n: "map_of (tl_issued g) tokenID = None" "tokenID \<notin> tl_revoked g"
    using issue by (auto simp: map_of_eq_None_iff tokenInv_def)
  have m: "map_of (tl_issued g @ [(tokenID, secret, i, now)]) = (map_of (tl_issued g))(tokenID \<mapsto> (secret, i, now))"
    "map_of (auth_tokens (db s')) = (map_of (auth_tokens (db s)))(tokenID \<mapsto> ?t)"
    using n(1) t by (auto simp: map_add_def fun_eq_iff split: option.splits)
  show ?case using issue t(1) n(2) by (auto simp: tokenInv_def m simp del: map_of_append)
next
  case (revoke now tokenID s r s' g)
  then have "auth_tokens (db s') = AList.map_entry tokenID (\<lambda>t. if tk_revoked_at t = None then t\<lparr>tk_revoked_at := Some (unix now)\<rparr> else t) (auth_tokens (db s))"
    by (auto simp: Tokens_Revoke_def dest!: sql_dbExec_out)
  with revoke.prems show ?case
    by (rule tokenInv_map_entry) (use revoke.prems in \<open>auto simp: tokenInv_def tokenRowOf_def\<close>)
next
  case (touch now tokenID s r s' g)
  then consider "db s' = db s" | "auth_tokens (db s') = AList.map_entry tokenID (\<lambda>t. t\<lparr>tk_last_used_at := Some (unix now)\<rparr>) (auth_tokens (db s))"
    by (auto simp: TouchLastUsed_def dest!: sql_dbExec_out)
  then show ?case
  proof cases
    case 2
    with touch.prems show ?thesis
      by (rule tokenInv_map_entry) (use touch.prems in \<open>auto simp: tokenInv_def tokenRowOf_def\<close>)
  qed (use touch.prems in \<open>auto intro: tokenInv_cong\<close>)
next
  case (issue_failed now tokenID secret i s e s' g)
  then show ?case using Tokens_Issue_out [OF issue_failed.hyps] by (auto intro: tokenInv_cong)
next
  case (revoke_failed now tokenID s e s' g)
  then show ?case by (auto simp: Tokens_Revoke_def intro: tokenInv_cong dest!: sql_dbExec_out)
next
  case (other s' s g)
  then show ?case by (auto intro: tokenInv_cong)
qed

lemma tokenInv_reach: "tokenReach l g s \<Longrightarrow> tokenInv l (g, s)"
  unfolding tokenReach_def
proof (elim exE conjE)
  fix s0 assume s0: "auth_tokens (db s0) = []" and "(tokenStep l)\<^sup>*\<^sup>* (\<lparr>tl_issued = [], tl_revoked = {}\<rparr>, s0) (g, s)"
  from this(2) show ?thesis
  proof (induction rule: rtranclp_induct)
    case base
    show ?case by (simp add: tokenInv_def s0)
  qed (rule tokenInv_step)
qed

text \<open>A token that is accepted, whatever the state of the database connection.\<close>

lemma Tokens_Verify_InrD:
  assumes reach: "tokenReach l g s" and run: "Tokens_Verify l now p s = (Inr lk, s')"
  shows "db s' = db s \<and> (\<exists>tokenID secret i t0. map_of (tl_issued g) tokenID = Some (secret, i, t0) \<and> tokenID \<notin> tl_revoked g \<and>
    \<not> (it_TTL i \<noteq> 0 \<and> unix (t0 + it_TTL i) < unix now) \<and> tokenID \<noteq> [] \<and>
    lk = \<lparr>lk_TokenID = tokenID, lk_UserSlug = it_UserSlug i, lk_Label = it_Label i, lk_Scope = it_Scope i, lk_IssuedBy = it_IssuedBy i\<rparr>)"
proof -
  from run obtain k e secret' where parse: "splitN (CHR ''_'') 3 p = [''switchyard'', k, e]" "b32dec l e = Some secret'"
    by (auto simp: Tokens_Verify_def throwA_def split: list.splits if_splits option.splits)
  obtain q s1 where q: "sql (dbQuery (\<lambda>d. map_of (auth_tokens d) k)) s = (q, s1)" by fastforce
  from sql_dbQuery_out [OF q] run parse q obtain t where t: "db s' = db s" "map_of (auth_tokens (db s)) k = Some t" "tk_revoked_at t = None"
      "\<not> (case tk_expires_at t of None \<Rightarrow> False | Some x \<Rightarrow> x < unix now)"
      "lk = \<lparr>lk_TokenID = k, lk_UserSlug = tk_user_slug t, lk_Label = tk_label t, lk_Scope = tk_scope t, lk_IssuedBy = tk_issued_by t\<rparr>"
    by (auto simp: Tokens_Verify_def throwA_def retA_def bindA_def split: option.splits if_splits)
  from tokenInv_reach [OF reach] have "rel_option (\<lambda>x. tokenRowOf l x (k \<in> tl_revoked g)) (map_of (tl_issued g) k) (map_of (auth_tokens (db s)) k)"
    and ids: "\<forall>k \<in> fst ` set (tl_issued g). k \<noteq> []" by (auto simp: tokenInv_def)
  with t(2) obtain x where x: "map_of (tl_issued g) k = Some x" "tokenRowOf l x (k \<in> tl_revoked g) t" by (auto elim: option.rel_cases)
  then have "k \<noteq> []" using ids by (force dest: map_of_SomeD)
  with x t show ?thesis by (cases x) (auto simp: tokenRowOf_def expiryOf_def split: if_splits)
qed

lemma splitN_plaintext:
  "CHR ''_'' \<notin> set tokenID \<Longrightarrow> splitN (CHR ''_'') 3 (tokenPlaintext l tokenID secret) = [''switchyard'', tokenID, b32enc l secret]"
proof -
  assume id: "CHR ''_'' \<notin> set tokenID"
  have "tokenPlaintext l tokenID secret = ''switchyard'' @ CHR ''_'' # (tokenID @ CHR ''_'' # b32enc l secret)"
    by (simp add: tokenPlaintext_def)
  then have "cutAt (CHR ''_'') (tokenPlaintext l tokenID secret) = Some (''switchyard'', tokenID @ CHR ''_'' # b32enc l secret)"
    by (simp only:) (rule cutAt_append, simp)
  then show ?thesis using id by (simp add: numeral_3_eq_3)
qed

definition lookupOf :: "string \<Rightarrow> IssueTokenInput \<Rightarrow> TokenLookup" where
  "lookupOf tokenID i = \<lparr>lk_TokenID = tokenID, lk_UserSlug = it_UserSlug i, lk_Label = it_Label i, lk_Scope = it_Scope i, lk_IssuedBy = it_IssuedBy i\<rparr>"

definition tokenExpired :: "IssueTokenInput \<Rightarrow> gotime \<Rightarrow> gotime \<Rightarrow> bool" where
  "tokenExpired i t0 now \<longleftrightarrow> it_TTL i \<noteq> 0 \<and> unix (t0 + it_TTL i) < unix now"

text \<open>What a presented text that has the form of a token is worth.\<close>

lemma Tokens_Verify_parsed:
  assumes reach: "tokenReach l g s" and calm: "faults s = []"
    and parse: "splitN (CHR ''_'') 3 p = [''switchyard'', tokenID, e]" "b32dec l e = Some secret'"
  shows "fst (Tokens_Verify l now p s) =
    (case map_of (tl_issued g) tokenID of None \<Rightarrow> Inl ErrTokenInvalid
     | Some (secret, i, t0) \<Rightarrow>
         if tokenID \<in> tl_revoked g then Inl ErrTokenRevoked
         else if tokenExpired i t0 now then Inl ErrTokenExpired
         else if sha256 l secret' \<noteq> sha256 l secret then Inl ErrTokenInvalid
         else Inr (lookupOf tokenID i))"
proof -
  have "rel_option (\<lambda>x. tokenRowOf l x (tokenID \<in> tl_revoked g)) (map_of (tl_issued g) tokenID) (map_of (auth_tokens (db s)) tokenID)"
    using tokenInv_reach [OF reach] by (simp add: tokenInv_def)
  then show ?thesis
  proof (cases rule: option.rel_cases)
    case None
    then show ?thesis using calm parse by (simp add: Tokens_Verify_def bindA_def sql_def throwA_def)
  next
    case (Some x t)
    obtain secret i t0 where x: "x = (secret, i, t0)" by (cases x) auto
    with Some(3) have t: "tk_user_slug t = it_UserSlug i" "tk_hash t = sha256 l secret" "tk_scope t = it_Scope i" "tk_label t = it_Label i"
      "tk_issued_by t = it_IssuedBy i" "tk_expires_at t = expiryOf i t0" "(tk_revoked_at t \<noteq> None) = (tokenID \<in> tl_revoked g)"
      by (simp_all add: tokenRowOf_def)
    have e: "(case expiryOf i t0 of None \<Rightarrow> False | Some v \<Rightarrow> v < unix now) = tokenExpired i t0 now"
      by (simp add: expiryOf_def tokenExpired_def)
    show ?thesis using calm parse Some(1,2) x t(7)
      by (simp add: Tokens_Verify_def bindA_def sql_def throwA_def retA_def t(1-6) e lookupOf_def)
  qed
qed

text \<open>
  C13. An API token over its life, after any history of issues, revocations and uses with database
  failures anywhere: the text handed out for a token is accepted, for the user, label and scope it was
  issued for, exactly until it is revoked or its lifetime is over; and any other text that is accepted
  names an issued token that is neither revoked nor expired, and carries a secret with the same hash.
\<close>

theorem token_life:
  assumes "lib_ok l" "tokenReach l g s" "faults s = []"
  shows "map_of (tl_issued g) tokenID = Some (secret, i, t0) \<Longrightarrow>
      fst (Tokens_Verify l now (tokenPlaintext l tokenID secret) s) =
        (if tokenID \<in> tl_revoked g then Inl ErrTokenRevoked else if tokenExpired i t0 now then Inl ErrTokenExpired
         else Inr (lookupOf tokenID i)) \<and>
      (\<forall>p lk. fst (Tokens_Verify l now p s) = Inr lk \<longrightarrow>
        (\<exists>tokenID secret i t0 e secret'. map_of (tl_issued g) tokenID = Some (secret, i, t0) \<and> tokenID \<notin> tl_revoked g \<and> \<not> tokenExpired i t0 now \<and>
           lk = lookupOf tokenID i \<and> splitN (CHR ''_'') 3 p = [''switchyard'', tokenID, e] \<and> b32dec l e = Some secret' \<and>
           sha256 l secret' = sha256 l secret))"
proof (intro conjI allI impI)
  assume iss: "map_of (tl_issued g) tokenID = Some (secret, i, t0)"
  then have "CHR ''_'' \<notin> set tokenID"
    using tokenInv_reach [OF assms(2)] by (fastforce simp: tokenInv_def dest: map_of_SomeD)
  moreover have "b32dec l (b32enc l secret) = Some secret" using assms(1) by (simp add: lib_ok_def)
  ultimately show "fst (Tokens_Verify l now (tokenPlaintext l tokenID secret) s) =
      (if tokenID \<in> tl_revoked g then Inl ErrTokenRevoked else if tokenExpired i t0 now then Inl ErrTokenExpired else Inr (lookupOf tokenID i))"
    using Tokens_Verify_parsed [OF assms(2,3) splitN_plaintext] iss by simp
next
  fix p lk assume ok: "fst (Tokens_Verify l now p s) = Inr lk"
  then obtain k e secret' where p: "splitN (CHR ''_'') 3 p = [''switchyard'', k, e]" "b32dec l e = Some secret'"
    by (auto simp: Tokens_Verify_def throwA_def split: list.splits if_splits option.splits)
  from Tokens_Verify_parsed [OF assms(2,3) p, of now] ok show "\<exists>tokenID secret i t0 e secret'. map_of (tl_issued g) tokenID = Some (secret, i, t0) \<and>
      tokenID \<notin> tl_revoked g \<and> \<not> tokenExpired i t0 now \<and> lk = lookupOf tokenID i \<and> splitN (CHR ''_'') 3 p = [''switchyard'', tokenID, e] \<and>
      b32dec l e = Some secret' \<and> sha256 l secret' = sha256 l secret"
    using p by (auto split: option.splits if_splits)
qed

section \<open>Enrollment tokens\<close>

text \<open>
  Beside the store: what each token was minted for (by the hash of its secret) with its expiry, and the
  tokens redeemed. Secrets are random, so a new one has a new hash.
\<close>

record enrollLog =
  el_minted :: "(string \<times> string \<times> string \<times> int) list"
  el_used :: "string set"

inductive enrollStep ::
  "lib \<Rightarrow> enrollLog \<times> (auth_db, 'm, 'z) store_scheme \<Rightarrow> enrollLog \<times> (auth_db, 'm, 'z) store_scheme \<Rightarrow> bool" for l where
  mint: "Mint l now secret user intent ttl s = (Inr p, s') \<Longrightarrow> sha256 l secret \<notin> fst ` set (el_minted g)
    \<Longrightarrow> enrollStep l (g, s) (g\<lparr>el_minted := el_minted g @ [(sha256 l secret, user, intent, unix (now + ttl))]\<rparr>, s')"
| mint_failed: "Mint l now secret user intent ttl s = (Inl e, s') \<Longrightarrow> enrollStep l (g, s) (g, s')"
| redeem: "Redeem l now p s = (Inr r, s') \<Longrightarrow> b32dec l p = Some secret
    \<Longrightarrow> enrollStep l (g, s) (g\<lparr>el_used := insert (sha256 l secret) (el_used g)\<rparr>, s')"
| redeem_failed: "Redeem l now p s = (Inl e, s') \<Longrightarrow> enrollStep l (g, s) (g, s')"
| sweep: "Enrollment_Sweep cutoff s = (r, s') \<Longrightarrow> enrollStep l (g, s) (g, s')"
| other: "auth_enrollment_tokens (db s') = auth_enrollment_tokens (db s) \<Longrightarrow> enrollStep l (g, s) (g, s')"

definition enrollReach :: "lib \<Rightarrow> enrollLog \<Rightarrow> (auth_db, 'm, 'z) store_scheme \<Rightarrow> bool" where
  "enrollReach l g s \<longleftrightarrow> (\<exists>s0. auth_enrollment_tokens (db s0) = [] \<and> (enrollStep l)\<^sup>*\<^sup>* (\<lparr>el_minted = [], el_used = {}\<rparr>, s0) (g, s))"

definition enrollRows :: "enrollLog \<Rightarrow> (string \<Rightarrow> enrollment_row option) \<Rightarrow> bool" where
  "enrollRows g m \<longleftrightarrow> (\<forall>h t. m h = Some t \<longrightarrow> map_of (el_minted g) h = Some (et_user_slug t, et_intent t, et_expires_at t) \<and>
     (et_consumed_at t \<noteq> None) = (h \<in> el_used g))"

definition enrollInv :: "enrollLog \<times> (auth_db, 'm, 'z) store_scheme \<Rightarrow> bool" where
  "enrollInv = (\<lambda>(g, s). el_used g \<subseteq> fst ` set (el_minted g) \<and> distinct (map fst (auth_enrollment_tokens (db s))) \<and>
     enrollRows g (map_of (auth_enrollment_tokens (db s))))"

lemma Mint_out:
  assumes "Mint l now secret user intent ttl s = (r, s')"
  shows "(\<exists>e. r = Inl e \<and> db s' = db s) \<or>
    (r = Inr (b32enc l secret) \<and> map_of (auth_enrollment_tokens (db s)) (sha256 l secret) = None \<and>
     db s' = (db s)\<lparr>auth_enrollment_tokens := auth_enrollment_tokens (db s) @ [(sha256 l secret,
       \<lparr>et_user_slug = user, et_intent = intent, et_expires_at = unix (now + ttl), et_consumed_at = None\<rparr>)]\<rparr>)"
  using assms unfolding Mint_def bindA_def
  by (auto simp: retA_def throwA_def insertNew_def split: prod.splits sum.splits if_splits dest!: sql_dbTry_out)

lemma Redeem_out:
  assumes "Redeem l now p s = (r, s')"
  shows "(\<exists>e. r = Inl e \<and> db s' = db s) \<or>
    (\<exists>secret t. b32dec l p = Some secret \<and> map_of (auth_enrollment_tokens (db s)) (sha256 l secret) = Some t \<and>
      et_consumed_at t = None \<and> unix now \<le> et_expires_at t \<and> r = Inr (et_user_slug t, et_intent t) \<and>
      db s' = (db s)\<lparr>auth_enrollment_tokens := AList.map_entry (sha256 l secret)
        (\<lambda>t. t\<lparr>et_consumed_at := Some (unix now)\<rparr>) (auth_enrollment_tokens (db s))\<rparr>)"
proof (cases "b32dec l p")
  case None
  with assms show ?thesis by (auto simp: Redeem_def throwA_def)
next
  case (Some secret)
  have run: "txA (redeemTx now (sha256 l secret)) s = (r, s')" using assms Some by (simp add: Redeem_def)
  from txA_out [OF run] show ?thesis
  proof (elim disjE exE conjE)
    fix x a b assume a: "db a = db s" "redeemTx now (sha256 l secret) a = (Inr x, b)" "r = Inr x" "db s' = db b"
    obtain q a1 where q: "sql (dbQuery (\<lambda>d. map_of (auth_enrollment_tokens d) (sha256 l secret))) a = (q, a1)" by fastforce
    from sql_dbQuery_out [OF q] a(1,2) q obtain t where t: "map_of (auth_enrollment_tokens (db s)) (sha256 l secret) = Some t" "q = Inr (Some t)" "db a1 = db s"
      by (auto simp: redeemTx_def bindA_def throwA_def split: option.splits)
    have "et_consumed_at t = None \<and> unix now \<le> et_expires_at t"
      using a(2) q t(2) by (auto simp: redeemTx_def bindA_def throwA_def split: if_splits)
    moreover from this have "x = (et_user_slug t, et_intent t) \<and> db b = (db s)\<lparr>auth_enrollment_tokens := AList.map_entry (sha256 l secret)
        (\<lambda>t. t\<lparr>et_consumed_at := Some (unix now)\<rparr>) (auth_enrollment_tokens (db s))\<rparr>"
      using a(2) q t(2,3) by (auto simp: redeemTx_def bindA_def retA_def split: prod.splits sum.splits dest!: sql_dbExec_out)
    ultimately show ?thesis using a(3,4) t(1) Some by auto
  qed auto
qed

lemma enrollRows_used: "enrollRows g m \<Longrightarrow> m h = Some t \<Longrightarrow> h \<in> el_used g \<Longrightarrow> et_consumed_at t \<noteq> None"
  by (auto simp: enrollRows_def)

lemma enrollRows_le: "enrollRows g m \<Longrightarrow> m' \<subseteq>\<^sub>m m \<Longrightarrow> enrollRows g m'"
  unfolding enrollRows_def by (metis map_le_def domI)

lemma map_of_filter_le: "distinct (map fst xs) \<Longrightarrow> map_of (filter P xs) \<subseteq>\<^sub>m map_of xs"
  by (auto simp: map_le_def dom_def distinct_map_filter)

lemma enrollInv_step: "enrollStep l x y \<Longrightarrow> enrollInv x \<Longrightarrow> enrollInv y"
proof (induction rule: enrollStep.induct)
  case (mint now secret user intent ttl s p s' g)
  let ?t = "\<lparr>et_user_slug = user, et_intent = intent, et_expires_at = unix (now + ttl), et_consumed_at = None\<rparr>"
  from Mint_out [OF mint.hyps(1)] have db: "auth_enrollment_tokens (db s') = auth_enrollment_tokens (db s) @ [(sha256 l secret, ?t)]"
    and none: "map_of (auth_enrollment_tokens (db s)) (sha256 l secret) = None" by auto
  have unused: "sha256 l secret \<notin> el_used g" "map_of (el_minted g) (sha256 l secret) = None"
    using mint by (auto simp: enrollInv_def map_of_eq_None_iff)
  have m: "map_of (auth_enrollment_tokens (db s')) = (map_of (auth_enrollment_tokens (db s)))(sha256 l secret \<mapsto> ?t)"
    "map_of (el_minted g @ [(sha256 l secret, user, intent, unix (now + ttl))]) = (map_of (el_minted g))(sha256 l secret \<mapsto> (user, intent, unix (now + ttl)))"
    using none unused by (auto simp: db map_add_def fun_eq_iff split: option.splits)
  have "distinct (map fst (auth_enrollment_tokens (db s')))" using mint.prems none by (simp add: db enrollInv_def map_of_eq_None_iff)
  then show ?case using mint.prems unused(1) by (auto simp: enrollInv_def enrollRows_def m simp del: map_of_append)
next
  case (redeem now p s r s' secret g)
  from Redeem_out [OF redeem.hyps(1)] redeem.hyps(2) obtain t where t: "map_of (auth_enrollment_tokens (db s)) (sha256 l secret) = Some t"
      and db: "auth_enrollment_tokens (db s') = AList.map_entry (sha256 l secret) (\<lambda>t. t\<lparr>et_consumed_at := Some (unix now)\<rparr>) (auth_enrollment_tokens (db s))"
    by auto
  have minted: "sha256 l secret \<in> fst ` set (el_minted g)"
    using redeem.prems t by (force simp: enrollInv_def enrollRows_def dest!: map_of_SomeD)
  show ?case using redeem.prems minted t
    by (auto simp: enrollInv_def enrollRows_def db AList.map_of_map_entry AList.distinct_map_entry)
next
  case (sweep cutoff s r s' g)
  have inv: "enrollInv (g, s')" if "auth_enrollment_tokens (db s') = filter P (auth_enrollment_tokens (db s))" for P
    using sweep.prems by (auto simp: enrollInv_def that distinct_map_filter intro: enrollRows_le map_of_filter_le)
  from sweep.hyps show ?case unfolding Enrollment_Sweep_def
    by (auto dest!: sql_dbExec_out intro: inv inv [of "\<lambda>_. True"])
next
  case (mint_failed now secret user intent ttl s e s' g)
  then show ?case using Mint_out [OF mint_failed.hyps] by (auto simp: enrollInv_def)
next
  case (redeem_failed now p s e s' g)
  then show ?case using Redeem_out [OF redeem_failed.hyps] by (auto simp: enrollInv_def)
qed (auto simp: enrollInv_def)

lemma enrollInv_reach: "enrollReach l g s \<Longrightarrow> enrollInv (g, s)"
  unfolding enrollReach_def
proof (elim exE conjE)
  fix s0 assume s0: "auth_enrollment_tokens (db s0) = []" and "(enrollStep l)\<^sup>*\<^sup>* (\<lparr>el_minted = [], el_used = {}\<rparr>, s0) (g, s)"
  from this(2) show ?thesis
  proof (induction rule: rtranclp_induct)
    case base
    show ?case by (simp add: enrollInv_def enrollRows_def s0)
  qed (rule enrollInv_step)
qed

lemma enrollStep_used: "(enrollStep l)\<^sup>*\<^sup>* x y \<Longrightarrow> el_used (fst x) \<subseteq> el_used (fst y)"
proof (induction rule: rtranclp_induct)
  case (step y z)
  from step(2) have "el_used (fst y) \<subseteq> el_used (fst z)" by cases auto
  with step show ?case by blast
qed simp

text \<open>
  C14. An enrollment token works once: a redemption that succeeds, after any history of mints,
  redemptions and sweeps with database failures anywhere, gives the user and the intent the token was
  minted for, before its expiry and for the first time; and in every state reached from there no text
  with the same secret is redeemed again.
\<close>

theorem enrollment_once:
  assumes "enrollReach l g s" "Redeem l now p s = (Inr (user, intent), s')"
  shows "\<exists>secret expiry. b32dec l p = Some secret \<and> map_of (el_minted g) (sha256 l secret) = Some (user, intent, expiry) \<and>
      unix now \<le> expiry \<and> sha256 l secret \<notin> el_used g \<and>
      (\<forall>g2 s2. (enrollStep l)\<^sup>*\<^sup>* (g\<lparr>el_used := insert (sha256 l secret) (el_used g)\<rparr>, s') (g2, s2) \<longrightarrow>
        (\<forall>t p2 secret2 r s3. b32dec l p2 = Some secret2 \<longrightarrow> sha256 l secret2 = sha256 l secret \<longrightarrow>
          Redeem l t p2 s2 = (r, s3) \<longrightarrow> (\<exists>e. r = Inl e)))"
proof -
  from Redeem_out [OF assms(2)] obtain secret t where t: "b32dec l p = Some secret"
      "map_of (auth_enrollment_tokens (db s)) (sha256 l secret) = Some t" "et_consumed_at t = None" "unix now \<le> et_expires_at t"
      "user = et_user_slug t" "intent = et_intent t" by auto
  let ?g = "g\<lparr>el_used := insert (sha256 l secret) (el_used g)\<rparr>"
  have rows: "map_of (el_minted g) (sha256 l secret) = Some (user, intent, et_expires_at t)" "sha256 l secret \<notin> el_used g"
    using enrollInv_reach [OF assms(1)] t unfolding enrollInv_def enrollRows_def by force+
  have step: "enrollStep l (g, s) (?g, s')" using assms(2) t(1) by (rule enrollStep.redeem)
  have "\<exists>e. r = Inl e" if later: "(enrollStep l)\<^sup>*\<^sup>* (?g, s') (g2, s2)"
    and again: "b32dec l p2 = Some secret2" "sha256 l secret2 = sha256 l secret" "Redeem l t2 p2 s2 = (r, s3)" for g2 s2 t2 p2 secret2 r s3
  proof -
    have "enrollReach l g2 s2" using assms(1) step later unfolding enrollReach_def
      by (meson rtranclp.rtrancl_into_rtrancl rtranclp_trans)
    then have "enrollRows g2 (map_of (auth_enrollment_tokens (db s2)))" using enrollInv_reach by (force simp: enrollInv_def)
    moreover have "sha256 l secret \<in> el_used g2" using enrollStep_used [OF later] by simp
    ultimately show ?thesis using Redeem_out [OF again(3)] again(1,2) by (auto dest: enrollRows_used)
  qed
  with t rows show ?thesis by blast
qed

section \<open>Examples\<close>

definition exTokenInput :: IssueTokenInput where
  "exTokenInput = \<lparr>it_UserSlug = ''fdatoo'', it_Label = ''cli'', it_IssuedBy = ''user:fdatoo'', it_Scope = [], it_TTL = 60000000000\<rparr>"

definition exTokenStore :: "(auth_db, unit) store" where
  "exTokenStore = storeOf (emptyAuth\<lparr>auth_tokens := [(''T1'', newTokenRow exampleLib 0 ''s'' exTokenInput)]\<rparr>)"

lemma ex_token_reach: "tokenReach exampleLib \<lparr>tl_issued = [(''T1'', ''s'', exTokenInput, 0)], tl_revoked = {}\<rparr> exTokenStore"
proof -
  have "Tokens_Issue exampleLib 0 ''T1'' ''s'' exTokenInput (storeOf emptyAuth) = (Inr (tokenPlaintext exampleLib ''T1'' ''s'', ''T1''), exTokenStore)"
    by (simp add: Tokens_Issue_def exTokenStore_def storeOf_def emptyAuth_def dbTry_def bindS_def bindA_def sql_def retA_def insertNew_def
        newTokenRow_def expiryOf_def)
  then have "tokenStep exampleLib (\<lparr>tl_issued = [], tl_revoked = {}\<rparr>, storeOf emptyAuth)
      (\<lparr>tl_issued = [], tl_revoked = {}\<rparr>\<lparr>tl_issued := tl_issued \<lparr>tl_issued = [], tl_revoked = {}\<rparr> @ [(''T1'', ''s'', exTokenInput, 0)]\<rparr>, exTokenStore)"
    by (rule tokenStep.issue) simp_all
  then show ?thesis unfolding tokenReach_def by (auto simp: emptyAuth_def intro!: exI [of _ "storeOf emptyAuth"])
qed

theorem token_life_witness:
  "fst (Tokens_Verify exampleLib 1000000000 (tokenPlaintext exampleLib ''T1'' ''s'') exTokenStore) = Inr (lookupOf ''T1'' exTokenInput)"
  using token_life [OF exampleLib_ok ex_token_reach, of "''T1''" "''s''" exTokenInput 0 1000000000]
  by (simp add: exTokenStore_def tokenExpired_def exTokenInput_def unix_def)

definition exEnrollStore :: "(auth_db, unit) store" where
  "exEnrollStore = storeOf (emptyAuth\<lparr>auth_enrollment_tokens := [(''s'',
     \<lparr>et_user_slug = ''milo'', et_intent = ''set_password'', et_expires_at = 60, et_consumed_at = None\<rparr>)]\<rparr>)"

lemma ex_enroll_reach: "enrollReach exampleLib \<lparr>el_minted = [(''s'', ''milo'', ''set_password'', 60)], el_used = {}\<rparr> exEnrollStore"
proof -
  let ?g = "\<lparr>el_minted = [], el_used = {}\<rparr>"
  have "Mint exampleLib 0 ''s'' ''milo'' ''set_password'' 60000000000 (storeOf emptyAuth) = (Inr (b32enc exampleLib ''s''), exEnrollStore)"
    by (simp add: Mint_def exEnrollStore_def storeOf_def emptyAuth_def dbTry_def bindS_def bindA_def sql_def retA_def insertNew_def
        unix_def exampleLib_def IntentSetPassword_def)
  then have "enrollStep exampleLib (?g, storeOf emptyAuth)
      (?g\<lparr>el_minted := el_minted ?g @ [(sha256 exampleLib ''s'', ''milo'', ''set_password'', unix (0 + 60000000000))]\<rparr>, exEnrollStore)"
    by (rule enrollStep.mint) simp
  then show ?thesis unfolding enrollReach_def
    by (auto simp: emptyAuth_def exampleLib_def unix_def intro!: exI [of _ "storeOf emptyAuth"])
qed

lemma ex_redeem:
  "Redeem exampleLib 1000000000 (letters ''s'') exEnrollStore = (Inr (''milo'', ''set_password''), exEnrollStore\<lparr>db := emptyAuth\<lparr>auth_enrollment_tokens := [(''s'',
     \<lparr>et_user_slug = ''milo'', et_intent = ''set_password'', et_expires_at = 60, et_consumed_at = Some 1\<rparr>)]\<rparr>\<rparr>)"
  by (simp add: Redeem_def redeemTx_def exEnrollStore_def storeOf_def emptyAuth_def txA_def bindA_def sql_def retA_def
      unix_def exampleLib_def unletters_letters)

theorem enrollment_once_witness:
  "map_of (el_minted \<lparr>el_minted = [(''s'', ''milo'', ''set_password'', 60)], el_used = {}\<rparr>) ''s'' = Some (''milo'', ''set_password'', 60) \<and>
   (\<exists>e. fst (Redeem exampleLib 2000000000 (letters ''s'') (snd (Redeem exampleLib 1000000000 (letters ''s'') exEnrollStore))) = Inl e)"
proof -
  let ?g = "\<lparr>el_minted = [(''s'', ''milo'', ''set_password'', 60)], el_used = {}\<rparr>"
  let ?s = "snd (Redeem exampleLib 1000000000 (letters ''s'') exEnrollStore)"
  obtain r s3 where run: "Redeem exampleLib 2000000000 (letters ''s'') ?s = (r, s3)" by fastforce
  have dec: "b32dec exampleLib (letters ''s'') = Some ''s''" by (simp add: exampleLib_def unletters_letters)
  have once: "Redeem exampleLib 1000000000 (letters ''s'') exEnrollStore = (Inr (''milo'', ''set_password''), ?s)" by (simp add: ex_redeem)
  from enrollment_once [OF ex_enroll_reach once] dec
  have "\<forall>g2 s2. (enrollStep exampleLib)\<^sup>*\<^sup>* (?g\<lparr>el_used := insert (sha256 exampleLib ''s'') (el_used ?g)\<rparr>, ?s) (g2, s2) \<longrightarrow>
      (\<forall>t p2 secret2 r s3. b32dec exampleLib p2 = Some secret2 \<longrightarrow> sha256 exampleLib secret2 = sha256 exampleLib ''s'' \<longrightarrow>
        Redeem exampleLib t p2 s2 = (r, s3) \<longrightarrow> (\<exists>e. r = Inl e))"
    by (metis option.inject)
  from this [rule_format, OF rtranclp.rtrancl_refl dec refl run] show ?thesis by (simp add: run)
qed

end
