(* ===== verification/Auth_Service.thy ===== *)
theory Auth_Service
  imports Auth_Sessions Auth_Credentials Policy_Runtime
begin

text \<open>
  Authentication of requests and the authentication service: the authenticator chain (\<^verbatim>\<open>internal/auth/local.go\<close>,
  \<^verbatim>\<open>authn\<close>), the two interceptors (\<^verbatim>\<open>internal/api/interceptor_authn.go\<close>, \<^verbatim>\<open>interceptor_authz.go\<close>), the handlers
  of \<^verbatim>\<open>service_auth.go\<close> with the passkey ceremonies (\<^verbatim>\<open>credentials/webauthn.go\<close>), and the users of a new
  configuration (\<^verbatim>\<open>internal/daemon/auth_config.go\<close>). The WebAuthn library is an argument; audit records and
  metrics are left out.
\<close>

section \<open>The authenticator chain\<close>

datatype authn_error = ErrNotApplicable | ErrUnauthenticated | AuthnErr auth_error

record PeerCred =
  Pid :: int
  Uid :: nat
  Gid :: nat

text \<open>\<open>Headers.Get\<close> of an absent header is the empty text; the cookies are those of the HTTP request, if there is one.\<close>

record AuthRequest =
  rq_Scheme :: string
  rq_Authorization :: string
  rq_UserAgent :: string
  rq_PeerCred :: "PeerCred option"
  rq_RemoteAddr :: string
  rq_Method :: string
  rq_HTTP :: "(string \<times> string) list option"

type_synonym ('m, 'z) authenticator =
  "AuthRequest \<Rightarrow> (auth_db, 'm, 'z) store_scheme \<Rightarrow> (authn_error + Principal) \<times> (auth_db, 'm, 'z) store_scheme"

definition LocalPeerCred :: "('m, 'z) authenticator" where
  "LocalPeerCred req s =
     (case rq_PeerCred req of
        Some p \<Rightarrow>
          if rq_Scheme req \<noteq> ''uds:peercred'' then (Inl ErrNotApplicable, s)
          else (Inr \<lparr>p_ID = ''system:local'', p_DisplayName = ''local'', p_Kind = ''system'',
             p_Metadata = [(''uid'', showNat (Uid p)), (''gid'', showNat (Gid p)), (''pid'', showInt (Pid p))]\<rparr>, s)
      | None \<Rightarrow> (Inl ErrNotApplicable, s))"

text \<open>The scope travels in the metadata as standard base64, which is decoded again by the interceptor.\<close>

definition Bearer :: "lib \<Rightarrow> gotime \<Rightarrow> ('m, 'z) authenticator" where
  "Bearer l now req s =
     (if \<not> hasPrefix (rq_Authorization req) ''Bearer '' then (Inl ErrNotApplicable, s)
      else case Tokens_Verify l now (trimPrefix (rq_Authorization req) ''Bearer '') s of
        (Inl e, s') \<Rightarrow>
          (Inl (if e \<in> {ErrTokenInvalid, ErrTokenRevoked, ErrTokenExpired} then ErrUnauthenticated else AuthnErr e), s')
      | (Inr look, s') \<Rightarrow>
          (Inr \<lparr>p_ID = ''user:'' @ lk_UserSlug look, p_DisplayName = lk_UserSlug look, p_Kind = ''user'',
             p_Metadata = [(''token_id'', lk_TokenID look), (''auth_method'', ''token'')] @
               (if lk_Scope look \<noteq> [] then [(''token_scope'', b64stdenc l (lk_Scope look))] else [])\<rparr>, s'))"

definition SessionCookie :: "lib \<Rightarrow> SessionConfig \<Rightarrow> string \<Rightarrow> gotime \<Rightarrow> ('m, 'z) authenticator" where
  "SessionCookie l c accessName now req s =
     (case rq_HTTP req of
        None \<Rightarrow> (Inl ErrNotApplicable, s)
      | Some cookies \<Rightarrow>
          if map_of cookies accessName = None then (Inl ErrNotApplicable, s)
          else case VerifyAccess l c now (map_of cookies accessName) s of
            (Inl e, s') \<Rightarrow>
              (Inl (if e \<in> {ErrSessionInvalid, ErrSessionExpired, ErrSessionReplay} then ErrUnauthenticated else AuthnErr e), s')
          | (Inr p, s') \<Rightarrow>
              (Inr \<lparr>p_ID = ''user:'' @ sd_UserSlug p, p_DisplayName = sd_UserSlug p, p_Kind = ''user'',
                 p_Metadata = [(''session_id'', sd_SessionID p), (''auth_method'', sd_AuthMethod p)]\<rparr>, s'))"

definition RejectAll :: "('m, 'z) authenticator" where
  "RejectAll req s = (Inl ErrUnauthenticated, s)"

fun chainAuthenticate :: "('m, 'z) authenticator list \<Rightarrow> ('m, 'z) authenticator" where
  "chainAuthenticate [] req s = (Inl ErrUnauthenticated, s)"
| "chainAuthenticate (a # as) req s =
     (case a req s of
        (Inr p, s') \<Rightarrow> (Inr p, s')
      | (Inl e, s') \<Rightarrow> if e = ErrNotApplicable then chainAuthenticate as req s' else (Inl e, s'))"

definition Build :: "lib \<Rightarrow> SessionConfig \<Rightarrow> string \<Rightarrow> gotime \<Rightarrow> ('m, 'z) authenticator list" where
  "Build l c accessName now = [LocalPeerCred, Bearer l now, SessionCookie l c accessName now, RejectAll]"

section \<open>The interceptors\<close>

datatype code = CodeUnauthenticated | CodeInternal | CodePermissionDenied | CodeFailedPrecondition
  | CodeInvalidArgument | CodeNotFound | CodeUnimplemented

text \<open>A Connect error: its code, and whether its cause is an authentication error or a text of its own.\<close>

datatype rpc_error = RPC code "auth_error + string"

record reqContext =
  cx_principal :: "Principal option"
  cx_scope :: "CompiledTokenScope option"
  cx_remoteAddr :: string
  cx_userAgent :: string
  cx_writer :: bool
  cx_http :: "(string \<times> string) list option"

record challengeEntry =
  ch_payload :: bytes
  ch_expires :: gotime

text \<open>The memory of the service: the challenges of running ceremonies and the cache of token scopes.\<close>

record authMem =
  items :: "(string \<times> challengeEntry) list"
  tokenScopeCache :: "string \<Rightarrow> CompiledTokenScope option"

type_synonym 'z svc = "(auth_db, authMem, 'z) store_scheme"

definition isPublicAuthProcedure :: "string \<Rightarrow> bool" where
  "isPublicAuthProcedure procedure \<longleftrightarrow> procedure \<in>
     {''/switchyard.v1alpha1.AuthService/Login'', ''/switchyard.v1alpha1.AuthService/Refresh'',
      ''/switchyard.v1alpha1.AuthService/StartWebAuthnChallenge''}"

definition authnFailure :: "authn_error \<Rightarrow> rpc_error" where
  "authnFailure e = (case e of
     ErrUnauthenticated \<Rightarrow> RPC CodeUnauthenticated (Inr ''auth: unauthenticated'')
   | ErrNotApplicable \<Rightarrow> RPC CodeInternal (Inr ''auth: not applicable to this request'')
   | AuthnErr x \<Rightarrow> RPC CodeInternal (Inl x))"

definition authenticate ::
  "lib \<Rightarrow> (bytes \<Rightarrow> error + TokenScope) \<Rightarrow> (authMem, 'z) authenticator list \<Rightarrow> reqContext \<Rightarrow> AuthRequest
     \<Rightarrow> 'z svc \<Rightarrow> (rpc_error + reqContext) \<times> 'z svc" where
  "authenticate l unmarshal chain ctx req s =
     (let ctx1 = ctx\<lparr>cx_remoteAddr := rq_RemoteAddr req, cx_userAgent := rq_UserAgent req\<rparr>;
          req1 = req\<lparr>rq_Scheme := (if rq_PeerCred req \<noteq> None then ''uds:peercred'' else ''bearer''), rq_HTTP := cx_http ctx\<rparr> in
      if isPublicAuthProcedure (rq_Method req) then (Inr ctx1, s)
      else case chainAuthenticate chain req1 s of
        (Inl e, s') \<Rightarrow> (Inl (authnFailure e), s')
      | (Inr p, s') \<Rightarrow>
          (let ctx2 = ctx1\<lparr>cx_principal := Some p\<rparr> in
           case map_of (p_Metadata p) ''token_scope'' of
             None \<Rightarrow> (Inr ctx2, s')
           | Some enc \<Rightarrow> (case b64stddec l enc of
               None \<Rightarrow> (Inl (RPC CodeUnauthenticated (Inr ''invalid token scope'')), s')
             | Some blob \<Rightarrow> (case decodeTokenScope unmarshal (sha256 l) (attr (p_Metadata p) ''token_id'') blob (tokenScopeCache (mem s')) of
                 (Inl _, cache) \<Rightarrow> (Inl (RPC CodeUnauthenticated (Inr ''invalid token scope'')), s'\<lparr>mem := (mem s')\<lparr>tokenScopeCache := cache\<rparr>\<rparr>)
               | (Inr scope, cache) \<Rightarrow> (Inr (ctx2\<lparr>cx_scope := Some scope\<rparr>), s'\<lparr>mem := (mem s')\<lparr>tokenScopeCache := cache\<rparr>\<rparr>)))))"

definition noPrincipal :: Principal where
  "noPrincipal = \<lparr>p_ID = [], p_DisplayName = [], p_Kind = [], p_Metadata = []\<rparr>"

text \<open>
  The authorize interceptor; the catalog gives the action and target of a procedure and its request, the
  request of a stream is absent. \<open>None\<close>: let through.
\<close>

definition authorize ::
  "Runtime option \<Rightarrow> (Principal \<Rightarrow> RoleSlug list) \<Rightarrow> (string \<Rightarrow> 'req \<Rightarrow> (Action \<times> AuthTarget) option) option
     \<Rightarrow> reqContext \<Rightarrow> string \<Rightarrow> 'req option \<Rightarrow> ErrForbidden option" where
  "authorize rt rolesFor catalog ctx procedure request =
     (let principal = (case cx_principal ctx of Some p \<Rightarrow> p | None \<Rightarrow> noPrincipal) in
      if p_Kind principal = ''system'' then None
      else case (rt, catalog, request) of
        (Some r, Some cat, Some req) \<Rightarrow>
          (case cat procedure req of
             None \<Rightarrow> None
           | Some (action, target) \<Rightarrow> Authorize r rolesFor (cx_scope ctx) principal action target)
      | _ \<Rightarrow> None)"

definition forbiddenError :: "ErrForbidden \<Rightarrow> rpc_error" where
  "forbiddenError e = RPC CodePermissionDenied (Inr (Reason e))"

text \<open>A unary call and the opening of a stream pass the two interceptors in this order.\<close>

definition throughInterceptors ::
  "lib \<Rightarrow> (bytes \<Rightarrow> error + TokenScope) \<Rightarrow> (authMem, 'z) authenticator list \<Rightarrow> Runtime option \<Rightarrow> (Principal \<Rightarrow> RoleSlug list)
     \<Rightarrow> (string \<Rightarrow> 'req \<Rightarrow> (Action \<times> AuthTarget) option) option \<Rightarrow> reqContext \<Rightarrow> AuthRequest \<Rightarrow> 'req option
     \<Rightarrow> 'z svc \<Rightarrow> (rpc_error + reqContext) \<times> 'z svc" where
  "throughInterceptors l unmarshal chain rt rolesFor catalog ctx req body s =
     (case authenticate l unmarshal chain ctx req s of
        (Inl e, s') \<Rightarrow> (Inl e, s')
      | (Inr ctx', s') \<Rightarrow>
          (case authorize rt rolesFor catalog ctx' (rq_Method req) body of
             Some f \<Rightarrow> (Inl (forbiddenError f), s')
           | None \<Rightarrow> (Inr ctx', s')))"

section \<open>Passkeys\<close>

record userAdapter =
  ua_slug :: string
  ua_displayName :: string
  ua_creds :: "(bytes \<times> bytes \<times> nat) list"

record ParsedAssertion =
  pa_RawID :: bytes
  pa_UserHandle :: bytes
  pa_rest :: bytes

record challengePayload =
  cp_Kind :: string
  cp_UserSlug :: string
  cp_SessionData :: "bytes option"

text \<open>
  The WebAuthn library and JSON. A login is validated with the user that the handle of the response names;
  its result is the new sign count and whether the authenticator looks cloned.
\<close>

record webauthn =
  parseAssertion :: "bytes \<Rightarrow> ParsedAssertion option"
  parseCreation :: "bytes \<Rightarrow> bytes option"
  waBeginRegistration :: "userAdapter \<Rightarrow> error + bytes \<times> bytes"
  waBeginLogin :: "error + bytes \<times> bytes"
  createCredential :: "userAdapter \<Rightarrow> bytes \<Rightarrow> bytes \<Rightarrow> error + bytes \<times> bytes \<times> nat"
  validateLogin :: "userAdapter \<Rightarrow> bytes \<Rightarrow> ParsedAssertion \<Rightarrow> error + nat \<times> bool"
  encPayload :: "challengePayload \<Rightarrow> bytes"
  decPayload :: "bytes \<Rightarrow> challengePayload option"

definition loadUser :: "string \<Rightarrow> ((auth_db, 'm, 'z) store_scheme, userAdapter) astep" where
  "loadUser slug =
     bindA (sql (dbQuery (\<lambda>d. map_of (auth_users d) slug))) (\<lambda>u.
     bindA (sql (dbQuery (\<lambda>d. map (\<lambda>(cid, k). (cid, pk_public_key k, nat (pk_sign_count k mod 2 ^ 32)))
       (filter (\<lambda>(_, k). pk_user_slug k = slug) (auth_passkeys d))))) (\<lambda>creds.
     retA \<lparr>ua_slug = slug, ua_displayName = (case u of None \<Rightarrow> slug | Some r \<Rightarrow> us_display_name r), ua_creds = creds\<rparr>))"

definition BeginRegistration :: "webauthn \<Rightarrow> string \<Rightarrow> string \<Rightarrow> ((auth_db, 'm, 'z) store_scheme, bytes \<times> bytes) astep" where
  "BeginRegistration w slug displayName =
     bindA (loadUser slug) (\<lambda>user.
     case waBeginRegistration w (if displayName \<noteq> [] then user\<lparr>ua_displayName := displayName\<rparr> else user) of
       Inl e \<Rightarrow> throwA (PlainErr e) | Inr r \<Rightarrow> retA r)"

definition FinishRegistration ::
  "webauthn \<Rightarrow> gotime \<Rightarrow> string \<Rightarrow> string \<Rightarrow> bytes option \<Rightarrow> bytes \<Rightarrow> ((auth_db, 'm, 'z) store_scheme, bytes) astep" where
  "FinishRegistration w now slug label sd response =
     (case sd of
        None \<Rightarrow> throwA (PlainErr ''credentials: nil session data'')
      | Some d \<Rightarrow>
          bindA (loadUser slug) (\<lambda>user.
          case createCredential w user d response of
            Inl e \<Rightarrow> throwA (PlainErr (''create credential: '' @ e))
          | Inr (cid, pk, n) \<Rightarrow>
              bindA (sql (dbTry (\<lambda>d. map_sum id (\<lambda>ks. d\<lparr>auth_passkeys := ks\<rparr>) (insertNew ''auth_passkeys.credential_id'' cid
                \<lparr>pk_user_slug = slug, pk_public_key = pk, pk_sign_count = int n, pk_label = label, pk_registered_at = unix now,
                 pk_last_used_at = None\<rparr> (auth_passkeys d))))) (\<lambda>_. retA cid)))"

definition FinishLogin :: "webauthn \<Rightarrow> gotime \<Rightarrow> bytes option \<Rightarrow> ParsedAssertion \<Rightarrow> ((auth_db, 'm, 'z) store_scheme, string) astep" where
  "FinishLogin w now sd response =
     (case sd of
        None \<Rightarrow> throwA (PlainErr ''credentials: nil session data'')
      | Some d \<Rightarrow>
          bindA (loadUser (pa_UserHandle response)) (\<lambda>user.
          case validateLogin w user d response of
            Inl e \<Rightarrow> throwA (PlainErr e)
          | Inr (n, clone) \<Rightarrow>
              if clone then throwA ErrSignCountRegression
              else bindA (sql (dbExec (\<lambda>d. d\<lparr>auth_passkeys := AList.map_entry (pa_RawID response)
                (\<lambda>k. k\<lparr>pk_sign_count := int n, pk_last_used_at := Some (unix now)\<rparr>) (auth_passkeys d)\<rparr>))) (\<lambda>_.
                retA (pa_UserHandle response))))"

definition Passkeys_List :: "string \<Rightarrow> ((auth_db, 'm, 'z) store_scheme, (bytes \<times> passkey_row) list) astep" where
  "Passkeys_List slug = sql (dbQuery (\<lambda>d. sort_key (\<lambda>(_, k). pk_registered_at k) (filter (\<lambda>(_, k). pk_user_slug k = slug) (auth_passkeys d))))"

definition Passkeys_Remove :: "bytes \<Rightarrow> ((auth_db, 'm, 'z) store_scheme, unit) astep" where
  "Passkeys_Remove cid = sql (dbExec (\<lambda>d. d\<lparr>auth_passkeys := AList.delete cid (auth_passkeys d)\<rparr>))"

section \<open>Challenges\<close>

definition gcLocked :: "gotime \<Rightarrow> (string \<times> challengeEntry) list \<Rightarrow> (string \<times> challengeEntry) list" where
  "gcLocked now xs = filter (\<lambda>(_, e). \<not> now > ch_expires e) xs"

definition Challenges_Store :: "duration \<Rightarrow> gotime \<Rightarrow> string \<Rightarrow> string \<Rightarrow> bytes \<Rightarrow> authMem \<Rightarrow> authMem" where
  "Challenges_Store ttl now newID sessionID payload m =
     m\<lparr>items := AList.update (sessionID @ '':'' @ newID) \<lparr>ch_payload = payload, ch_expires = now + ttl\<rparr> (gcLocked now (items m))\<rparr>"

definition Challenges_Consume :: "gotime \<Rightarrow> string \<Rightarrow> string \<Rightarrow> authMem \<Rightarrow> (auth_error + bytes) \<times> authMem" where
  "Challenges_Consume now sessionID cid m =
     (let key = sessionID @ '':'' @ cid; m' = m\<lparr>items := AList.delete key (items m)\<rparr> in
      case map_of (items m) key of
        None \<Rightarrow> (Inl ErrChallengeNotFound, m')
      | Some e \<Rightarrow> if now > ch_expires e then (Inl ErrChallengeNotFound, m') else (Inr (ch_payload e), m'))"

section \<open>The handlers\<close>

type_synonym ('s, 'a) rpc = "'s \<Rightarrow> (rpc_error + 'a) \<times> 's"

definition bindR :: "('s, 'a) rpc \<Rightarrow> ('a \<Rightarrow> ('s, 'b) rpc) \<Rightarrow> ('s, 'b) rpc" where
  "bindR m f s = (case m s of (Inl e, s') \<Rightarrow> (Inl e, s') | (Inr x, s') \<Rightarrow> f x s')"

definition retR :: "'a \<Rightarrow> ('s, 'a) rpc" where
  "retR x s = (Inr x, s)"

definition throwR :: "rpc_error \<Rightarrow> ('s, 'a) rpc" where
  "throwR e s = (Inl e, s)"

text \<open>A call of a store whose error becomes the RPC error that the handler chooses.\<close>

definition callR :: "(auth_error \<Rightarrow> rpc_error) \<Rightarrow> ('s, 'a) astep \<Rightarrow> ('s, 'a) rpc" where
  "callR h m s = (case m s of (Inl e, s') \<Rightarrow> (Inl (h e), s') | (Inr x, s') \<Rightarrow> (Inr x, s'))"

text \<open>A call whose error the handler drops.\<close>

definition ignoreR :: "('s, 'a) astep \<Rightarrow> ('s, unit) rpc" where
  "ignoreR m s = (Inr (), snd (m s))"

lemmas rpc_defs = bindR_def retR_def throwR_def callR_def ignoreR_def

abbreviation internal :: "auth_error \<Rightarrow> rpc_error" where
  "internal e \<equiv> RPC CodeInternal (Inl e)"

record serviceEnv =
  se_lib :: lib
  se_throttle :: ThrottleConfig
  se_argon :: Argon2idParams
  se_sessions :: SessionConfig
  se_refreshName :: string
  se_passkeys :: "webauthn option"
  se_challengeTTL :: duration

text \<open>What the handler draws: the time, a fresh id and a random secret.\<close>

record draws =
  dr_now :: gotime
  dr_id :: string
  dr_secret :: bytes

record LoginRequest =
  lr_Username :: string
  lr_Password :: string
  lr_PublicKeyCredential :: bytes
  lr_WebauthnChallengeId :: string

definition invalidCredentials :: rpc_error where
  "invalidCredentials = RPC CodeUnauthenticated (Inr ''invalid credentials'')"

definition throttled :: rpc_error where
  "throttled = RPC CodeUnauthenticated (Inr ''throttled'')"

definition noWriter :: rpc_error where
  "noWriter = RPC CodeInternal (Inr ''no response writer'')"

text \<open>A failed attempt: it is recorded, a failure to record it dropped.\<close>

definition failAttempt :: "gotime \<Rightarrow> string \<Rightarrow> string \<Rightarrow> rpc_error \<Rightarrow> ('z svc, 'a) rpc" where
  "failAttempt now ip method e = bindR (ignoreR (Record now ip method False)) (\<lambda>_. throwR e)"

definition issueSession ::
  "serviceEnv \<Rightarrow> draws \<Rightarrow> reqContext \<Rightarrow> string \<Rightarrow> string \<Rightarrow> ('z svc, SessionData \<times> string \<times> string) rpc" where
  "issueSession env dr ctx slug method =
     (if \<not> cx_writer ctx then throwR noWriter
      else callR internal (Sessions_Issue (se_lib env) (se_sessions env) (dr_now dr) (dr_id dr) (b32enc (se_lib env) (dr_secret dr))
        \<lparr>in_UserSlug = slug, in_AuthMethod = method, in_RemoteIP = cx_remoteAddr ctx, in_UserAgent = cx_userAgent ctx\<rparr>))"

text \<open>Every error of \<open>Throttle.Check\<close>, one of the database included, is answered as throttled.\<close>

definition loginPassword ::
  "serviceEnv \<Rightarrow> draws \<Rightarrow> reqContext \<Rightarrow> LoginRequest \<Rightarrow> ('z svc, SessionData \<times> string \<times> string) rpc" where
  "loginPassword env dr ctx req =
     (let ip = cx_remoteAddr ctx; now = dr_now dr; username = lr_Username req in
      bindR (callR (\<lambda>_. throttled) (Check (se_throttle env) now ip ''password'')) (\<lambda>_ s1.
      case Identity_Get username s1 of
        (Inl e, s2) \<Rightarrow> if e = ErrUserNotFound then failAttempt now ip ''password'' invalidCredentials s2 else throwR (internal e) s2
      | (Inr u, s2) \<Rightarrow>
          if \<not> Active u \<or> \<not> PasswordAllowed u then failAttempt now ip ''password'' invalidCredentials s2
          else bindR (callR internal (Password_Verify (se_lib env) (se_argon env) username (lr_Password req))) (\<lambda>(ok, _).
            if \<not> ok then failAttempt now ip ''password'' invalidCredentials
            else bindR (ignoreR (Record now ip ''password'' True)) (\<lambda>_. issueSession env dr ctx (Slug u) ''password'')) s2))"

definition webAuthnChallengeSessionKey :: "lib \<Rightarrow> reqContext \<Rightarrow> bytes option \<Rightarrow> rpc_error + auth_error + string" where
  "webAuthnChallengeSessionKey l ctx raw =
     (let sid = (case cx_principal ctx of None \<Rightarrow> [] | Some p \<Rightarrow> attr (p_Metadata p) ''session_id'');
          cookie = (case cx_http ctx of None \<Rightarrow> [] | Some cs \<Rightarrow> attr cs ''switchyard_webauthn'') in
      if sid \<noteq> [] then Inr (Inr (''session:'' @ sid))
      else if cookie \<noteq> [] then Inr (Inr (''cookie:'' @ cookie))
      else case raw of
        None \<Rightarrow> Inr (Inl ErrChallengeNotFound)
      | Some r \<Rightarrow> if \<not> cx_writer ctx then Inl noWriter else Inr (Inr (''cookie:'' @ b64enc l r)))"

text \<open>The error is either one of the service's own or \<open>ErrChallengeNotFound\<close>, which callers answer in their own way.\<close>

definition consumeWebAuthnChallenge ::
  "serviceEnv \<Rightarrow> webauthn \<Rightarrow> gotime \<Rightarrow> reqContext \<Rightarrow> string \<Rightarrow> string \<Rightarrow> 'z svc \<Rightarrow> ((rpc_error + auth_error) + challengePayload) \<times> 'z svc" where
  "consumeWebAuthnChallenge env w now ctx cid kind s =
     (if cid = [] then (Inl (Inl (RPC CodeInvalidArgument (Inr ''missing webauthn challenge id''))), s)
      else case webAuthnChallengeSessionKey (se_lib env) ctx None of
        Inl e \<Rightarrow> (Inl (Inl e), s)
      | Inr (Inl e) \<Rightarrow> (Inl (Inr e), s)
      | Inr (Inr key) \<Rightarrow>
          (case Challenges_Consume now key cid (mem s) of
             (Inl e, m) \<Rightarrow> (Inl (Inr e), s\<lparr>mem := m\<rparr>)
           | (Inr data, m) \<Rightarrow>
               (case decPayload w data of
                  None \<Rightarrow> (Inl (Inl (RPC CodeInternal (Inr ''json: cannot unmarshal''))), s\<lparr>mem := m\<rparr>)
                | Some p \<Rightarrow>
                    if cp_Kind p \<noteq> kind \<or> cp_SessionData p = None
                    then (Inl (Inl (RPC CodeUnauthenticated (Inr ''invalid webauthn challenge''))), s\<lparr>mem := m\<rparr>)
                    else (Inr p, s\<lparr>mem := m\<rparr>))))"

definition invalidAssertion :: rpc_error where
  "invalidAssertion = RPC CodeUnauthenticated (Inr ''invalid passkey assertion'')"

definition notConfigured :: rpc_error where
  "notConfigured = RPC CodeFailedPrecondition (Inr ''passkeys not configured'')"

definition loginPasskey ::
  "serviceEnv \<Rightarrow> draws \<Rightarrow> reqContext \<Rightarrow> LoginRequest \<Rightarrow> ('z svc, SessionData \<times> string \<times> string) rpc" where
  "loginPasskey env dr ctx req =
     (case se_passkeys env of
        None \<Rightarrow> throwR notConfigured
      | Some w \<Rightarrow>
        (let ip = cx_remoteAddr ctx; now = dr_now dr in
         bindR (callR (\<lambda>_. throttled) (Check (se_throttle env) now ip ''passkey'')) (\<lambda>_.
         case parseAssertion w (lr_PublicKeyCredential req) of
           None \<Rightarrow> failAttempt now ip ''passkey'' invalidAssertion
         | Some parsed \<Rightarrow> (\<lambda>s2.
             case consumeWebAuthnChallenge env w now ctx (lr_WebauthnChallengeId req) ''login'' s2 of
               (Inl (Inl e), s3) \<Rightarrow> failAttempt now ip ''passkey'' e s3
             | (Inl (Inr e), s3) \<Rightarrow> failAttempt now ip ''passkey'' (RPC CodeUnauthenticated (Inl e)) s3
             | (Inr p, s3) \<Rightarrow>
                 (case FinishLogin w now (cp_SessionData p) parsed s3 of
                    (Inl e, s4) \<Rightarrow> failAttempt now ip ''passkey''
                      (if e = ErrSignCountRegression then RPC CodeUnauthenticated (Inl e) else invalidAssertion) s4
                  | (Inr slug, s4) \<Rightarrow> bindR (ignoreR (Record now ip ''passkey'' True)) (\<lambda>_. issueSession env dr ctx slug ''passkey'') s4)))))"

definition Login ::
  "serviceEnv \<Rightarrow> draws \<Rightarrow> reqContext \<Rightarrow> LoginRequest \<Rightarrow> ('z svc, SessionData \<times> string \<times> string) rpc" where
  "Login env dr ctx req =
     (if lr_PublicKeyCredential req \<noteq> [] \<or> lr_WebauthnChallengeId req \<noteq> [] then loginPasskey env dr ctx req
      else loginPassword env dr ctx req)"

definition Logout :: "reqContext \<Rightarrow> ('z svc, unit) rpc" where
  "Logout ctx =
     (case cx_principal ctx of
        None \<Rightarrow> retR ()
      | Some p \<Rightarrow>
          (let sid = attr (p_Metadata p) ''session_id'' in
           if sid = [] then retR () else if \<not> cx_writer ctx then throwR noWriter else callR internal (Sessions_Logout sid)))"

definition Refresh :: "serviceEnv \<Rightarrow> draws \<Rightarrow> reqContext \<Rightarrow> ('z svc, SessionData \<times> string \<times> string) rpc" where
  "Refresh env dr ctx =
     (case cx_http ctx of
        Some cookies \<Rightarrow>
          if \<not> cx_writer ctx then throwR (RPC CodeInternal (Inr ''no http context''))
          else callR (\<lambda>e. if e \<in> {ErrSessionInvalid, ErrSessionExpired, ErrSessionReplay} then RPC CodeUnauthenticated (Inl e) else internal e)
            (Sessions_Refresh (se_lib env) (se_sessions env) (dr_now dr) (b32enc (se_lib env) (dr_secret dr)) (map_of cookies (se_refreshName env)))
      | None \<Rightarrow> throwR (RPC CodeInternal (Inr ''no http context'')))"

definition notAuthenticated :: rpc_error where
  "notAuthenticated = RPC CodeUnauthenticated (Inr ''not authenticated'')"

definition userNotFound :: "auth_error \<Rightarrow> rpc_error" where
  "userNotFound e = (if e = ErrUserNotFound then RPC CodeNotFound (Inr ''user not found'') else internal e)"

definition slugOf :: "Principal \<Rightarrow> string" where
  "slugOf p = trimPrefix (p_ID p) ''user:''"

definition CurrentUser :: "reqContext \<Rightarrow> ('z svc, User) rpc" where
  "CurrentUser ctx =
     (case cx_principal ctx of
        None \<Rightarrow> throwR notAuthenticated
      | Some p \<Rightarrow> callR userNotFound (Identity_Get (slugOf p)))"

text \<open>Which error of \<open>tokenScopeBlobForMint\<close> it was decides the code.\<close>

definition mintFailure :: "CompiledTokenScope option \<Rightarrow> TokenScope option \<Rightarrow> error \<Rightarrow> rpc_error" where
  "mintFailure parent scope e =
     (case compileTokenScopePB scope of
        Inl _ \<Rightarrow> RPC CodeInvalidArgument (Inr e)
      | Inr c \<Rightarrow> if (case parent of None \<Rightarrow> False | Some s \<Rightarrow> \<not> Contains s c) then RPC CodePermissionDenied (Inr e)
          else RPC CodeInternal (Inr e))"

definition CreateToken ::
  "serviceEnv \<Rightarrow> (TokenScope \<Rightarrow> error + bytes) \<Rightarrow> draws \<Rightarrow> reqContext \<Rightarrow> string \<Rightarrow> TokenScope option \<Rightarrow> ('z svc, string \<times> string) rpc" where
  "CreateToken env marshal dr ctx displayName scope =
     (case cx_principal ctx of
        None \<Rightarrow> throwR notAuthenticated
      | Some p \<Rightarrow>
          (case tokenScopeBlobForMint marshal (cx_scope ctx) scope of
             Inl e \<Rightarrow> throwR (mintFailure (cx_scope ctx) scope e)
           | Inr (blob, _) \<Rightarrow>
               callR internal (Tokens_Issue (se_lib env) (dr_now dr) (dr_id dr) (dr_secret dr)
                 \<lparr>it_UserSlug = slugOf p, it_Label = displayName, it_IssuedBy = p_ID p, it_Scope = blob, it_TTL = 0\<rparr>)))"

definition RevokeToken :: "draws \<Rightarrow> reqContext \<Rightarrow> string \<Rightarrow> ('z svc, unit) rpc" where
  "RevokeToken dr ctx tokenID =
     (case cx_principal ctx of
        None \<Rightarrow> throwR notAuthenticated
      | Some _ \<Rightarrow> callR internal (Tokens_Revoke (dr_now dr) tokenID))"

definition Service_ListUsers :: "('z svc, User list) rpc" where
  "Service_ListUsers = callR internal (sql Identity_ListUsers)"

definition userSlugForPasskeyRegistration :: "reqContext \<Rightarrow> string \<Rightarrow> rpc_error + string" where
  "userSlugForPasskeyRegistration ctx requested =
     (let anonymous = (if requested \<noteq> [] then Inr requested else Inl notAuthenticated) in
      case cx_principal ctx of
        None \<Rightarrow> anonymous
      | Some p \<Rightarrow>
          if hasPrefix (p_ID p) ''user:'' then
            (if requested \<noteq> [] \<and> requested \<noteq> slugOf p then Inl (RPC CodePermissionDenied (Inr ''cannot register passkey for another user''))
             else Inr (slugOf p))
          else anonymous)"

definition liftR :: "(rpc_error + 'a) \<Rightarrow> ('s, 'a) rpc" where
  "liftR r s = (r, s)"

definition storeWebAuthnChallenge ::
  "serviceEnv \<Rightarrow> webauthn \<Rightarrow> draws \<Rightarrow> reqContext \<Rightarrow> challengePayload \<Rightarrow> ('z svc, string) rpc" where
  "storeWebAuthnChallenge env w dr ctx payload s =
     (case webAuthnChallengeSessionKey (se_lib env) ctx (Some (dr_secret dr)) of
        Inl e \<Rightarrow> (Inl e, s)
      | Inr (Inl e) \<Rightarrow> (Inl (RPC CodeUnauthenticated (Inl e)), s)
      | Inr (Inr key) \<Rightarrow>
          (Inr (dr_id dr), s\<lparr>mem := Challenges_Store (se_challengeTTL env) (dr_now dr) (dr_id dr) key (encPayload w payload) (mem s)\<rparr>))"

text \<open>The options for the browser and the id of the challenge.\<close>

definition StartWebAuthnChallenge ::
  "serviceEnv \<Rightarrow> draws \<Rightarrow> reqContext \<Rightarrow> string \<Rightarrow> string \<Rightarrow> string \<Rightarrow> ('z svc, bytes \<times> string) rpc" where
  "StartWebAuthnChallenge env dr ctx intent userSlug displayName =
     (case se_passkeys env of
        None \<Rightarrow> throwR notConfigured
      | Some w \<Rightarrow>
          if intent = ''register'' \<or> intent = ''register_passkey'' then
            bindR (liftR (userSlugForPasskeyRegistration ctx userSlug)) (\<lambda>slug.
            bindR (callR internal (BeginRegistration w slug displayName)) (\<lambda>(options, sd).
            bindR (storeWebAuthnChallenge env w dr ctx \<lparr>cp_Kind = ''register'', cp_UserSlug = slug, cp_SessionData = Some sd\<rparr>) (\<lambda>cid.
            retR (options, cid))))
          else if intent = ''login'' then
            (case waBeginLogin w of
               Inl e \<Rightarrow> throwR (internal (PlainErr e))
             | Inr (options, sd) \<Rightarrow>
                 bindR (storeWebAuthnChallenge env w dr ctx \<lparr>cp_Kind = ''login'', cp_UserSlug = [], cp_SessionData = Some sd\<rparr>) (\<lambda>cid.
                 retR (options, cid)))
          else throwR (RPC CodeInvalidArgument (Inr ''invalid webauthn intent'')))"

definition RegisterPasskey ::
  "serviceEnv \<Rightarrow> draws \<Rightarrow> reqContext \<Rightarrow> string \<Rightarrow> bytes \<Rightarrow> string \<Rightarrow> string \<Rightarrow> ('z svc, bytes) rpc" where
  "RegisterPasskey env dr ctx userSlug credential challengeID reqLabel =
     (case se_passkeys env of
        None \<Rightarrow> throwR notConfigured
      | Some w \<Rightarrow>
          bindR (liftR (userSlugForPasskeyRegistration ctx userSlug)) (\<lambda>slug.
          case parseCreation w credential of
            None \<Rightarrow> throwR (RPC CodeInvalidArgument (Inr ''parse error for registration''))
          | Some parsed \<Rightarrow> (\<lambda>s1.
              case consumeWebAuthnChallenge env w (dr_now dr) ctx challengeID ''register'' s1 of
                (Inl (Inl e), s2) \<Rightarrow> (Inl e, s2)
              | (Inl (Inr e), s2) \<Rightarrow> (Inl (RPC CodeUnauthenticated (Inl e)), s2)
              | (Inr p, s2) \<Rightarrow>
                  if cp_UserSlug p \<noteq> [] \<and> cp_UserSlug p \<noteq> slug
                  then (Inl (RPC CodePermissionDenied (Inr ''challenge belongs to a different user'')), s2)
                  else callR (\<lambda>e. RPC CodeInvalidArgument (Inl e))
                    (FinishRegistration w (dr_now dr) slug (if reqLabel = [] then ''passkey'' else reqLabel) (cp_SessionData p) parsed) s2)))"

definition MintEnrollmentToken :: "serviceEnv \<Rightarrow> draws \<Rightarrow> string \<Rightarrow> string \<Rightarrow> nat \<Rightarrow> ('z svc, string \<times> int) rpc" where
  "MintEnrollmentToken env dr userSlug intent ttlSeconds =
     (let ttl = (if ttlSeconds = 0 then 24 * 3600 * 1000000000 else int ttlSeconds * 1000000000) in
      bindR (callR internal (Mint (se_lib env) (dr_now dr) (dr_secret dr) userSlug intent ttl)) (\<lambda>plaintext.
      retR (plaintext, unix (dr_now dr + ttl))))"

definition RedeemEnrollmentToken :: "serviceEnv \<Rightarrow> draws \<Rightarrow> string \<Rightarrow> ('z svc, string \<times> string) rpc" where
  "RedeemEnrollmentToken env dr token =
     callR (\<lambda>e. if e \<in> {ErrEnrollmentInvalid, ErrEnrollmentExpired, ErrEnrollmentConsumed} then RPC CodeUnauthenticated (Inl e) else internal e)
       (Redeem (se_lib env) (dr_now dr) token)"

definition ChangePassword :: "serviceEnv \<Rightarrow> draws \<Rightarrow> reqContext \<Rightarrow> string \<Rightarrow> string \<Rightarrow> ('z svc, unit) rpc" where
  "ChangePassword env dr ctx oldPlaintext newPlaintext =
     (case cx_principal ctx of
        None \<Rightarrow> throwR notAuthenticated
      | Some p \<Rightarrow>
          bindR (callR internal (Password_Verify (se_lib env) (se_argon env) (slugOf p) oldPlaintext)) (\<lambda>(ok, _).
          if \<not> ok then throwR invalidCredentials
          else callR internal (Password_Set (se_lib env) (se_argon env) (dr_now dr) (dr_secret dr) (slugOf p) newPlaintext (p_ID p))))"

definition ExplainAuthorization ::
  "Runtime option \<Rightarrow> (Principal \<Rightarrow> RoleSlug list) \<Rightarrow> string \<Rightarrow> Action \<Rightarrow> AuthTarget \<Rightarrow> ('z svc, Trace) rpc" where
  "ExplainAuthorization rt rolesFor userSlug action target =
     bindR (callR userNotFound (Identity_Get userSlug)) (\<lambda>u.
     case rt of
       None \<Rightarrow> throwR (RPC CodeUnimplemented (Inr ''policy runtime not configured''))
     | Some r \<Rightarrow> retR (Explain r rolesFor \<lparr>p_ID = ''user:'' @ Slug u, p_DisplayName = [], p_Kind = ''user'', p_Metadata = []\<rparr> action target))"

section \<open>The users of a configuration\<close>

record ConfigUser =
  cu_user :: User
  cu_BootstrapPasswordHash :: string

text \<open>\<open>fmt.Errorf\<close> with \<open>%w\<close>: \<open>errors.Is\<close> sees through it.\<close>

definition wrapA :: "string \<Rightarrow> ('s, 'a) astep \<Rightarrow> ('s, 'a) astep" where
  "wrapA msg m s = (case m s of (Inl (PlainErr e), s') \<Rightarrow> (Inl (PlainErr (msg @ '': '' @ e)), s') | r \<Rightarrow> r)"

definition applyAuthSnapshot :: "lib \<Rightarrow> gotime \<Rightarrow> ConfigUser list \<Rightarrow> ((auth_db, 'm, 'z) store_scheme, unit) astep" where
  "applyAuthSnapshot l now users =
     bindA (sql (ApplySnapshot (map cu_user users))) (\<lambda>_.
     foldr (\<lambda>u rest. bindA (if cu_BootstrapPasswordHash u \<noteq> []
       then wrapA (''bootstrap password for '' @ Slug (cu_user u)) (BootstrapHash l now (Slug (cu_user u)) (cu_BootstrapPasswordHash u) ''system:bootstrap'')
       else retA ()) (\<lambda>_. rest)) users (retA ()))"

end
