(* ===== verification/Auth_Properties.thy ===== *)
theory Auth_Properties
  imports Auth_Service
begin

text \<open>
  What the interceptors and the handlers guarantee: who a request that gets through belongs to, what it takes to
  log in and how often one can try, what a change of password does; and what they do not: no policy is
  enforced and deactivating a user ends nothing.
\<close>

section \<open>The handlers on a database that does not fail\<close>

lemma calm_sql [simp]:
  "faults s = [] \<Longrightarrow> sql (dbExec f) s = (Inr (), s\<lparr>db := f (db s)\<rparr>)"
  "faults s = [] \<Longrightarrow> sql (dbQuery g) s = (Inr (g (db s)), s)"
  "faults s = [] \<Longrightarrow> sql (wrapS e (dbQuery g)) s = (Inr (g (db s)), s)"
  by (simp_all add: sql_def wrapS_def)

lemma calm_dbTry [simp]:
  "faults s = [] \<Longrightarrow> sql (dbTry f) s = (case f (db s) of Inl e \<Rightarrow> (Inl (PlainErr e), s) | Inr d \<Rightarrow> (Inr (), s\<lparr>db := d\<rparr>))"
  by (simp add: sql_def dbTry_def bindS_def failS_def split: sum.splits)

definition blocked :: "ThrottleConfig \<Rightarrow> gotime \<Rightarrow> attempt_row list \<Rightarrow> bool" where
  "blocked c now rows \<longleftrightarrow> length rows \<ge> 2 ^ 32 \<or> (length rows \<ge> Threshold c \<and>
     (Block c = 0 \<or> now < time_Unix (fold max (map aa_attempted_at rows) 0) 0 + Block c))"

lemma Check_calm:
  assumes "faults s = []"
  shows "callR (\<lambda>_. throttled) (Check c now ip m) s =
    (if blocked c now (recentFailures c now (bucketOf ip m) (auth_attempts (db s))) then (Inl throttled, s) else (Inr (), s))"
  using assms by (simp add: callR_def Check_def bindA_def Let_def throwA_def retA_def blocked_def)

definition goodPassword :: "lib \<Rightarrow> string \<Rightarrow> string \<Rightarrow> auth_db \<Rightarrow> bool option" where
  "goodPassword l slug pw d =
     (case map_of (auth_passwords d) slug of None \<Rightarrow> Some False
      | Some r \<Rightarrow> (case Password_decode l (pw_hash r) of Inl _ \<Rightarrow> None | Inr (p, salt, h) \<Rightarrow> Some (argon2 l pw salt p (length h) = h)))"

text \<open>Whether the user may log in with a password.\<close>

definition mayLogin :: "string \<Rightarrow> auth_db \<Rightarrow> bool" where
  "mayLogin slug d \<longleftrightarrow> (\<exists>u. map_of (auth_users d) slug = Some u \<and> us_active u \<and> us_password_allowed u)"

definition addAttempt :: "gotime \<Rightarrow> string \<Rightarrow> string \<Rightarrow> bool \<Rightarrow> auth_db \<Rightarrow> auth_db" where
  "addAttempt now ip m ok d = d\<lparr>auth_attempts := auth_attempts d @ [\<lparr>aa_bucket = bucketOf ip m, aa_attempted_at = unix now, aa_succeeded = ok\<rparr>]\<rparr>"

lemma Record_calm: "faults s = [] \<Longrightarrow> Record now ip m ok s = (Inr (), s\<lparr>db := addAttempt now ip m ok (db s)\<rparr>)"
  by (simp add: Record_def addAttempt_def)

lemma Password_Verify_calm:
  "faults s = [] \<Longrightarrow> callR internal (Password_Verify l a slug pw) s =
     (case goodPassword l slug pw (db s) of
        None \<Rightarrow> (Inl (internal (PlainErr (projl (Password_decode l (pw_hash (the (map_of (auth_passwords (db s)) slug))))))), s)
      | Some False \<Rightarrow> (Inr (False, False), s)
      | Some True \<Rightarrow> (Inr (True, fst (projr (Password_decode l (pw_hash (the (map_of (auth_passwords (db s)) slug))))) \<noteq> a), s))"
  by (auto simp: callR_def Password_Verify_def bindA_def goodPassword_def retA_def throwA_def split: option.splits sum.splits prod.splits)

lemma Password_Set_calm:
  "faults s = [] \<Longrightarrow> callR h (Password_Set l p now salt slug pw setBy) s = (Inr (), s\<lparr>db := (db s)\<lparr>auth_passwords := AList.update slug
     \<lparr>pw_hash = Password_encode l p salt pw, pw_set_at = unix now, pw_set_by = setBy\<rparr> (auth_passwords (db s))\<rparr>\<rparr>)"
  by (simp add: callR_def Password_Set_def)

lemma loginPassword_calm:
  assumes "faults s = []"
  shows "loginPassword env dr ctx req s =
    (let ip = cx_remoteAddr ctx; now = dr_now dr; d = db s; name = lr_Username req; l = se_lib env in
     if blocked (se_throttle env) now (recentFailures (se_throttle env) now (bucketOf ip ''password'') (auth_attempts d)) then (Inl throttled, s)
     else if \<not> mayLogin name d then (Inl invalidCredentials, s\<lparr>db := addAttempt now ip ''password'' False d\<rparr>)
     else case goodPassword l name (lr_Password req) d of
       None \<Rightarrow> (Inl (internal (PlainErr (projl (Password_decode l (pw_hash (the (map_of (auth_passwords d) name))))))), s)
     | Some False \<Rightarrow> (Inl invalidCredentials, s\<lparr>db := addAttempt now ip ''password'' False d\<rparr>)
     | Some True \<Rightarrow> issueSession env dr ctx name ''password'' (s\<lparr>db := addAttempt now ip ''password'' True d\<rparr>))"
proof (cases "map_of (auth_users (db s)) (lr_Username req)")
  case None
  with assms show ?thesis
    by (simp add: loginPassword_def Let_def bindR_def Check_calm Identity_Get_def bindA_def throwA_def mayLogin_def failAttempt_def ignoreR_def
        Record_calm throwR_def)
next
  case (Some u)
  then have get: "Identity_Get (lr_Username req) s = (Inr (userFrom (lr_Username req) u (rolesOf (lr_Username req) (db s))), s)"
    using assms by (simp add: Identity_Get_def bindA_def retA_def)
  have m: "mayLogin (lr_Username req) (db s) = (us_active u \<and> us_password_allowed u)" using Some by (simp add: mayLogin_def)
  show ?thesis using assms
    by (auto simp: loginPassword_def Let_def bindR_def Check_calm get m userFrom_def failAttempt_def ignoreR_def Record_calm throwR_def
        Password_Verify_calm split: option.splits bool.splits)
qed

section \<open>Logging in\<close>

definition passwordRequest :: "LoginRequest \<Rightarrow> bool" where
  "passwordRequest req \<longleftrightarrow> lr_PublicKeyCredential req = [] \<and> lr_WebauthnChallengeId req = []"

lemma Login_password: "passwordRequest req \<Longrightarrow> Login env dr ctx req = loginPassword env dr ctx req"
  by (simp add: Login_def passwordRequest_def fun_eq_iff)

lemma issueSession_calm:
  assumes "faults s = []" "cx_writer ctx" "map_of (auth_sessions (db s)) (dr_id dr) = None"
  shows "\<exists>access refresh s'. issueSession env dr ctx slug m s =
      (Inr (\<lparr>sd_SessionID = dr_id dr, sd_UserSlug = slug, sd_AuthMethod = m\<rparr>, access, refresh), s') \<and> faults s' = [] \<and>
      Sessions_Issue (se_lib env) (se_sessions env) (dr_now dr) (dr_id dr) (b32enc (se_lib env) (dr_secret dr))
        \<lparr>in_UserSlug = slug, in_AuthMethod = m, in_RemoteIP = cx_remoteAddr ctx, in_UserAgent = cx_userAgent ctx\<rparr> s =
      (Inr (\<lparr>sd_SessionID = dr_id dr, sd_UserSlug = slug, sd_AuthMethod = m\<rparr>, access, refresh), s')"
  using assms by (simp add: issueSession_def callR_def Sessions_Issue_def bindA_def insertNew_def retA_def writeCookies_def)


section \<open>How often one can guess\<close>

text \<open>
  Times in seconds, in order, such that an event with \<open>k\<close> or more others in the \<open>w\<close> seconds before it
  comes \<open>b\<close> seconds after the last of them.
\<close>

inductive paced :: "int \<Rightarrow> int \<Rightarrow> nat \<Rightarrow> int list \<Rightarrow> bool" for w b k where
  nil: "paced w b k []"
| snoc: "paced w b k ts \<Longrightarrow> (\<And>t. t \<in> set ts \<Longrightarrow> t \<le> u)
    \<Longrightarrow> (length (filter (\<lambda>t. u - w \<le> t) ts) \<ge> k \<Longrightarrow> \<forall>t \<in> set ts. u - w \<le> t \<longrightarrow> t + b \<le> u) \<Longrightarrow> paced w b k (ts @ [u])"

lemma length_filter_mono: "(\<And>x. P x \<Longrightarrow> Q x) \<Longrightarrow> length (filter P xs) \<le> length (filter Q xs)"
  by (induction xs) auto

lemma paced_last: "paced w b k ts \<Longrightarrow> t \<in> set ts \<Longrightarrow> t \<le> last ts"
  by (induction rule: paced.induct) auto

lemma paced_spread:
  assumes "paced w b k ts" "0 < b" "0 < k"
  shows "ts \<noteq> [] \<Longrightarrow> last ts \<le> a + w \<Longrightarrow> length (filter (\<lambda>t. a \<le> t) ts) > k
    \<Longrightarrow> a + int (length (filter (\<lambda>t. a \<le> t) ts) - k) * b \<le> last ts"
  using assms(1)
proof (induction arbitrary: a rule: paced.induct)
  case (snoc ts u)
  let ?n = "length (filter (\<lambda>t. a \<le> t) ts)"
  have au: "a \<le> u"
  proof (rule ccontr)
    assume "\<not> a \<le> u"
    then have "filter (\<lambda>t. a \<le> t) ts = []" using snoc.hyps(2) by (fastforce simp: filter_empty_conv)
    with \<open>\<not> a \<le> u\<close> snoc.prems(3) show False by simp
  qed
  with snoc.prems(3) have n: "k \<le> ?n" by simp
  have "?n \<le> length (filter (\<lambda>t. u - w \<le> t) ts)"
    using snoc.prems(2) by (intro length_filter_mono) simp
  with n snoc.hyps(3) have b: "\<forall>t \<in> set ts. u - w \<le> t \<longrightarrow> t + b \<le> u" by simp
  have "filter (\<lambda>t. a \<le> t) ts \<noteq> []" using n assms(3) by auto
  then obtain t0 where t0: "t0 \<in> set ts" "a \<le> t0" by (auto simp: filter_empty_conv)
  show ?case
  proof (cases "?n = k")
    case True
    with au t0 b snoc.prems(2) show ?thesis by fastforce
  next
    case False
    have ne: "ts \<noteq> []" using t0 by auto
    have "u - w \<le> last ts" using paced_last [OF snoc.hyps(1) t0(1)] t0(2) snoc.prems(2) by simp
    with b ne have l: "last ts + b \<le> u" by simp
    then have "last ts \<le> a + w" using snoc.prems(2) assms(2) by simp
    from snoc.IH [OF ne this] False n l au show ?thesis
      by (simp add: Suc_diff_le algebra_simps)
  qed
qed simp

lemma paced_bound:
  assumes "paced w b k ts" "0 < b" "0 < k" "0 \<le> w"
  shows "length (filter (\<lambda>t. a \<le> t \<and> t \<le> a + w) ts) \<le> k + nat (w div b)"
  using assms(1)
proof (induction rule: paced.induct)
  case (snoc ts u)
  show ?case
  proof (cases "a \<le> u \<and> u \<le> a + w")
    case False
    then show ?thesis using snoc.IH by auto
  next
    case True
    let ?n = "length (filter (\<lambda>t. a \<le> t) (ts @ [u]))"
    have p: "paced w b k (ts @ [u])" using snoc.hyps by (rule paced.snoc)
    have "?n \<le> k + nat (w div b)"
    proof (cases "k < ?n")
      case big: True
      from paced_spread [OF p assms(2,3), of a] True big have "int (?n - k) * b \<le> w" by auto
      from zdiv_mono1 [OF this assms(2)] have "int (?n - k) \<le> w div b" using assms(2) by simp
      then show ?thesis using big by linarith
    qed simp
    moreover have "length (filter (\<lambda>t. a \<le> t \<and> t \<le> a + w) (ts @ [u])) \<le> ?n" by (intro length_filter_mono) simp
    ultimately show ?thesis by linarith
  qed
qed simp

text \<open>
  A daemon that serves logins one after the other, with sweeps of the throttle and calls that do not touch the
  attempts by password in between. Kept beside the store: every wrong guess that was answered, as the address
  and the second.
\<close>

definition failTimes :: "string \<Rightarrow> attempt_row list \<Rightarrow> int list" where
  "failTimes bucket rows = map aa_attempted_at (filter (\<lambda>r. aa_bucket r = bucket \<and> \<not> aa_succeeded r) rows)"

inductive loginReach :: "serviceEnv \<Rightarrow> (string \<times> int) list \<Rightarrow> gotime \<Rightarrow> 'z svc \<Rightarrow> bool" for env where
  start: "auth_attempts (db s) = [] \<Longrightarrow> faults s = [] \<Longrightarrow> loginReach env [] t s"
| login: "loginReach env g t s \<Longrightarrow> t \<le> dr_now dr \<Longrightarrow> passwordRequest req \<Longrightarrow> Login env dr ctx req s = (r, s')
    \<Longrightarrow> loginReach env (if r = Inl invalidCredentials then g @ [(cx_remoteAddr ctx, unix (dr_now dr))] else g) (dr_now dr) s'"
| sweep: "loginReach env g t s \<Longrightarrow> t \<le> now \<Longrightarrow> Throttle_Sweep (se_throttle env) now s = (r, s') \<Longrightarrow> loginReach env g now s'"
| other: "loginReach env g t s \<Longrightarrow> faults s' = [] \<Longrightarrow>
    (\<And>ip. failTimes (bucketOf ip ''password'') (auth_attempts (db s')) = failTimes (bucketOf ip ''password'') (auth_attempts (db s)))
    \<Longrightarrow> loginReach env g t s'"

definition guesses :: "string \<Rightarrow> (string \<times> int) list \<Rightarrow> int list" where
  "guesses ip g = map snd (filter (\<lambda>(a, _). a = ip) g)"

definition secondsOf :: "duration \<Rightarrow> int \<Rightarrow> bool" where
  "secondsOf d n \<longleftrightarrow> d = n * 1000000000"

text \<open>The failures in the window are the guesses in the window, and the guesses are paced.\<close>

definition guessInv :: "int \<Rightarrow> int \<Rightarrow> nat \<Rightarrow> (string \<times> int) list \<Rightarrow> gotime \<Rightarrow> 'z svc \<Rightarrow> bool" where
  "guessInv w b k g t s \<longleftrightarrow> faults s = [] \<and> (\<forall>ip. (\<forall>u \<in> set (guesses ip g). u \<le> unix t) \<and> paced w b k (guesses ip g) \<and>
     filter (\<lambda>u. unix t - w \<le> u) (failTimes (bucketOf ip ''password'') (auth_attempts (db s))) = filter (\<lambda>u. unix t - w \<le> u) (guesses ip g))"

lemma unix_window: "secondsOf d n \<Longrightarrow> unix (t - d) = unix t - n"
  by (simp add: secondsOf_def unix_def)

lemma filter_window: "a \<le> (b :: int) \<Longrightarrow> filter (\<lambda>u. a \<le> u) xs = filter (\<lambda>u. a \<le> u) ys \<Longrightarrow> filter (\<lambda>u. b \<le> u) xs = filter (\<lambda>u. b \<le> u) ys"
proof -
  assume ab: "a \<le> b" and eq: "filter (\<lambda>u. a \<le> u) xs = filter (\<lambda>u. a \<le> u) ys"
  have "filter (\<lambda>u. b \<le> u) zs = filter (\<lambda>u. b \<le> u) (filter (\<lambda>u. a \<le> u) zs)" for zs
    using ab by (auto simp: filter_filter intro!: filter_cong)
  with eq show ?thesis by metis
qed

lemma recentFailures_times:
  "secondsOf (Window c) w \<Longrightarrow> map aa_attempted_at (recentFailures c now bucket rows) = filter (\<lambda>u. unix now - w \<le> u) (failTimes bucket rows)"
  by (induction rows) (auto simp: recentFailures_def failTimes_def unix_window)

lemma guessInv_time: "guessInv w b k g t s \<Longrightarrow> t \<le> t' \<Longrightarrow> guessInv w b k g t' s"
  unfolding guessInv_def using unix_mono [of t t'] by (fastforce intro: filter_window [of "unix t - w" "unix t' - w"])

lemma fold_max_ge: "(a :: int) \<in> set xs \<union> {z} \<Longrightarrow> a \<le> fold max xs z"
proof (induction xs arbitrary: a z)
  case (Cons x xs)
  show ?case
  proof (cases "a = x \<or> a = z")
    case True
    have "max x z \<le> fold max xs (max x z)" by (rule Cons.IH) simp
    with True show ?thesis by auto
  qed (use Cons in auto)
qed simp

lemma not_blocked_pace:
  assumes "\<not> blocked c now rows" "secondsOf (Block c) b" "0 < b" "length rows \<ge> Threshold c" "u \<in> set (map aa_attempted_at rows)"
  shows "u + b \<le> unix now"
proof -
  have "u \<le> fold max (map aa_attempted_at rows) 0" using assms(5) by (intro fold_max_ge) simp
  moreover have "time_Unix (fold max (map aa_attempted_at rows) 0) 0 + Block c \<le> now" using assms(1-4) by (auto simp: blocked_def secondsOf_def)
  ultimately have "(u + b) * 1000000000 \<le> now" using assms(2) by (simp add: secondsOf_def time_Unix_def algebra_simps)
  then show ?thesis unfolding unix_def by (simp add: zdiv_mono1 [of "(u + b) * 1000000000" now 1000000000, simplified])
qed

lemma issueSession_attempts:
  "faults s = [] \<Longrightarrow> issueSession env dr ctx slug m s = (r, s') \<Longrightarrow> faults s' = [] \<and> auth_attempts (db s') = auth_attempts (db s)"
  by (auto simp: issueSession_def throwR_def callR_def Sessions_Issue_def bindA_def retA_def insertNew_def split: if_splits sum.splits prod.splits)

lemma loginPassword_attempts:
  assumes calm: "faults s = []" and run: "loginPassword env dr ctx req s = (r, s')"
  shows "faults s' = [] \<and>
    (r = Inl invalidCredentials \<and> auth_attempts (db s') = auth_attempts (addAttempt (dr_now dr) (cx_remoteAddr ctx) ''password'' False (db s)) \<and>
       \<not> blocked (se_throttle env) (dr_now dr) (recentFailures (se_throttle env) (dr_now dr) (bucketOf (cx_remoteAddr ctx) ''password'') (auth_attempts (db s))) \<or>
     r \<noteq> Inl invalidCredentials \<and> (auth_attempts (db s') = auth_attempts (db s) \<or>
       auth_attempts (db s') = auth_attempts (addAttempt (dr_now dr) (cx_remoteAddr ctx) ''password'' True (db s))))"
proof (cases "goodPassword (se_lib env) (lr_Username req) (lr_Password req) (db s) = Some True")
  case False
  then show ?thesis using run calm unfolding loginPassword_calm [OF calm] Let_def
    by (cases "goodPassword (se_lib env) (lr_Username req) (lr_Password req) (db s)")
      (auto simp: throttled_def invalidCredentials_def split: if_splits bool.splits)
next
  case True
  let ?s = "s\<lparr>db := addAttempt (dr_now dr) (cx_remoteAddr ctx) ''password'' True (db s)\<rparr>"
  obtain r1 s1 where i: "issueSession env dr ctx (lr_Username req) ''password'' ?s = (r1, s1)" by fastforce
  have "r1 \<noteq> Inl invalidCredentials"
    using i by (auto simp: issueSession_def throwR_def callR_def noWriter_def invalidCredentials_def split: if_splits sum.splits prod.splits)
  moreover have "faults s1 = []" "auth_attempts (db s1) = auth_attempts (db ?s)" using issueSession_attempts [OF _ i] calm by simp_all
  ultimately show ?thesis using run calm True i unfolding loginPassword_calm [OF calm] Let_def
    by (auto simp: throttled_def invalidCredentials_def split: if_splits)
qed

lemma guessInv_login:
  assumes inv: "guessInv w b (Threshold (se_throttle env)) g t s" and time: "t \<le> dr_now dr" and req: "passwordRequest req"
    and run: "Login env dr ctx req s = (r, s')"
    and secs: "secondsOf (Window (se_throttle env)) w" "secondsOf (Block (se_throttle env)) b" "0 < b" "0 \<le> w"
  shows "guessInv w b (Threshold (se_throttle env)) (if r = Inl invalidCredentials then g @ [(cx_remoteAddr ctx, unix (dr_now dr))] else g) (dr_now dr) s'"
proof -
  let ?c = "se_throttle env" and ?now = "dr_now dr" and ?ip = "cx_remoteAddr ctx"
  let ?rows = "recentFailures ?c ?now (bucketOf ?ip ''password'') (auth_attempts (db s))"
  have inv': "guessInv w b (Threshold ?c) g ?now s" using inv time by (rule guessInv_time)
  then have calm: "faults s = []" by (simp add: guessInv_def)
  have bucket: "bucketOf a ''password'' = bucketOf a' ''password'' \<longleftrightarrow> a = a'" for a a' by (simp add: bucketOf_def)
  note out = loginPassword_attempts [OF calm run [unfolded Login_password [OF req]]]
  show ?thesis
  proof (cases "r = Inl invalidCredentials")
    case True
    with out have nb: "\<not> blocked ?c ?now ?rows" and s': "faults s' = []" "auth_attempts (db s') = auth_attempts (addAttempt ?now ?ip ''password'' False (db s))"
      by auto
    have rec: "map aa_attempted_at ?rows = filter (\<lambda>u. unix ?now - w \<le> u) (guesses ?ip g)"
      using inv' by (simp add: recentFailures_times [OF secs(1)] guessInv_def)
    have "paced w b (Threshold ?c) (guesses ?ip g @ [unix ?now])"
    proof (rule paced.snoc)
      show "paced w b (Threshold ?c) (guesses ?ip g)" "\<And>u. u \<in> set (guesses ?ip g) \<Longrightarrow> u \<le> unix ?now" using inv' by (auto simp: guessInv_def)
      assume many: "Threshold ?c \<le> length (filter (\<lambda>u. unix ?now - w \<le> u) (guesses ?ip g))"
      then have "Threshold ?c \<le> length ?rows" using rec by (metis length_map)
      from not_blocked_pace [OF nb secs(2,3) this, unfolded rec] show "\<forall>u \<in> set (guesses ?ip g). unix ?now - w \<le> u \<longrightarrow> u + b \<le> unix ?now" by simp
    qed
    then show ?thesis using inv' s' True secs(4)
      by (auto simp: guessInv_def guesses_def addAttempt_def failTimes_def bucket)
  next
    case False
    with out have "faults s' = []" "\<And>ip. failTimes (bucketOf ip ''password'') (auth_attempts (db s')) = failTimes (bucketOf ip ''password'') (auth_attempts (db s))"
      by (auto simp: failTimes_def addAttempt_def)
    with inv' False show ?thesis by (simp add: guessInv_def)
  qed
qed

lemma guessInv_reach:
  assumes "loginReach env g t s" "secondsOf (Window (se_throttle env)) w" "secondsOf (Block (se_throttle env)) b" "0 < b" "0 \<le> w"
  shows "guessInv w b (Threshold (se_throttle env)) g t s"
  using assms(1)
proof (induction rule: loginReach.induct)
  case (start s t)
  then show ?case by (simp add: guessInv_def guesses_def failTimes_def paced.nil)
next
  case (login g t s dr req ctx r s')
  then show ?case using guessInv_login assms(2-5) by blast
next
  case (sweep g t s now r s')
  have inv: "guessInv w b (Threshold (se_throttle env)) g now s" using sweep by (blast intro: guessInv_time)
  then have calm: "faults s = []" by (simp add: guessInv_def)
  have "faults s' = []" and db: "auth_attempts (db s') = filter (\<lambda>r. unix now - w \<le> aa_attempted_at r) (auth_attempts (db s))"
    using sweep.hyps(3) calm by (auto simp: Throttle_Sweep_def unix_window [OF assms(2)] not_less)
  moreover have "filter (\<lambda>u. unix now - w \<le> u) (failTimes k (filter (\<lambda>r. unix now - w \<le> aa_attempted_at r) rows)) =
      filter (\<lambda>u. unix now - w \<le> u) (failTimes k rows)" for k rows
    by (induction rows) (auto simp: failTimes_def)
  ultimately show ?case using inv by (simp add: guessInv_def)
next
  case (other g t s s')
  then show ?case by (simp add: guessInv_def)
qed

text \<open>
  C17. However many passwords somebody tries, for whatever users, from one remote address (the host and port of the
  connection) at most \<open>Threshold + Window / Block\<close> wrong ones are looked at in any stretch of time as long as the window, when logins
  are served one after the other; with the daemon's settings eight in fifteen minutes.
\<close>

theorem guess_rate:
  assumes "loginReach env g t s" "secondsOf (Window (se_throttle env)) w" "secondsOf (Block (se_throttle env)) b"
    and "0 < b" "0 \<le> w" "0 < Threshold (se_throttle env)"
  shows "length (filter (\<lambda>(a, u). a = ip \<and> from \<le> u \<and> u \<le> from + w) g) \<le> Threshold (se_throttle env) + nat (w div b)"
proof -
  have "paced w b (Threshold (se_throttle env)) (guesses ip g)"
    using guessInv_reach [OF assms(1-5)] by (simp add: guessInv_def)
  from paced_bound [OF this assms(4,6,5), of "from"]
  have "length (filter (\<lambda>t. from \<le> t \<and> t \<le> from + w) (guesses ip g)) \<le> Threshold (se_throttle env) + nat (w div b)" .
  moreover have "length (filter (\<lambda>t. from \<le> t \<and> t \<le> from + w) (guesses ip g)) =
      length (filter (\<lambda>(a, u). a = ip \<and> from \<le> u \<and> u \<le> from + w) g)"
    by (induction g) (auto simp: guesses_def)
  ultimately show ?thesis by simp
qed

definition daemonThrottle :: ThrottleConfig where
  "daemonThrottle = \<lparr>Window = 15 * 60 * 1000000000, Threshold = 5, Block = 5 * 60 * 1000000000\<rparr>"

definition daemonSessions :: "bytes \<Rightarrow> SessionConfig" where
  "daemonSessions key = \<lparr>Key = key, AccessTTL = 15 * 60 * 1000000000, RefreshTTL = 7 * 24 * 3600 * 1000000000, RefreshIdle = 24 * 3600 * 1000000000\<rparr>"

definition exEnv :: serviceEnv where
  "exEnv = \<lparr>se_lib = exampleLib, se_throttle = daemonThrottle, se_argon = \<lparr>ap_Time = 3, ap_MemoryKiB = 65536, ap_Parallelism = 4\<rparr>,
     se_sessions = daemonSessions ''k'', se_refreshName = ''switchyard_refresh'', se_passkeys = None, se_challengeTTL = 300000000000\<rparr>"

definition exCtx :: reqContext where
  "exCtx = \<lparr>cx_principal = None, cx_scope = None, cx_remoteAddr = ''10.0.0.7'', cx_userAgent = [], cx_writer = True, cx_http = Some []\<rparr>"

definition exDraws :: draws where
  "exDraws = \<lparr>dr_now = 1000000000, dr_id = ''S1'', dr_secret = ''x''\<rparr>"

definition exRequest :: LoginRequest where
  "exRequest = \<lparr>lr_Username = ''fdatoo'', lr_Password = ''pw'', lr_PublicKeyCredential = [], lr_WebauthnChallengeId = []\<rparr>"

definition svcOf :: "auth_db \<Rightarrow> (auth_db, authMem) store" where
  "svcOf d = \<lparr>cfg = cfg (storeOf d), db = d, mem = \<lparr>items = [], tokenScopeCache = \<lambda>_. None\<rparr>, faults = [], latestPosition = 0, started = True\<rparr>"

lemma svcOf_sel [simp]: "db (svcOf d) = d" "faults (svcOf d) = []" "mem (svcOf d) = \<lparr>items = [], tokenScopeCache = \<lambda>_. None\<rparr>"
  by (simp_all add: svcOf_def)

theorem guess_rate_witness:
  "\<exists>s'. Login exEnv exDraws exCtx exRequest (svcOf emptyAuth) = (Inl invalidCredentials, s') \<and>
     length (filter (\<lambda>(a, u). a = ''10.0.0.7'' \<and> 0 \<le> u \<and> u \<le> 0 + 900) [(''10.0.0.7'', 1)]) \<le> Threshold (se_throttle exEnv) + nat (900 div 300)"
proof -
  have pr: "passwordRequest exRequest" by (simp add: passwordRequest_def exRequest_def)
  have run: "Login exEnv exDraws exCtx exRequest (svcOf emptyAuth) = (Inl invalidCredentials,
      (svcOf emptyAuth)\<lparr>db := addAttempt 1000000000 ''10.0.0.7'' ''password'' False emptyAuth\<rparr>)"
    by (simp add: Login_password [OF pr] loginPassword_calm Let_def)
      (simp add: exEnv_def exDraws_def exCtx_def exRequest_def daemonThrottle_def blocked_def recentFailures_def mayLogin_def emptyAuth_def)
  have "loginReach exEnv [] 0 (svcOf emptyAuth)" by (rule loginReach.start) (simp_all add: emptyAuth_def)
  from loginReach.login [OF this _ pr run]
  have "loginReach exEnv [(''10.0.0.7'', 1)] 1000000000 ((svcOf emptyAuth)\<lparr>db := addAttempt 1000000000 ''10.0.0.7'' ''password'' False emptyAuth\<rparr>)"
    by (simp add: exDraws_def exCtx_def unix_def)
  from guess_rate [OF this, of 900 300 "''10.0.0.7''" 0] run show ?thesis
    by (simp add: exEnv_def daemonThrottle_def secondsOf_def)
qed

section \<open>Who a request belongs to\<close>

definition scopeOfToken :: "tokenLog \<Rightarrow> string \<Rightarrow> bytes" where
  "scopeOfToken g k = (case map_of (tl_issued g) k of None \<Rightarrow> [] | Some (_, i, _) \<Rightarrow> it_Scope i)"

text \<open>The request carries a live token, and with it the scope that the token was issued with.\<close>

definition byToken ::
  "(bytes \<Rightarrow> error + TokenScope) \<Rightarrow> tokenLog \<Rightarrow> gotime \<Rightarrow> Principal \<Rightarrow> CompiledTokenScope option \<Rightarrow> bool" where
  "byToken unmarshal g now p scope \<longleftrightarrow> (\<exists>tokenID secret i t0. map_of (tl_issued g) tokenID = Some (secret, i, t0) \<and>
     tokenID \<notin> tl_revoked g \<and> \<not> tokenExpired i t0 now \<and> p_ID p = ''user:'' @ it_UserSlug i \<and>
     (if it_Scope i = [] then scope = None else \<exists>c. scope = Some c \<and> decodeScopeBlob unmarshal (it_Scope i) = Inr c))"

text \<open>The request carries the cookie of a session that is still there.\<close>

definition bySession :: "SessionConfig \<Rightarrow> ghost \<Rightarrow> gotime \<Rightarrow> auth_db \<Rightarrow> Principal \<Rightarrow> CompiledTokenScope option \<Rightarrow> bool" where
  "bySession c g now d p scope \<longleftrightarrow> (\<exists>sid user method t0 row. wasIssued g sid user method t0 \<and> unix now < unix (t0 + RefreshTTL c + AccessTTL c) \<and>
     map_of (auth_sessions d) sid = Some row \<and> ss_user_slug row = user \<and> p_ID p = ''user:'' @ user \<and>
     attr (p_Metadata p) ''session_id'' = sid \<and> scope = None)"

lemma sql_dbQuery_mem: "sql (dbQuery f) s = (r, s') \<Longrightarrow> mem s' = mem s"
  by (cases "dbQuery f s" rule: prod.exhaust) (auto simp: sql_def split: sum.splits dest!: dbQuery_Inr_both dbQuery_InlD)

lemma Tokens_Verify_mem: "Tokens_Verify l now p s = (r, s') \<Longrightarrow> mem s' = mem s"
  by (auto simp: Tokens_Verify_def throwA_def retA_def bindA_def split: list.splits if_splits option.splits prod.splits sum.splits dest!: sql_dbQuery_mem)

lemma VerifyAccess_mem: "VerifyAccess l c now ck s = (r, s') \<Longrightarrow> mem s' = mem s"
  by (auto simp: VerifyAccess_def throwA_def retA_def bindA_def split: if_splits option.splits prod.splits sum.splits dest!: sql_dbQuery_mem)

lemma Bearer_cases:
  assumes "tokenReach l g s" "Bearer l now req s = (r, s')"
  shows "r = Inl ErrNotApplicable \<and> s' = s \<or> (\<exists>e. r = Inl e \<and> e \<noteq> ErrNotApplicable) \<or>
    (db s' = db s \<and> mem s' = mem s \<and> (\<exists>tokenID secret i t0. map_of (tl_issued g) tokenID = Some (secret, i, t0) \<and> tokenID \<notin> tl_revoked g \<and> tokenID \<noteq> [] \<and>
      \<not> tokenExpired i t0 now \<and> r = Inr \<lparr>p_ID = ''user:'' @ it_UserSlug i, p_DisplayName = it_UserSlug i, p_Kind = ''user'',
        p_Metadata = [(''token_id'', tokenID), (''auth_method'', ''token'')] @ (if it_Scope i \<noteq> [] then [(''token_scope'', b64stdenc l (it_Scope i))] else [])\<rparr>))"
proof (cases "hasPrefix (rq_Authorization req) ''Bearer ''")
  case True
  obtain q s1 where q: "Tokens_Verify l now (trimPrefix (rq_Authorization req) ''Bearer '') s = (q, s1)" by fastforce
  show ?thesis
  proof (cases q)
    case (Inl e)
    with True q assms(2) show ?thesis by (auto simp: Bearer_def split: if_splits)
  next
    case (Inr lk)
    with q have ok: "Tokens_Verify l now (trimPrefix (rq_Authorization req) ''Bearer '') s = (Inr lk, s1)" by simp
    from Tokens_Verify_InrD [OF assms(1) ok] obtain tokenID secret i t0 where k: "map_of (tl_issued g) tokenID = Some (secret, i, t0)"
        "tokenID \<notin> tl_revoked g" "\<not> tokenExpired i t0 now" "tokenID \<noteq> []" "db s1 = db s"
        "lk = \<lparr>lk_TokenID = tokenID, lk_UserSlug = it_UserSlug i, lk_Label = it_Label i, lk_Scope = it_Scope i, lk_IssuedBy = it_IssuedBy i\<rparr>"
      unfolding tokenExpired_def by blast
    have "s' = s1" "r = Inr \<lparr>p_ID = ''user:'' @ it_UserSlug i, p_DisplayName = it_UserSlug i, p_Kind = ''user'',
        p_Metadata = [(''token_id'', tokenID), (''auth_method'', ''token'')] @ (if it_Scope i \<noteq> [] then [(''token_scope'', b64stdenc l (it_Scope i))] else [])\<rparr>"
      using True ok assms(2) k(6) by (cases "it_Scope i = []"; simp add: Bearer_def)+
    with k Tokens_Verify_mem [OF ok] show ?thesis by blast
  qed
qed (use assms(2) in \<open>simp add: Bearer_def\<close>)

lemma SessionCookie_cases:
  assumes "sessReach l c g s" "0 \<le> RefreshTTL c" "SessionCookie l c name now req s = (r, s')"
    and "\<And>cookies v. rq_HTTP req = Some cookies \<Longrightarrow> map_of cookies name = Some v \<Longrightarrow> unforged l (Key c) v (signed g)"
  shows "r = Inl ErrNotApplicable \<or> (\<exists>e. r = Inl e \<and> e \<noteq> ErrNotApplicable) \<or>
    (\<exists>p. r = Inr p \<and> p_Kind p = ''user'' \<and> bySession c g now (db s) p None \<and> map_of (p_Metadata p) ''token_scope'' = None)"
proof (cases "\<exists>cookies v. rq_HTTP req = Some cookies \<and> map_of cookies name = Some v")
  case True
  then obtain cookies v where v: "rq_HTTP req = Some cookies" "map_of cookies name = Some v" by blast
  obtain q s1 where q: "VerifyAccess l c now (Some v) s = (q, s1)" by fastforce
  show ?thesis
  proof (cases q)
    case (Inl e)
    with v q assms(3) show ?thesis by (auto simp: SessionCookie_def split: if_splits)
  next
    case (Inr p)
    with q have ok: "VerifyAccess l c now (Some v) s = (Inr p, s1)" by simp
    let ?p = "\<lparr>p_ID = ''user:'' @ sd_UserSlug p, p_DisplayName = sd_UserSlug p, p_Kind = ''user'',
      p_Metadata = [(''session_id'', sd_SessionID p), (''auth_method'', sd_AuthMethod p)]\<rparr>"
    have "r = Inr ?p" using v ok assms(3) by (simp add: SessionCookie_def)
    moreover have "bySession c g now (db s) ?p None"
      using sessionOwner [OF assms(1,2) assms(4) [OF v] ok] unfolding bySession_def attr_def by (simp, blast)
    ultimately show ?thesis by simp
  qed
qed (use assms(3) in \<open>auto simp: SessionCookie_def split: option.splits\<close>)

lemma chain_cases:
  assumes reach: "sessReach l c gs s" "0 \<le> RefreshTTL c" "tokenReach l gt s" and remote: "rq_PeerCred req = None"
    and cookie: "\<And>cookies v. rq_HTTP req = Some cookies \<Longrightarrow> map_of cookies name = Some v \<Longrightarrow> unforged l (Key c) v (signed gs)"
    and run: "chainAuthenticate (Build l c name now) req s = (Inr p, s')"
  shows "mem s' = mem s \<and> p_Kind p = ''user'' \<and>
    ((\<exists>tokenID secret i t0. map_of (tl_issued gt) tokenID = Some (secret, i, t0) \<and> tokenID \<notin> tl_revoked gt \<and> tokenID \<noteq> [] \<and>
      \<not> tokenExpired i t0 now \<and> p = \<lparr>p_ID = ''user:'' @ it_UserSlug i, p_DisplayName = it_UserSlug i, p_Kind = ''user'',
        p_Metadata = [(''token_id'', tokenID), (''auth_method'', ''token'')] @ (if it_Scope i \<noteq> [] then [(''token_scope'', b64stdenc l (it_Scope i))] else [])\<rparr>) \<or>
     (bySession c gs now (db s) p None \<and> map_of (p_Metadata p) ''token_scope'' = None))"
proof -
  obtain rb s1 where b: "Bearer l now req s = (rb, s1)" by fastforce
  have chain: "chainAuthenticate (Build l c name now) req s = chainAuthenticate [Bearer l now, SessionCookie l c name now, RejectAll] req s"
    by (simp add: Build_def LocalPeerCred_def remote)
  from Bearer_cases [OF reach(3) b] show ?thesis
  proof (elim disjE)
    assume na: "rb = Inl ErrNotApplicable \<and> s1 = s"
    obtain rc s2 where k: "SessionCookie l c name now req s = (rc, s2)" by fastforce
    have m: "mem s2 = mem s" using k VerifyAccess_mem by (fastforce simp: SessionCookie_def split: option.splits if_splits prod.splits sum.splits)
    from run chain na b k have "rc = Inr p" "s' = s2" by (auto simp: RejectAll_def split: sum.splits if_splits)
    with SessionCookie_cases [OF reach(1,2) k cookie] m show ?thesis by auto
  next
    assume "\<exists>e. rb = Inl e \<and> e \<noteq> ErrNotApplicable"
    with run chain b show ?thesis by auto
  next
    assume B: "db s1 = db s \<and> mem s1 = mem s \<and> (\<exists>tokenID secret i t0. map_of (tl_issued gt) tokenID = Some (secret, i, t0) \<and> tokenID \<notin> tl_revoked gt \<and> tokenID \<noteq> [] \<and>
      \<not> tokenExpired i t0 now \<and> rb = Inr \<lparr>p_ID = ''user:'' @ it_UserSlug i, p_DisplayName = it_UserSlug i, p_Kind = ''user'',
        p_Metadata = [(''token_id'', tokenID), (''auth_method'', ''token'')] @ (if it_Scope i \<noteq> [] then [(''token_scope'', b64stdenc l (it_Scope i))] else [])\<rparr>)"
    then have "rb = Inr p" "s' = s1" using run chain b by auto
    moreover from this B have "p_Kind p = ''user''" by auto
    ultimately show ?thesis using B by blast
  qed
qed

definition tokenPrincipal :: "lib \<Rightarrow> string \<Rightarrow> IssueTokenInput \<Rightarrow> Principal" where
  "tokenPrincipal l tokenID i = \<lparr>p_ID = ''user:'' @ it_UserSlug i, p_DisplayName = it_UserSlug i, p_Kind = ''user'',
     p_Metadata = [(''token_id'', tokenID), (''auth_method'', ''token'')] @ (if it_Scope i \<noteq> [] then [(''token_scope'', b64stdenc l (it_Scope i))] else [])\<rparr>"

text \<open>What the interceptor puts into the context after a principal was found.\<close>

lemma authenticate_scope:
  assumes auth: "authenticate l unmarshal chain ctx req s = (Inr ctx', s')" and guarded: "\<not> isPublicAuthProcedure (rq_Method req)"
    and chain: "chainAuthenticate chain (req\<lparr>rq_Scheme := (if rq_PeerCred req \<noteq> None then ''uds:peercred'' else ''bearer''), rq_HTTP := cx_http ctx\<rparr>) s = (Inr p, s1)"
  shows "cx_principal ctx' = Some p"
    and "map_of (p_Metadata p) ''token_scope'' = None \<Longrightarrow> cx_scope ctx' = cx_scope ctx \<and> s' = s1"
    and "map_of (p_Metadata p) ''token_scope'' = Some enc \<Longrightarrow> b64stddec l enc = Some blob \<Longrightarrow>
      \<exists>sc. decodeTokenScope unmarshal (sha256 l) (attr (p_Metadata p) ''token_id'') blob (tokenScopeCache (mem s1)) = (Inr sc, tokenScopeCache (mem s')) \<and>
        cx_scope ctx' = Some sc"
  using auth guarded chain
  by (auto simp: authenticate_def Let_def split: option.splits prod.splits sum.splits)

lemma token_request_scope:
  assumes auth: "authenticate l unmarshal chain ctx req s = (Inr ctx', s')" and guarded: "\<not> isPublicAuthProcedure (rq_Method req)"
    and chain: "chainAuthenticate chain (req\<lparr>rq_Scheme := (if rq_PeerCred req \<noteq> None then ''uds:peercred'' else ''bearer''), rq_HTTP := cx_http ctx\<rparr>) s =
      (Inr (tokenPrincipal l tokenID i), s1)"
    and iss: "map_of (tl_issued g) tokenID = Some (secret, i, t0)" "tokenID \<noteq> []" and l: "lib_ok l" and ctx: "cx_scope ctx = None"
    and cache: "scope_cache_ok unmarshal (scopeOfToken g) (tokenScopeCache (mem s1))"
  shows "(if it_Scope i = [] then cx_scope ctx' = None else \<exists>c. cx_scope ctx' = Some c \<and> decodeScopeBlob unmarshal (it_Scope i) = Inr c) \<and>
    scope_cache_ok unmarshal (scopeOfToken g) (tokenScopeCache (mem s'))"
proof (cases "it_Scope i = []")
  case True
  then have "map_of (p_Metadata (tokenPrincipal l tokenID i)) ''token_scope'' = None" by (simp add: tokenPrincipal_def)
  from authenticate_scope(2) [OF auth guarded chain this] True ctx cache show ?thesis by simp
next
  case False
  then have md: "map_of (p_Metadata (tokenPrincipal l tokenID i)) ''token_scope'' = Some (b64stdenc l (it_Scope i))"
      "attr (p_Metadata (tokenPrincipal l tokenID i)) ''token_id'' = tokenID"
    by (simp_all add: attr_def tokenPrincipal_def)
  have dec: "b64stddec l (b64stdenc l (it_Scope i)) = Some (it_Scope i)" using l by (simp add: lib_ok_def)
  have key: "scopeOfToken g (scopeCacheKey (sha256 l) tokenID (it_Scope i)) = it_Scope i"
    using iss by (simp add: scopeOfToken_def scopeCacheKey_def)
  from authenticate_scope(3) [OF auth guarded chain md(1) dec] md(2) decodeTokenScope_transparent [OF cache key] False show ?thesis by auto
qed


section \<open>What is not enforced\<close>

lemma authorize_unchecked:
  "authorize rt rolesFor None c m b = None" "authorize rt rolesFor catalog c m None = None"
  by (simp_all add: authorize_def Let_def split: option.splits)


text \<open>Calls that leave the tokens and sessions alone, on a database that does not fail.\<close>

definition sameCredentials :: "auth_db \<Rightarrow> auth_db \<Rightarrow> bool" where
  "sameCredentials d d' \<longleftrightarrow> auth_tokens d' = auth_tokens d \<and> auth_sessions d' = auth_sessions d"

definition keepsCredentials :: "((auth_db, 'm, 'z) store_scheme \<Rightarrow> ('e + 'a) \<times> (auth_db, 'm, 'z) store_scheme) \<Rightarrow> bool" where
  "keepsCredentials m \<longleftrightarrow> (\<forall>s. faults s = [] \<longrightarrow> faults (snd (m s)) = [] \<and> sameCredentials (db s) (db (snd (m s))))"

lemma keeps_basic:
  "(\<And>d. sameCredentials d (f d)) \<Longrightarrow> keepsCredentials (dbExec f)" "keepsCredentials (returnS x)" "keepsCredentials (retA x)" "keepsCredentials (throwA e)"
  by (simp_all add: keepsCredentials_def returnS_def retA_def throwA_def sameCredentials_def)

lemma keeps_dbTry: "(\<And>d d'. f d = Inr d' \<Longrightarrow> sameCredentials d d') \<Longrightarrow> keepsCredentials (dbTry f)"
  by (auto simp: keepsCredentials_def dbTry_def bindS_def failS_def sameCredentials_def split: sum.splits)

lemma keepsD: "keepsCredentials m \<Longrightarrow> faults s = [] \<Longrightarrow> faults (snd (m s)) = [] \<and> sameCredentials (db s) (db (snd (m s)))"
  by (simp add: keepsCredentials_def)

lemma keeps_bindS:
  assumes "keepsCredentials m" "\<And>x. keepsCredentials (f x)"
  shows "keepsCredentials (bindS m f)"
  unfolding keepsCredentials_def
proof (intro allI impI)
  fix s :: "(auth_db, 'a, 'b) store_scheme" assume s: "faults s = []"
  obtain r s1 where m: "m s = (r, s1)" by fastforce
  with keepsD [OF assms(1) s] have 1: "faults s1 = []" "sameCredentials (db s) (db s1)" by simp_all
  show "faults (snd (bindS m f s)) = [] \<and> sameCredentials (db s) (db (snd (bindS m f s)))"
  proof (cases r)
    case (Inr x)
    then show ?thesis using keepsD [OF assms(2) 1(1), of x] 1(2) by (simp add: bindS_def m sameCredentials_def)
  qed (use 1 in \<open>simp add: bindS_def m\<close>)
qed

lemma keeps_bindA:
  assumes "keepsCredentials m" "\<And>x. keepsCredentials (f x)"
  shows "keepsCredentials (bindA m f)"
  unfolding keepsCredentials_def
proof (intro allI impI)
  fix s :: "(auth_db, 'a, 'b) store_scheme" assume s: "faults s = []"
  obtain r s1 where m: "m s = (r, s1)" by fastforce
  with keepsD [OF assms(1) s] have 1: "faults s1 = []" "sameCredentials (db s) (db s1)" by simp_all
  show "faults (snd (bindA m f s)) = [] \<and> sameCredentials (db s) (db (snd (bindA m f s)))"
  proof (cases r)
    case (Inr x)
    then show ?thesis using keepsD [OF assms(2) 1(1), of x] 1(2) by (simp add: bindA_def m sameCredentials_def)
  qed (use 1 in \<open>simp add: bindA_def m\<close>)
qed

lemma snd_wrap: "snd (wrapS e m s) = snd (m s)" "snd (wrapA e' m' s') = snd (m' s')" "snd (sql m s) = snd (m s)"
  by (simp_all add: wrapS_def wrapA_def sql_def split: prod.split sum.split auth_error.split)

lemma keeps_wrap: "keepsCredentials m \<Longrightarrow> keepsCredentials (wrapS e m)" "keepsCredentials m' \<Longrightarrow> keepsCredentials (wrapA e' m')" "keepsCredentials m \<Longrightarrow> keepsCredentials (sql m)"
  by (simp_all add: keepsCredentials_def snd_wrap)

lemma keeps_forS: "(\<And>x. keepsCredentials (f x)) \<Longrightarrow> keepsCredentials (forS xs f)"
  by (induction xs) (auto intro: keeps_basic keeps_bindS)

lemma keeps_rollback: "keepsCredentials m \<Longrightarrow> keepsCredentials (\<lambda>s. case m s of (Inl e, s2) \<Rightarrow> (Inl e, s2\<lparr>db := db s\<rparr>) | (Inr x, s2) \<Rightarrow> (Inr x, s2))"
  unfolding keepsCredentials_def
proof (intro allI impI)
  fix s :: "(auth_db, 'a, 'b) store_scheme" assume m: "\<forall>s. faults s = [] \<longrightarrow> faults (snd (m s)) = [] \<and> sameCredentials (db s) (db (snd (m s)))"
    and s: "faults s = []"
  obtain r s1 where r: "m s = (r, s1)" by fastforce
  have "faults s1 = []" "sameCredentials (db s) (db s1)" using m s r by (metis snd_conv)+
  then show "faults (snd (case m s of (Inl e, s2) \<Rightarrow> (Inl e, s2\<lparr>db := db s\<rparr>) | (Inr x, s2) \<Rightarrow> (Inr x, s2))) = [] \<and>
      sameCredentials (db s) (db (snd (case m s of (Inl e, s2) \<Rightarrow> (Inl e, s2\<lparr>db := db s\<rparr>) | (Inr x, s2) \<Rightarrow> (Inr x, s2))))"
    by (cases r) (simp_all add: r sameCredentials_def)
qed

lemma keeps_txS:
  assumes "keepsCredentials body" shows "keepsCredentials (txS body)"
proof -
  let ?m = "bindS body (\<lambda>x. bindS (wrapS ''commit'' (dbExec id)) (\<lambda>_. returnS x))"
  have "keepsCredentials ?m"
    by (intro keeps_bindS keeps_wrap keeps_basic assms) (simp add: sameCredentials_def)
  then have "keepsCredentials (\<lambda>s. case ?m s of (Inl e, s2) \<Rightarrow> (Inl e, s2\<lparr>db := db s\<rparr>) | (Inr x, s2) \<Rightarrow> (Inr x, s2))"
    by (rule keeps_rollback)
  then show ?thesis unfolding txS_def
    by (intro keeps_bindS keeps_wrap keeps_basic) (simp_all add: sameCredentials_def)
qed

lemma keeps_ApplySnapshot: "keepsCredentials (ApplySnapshot users)"
  unfolding ApplySnapshot_def insertUserRoles_def
  by (intro keeps_txS keeps_bindS keeps_wrap keeps_forS keeps_basic keeps_dbTry)
    (auto simp: sameCredentials_def insertUser_def insertRole_def split: if_splits)

lemma keeps_applyAuthSnapshot: "keepsCredentials (applyAuthSnapshot l now users)"
proof -
  have "keepsCredentials (BootstrapHash l now slug h by)" for slug h "by"
    unfolding BootstrapHash_def by (cases "Password_decode l h") (auto intro!: keeps_wrap keeps_basic simp: sameCredentials_def)
  then have "keepsCredentials (foldr (\<lambda>u rest. bindA (if cu_BootstrapPasswordHash u \<noteq> []
       then wrapA (''bootstrap password for '' @ Slug (cu_user u)) (BootstrapHash l now (Slug (cu_user u)) (cu_BootstrapPasswordHash u) ''system:bootstrap'')
       else retA ()) (\<lambda>_. rest)) users (retA ()))"
    by (induction users) (auto intro!: keeps_bindA keeps_wrap keeps_basic)
  then show ?thesis unfolding applyAuthSnapshot_def by (intro keeps_bindA keeps_wrap keeps_ApplySnapshot) 
qed

lemma Tokens_Verify_same:
  "faults s = [] \<Longrightarrow> faults s' = [] \<Longrightarrow> auth_tokens (db s') = auth_tokens (db s) \<Longrightarrow> fst (Tokens_Verify l now p s') = fst (Tokens_Verify l now p s)"
  by (simp add: Tokens_Verify_def bindA_def throwA_def retA_def split: list.splits option.splits)

lemma VerifyAccess_same:
  "faults s = [] \<Longrightarrow> faults s' = [] \<Longrightarrow> auth_sessions (db s') = auth_sessions (db s) \<Longrightarrow> fst (VerifyAccess l c now ck s') = fst (VerifyAccess l c now ck s)"
  by (simp add: VerifyAccess_def bindA_def throwA_def retA_def split: sum.splits option.splits)

lemma calm_verify: "faults s = [] \<Longrightarrow> snd (Tokens_Verify l now p s) = s" "faults s = [] \<Longrightarrow> snd (VerifyAccess l c now ck s) = s"
  by (simp_all add: Tokens_Verify_def VerifyAccess_def bindA_def throwA_def retA_def split: list.splits sum.splits option.splits)

lemma Bearer_same:
  assumes "faults s = []" "faults s' = []" "auth_tokens (db s') = auth_tokens (db s)"
  shows "\<exists>q. Bearer l now req s = (q, s) \<and> Bearer l now req s' = (q, s')"
proof -
  let ?p = "trimPrefix (rq_Authorization req) ''Bearer ''"
  obtain q where q: "Tokens_Verify l now ?p s = (q, s)" using calm_verify(1) [OF assms(1)] by (metis prod.collapse)
  then have "Tokens_Verify l now ?p s' = (q, s')"
    using Tokens_Verify_same [OF assms, of l now ?p] calm_verify(1) [OF assms(2), of l now ?p] by (metis fst_conv prod.collapse)
  with q show ?thesis by (cases q) (simp_all add: Bearer_def)
qed

lemma SessionCookie_same:
  assumes "faults s = []" "faults s' = []" "auth_sessions (db s') = auth_sessions (db s)"
  shows "fst (SessionCookie l c name now req s') = fst (SessionCookie l c name now req s)"
proof (cases "rq_HTTP req")
  case (Some cookies)
  obtain q s1 where "VerifyAccess l c now (map_of cookies name) s = (q, s1)" by fastforce
  moreover from this obtain s2 where "VerifyAccess l c now (map_of cookies name) s' = (q, s2)"
    using VerifyAccess_same [OF assms, of l c now "map_of cookies name"] by (metis fst_conv prod.collapse)
  ultimately show ?thesis using Some by (cases q) (simp_all add: SessionCookie_def)
qed (simp add: SessionCookie_def)

text \<open>
  Deactivating or removing a user ends nothing that the user holds: after a configuration with any
  users has been applied, with success or not, each request with a token or a cookie is authenticated as before,
  on behalf of the same principal.
\<close>

theorem deactivation_keeps_access:
  assumes "faults s = []" "applyAuthSnapshot l now users s = (r, s')"
  shows "fst (chainAuthenticate (Build l c name t) req s') = fst (chainAuthenticate (Build l c name t) req s)"
proof -
  have k: "faults s' = []" "auth_tokens (db s') = auth_tokens (db s)" "auth_sessions (db s') = auth_sessions (db s)"
    using keeps_applyAuthSnapshot [of l now users] assms by (auto simp: keepsCredentials_def sameCredentials_def dest!: spec [of _ s])
  obtain q where q: "Bearer l t req s = (q, s)" "Bearer l t req s' = (q, s')"
    using Bearer_same [OF assms(1) k(1,2), of l t req] by blast
  show ?thesis
  proof (cases "rq_PeerCred req \<noteq> None \<and> rq_Scheme req = ''uds:peercred''")
    case True
    then show ?thesis by (auto simp: Build_def LocalPeerCred_def)
  next
    case False
    then have "LocalPeerCred req x = (Inl ErrNotApplicable, x)" for x :: "(auth_db, 'a, 'b) store_scheme"
      by (auto simp: LocalPeerCred_def split: option.splits)
    moreover have "fst (chainAuthenticate [a, RejectAll] req s') = fst (chainAuthenticate [a, RejectAll] req s)"
      if "fst (a req s') = fst (a req s)" for a :: "('a, 'b) authenticator"
      using that by (cases "a req s'"; cases "a req s") (simp add: RejectAll_def split: sum.split)
    from this [of "SessionCookie l c name t", OF SessionCookie_same [OF assms(1) k(1,3)]]
    have "fst (chainAuthenticate (Bearer l t # [SessionCookie l c name t, RejectAll]) req s') =
        fst (chainAuthenticate (Bearer l t # [SessionCookie l c name t, RejectAll]) req s)"
      using q by (cases q) simp_all
    ultimately show ?thesis by (simp add: Build_def)
  qed
qed

section \<open>Changing a password\<close>

text \<open>
  A change of password takes the old password and nothing else: it succeeds, when the database works, exactly
  when the old password matches the stored hash; afterwards a password matches for this user exactly when
  argon2id gives for it what it gives for the new one, so the new one does, and nothing changed for
  the others.
\<close>

theorem password_change:
  assumes "faults s = []" "lib_ok (se_lib env)" "params_ok (se_argon env)" "cx_principal ctx = Some p"
    and "ChangePassword env dr ctx old new s = (r, s')"
  shows "(r = Inr ()) = (goodPassword (se_lib env) (slugOf p) old (db s) = Some True) \<and>
    (if r = Inr () then
       (\<forall>pw. goodPassword (se_lib env) (slugOf p) pw (db s') =
          Some (argon2 (se_lib env) pw (dr_secret dr) (se_argon env) 32 = argon2 (se_lib env) new (dr_secret dr) (se_argon env) 32)) \<and>
       (\<forall>slug pw. slug \<noteq> slugOf p \<longrightarrow> goodPassword (se_lib env) slug pw (db s') = goodPassword (se_lib env) slug pw (db s))
     else db s' = db s)"
proof -
  let ?g = "goodPassword (se_lib env) (slugOf p) old (db s)"
  let ?row = "\<lparr>pw_hash = Password_encode (se_lib env) (se_argon env) (dr_secret dr) new, pw_set_at = unix (dr_now dr), pw_set_by = p_ID p\<rparr>"
  have r: "(r, s') = (case ?g of
      None \<Rightarrow> (Inl (internal (PlainErr (projl (Password_decode (se_lib env) (pw_hash (the (map_of (auth_passwords (db s)) (slugOf p)))))))), s)
    | Some False \<Rightarrow> (Inl invalidCredentials, s)
    | Some True \<Rightarrow> (Inr (), s\<lparr>db := (db s)\<lparr>auth_passwords := AList.update (slugOf p) ?row (auth_passwords (db s))\<rparr>\<rparr>))"
    using assms(1,4,5) by (cases ?g; cases "the ?g"; simp add: ChangePassword_def bindR_def Password_Verify_calm throwR_def Password_Set_calm)
  have len: "length (argon2 (se_lib env) new (dr_secret dr) (se_argon env) 32) = 32" using assms(2) by (simp add: lib_ok_def)
  show ?thesis
  proof (cases "?g = Some True")
    case True
    then have "r = Inr ()" and db: "auth_passwords (db s') = AList.update (slugOf p) ?row (auth_passwords (db s))" using r by simp_all
    moreover have "goodPassword (se_lib env) (slugOf p) pw (db s') =
        Some (argon2 (se_lib env) pw (dr_secret dr) (se_argon env) 32 = argon2 (se_lib env) new (dr_secret dr) (se_argon env) 32)" for pw
      by (simp add: goodPassword_def db AList.update_conv' Password_decode_encode [OF assms(2,3)] len)
    ultimately show ?thesis using True by (simp add: goodPassword_def AList.update_conv')
  next
    case False
    then show ?thesis using r by (cases ?g) (auto split: bool.splits)
  qed
qed

section \<open>Examples\<close>

definition exHash :: string where
  "exHash = Password_encode exampleLib (se_argon exEnv) ''salt'' ''pw''"

definition exUsers :: auth_db where
  "exUsers = emptyAuth\<lparr>auth_users := [(''fdatoo'', \<lparr>us_display_name = ''F'', us_active = True, us_password_allowed = True, us_passkey_allowed = False\<rparr>)],
     auth_passwords := [(''fdatoo'', \<lparr>pw_hash = exHash, pw_set_at = 0, pw_set_by = ''system:bootstrap''\<rparr>)]\<rparr>"

lemma ex_params: "params_ok (se_argon exEnv)" "se_lib exEnv = exampleLib"
  by (simp_all add: params_ok_def exEnv_def)

lemma ex_good: "goodPassword exampleLib ''fdatoo'' pw exUsers = Some (argon2 exampleLib pw ''salt'' (se_argon exEnv) 32 = argon2 exampleLib ''pw'' ''salt'' (se_argon exEnv) 32)"
proof -
  have "length (argon2 exampleLib ''pw'' ''salt'' (se_argon exEnv) 32) = 32" using exampleLib_ok by (simp add: lib_ok_def)
  then show ?thesis
    by (simp add: goodPassword_def exUsers_def exHash_def emptyAuth_def Password_decode_encode [OF exampleLib_ok ex_params(1)])
qed


theorem password_change_witness:
  "goodPassword exampleLib ''fdatoo'' ''new'' (db (snd (ChangePassword exEnv exDraws
     (exCtx\<lparr>cx_principal := Some \<lparr>p_ID = ''user:fdatoo'', p_DisplayName = [], p_Kind = ''user'', p_Metadata = []\<rparr>\<rparr>) ''pw'' ''new'' (svcOf exUsers)))) = Some True"
proof -
  let ?p = "\<lparr>p_ID = ''user:fdatoo'', p_DisplayName = [], p_Kind = ''user'', p_Metadata = []\<rparr> :: Principal"
  obtain r s' where run: "ChangePassword exEnv exDraws (exCtx\<lparr>cx_principal := Some ?p\<rparr>) ''pw'' ''new'' (svcOf exUsers) = (r, s')" by fastforce
  have "slugOf ?p = ''fdatoo''" using trimPrefix_append(1) [of "''user:''" "''fdatoo''"] by (simp add: slugOf_def)
  with password_change [OF _ _ ex_params(1) _ run] exampleLib_ok ex_good [of "''pw''"] show ?thesis
    by (auto simp: ex_params(2) run split: if_splits)
qed

theorem deactivation_keeps_access_witness:
  "let s' = snd (applyAuthSnapshot exampleLib 0 [] (storeOf (db (exStore ''x'' 1209600)))) in
   fst (chainAuthenticate (Build exampleLib exCfg ''a'' 1) \<lparr>rq_Scheme = ''bearer'', rq_Authorization = [], rq_UserAgent = [], rq_PeerCred = None,
      rq_RemoteAddr = [], rq_Method = ''m'', rq_HTTP = Some []\<rparr> s') =
   fst (chainAuthenticate (Build exampleLib exCfg ''a'' 1) \<lparr>rq_Scheme = ''bearer'', rq_Authorization = [], rq_UserAgent = [], rq_PeerCred = None,
      rq_RemoteAddr = [], rq_Method = ''m'', rq_HTTP = Some []\<rparr> (storeOf (db (exStore ''x'' 1209600))))"
  unfolding Let_def by (rule deactivation_keeps_access [OF _ prod.collapse [symmetric]]) simp

definition exTokenSvc :: "(auth_db, authMem) store" where
  "exTokenSvc = svcOf (emptyAuth\<lparr>auth_tokens := [(''T1'', newTokenRow exampleLib 0 ''s'' exTokenInput)]\<rparr>)"

definition exTokenLog :: tokenLog where
  "exTokenLog = \<lparr>tl_issued = [(''T1'', ''s'', exTokenInput, 0)], tl_revoked = {}\<rparr>"

lemma ex_svc_token: "tokenReach exampleLib exTokenLog exTokenSvc"
proof -
  let ?g = "\<lparr>tl_issued = [], tl_revoked = {}\<rparr>"
  have "Tokens_Issue exampleLib 0 ''T1'' ''s'' exTokenInput (svcOf emptyAuth) = (Inr (tokenPlaintext exampleLib ''T1'' ''s'', ''T1''), exTokenSvc)"
    by (simp add: Tokens_Issue_def bindA_def retA_def insertNew_def newTokenRow_def expiryOf_def exTokenSvc_def emptyAuth_def)
      (simp add: svcOf_def storeOf_def)
  then have "tokenStep exampleLib (?g, svcOf emptyAuth) (?g\<lparr>tl_issued := tl_issued ?g @ [(''T1'', ''s'', exTokenInput, 0)]\<rparr>, exTokenSvc)"
    by (rule tokenStep.issue) simp_all
  then show ?thesis unfolding tokenReach_def exTokenLog_def by (auto simp: emptyAuth_def intro!: exI [of _ "svcOf emptyAuth"])
qed

definition exTokenRequest :: AuthRequest where
  "exTokenRequest = \<lparr>rq_Scheme = [], rq_Authorization = ''Bearer '' @ tokenPlaintext exampleLib ''T1'' ''s'', rq_UserAgent = [], rq_PeerCred = None,
     rq_RemoteAddr = ''10.0.0.7'', rq_Method = ''/switchyard.v1alpha1.EntityService/List'', rq_HTTP = None\<rparr>"

lemma ex_token_request:
  "\<exists>ctx' s'. throughInterceptors exampleLib (\<lambda>_. Inl ''bad'') (Build exampleLib exCfg ''a'' 1000000000) None (\<lambda>_. []) None exCtx exTokenRequest (None :: unit option)
     exTokenSvc = (Inr ctx', s')"
proof -
  have "CHR ''_'' \<notin> set ''T1''" by simp
  from splitN_plaintext [OF this] have v: "Tokens_Verify exampleLib 1000000000 (tokenPlaintext exampleLib ''T1'' ''s'') exTokenSvc = (Inr (lookupOf ''T1'' exTokenInput), exTokenSvc)"
    by (simp add: Tokens_Verify_def exTokenSvc_def bindA_def retA_def newTokenRow_def expiryOf_def exTokenInput_def unix_def lookupOf_def emptyAuth_def
        exampleLib_def unletters_letters)
  have t: "trimPrefix (''Bearer '' @ tokenPlaintext exampleLib ''T1'' ''s'') ''Bearer '' = tokenPlaintext exampleLib ''T1'' ''s''"
    "hasPrefix (''Bearer '' @ tokenPlaintext exampleLib ''T1'' ''s'') ''Bearer ''" by (rule trimPrefix_append)+
  have "Bearer exampleLib 1000000000 (exTokenRequest\<lparr>rq_Scheme := ''bearer'', rq_HTTP := Some []\<rparr>) exTokenSvc =
      (Inr (tokenPrincipal exampleLib ''T1'' exTokenInput), exTokenSvc)"
    unfolding Bearer_def exTokenRequest_def using t v by (simp add: lookupOf_def tokenPrincipal_def exTokenInput_def)
  then have "authenticate exampleLib (\<lambda>_. Inl ''bad'') (Build exampleLib exCfg ''a'' 1000000000) exCtx exTokenRequest exTokenSvc =
      (Inr (exCtx\<lparr>cx_remoteAddr := ''10.0.0.7'', cx_userAgent := [], cx_principal := Some (tokenPrincipal exampleLib ''T1'' exTokenInput)\<rparr>), exTokenSvc)"
    by (simp add: authenticate_def Let_def exTokenRequest_def isPublicAuthProcedure_def Build_def LocalPeerCred_def exCtx_def tokenPrincipal_def exTokenInput_def)
  then show ?thesis by (simp add: throughInterceptors_def authorize_unchecked)
qed


end
