(* ===== verification/Go_Paths.thy ===== *)
theory Go_Paths
  imports Go_Strings
begin

text \<open>
  Slash-separated file paths as \<^verbatim>\<open>path/filepath\<close> treats them: \<open>Clean\<close>, \<open>Join\<close>, \<open>Rel\<close>, \<open>Dir\<close> and \<open>Ext\<close>, and the
  elements of a cleaned path. A path stays inside a directory when its elements begin with those of the directory.
\<close>

abbreviation slash :: char where
  "slash \<equiv> CHR ''/''"

definition isAbs :: "string \<Rightarrow> bool" where
  "isAbs p \<longleftrightarrow> hasPrefix p ''/''"

text \<open>One element of the path: empty ones and dots are dropped, two dots take back the element before.\<close>

definition pushElem :: "bool \<Rightarrow> string list \<Rightarrow> string \<Rightarrow> string list" where
  "pushElem rooted acc c =
     (if c = [] \<or> c = ''.'' then acc
      else if c = ''..'' then (if acc \<noteq> [] \<and> last acc \<noteq> ''..'' then butlast acc else if rooted then acc else acc @ [c])
      else acc @ [c])"

definition elems :: "string \<Rightarrow> string list" where
  "elems p = foldl (pushElem (isAbs p)) [] (splitAll slash p)"

definition showPath :: "bool \<Rightarrow> string list \<Rightarrow> string" where
  "showPath rooted cs = (if rooted then ''/'' @ joinWith ''/'' cs else if cs = [] then ''.'' else joinWith ''/'' cs)"

definition Clean :: "string \<Rightarrow> string" where
  "Clean p = showPath (isAbs p) (elems p)"

definition Join :: "string list \<Rightarrow> string" where
  "Join ps = (let ps' = dropWhile (\<lambda>p. p = []) ps in if ps' = [] then [] else Clean (joinWith ''/'' ps'))"

fun stripCommon :: "string list \<Rightarrow> string list \<Rightarrow> string list \<times> string list" where
  "stripCommon (b # bs) (t # ts) = (if b = t then stripCommon bs ts else (b # bs, t # ts))"
| "stripCommon bs ts = (bs, ts)"

text \<open>\<open>None\<close>: the target cannot be made relative to the base.\<close>

definition Rel :: "string \<Rightarrow> string \<Rightarrow> string option" where
  "Rel base targ =
     (if Clean base = Clean targ then Some ''.''
      else if isAbs base \<noteq> isAbs targ then None
      else case stripCommon (elems base) (elems targ) of
        (b, t) \<Rightarrow> if b \<noteq> [] \<and> hd b = ''..'' then None else Some (joinWith ''/'' (replicate (length b) ''..'' @ t)))"

definition Dir :: "string \<Rightarrow> string" where
  "Dir p = Clean (rev (dropWhile (\<lambda>c. c \<noteq> slash) (rev p)))"

text \<open>From the last dot of the last element on; empty without a dot.\<close>

definition Ext :: "string \<Rightarrow> string" where
  "Ext p = (let name = rev (takeWhile (\<lambda>c. c \<noteq> slash) (rev p)) in
     if CHR ''.'' \<in> set name then CHR ''.'' # rev (takeWhile (\<lambda>c. c \<noteq> CHR ''.'') (rev name)) else [])"

section \<open>Elements\<close>

definition plain :: "string \<Rightarrow> bool" where
  "plain c \<longleftrightarrow> c \<noteq> [] \<and> c \<noteq> ''.'' \<and> slash \<notin> set c"

text \<open>The elements of a cleaned path: steps up come first, and a rooted path has none.\<close>

definition normal :: "bool \<Rightarrow> string list \<Rightarrow> bool" where
  "normal rooted cs \<longleftrightarrow> list_all plain cs \<and>
     (\<exists>n ds. cs = replicate n ''..'' @ ds \<and> ''..'' \<notin> set ds \<and> (rooted \<longrightarrow> n = 0))"

lemma normalE:
  assumes "normal r cs"
  obtains n ds where "cs = replicate n ''..'' @ ds" "''..'' \<notin> set ds" "r \<longrightarrow> n = 0" "list_all plain cs"
  using assms unfolding normal_def by blast

lemma splitAll_elems: "c \<in> set (splitAll s p) \<Longrightarrow> s \<notin> set c"
proof (induction p arbitrary: c)
  case (Cons x p)
  then show ?case
    by (cases "splitAll s p") (auto split: if_splits)
qed simp

lemma splitAll_join:
  "cs \<noteq> [] \<Longrightarrow> list_all (\<lambda>c. s \<notin> set c) cs \<Longrightarrow> splitAll s (joinWith [s] cs) = cs"
  by (induction "[s]" cs rule: joinWith.induct) auto

lemma pushElem_skip [simp]: "pushElem r acc [] = acc" "pushElem r acc ''.'' = acc"
  by (simp_all add: pushElem_def)

lemma pushElem_plain: "plain c \<Longrightarrow> c \<noteq> ''..'' \<Longrightarrow> pushElem r acc c = acc @ [c]"
  by (simp add: pushElem_def plain_def)

lemma push_forward:
  "list_all plain ds \<Longrightarrow> ''..'' \<notin> set ds \<Longrightarrow> foldl (pushElem r) acc ds = acc @ ds"
  by (induction ds arbitrary: acc) (auto simp: pushElem_plain)

lemma push_up: "foldl (pushElem False) (replicate m ''..'') (replicate n ''..'') = replicate (m + n) ''..''"
proof (induction n arbitrary: m)
  case (Suc n)
  have "pushElem False (replicate m ''..'') ''..'' = replicate (Suc m) ''..''"
    by (cases m) (simp_all add: pushElem_def replicate_append_same [symmetric])
  with Suc [of "Suc m"] show ?case by simp
qed simp

lemma normal_fold: "normal r cs \<Longrightarrow> foldl (pushElem r) [] cs = cs"
proof -
  assume "normal r cs"
  then obtain n ds where cs: "cs = replicate n ''..'' @ ds" "''..'' \<notin> set ds" "r \<longrightarrow> n = 0" "list_all plain cs"
    by (rule normalE)
  have "foldl (pushElem r) [] (replicate n ''..'') = replicate n ''..''"
    using cs(3) push_up [of 0 n] by (cases r) auto
  with cs show ?thesis by (simp add: push_forward)
qed

lemma normal_snoc:
  assumes "normal r cs" "plain c" "c \<noteq> ''..''" shows "normal r (cs @ [c])"
proof -
  from assms(1) obtain n ds where "cs = replicate n ''..'' @ ds" "''..'' \<notin> set ds" "r \<longrightarrow> n = 0" "list_all plain cs"
    by (rule normalE)
  then show ?thesis using assms(2,3) by (auto simp: normal_def intro!: exI [of _ n] exI [of _ "ds @ [c]"])
qed

lemma normal_butlast:
  assumes "normal r cs" "cs \<noteq> []" "last cs \<noteq> ''..''" shows "normal r (butlast cs)"
proof -
  from assms(1) obtain n ds where cs: "cs = replicate n ''..'' @ ds" "''..'' \<notin> set ds" "r \<longrightarrow> n = 0" "list_all plain cs"
    by (rule normalE)
  with assms(2,3) have "ds \<noteq> []" by (cases "n = 0") (auto simp: last_replicate)
  moreover from cs have "list_all plain (butlast cs)" by (auto simp: list_all_iff dest: in_set_butlastD)
  ultimately show ?thesis using cs
    by (auto simp: normal_def butlast_append intro!: exI [of _ n] exI [of _ "butlast ds"] dest: in_set_butlastD)
qed

lemma normal_last_up:
  assumes "normal r cs" "cs = [] \<or> last cs = ''..''" shows "\<exists>n. cs = replicate n ''..'' \<and> (r \<longrightarrow> n = 0)"
proof -
  from assms(1) obtain n ds where cs: "cs = replicate n ''..'' @ ds" "''..'' \<notin> set ds" "r \<longrightarrow> n = 0" by (rule normalE)
  with assms(2) have "ds = []" by (cases "ds = []") (auto dest: last_in_set)
  with cs show ?thesis by auto
qed

lemma normal_push:
  assumes "normal r cs" "slash \<notin> set c" shows "normal r (pushElem r cs c)"
proof (cases "c = [] \<or> c = ''.'' \<or> c \<noteq> ''..''")
  case True
  then show ?thesis using assms normal_snoc [of r cs c] by (auto simp: pushElem_def plain_def)
next
  case up: False
  then have c: "c = ''..''" by simp
  show ?thesis
  proof (cases "cs \<noteq> [] \<and> last cs \<noteq> ''..''")
    case True
    with assms c show ?thesis by (simp add: pushElem_def normal_butlast)
  next
    case False
    with normal_last_up [OF assms(1)] obtain n where n: "cs = replicate n ''..''" "r \<longrightarrow> n = 0" by blast
    have "normal False (replicate (Suc n) ''..'')"
      by (auto simp: normal_def list_all_iff plain_def intro!: exI [of _ "Suc n"])
    with n c False assms(1) show ?thesis
      by (cases r) (auto simp: pushElem_def replicate_append_same)
  qed
qed

lemma elems_normal: "normal (isAbs p) (elems p)"
proof -
  have "normal r (foldl (pushElem r) acc cs)" if "normal r acc" "list_all (\<lambda>c. slash \<notin> set c) cs" for r acc cs
    using that by (induction cs arbitrary: acc) (auto intro: normal_push)
  moreover have "normal r []" for r by (simp add: normal_def)
  moreover have "list_all (\<lambda>c. slash \<notin> set c) (splitAll slash p)" by (auto simp: list_all_iff dest: splitAll_elems)
  ultimately show ?thesis by (simp add: elems_def)
qed

lemma normal_free: "normal r cs \<Longrightarrow> list_all (\<lambda>c. slash \<notin> set c) cs"
  by (auto simp: normal_def list_all_iff plain_def)

lemma joinWith_Cons: "joinWith sep (c # cs) = c @ (if cs = [] then [] else sep @ joinWith sep cs)"
  by (cases cs) auto

lemma normal_first: "normal r cs \<Longrightarrow> cs \<noteq> [] \<Longrightarrow> \<not> isAbs (joinWith ''/'' cs)"
proof (cases cs)
  case (Cons c cs')
  assume "normal r cs"
  with Cons have "plain c" by (auto simp: normal_def)
  then obtain x xs where "c = x # xs" "x \<noteq> slash" by (cases c) (auto simp: plain_def)
  with Cons show ?thesis by (simp add: joinWith_Cons isAbs_def hasPrefix_def)
qed simp

lemma elems_showPath:
  assumes "normal r cs" shows "elems (showPath r cs) = cs" "isAbs (showPath r cs) = r"
proof -
  have split: "splitAll slash (joinWith ''/'' cs) = cs" if "cs \<noteq> []"
    using that normal_free [OF assms] by (rule splitAll_join)
  show abs: "isAbs (showPath r cs) = r"
    using normal_first [OF assms] by (auto simp: showPath_def isAbs_def hasPrefix_def)
  show "elems (showPath r cs) = cs"
    using split normal_fold [OF assms] unfolding elems_def abs
    by (cases "cs = []") (auto simp: showPath_def)
qed

lemma Clean_simps [simp]: "elems (Clean p) = elems p" "isAbs (Clean p) = isAbs p" "Clean (Clean p) = Clean p"
  using elems_showPath [OF elems_normal [of p]] by (simp_all add: Clean_def)

section \<open>Joining and making relative\<close>

lemma splitAll_mid: "splitAll s (a @ s # b) = splitAll s a @ splitAll s b"
  by (induction a) (auto simp: hd_append tl_append split: list.split)

lemma isAbs_append: "a \<noteq> [] \<Longrightarrow> isAbs (a @ b) = isAbs a"
  by (cases a) (auto simp: isAbs_def hasPrefix_def)

lemma elems_Join:
  assumes d: "d \<noteq> []" and cs: "normal r cs" "''..'' \<notin> set cs" "cs \<noteq> []"
  shows "elems (Join [d, joinWith ''/'' cs]) = elems d @ cs" "isAbs (Join [d, joinWith ''/'' cs]) = isAbs d"
proof -
  let ?p = "d @ slash # joinWith ''/'' cs"
  have J: "Join [d, joinWith ''/'' cs] = Clean ?p" using d by (simp add: Join_def)
  have abs: "isAbs ?p = isAbs d" using d by (rule isAbs_append)
  have "splitAll slash ?p = splitAll slash d @ cs"
    using splitAll_join [OF cs(3) normal_free [OF cs(1)]] by (simp add: splitAll_mid)
  moreover from cs(1) have "list_all plain cs" by (simp add: normal_def)
  ultimately have "elems ?p = elems d @ cs" using cs(2) unfolding elems_def abs by (simp add: push_forward)
  with J abs show "elems (Join [d, joinWith ''/'' cs]) = elems d @ cs" "isAbs (Join [d, joinWith ''/'' cs]) = isAbs d"
    by simp_all
qed

lemma stripCommon_split: "stripCommon bs ts = (b, t) \<Longrightarrow> \<exists>common. bs = common @ b \<and> ts = common @ t"
  by (induction bs ts rule: stripCommon.induct) (auto split: if_splits intro: exI [of _ "_ # _"])

text \<open>A relative path that does not lead up again is given by its elements.\<close>

definition leadsUp :: "string \<Rightarrow> bool" where
  "leadsUp p \<longleftrightarrow> p = ''..'' \<or> hasPrefix p ''../''"

lemma leadsUp_join: "leadsUp (joinWith ''/'' (''..'' # cs))"
  by (simp add: leadsUp_def joinWith_Cons hasPrefix_def)

lemma Clean_forward:
  assumes "\<not> isAbs p" "Clean p \<noteq> ''.''" "\<not> leadsUp (Clean p)"
  shows "Clean p = joinWith ''/'' (elems p)" "''..'' \<notin> set (elems p)" "elems p \<noteq> []"
proof -
  from assms(1,2) show ne: "elems p \<noteq> []" and c: "Clean p = joinWith ''/'' (elems p)" by (auto simp: Clean_def showPath_def)
  from elems_normal [of p] obtain n ds where e: "elems p = replicate n ''..'' @ ds" "''..'' \<notin> set ds" by (rule normalE)
  with assms(3) c have "n = 0" using leadsUp_join by (cases n) auto
  with e show "''..'' \<notin> set (elems p)" by simp
qed

lemma normal_suffix: "normal r (a @ b) \<Longrightarrow> ''..'' \<notin> set b \<Longrightarrow> normal r' b"
  by (auto simp: normal_def intro!: exI [of _ 0])

lemma Rel_forward:
  assumes "Rel base targ = Some rel" "isAbs base" "rel \<noteq> ''.''" "\<not> leadsUp rel"
  shows "\<exists>cs. rel = joinWith ''/'' cs \<and> elems targ = elems base @ cs \<and> cs \<noteq> [] \<and> isAbs targ"
proof -
  from assms(1,3) have ne: "Clean base \<noteq> Clean targ" and abs: "isAbs base = isAbs targ"
    by (auto simp: Rel_def split: if_splits)
  obtain b t where bt: "stripCommon (elems base) (elems targ) = (b, t)" by fastforce
  with assms(1) ne abs have rel: "rel = joinWith ''/'' (replicate (length b) ''..'' @ t)"
    by (auto simp: Rel_def split: if_splits)
  from this assms(4) have "b = []" using leadsUp_join by (cases b) auto
  moreover from stripCommon_split [OF bt] obtain common where "elems base = common @ b" "elems targ = common @ t" by blast
  ultimately have "elems targ = elems base @ t" "rel = joinWith ''/'' t" using rel by auto
  moreover from this ne abs have "t \<noteq> []" by (auto simp: Clean_def)
  ultimately show ?thesis using abs assms(2) by blast
qed

end
