(* ===== verification/Service_Base.thy ===== *)
theory Service_Base
  imports Go_Paths "HOL-Library.AList"
begin

text \<open>
  What the file-backed services share: Connect errors, a file system whose calls may fail, and the contract of an
  in-memory table whose entries expire, which the edit locks, the pairing codes of displays and the challenges of passkey
  ceremonies implement.
\<close>

section \<open>Connect errors\<close>

datatype connect_code = InvalidArgument | NotFound | AlreadyExists | FailedPrecondition | PermissionDenied | Internal

datatype connect_error = Connect connect_code error

section \<open>Files\<close>

text \<open>
  Files by their cleaned path, without links; \<open>io\<close> is the error a call on a path has at this moment other than
  that the file does not exist (\<open>os.ErrNotExist\<close>).
\<close>

datatype io_call = ReadFile | WriteFile | MkdirAll | Stat | RenameCall | Remove | ReadDir

type_synonym io = "io_call \<Rightarrow> string \<Rightarrow> error option"

type_synonym files = "string \<rightharpoonup> bytes"

definition noFaults :: io where
  "noFaults call p = None"

text \<open>The content, or \<open>None\<close> when there is no file.\<close>

definition readFile :: "io \<Rightarrow> files \<Rightarrow> string \<Rightarrow> error + bytes option" where
  "readFile io fs p = (case io ReadFile p of Some e \<Rightarrow> Inl e | None \<Rightarrow> Inr (fs (Clean p)))"

definition writeFile :: "io \<Rightarrow> files \<Rightarrow> string \<Rightarrow> bytes \<Rightarrow> error + files" where
  "writeFile io fs p data = (case io WriteFile p of Some e \<Rightarrow> Inl e | None \<Rightarrow> Inr (fs(Clean p \<mapsto> data)))"

definition fileExists :: "io \<Rightarrow> files \<Rightarrow> string \<Rightarrow> error + bool" where
  "fileExists io fs p = (case io Stat p of Some e \<Rightarrow> Inl e | None \<Rightarrow> Inr (fs (Clean p) \<noteq> None))"

text \<open>\<open>os.Rename\<close> of an existing file, and \<open>os.Remove\<close>, which says whether there was a file.\<close>

definition renameFile :: "io \<Rightarrow> files \<Rightarrow> string \<Rightarrow> string \<Rightarrow> error + files" where
  "renameFile io fs old new =
     (case io RenameCall old of
        Some e \<Rightarrow> Inl e
      | None \<Rightarrow> (case fs (Clean old) of
          None \<Rightarrow> Inl ''no such file or directory''
        | Some data \<Rightarrow> Inr (fs(Clean old := None, Clean new \<mapsto> data))))"

definition removeFile :: "io \<Rightarrow> files \<Rightarrow> string \<Rightarrow> error + (bool \<times> files)" where
  "removeFile io fs p =
     (case io Remove p of Some e \<Rightarrow> Inl e | None \<Rightarrow> Inr (fs (Clean p) \<noteq> None, fs(Clean p := None)))"

section \<open>Tables whose entries expire\<close>

text \<open>
  \<open>seen t s k\<close> is what the table \<open>s\<close> gives for \<open>k\<close> at the time \<open>t\<close>: an entry that has expired is not given. \<open>put\<close> stores an
  entry for \<open>ttl\<close>, \<open>remove\<close> deletes one, and \<open>sweep\<close>, which \<open>put\<close> may include, deletes what has expired.
\<close>

locale expiring_table =
  fixes seen :: "gotime \<Rightarrow> 's \<Rightarrow> 'k \<Rightarrow> 'v option"
    and put :: "gotime \<Rightarrow> 'k \<Rightarrow> 'v \<Rightarrow> 's \<Rightarrow> 's"
    and remove :: "'k \<Rightarrow> 's \<Rightarrow> 's"
    and sweep :: "gotime \<Rightarrow> 's \<Rightarrow> 's"
    and ttl :: "'s \<Rightarrow> duration"
    and wf :: "'s \<Rightarrow> bool"
  assumes seen_put: "wf s \<Longrightarrow> now \<le> t \<Longrightarrow>
      seen t (put now k v s) k' = (if k' = k then if t \<le> now + ttl s then Some v else None else seen t s k')"
    and seen_remove: "wf s \<Longrightarrow> seen t (remove k s) k' = (if k' = k then None else seen t s k')"
    and seen_sweep: "wf s \<Longrightarrow> now \<le> t \<Longrightarrow> seen t (sweep now s) k' = seen t s k'"
    and wf_put: "wf s \<Longrightarrow> wf (put now k v s)"
    and wf_remove: "wf s \<Longrightarrow> wf (remove k s)"
    and wf_sweep: "wf s \<Longrightarrow> wf (sweep now s)"
begin

text \<open>The table runs on without touching the key \<open>k\<close>.\<close>

inductive after :: "gotime \<Rightarrow> 'k \<Rightarrow> 's \<Rightarrow> gotime \<Rightarrow> 's \<Rightarrow> bool" for t0 k s where
  start: "after t0 k s t0 s"
| wait: "after t0 k s t s' \<Longrightarrow> t \<le> t' \<Longrightarrow> after t0 k s t' s'"
| other: "after t0 k s t s' \<Longrightarrow> k' \<noteq> k \<Longrightarrow> after t0 k s t (put t k' v s')"
| removed: "after t0 k s t s' \<Longrightarrow> k' \<noteq> k \<Longrightarrow> after t0 k s t (remove k' s')"
| swept: "after t0 k s t s' \<Longrightarrow> after t0 k s t (sweep t s')"

lemma after_wf: "after t0 k s t s' \<Longrightarrow> wf s \<Longrightarrow> wf s'"
  by (induction rule: after.induct) (auto simp: wf_put wf_remove wf_sweep)

lemma after_keeps: "after t0 k s t s' \<Longrightarrow> wf s \<Longrightarrow> t \<le> u \<Longrightarrow> seen u s' k = seen u s k"
proof (induction arbitrary: u rule: after.induct)
  case (wait t s' t')
  then show ?case by (metis order_trans)
qed (auto simp: seen_put seen_remove seen_sweep dest: after_wf)

text \<open>An entry is given until \<open>ttl\<close> after it was put, and not longer, whatever is done with others and swept.\<close>

lemma lives_exactly:
  assumes "after t0 k (put t0 k v s) t s'" "wf s" shows "seen t s' k = (if t \<le> t0 + ttl s then Some v else None)"
proof -
  have "t0 \<le> t" using assms(1) by (induction rule: after.induct) auto
  with after_keeps [OF assms(1) wf_put [OF assms(2)] order_refl] show ?thesis by (simp add: seen_put assms(2))
qed

lemma stays_removed: "after t0 k (remove k s) t s' \<Longrightarrow> wf s \<Longrightarrow> seen t s' k = None"
  using after_keeps [OF _ wf_remove order_refl] by (simp add: seen_remove)

end

end
