(* ===== verification/Auth_Challenges.thy ===== *)
theory Auth_Challenges
  imports Auth_Service Service_Base
begin

text \<open>
  The challenges of passkey ceremonies (\<open>ChallengeStore\<close> of \<^verbatim>\<open>internal/auth/credentials/webauthn.go\<close>, modelled in
  \<open>Auth_Service\<close>) as a table whose entries expire: a challenge is consumed at most once, within its time to live.
\<close>

definition challengeSeen :: "gotime \<Rightarrow> authMem \<Rightarrow> string \<Rightarrow> bytes option" where
  "challengeSeen t m key = (case map_of (items m) key of None \<Rightarrow> None | Some e \<Rightarrow> if ch_expires e < t then None else Some (ch_payload e))"

definition putChallenge :: "duration \<Rightarrow> gotime \<Rightarrow> string \<Rightarrow> bytes \<Rightarrow> authMem \<Rightarrow> authMem" where
  "putChallenge ttl now key payload m = m\<lparr>items := AList.update key \<lparr>ch_payload = payload, ch_expires = now + ttl\<rparr> (gcLocked now (items m))\<rparr>"

definition dropChallenge :: "string \<Rightarrow> authMem \<Rightarrow> authMem" where
  "dropChallenge key m = m\<lparr>items := AList.delete key (items m)\<rparr>"

definition sweepChallenges :: "gotime \<Rightarrow> authMem \<Rightarrow> authMem" where
  "sweepChallenges now m = m\<lparr>items := gcLocked now (items m)\<rparr>"

lemma Challenges_Store_put: "Challenges_Store ttl now newID sid payload m = putChallenge ttl now (sid @ '':'' @ newID) payload m"
  by (simp add: Challenges_Store_def putChallenge_def)

lemma Challenges_Consume_drop:
  "Challenges_Consume now sid cid m =
     ((case challengeSeen now m (sid @ '':'' @ cid) of None \<Rightarrow> Inl ErrChallengeNotFound | Some p \<Rightarrow> Inr p), dropChallenge (sid @ '':'' @ cid) m)"
  by (simp add: Challenges_Consume_def challengeSeen_def dropChallenge_def Let_def split: option.split)

lemma map_of_gc:
  "distinct (map fst xs) \<Longrightarrow> map_of (gcLocked now xs) k = (case map_of xs k of None \<Rightarrow> None | Some e \<Rightarrow> if ch_expires e < now then None else Some e)"
proof (induction xs)
  case (Cons x xs)
  obtain k' e where x: "x = (k', e)" by (cases x)
  from Cons.prems x have "map_of xs k' = None" by (simp add: map_of_eq_None_iff)
  with Cons x show ?case by (auto simp: gcLocked_def)
qed (simp add: gcLocked_def)

lemma gc_distinct: "distinct (map fst xs) \<Longrightarrow> distinct (map fst (gcLocked now xs))"
  by (simp add: gcLocked_def distinct_map_filter)

interpretation challenges: expiring_table challengeSeen "putChallenge ttl" dropChallenge sweepChallenges "\<lambda>_. ttl" "\<lambda>m. distinct (map fst (items m))" for ttl
  by unfold_locales
    (auto simp: challengeSeen_def putChallenge_def dropChallenge_def sweepChallenges_def map_of_gc gc_distinct update_conv' delete_conv'
      distinct_update distinct_delete split: option.splits)

text \<open>
  A challenge that was stored is given to one \<open>Consume\<close>, until its time to live has passed, whatever other challenges are
  stored, consumed and collected in between; the next \<open>Consume\<close> of it fails.
\<close>

theorem challenge_once:
  assumes "distinct (map fst (items m))"
    and "challenges.after ttl t0 (sid @ '':'' @ cid) (Challenges_Store ttl t0 cid sid payload m) t m1"
    and "Challenges_Consume t sid cid m1 = (res, m2)"
    and "challenges.after ttl t (sid @ '':'' @ cid) m2 t' m3"
  shows "res = (if t \<le> t0 + ttl then Inr payload else Inl ErrChallengeNotFound) \<and> fst (Challenges_Consume t' sid cid m3) = Inl ErrChallengeNotFound"
proof -
  have m1: "distinct (map fst (items m1))"
    using challenges.after_wf [OF assms(2)] challenges.wf_put [OF assms(1)] by (simp add: Challenges_Store_put)
  have "challengeSeen t m1 (sid @ '':'' @ cid) = (if t \<le> t0 + ttl then Some payload else None)"
    using challenges.lives_exactly [OF assms(2) [unfolded Challenges_Store_put] assms(1)] by simp
  moreover from assms(3) have r: "res = (case challengeSeen t m1 (sid @ '':'' @ cid) of None \<Rightarrow> Inl ErrChallengeNotFound | Some p \<Rightarrow> Inr p)"
      "m2 = dropChallenge (sid @ '':'' @ cid) m1"
    by (simp_all add: Challenges_Consume_drop)
  moreover from challenges.stays_removed [OF assms(4) [unfolded r(2)] m1]
  have "challengeSeen t' m3 (sid @ '':'' @ cid) = None" .
  ultimately show ?thesis by (simp add: Challenges_Consume_drop)
qed

end
