(* ===== verification/Carport_Lifecycle.thy ===== *)
theory Carport_Lifecycle
  imports Event_Model
begin

text \<open>
  The supervision of one driver instance, \<^verbatim>\<open>internal/carport\<close>: the table of legal transitions
  (\<^verbatim>\<open>fsm.go\<close>), restart budget, back-off, health probes and the lifecycle goroutine with the
  operation that shuts it down (\<^verbatim>\<open>supervisor.go\<close>). The goroutine is a program counter whose steps are
  the critical sections and the appended events of the code, in its order; what the operating system
  and the driver answer (spawn, handshake, probes) is chosen freely at each step.
\<close>

section \<open>The transition table\<close>

datatype State =
    StateDeclared | StateSpawning | StateAwaitingHandshake | StateRunning | StateFailed | StateBackoff
  | StateQuarantined | StateStopping | StateStopped

fun State_String :: "State \<Rightarrow> string" where
  "State_String StateDeclared = ''declared''"
| "State_String StateSpawning = ''spawning''"
| "State_String StateAwaitingHandshake = ''awaiting_handshake''"
| "State_String StateRunning = ''running''"
| "State_String StateFailed = ''failed''"
| "State_String StateBackoff = ''backoff''"
| "State_String StateQuarantined = ''quarantined''"
| "State_String StateStopping = ''stopping''"
| "State_String StateStopped = ''stopped''"

datatype Trigger =
    TriggerStart | TriggerSpawned | TriggerSpawnError | TriggerHandshakeOK | TriggerHandshakeFail | TriggerCrash
  | TriggerHealthFail | TriggerStreamError | TriggerBackoffScheduled | TriggerBackoffElapsed
  | TriggerBudgetExhausted | TriggerManualRestart | TriggerShutdown | TriggerExited

fun Trigger_String :: "Trigger \<Rightarrow> string" where
  "Trigger_String TriggerStart = ''start''"
| "Trigger_String TriggerSpawned = ''spawned''"
| "Trigger_String TriggerSpawnError = ''spawn_error''"
| "Trigger_String TriggerHandshakeOK = ''handshake_ok''"
| "Trigger_String TriggerHandshakeFail = ''handshake_fail''"
| "Trigger_String TriggerCrash = ''crash''"
| "Trigger_String TriggerHealthFail = ''health_fail''"
| "Trigger_String TriggerStreamError = ''stream_error''"
| "Trigger_String TriggerBackoffScheduled = ''backoff_scheduled''"
| "Trigger_String TriggerBackoffElapsed = ''backoff_elapsed''"
| "Trigger_String TriggerBudgetExhausted = ''budget_exhausted''"
| "Trigger_String TriggerManualRestart = ''manual_restart''"
| "Trigger_String TriggerShutdown = ''shutdown''"
| "Trigger_String TriggerExited = ''exited''"

definition transitions :: "(State \<times> (Trigger \<times> State) list) list" where
  "transitions =
    [(StateDeclared, [(TriggerStart, StateSpawning)]),
     (StateSpawning, [(TriggerSpawned, StateAwaitingHandshake), (TriggerSpawnError, StateFailed),
        (TriggerShutdown, StateStopping)]),
     (StateAwaitingHandshake, [(TriggerHandshakeOK, StateRunning), (TriggerHandshakeFail, StateFailed),
        (TriggerShutdown, StateStopping)]),
     (StateRunning, [(TriggerCrash, StateFailed), (TriggerHealthFail, StateFailed),
        (TriggerStreamError, StateFailed), (TriggerShutdown, StateStopping)]),
     (StateFailed, [(TriggerBackoffScheduled, StateBackoff), (TriggerShutdown, StateStopping)]),
     (StateBackoff, [(TriggerBackoffElapsed, StateSpawning), (TriggerBudgetExhausted, StateQuarantined),
        (TriggerShutdown, StateStopping)]),
     (StateQuarantined, [(TriggerManualRestart, StateSpawning), (TriggerShutdown, StateStopping)]),
     (StateStopping, [(TriggerExited, StateStopped)])]"

definition IsLegal :: "State \<Rightarrow> Trigger \<Rightarrow> State \<Rightarrow> bool" where
  "IsLegal from trigger to =
     (case map_of transitions from of
        None \<Rightarrow> False
      | Some m \<Rightarrow> (case map_of m trigger of None \<Rightarrow> False | Some got \<Rightarrow> got = to))"

definition Next :: "State \<Rightarrow> Trigger \<Rightarrow> error + State" where
  "Next from trigger =
     (case map_of transitions from of
        None \<Rightarrow> Inl (''no transitions from state '' @ State_String from)
      | Some m \<Rightarrow>
         (case map_of m trigger of
            None \<Rightarrow> Inl (''illegal trigger '' @ Trigger_String trigger @ '' from state '' @ State_String from)
          | Some to \<Rightarrow> Inr to))"

lemma IsLegal_Next: "IsLegal from trigger to \<longleftrightarrow> Next from trigger = Inr to"
  by (auto simp: IsLegal_def Next_def split: option.splits)

section \<open>Restart budget and back-off\<close>

record LifecycleConfig =
  HandshakeDeadline :: duration
  HealthProbeInterval :: duration
  HealthProbeTimeout :: duration
  HealthFailuresToRestart :: int
  ShutdownGrace :: duration
  RestartBackoffInitial :: duration
  RestartBackoffMax :: duration
  RestartBudgetWindow :: duration
  RestartBudgetMax :: int

definition DefaultLifecycleConfig :: LifecycleConfig where
  "DefaultLifecycleConfig =
     \<lparr>HandshakeDeadline = 5000000000, HealthProbeInterval = 15000000000, HealthProbeTimeout = 3000000000,
      HealthFailuresToRestart = 3, ShutdownGrace = 10000000000, RestartBackoffInitial = 1000000000,
      RestartBackoffMax = 60000000000, RestartBudgetWindow = 600000000000, RestartBudgetMax = 10\<rparr>"

text \<open>The history that \<open>scheduleBackoff\<close> keeps: the restarts within the window, and now.\<close>

definition freshHistory :: "LifecycleConfig \<Rightarrow> gotime \<Rightarrow> int list \<Rightarrow> int list" where
  "freshHistory lc now history =
     filter (\<lambda>x. x \<ge> UnixNano (now + int64_of (- RestartBudgetWindow lc))) history @ [UnixNano now]"

text \<open>Doubling, at most \<open>n\<close> ts, in 64-bit arithmetic.\<close>

fun backoffLoop :: "duration \<Rightarrow> nat \<Rightarrow> duration \<Rightarrow> duration" where
  "backoffLoop maxBackoff 0 backoff = backoff"
| "backoffLoop maxBackoff (Suc n) backoff =
     (let backoff2 = int64_of (backoff * 2) in
      if backoff2 > maxBackoff then maxBackoff else backoffLoop maxBackoff n backoff2)"

text \<open>
  The decision of \<open>scheduleBackoff\<close>: the new history, and the time to sleep, or \<open>None\<close> when the
  budget is exhausted.
\<close>

definition chargeBudget :: "LifecycleConfig \<Rightarrow> gotime \<Rightarrow> int list \<Rightarrow> int list \<times> duration option" where
  "chargeBudget lc now history =
     (let fresh = freshHistory lc now history; used = length fresh in
      (fresh,
       if int used > RestartBudgetMax lc then None
       else Some (backoffLoop (RestartBackoffMax lc) (used - 1) (RestartBackoffInitial lc))))"

text \<open>\<open>time.Duration.String\<close>: the fraction without trailing zeros, and the units.\<close>

definition showFraction :: "nat \<Rightarrow> nat \<Rightarrow> string" where
  "showFraction v prec =
     (let f = v mod 10 ^ prec; digits = showNat f;
          padded = replicate (prec - length digits) (CHR ''0'') @ digits in
      if f = 0 then '''' else ''.'' @ rev (dropWhile (\<lambda>c. c = CHR ''0'') (rev padded)))"

definition showSeconds :: "nat \<Rightarrow> string" where
  "showSeconds u =
     (let secs = u div 10 ^ 9; tail = showNat (secs mod 60) @ showFraction u 9 @ ''s''; mins = secs div 60 in
      if mins = 0 then tail
      else if mins div 60 = 0 then showNat mins @ ''m'' @ tail
      else showNat (mins div 60) @ ''h'' @ showNat (mins mod 60) @ ''m'' @ tail)"

definition showDuration :: "duration \<Rightarrow> string" where
  "showDuration d =
     (let u = nat \<bar>d\<bar> in
      (if d < 0 then ''-'' else '''') @
      (if u = 0 then ''0s''
       else if u < 10 ^ 3 then showNat u @ ''ns''
       else if u < 10 ^ 6 then showNat (u div 10 ^ 3) @ showFraction u 3 @ [CHR 0xC2, CHR 0xB5, CHR ''s'']
       else if u < 10 ^ 9 then showNat (u div 10 ^ 6) @ showFraction u 6 @ ''ms''
       else showSeconds u))"

section \<open>Health probes\<close>

datatype probe = CtxDone | ProbeOk | ProbeFailed

text \<open>\<open>runHealth\<close> on what its \<open>select\<close> sees; \<open>None\<close>: it is still waiting after these.\<close>

fun runHealthFrom :: "int \<Rightarrow> int \<Rightarrow> probe list \<Rightarrow> bool option" where
  "runHealthFrom limit failures [] = None"
| "runHealthFrom limit failures (CtxDone # ps) = Some True"
| "runHealthFrom limit failures (ProbeOk # ps) = runHealthFrom limit 0 ps"
| "runHealthFrom limit failures (ProbeFailed # ps) =
     (if failures + 1 \<ge> limit then Some False else runHealthFrom limit (failures + 1) ps)"

definition runHealth :: "LifecycleConfig \<Rightarrow> probe list \<Rightarrow> bool option" where
  "runHealth lc ps = runHealthFrom (HealthFailuresToRestart lc) 0 ps"

section \<open>The lifecycle goroutine\<close>

text \<open>What is appended to the event store: driver events, and the entities of the handshake.\<close>

datatype emitted = Driver_event string string | Initial_entity entity_registered

text \<open>
  Where the goroutine is. \<open>AtX\<close> waits for X to happen; the others are about to run one critical
  section or append one event.
\<close>

datatype pc =
    LoopHead | SetSpawning | AtSpawn | EmitSpawnError error | SetAwaiting string | EmitSpawned string
  | AtHandshake | EmitHandshakeFailed error | SetRunning string "entity_registered list"
  | EmitStarted string "entity_registered list" | RegisterEntities "entity_registered list" | AtHealth
  | ClearConn bool | AfterHealth bool | EmitStopped | SetStopped | EmitFailed string | SetFailed
  | ChargeBudget | EmitQuarantined | SetQuarantined | EmitBackoff duration | SetBackoff duration | AtSleep | Exited

datatype shutdown_pc =
    NoShutdown | EmitStopping State bool | CancelLifecycle bool | CloseConn | AwaitDone | ShutdownReturned

record managedInstance =
  mi_state :: State
  mi_conn :: bool
  restartHistory :: "int list"
  mi_pc :: pc
  cancelled :: bool
  mi_shutdown :: shutdown_pc
  mi_log :: "emitted list"

definition emit :: "string \<Rightarrow> string \<Rightarrow> managedInstance \<Rightarrow> managedInstance" where
  "emit kind detail m = m\<lparr>mi_log := mi_log m @ [Driver_event kind detail]\<rparr>"

definition defaultDriver :: "string \<Rightarrow> entity_registered \<Rightarrow> entity_registered" where
  "defaultDriver inst er = (if er_DriverInstanceId er = '''' then er\<lparr>er_DriverInstanceId := inst\<rparr> else er)"

inductive runLifecycle :: "LifecycleConfig \<Rightarrow> string \<Rightarrow> managedInstance \<Rightarrow> managedInstance \<Rightarrow> bool" for lc inst where
  head_done: "mi_pc m = LoopHead \<Longrightarrow> cancelled m \<Longrightarrow> runLifecycle lc inst m (m\<lparr>mi_pc := Exited\<rparr>)"
| head_go: "mi_pc m = LoopHead \<Longrightarrow> \<not> cancelled m \<Longrightarrow> runLifecycle lc inst m (m\<lparr>mi_pc := SetSpawning\<rparr>)"
| set_spawning: "mi_pc m = SetSpawning \<Longrightarrow> runLifecycle lc inst m (m\<lparr>mi_state := StateSpawning, mi_pc := AtSpawn\<rparr>)"
| spawn_err: "mi_pc m = AtSpawn \<Longrightarrow> runLifecycle lc inst m (m\<lparr>mi_pc := EmitSpawnError e\<rparr>)"
| spawn_ok: "mi_pc m = AtSpawn \<Longrightarrow> runLifecycle lc inst m (m\<lparr>mi_pc := SetAwaiting pid\<rparr>)"
| emit_spawn_err: "mi_pc m = EmitSpawnError e \<Longrightarrow> runLifecycle lc inst m ((emit ''spawn_error'' e m)\<lparr>mi_pc := SetFailed\<rparr>)"
| set_awaiting: "mi_pc m = SetAwaiting pid \<Longrightarrow>
    runLifecycle lc inst m (m\<lparr>mi_state := StateAwaitingHandshake, mi_pc := EmitSpawned pid\<rparr>)"
| emit_spawned: "mi_pc m = EmitSpawned pid \<Longrightarrow> runLifecycle lc inst m ((emit ''spawned'' pid m)\<lparr>mi_pc := AtHandshake\<rparr>)"
| handshake_err: "mi_pc m = AtHandshake \<Longrightarrow> runLifecycle lc inst m (m\<lparr>mi_pc := EmitHandshakeFailed e\<rparr>)"
| handshake_ok: "mi_pc m = AtHandshake \<Longrightarrow> runLifecycle lc inst m (m\<lparr>mi_pc := SetRunning version ents\<rparr>)"
| emit_handshake_err: "mi_pc m = EmitHandshakeFailed e \<Longrightarrow>
    runLifecycle lc inst m ((emit ''handshake_failed'' e m)\<lparr>mi_pc := SetFailed\<rparr>)"
| set_running: "mi_pc m = SetRunning version ents \<Longrightarrow>
    runLifecycle lc inst m (m\<lparr>mi_state := StateRunning, mi_conn := True, mi_pc := EmitStarted version ents\<rparr>)"
| emit_started: "mi_pc m = EmitStarted version ents \<Longrightarrow>
    runLifecycle lc inst m ((emit ''started'' version m)\<lparr>mi_pc := RegisterEntities ents\<rparr>)"
| register_one: "mi_pc m = RegisterEntities (er # ents) \<Longrightarrow>
    runLifecycle lc inst m (m\<lparr>mi_pc := RegisterEntities ents, mi_log := mi_log m @ [Initial_entity (defaultDriver inst er)]\<rparr>)"
| register_end: "mi_pc m = RegisterEntities [] \<Longrightarrow> runLifecycle lc inst m (m\<lparr>mi_pc := AtHealth\<rparr>)"
| health: "mi_pc m = AtHealth \<Longrightarrow> runHealth lc probes = Some healthy \<Longrightarrow> (CtxDone \<in> set probes \<Longrightarrow> cancelled m) \<Longrightarrow>
    runLifecycle lc inst m (m\<lparr>mi_pc := ClearConn healthy\<rparr>)"
| clear_conn: "mi_pc m = ClearConn healthy \<Longrightarrow> runLifecycle lc inst m (m\<lparr>mi_conn := False, mi_pc := AfterHealth healthy\<rparr>)"
| after_cancelled: "mi_pc m = AfterHealth healthy \<Longrightarrow> cancelled m \<Longrightarrow> runLifecycle lc inst m (m\<lparr>mi_pc := EmitStopped\<rparr>)"
| after_failed: "mi_pc m = AfterHealth healthy \<Longrightarrow> \<not> cancelled m \<Longrightarrow>
    runLifecycle lc inst m (m\<lparr>mi_pc := EmitFailed (if healthy then ''stream closed'' else ''health failed'')\<rparr>)"
| emit_stopped: "mi_pc m = EmitStopped \<Longrightarrow>
    runLifecycle lc inst m ((emit ''stopped'' ''daemon shutdown'' m)\<lparr>mi_pc := SetStopped\<rparr>)"
| set_stopped: "mi_pc m = SetStopped \<Longrightarrow> runLifecycle lc inst m (m\<lparr>mi_state := StateStopped, mi_pc := Exited\<rparr>)"
| emit_failed: "mi_pc m = EmitFailed cause \<Longrightarrow> runLifecycle lc inst m ((emit ''failed'' cause m)\<lparr>mi_pc := SetFailed\<rparr>)"
| set_failed: "mi_pc m = SetFailed \<Longrightarrow> runLifecycle lc inst m (m\<lparr>mi_state := StateFailed, mi_pc := ChargeBudget\<rparr>)"
| charge: "mi_pc m = ChargeBudget \<Longrightarrow> chargeBudget lc now (restartHistory m) = (history, Some backoff) \<Longrightarrow>
    runLifecycle lc inst m (m\<lparr>restartHistory := history, mi_pc := EmitBackoff backoff\<rparr>)"
| exhausted: "mi_pc m = ChargeBudget \<Longrightarrow> chargeBudget lc now (restartHistory m) = (history, None) \<Longrightarrow>
    runLifecycle lc inst m (m\<lparr>restartHistory := history, mi_pc := EmitQuarantined\<rparr>)"
| emit_quarantined: "mi_pc m = EmitQuarantined \<Longrightarrow>
    runLifecycle lc inst m ((emit ''quarantined'' ''restart budget exhausted'' m)\<lparr>mi_pc := SetQuarantined\<rparr>)"
| set_quarantined: "mi_pc m = SetQuarantined \<Longrightarrow> runLifecycle lc inst m (m\<lparr>mi_state := StateQuarantined, mi_pc := Exited\<rparr>)"
| emit_backoff: "mi_pc m = EmitBackoff backoff \<Longrightarrow>
    runLifecycle lc inst m ((emit ''backoff_scheduled'' (showDuration backoff) m)\<lparr>mi_pc := SetBackoff backoff\<rparr>)"
| set_backoff: "mi_pc m = SetBackoff backoff \<Longrightarrow> runLifecycle lc inst m (m\<lparr>mi_state := StateBackoff, mi_pc := AtSleep\<rparr>)"
| slept: "mi_pc m = AtSleep \<Longrightarrow> runLifecycle lc inst m (m\<lparr>mi_pc := LoopHead\<rparr>)"
| sleep_cancelled: "mi_pc m = AtSleep \<Longrightarrow> cancelled m \<Longrightarrow> runLifecycle lc inst m (m\<lparr>mi_pc := Exited\<rparr>)"

text \<open>
  \<open>shutdownInstance\<close>, run by another goroutine: the state is overwritten, the event appended, the
  context cancelled, the connection shut down and closed, and the end of the goroutine awaited (or
  the caller's context ends first).
\<close>

inductive shutdownInstance :: "managedInstance \<Rightarrow> managedInstance \<Rightarrow> bool" where
  shut_begin: "mi_shutdown m = NoShutdown \<Longrightarrow>
    shutdownInstance m (m\<lparr>mi_state := StateStopping, mi_shutdown := EmitStopping (mi_state m) (mi_conn m)\<rparr>)"
| shut_emit: "mi_shutdown m = EmitStopping prev conn \<Longrightarrow> prev \<noteq> StateQuarantined \<Longrightarrow> prev \<noteq> StateStopped \<Longrightarrow>
    shutdownInstance m ((emit ''stopping'' (State_String prev) m)\<lparr>mi_shutdown := CancelLifecycle conn\<rparr>)"
| shut_quiesced: "mi_shutdown m = EmitStopping prev conn \<Longrightarrow> prev = StateQuarantined \<or> prev = StateStopped \<Longrightarrow>
    shutdownInstance m (m\<lparr>mi_shutdown := CancelLifecycle conn\<rparr>)"
| shut_cancel: "mi_shutdown m = CancelLifecycle conn \<Longrightarrow>
    shutdownInstance m (m\<lparr>cancelled := True, mi_shutdown := (if conn then CloseConn else AwaitDone)\<rparr>)"
| shut_close: "mi_shutdown m = CloseConn \<Longrightarrow> shutdownInstance m (m\<lparr>mi_shutdown := AwaitDone\<rparr>)"
| shut_done: "mi_shutdown m = AwaitDone \<Longrightarrow> mi_pc m = Exited \<Longrightarrow> shutdownInstance m (m\<lparr>mi_shutdown := ShutdownReturned\<rparr>)"
| shut_ctx_done: "mi_shutdown m = AwaitDone \<Longrightarrow> shutdownInstance m (m\<lparr>mi_shutdown := ShutdownReturned\<rparr>)"

text \<open>
  An instance as \<open>launchLifecycle\<close> starts it, after \<open>RegisterInstance\<close> or after \<open>RestartInstance\<close> has
  reset it, and the states its two goroutines can bring it to.
\<close>

definition launched :: managedInstance where
  "launched = \<lparr>mi_state = StateDeclared, mi_conn = False, restartHistory = [], mi_pc = LoopHead,
     cancelled = False, mi_shutdown = NoShutdown, mi_log = []\<rparr>"

inductive lifecycle :: "LifecycleConfig \<Rightarrow> string \<Rightarrow> managedInstance \<Rightarrow> bool" for lc inst where
  lifecycle_start: "lifecycle lc inst launched"
| lifecycle_run: "lifecycle lc inst m \<Longrightarrow> runLifecycle lc inst m m' \<Longrightarrow> lifecycle lc inst m'"
| lifecycle_shut: "lifecycle lc inst m \<Longrightarrow> shutdownInstance m m' \<Longrightarrow> lifecycle lc inst m'"

declare emit_def [simp]
inductive_cases runLifecycleE: "runLifecycle lc inst m m'"
inductive_cases shutdownInstanceE: "shutdownInstance m m'"

section \<open>Budget, back-off and probes\<close>

lemma backoffLoop_min:
  assumes "0 < b" "b \<le> mx" "mx < 2 ^ 62"
  shows "backoffLoop mx n b = min mx (b * 2 ^ n)"
  using assms
proof (induction n arbitrary: b)
  case (Suc n)
  have d: "int64_of (b * 2) = b * 2" using Suc.prems by (simp add: in_int64_def)
  show ?case
  proof (cases "b * 2 > mx")
    case True
    moreover have "b * 2 * 1 \<le> b * 2 * 2 ^ n" using Suc.prems(1) by (intro mult_left_mono) auto
    ultimately have "mx < b * 2 ^ Suc n" by (simp add: mult.assoc)
    with True d show ?thesis by simp
  next
    case False
    with Suc.IH [of "b * 2"] Suc.prems d show ?thesis by (simp add: mult.assoc)
  qed
qed simp

definition historyAfter :: "LifecycleConfig \<Rightarrow> gotime list \<Rightarrow> int list" where
  "historyAfter lc ts = fold (\<lambda>now h. fst (chargeBudget lc now h)) ts []"

text \<open>Instants whose nanoseconds, and those of the window before them, fit into 64 bits.\<close>

definition clock_ok :: "LifecycleConfig \<Rightarrow> gotime list \<Rightarrow> bool" where
  "clock_ok lc ts \<longleftrightarrow> sorted ts \<and> 0 \<le> RestartBudgetWindow lc \<and> in_int64 (- RestartBudgetWindow lc) \<and>
     (\<forall>t \<in> set ts. in_int64 t \<and> in_int64 (t - RestartBudgetWindow lc))"

lemma historyAfter_window:
  assumes "clock_ok lc (ts @ [now])"
  shows "historyAfter lc (ts @ [now]) = filter (\<lambda>t. t \<ge> now - RestartBudgetWindow lc) (ts @ [now])"
  using assms
proof (induction ts arbitrary: now rule: rev_induct)
  case Nil
  then show ?case by (simp add: historyAfter_def chargeBudget_def freshHistory_def clock_ok_def UnixNano_def Let_def)
next
  case (snoc t ts)
  have pre: "clock_ok lc (ts @ [t])" using snoc.prems by (auto simp: clock_ok_def sorted_append)
  have now: "UnixNano now = now" "UnixNano (now + int64_of (- RestartBudgetWindow lc)) = now - RestartBudgetWindow lc"
    and le: "t \<le> now" "0 \<le> RestartBudgetWindow lc"
    using snoc.prems by (auto simp: clock_ok_def UnixNano_def sorted_append)
  have "historyAfter lc ((ts @ [t]) @ [now]) = freshHistory lc now (historyAfter lc (ts @ [t]))"
    by (simp add: historyAfter_def chargeBudget_def Let_def)
  also have "\<dots> = filter (\<lambda>x. x \<ge> now - RestartBudgetWindow lc)
      (filter (\<lambda>x. x \<ge> t - RestartBudgetWindow lc) (ts @ [t])) @ [now]"
    unfolding freshHistory_def now snoc.IH [OF pre] by simp
  also have "filter (\<lambda>x. x \<ge> now - RestartBudgetWindow lc) (filter (\<lambda>x. x \<ge> t - RestartBudgetWindow lc) (ts @ [t]))
      = filter (\<lambda>x. x \<ge> now - RestartBudgetWindow lc) (ts @ [t])"
    unfolding filter_filter using le by (intro filter_cong) auto
  finally show ?case using le by simp
qed

text \<open>
  The restart budget is a sliding window. After restarts at any non-decreasing instants, the next one
  is refused (and the instance quarantined) exactly when more than \<open>RestartBudgetMax\<close> restarts, this
  one included, fall into the last \<open>RestartBudgetWindow\<close>; otherwise the instance sleeps the initial
  delay doubled for each earlier restart in the window, capped at the maximum, without overflow.
\<close>

theorem restart_budget:
  assumes "clock_ok lc (ts @ [now])"
    and "0 < RestartBackoffInitial lc" "RestartBackoffInitial lc \<le> RestartBackoffMax lc" "RestartBackoffMax lc < 2 ^ 62"
  shows "snd (chargeBudget lc now (historyAfter lc ts)) =
    (let n = length (filter (\<lambda>t. t \<ge> now - RestartBudgetWindow lc) (ts @ [now])) in
     if int n > RestartBudgetMax lc then None
     else Some (min (RestartBackoffMax lc) (RestartBackoffInitial lc * 2 ^ (n - 1))))"
proof -
  have "freshHistory lc now (historyAfter lc ts) = historyAfter lc (ts @ [now])"
    by (simp add: historyAfter_def chargeBudget_def Let_def)
  with historyAfter_window [OF assms(1)] backoffLoop_min [OF assms(2-4)] show ?thesis
    by (simp add: chargeBudget_def Let_def)
qed

theorem restart_budget_witness:
  "snd (chargeBudget DefaultLifecycleConfig 700000000000 (historyAfter DefaultLifecycleConfig [0, 650000000000])) = Some 2000000000"
  using restart_budget [of DefaultLifecycleConfig "[0, 650000000000]" 700000000000]
  by (simp add: clock_ok_def DefaultLifecycleConfig_def in_int64_def Let_def)

lemma runHealthFrom_True: "runHealthFrom limit f ps = Some True \<Longrightarrow> CtxDone \<in> set ps"
  by (induction limit f ps rule: runHealthFrom.induct) (auto split: if_splits)

lemma replicate_split:
  assumes "replicate f a @ x # ps = pre @ replicate k a @ post" "x \<noteq> a" "f < k"
  shows "\<exists>pre'. pre = replicate f a @ x # pre' \<and> ps = pre' @ replicate k a @ post"
proof -
  have "f < length pre"
  proof (rule ccontr)
    assume "\<not> f < length pre"
    moreover from this have "f - length pre < k" using assms(3) by linarith
    ultimately have "(pre @ replicate k a @ post) ! f = a" by (simp add: nth_append)
    moreover have "(replicate f a @ x # ps) ! f = x" by (simp add: nth_append)
    ultimately show False using assms(1,2) by simp
  qed
  then have "take (Suc f) pre = replicate f a @ [x]" "drop (Suc f) (pre @ replicate k a @ post) = ps"
    using arg_cong [OF assms(1), of "take (Suc f)"] arg_cong [OF assms(1), of "drop (Suc f)"] by simp_all
  with \<open>f < length pre\<close> show ?thesis by (metis append.assoc append_Cons append_Nil append_take_drop_id drop_append diff_is_0_eq' drop0 less_eq_Suc_le)
qed

lemma runHealthFrom_False:
  assumes "K = nat (max 1 limit)" "f < K"
  shows "runHealthFrom limit (int f) ps = Some False \<longleftrightarrow>
    (\<exists>pre post. replicate f ProbeFailed @ ps = pre @ replicate K ProbeFailed @ post \<and> CtxDone \<notin> set pre)"
  using assms(2)
proof (induction ps arbitrary: f)
  case Nil
  then show ?case by (auto dest: arg_cong [where f = length])
next
  case (Cons p ps)
  show ?case
  proof (cases p)
    case CtxDone
    with Cons.prems show ?thesis by (auto dest!: replicate_split)
  next
    case ProbeOk
    have "(\<exists>pre post. replicate f ProbeFailed @ ProbeOk # ps = pre @ replicate K ProbeFailed @ post \<and> CtxDone \<notin> set pre)
      \<longleftrightarrow> (\<exists>pre post. ps = pre @ replicate K ProbeFailed @ post \<and> CtxDone \<notin> set pre)" (is "?l \<longleftrightarrow> ?r")
    proof
      assume ?l
      with Cons.prems show ?r by (auto dest!: replicate_split)
    next
      assume ?r
      then obtain pre post where "ps = pre @ replicate K ProbeFailed @ post" "CtxDone \<notin> set pre" by blast
      then show ?l by (intro exI [of _ "replicate f ProbeFailed @ ProbeOk # pre"] exI [of _ post]) auto
    qed
    with ProbeOk Cons.IH [of 0] Cons.prems show ?thesis by simp
  next
    case ProbeFailed
    have shift: "replicate f ProbeFailed @ ProbeFailed # ps = replicate (Suc f) ProbeFailed @ ps"
      by (simp add: replicate_append_same)
    show ?thesis
    proof (cases "Suc f = K")
      case True
      then have "int f + 1 \<ge> limit" using assms(1) by simp
      moreover have "\<exists>pre post. replicate (Suc f) ProbeFailed @ ps = pre @ replicate K ProbeFailed @ post \<and> CtxDone \<notin> set pre"
        using True by (intro exI [of _ "[]"] exI [of _ ps]) auto
      ultimately show ?thesis unfolding ProbeFailed shift by simp
    next
      case False
      then have "\<not> int f + 1 \<ge> limit" "Suc f < K" using Cons.prems assms(1) by auto
      with Cons.IH [of "Suc f"] show ?thesis unfolding ProbeFailed shift by (simp add: add.commute)
    qed
  qed
qed

text \<open>
  \<open>runHealth\<close> gives up exactly when \<open>HealthFailuresToRestart\<close> consecutive probes fail (at least
  one) before the context ends; a success in between starts the count again. It returns healthy only
  when the context has ended.
\<close>

theorem runHealth_consecutive:
  "(runHealth lc ps = Some False \<longleftrightarrow>
     (\<exists>pre post. ps = pre @ replicate (nat (max 1 (HealthFailuresToRestart lc))) ProbeFailed @ post \<and> CtxDone \<notin> set pre)) \<and>
   (runHealth lc ps = Some True \<longrightarrow> CtxDone \<in> set ps)"
  using runHealthFrom_False [OF refl, of 0 "HealthFailuresToRestart lc" ps] runHealthFrom_True
  by (auto simp: runHealth_def)

theorem runHealth_consecutive_witness:
  "runHealth DefaultLifecycleConfig [ProbeFailed, ProbeOk, ProbeFailed, ProbeFailed, ProbeFailed, ProbeOk] = Some False"
proof -
  have "[ProbeFailed, ProbeOk, ProbeFailed, ProbeFailed, ProbeFailed, ProbeOk] =
      [ProbeFailed, ProbeOk] @ replicate (nat (max 1 (HealthFailuresToRestart DefaultLifecycleConfig))) ProbeFailed @ [ProbeOk]"
    by (simp add: DefaultLifecycleConfig_def numeral_eq_Suc)
  moreover have "CtxDone \<notin> set [ProbeFailed, ProbeOk]" by simp
  ultimately show ?thesis using runHealth_consecutive [of DefaultLifecycleConfig] by blast
qed

section \<open>Invariants of the lifecycle\<close>

text \<open>The states the goroutine can see at each point while nobody else has touched the instance.\<close>

fun pc_states :: "pc \<Rightarrow> State set" where
  "pc_states LoopHead = {StateDeclared, StateBackoff}"
| "pc_states SetSpawning = {StateDeclared, StateBackoff}"
| "pc_states AtSpawn = {StateSpawning}"
| "pc_states (EmitSpawnError e) = {StateSpawning}"
| "pc_states (SetAwaiting pid) = {StateSpawning}"
| "pc_states (EmitSpawned pid) = {StateAwaitingHandshake}"
| "pc_states AtHandshake = {StateAwaitingHandshake}"
| "pc_states (EmitHandshakeFailed e) = {StateAwaitingHandshake}"
| "pc_states (SetRunning v es) = {StateAwaitingHandshake}"
| "pc_states SetFailed = {StateSpawning, StateAwaitingHandshake, StateRunning}"
| "pc_states AtSleep = {StateBackoff}"
| "pc_states Exited = {StateQuarantined}"
| "pc_states ChargeBudget = {StateFailed}"
| "pc_states EmitQuarantined = {StateFailed}"
| "pc_states SetQuarantined = {StateFailed}"
| "pc_states (EmitBackoff b) = {StateFailed}"
| "pc_states (SetBackoff b) = {StateFailed}"
| "pc_states EmitStopped = {}"
| "pc_states SetStopped = {}"
| "pc_states p = {StateRunning}"

definition serving :: "pc \<Rightarrow> bool" where
  "serving p \<longleftrightarrow> (case p of EmitStarted v es \<Rightarrow> True | RegisterEntities es \<Rightarrow> True | AtHealth \<Rightarrow> True | ClearConn h \<Rightarrow> True | _ \<Rightarrow> False)"

definition lifecycle_inv :: "managedInstance \<Rightarrow> bool" where
  "lifecycle_inv m \<longleftrightarrow>
     (mi_shutdown m = NoShutdown \<longrightarrow> mi_state m \<in> pc_states (mi_pc m)) \<and>
     (cancelled m \<longleftrightarrow> mi_shutdown m \<in> {CloseConn, AwaitDone, ShutdownReturned}) \<and>
     (mi_conn m \<longleftrightarrow> serving (mi_pc m)) \<and>
     (mi_pc m \<in> {ClearConn True, AfterHealth True, EmitStopped, SetStopped} \<longrightarrow> cancelled m) \<and>
     (\<forall>cause. mi_pc m = EmitFailed cause \<longrightarrow> cause = ''health failed'')"

lemma launched_inv: "lifecycle_inv launched"
  by (simp add: lifecycle_inv_def launched_def serving_def)

lemma runLifecycle_inv: "runLifecycle lc inst m m' \<Longrightarrow> lifecycle_inv m \<Longrightarrow> lifecycle_inv m'"
proof (induction rule: runLifecycle.induct)
  case (health m probes healthy)
  then have "healthy \<Longrightarrow> cancelled m" using runHealthFrom_True by (auto simp: runHealth_def)
  with health show ?case by (cases healthy) (auto simp: lifecycle_inv_def serving_def)
next
  case (after_failed m healthy)
  then show ?case by (cases healthy) (auto simp: lifecycle_inv_def serving_def)
qed (auto simp: lifecycle_inv_def serving_def)

lemma shutdownInstance_inv: "shutdownInstance m m' \<Longrightarrow> lifecycle_inv m \<Longrightarrow> lifecycle_inv m'"
  by (induction rule: shutdownInstance.induct) (auto simp: lifecycle_inv_def)

lemma lifecycle_invariant: "lifecycle lc inst m \<Longrightarrow> lifecycle_inv m"
  by (induction rule: lifecycle.induct) (auto intro: launched_inv runLifecycle_inv shutdownInstance_inv)

definition legal_change :: "State \<Rightarrow> State \<Rightarrow> bool" where
  "legal_change s s' \<longleftrightarrow> (\<exists>trigger \<in> set [TriggerStart, TriggerSpawned, TriggerSpawnError, TriggerHandshakeOK,
     TriggerHandshakeFail, TriggerHealthFail, TriggerBackoffScheduled, TriggerBackoffElapsed]. IsLegal s trigger s')"

lemma legal_changes [simp]:
  "legal_change StateDeclared StateSpawning" "legal_change StateBackoff StateSpawning"
  "legal_change StateSpawning StateAwaitingHandshake" "legal_change StateSpawning StateFailed"
  "legal_change StateAwaitingHandshake StateRunning" "legal_change StateAwaitingHandshake StateFailed"
  "legal_change StateRunning StateFailed" "legal_change StateFailed StateBackoff"
  by (simp_all add: legal_change_def IsLegal_def transitions_def)

text \<open>
  While an instance is not being shut down, every change of its state that the supervisor makes is
  a transition of the table in \<open>fsm.go\<close>, with one exception: an instance whose restart budget is
  exhausted goes from failed to quarantined, which no trigger of the table allows.
\<close>

theorem lifecycle_follows_table:
  assumes "lifecycle lc inst m" "runLifecycle lc inst m m'" "mi_shutdown m = NoShutdown" "mi_state m' \<noteq> mi_state m"
  shows "if mi_state m' = StateQuarantined
    then mi_state m = StateFailed \<and> (\<forall>trigger. \<not> IsLegal (mi_state m) trigger (mi_state m'))
    else (\<exists>trigger. IsLegal (mi_state m) trigger (mi_state m'))"
proof -
  have inv: "mi_state m \<in> pc_states (mi_pc m)" using lifecycle_invariant [OF assms(1)] assms(3) by (simp add: lifecycle_inv_def)
  have no: "\<not> IsLegal StateFailed trigger StateQuarantined" for trigger
    by (cases trigger) (simp_all add: IsLegal_def transitions_def)
  have "mi_state m' = StateQuarantined \<and> mi_state m = StateFailed \<or>
      mi_state m' \<noteq> StateQuarantined \<and> legal_change (mi_state m) (mi_state m')"
    using assms(2,4) inv by cases auto
  with no show ?thesis by (auto simp: legal_change_def)
qed

lemma spawning_reachable: "lifecycle lc inst (launched\<lparr>mi_pc := SetSpawning\<rparr>)"
  using lifecycle_run [OF lifecycle_start head_go] by (simp add: launched_def)

theorem lifecycle_follows_table_witness:
  "\<exists>m m'. lifecycle DefaultLifecycleConfig ''hue'' m \<and> runLifecycle DefaultLifecycleConfig ''hue'' m m' \<and>
     mi_state m' \<noteq> mi_state m \<and> (\<exists>trigger. IsLegal (mi_state m) trigger (mi_state m'))"
proof -
  let ?m = "launched\<lparr>mi_pc := SetSpawning\<rparr>"
  let ?m' = "?m\<lparr>mi_state := StateSpawning, mi_pc := AtSpawn\<rparr>"
  have "runLifecycle DefaultLifecycleConfig ''hue'' ?m ?m'" by (rule set_spawning) simp
  with lifecycle_follows_table [OF spawning_reachable this] spawning_reachable
  show ?thesis by (intro exI [of _ ?m] exI [of _ ?m']) (simp add: launched_def)
qed

section \<open>Shutting down\<close>

text \<open>How far a goroutine whose context is cancelled is from its end.\<close>

fun remaining :: "pc \<Rightarrow> nat \<times> nat" where
  "remaining Exited = (0, 0)"
| "remaining LoopHead = (1, 0)"
| "remaining SetQuarantined = (1, 0)"
| "remaining EmitQuarantined = (2, 0)"
| "remaining SetStopped = (1, 0)"
| "remaining EmitStopped = (2, 0)"
| "remaining AtSleep = (2, 0)"
| "remaining (SetBackoff b) = (3, 0)"
| "remaining (EmitBackoff b) = (4, 0)"
| "remaining ChargeBudget = (5, 0)"
| "remaining SetFailed = (6, 0)"
| "remaining (EmitFailed c) = (7, 0)"
| "remaining (AfterHealth h) = (8, 0)"
| "remaining (ClearConn h) = (9, 0)"
| "remaining AtHealth = (10, 0)"
| "remaining (RegisterEntities es) = (11, length es)"
| "remaining (EmitStarted v es) = (12, 0)"
| "remaining (SetRunning v es) = (13, 0)"
| "remaining (EmitHandshakeFailed e) = (13, 0)"
| "remaining AtHandshake = (14, 0)"
| "remaining (EmitSpawned p) = (15, 0)"
| "remaining (SetAwaiting p) = (16, 0)"
| "remaining (EmitSpawnError e) = (16, 0)"
| "remaining AtSpawn = (17, 0)"
| "remaining SetSpawning = (18, 0)"

lemma remaining_decreases:
  "runLifecycle lc inst m m' \<Longrightarrow> cancelled m \<Longrightarrow> (remaining (mi_pc m'), remaining (mi_pc m)) \<in> less_than <*lex*> less_than"
  by (induction rule: runLifecycle.induct) auto

lemma runLifecycle_cancelled: "runLifecycle lc inst m m' \<Longrightarrow> cancelled m' = cancelled m"
  by (induction rule: runLifecycle.induct) auto

lemma runLifecycle_progress:
  assumes "cancelled m" "mi_pc m \<noteq> Exited"
  shows "\<exists>m'. runLifecycle lc inst m m'"
proof (cases "mi_pc m")
  case AtHealth
  moreover have "runHealth lc [CtxDone] = Some True" by (simp add: runHealth_def)
  ultimately show ?thesis using assms(1) runLifecycle.health by blast
next
  case ChargeBudget
  obtain h b where "chargeBudget lc 0 (restartHistory m) = (h, b)" by fastforce
  with ChargeBudget show ?thesis by (cases b) (blast intro: charge exhausted)+
next
  case (RegisterEntities es)
  then show ?thesis by (cases es) (blast intro: register_one register_end)+
qed (use assms in \<open>blast intro: runLifecycle.intros\<close>)+

lemma cancelled_wf: "wf {(m', m). cancelled m \<and> runLifecycle lc inst m m'}"
proof (rule wf_subset [OF wf_inv_image [where f = "\<lambda>m. remaining (mi_pc m)"]])
  show "wf (less_than <*lex*> less_than)" by auto
  show "{(m', m). cancelled m \<and> runLifecycle lc inst m m'} \<subseteq> inv_image (less_than <*lex*> less_than) (\<lambda>m. remaining (mi_pc m))"
    using remaining_decreases by (auto simp: inv_image_def simp del: in_lex_prod)
qed


text \<open>An instance that is shut down while its driver is being spawned, step by step.\<close>

definition spawnCancelled :: managedInstance where
  "spawnCancelled = \<lparr>mi_state = StateStopping, mi_conn = False, restartHistory = [], mi_pc = AtSpawn, cancelled = True,
     mi_shutdown = AwaitDone, mi_log = [Driver_event ''stopping'' ''spawning'']\<rparr>"

lemma spawnCancelled_reachable: "lifecycle DefaultLifecycleConfig ''hue'' spawnCancelled"
proof -
  let ?l = "lifecycle DefaultLifecycleConfig ''hue''"
  have "?l launched" by (rule lifecycle_start)
  from lifecycle_run [OF this head_go] have "?l (launched\<lparr>mi_pc := SetSpawning\<rparr>)" by (simp add: launched_def)
  from lifecycle_run [OF this set_spawning] have "?l (launched\<lparr>mi_pc := AtSpawn, mi_state := StateSpawning\<rparr>)"
    by (simp add: launched_def)
  from lifecycle_shut [OF this shut_begin]
  have "?l (launched\<lparr>mi_pc := AtSpawn, mi_state := StateStopping, mi_shutdown := EmitStopping StateSpawning False\<rparr>)"
    by (simp add: launched_def)
  from lifecycle_shut [OF this shut_emit [of _ StateSpawning False]]
  have "?l (launched\<lparr>mi_log := [Driver_event ''stopping'' ''spawning''], mi_pc := AtSpawn, mi_state := StateStopping,
      mi_shutdown := CancelLifecycle False\<rparr>)"
    by (simp add: launched_def)
  from lifecycle_shut [OF this shut_cancel [of _ False]] show ?thesis by (simp add: launched_def spawnCancelled_def)
qed


text \<open>
  Where a shut-down instance can end: the goroutine may overwrite the state that \<open>shutdownInstance\<close> set.
\<close>

fun shut_states :: "pc \<Rightarrow> State set" where
  "shut_states Exited = {StateStopped, StateStopping, StateBackoff, StateQuarantined}"
| "shut_states AtSleep = {StateStopping, StateBackoff}"
| "shut_states LoopHead = {StateStopping, StateBackoff}"
| "shut_states p = UNIV"

lemma shut_states_inv:
  "lifecycle lc inst m \<Longrightarrow> mi_shutdown m \<noteq> NoShutdown \<Longrightarrow> mi_state m \<in> shut_states (mi_pc m)"
proof (induction rule: lifecycle.induct)
  case (lifecycle_run m m')
  from lifecycle_run.hyps(2) lifecycle_run.IH lifecycle_run.prems show ?case by cases auto
next
  case (lifecycle_shut m m')
  from lifecycle_shut.hyps(2) lifecycle_shut.IH show ?case by cases (cases "mi_pc m"; auto)+
qed (simp add: launched_def)

lemma shutdown_into_backoff:
  "\<exists>m. lifecycle DefaultLifecycleConfig ''hue'' m \<and> mi_shutdown m = ShutdownReturned \<and> mi_pc m = Exited \<and>
      mi_state m = StateBackoff \<and>
      mi_log m = [Driver_event ''stopping'' ''spawning'', Driver_event ''spawn_error'' ''context canceled'',
        Driver_event ''backoff_scheduled'' ''1s'']"
proof -
  let ?l = "lifecycle DefaultLifecycleConfig ''hue''"
  have charge0: "chargeBudget DefaultLifecycleConfig 0 [] = ([0], Some 1000000000)"
    by (simp add: chargeBudget_def freshHistory_def DefaultLifecycleConfig_def UnixNano_def in_int64_def Let_def)
  have "char_of (49 :: nat) = CHR ''1''" by (simp add: char_of_eq_iff)
  then have oneSecond: "showDuration 1000000000 = ''1s''"
    by (simp add: showDuration_def showSeconds_def showFraction_def showNat.simps Let_def)
  from lifecycle_run [OF spawnCancelled_reachable spawn_err [of _ _ _ "''context canceled''"]]
  have "?l (spawnCancelled\<lparr>mi_pc := EmitSpawnError ''context canceled''\<rparr>)" by (simp add: spawnCancelled_def)
  from lifecycle_run [OF this emit_spawn_err]
  have "?l (emit ''spawn_error'' ''context canceled'' (spawnCancelled\<lparr>mi_pc := SetFailed\<rparr>))" by (simp add: spawnCancelled_def)
  from lifecycle_run [OF this set_failed]
  have "?l (emit ''spawn_error'' ''context canceled'' (spawnCancelled\<lparr>mi_pc := ChargeBudget, mi_state := StateFailed\<rparr>))"
    by (simp add: spawnCancelled_def)
  from lifecycle_run [OF this charge [of _ _ 0 "[0]" 1000000000]] charge0
  have "?l (emit ''spawn_error'' ''context canceled''
      (spawnCancelled\<lparr>mi_pc := EmitBackoff 1000000000, mi_state := StateFailed, restartHistory := [0]\<rparr>))"
    by (simp add: spawnCancelled_def)
  from lifecycle_run [OF this emit_backoff] oneSecond
  have "?l (emit ''backoff_scheduled'' ''1s'' (emit ''spawn_error'' ''context canceled''
      (spawnCancelled\<lparr>mi_pc := SetBackoff 1000000000, mi_state := StateFailed, restartHistory := [0]\<rparr>)))"
    by (simp add: spawnCancelled_def)
  from lifecycle_run [OF this set_backoff]
  have "?l (emit ''backoff_scheduled'' ''1s'' (emit ''spawn_error'' ''context canceled''
      (spawnCancelled\<lparr>mi_pc := AtSleep, mi_state := StateBackoff, restartHistory := [0]\<rparr>)))"
    by (simp add: spawnCancelled_def)
  from lifecycle_run [OF this sleep_cancelled]
  have "?l (emit ''backoff_scheduled'' ''1s'' (emit ''spawn_error'' ''context canceled''
      (spawnCancelled\<lparr>mi_pc := Exited, mi_state := StateBackoff, restartHistory := [0]\<rparr>)))" (is "lifecycle _ _ ?m")
    by (simp add: spawnCancelled_def)
  from lifecycle_shut [OF this shut_done] have "?l (?m\<lparr>mi_shutdown := ShutdownReturned\<rparr>)" by (simp add: spawnCancelled_def)
  then show "\<exists>m. ?l m \<and> mi_shutdown m = ShutdownReturned \<and> mi_pc m = Exited \<and> mi_state m = StateBackoff \<and>
      mi_log m = [Driver_event ''stopping'' ''spawning'', Driver_event ''spawn_error'' ''context canceled'',
        Driver_event ''backoff_scheduled'' ''1s'']"
    by (intro exI conjI) (assumption | simp add: spawnCancelled_def)+
qed


text \<open>
  What is left of an instance after its shutdown: when the goroutine has ended, the state is one of
  stopped, stopping, backoff and quarantined; and backoff does occur. A shutdown that meets the
  supervisor while it spawns the driver leaves the instance in backoff, with a scheduled restart as
  its last event, and \<open>stopped\<close> is never logged.
\<close>

theorem shutdown_final_states:
  "(lifecycle lc inst m \<longrightarrow> mi_shutdown m \<noteq> NoShutdown \<longrightarrow> mi_pc m = Exited \<longrightarrow>
      mi_state m \<in> {StateStopped, StateStopping, StateBackoff, StateQuarantined}) \<and>
   (\<exists>m. lifecycle DefaultLifecycleConfig ''hue'' m \<and> mi_shutdown m = ShutdownReturned \<and> mi_pc m = Exited \<and>
      mi_state m = StateBackoff \<and>
      mi_log m = [Driver_event ''stopping'' ''spawning'', Driver_event ''spawn_error'' ''context canceled'',
        Driver_event ''backoff_scheduled'' ''1s''])"
  using shut_states_inv [of lc inst m] shutdown_into_backoff by auto

theorem shutdown_final_states_witness:
  "\<exists>m. lifecycle DefaultLifecycleConfig ''hue'' m \<and> mi_shutdown m = ShutdownReturned \<and> mi_pc m = Exited \<and>
     mi_state m \<in> {StateStopped, StateStopping, StateBackoff, StateQuarantined}"
  using shutdown_final_states [of DefaultLifecycleConfig "''hue''"] by blast

end
