(* ===== verification/Config_Snapshot.thy ===== *)
theory Config_Snapshot
  imports Automation_Rules Carport_Lifecycle
begin

text \<open>
  Configuration snapshots, \<^verbatim>\<open>internal/config\<close>: folding the discovered files into the main module (\<^verbatim>\<open>merge.go\<close>), the
  cross-reference checks (\<^verbatim>\<open>compile.go\<close>), the difference of two snapshots (\<^verbatim>\<open>diff.go\<close>), the layers of lifecycle
  settings (\<^verbatim>\<open>lifecycle.go\<close>, \<^verbatim>\<open>lifecycle_merge.go\<close>), secrets (\<^verbatim>\<open>secrets.go\<close>) and the message of an apply
  (\<^verbatim>\<open>semantic_message.go\<close>). Pkl and JSON are arguments.
\<close>

section \<open>Snapshots\<close>

record DriverInstanceConfig =
  di_Id :: string
  di_DriverName :: string
  di_Params :: bytes
  di_ConfigHash :: bytes

record SceneConfig =
  sc_Id :: string
  sc_DisplayName :: string
  sc_Actions :: "(ActionConfig \<times> bool) list"   \<comment> \<open>actions, each with continue-on-error\<close>
  sc_AreaId :: string

datatype ParamType = TYPE_UNSPECIFIED | TYPE_STRING | TYPE_INT | TYPE_FLOAT | TYPE_BOOL | TYPE_ENTITY_ID

record ScriptParam =
  sp_Name :: string
  sp_Type :: ParamType
  sp_Required :: bool
  sp_Default :: string

record ScriptConfig =
  sf_Name :: string
  sf_Params :: "ScriptParam list"
  sf_Handler :: string

record ConfigSnapshot =
  cs_EvaluatedAtUnixMs :: int
  cs_DriverInstances :: "DriverInstanceConfig list"
  cs_Entities :: "string list"
  cs_Automations :: "AutomationConfig list"
  cs_Scripts :: "ScriptConfig list"
  cs_Areas :: "string list"
  cs_Scenes :: "SceneConfig list"
  cs_Dashboards :: nat
  cs_EntityAreas :: "(string \<times> string) list"

record ValidationError =
  ve_Code :: string
  ve_File :: string
  ve_Line :: int
  ve_Field :: string
  ve_Message :: string

definition ValidationError_Error :: "ValidationError \<Rightarrow> string" where
  "ValidationError_Error e =
     (if ve_File e \<noteq> [] then ve_File e @ (if ve_Line e > 0 then '':'' @ showInt (ve_Line e) else []) @ '': '' else []) @
     (if ve_Code e \<noteq> [] then ''['' @ ve_Code e @ ''] '' else []) @
     (if ve_Field e \<noteq> [] then ve_Field e @ '': '' else []) @ ve_Message e"

text \<open>The dash of the messages, in UTF-8.\<close>

definition emDash :: string where
  "emDash = [CHR 0xE2, CHR 0x80, CHR 0x94]"

definition fieldError :: "string \<Rightarrow> string \<Rightarrow> ValidationError" where
  "fieldError f m = \<lparr>ve_Code = [], ve_File = [], ve_Line = 0, ve_Field = f, ve_Message = m\<rparr>"

section \<open>Folding in the discovered files\<close>

definition trimSuffix :: "string \<Rightarrow> string \<Rightarrow> string" where
  "trimSuffix s suf = (if length suf \<le> length s \<and> drop (length s - length suf) s = suf then take (length s - length suf) s else s)"

text \<open>\<open>filepath.Base\<close> of a path that has a file name.\<close>

definition baseName :: "string \<Rightarrow> string" where
  "baseName p = last (splitAll (CHR ''/'') p)"

definition expectedID :: "string \<Rightarrow> string" where
  "expectedID path = trimSuffix (baseName path) ''.pkl''"

definition bracketed :: "string \<Rightarrow> string \<Rightarrow> string" where
  "bracketed kind i = kind @ ''['' @ i @ '']''"

text \<open>
  The three loops of \<open>mergeDiscovered\<close> differ in the kind and in how an item gives its id: what is kept, the
  errors, and whether an id was declared inline as well.
\<close>

fun mergeKind :: "string \<Rightarrow> ('a \<Rightarrow> string) \<Rightarrow> string set \<Rightarrow> (string \<times> 'a) list \<Rightarrow> 'a list \<times> ValidationError list \<times> bool" where
  "mergeKind kind idOf inline [] = ([], [], False)"
| "mergeKind kind idOf inline ((path, x) # rest) =
     (let (kept, errs, hard) = mergeKind kind idOf inline rest in
      if idOf x \<noteq> expectedID path then
        (kept, \<lparr>ve_Code = ''filename_id_mismatch'', ve_File = path, ve_Line = 0, ve_Field = bracketed kind (idOf x),
          ve_Message = ''filename '' @ quoted (expectedID path) @ '' does not match id '' @ quoted (idOf x)\<rparr> # errs, hard)
      else if idOf x \<in> inline then
        (kept, \<lparr>ve_Code = ''duplicate_id'', ve_File = path, ve_Line = 0, ve_Field = bracketed kind (idOf x),
          ve_Message = ''id '' @ quoted (idOf x) @ '' is already declared inline in main.pkl''\<rparr> # errs, True)
      else (x # kept, errs, hard))"

record discoveryResult =
  dr_Automations :: "(string \<times> AutomationConfig) list"
  dr_Areas :: "(string \<times> string) list"
  dr_Scenes :: "(string \<times> SceneConfig) list"
  dr_EntityAreas :: "(string \<times> string) list"

text \<open>The entries of the file are taken one by one, in the order of a map range.\<close>

fun mergeEntityAreas :: "(string \<times> string) list \<Rightarrow> (string \<times> string) list \<Rightarrow> (string \<times> string) list \<times> ValidationError list \<times> bool" where
  "mergeEntityAreas m [] = (m, [], False)"
| "mergeEntityAreas m ((k, v) # rest) =
     (case map_of m k of
        Some existing \<Rightarrow>
          if existing \<noteq> v then
            (let (m', errs, hard) = mergeEntityAreas m rest in
             (m', \<lparr>ve_Code = ''duplicate_entity_area'', ve_File = ''entity-areas.pkl'', ve_Line = 0, ve_Field = bracketed ''entityAreas'' k,
               ve_Message = ''key '' @ quoted k @ '' is already mapped to '' @ quoted existing @ '' inline; file maps it to '' @ quoted v\<rparr> # errs, True))
          else mergeEntityAreas m rest
      | None \<Rightarrow> mergeEntityAreas (m @ [(k, v)]) rest)"

definition mergeDiscovered :: "ConfigSnapshot \<Rightarrow> discoveryResult \<Rightarrow> ConfigSnapshot \<times> ValidationError list \<times> error option" where
  "mergeDiscovered snap disc =
     (let (autos, e1, h1) = mergeKind ''automations'' cfg_Id (cfg_Id ` set (cs_Automations snap)) (dr_Automations disc);
          (areas, e2, h2) = mergeKind ''areas'' (\<lambda>i. i) (set (cs_Areas snap)) (dr_Areas disc);
          (scenes, e3, h3) = mergeKind ''scenes'' sc_Id (sc_Id ` set (cs_Scenes snap)) (dr_Scenes disc);
          (ents, e4, h4) = mergeEntityAreas (cs_EntityAreas snap) (dr_EntityAreas disc) in
      (snap\<lparr>cs_Automations := cs_Automations snap @ autos, cs_Areas := cs_Areas snap @ areas,
         cs_Scenes := cs_Scenes snap @ scenes, cs_EntityAreas := ents\<rparr>,
       e1 @ e2 @ e3 @ e4,
       if h1 \<or> h2 \<or> h3 \<or> h4 then Some (''config merge failed: duplicate id(s) '' @ emDash @ '' see validation errors'') else None))"

section \<open>Cross references\<close>

text \<open>\<open>querier\<close> is absent when the manager validates.\<close>

fun checkInstances :: "(string \<Rightarrow> bool) option \<Rightarrow> string set \<Rightarrow> DriverInstanceConfig list \<Rightarrow> ValidationError list" where
  "checkInstances querier seen [] = []"
| "checkInstances querier seen (di # rest) =
     (if di_Id di \<in> seen then [fieldError (bracketed ''driverInstances'' (di_Id di)) ''duplicate driver instance id''] else []) @
     (case querier of
        None \<Rightarrow> []
      | Some driverExists \<Rightarrow>
          if di_DriverName di \<noteq> [] \<and> \<not> driverExists (di_DriverName di)
          then [fieldError (bracketed ''driverInstances'' (di_Id di) @ ''.driverName'')
            (''unknown driver '' @ quoted (di_DriverName di) @ '' '' @ emDash @ '' is the driver binary registered?'')] else []) @
     checkInstances querier (insert (di_Id di) seen) rest"

definition isValidEntityID :: "string \<Rightarrow> bool" where
  "isValidEntityID i = (case splitN (CHR ''.'') 2 i of [a, b] \<Rightarrow> a \<noteq> [] \<and> b \<noteq> [] | _ \<Rightarrow> False)"

fun checkEntities :: "string set \<Rightarrow> string list \<Rightarrow> ValidationError list" where
  "checkEntities seen [] = []"
| "checkEntities seen (e # rest) =
     (if e \<in> seen then [fieldError (bracketed ''entities'' e) ''duplicate entity id''] else []) @
     (if \<not> isValidEntityID e then [fieldError (bracketed ''entities'' e @ ''.id'') (''entity id must be '' @ quoted ''<type>.<name>'' @ '' e.g. '' @ quoted ''light.living_room'')] else []) @
     checkEntities (insert e seen) rest"

fun checkUnique :: "string \<Rightarrow> string \<Rightarrow> string set \<Rightarrow> string list \<Rightarrow> ValidationError list" where
  "checkUnique kind msg seen [] = []"
| "checkUnique kind msg seen (i # rest) =
     (if i \<in> seen then [fieldError (bracketed kind i) msg] else []) @ checkUnique kind msg (insert i seen) rest"

definition indexed :: "string \<Rightarrow> nat \<Rightarrow> string" where
  "indexed p i = p @ ''['' @ showNat i @ '']''"

fun collectScriptRefs :: "string set \<Rightarrow> string \<Rightarrow> ActionConfig \<Rightarrow> ValidationError list"
  and collectFrom :: "string set \<Rightarrow> string \<Rightarrow> nat \<Rightarrow> (ActionConfig \<times> bool) list \<Rightarrow> ValidationError list" where
  "collectScriptRefs known path (AC_Script name args) =
     (if name \<notin> known then [fieldError (path @ ''.script.name'') (''unknown script '' @ quoted name)] else [])"
| "collectScriptRefs known path (AC_Sequence as) = collectFrom known (path @ ''.sequence.actions'') 0 as"
| "collectScriptRefs known path (AC_Parallel as) = collectFrom known (path @ ''.parallel.actions'') 0 as"
| "collectScriptRefs known path (AC_CallService x y z) = []"
| "collectScriptRefs known path (AC_Scene s) = []"
| "collectScriptRefs known path (AC_Starlark s) = []"
| "collectScriptRefs known path (AC_Wait d) = []"
| "collectScriptRefs known path AC_Unknown = []"
| "collectFrom known path i [] = []"
| "collectFrom known path i ((a, c) # rest) = collectScriptRefs known (indexed path i) a @ collectFrom known path (Suc i) rest"

definition danglingAreas :: "string set \<Rightarrow> SceneConfig list \<Rightarrow> ValidationError list" where
  "danglingAreas known scenes =
     map (\<lambda>sc. \<lparr>ve_Code = ''dangling_area_ref'', ve_File = [], ve_Line = 0, ve_Field = bracketed ''scenes'' (sc_Id sc) @ ''.area_id'',
        ve_Message = ''scene '' @ quoted (sc_Id sc) @ '' references unknown area '' @ quoted (sc_AreaId sc)\<rparr>)
       (filter (\<lambda>sc. sc_AreaId sc \<noteq> [] \<and> sc_AreaId sc \<notin> known) scenes)"

definition scriptNames :: "ConfigSnapshot \<Rightarrow> string list" where
  "scriptNames snap = filter (\<lambda>n. n \<noteq> []) (map sf_Name (cs_Scripts snap))"

definition Config_Compile :: "ConfigSnapshot \<Rightarrow> (string \<Rightarrow> bool) option \<Rightarrow> ValidationError list" where
  "Config_Compile snap querier =
     checkInstances querier {} (cs_DriverInstances snap) @
     checkEntities {} (cs_Entities snap) @
     checkUnique ''automations'' ''duplicate automation id'' {} (map cfg_Id (cs_Automations snap)) @
     checkUnique ''scripts'' ''duplicate script name'' {} (scriptNames snap) @
     concat (map (\<lambda>a. collectFrom (set (scriptNames snap)) (bracketed ''automations'' (cfg_Id a) @ ''.actions'') 0 (cfg_Actions a))
       (cs_Automations snap)) @
     danglingAreas (set (cs_Areas snap)) (cs_Scenes snap)"

section \<open>Differences\<close>

record ConfigDiff =
  DriverInstancesAdded :: "string list"
  DriverInstancesRemoved :: "string list"
  DriverInstancesChanged :: "string list"
  AutomationsChanged :: int
  DashboardsChanged :: int

definition instancesOf :: "ConfigSnapshot option \<Rightarrow> DriverInstanceConfig list" where
  "instancesOf snap = (case snap of None \<Rightarrow> [] | Some s \<Rightarrow> cs_DriverInstances s)"

text \<open>Writing the instances into a map in order: a later one replaces an earlier one.\<close>

definition hashMap :: "DriverInstanceConfig list \<Rightarrow> (string \<times> bytes) list" where
  "hashMap xs = fold (\<lambda>di m. AList.update (di_Id di) (di_ConfigHash di) m) xs []"

text \<open>The removed ids come in the order of a map range, which is taken to be that of \<open>hashMap\<close>.\<close>

definition Diff :: "ConfigSnapshot option \<Rightarrow> ConfigSnapshot \<Rightarrow> ConfigDiff" where
  "Diff old next =
     (let oldInsts = hashMap (instancesOf old); ids = di_Id ` set (cs_DriverInstances next) in
      \<lparr>DriverInstancesAdded = map di_Id (filter (\<lambda>di. map_of oldInsts (di_Id di) = None) (cs_DriverInstances next)),
       DriverInstancesRemoved = filter (\<lambda>i. i \<notin> ids) (map fst oldInsts),
       DriverInstancesChanged = map di_Id (filter (\<lambda>di. case map_of oldInsts (di_Id di) of None \<Rightarrow> False | Some h \<Rightarrow> h \<noteq> di_ConfigHash di) (cs_DriverInstances next)),
       AutomationsChanged = int (length (cs_Automations next)) - int (case old of None \<Rightarrow> 0 | Some s \<Rightarrow> length (cs_Automations s)),
       DashboardsChanged = int (cs_Dashboards next) - int (case old of None \<Rightarrow> 0 | Some s \<Rightarrow> cs_Dashboards s)\<rparr>)"

definition findInstance :: "ConfigSnapshot \<Rightarrow> string \<Rightarrow> DriverInstanceConfig option" where
  "findInstance snap i = List.find (\<lambda>di. di_Id di = i) (cs_DriverInstances snap)"

section \<open>Lifecycle settings\<close>

record LifecycleOverride =
  lo_HandshakeDeadline :: "duration option"
  lo_HealthProbeInterval :: "duration option"
  lo_HealthProbeTimeout :: "duration option"
  lo_HealthFailuresToRestart :: "int option"
  lo_ShutdownGrace :: "duration option"
  lo_RestartBackoffInitial :: "duration option"
  lo_RestartBackoffMax :: "duration option"
  lo_RestartBudgetWindow :: "duration option"
  lo_RestartBudgetMax :: "int option"

definition noOverride :: LifecycleOverride where
  "noOverride = \<lparr>lo_HandshakeDeadline = None, lo_HealthProbeInterval = None, lo_HealthProbeTimeout = None, lo_HealthFailuresToRestart = None,
     lo_ShutdownGrace = None, lo_RestartBackoffInitial = None, lo_RestartBackoffMax = None, lo_RestartBudgetWindow = None, lo_RestartBudgetMax = None\<rparr>"

record lifecycleOverrideJSON =
  lj_HandshakeDeadline :: "string option"
  lj_HealthProbeInterval :: "string option"
  lj_HealthProbeTimeout :: "string option"
  lj_HealthFailuresToRestart :: "int option"
  lj_ShutdownGrace :: "string option"
  lj_RestartBackoffInitial :: "string option"
  lj_RestartBackoffMax :: "string option"
  lj_RestartBudgetWindow :: "string option"
  lj_RestartBudgetMax :: "int option"

record InstanceOptions =
  io_Enabled :: bool
  io_Override :: LifecycleOverride

record instanceOptionsJSON =
  ij_Enabled :: "bool option"
  ij_Lifecycle :: "lifecycleOverrideJSON option"

text \<open>A duration that does not parse counts as not set.\<close>

definition decodeLifecycleOverride :: "(string \<Rightarrow> duration option) \<Rightarrow> lifecycleOverrideJSON \<Rightarrow> LifecycleOverride" where
  "decodeLifecycleOverride parsePklDuration j =
     (let d = (\<lambda>f. Option.bind (f j) parsePklDuration) in
      \<lparr>lo_HandshakeDeadline = d lj_HandshakeDeadline, lo_HealthProbeInterval = d lj_HealthProbeInterval,
       lo_HealthProbeTimeout = d lj_HealthProbeTimeout, lo_HealthFailuresToRestart = lj_HealthFailuresToRestart j,
       lo_ShutdownGrace = d lj_ShutdownGrace, lo_RestartBackoffInitial = d lj_RestartBackoffInitial,
       lo_RestartBackoffMax = d lj_RestartBackoffMax, lo_RestartBudgetWindow = d lj_RestartBudgetWindow,
       lo_RestartBudgetMax = lj_RestartBudgetMax j\<rparr>)"

text \<open>The JSON decoder and the duration parser of Pkl values are arguments.\<close>

record decoders =
  dec_options :: "bytes \<Rightarrow> error + instanceOptionsJSON"
  dec_duration :: "string \<Rightarrow> duration option"

definition parseInstanceOptions :: "decoders \<Rightarrow> bytes \<Rightarrow> error + InstanceOptions" where
  "parseInstanceOptions dec raw =
     (case dec_options dec raw of
        Inl e \<Rightarrow> Inl (''parse instance options: '' @ e)
      | Inr j \<Rightarrow> Inr \<lparr>io_Enabled = (case ij_Enabled j of None \<Rightarrow> True | Some b \<Rightarrow> b),
          io_Override = (case ij_Lifecycle j of None \<Rightarrow> noOverride | Some l \<Rightarrow> decodeLifecycleOverride (dec_duration dec) l)\<rparr>)"

text \<open>\<open>applyDur\<close> and \<open>applyInt\<close>.\<close>

definition applyOpt :: "'a \<Rightarrow> 'a option \<Rightarrow> 'a option \<Rightarrow> 'a" where
  "applyOpt dst fromManifest fromOverride =
     (let d = (case fromManifest of None \<Rightarrow> dst | Some x \<Rightarrow> x) in case fromOverride of None \<Rightarrow> d | Some x \<Rightarrow> x)"

definition MergeLifecycle :: "LifecycleOverride \<Rightarrow> LifecycleOverride \<Rightarrow> LifecycleConfig" where
  "MergeLifecycle m ov =
     (let lc = DefaultLifecycleConfig in
      \<lparr>HandshakeDeadline = applyOpt (HandshakeDeadline lc) (lo_HandshakeDeadline m) (lo_HandshakeDeadline ov),
       HealthProbeInterval = applyOpt (HealthProbeInterval lc) (lo_HealthProbeInterval m) (lo_HealthProbeInterval ov),
       HealthProbeTimeout = applyOpt (HealthProbeTimeout lc) (lo_HealthProbeTimeout m) (lo_HealthProbeTimeout ov),
       HealthFailuresToRestart = applyOpt (HealthFailuresToRestart lc) (lo_HealthFailuresToRestart m) (lo_HealthFailuresToRestart ov),
       ShutdownGrace = applyOpt (ShutdownGrace lc) (lo_ShutdownGrace m) (lo_ShutdownGrace ov),
       RestartBackoffInitial = applyOpt (RestartBackoffInitial lc) (lo_RestartBackoffInitial m) (lo_RestartBackoffInitial ov),
       RestartBackoffMax = applyOpt (RestartBackoffMax lc) (lo_RestartBackoffMax m) (lo_RestartBackoffMax ov),
       RestartBudgetWindow = applyOpt (RestartBudgetWindow lc) (lo_RestartBudgetWindow m) (lo_RestartBudgetWindow ov),
       RestartBudgetMax = applyOpt (RestartBudgetMax lc) (lo_RestartBudgetMax m) (lo_RestartBudgetMax ov)\<rparr>)"

section \<open>Secrets\<close>

text \<open>Parsed JSON as the code looks at it: texts, objects and everything else. An object is in the order of a map range.\<close>

datatype json = JString string | JMap "(string \<times> json) list" | JOther bytes

definition RedactedSecret :: string where
  "RedactedSecret = ''[REDACTED]''"

definition isSecretTag :: "string \<Rightarrow> bool" where
  "isSecretTag s \<longleftrightarrow> hasPrefix s ''env:'' \<or> hasPrefix s ''file:'' \<or> hasPrefix s ''keyring:''"

text \<open>
  The environment, the files and the keyring (absent, or a service and a user to a secret);
  \<open>strings.TrimSpace\<close> of a secret file is part of reading it.
\<close>

record secretSources =
  getenv :: "string \<Rightarrow> string"
  readTrimmed :: "string \<Rightarrow> error + string"
  keyringGet :: "(string \<Rightarrow> string \<Rightarrow> error + string) option"

text \<open>The text before and after the last slash.\<close>

definition cutLast :: "string \<Rightarrow> (string \<times> string) option" where
  "cutLast s = (if CHR ''/'' \<in> set s then Some (rev (tl (dropWhile (\<lambda>c. c \<noteq> CHR ''/'') (rev s))), rev (takeWhile (\<lambda>c. c \<noteq> CHR ''/'') (rev s))) else None)"

definition resolveSecret :: "secretSources \<Rightarrow> string \<Rightarrow> error + string" where
  "resolveSecret src s =
     (if hasPrefix s ''env:'' then
        (let v = getenv src (drop 4 s) in if v = [] then Inl (''env var '' @ quoted (drop 4 s) @ '' is not set'') else Inr v)
      else if hasPrefix s ''file:'' then
        (case readTrimmed src (drop 5 s) of Inl e \<Rightarrow> Inl (''read secret file '' @ quoted (drop 5 s) @ '': '' @ e) | Inr v \<Rightarrow> Inr v)
      else if hasPrefix s ''keyring:'' then
        (case keyringGet src of
           None \<Rightarrow> Inl (''keyring not available (secret: '' @ quoted s @ '')'')
         | Some get \<Rightarrow> (case cutLast (drop 8 s) of
             None \<Rightarrow> Inl (''invalid keyring secret '' @ quoted s @ '': want keyring:service/user'')
           | Some (service, user) \<Rightarrow> get service user))
      else Inr s)"

text \<open>Both walks change the object in place and set a flag when they changed something.\<close>

fun walkMap :: "secretSources \<Rightarrow> (string \<times> json) list \<Rightarrow> error + (string \<times> json) list \<times> bool" where
  "walkMap src [] = Inr ([], False)"
| "walkMap src ((k, v) # rest) =
     (case (case v of
          JString val \<Rightarrow> (case resolveSecret src val of
              Inl e \<Rightarrow> Inl (''field '' @ quoted k @ '': '' @ e)
            | Inr r \<Rightarrow> Inr (if r \<noteq> val then (JString r, True) else (v, False)))
        | JMap m \<Rightarrow> (case walkMap src m of Inl e \<Rightarrow> Inl e | Inr (m', c) \<Rightarrow> Inr (JMap m', c))
        | JOther b \<Rightarrow> Inr (v, False)) of
        Inl e \<Rightarrow> Inl e
      | Inr (v', c) \<Rightarrow> (case walkMap src rest of Inl e \<Rightarrow> Inl e | Inr (rest', c') \<Rightarrow> Inr ((k, v') # rest', c \<or> c')))"

fun redactMap :: "(string \<times> json) list \<Rightarrow> (string \<times> json) list \<times> bool" where
  "redactMap [] = ([], False)"
| "redactMap ((k, v) # rest) =
     (let (v', c) = (case v of
          JString val \<Rightarrow> if isSecretTag val then (JString RedactedSecret, True) else (v, False)
        | JMap m \<Rightarrow> (let (m', c) = redactMap m in (JMap m', c))
        | JOther b \<Rightarrow> (v, False));
          (rest', c') = redactMap rest in
      ((k, v') # rest', c \<or> c'))"

text \<open>\<open>json.Unmarshal\<close> into an object (absent: not an object) and \<open>json.Marshal\<close>.\<close>

record jsonCodec =
  unmarshalMap :: "bytes \<Rightarrow> (string \<times> json) list option"
  marshalMap :: "(string \<times> json) list \<Rightarrow> bytes"

definition resolveJSONSecrets :: "jsonCodec \<Rightarrow> secretSources \<Rightarrow> bytes \<Rightarrow> error + bytes" where
  "resolveJSONSecrets jc src data =
     (if data = [] then Inr data
      else case unmarshalMap jc data of
        None \<Rightarrow> Inr data
      | Some obj \<Rightarrow> (case walkMap src obj of
          Inl e \<Rightarrow> Inl e
        | Inr (obj', changed) \<Rightarrow> if \<not> changed then Inr data else Inr (marshalMap jc obj')))"

definition redactJSONSecrets :: "jsonCodec \<Rightarrow> bytes \<Rightarrow> bytes" where
  "redactJSONSecrets jc data =
     (if data = [] then data
      else case unmarshalMap jc data of
        None \<Rightarrow> data
      | Some obj \<Rightarrow> (let (obj', changed) = redactMap obj in if \<not> changed then data else marshalMap jc obj'))"

definition RedactedSnapshot :: "jsonCodec \<Rightarrow> ConfigSnapshot \<Rightarrow> ConfigSnapshot" where
  "RedactedSnapshot jc snap = snap\<lparr>cs_DriverInstances := map (\<lambda>di. di\<lparr>di_Params := redactJSONSecrets jc (di_Params di)\<rparr>) (cs_DriverInstances snap)\<rparr>"

fun resolveInstances :: "jsonCodec \<Rightarrow> secretSources \<Rightarrow> DriverInstanceConfig list \<Rightarrow> error + DriverInstanceConfig list" where
  "resolveInstances jc src [] = Inr []"
| "resolveInstances jc src (di # rest) =
     (case resolveJSONSecrets jc src (di_Params di) of
        Inl e \<Rightarrow> Inl (''driver instance '' @ quoted (di_Id di) @ '': '' @ e)
      | Inr p \<Rightarrow> (case resolveInstances jc src rest of Inl e \<Rightarrow> Inl e | Inr rest' \<Rightarrow> Inr (di\<lparr>di_Params := p\<rparr> # rest')))"

definition ResolveSecrets :: "jsonCodec \<Rightarrow> secretSources \<Rightarrow> ConfigSnapshot \<Rightarrow> error + ConfigSnapshot" where
  "ResolveSecrets jc src snap =
     (case resolveInstances jc src (cs_DriverInstances snap) of Inl e \<Rightarrow> Inl e | Inr xs \<Rightarrow> Inr (snap\<lparr>cs_DriverInstances := xs\<rparr>))"

section \<open>The message of an apply\<close>

text \<open>The bytes of the runes that \<open>unicode.IsSpace\<close> accepts; none is a beginning or an end of another.\<close>

definition spaceRunes :: "string list" where
  "spaceRunes =
     [[CHR 0x09], [CHR 0x0A], [CHR 0x0B], [CHR 0x0C], [CHR 0x0D], [CHR 0x20], [CHR 0xC2, CHR 0x85],
      [CHR 0xC2, CHR 0xA0], [CHR 0xE1, CHR 0x9A, CHR 0x80], [CHR 0xE2, CHR 0x80, CHR 0x80],
      [CHR 0xE2, CHR 0x80, CHR 0x81], [CHR 0xE2, CHR 0x80, CHR 0x82], [CHR 0xE2, CHR 0x80, CHR 0x83],
      [CHR 0xE2, CHR 0x80, CHR 0x84], [CHR 0xE2, CHR 0x80, CHR 0x85], [CHR 0xE2, CHR 0x80, CHR 0x86],
      [CHR 0xE2, CHR 0x80, CHR 0x87], [CHR 0xE2, CHR 0x80, CHR 0x88], [CHR 0xE2, CHR 0x80, CHR 0x89],
      [CHR 0xE2, CHR 0x80, CHR 0x8A], [CHR 0xE2, CHR 0x80, CHR 0xA8], [CHR 0xE2, CHR 0x80, CHR 0xA9],
      [CHR 0xE2, CHR 0x80, CHR 0xAF], [CHR 0xE2, CHR 0x81, CHR 0x9F], [CHR 0xE3, CHR 0x80, CHR 0x80]]"

text \<open>\<open>strings.TrimSpace\<close> drops such runes at the beginning, and then at the end.\<close>

fun trimFront :: "string list \<Rightarrow> string \<Rightarrow> string" where
  "trimFront ws [] = []"
| "trimFront ws (c # s) =
     (case List.find (\<lambda>w. w \<noteq> [] \<and> take (length w) (c # s) = w) ws of
        None \<Rightarrow> c # s | Some w \<Rightarrow> trimFront ws (drop (length w - 1) s))"

definition trimSpace :: "string \<Rightarrow> string" where
  "trimSpace s = rev (trimFront (map rev spaceRunes) (rev (trimFront spaceRunes s)))"

definition between :: "nat \<Rightarrow> nat \<Rightarrow> char \<Rightarrow> bool" where
  "between a b c \<longleftrightarrow> a \<le> of_char c \<and> of_char c \<le> b"

text \<open>One rune as the regular expressions read it: well-formed UTF-8, or a single byte.\<close>

fun oneRune :: "string \<Rightarrow> bool" where
  "oneRune [a] = True"
| "oneRune [a, b] \<longleftrightarrow> between 0xC2 0xDF a \<and> between 0x80 0xBF b"
| "oneRune [a, b, c] \<longleftrightarrow> between 0x80 0xBF c \<and>
     (between 0xE0 0xE0 a \<and> between 0xA0 0xBF b \<or> between 0xED 0xED a \<and> between 0x80 0x9F b \<or>
      between 0xE1 0xEF a \<and> \<not> between 0xED 0xED a \<and> between 0x80 0xBF b)"
| "oneRune [a, b, c, d] \<longleftrightarrow> between 0x80 0xBF c \<and> between 0x80 0xBF d \<and>
     (between 0xF0 0xF0 a \<and> between 0x90 0xBF b \<or> between 0xF4 0xF4 a \<and> between 0x80 0x8F b \<or>
      between 0xF1 0xF3 a \<and> between 0x80 0xBF b)"
| "oneRune _ = False"

definition lowerChar :: "char \<Rightarrow> bool" where
  "lowerChar c \<longleftrightarrow> between 97 122 c"

definition scopeChar :: "char \<Rightarrow> bool" where
  "scopeChar c \<longleftrightarrow> lowerChar c \<or> isDigit c \<or> c = CHR ''-''"

definition subjectChar :: "char \<Rightarrow> bool" where
  "subjectChar c \<longleftrightarrow> lowerChar c \<or> isDigit c \<or> c \<in> set '' ,`._:/()+-''"

text \<open>A character of the subject, more of them, and one rune other than a full stop.\<close>

definition matchSubject :: "string \<Rightarrow> bool" where
  "matchSubject s = (case s of
      [] \<Rightarrow> False
    | c # t \<Rightarrow> (lowerChar c \<or> isDigit c) \<and>
        (case dropWhile subjectChar t of [] \<Rightarrow> t \<noteq> [] \<and> last t \<noteq> CHR ''.'' | r \<Rightarrow> oneRune r))"

text \<open>\<open>semanticMessagePattern\<close>, which gives the scope.\<close>

definition matchMessage :: "string \<Rightarrow> string option" where
  "matchMessage s =
     (if \<not> hasPrefix s ''config('' then None
      else let t = drop 7 s; scope = takeWhile scopeChar t; r = dropWhile scopeChar t in
        if scope \<noteq> [] \<and> lowerChar (hd scope) \<and> hasPrefix r ''): '' \<and> matchSubject (drop 3 r) then Some scope else None)"

definition DefaultApplyMessage :: string where
  "DefaultApplyMessage = ''config(repo): apply configuration''"

definition allowedConfigMessageScopes :: "string list" where
  "allowedConfigMessageScopes =
     [''area'', ''automation'', ''driver'', ''entity'', ''page'', ''policy'', ''scene'', ''script'', ''auth'', ''mcp'', ''repo'']"

definition SemanticMessageError :: "string \<Rightarrow> string \<Rightarrow> error" where
  "SemanticMessageError msg reason =
     ''invalid semantic config message'' @ (if msg = [] then [] else '' '' @ quoted msg) @ '': '' @ reason"

definition NormalizeApplyMessage :: "string \<Rightarrow> error + string" where
  "NormalizeApplyMessage raw =
     (let message = (if trimSpace raw = [] then DefaultApplyMessage else trimSpace raw) in
      if CHR 0x0D \<in> set message \<or> CHR 0x0A \<in> set message then Inl (SemanticMessageError message ''must be one line'')
      else case matchMessage message of
        None \<Rightarrow> Inl (SemanticMessageError message (''expected '' @ quoted ''config(<scope>): <lowercase imperative subject>''))
      | Some scope \<Rightarrow>
          if scope \<notin> set allowedConfigMessageScopes then Inl (SemanticMessageError message (''unknown scope '' @ quoted scope))
          else if 120 < length message then Inl (SemanticMessageError message ''must be 120 characters or fewer'')
          else Inr message)"

section \<open>What a clean snapshot has\<close>

lemma checkInstances_clean:
  "checkInstances None seen xs = [] \<longleftrightarrow> distinct (map di_Id xs) \<and> di_Id ` set xs \<inter> seen = {}"
  by (induction xs arbitrary: seen) auto

lemma checkEntities_clean:
  "checkEntities seen xs = [] \<longleftrightarrow> distinct xs \<and> set xs \<inter> seen = {} \<and> list_all isValidEntityID xs"
  by (induction xs arbitrary: seen) auto

lemma checkUnique_clean:
  "checkUnique kind msg seen xs = [] \<longleftrightarrow> distinct xs \<and> set xs \<inter> seen = {}"
  by (induction xs arbitrary: seen) auto

text \<open>The scripts that an action calls, at any depth.\<close>

fun scriptsOf :: "ActionConfig \<Rightarrow> string set" and scriptsIn :: "(ActionConfig \<times> bool) list \<Rightarrow> string set" where
  "scriptsOf (AC_Script name args) = {name}"
| "scriptsOf (AC_Sequence as) = scriptsIn as"
| "scriptsOf (AC_Parallel as) = scriptsIn as"
| "scriptsOf _ = {}"
| "scriptsIn [] = {}"
| "scriptsIn ((a, c) # rest) = scriptsOf a \<union> scriptsIn rest"

lemma collect_clean:
  "collectScriptRefs known path a = [] \<longleftrightarrow> scriptsOf a \<subseteq> known"
  "collectFrom known path i as = [] \<longleftrightarrow> scriptsIn as \<subseteq> known"
  by (induction known path a and known path i as rule: collectScriptRefs_collectFrom.induct) auto

text \<open>Entity ids are a type and a name, both non-empty, around the first dot.\<close>

lemma isValidEntityID_iff:
  "isValidEntityID i \<longleftrightarrow> (\<exists>ty name. i = ty @ CHR ''.'' # name \<and> ty \<noteq> [] \<and> name \<noteq> [] \<and> CHR ''.'' \<notin> set ty)"
proof (cases "cutAt (CHR ''.'') i")
  case None
  then have "\<not> isValidEntityID i" by (simp add: isValidEntityID_def numeral_2_eq_2 del: cutAt_None_iff)
  moreover from None have "CHR ''.'' \<notin> set i" by simp
  ultimately show ?thesis by auto
next
  case (Some p)
  then obtain a b where p: "cutAt (CHR ''.'') i = Some (a, b)" by (cases p) auto
  from cutAt_SomeD [OF p] have "i = a @ CHR ''.'' # b" "CHR ''.'' \<notin> set a" by auto
  moreover from p have "isValidEntityID i \<longleftrightarrow> a \<noteq> [] \<and> b \<noteq> []" by (simp add: isValidEntityID_def numeral_2_eq_2)
  moreover have "a = ty \<and> b = name" if "i = ty @ CHR ''.'' # name" "CHR ''.'' \<notin> set ty" for ty name
    using p that by simp
  ultimately show ?thesis by blast
qed

definition crossReferenced :: "ConfigSnapshot \<Rightarrow> bool" where
  "crossReferenced snap \<longleftrightarrow>
     (\<forall>a \<in> set (cs_Automations snap). scriptsIn (cfg_Actions a) \<subseteq> set (scriptNames snap)) \<and>
     (\<forall>sc \<in> set (cs_Scenes snap). sc_AreaId sc = [] \<or> sc_AreaId sc \<in> set (cs_Areas snap))"


end
