(* ===== verification/Carport_Connection.thy ===== *)
theory Carport_Connection
  imports Event_Model
begin

text \<open>
  The connection to a running driver, \<^verbatim>\<open>internal/carport/instance.go\<close>: commands waiting for their
  results while the reader goroutine delivers, the stream fails or is closed, and callers give up;
  and the queue of messages that arrive before the ingest hook is set. The steps are the critical
  sections and channel operations of the code; any number of callers run \<open>SendCommand\<close> at once.
\<close>

section \<open>Commands and results\<close>

record Command =
  CommandId :: string
  EntityId :: string
  Capability :: string
  Args :: "(string \<times> string) list"
  DeadlineUnixMs :: int

record CommandResult =
  cr_CommandId :: string
  cr_Ok :: bool
  cr_ErrorMessage :: string

text \<open>How \<open>SendCommand\<close> fails.\<close>

datatype send_error = ErrStreamClosed | ErrDispatchTimeout | CtxCanceled | CtxDeadlineExceeded | SendFailed error

text \<open>
  A channel of capacity one, and where a call of \<open>SendCommand\<close> is. Calls are numbered, and the channel
  a call makes has the number of the call.
\<close>

datatype chan = ChEmpty | ChFull CommandResult | ChClosed

datatype caller = NotCalled | Sending Command | Waiting Command | Returned Command "send_error + CommandResult"

record instanceConn =
  pending :: "string \<rightharpoonup> nat"
  ic_closed :: bool
  chans :: "nat \<Rightarrow> chan"
  callers :: "nat \<Rightarrow> caller"
  delivering :: "(nat \<times> CommandResult) option"
  closing :: "nat set"
  usedIds :: "string set"
  panicked :: bool

definition DialInstance :: instanceConn where
  "DialInstance = \<lparr>pending = Map.empty, ic_closed = False, chans = (\<lambda>_. ChEmpty), callers = (\<lambda>_. NotCalled),
     delivering = None, closing = {}, usedIds = {}, panicked = False\<rparr>"

definition returns :: "nat \<Rightarrow> Command \<Rightarrow> send_error + CommandResult \<Rightarrow> instanceConn \<Rightarrow> instanceConn" where
  "returns k c r s = s\<lparr>callers := (callers s)(k := Returned c r)\<rparr>"

definition dropPending :: "string \<Rightarrow> instanceConn \<Rightarrow> instanceConn" where
  "dropPending i s = s\<lparr>pending := (pending s)(i := None)\<rparr>"

text \<open>
  The steps. A command's id is fresh: \<open>Dispatch\<close> makes it with \<open>uuid.NewString\<close>. Sending on or closing
  a closed channel panics, as does registering a waiter in the map once \<open>failAll\<close> has set it to nil.
\<close>

inductive connStep :: "instanceConn \<Rightarrow> instanceConn \<Rightarrow> bool" where
  SendCommand_closed: "callers s k = NotCalled \<Longrightarrow> ic_closed s \<Longrightarrow>
    connStep s (returns k c (Inl ErrStreamClosed) s)"
| SendCommand_register: "callers s k = NotCalled \<Longrightarrow> \<not> ic_closed s \<Longrightarrow> CommandId c \<notin> usedIds s \<Longrightarrow>
    connStep s (s\<lparr>pending := (pending s)(CommandId c \<mapsto> k), chans := (chans s)(k := ChEmpty),
      callers := (callers s)(k := Sending c), usedIds := insert (CommandId c) (usedIds s)\<rparr>)"
| SendCommand_sent: "callers s k = Sending c \<Longrightarrow> connStep s (s\<lparr>callers := (callers s)(k := Waiting c)\<rparr>)"
| SendCommand_send_error: "callers s k = Sending c \<Longrightarrow>
    connStep s (returns k c (Inl (SendFailed e)) (dropPending (CommandId c) s))"
| SendCommand_result: "callers s k = Waiting c \<Longrightarrow> chans s k = ChFull r \<Longrightarrow>
    connStep s (returns k c (Inr r) (s\<lparr>chans := (chans s)(k := ChEmpty)\<rparr>))"
| SendCommand_stream_closed: "callers s k = Waiting c \<Longrightarrow> chans s k = ChClosed \<Longrightarrow>
    connStep s (returns k c (Inl ErrStreamClosed) s)"
| SendCommand_ctx_done: "callers s k = Waiting c \<Longrightarrow> e = CtxCanceled \<or> e = CtxDeadlineExceeded \<Longrightarrow>
    connStep s (returns k c (Inl e) (dropPending (CommandId c) s))"
| SendCommand_deadline: "callers s k = Waiting c \<Longrightarrow> DeadlineUnixMs c > 0 \<Longrightarrow>
    connStep s (returns k c (Inl ErrDispatchTimeout) (dropPending (CommandId c) s))"
| deliver_take: "delivering s = None \<Longrightarrow> pending s (cr_CommandId r) = Some k \<Longrightarrow>
    connStep s ((dropPending (cr_CommandId r) s)\<lparr>delivering := Some (k, r)\<rparr>)"
| deliver_send: "delivering s = Some (k, r) \<Longrightarrow> chans s k = ChEmpty \<Longrightarrow>
    connStep s (s\<lparr>delivering := None, chans := (chans s)(k := ChFull r)\<rparr>)"
| deliver_full: "delivering s = Some (k, r) \<Longrightarrow> chans s k = ChFull r' \<Longrightarrow> connStep s (s\<lparr>delivering := None\<rparr>)"
| deliver_panic: "delivering s = Some (k, r) \<Longrightarrow> chans s k = ChClosed \<Longrightarrow> connStep s (s\<lparr>panicked := True\<rparr>)"
| failAll_take: "\<not> ic_closed s \<Longrightarrow>
    connStep s (s\<lparr>ic_closed := True, closing := ran (pending s), pending := Map.empty\<rparr>)"
| failAll_close: "k \<in> closing s \<Longrightarrow> chans s k \<noteq> ChClosed \<Longrightarrow>
    connStep s (s\<lparr>closing := closing s - {k}, chans := (chans s)(k := ChClosed)\<rparr>)"
| failAll_panic: "k \<in> closing s \<Longrightarrow> chans s k = ChClosed \<Longrightarrow> connStep s (s\<lparr>panicked := True\<rparr>)"

inductive conn_reachable :: "instanceConn \<Rightarrow> bool" where
  conn_init: "conn_reachable DialInstance"
| conn_step: "conn_reachable s \<Longrightarrow> connStep s s' \<Longrightarrow> conn_reachable s'"

section \<open>The invariant\<close>

text \<open>
  Every channel a caller waits on will be filled or closed: it is so already, or its number is
  pending, taken by \<open>deliver\<close>, or taken by \<open>failAll\<close>; and no channel is in two of these places.
\<close>

fun commandId :: "caller \<Rightarrow> string option" where
  "commandId NotCalled = None"
| "commandId (Sending c) = Some (CommandId c)"
| "commandId (Waiting c) = Some (CommandId c)"
| "commandId (Returned c r) = Some (CommandId c)"

fun active :: "caller \<Rightarrow> bool" where
  "active NotCalled = False"
| "active (Sending c) = True"
| "active (Waiting c) = True"
| "active (Returned c r) = False"

definition awaited :: "instanceConn \<Rightarrow> nat \<Rightarrow> bool" where
  "awaited s k \<longleftrightarrow> chans s k \<noteq> ChEmpty \<or> k \<in> closing s \<or> (\<exists>r. delivering s = Some (k, r))"

definition places_inv :: "instanceConn \<Rightarrow> bool" where
  "places_inv s \<longleftrightarrow> \<not> panicked s \<and>
     (\<forall>i k. pending s i = Some k \<longrightarrow> chans s k = ChEmpty \<and> active (callers s k) \<and> commandId (callers s k) = Some i) \<and>
     (\<forall>k r. delivering s = Some (k, r) \<longrightarrow> chans s k = ChEmpty \<and> k \<notin> closing s \<and> callers s k \<noteq> NotCalled \<and>
        (\<forall>i. pending s i \<noteq> Some k)) \<and>
     (\<forall>k \<in> closing s. chans s k = ChEmpty \<and> callers s k \<noteq> NotCalled) \<and>
     (\<forall>k. callers s k = NotCalled \<longrightarrow> chans s k = ChEmpty) \<and>
     (ic_closed s \<longrightarrow> pending s = Map.empty) \<and> (\<not> ic_closed s \<longrightarrow> closing s = {})"

definition results_inv :: "instanceConn \<Rightarrow> bool" where
  "results_inv s \<longleftrightarrow>
     (\<forall>k r. delivering s = Some (k, r) \<longrightarrow> commandId (callers s k) = Some (cr_CommandId r)) \<and>
     (\<forall>k r. chans s k = ChFull r \<longrightarrow> commandId (callers s k) = Some (cr_CommandId r)) \<and>
     (\<forall>k c r. callers s k = Returned c (Inr r) \<longrightarrow> cr_CommandId r = CommandId c)"

definition waiters_inv :: "instanceConn \<Rightarrow> bool" where
  "waiters_inv s \<longleftrightarrow>
     (\<forall>k i. active (callers s k) \<longrightarrow> commandId (callers s k) = Some i \<longrightarrow> i \<in> usedIds s \<and> (awaited s k \<or> pending s i = Some k)) \<and>
     (\<forall>k k'. active (callers s k) \<longrightarrow> active (callers s k') \<longrightarrow> commandId (callers s k) = commandId (callers s k') \<longrightarrow> k = k')"

declare returns_def [simp] dropPending_def [simp]

lemma pendingD:
  assumes "places_inv s" "pending s i = Some k"
  shows "chans s k = ChEmpty \<and> active (callers s k) \<and> commandId (callers s k) = Some i"
  using assms unfolding places_inv_def by blast

lemma pending_called: "places_inv s \<Longrightarrow> callers s k = NotCalled \<Longrightarrow> pending s i \<noteq> Some k"
  by (auto dest: pendingD)

lemma pending_own: "places_inv s \<Longrightarrow> commandId (callers s k) = Some j \<Longrightarrow> pending s i = Some k \<Longrightarrow> i = j"
  by (auto dest: pendingD)

lemma pending_inj: "places_inv s \<Longrightarrow> pending s i = Some k \<Longrightarrow> pending s j = Some k \<Longrightarrow> i = j"
  using pendingD [of s i k] pendingD [of s j k] by simp

lemma connStep_places:
  assumes "connStep s s'" "places_inv s"
  shows "places_inv s'"
  using assms(1)
proof cases
  case (SendCommand_register k c)
  with assms(2) pending_called [OF assms(2), of k] show ?thesis by (auto simp: places_inv_def)
next
  case (SendCommand_send_error k c e)
  with assms(2) pending_own [OF assms(2), of k "CommandId c"] show ?thesis by (auto simp: places_inv_def split: if_splits)
next
  case (SendCommand_ctx_done k c e)
  with assms(2) pending_own [OF assms(2), of k "CommandId c"] show ?thesis by (auto simp: places_inv_def split: if_splits)
next
  case (SendCommand_deadline k c)
  with assms(2) pending_own [OF assms(2), of k "CommandId c"] show ?thesis by (auto simp: places_inv_def split: if_splits)
next
  case (deliver_take r k)
  have own: "((pending s)(cr_CommandId r := None)) i \<noteq> Some k" for i
    using pending_inj [OF assms(2), of i k "cr_CommandId r"] deliver_take by auto
  have "active (callers s k)" "chans s k = ChEmpty" using pendingD [OF assms(2)] deliver_take by blast+
  moreover have "\<not> ic_closed s" using assms(2) deliver_take by (auto simp: places_inv_def)
  ultimately have k: "callers s k \<noteq> NotCalled" "chans s k = ChEmpty" "\<not> ic_closed s" by auto
  with assms(2) have "closing s = {}" by (simp add: places_inv_def)
  with deliver_take assms(2) own k show ?thesis by (simp add: places_inv_def)
next
  case failAll_take
  with assms(2) pending_called [OF assms(2)] show ?thesis by (auto simp: places_inv_def ran_def)
next
  case (SendCommand_result k c r)
  with assms(2) pendingD [OF assms(2), of _ k] show ?thesis by (auto simp: places_inv_def split: if_splits)
next
  case (SendCommand_stream_closed k c)
  with assms(2) pendingD [OF assms(2), of _ k] show ?thesis by (auto simp: places_inv_def split: if_splits)
next
  case (deliver_send k r)
  with assms(2) show ?thesis by (auto simp: places_inv_def split: if_splits)
next
  case (failAll_close k)
  with assms(2) show ?thesis by (auto simp: places_inv_def split: if_splits)
next
  case (SendCommand_sent k c)
  with assms(2) pending_own [OF assms(2), of k "CommandId c"] show ?thesis by (auto simp: places_inv_def split: if_splits)
next
  case (SendCommand_closed k c)
  with assms(2) show ?thesis by (auto simp: places_inv_def split: if_splits)
qed (use assms(2) in \<open>auto simp: places_inv_def\<close>)

lemma resultsD:
  assumes "results_inv s"
  shows "chans s k = ChFull r \<Longrightarrow> commandId (callers s k) = Some (cr_CommandId r)"
    and "delivering s = Some (k, r) \<Longrightarrow> commandId (callers s k) = Some (cr_CommandId r)"
  using assms unfolding results_inv_def by blast+

text \<open>A step of a caller that keeps its command keeps the results in place.\<close>

lemma results_caller_step:
  assumes "results_inv s" "commandId (callers s k) = Some (CommandId c)" "commandId x = Some (CommandId c)"
    and "\<forall>c r. x = Returned c (Inr r) \<longrightarrow> cr_CommandId r = CommandId c"
  shows "results_inv (s\<lparr>callers := (callers s)(k := x)\<rparr>)"
  using assms resultsD [OF assms(1), of k] by (auto simp: results_inv_def)

lemma results_frame:
  assumes "results_inv s" "callers t = callers s" "delivering t = delivering s \<or> delivering t = None"
    and "\<forall>k r. chans t k = ChFull r \<longrightarrow> chans s k = ChFull r \<or> delivering s = Some (k, r)"
  shows "results_inv t"
  using assms unfolding results_inv_def by (metis option.distinct(1))

lemma connStep_results:
  assumes "connStep s s'" "places_inv s" "results_inv s"
  shows "results_inv s'"
  using assms(1)
proof cases
  case (deliver_take r k)
  with pendingD [OF assms(2), of "cr_CommandId r" k] assms(3) show ?thesis by (auto simp: results_inv_def)
next
  case (SendCommand_register k c)
  moreover from this have "delivering s \<noteq> Some (k, r)" for r using assms(2) by (auto simp: places_inv_def)
  ultimately show ?thesis using assms(3) by (auto simp: results_inv_def)
next
  case (SendCommand_result k c r)
  moreover have "results_inv (s\<lparr>chans := (chans s)(k := ChEmpty)\<rparr>)" by (rule results_frame [OF assms(3)]) auto
  moreover have "cr_CommandId r = CommandId c" using resultsD(1) [OF assms(3), of k r] SendCommand_result by simp
  ultimately show ?thesis using results_caller_step [of "s\<lparr>chans := (chans s)(k := ChEmpty)\<rparr>" k c] by simp
next
  case (SendCommand_closed k c)
  moreover from this have "delivering s \<noteq> Some (k, r)" "chans s k = ChEmpty" for r
    using assms(2) by (auto simp: places_inv_def)
  ultimately show ?thesis using assms(3) by (auto simp: results_inv_def)
next
  case (SendCommand_sent k c)
  with results_caller_step [OF assms(3), of k c] show ?thesis by simp
next
  case (SendCommand_stream_closed k c)
  with results_caller_step [OF assms(3), of k c] show ?thesis by simp
next
  case (SendCommand_send_error k c e)
  with results_caller_step [OF results_frame [OF assms(3)], of "dropPending (CommandId c) s" k c] show ?thesis by simp
next
  case (SendCommand_ctx_done k c e)
  with results_caller_step [OF results_frame [OF assms(3)], of "dropPending (CommandId c) s" k c] show ?thesis by simp
next
  case (SendCommand_deadline k c)
  with results_caller_step [OF results_frame [OF assms(3)], of "dropPending (CommandId c) s" k c] show ?thesis by simp
qed (use results_frame [OF assms(3), of s'] in \<open>auto split: if_splits\<close>)

lemma waitersD:
  assumes "waiters_inv s" "active (callers s k)" "commandId (callers s k) = Some i"
  shows "i \<in> usedIds s \<and> (awaited s k \<or> pending s i = Some k)"
  using assms unfolding waiters_inv_def by blast

lemma waiters_unique:
  "waiters_inv s \<Longrightarrow> active (callers s k) \<Longrightarrow> active (callers s k') \<Longrightarrow> commandId (callers s k) = commandId (callers s k') \<Longrightarrow> k = k'"
  unfolding waiters_inv_def by blast

text \<open>A caller that gives up leaves the other callers' waiters alone.\<close>

lemma waiters_give_up:
  assumes "waiters_inv s" "active (callers s k)" "commandId (callers s k) = Some (CommandId c)"
  shows "waiters_inv (returns k c r (dropPending (CommandId c) s))"
proof -
  have "pending s (CommandId c) \<noteq> Some k'" if "k' \<noteq> k" "active (callers s k')" "commandId (callers s k') = Some (CommandId c)" for k'
    using waiters_unique [OF assms(1,2) that(2)] that assms(3) by simp
  with assms(1) show ?thesis
    by (auto simp: waiters_inv_def awaited_def split: if_splits)
qed

lemma connStep_waiters:
  assumes "connStep s s'" "places_inv s" "waiters_inv s"
  shows "waiters_inv s'"
  using assms(1)
proof cases
  case (SendCommand_register k c)
  have "commandId (callers s k') \<noteq> Some (CommandId c)" if "active (callers s k')" for k'
    using waitersD [OF assms(3) that] SendCommand_register by auto
  with SendCommand_register assms(3) show ?thesis by (auto simp: waiters_inv_def awaited_def split: if_splits)
next
  case (deliver_full k r r')
  with assms(2) show ?thesis by (auto simp: places_inv_def)
next
  case (deliver_panic k r)
  with assms(2) show ?thesis by (auto simp: places_inv_def)
next
  case (failAll_take)
  have "k \<in> ran (pending s)" if "active (callers s k)" "commandId (callers s k) = Some i" "\<not> awaited s k" for k i
    using waitersD [OF assms(3) that(1,2)] that(3) by (auto intro: ranI)
  with failAll_take assms(2,3) show ?thesis by (auto simp: waiters_inv_def awaited_def places_inv_def)
next
  case (failAll_panic k)
  with assms(2) show ?thesis by (auto simp: places_inv_def)
next
  case (SendCommand_send_error k c e)
  with waiters_give_up [OF assms(3)] show ?thesis by simp
next
  case (SendCommand_ctx_done k c e)
  with waiters_give_up [OF assms(3)] show ?thesis by simp
next
  case (SendCommand_deadline k c)
  with waiters_give_up [OF assms(3)] show ?thesis by simp
next
  case (SendCommand_sent k c)
  with assms(3) waitersD [OF assms(3), of k "CommandId c"] waiters_unique [OF assms(3), of k]
  show ?thesis by (auto simp: waiters_inv_def awaited_def split: if_splits)
qed (use assms(3) in \<open>auto simp: waiters_inv_def awaited_def split: if_splits\<close>)

lemma conn_invariant: "conn_reachable s \<Longrightarrow> places_inv s \<and> results_inv s \<and> waiters_inv s"
proof (induction rule: conn_reachable.induct)
  case conn_init
  show ?case by (simp add: DialInstance_def places_inv_def results_inv_def waiters_inv_def)
next
  case (conn_step s s')
  then show ?case using connStep_places connStep_results connStep_waiters by blast
qed

text \<open>
  C7. Commands and results on a connection, under every interleaving of callers, reader, stream failure
  and close: no goroutine panics on a closed channel or a nil map; a call that returns a result
  returns the result of its own command; and no waiter is lost: once the stream has failed and
  \<open>failAll\<close> and \<open>deliver\<close> have finished, every call still waiting has its channel filled or closed, so it
  returns without waiting for its deadline.
\<close>

theorem SendCommand_sound:
  assumes "conn_reachable s"
  shows "\<not> panicked s \<and>
    (\<forall>k c r. callers s k = Returned c (Inr r) \<longrightarrow> cr_CommandId r = CommandId c) \<and>
    (\<forall>k c. callers s k = Waiting c \<longrightarrow> ic_closed s \<longrightarrow> closing s = {} \<longrightarrow> delivering s = None \<longrightarrow> chans s k \<noteq> ChEmpty)"
proof (intro conjI allI impI)
  show "\<not> panicked s" using conn_invariant [OF assms] by (simp add: places_inv_def)
  show "cr_CommandId r = CommandId c" if "callers s k = Returned c (Inr r)" for k c r
    using conn_invariant [OF assms] that unfolding results_inv_def by blast
  show "chans s k \<noteq> ChEmpty"
    if w: "callers s k = Waiting c" and "ic_closed s" "closing s = {}" "delivering s = None" for k c
  proof -
    have "awaited s k \<or> pending s (CommandId c) = Some k"
      using waitersD [of s k "CommandId c"] conn_invariant [OF assms] w by simp
    with that conn_invariant [OF assms] show ?thesis by (auto simp: awaited_def places_inv_def)
  qed
qed

text \<open>One command, its stream failing while it waits.\<close>

definition lampOn :: Command where
  "lampOn = \<lparr>CommandId = ''c1'', EntityId = ''lamp'', Capability = ''turn_on'', Args = [], DeadlineUnixMs = 0\<rparr>"

theorem SendCommand_sound_witness:
  "\<exists>s. conn_reachable s \<and> callers s 0 = Waiting lampOn \<and> ic_closed s \<and> chans s 0 \<noteq> ChEmpty"
proof -
  let ?s1 = "DialInstance\<lparr>pending := [''c1'' \<mapsto> 0], callers := (\<lambda>_. NotCalled)(0 := Sending lampOn), usedIds := {''c1''}\<rparr>"
  let ?s2 = "?s1\<lparr>callers := (\<lambda>_. NotCalled)(0 := Waiting lampOn)\<rparr>"
  let ?s3 = "?s2\<lparr>ic_closed := True, closing := {0}, pending := Map.empty\<rparr>"
  let ?s4 = "?s3\<lparr>closing := {}, chans := (\<lambda>_. ChEmpty)(0 := ChClosed)\<rparr>"
  have "conn_reachable ?s1"
    using conn_step [OF conn_init SendCommand_register [of DialInstance 0 lampOn]] by (simp add: DialInstance_def lampOn_def fun_upd_idem)
  from conn_step [OF this SendCommand_sent [of _ 0 lampOn]] have "conn_reachable ?s2" by simp
  from conn_step [OF this failAll_take] have "conn_reachable ?s3" by (simp add: DialInstance_def)
  from conn_step [OF this failAll_close [of 0]] have r: "conn_reachable ?s4" by (simp add: DialInstance_def)
  have "chans ?s4 0 \<noteq> ChEmpty"
    using SendCommand_sound [OF r] by (simp add: DialInstance_def)
  with r show ?thesis by (intro exI [of _ ?s4]) simp
qed

section \<open>Messages that arrive before the hook\<close>

record 'm hookState =
  ingestHook :: bool
  preHookQueue :: "'m list"
  inFlight :: "'m option"
  draining :: "'m list"
  received :: "'m list"
  ingested :: "'m list"

definition hookInit :: "'m hookState" where
  "hookInit = \<lparr>ingestHook = False, preHookQueue = [], inFlight = None, draining = [], received = [], ingested = []\<rparr>"

text \<open>
  The reader takes a message under \<open>hookMu\<close>, queues it or calls the hook with it after unlocking;
  \<open>setIngestHook\<close> takes the queue under \<open>hookMu\<close> and drains it after unlocking.
\<close>

inductive hookStep :: "'m hookState \<Rightarrow> 'm hookState \<Rightarrow> bool" where
  reader_queue: "inFlight s = None \<Longrightarrow> \<not> ingestHook s \<Longrightarrow>
    hookStep s (s\<lparr>received := received s @ [x], preHookQueue := preHookQueue s @ [x]\<rparr>)"
| reader_take: "inFlight s = None \<Longrightarrow> ingestHook s \<Longrightarrow>
    hookStep s (s\<lparr>received := received s @ [x], inFlight := Some x\<rparr>)"
| reader_call: "inFlight s = Some x \<Longrightarrow> hookStep s (s\<lparr>inFlight := None, ingested := ingested s @ [x]\<rparr>)"
| setIngestHook: "\<not> ingestHook s \<Longrightarrow>
    hookStep s (s\<lparr>ingestHook := True, draining := preHookQueue s, preHookQueue := []\<rparr>)"
| drain_one: "draining s = x # xs \<Longrightarrow> hookStep s (s\<lparr>draining := xs, ingested := ingested s @ [x]\<rparr>)"

inductive hook_reachable :: "'m hookState \<Rightarrow> bool" where
  hook_init: "hook_reachable hookInit"
| hook_step: "hook_reachable s \<Longrightarrow> hookStep s s' \<Longrightarrow> hook_reachable s'"

lemma hook_invariant:
  "hook_reachable s \<Longrightarrow>
     mset (received s) = mset (ingested s) + mset (preHookQueue s) + mset (draining s) + mset (case inFlight s of None \<Rightarrow> [] | Some x \<Rightarrow> [x]) \<and>
     (\<not> ingestHook s \<longrightarrow> draining s = [] \<and> inFlight s = None)"
proof (induction rule: hook_reachable.induct)
  case hook_init
  show ?case by (simp add: hookInit_def)
next
  case (hook_step s s')
  from hook_step.hyps(2) hook_step.IH show ?case by cases auto
qed

text \<open>
  Messages that arrive before the supervisor has set the ingest hook are neither lost nor
  duplicated: once the hook is set and neither goroutine is at work, exactly the received messages
  have been ingested. Their order is not kept: a message that arrives while the queue is being drained
  can be ingested before the messages queued earlier.
\<close>

theorem ingest_once_not_in_order:
  "(hook_reachable s \<longrightarrow> ingestHook s \<longrightarrow> draining s = [] \<longrightarrow> inFlight s = None \<longrightarrow> preHookQueue s = [] \<longrightarrow>
      mset (ingested s) = mset (received s)) \<and>
   (\<exists>s. hook_reachable s \<and> received s = ''ab'' \<and> ingested s = ''ba'')"
proof (intro conjI impI)
  assume "hook_reachable s" "draining s = []" "inFlight s = None" "preHookQueue s = []"
  then show "mset (ingested s) = mset (received s)" using hook_invariant [of s] by simp
next
  let ?r = "\<lambda>h q f d rc i. hook_reachable \<lparr>ingestHook = h, preHookQueue = q, inFlight = f, draining = d, received = rc, ingested = i\<rparr>"
  have "?r False [] None [] [] ''''" using hook_init unfolding hookInit_def .
  from hook_step [OF this reader_queue [of _ "CHR ''a''"]] have "?r False ''a'' None [] ''a'' []" by simp
  from hook_step [OF this setIngestHook] have "?r True [] None ''a'' ''a'' []" by simp
  from hook_step [OF this reader_take [of _ "CHR ''b''"]] have "?r True [] (Some (CHR ''b'')) ''a'' ''ab'' []" by simp
  from hook_step [OF this reader_call [of _ "CHR ''b''"]] have "?r True [] None ''a'' ''ab'' ''b''" by simp
  from hook_step [OF this drain_one [of _ "CHR ''a''" "[]"]] have "?r True [] None [] ''ab'' ''ba''" by simp
  then show "\<exists>s. hook_reachable s \<and> received s = ''ab'' \<and> ingested s = ''ba''" by fastforce
qed

theorem ingest_once_not_in_order_witness:
  "\<exists>s. hook_reachable s \<and> ingestHook s \<and> mset (ingested s) = mset (received s) \<and> (ingested s :: nat list) = []"
proof -
  let ?s = "hookInit\<lparr>ingestHook := True\<rparr> :: nat hookState"
  have r: "hook_reachable ?s" using hook_step [OF hook_init setIngestHook] by (simp add: hookInit_def)
  have "mset (ingested ?s) = mset (received ?s)"
    using ingest_once_not_in_order [of ?s] r by (simp add: hookInit_def)
  with r show ?thesis by (intro exI [of _ ?s]) (simp add: hookInit_def)
qed

end
