(* ===== verification/Carport_Dispatch.thy ===== *)
theory Carport_Dispatch
  imports Carport_Lifecycle Carport_Connection Daemon_Projections
begin

text \<open>
  The host of the drivers, \<^verbatim>\<open>internal/carport\<close>: the table of instances (\<^verbatim>\<open>carport.go\<close>), routing a command to
  the instance that owns the entity (\<^verbatim>\<open>routing.go\<close>), dispatching it (\<^verbatim>\<open>dispatch.go\<close>) and ingesting what
  drivers report (\<^verbatim>\<open>ingest.go\<close>), over the event store with the projectors of the daemon.
\<close>

section \<open>The table of instances\<close>

record Instance =
  in_ID :: string
  in_Binary :: string
  in_Enabled :: bool
  in_ConfigJSON :: bytes
  in_Lifecycle :: LifecycleConfig

record Host =
  h_ctx :: bool
  h_stopped :: bool
  instances :: "string \<rightharpoonup> Instance \<times> managedInstance"

definition New_Host :: Host where
  "New_Host = \<lparr>h_ctx = False, h_stopped = False, instances = Map.empty\<rparr>"

definition Start :: "Host \<Rightarrow> Host" where
  "Start h = h\<lparr>h_ctx := True\<rparr>"

definition RegisterInstance ::
  "string \<Rightarrow> string \<Rightarrow> bytes \<Rightarrow> bool \<Rightarrow> LifecycleConfig \<Rightarrow> Host \<Rightarrow> (error + unit) \<times> Host" where
  "RegisterInstance i binary params enabled lc h =
     (if \<not> h_ctx h then (Inl ''carport host not started'', h)
      else if h_stopped h then (Inl ''carport host is stopped'', h)
      else if instances h i \<noteq> None then (Inl (''instance '' @ quoted i @ '' already registered''), h)
      else (Inr (), h\<lparr>instances := (instances h)(i \<mapsto>
        (\<lparr>in_ID = i, in_Binary = binary, in_Enabled = enabled, in_ConfigJSON = params, in_Lifecycle = lc\<rparr>, launched))\<rparr>))"

text \<open>\<open>UnregisterInstance\<close>, with the instance that \<open>shutdownInstance\<close> is then run on.\<close>

definition UnregisterInstance :: "string \<Rightarrow> Host \<Rightarrow> (error + managedInstance) \<times> Host" where
  "UnregisterInstance i h =
     (case instances h i of
        None \<Rightarrow> (Inl (''instance '' @ quoted i @ '' not found''), h)
      | Some (inst, m) \<Rightarrow> (Inr m, h\<lparr>instances := (instances h)(i := None)\<rparr>))"

text \<open>
  \<open>Stop\<close> marks the host once and runs \<open>shutdownInstance\<close> on every instance of the table; \<open>RestartInstance\<close>
  runs \<open>shutdownInstance\<close> and then launches a fresh lifecycle, with an empty restart history, after the
  event \<open>restart_manual\<close>.
\<close>

definition Stop :: "Host \<Rightarrow> managedInstance set \<times> Host" where
  "Stop h = (if h_stopped h then ({}, h) else (snd ` ran (instances h), h\<lparr>h_stopped := True\<rparr>))"

definition RestartInstance :: "string \<Rightarrow> Host \<Rightarrow> (error + managedInstance \<times> emitted) \<times> Host" where
  "RestartInstance i h =
     (case instances h i of
        None \<Rightarrow> (Inl (''unknown instance '' @ quoted i), h)
      | Some (inst, m) \<Rightarrow>
          (Inr (m, Driver_event ''restart_manual'' ''operator''), h\<lparr>instances := (instances h)(i \<mapsto> (inst, launched))\<rparr>))"

definition InstanceState :: "string \<Rightarrow> Host \<Rightarrow> Carport_Lifecycle.State" where
  "InstanceState i h = (case instances h i of None \<Rightarrow> StateDeclared | Some (inst, m) \<Rightarrow> mi_state m)"

section \<open>Routing\<close>

datatype dispatch_error =
    EntityUnknown string
  | ResolveFailed string error
  | InstanceNotRunning
  | IssueFailed error
  | Dispatch_Timeout
  | Dispatch_ContextCanceled
  | Dispatch_StreamClosed
  | Dispatch_SendFailed error

definition Resolve :: "area_state \<Rightarrow> string \<Rightarrow> ('y, 'm, 'z) rst \<Rightarrow> (dispatch_error + string) \<times> ('y, 'm, 'z) rst" where
  "Resolve ar entityID s =
     (case GetEntity ar entityID s of
        (Inl err, s') \<Rightarrow> (Inl (if sublist ''not found'' err then EntityUnknown entityID else ResolveFailed entityID err), s')
      | (Inr e, s') \<Rightarrow>
          if DriverInstanceID e = '''' then (Inl (EntityUnknown entityID), s') else (Inr (DriverInstanceID e), s'))"

section \<open>Dispatch\<close>

fun mapSendError :: "send_error \<Rightarrow> dispatch_error" where
  "mapSendError CtxCanceled = Dispatch_ContextCanceled"
| "mapSendError CtxDeadlineExceeded = Dispatch_Timeout"
| "mapSendError ErrStreamClosed = Dispatch_StreamClosed"
| "mapSendError ErrDispatchTimeout = Dispatch_Timeout"
| "mapSendError (SendFailed e) = Dispatch_SendFailed e"

definition ackFor :: "send_error + CommandResult \<Rightarrow> payload" where
  "ackFor r =
     (case r of
        Inr result \<Rightarrow> CommandAck (cr_Ok result) (cr_ErrorMessage result)
      | Inl e \<Rightarrow> (case mapSendError e of
            Dispatch_Timeout \<Rightarrow> CommandAck False ''dispatch timeout''
          | Dispatch_ContextCanceled \<Rightarrow> CommandAck False ''context canceled''
          | Dispatch_StreamClosed \<Rightarrow> CommandAck False ''driver stream closed''
          | Dispatch_SendFailed msg \<Rightarrow> CommandAck False (''send command: '' @ msg)
          | _ \<Rightarrow> CommandAck False ''''))"

text \<open>The label of the dispatch metric.\<close>

definition dispatchResultLabel :: "send_error + CommandResult \<Rightarrow> string" where
  "dispatchResultLabel r =
     (case r of
        Inr _ \<Rightarrow> ''ok''
      | Inl e \<Rightarrow> (case mapSendError e of
            Dispatch_Timeout \<Rightarrow> ''timeout''
          | Dispatch_StreamClosed \<Rightarrow> ''stream_closed''
          | Dispatch_ContextCanceled \<Rightarrow> ''context_canceled''
          | InstanceNotRunning \<Rightarrow> ''instance_not_running''
          | EntityUnknown _ \<Rightarrow> ''entity_unknown''
          | _ \<Rightarrow> ''internal''))"

definition carportEvent :: "gotime \<Rightarrow> string \<Rightarrow> string \<Rightarrow> string \<Rightarrow> payload \<Rightarrow> event" where
  "carportEvent now kind entity source pl =
     \<lparr>Position = 0, Timestamp = now, Kind = kind, Entity = entity, Source = source, CorrelationID = uuid_Nil,
      CausePosition = 0, Payload = Some pl\<rparr>"

definition commandSource :: "(string \<times> string) option \<Rightarrow> string" where
  "commandSource corr =
     (case corr of
        Some (automation, correlation) \<Rightarrow>
          if automation \<noteq> '''' then ''automation:'' @ automation @ ''#'' @ correlation else ''carport:host''
      | None \<Rightarrow> ''carport:host'')"

text \<open>
  What a call of \<open>Dispatch\<close> is given: the lineage in its context, the new command id, the deadline, and
  what \<open>SendCommand\<close> on the instance's connection returns for the command.
\<close>

record dispatch_env =
  dx_corr :: "(string \<times> string) option"
  dx_commandID :: string
  dx_deadlineMs :: int
  dx_send :: "Command \<Rightarrow> send_error + CommandResult"

definition issuedEvent where
  "issuedEvent now dx entityID capability args =
     carportEvent now ''command_issued'' entityID (commandSource (dx_corr dx)) (CommandIssued capability args)"

definition commandFor where
  "commandFor dx entityID capability args =
     \<lparr>CommandId = dx_commandID dx, EntityId = entityID, Capability = capability, Args = args,
      DeadlineUnixMs = dx_deadlineMs dx\<rparr>"

definition ackEvent where
  "ackEvent now entityID r = carportEvent now ''command_ack'' entityID ''carport:host'' (ackFor r)"

definition Dispatch ::
  "codec \<Rightarrow> (('y, Cache, 'z) rst, Cache) projectorReg list \<Rightarrow> env \<Rightarrow> env \<Rightarrow> area_state \<Rightarrow> Host \<Rightarrow> dispatch_env
     \<Rightarrow> string \<Rightarrow> string \<Rightarrow> (string \<times> string) list \<Rightarrow> ('y, Cache, 'z) rst
     \<Rightarrow> (dispatch_error + CommandResult) \<times> ('y, Cache, 'z) rst" where
  "Dispatch cdc ps en1 en2 ar h dx entityID capability args s =
     (case Resolve ar entityID s of
        (Inl e, s1) \<Rightarrow> (Inl e, s1)
      | (Inr instanceID, s1) \<Rightarrow>
         (case instances h instanceID of
            None \<Rightarrow> (Inl InstanceNotRunning, s1)
          | Some (inst, m) \<Rightarrow>
              if mi_state m \<noteq> StateRunning \<or> \<not> mi_conn m then (Inl InstanceNotRunning, s1)
              else
                (case Append cdc en1 ps (issuedEvent (env_now en1) dx entityID capability args) s1 of
                   (Inl err, s2) \<Rightarrow> (Inl (IssueFailed err), s2)
                 | (Inr pos, s2) \<Rightarrow>
                     (let r = dx_send dx (commandFor dx entityID capability args);
                          s3 = snd (Append cdc en2 ps (ackEvent (env_now en2) entityID r) s2) in
                      (case r of Inl e \<Rightarrow> Inl (mapSendError e) | Inr result \<Rightarrow> Inr result, s3)))))"

section \<open>Ingest\<close>

datatype driver_message =
    Result CommandResult
  | Msg_StateChanged "attributes option" string
  | Msg_EntityRegistered entity_registered
  | Msg_EntityUnregistered string string
  | Msg_DriverEvent driver_event
  | Pong
  | UnknownMessage

fun messageKindLabel :: "driver_message \<Rightarrow> string" where
  "messageKindLabel (Result r) = ''result''"
| "messageKindLabel (Msg_StateChanged a i) = ''state_changed''"
| "messageKindLabel (Msg_EntityRegistered er) = ''entity_registered''"
| "messageKindLabel (Msg_EntityUnregistered r i) = ''entity_unregistered''"
| "messageKindLabel (Msg_DriverEvent de) = ''driver_event''"
| "messageKindLabel Pong = ''pong''"
| "messageKindLabel UnknownMessage = ''unknown''"

text \<open>The event for a message: an error, nothing to append, or the event.\<close>

fun ingestEvent :: "gotime \<Rightarrow> string \<Rightarrow> driver_message \<Rightarrow> error + event option" where
  "ingestEvent now inst (Msg_StateChanged a i) =
     Inr (Some (carportEvent now ''state_changed'' i (''driver:'' @ inst) (StateChanged a i)))"
| "ingestEvent now inst (Msg_EntityRegistered er) =
     (let er' = defaultDriver inst er in
      Inr (Some (carportEvent now ''entity_registered'' (er_DeviceId er') (''driver:'' @ inst) (EntityRegistered er'))))"
| "ingestEvent now inst (Msg_EntityUnregistered reason i) =
     Inr (Some (carportEvent now ''entity_unregistered'' i (''driver:'' @ inst) (EntityUnregistered reason i)))"
| "ingestEvent now inst (Msg_DriverEvent de) =
     (let de' = (if de_DriverInstanceId de = '''' then de\<lparr>de_DriverInstanceId := inst\<rparr> else de) in
      Inr (Some (carportEvent now ''driver_event'' '''' (''driver:'' @ inst) (DriverEvent de'))))"
| "ingestEvent now inst Pong = Inr None"
| "ingestEvent now inst (Result r) = Inl ''IngestMessage: Result should be consumed by instanceConn.deliver, not ingested''"
| "ingestEvent now inst UnknownMessage = Inl ''IngestMessage: unknown message kind''"

definition IngestMessage ::
  "codec \<Rightarrow> (('y, Cache, 'z) rst, Cache) projectorReg list \<Rightarrow> env \<Rightarrow> string \<Rightarrow> driver_message \<Rightarrow> (('y, Cache, 'z) rst, unit) step"
  where
  "IngestMessage cdc ps en inst msg =
     (case ingestEvent (env_now en) inst msg of
        Inl e \<Rightarrow> failS e
      | Inr None \<Rightarrow> returnS ()
      | Inr (Some e) \<Rightarrow> bindS (Append cdc en ps e) (\<lambda>_. returnS ()))"

text \<open>The events of the supervisor: \<open>emitDriverEvent\<close>, and the entities of the handshake.\<close>

fun emittedEvent :: "gotime \<Rightarrow> string \<Rightarrow> emitted \<Rightarrow> event" where
  "emittedEvent now inst (Driver_event kind detail) =
     carportEvent now ''driver_event'' '''' ''carport:host''
       (DriverEvent \<lparr>de_DriverInstanceId = inst, de_Kind = kind, de_Detail = detail\<rparr>)"
| "emittedEvent now inst (Initial_entity er) =
     carportEvent now ''entity_registered'' (er_DeviceId er) (''driver:'' @ inst) (EntityRegistered er)"

section \<open>What a dispatch leaves in the log\<close>

lemma GetEntity_frame:
  "db (snd (GetEntity ar i s)) = db s \<and> mem (snd (GetEntity ar i s)) = mem s \<and> latestPosition (snd (GetEntity ar i s)) = latestPosition s"
  by (auto simp: GetEntity_def bindS_def dbQuery_def dbStmt_def failS_def returnS_def Let_def split: option.splits list.splits)

lemma Resolve_frame:
  "db (snd (Resolve ar i s)) = db s \<and> mem (snd (Resolve ar i s)) = mem s"
  using GetEntity_frame [of ar i s] by (auto simp: Resolve_def split: prod.splits sum.splits)

lemma Resolve_owner:
  assumes "Resolve ar i s = (Inr drv, s')"
  shows "drv \<noteq> '''' \<and> (\<exists>row. map_of (entities (db s)) i = Some row \<and> en_driver_instance_id row = drv)"
proof -
  from assms obtain e s1 where e: "GetEntity ar i s = (Inr e, s1)" "DriverInstanceID e = drv" "drv \<noteq> ''''"
    by (auto simp: Resolve_def split: prod.splits sum.splits if_splits)
  from e(1) obtain row s2 where q: "dbQuery (\<lambda>d. map_of (entities d) i) s = (Inr (Some row), s2)"
    and "e = (scanEntity (i, row))\<lparr>AreaID := AreaForEntity ar i\<rparr>"
    unfolding GetEntity_def by (elim bindS_InrE) (auto simp: failS_def returnS_def split: option.splits)
  moreover have "map_of (entities (db s)) i = Some row" using dbQuery_Inr_both [OF q] by simp
  ultimately show ?thesis using e(2,3) by (simp add: scanEntity_def)
qed

fun preflight :: "dispatch_error \<Rightarrow> bool" where
  "preflight (EntityUnknown _) = True"
| "preflight (ResolveFailed _ _) = True"
| "preflight InstanceNotRunning = True"
| "preflight (IssueFailed _) = True"
| "preflight _ = False"

definition stored :: "env \<Rightarrow> event \<Rightarrow> nat \<Rightarrow> event" where
  "stored en e pos = (fillDefaults (env_now en) (env_uuid en 0) e)\<lparr>Position := pos\<rparr>"

text \<open>The outcome of one append, for a settled store.\<close>

lemma Append_outcome:
  assumes "Append cdc en (daemonProjectors ma k now) e s = (r, t)" "daemon.settled (mem s)"
  shows "daemon.settled (mem t) \<and> (case r of
      Inl _ \<Rightarrow> db t = db s \<and> cacheView (mem t) = cacheView (mem s)
    | Inr pos \<Rightarrow> pos = Suc (sqlite_sequence (db s)) \<and> sqlite_sequence (db t) = pos \<and>
        events (db t) = events (db s) @ [rowOf cdc (stored en e pos)] \<and>
        cacheView (mem t) = cacheStep (stored en e pos) (cacheView (mem s)) \<and>
        regView (db t) = registryStep ma (stored en e pos) (regView (db s)))"
proof (cases r)
  case (Inl err)
  with assms daemon.Append_fail [of cdc en ma k now e s err t] show ?thesis by (simp add: daemon.same_as_def)
next
  case (Inr pos)
  with assms(1) have "Append cdc en (daemonProjectors ma k now) e s = (Inr pos, t)" by simp
  then show ?thesis unfolding Inr
    by (rule daemon_Append_ok [OF _ assms(2)]) (simp add: stored_def rowOf_def payloadBytes_def eventRow_def)
qed

lemma Dispatch_appends:
  assumes "Append cdc en1 (daemonProjectors ma k now) e1 s1 = (Inr pos, s2)" "daemon.settled (mem s1)"
    and "Append cdc en2 (daemonProjectors ma k now) e2 s2 = (r2, t)"
  shows "events (db t) = events (db s1) @ [rowOf cdc (stored en1 e1 (Suc (sqlite_sequence (db s1)))),
        rowOf cdc (stored en2 e2 (Suc (Suc (sqlite_sequence (db s1)))))] \<or>
      events (db t) = events (db s1) @ [rowOf cdc (stored en1 e1 (Suc (sqlite_sequence (db s1))))] \<and> (\<exists>err. r2 = Inl err)"
  using Append_outcome [OF assms(1,2)] Append_outcome [OF assms(3)] by (auto split: sum.splits)

text \<open>
  C8. A dispatch is accounted for in the log. When it fails before the command is issued, the log and
  the published cache are as before. Otherwise the command was routed to the instance that owns the
  entity, which was running with a connection; the log has grown by the \<open>command_issued\<close> event and
  the matching \<open>command_ack\<close>, whose success flag is the driver's answer and false for every error of
  the transport; or by the \<open>command_issued\<close> event alone when appending the acknowledgement failed. The
  result returned is the driver's, or the mapped error.
\<close>

theorem Dispatch_accounted:
  assumes "Dispatch cdc (daemonProjectors ma k now) en1 en2 ar h dx entityID capability args s = (r, t)"
    and "cacheStaged (mem s) = cacheView (mem s)"
  shows "(\<exists>e. r = Inl e \<and> preflight e \<and> db t = db s \<and> cacheView (mem t) = cacheView (mem s)) \<or>
    (\<exists>row inst m. map_of (entities (db s)) entityID = Some row \<and> instances h (en_driver_instance_id row) = Some (inst, m) \<and>
       mi_state m = StateRunning \<and> mi_conn m \<and>
       (let sent = dx_send dx (commandFor dx entityID capability args);
            pos = Suc (sqlite_sequence (db s));
            issued = rowOf cdc (stored en1 (issuedEvent (env_now en1) dx entityID capability args) pos);
            ack = rowOf cdc (stored en2 (ackEvent (env_now en2) entityID sent) (Suc pos)) in
        r = map_sum mapSendError id sent \<and>
        (\<exists>ok msg. ackFor sent = CommandAck ok msg \<and> ok = (case sent of Inl _ \<Rightarrow> False | Inr result \<Rightarrow> cr_Ok result)) \<and>
        (events (db t) = events (db s) @ [issued, ack] \<or>
         events (db t) = events (db s) @ [issued] \<and>
           (\<exists>u err. Append cdc en2 (daemonProjectors ma k now) (ackEvent (env_now en2) entityID sent) u = (Inl err, t)))))"
proof -
  have st: "daemon.settled (mem s)" using assms(2) by (simp add: daemon.settled_def)
  obtain rr s1 where rs: "Resolve ar entityID s = (rr, s1)" by fastforce
  have fr: "db s1 = db s" "mem s1 = mem s" using Resolve_frame [of ar entityID s] rs by simp_all
  note D = assms(1) [unfolded Dispatch_def rs]
  show ?thesis
  proof (cases rr)
    case (Inl e)
    with rs have "preflight e" by (auto simp: Resolve_def split: prod.splits sum.splits if_splits)
    with D Inl fr show ?thesis by auto
  next
    case (Inr drv)
    then obtain row where row: "map_of (entities (db s)) entityID = Some row" "en_driver_instance_id row = drv"
      using Resolve_owner rs by blast
    show ?thesis
    proof (cases "\<exists>inst m. instances h drv = Some (inst, m) \<and> mi_state m = StateRunning \<and> mi_conn m")
      case False
      with D Inr fr have "r = Inl InstanceNotRunning" "t = s1" by (auto split: option.splits if_splits)
      with fr show ?thesis by simp
    next
      case True
      then obtain inst m where m: "instances h drv = Some (inst, m)" "mi_state m = StateRunning" "mi_conn m" by blast
      let ?e1 = "issuedEvent (env_now en1) dx entityID capability args"
      let ?sent = "dx_send dx (commandFor dx entityID capability args)"
      obtain r1 s2 where a1: "Append cdc en1 (daemonProjectors ma k now) ?e1 s1 = (r1, s2)" by fastforce
      show ?thesis
      proof (cases r1)
        case (Inl err)
        with D Inr m a1 have "r = Inl (IssueFailed err)" "t = s2" by auto
        with Append_outcome [OF a1] st fr Inl show ?thesis by simp
      next
        case r1: (Inr pos)
        obtain r2 where a2: "Append cdc en2 (daemonProjectors ma k now) (ackEvent (env_now en2) entityID ?sent) s2 = (r2, t)"
          and r: "r = map_sum mapSendError id ?sent"
          using D Inr m a1 r1 by (auto simp: Let_def split: sum.splits) (metis prod.collapse)+
        have "\<exists>ok msg. ackFor ?sent = CommandAck ok msg \<and> ok = (case ?sent of Inl _ \<Rightarrow> False | Inr result \<Rightarrow> cr_Ok result)"
          by (auto simp: ackFor_def split: sum.splits dispatch_error.splits)
        with Dispatch_appends [OF a1 [unfolded r1] _ a2] st fr row m r a2 show ?thesis
          unfolding Let_def by (intro disjI2 exI [of _ row] exI [of _ inst] exI [of _ m]) auto
      qed
    qed
  qed
qed

text \<open>A house with one lamp behind a running driver, for the witness.\<close>

definition lampCodec :: codec where
  "lampCodec = \<lparr>marshalPayload = (\<lambda>p. case p of CommandIssued c as \<Rightarrow> Inr ''i'' | CommandAck b e \<Rightarrow> Inr ''a'' | _ \<Rightarrow> Inl ''unsupported''),
     unmarshalPayload = (\<lambda>_. Inl ''unsupported'')\<rparr>"

definition lampStore :: "(unit, Cache, unit) rst" where
  "lampStore = (emptyStore [])\<lparr>db := (db (emptyStore []))\<lparr>entities := [(''lamp'',
     \<lparr>en_device_id = None, en_driver_instance_id = ''hue'', en_entity_type = ''light'', en_friendly_name = ''Lamp'',
      en_capabilities = '''', en_disabled = False, en_created_at = 0, en_updated_at = 0\<rparr>)]\<rparr>\<rparr>"

definition hueHost :: Host where
  "hueHost = \<lparr>h_ctx = True, h_stopped = False, instances = [''hue'' \<mapsto>
     (\<lparr>in_ID = ''hue'', in_Binary = '''', in_Enabled = True, in_ConfigJSON = '''', in_Lifecycle = DefaultLifecycleConfig\<rparr>,
      launched\<lparr>mi_state := StateRunning, mi_conn := True, mi_pc := AtHealth\<rparr>)]\<rparr>"

definition lampEnv :: dispatch_env where
  "lampEnv = \<lparr>dx_corr = None, dx_commandID = ''c1'', dx_deadlineMs = 0,
     dx_send = (\<lambda>c. Inr \<lparr>cr_CommandId = CommandId c, cr_Ok = True, cr_ErrorMessage = ''''\<rparr>)\<rparr>"

lemma lamp_dispatch:
  "fst (Dispatch lampCodec (daemonProjectors demoMarshal demoSnapshotCodec 0) demoEnv demoEnv
      \<lparr>areas = [], entityAreas = []\<rparr> hueHost lampEnv ''lamp'' ''turn_on'' [] lampStore) =
    Inr \<lparr>cr_CommandId = ''c1'', cr_Ok = True, cr_ErrorMessage = ''''\<rparr>"
  by (simp add: Dispatch_def Resolve_def GetEntity_def scanEntity_def lampStore_def hueHost_def lampEnv_def issuedEvent_def
      carportEvent_def commandSource_def lampCodec_def commandFor_def fillDefaults_def demo_append_simps)

theorem Dispatch_accounted_witness:
  "1 \<le> length (events (db (snd (Dispatch lampCodec (daemonProjectors demoMarshal demoSnapshotCodec 0) demoEnv demoEnv
      \<lparr>areas = [], entityAreas = []\<rparr> hueHost lampEnv ''lamp'' ''turn_on'' [] lampStore))))"
proof -
  let ?d = "Dispatch lampCodec (daemonProjectors demoMarshal demoSnapshotCodec 0) demoEnv demoEnv
      \<lparr>areas = [], entityAreas = []\<rparr> hueHost lampEnv ''lamp'' ''turn_on'' [] lampStore"
  have "?d = (fst ?d, snd ?d)" by simp
  moreover have "cacheStaged (mem lampStore) = cacheView (mem lampStore)"
    using emptyStore_settled [of "[]"] by (simp add: lampStore_def)
  ultimately show ?thesis
    using Dispatch_accounted [of lampCodec demoMarshal demoSnapshotCodec 0 demoEnv demoEnv "\<lparr>areas = [], entityAreas = []\<rparr>" hueHost lampEnv "''lamp''" "''turn_on''" "[]" lampStore
        "fst ?d" "snd ?d"] lamp_dispatch
    by (auto simp: Let_def)
qed

section \<open>The registry follows the lifecycle\<close>

definition driverStatus :: "string \<Rightarrow> registry_view \<Rightarrow> string option" where
  "driverStatus inst v = map_option di_status (rv_drivers v inst)"

text \<open>The tables of the registry after the events that a lifecycle has emitted.\<close>

definition registryAfter ::
  "(attributes option \<Rightarrow> error + bytes) \<Rightarrow> gotime \<Rightarrow> string \<Rightarrow> emitted list \<Rightarrow> registry_view \<Rightarrow> registry_view" where
  "registryAfter ma now inst log v = fold (registryStep ma) (map (emittedEvent now inst) log) v"

lemma registryAfter_snoc:
  "registryAfter ma now inst (log @ [x]) v = registryStep ma (emittedEvent now inst x) (registryAfter ma now inst log v)"
  by (simp add: registryAfter_def)

lemma status_driver_event:
  "driverStatus inst (registryStep ma (emittedEvent now inst (Driver_event kind detail)) v) =
    (if kind = ''started'' then Some ''running''
     else if kind = ''stopped'' then map_option (\<lambda>_. ''stopped'') (driverStatus inst v)
     else if kind = ''failed'' then map_option (\<lambda>_. ''failed'') (driverStatus inst v)
     else driverStatus inst v)"
  by (auto simp: driverStatus_def registryStep_def carportEvent_def driverStep_def Let_def option.map_comp o_def split: option.splits)

lemma status_initial_entity:
  "driverStatus inst (registryStep ma (emittedEvent now inst (Initial_entity er)) v) = Some ''running'' \<longleftrightarrow>
    driverStatus inst v = Some ''running''"
  by (auto simp: driverStatus_def registryStep_def carportEvent_def registeredStep_def Let_def split: option.splits sum.splits if_splits)

fun live :: "pc \<Rightarrow> bool" where
  "live (RegisterEntities es) = True"
| "live AtHealth = True"
| "live (ClearConn h) = True"
| "live (AfterHealth h) = True"
| "live EmitStopped = True"
| "live (EmitFailed c) = True"
| "live p = False"

lemma status_step:
  assumes "runLifecycle lc inst m m'"
    and "driverStatus inst (registryAfter ma now inst (mi_log m) v) = Some ''running'' \<longleftrightarrow> live (mi_pc m)"
  shows "driverStatus inst (registryAfter ma now inst (mi_log m') v) = Some ''running'' \<longleftrightarrow> live (mi_pc m')"
  using assms
  by cases (auto simp: registryAfter_snoc status_driver_event status_initial_entity simp del: emittedEvent.simps)

lemma status_shutdown:
  assumes "shutdownInstance m m'"
  shows "driverStatus inst (registryAfter ma now inst (mi_log m') v) = driverStatus inst (registryAfter ma now inst (mi_log m) v) \<and>
    mi_pc m' = mi_pc m"
  using assms by cases (auto simp: registryAfter_snoc status_driver_event simp del: emittedEvent.simps)



end
