(* ===== verification/Config_Manager.thy ===== *)
theory Config_Manager
  imports Config_Snapshot Carport_Dispatch Go_Paths
begin

text \<open>
  The configuration manager, \<^verbatim>\<open>internal/config/manager.go\<close> and \<^verbatim>\<open>driver_registry.go\<close>: validating what the evaluator gives,
  applying it to the driver host of \<^verbatim>\<open>internal/carport\<close> and recording it. The Pkl evaluator, the keyring and the event
  store are arguments.
\<close>

section \<open>The driver registry\<close>

record DriverEntry =
  de_Name :: string
  de_Version :: string
  de_BinaryPath :: string
  de_LifecycleDefaults :: LifecycleOverride

record driverManifestJSON =
  dm_Name :: string
  dm_Version :: string
  dm_Binary :: "string option"
  dm_LifecycleDefaults :: lifecycleOverrideJSON

text \<open>\<open>validDriverName\<close> of \<^verbatim>\<open>driver_reader.go\<close>, which \<open>read\<close> uses to keep other paths out of \<^verbatim>\<open>driver:\<close> imports.\<close>

definition validDriverName :: "string \<Rightarrow> bool" where
  "validDriverName s \<longleftrightarrow> s \<noteq> [] \<and> length s \<le> 64 \<and>
     list_all (\<lambda>r. lowerChar r \<or> isDigit r \<or> r = CHR ''-'' \<or> r = CHR ''_'') s"

definition readDriverModule :: "string \<Rightarrow> (string \<Rightarrow> error + string) \<Rightarrow> string \<Rightarrow> error + string" where
  "readDriverModule root readFile name =
     (if \<not> validDriverName name then Inl (''invalid driver name '' @ quoted name @ '' in driver:'' @ name)
      else case readFile (Join [root, name, ''manifest.pkl'']) of
        Inl e \<Rightarrow> Inl (''driver '' @ quoted name @ '': manifest not found at '' @ Join [root, name, ''manifest.pkl''])
      | Inr data \<Rightarrow> Inr data)"

text \<open>\<open>evaluateDriverManifest\<close>, on what Pkl and the JSON decoder make of the manifest.\<close>

definition evaluateDriverManifest ::
  "(string \<Rightarrow> duration option) \<Rightarrow> string \<Rightarrow> string \<Rightarrow> error + driverManifestJSON \<Rightarrow> error + DriverEntry" where
  "evaluateDriverManifest parsePklDuration root dirName manifest =
     (case manifest of
        Inl e \<Rightarrow> Inl (''driver '' @ quoted dirName @ '': '' @ e)
      | Inr raw \<Rightarrow>
          if dm_Name raw = [] then Inl (''driver '' @ quoted dirName @ '': manifest missing required field `name`'')
          else if dm_Version raw = [] then Inl (''driver '' @ quoted dirName @ '': manifest missing required field `version`'')
          else if dm_Name raw \<noteq> dirName then Inl (''driver '' @ quoted dirName @ '': manifest declares name='' @ quoted (dm_Name raw) @
            '', expected '' @ quoted dirName @ '' (directory name is authoritative)'')
          else
            let binary = (case dm_Binary raw of Some b \<Rightarrow> if b \<noteq> [] then b else dirName @ ''-driver'' | None \<Rightarrow> dirName @ ''-driver'') in
            Inr \<lparr>de_Name = dm_Name raw, de_Version = dm_Version raw,
              de_BinaryPath = (if isAbs binary then binary else Join [root, dirName, binary]),
              de_LifecycleDefaults = decodeLifecycleOverride parsePklDuration (dm_LifecycleDefaults raw)\<rparr>)"

text \<open>
  The loop of \<open>NewDriverRegistry\<close> over the directories below the root, each with its manifest when it has one; the
  first bad manifest ends the scan.
\<close>

fun NewDriverRegistry ::
  "(string \<Rightarrow> duration option) \<Rightarrow> string \<Rightarrow> (string \<times> (error + driverManifestJSON) option) list
     \<Rightarrow> (string \<times> DriverEntry) list \<Rightarrow> error + (string \<times> DriverEntry) list" where
  "NewDriverRegistry pd root [] entries = Inr entries"
| "NewDriverRegistry pd root ((dirName, manifest) # rest) entries =
     (if \<not> validDriverName dirName then NewDriverRegistry pd root rest entries
      else case manifest of
        None \<Rightarrow> NewDriverRegistry pd root rest entries
      | Some m \<Rightarrow> (case evaluateDriverManifest pd root dirName m of
          Inl e \<Rightarrow> Inl e
        | Inr entry \<Rightarrow> NewDriverRegistry pd root rest (AList.update dirName entry entries)))"

section \<open>The manager\<close>

record Manager =
  mgr_current :: "ConfigSnapshot option"
  mgr_redacted :: "ConfigSnapshot option"
  appliedHooks :: "nat list"

text \<open>
  What the manager is built over: the evaluator's answer at this call, the driver registry, the decoders, the secrets
  and the store, whose state is \<open>'s\<close>.
\<close>

record ConfigApplied =
  ca_AppliedAtUnixMs :: int
  ca_Added :: int
  ca_Removed :: int
  ca_Changed :: int
  ca_Automations :: int
  ca_Message :: string

record 's configEnv =
  ce_Evaluate :: "error + ConfigSnapshot \<times> ValidationError list"
  ce_Lookup :: "string \<Rightarrow> DriverEntry option"
  ce_driversRoot :: string
  ce_decoders :: decoders
  ce_json :: jsonCodec
  ce_secrets :: secretSources
  ce_Append :: "ConfigApplied \<Rightarrow> 's \<Rightarrow> (error + nat) \<times> 's"

definition OnApplied :: "nat \<Rightarrow> Manager \<Rightarrow> Manager" where
  "OnApplied fn m = m\<lparr>appliedHooks := appliedHooks m @ [fn]\<rparr>"

definition compileErrors_Error :: "ValidationError list \<Rightarrow> error" where
  "compileErrors_Error errs =
     (case errs of
        [e] \<Rightarrow> ValidationError_Error e
      | _ \<Rightarrow> showNat (length errs) @ '' validation errors (first: '' @ ValidationError_Error (hd errs) @ '')'')"

definition Manager_Validate :: "'s configEnv \<Rightarrow> Manager \<Rightarrow> error + ConfigSnapshot \<times> ConfigDiff" where
  "Manager_Validate env m =
     (case ce_Evaluate env of
        Inl e \<Rightarrow> Inl e
      | Inr (snap, discErrs) \<Rightarrow>
          let errs = Config_Compile snap None in
          if errs \<noteq> [] then Inl (compileErrors_Error (discErrs @ errs))
          else Inr (snap, Diff (mgr_current m) snap))"

text \<open>The getters of an absent message give zero values.\<close>

definition nilInstance :: DriverInstanceConfig where
  "nilInstance = \<lparr>di_Id = [], di_DriverName = [], di_Params = [], di_ConfigHash = []\<rparr>"

definition registerInstance :: "'s configEnv \<Rightarrow> DriverInstanceConfig option \<Rightarrow> Host \<Rightarrow> (error + unit) \<times> Host" where
  "registerInstance env found h =
     (let di = (case found of Some d \<Rightarrow> d | None \<Rightarrow> nilInstance) in
      case ce_Lookup env (di_DriverName di) of
        None \<Rightarrow> (Inl (''driver '' @ quoted (di_DriverName di) @ '' not installed at '' @ ce_driversRoot env), h)
      | Some entry \<Rightarrow> (case parseInstanceOptions (ce_decoders env) (di_Params di) of
          Inl e \<Rightarrow> (Inl (''instance '' @ quoted (di_Id di) @ '': '' @ e), h)
        | Inr opts \<Rightarrow>
            if \<not> io_Enabled opts then (Inr (), h)
            else RegisterInstance (di_Id di) (de_BinaryPath entry) (di_Params di) (io_Enabled opts)
              (MergeLifecycle (de_LifecycleDefaults entry) (io_Override opts)) h))"

fun unregisterRemoved :: "string list \<Rightarrow> Host \<Rightarrow> (error + unit) \<times> Host" where
  "unregisterRemoved [] h = (Inr (), h)"
| "unregisterRemoved (i # rest) h =
     (case UnregisterInstance i h of
        (Inl e, h') \<Rightarrow> (Inl (''unregister '' @ quoted i @ '': '' @ e), h')
      | (Inr _, h') \<Rightarrow> unregisterRemoved rest h')"

fun registerAdded :: "'s configEnv \<Rightarrow> ConfigSnapshot \<Rightarrow> string list \<Rightarrow> Host \<Rightarrow> (error + unit) \<times> Host" where
  "registerAdded env snap [] h = (Inr (), h)"
| "registerAdded env snap (i # rest) h =
     (case registerInstance env (findInstance snap i) h of
        (Inl e, h') \<Rightarrow> (Inl (''register '' @ quoted i @ '': '' @ e), h')
      | (Inr _, h') \<Rightarrow> registerAdded env snap rest h')"

fun registerChanged :: "'s configEnv \<Rightarrow> ConfigSnapshot \<Rightarrow> string list \<Rightarrow> Host \<Rightarrow> (error + unit) \<times> Host" where
  "registerChanged env snap [] h = (Inr (), h)"
| "registerChanged env snap (i # rest) h =
     (case UnregisterInstance i h of
        (Inl e, h') \<Rightarrow> (Inl (''unregister changed '' @ quoted i @ '': '' @ e), h')
      | (Inr _, h') \<Rightarrow> (case registerInstance env (findInstance snap i) h' of
          (Inl e, h'') \<Rightarrow> (Inl (''re-register changed '' @ quoted i @ '': '' @ e), h'')
        | (Inr _, h'') \<Rightarrow> registerChanged env snap rest h''))"

text \<open>\<open>int32\<close> of a length.\<close>

definition toInt32 :: "int \<Rightarrow> int" where
  "toInt32 n = (n + 2 ^ 31) mod 2 ^ 32 - 2 ^ 31"

definition appliedPayload :: "ConfigSnapshot \<Rightarrow> ConfigDiff \<Rightarrow> string \<Rightarrow> ConfigApplied" where
  "appliedPayload snap diff message =
     \<lparr>ca_AppliedAtUnixMs = cs_EvaluatedAtUnixMs snap,
      ca_Added = toInt32 (int (length (DriverInstancesAdded diff))),
      ca_Removed = toInt32 (int (length (DriverInstancesRemoved diff))),
      ca_Changed = toInt32 (int (length (DriverInstancesChanged diff))),
      ca_Automations = toInt32 (AutomationsChanged diff),
      ca_Message = message\<rparr>"

text \<open>The state an apply works on, with the calls of the hooks it made.\<close>

record 's world =
  w_mgr :: Manager
  w_host :: Host
  w_store :: 's
  w_fired :: "(nat \<times> ConfigSnapshot) list"

text \<open>The three loops over the differences, then the manager's own state, the event and the hooks.\<close>

definition applyInstances :: "'s configEnv \<Rightarrow> ConfigSnapshot \<Rightarrow> ConfigDiff \<Rightarrow> Host \<Rightarrow> (error + unit) \<times> Host" where
  "applyInstances env snap diff h =
     (case unregisterRemoved (DriverInstancesRemoved diff) h of
        (Inl e, h1) \<Rightarrow> (Inl e, h1)
      | (Inr _, h1) \<Rightarrow> (case registerAdded env snap (DriverInstancesAdded diff) h1 of
          (Inl e, h2) \<Rightarrow> (Inl e, h2)
        | (Inr _, h2) \<Rightarrow> registerChanged env snap (DriverInstancesChanged diff) h2))"

definition Manager_Apply :: "'s configEnv \<Rightarrow> bool \<Rightarrow> string \<Rightarrow> 's world \<Rightarrow> (error + unit) \<times> 's world" where
  "Manager_Apply env dryRun raw w =
     (case NormalizeApplyMessage raw of
        Inl e \<Rightarrow> (Inl e, w)
      | Inr message \<Rightarrow> (case Manager_Validate env (w_mgr w) of
          Inl e \<Rightarrow> (Inl e, w)
        | Inr (snap, diff) \<Rightarrow>
            if dryRun then (Inr (), w)
            else (case ResolveSecrets (ce_json env) (ce_secrets env) snap of
              Inl e \<Rightarrow> (Inl (''resolve secrets: '' @ e), w)
            | Inr snap' \<Rightarrow> (case applyInstances env snap' diff (w_host w) of
                (Inl e, h') \<Rightarrow> (Inl e, w\<lparr>w_host := h'\<rparr>)
              | (Inr _, h') \<Rightarrow>
                  let m = (w_mgr w)\<lparr>mgr_current := Some snap', mgr_redacted := Some (RedactedSnapshot (ce_json env) snap)\<rparr> in
                  (case ce_Append env (appliedPayload snap' diff message) (w_store w) of
                     (Inl e, s') \<Rightarrow> (Inl e, w\<lparr>w_mgr := m, w_host := h', w_store := s'\<rparr>)
                   | (Inr _, s') \<Rightarrow> (Inr (), w\<lparr>w_mgr := m, w_host := h', w_store := s',
                       w_fired := w_fired w @ map (\<lambda>fn. (fn, snap')) (appliedHooks m)\<rparr>))))))"

section \<open>The host after an apply\<close>

text \<open>The entry that registering an instance makes; \<open>None\<close> for one that is switched off.\<close>

definition enabledIn :: "decoders \<Rightarrow> DriverInstanceConfig \<Rightarrow> bool" where
  "enabledIn dec di \<longleftrightarrow> (case parseInstanceOptions dec (di_Params di) of Inr opts \<Rightarrow> io_Enabled opts | Inl e \<Rightarrow> False)"

definition entryFor :: "'s configEnv \<Rightarrow> DriverInstanceConfig \<Rightarrow> (Instance \<times> managedInstance) option" where
  "entryFor env di =
     (case (ce_Lookup env (di_DriverName di), parseInstanceOptions (ce_decoders env) (di_Params di)) of
        (Some entry, Inr opts) \<Rightarrow>
          if io_Enabled opts then
            Some (\<lparr>in_ID = di_Id di, in_Binary = de_BinaryPath entry, in_Enabled = True, in_ConfigJSON = di_Params di,
               in_Lifecycle = MergeLifecycle (de_LifecycleDefaults entry) (io_Override opts)\<rparr>, launched)
          else None
      | _ \<Rightarrow> None)"

lemma registerInstance_ok:
  "registerInstance env (Some di) h = (Inr u, h') \<Longrightarrow>
     (case entryFor env di of None \<Rightarrow> h' = h | Some x \<Rightarrow> instances h (di_Id di) = None \<and> h' = h\<lparr>instances := (instances h)(di_Id di \<mapsto> x)\<rparr>) \<and>
     (entryFor env di \<noteq> None \<longleftrightarrow> enabledIn (ce_decoders env) di)"
  by (cases "instances h (di_Id di)") (auto simp: registerInstance_def entryFor_def enabledIn_def RegisterInstance_def Let_def
    split: option.splits sum.splits if_splits)

lemma UnregisterInstance_ok:
  "UnregisterInstance i h = (Inr m, h') \<Longrightarrow> instances h i \<noteq> None \<and> h' = h\<lparr>instances := (instances h)(i := None)\<rparr>"
  by (auto simp: UnregisterInstance_def split: option.splits)

lemma unregisterRemoved_ok:
  "unregisterRemoved is h = (Inr u, h') \<Longrightarrow>
     set is \<subseteq> dom (instances h) \<and> distinct is \<and> instances h' = (\<lambda>i. if i \<in> set is then None else instances h i)"
proof (induction "is" h rule: unregisterRemoved.induct)
  case (2 i rest h)
  from 2(2) obtain m h1 where u: "UnregisterInstance i h = (Inr m, h1)" and r: "unregisterRemoved rest h1 = (Inr u, h')"
    by (auto split: prod.splits sum.splits)
  from UnregisterInstance_ok [OF u] 2(1) [OF u [symmetric] refl r] show ?case by (auto simp: dom_def fun_eq_iff split: if_splits)
qed auto

definition entryOf :: "'s configEnv \<Rightarrow> ConfigSnapshot \<Rightarrow> string \<Rightarrow> (Instance \<times> managedInstance) option" where
  "entryOf env snap i = (case findInstance snap i of None \<Rightarrow> None | Some di \<Rightarrow> entryFor env di)"

definition enabledOf :: "'s configEnv \<Rightarrow> ConfigSnapshot \<Rightarrow> string \<Rightarrow> bool" where
  "enabledOf env snap i \<longleftrightarrow> (case findInstance snap i of None \<Rightarrow> False | Some di \<Rightarrow> enabledIn (ce_decoders env) di)"

lemma findInstance_id: "findInstance snap i = Some di \<Longrightarrow> di_Id di = i"
  by (auto simp: findInstance_def find_Some_iff)

lemma findInstance_in: "i \<in> di_Id ` set (cs_DriverInstances snap) \<longleftrightarrow> findInstance snap i \<noteq> None"
  by (auto simp: findInstance_def find_None_iff)

lemma registerAdded_ok:
  "registerAdded env snap is h = (Inr u, h') \<Longrightarrow> distinct is \<Longrightarrow> set is \<subseteq> di_Id ` set (cs_DriverInstances snap) \<Longrightarrow>
     instances h' = (\<lambda>i. if i \<in> set is \<and> entryOf env snap i \<noteq> None then entryOf env snap i else instances h i) \<and>
     (\<forall>i \<in> set is. entryOf env snap i \<noteq> None \<longleftrightarrow> enabledOf env snap i)"
proof (induction env snap "is" h rule: registerAdded.induct)
  case (2 env snap i rest h)
  from 2(2) obtain v h1 where r: "registerInstance env (findInstance snap i) h = (Inr v, h1)" and rest: "registerAdded env snap rest h1 = (Inr u, h')"
    by (auto split: prod.splits sum.splits)
  from 2(4) obtain di where di: "findInstance snap i = Some di" "di_Id di = i"
    using findInstance_in findInstance_id by fastforce
  have "instances h' = (\<lambda>i. if i \<in> set rest \<and> entryOf env snap i \<noteq> None then entryOf env snap i else instances h1 i)"
    "\<forall>i \<in> set rest. entryOf env snap i \<noteq> None \<longleftrightarrow> enabledOf env snap i"
    using 2(1) [OF r [symmetric] refl rest] 2(3,4) by simp_all
  moreover from registerInstance_ok [of env di h v h1] r di
  have "instances h1 = (if entryOf env snap i = None then instances h else (instances h)(i := entryOf env snap i))"
    "entryOf env snap i \<noteq> None \<longleftrightarrow> enabledOf env snap i"
    by (auto simp: entryOf_def enabledOf_def split: option.splits)
  ultimately show ?case using 2(3) by (auto simp: fun_eq_iff)
qed auto

lemma registerChanged_ok:
  "registerChanged env snap is h = (Inr u, h') \<Longrightarrow> distinct is \<Longrightarrow> set is \<subseteq> di_Id ` set (cs_DriverInstances snap) \<Longrightarrow>
     set is \<subseteq> dom (instances h) \<and> instances h' = (\<lambda>i. if i \<in> set is then entryOf env snap i else instances h i) \<and>
     (\<forall>i \<in> set is. entryOf env snap i \<noteq> None \<longleftrightarrow> enabledOf env snap i)"
proof (induction env snap "is" h rule: registerChanged.induct)
  case (2 env snap i rest h)
  from 2(2) obtain m v h1 h2 where u: "UnregisterInstance i h = (Inr m, h1)"
    and r: "registerInstance env (findInstance snap i) h1 = (Inr v, h2)" and rest: "registerChanged env snap rest h2 = (Inr u, h')"
    by (auto split: prod.splits sum.splits)
  from 2(4) obtain di where di: "findInstance snap i = Some di" "di_Id di = i"
    using findInstance_in findInstance_id by fastforce
  have IH: "set rest \<subseteq> dom (instances h2)" "instances h' = (\<lambda>i. if i \<in> set rest then entryOf env snap i else instances h2 i)"
    "\<forall>i \<in> set rest. entryOf env snap i \<noteq> None \<longleftrightarrow> enabledOf env snap i"
    using 2(1) [OF u [symmetric] refl r [symmetric] refl rest] 2(3,4) by simp_all
  have h1: "instances h i \<noteq> None" "instances h1 = (instances h)(i := None)" using UnregisterInstance_ok [OF u] by simp_all
  have h2: "instances h2 = (instances h)(i := entryOf env snap i)" "entryOf env snap i \<noteq> None \<longleftrightarrow> enabledOf env snap i"
    using registerInstance_ok [of env di h1 v h2] r di h1 by (auto simp: entryOf_def enabledOf_def split: option.splits)
  show ?case using IH h1(1) h2(2) 2(3) by (auto simp: h2(1) fun_eq_iff dom_def split: if_splits)
qed auto

text \<open>The hashes of the old snapshot, by id.\<close>

lemma hashMap_keys: "set (map fst (hashMap xs)) = di_Id ` set xs" "distinct (map fst (hashMap xs))"
proof -
  let ?ins = "\<lambda>di. AList.update (di_Id di) (di_ConfigHash di)"
  have "dom (map_of (fold ?ins xs m)) = dom (map_of m) \<union> di_Id ` set xs" for m
    by (induction xs arbitrary: m) (auto simp: update_conv')
  from this [of "[]"] show "set (map fst (hashMap xs)) = di_Id ` set xs" by (simp add: hashMap_def dom_map_of_conv_image_fst)
  have "distinct (map fst m) \<Longrightarrow> distinct (map fst (fold ?ins xs m))" for m
    by (induction xs arbitrary: m) (auto simp: distinct_update)
  then show "distinct (map fst (hashMap xs))" by (simp add: hashMap_def)
qed

lemma hashMap_find:
  assumes "distinct (map di_Id xs)"
  shows "map_of (hashMap xs) i = map_option di_ConfigHash (List.find (\<lambda>di. di_Id di = i) xs)"
proof -
  have absent: "List.find (\<lambda>di. di_Id di = i) xs = None" if "i \<notin> di_Id ` set xs" for xs
    using that by (auto simp: find_None_iff)
  have "map_of (fold (\<lambda>di. AList.update (di_Id di) (di_ConfigHash di)) xs m) i =
      (case List.find (\<lambda>di. di_Id di = i) xs of None \<Rightarrow> map_of m i | Some di \<Rightarrow> Some (di_ConfigHash di))" for m
    using assms
  proof (induction xs arbitrary: m)
    case (Cons di xs)
    show ?case
    proof (cases "di_Id di = i")
      case True
      with Cons.prems have "List.find (\<lambda>di. di_Id di = i) xs = None" by (intro absent) auto
      with True Cons show ?thesis by (simp add: update_conv')
    qed (use Cons in \<open>simp add: update_conv' split: option.split\<close>)
  qed simp
  from this [of "[]"] show ?thesis by (simp add: hashMap_def split: option.splits)
qed

text \<open>The parts of a successful apply.\<close>

lemma Apply_ok:
  assumes "Manager_Apply env False raw w = (Inr u, w')"
  obtains msg snap errs snap' where "NormalizeApplyMessage raw = Inr msg" "ce_Evaluate env = Inr (snap, errs)" "Config_Compile snap None = []"
    "ResolveSecrets (ce_json env) (ce_secrets env) snap = Inr snap'" "mgr_current (w_mgr w') = Some snap'"
    "applyInstances env snap' (Diff (mgr_current (w_mgr w)) snap) (w_host w) = (Inr (), w_host w')"
    "w_fired w' = w_fired w @ map (\<lambda>fn. (fn, snap')) (appliedHooks (w_mgr w))"
proof -
  from assms obtain msg where msg: "NormalizeApplyMessage raw = Inr msg" by (auto simp: Manager_Apply_def split: sum.splits)
  with assms obtain snap diff where v: "Manager_Validate env (w_mgr w) = Inr (snap, diff)"
    by (auto simp: Manager_Apply_def split: sum.splits)
  then obtain errs where ev: "ce_Evaluate env = Inr (snap, errs)" "Config_Compile snap None = []" "diff = Diff (mgr_current (w_mgr w)) snap"
    by (auto simp: Manager_Validate_def Let_def split: sum.splits prod.splits if_splits)
  from assms msg v obtain snap' where r: "ResolveSecrets (ce_json env) (ce_secrets env) snap = Inr snap'"
    by (auto simp: Manager_Apply_def split: sum.splits)
  from assms msg v r obtain h' where h: "applyInstances env snap' diff (w_host w) = (Inr (), h')"
    by (auto simp: Manager_Apply_def split: sum.splits prod.splits)
  show thesis
    using assms msg v r h ev(3) that [OF msg ev(1,2) r]
    by (auto simp: Manager_Apply_def Let_def split: sum.splits prod.splits)
qed

lemma resolveInstances_keeps:
  "resolveInstances jc src xs = Inr ys \<Longrightarrow> list_all2 (\<lambda>x y. di_Id y = di_Id x \<and> di_DriverName y = di_DriverName x \<and> di_ConfigHash y = di_ConfigHash x) xs ys"
  by (induction jc src xs arbitrary: ys rule: resolveInstances.induct) (auto split: sum.splits)

lemma ResolveSecrets_keeps:
  assumes "ResolveSecrets jc src snap = Inr snap'"
  shows "map di_Id (cs_DriverInstances snap') = map di_Id (cs_DriverInstances snap)" "Diff old snap' = Diff old snap"
proof -
  from assms obtain ys where r: "resolveInstances jc src (cs_DriverInstances snap) = Inr ys" and s: "snap' = snap\<lparr>cs_DriverInstances := ys\<rparr>"
    by (auto simp: ResolveSecrets_def split: sum.splits)
  note l = resolveInstances_keeps [OF r]
  from l have ids: "map di_Id ys = map di_Id (cs_DriverInstances snap)"
    by (induction rule: list_all2_induct) auto
  then show "map di_Id (cs_DriverInstances snap') = map di_Id (cs_DriverInstances snap)" by (simp add: s)
  have f: "map di_Id (filter P ys) = map di_Id (filter P (cs_DriverInstances snap))"
    if "\<And>x y. di_Id y = di_Id x \<Longrightarrow> di_ConfigHash y = di_ConfigHash x \<Longrightarrow> P x = P y" for P
    using l by (induction rule: list_all2_induct) (auto dest: that)
  from ids have "di_Id ` set ys = di_Id ` set (cs_DriverInstances snap)" by (metis set_map)
  then show "Diff old snap' = Diff old snap"
    by (auto simp: Diff_def Let_def s split: option.splits intro!: f)
qed

lemma Diff_sets:
  assumes "distinct (map di_Id (cs_DriverInstances next))"
  shows "distinct (DriverInstancesAdded (Diff old next))" "distinct (DriverInstancesChanged (Diff old next))"
    "set (DriverInstancesAdded (Diff old next)) = di_Id ` set (cs_DriverInstances next) - di_Id ` set (instancesOf old)"
    "set (DriverInstancesRemoved (Diff old next)) = di_Id ` set (instancesOf old) - di_Id ` set (cs_DriverInstances next)"
    "set (DriverInstancesChanged (Diff old next)) \<subseteq> di_Id ` set (cs_DriverInstances next) \<inter> di_Id ` set (instancesOf old)"
proof -
  have k: "map_of (hashMap (instancesOf old)) i = None \<longleftrightarrow> i \<notin> di_Id ` set (instancesOf old)" for i
    using hashMap_keys(1) by (simp add: map_of_eq_None_iff)
  show "distinct (DriverInstancesAdded (Diff old next))" "distinct (DriverInstancesChanged (Diff old next))"
    using assms by (auto simp: Diff_def Let_def intro: distinct_map_filter)
  show "set (DriverInstancesAdded (Diff old next)) = di_Id ` set (cs_DriverInstances next) - di_Id ` set (instancesOf old)"
    by (auto simp: Diff_def Let_def k)
  show "set (DriverInstancesRemoved (Diff old next)) = di_Id ` set (instancesOf old) - di_Id ` set (cs_DriverInstances next)"
    using hashMap_keys(1) [of "instancesOf old"] by (auto simp: Diff_def Let_def)
  show "set (DriverInstancesChanged (Diff old next)) \<subseteq> di_Id ` set (cs_DriverInstances next) \<inter> di_Id ` set (instancesOf old)"
  proof
    fix i
    assume "i \<in> set (DriverInstancesChanged (Diff old next))"
    then obtain di where "di \<in> set (cs_DriverInstances next)" "i = di_Id di"
        "case map_of (hashMap (instancesOf old)) (di_Id di) of None \<Rightarrow> False | Some h \<Rightarrow> h \<noteq> di_ConfigHash di"
      unfolding Diff_def Let_def ConfigDiff.simps set_map set_filter by blast
    then have "i \<in> di_Id ` set (cs_DriverInstances next)" "map_of (hashMap (instancesOf old)) i \<noteq> None"
      by (cases "map_of (hashMap (instancesOf old)) i"; force)+
    then show "i \<in> di_Id ` set (cs_DriverInstances next) \<inter> di_Id ` set (instancesOf old)" unfolding k by simp
  qed
qed

text \<open>The instance that a snapshot declares under an id, when there is a snapshot.\<close>

definition declared :: "ConfigSnapshot option \<Rightarrow> string \<Rightarrow> DriverInstanceConfig option" where
  "declared old i = List.find (\<lambda>di. di_Id di = i) (instancesOf old)"

lemma declared_None: "declared old i = None \<longleftrightarrow> i \<notin> di_Id ` set (instancesOf old)"
  by (auto simp: declared_def find_None_iff)

lemma declared_Some [simp]: "declared (Some snap) = findInstance snap"
  by (simp add: fun_eq_iff declared_def findInstance_def instancesOf_def)

text \<open>
  The manager and the host are in step: the ids of the current snapshot are distinct, and the host has exactly the
  instances that it declares and does not switch off.
\<close>

definition inStep :: "decoders \<Rightarrow> 's world \<Rightarrow> bool" where
  "inStep dec w \<longleftrightarrow> distinct (map di_Id (instancesOf (mgr_current (w_mgr w)))) \<and>
     (\<forall>i. i \<in> dom (instances (w_host w)) \<longleftrightarrow> (\<exists>di. declared (mgr_current (w_mgr w)) i = Some di \<and> enabledIn dec di))"

lemma changed_iff:
  assumes "distinct (map di_Id (instancesOf old))" "distinct (map di_Id (cs_DriverInstances next))" "findInstance next i = Some di"
  shows "i \<in> set (DriverInstancesChanged (Diff old next)) \<longleftrightarrow> (\<exists>o'. declared old i = Some o' \<and> di_ConfigHash o' \<noteq> di_ConfigHash di)"
proof -
  have uniq: "d = di" if "d \<in> set (cs_DriverInstances next)" "di_Id d = i" for d
    using assms(2,3) that by (auto simp: findInstance_def find_Some_iff distinct_map dest: inj_onD)
  have "i \<in> set (DriverInstancesChanged (Diff old next)) \<longleftrightarrow>
      (\<exists>d \<in> set (cs_DriverInstances next). di_Id d = i \<and> (\<exists>o'. declared old i = Some o' \<and> di_ConfigHash o' \<noteq> di_ConfigHash d))"
    by (auto simp: Diff_def Let_def hashMap_find [OF assms(1)] declared_def image_iff split: option.splits)
  also have "\<dots> \<longleftrightarrow> (\<exists>o'. declared old i = Some o' \<and> di_ConfigHash o' \<noteq> di_ConfigHash di)"
    using uniq assms(3) by (auto simp: findInstance_def find_Some_iff)
  finally show ?thesis .
qed

lemma applyInstances_ok:
  assumes "applyInstances env snap (Diff old next) h = (Inr (), h')" and ids: "map di_Id (cs_DriverInstances snap) = map di_Id (cs_DriverInstances next)"
    and dist: "distinct (map di_Id (cs_DriverInstances next))"
  shows "set (DriverInstancesRemoved (Diff old next)) \<union> set (DriverInstancesChanged (Diff old next)) \<subseteq> dom (instances h)"
    "instances h' = (\<lambda>i.
       if i \<in> set (DriverInstancesRemoved (Diff old next)) then None
       else if i \<in> set (DriverInstancesChanged (Diff old next)) then entryOf env snap i
       else if i \<in> set (DriverInstancesAdded (Diff old next)) \<and> entryOf env snap i \<noteq> None then entryOf env snap i
       else instances h i)"
    "\<forall>i \<in> set (DriverInstancesAdded (Diff old next)) \<union> set (DriverInstancesChanged (Diff old next)). entryOf env snap i \<noteq> None \<longleftrightarrow> enabledOf env snap i"
proof -
  note sets = Diff_sets [OF dist, of old]
  have idset: "di_Id ` set (cs_DriverInstances snap) = di_Id ` set (cs_DriverInstances next)" using ids by (metis set_map)
  from assms(1) obtain h1 h2 where
    r: "unregisterRemoved (DriverInstancesRemoved (Diff old next)) h = (Inr (), h1)" and
    a: "registerAdded env snap (DriverInstancesAdded (Diff old next)) h1 = (Inr (), h2)" and
    c: "registerChanged env snap (DriverInstancesChanged (Diff old next)) h2 = (Inr (), h')"
    by (auto simp: applyInstances_def split: prod.splits sum.splits)
  note R = unregisterRemoved_ok [OF r]
  have A: "instances h2 = (\<lambda>i. if i \<in> set (DriverInstancesAdded (Diff old next)) \<and> entryOf env snap i \<noteq> None then entryOf env snap i else instances h1 i)"
      "\<forall>i \<in> set (DriverInstancesAdded (Diff old next)). entryOf env snap i \<noteq> None \<longleftrightarrow> enabledOf env snap i"
    using registerAdded_ok [OF a sets(1)] sets(3) idset by auto
  have C: "set (DriverInstancesChanged (Diff old next)) \<subseteq> dom (instances h2)"
      "instances h' = (\<lambda>i. if i \<in> set (DriverInstancesChanged (Diff old next)) then entryOf env snap i else instances h2 i)"
      "\<forall>i \<in> set (DriverInstancesChanged (Diff old next)). entryOf env snap i \<noteq> None \<longleftrightarrow> enabledOf env snap i"
    using registerChanged_ok [OF c sets(2)] sets(5) idset by auto
  have disj: "set (DriverInstancesAdded (Diff old next)) \<inter> set (DriverInstancesChanged (Diff old next)) = {}"
    "set (DriverInstancesRemoved (Diff old next)) \<inter> (set (DriverInstancesAdded (Diff old next)) \<union> set (DriverInstancesChanged (Diff old next))) = {}"
    using sets(3,4,5) by auto
  have ch: "instances h2 i = instances h i" if "i \<in> set (DriverInstancesChanged (Diff old next))" for i
    using that disj R by (auto simp: A(1))
  then show "set (DriverInstancesRemoved (Diff old next)) \<union> set (DriverInstancesChanged (Diff old next)) \<subseteq> dom (instances h)"
    using R C(1) by (auto simp: dom_def)
  show "instances h' = (\<lambda>i.
       if i \<in> set (DriverInstancesRemoved (Diff old next)) then None
       else if i \<in> set (DriverInstancesChanged (Diff old next)) then entryOf env snap i
       else if i \<in> set (DriverInstancesAdded (Diff old next)) \<and> entryOf env snap i \<noteq> None then entryOf env snap i
       else instances h i)"
    using R disj by (auto simp: C(2) A(1) fun_eq_iff)
  show "\<forall>i \<in> set (DriverInstancesAdded (Diff old next)) \<union> set (DriverInstancesChanged (Diff old next)). entryOf env snap i \<noteq> None \<longleftrightarrow> enabledOf env snap i"
    using A(2) C(3) by blast
qed

lemma declared_mem: "declared old i = Some di \<Longrightarrow> di \<in> set (instancesOf old) \<and> di_Id di = i"
  by (auto simp: declared_def find_Some_iff)

text \<open>
  The hash of an instance is taken of its raw text, in \<^verbatim>\<open>evaluator.go\<close>, which also says whether it is switched off: with
  equal hashes both snapshots agree on that.
\<close>

definition hashTells :: "decoders \<Rightarrow> ConfigSnapshot option \<Rightarrow> ConfigSnapshot option \<Rightarrow> bool" where
  "hashTells dec old new \<longleftrightarrow> (\<forall>x \<in> set (instancesOf old). \<forall>y \<in> set (instancesOf new).
     di_Id x = di_Id y \<and> di_ConfigHash x = di_ConfigHash y \<longrightarrow> enabledIn dec x = enabledIn dec y)"

lemma host_entry:
  assumes "applyInstances env snap (Diff old snap) h = (Inr (), h')"
    and dist: "distinct (map di_Id (instancesOf old))" "distinct (map di_Id (cs_DriverInstances snap))"
    and step: "i \<in> dom (instances h) \<longleftrightarrow> (\<exists>di. declared old i = Some di \<and> enabledIn (ce_decoders env) di)"
    and tells: "hashTells (ce_decoders env) old (Some snap)" and di: "findInstance snap i = Some di"
  shows "instances h' i = (case declared old i of
        Some di0 \<Rightarrow> if di_ConfigHash di0 = di_ConfigHash di then instances h i else entryFor env di | None \<Rightarrow> entryFor env di) \<and>
      (i \<in> dom (instances h') \<longleftrightarrow> enabledIn (ce_decoders env) di)"
proof -
  note ok = applyInstances_ok [OF assms(1) refl dist(2)] and sets = Diff_sets [OF dist(2), of old]
  have entry: "entryFor env di \<noteq> None \<longleftrightarrow> enabledIn (ce_decoders env) di"
    if "i \<in> set (DriverInstancesAdded (Diff old snap)) \<union> set (DriverInstancesChanged (Diff old snap))"
    using bspec [OF ok(3) that] di by (simp add: entryOf_def enabledOf_def)
  show ?thesis
  proof (cases "declared old i")
    case None
    then have i: "i \<in> set (DriverInstancesAdded (Diff old snap))" "i \<notin> set (DriverInstancesRemoved (Diff old snap))"
        "i \<notin> set (DriverInstancesChanged (Diff old snap))" "instances h i = None"
      using di findInstance_in [of i snap] declared_None [of old i] sets step by auto
    have "entryFor env di \<noteq> None \<longleftrightarrow> enabledIn (ce_decoders env) di" by (rule entry) (use i(1) in simp)
    with i di None show ?thesis by (cases "entryFor env di") (auto simp: ok(2) entryOf_def)
  next
    case (Some di0)
    then have i: "i \<notin> set (DriverInstancesAdded (Diff old snap))" "i \<notin> set (DriverInstancesRemoved (Diff old snap))"
      using di findInstance_in [of i snap] declared_None [of old i] sets by auto
    show ?thesis
    proof (cases "di_ConfigHash di0 = di_ConfigHash di")
      case True
      then have "i \<notin> set (DriverInstancesChanged (Diff old snap))" using changed_iff [OF dist di] Some by auto
      moreover have "enabledIn (ce_decoders env) di0 = enabledIn (ce_decoders env) di"
        using tells declared_mem [OF Some] declared_mem [of "Some snap" i di] di True by (auto simp: hashTells_def)
      ultimately show ?thesis using i Some True step by (auto simp: ok(2) dom_def)
    next
      case False
      then have "i \<in> set (DriverInstancesChanged (Diff old snap))" using changed_iff [OF dist di] Some by auto
      moreover from this have "entryFor env di \<noteq> None \<longleftrightarrow> enabledIn (ce_decoders env) di" by (intro entry) simp
      ultimately show ?thesis using i di Some False by (cases "entryFor env di") (auto simp: ok(2) entryOf_def)
    qed
  qed
qed

lemma host_gone:
  assumes "applyInstances env snap (Diff old snap) h = (Inr (), h')" "distinct (map di_Id (cs_DriverInstances snap))"
    and "i \<in> dom (instances h) \<Longrightarrow> declared old i \<noteq> None" "findInstance snap i = None"
  shows "i \<notin> dom (instances h')"
  using assms(3,4) findInstance_in [of i snap] declared_None [of old i] Diff_sets [OF assms(2), of old]
  by (auto simp: applyInstances_ok(2) [OF assms(1) refl assms(2)] dom_def)

text \<open>
  C28. Applying a configuration, from a manager in step with its host: when \<open>Apply\<close> succeeds the two are in step again, the
  host has exactly the instances that the new snapshot declares and does not switch off; an instance that was declared
  before with the same hash keeps its entry, so its driver is not restarted (whatever its secrets resolve to now); every
  other one has a fresh lifecycle with the binary of the driver registry, its own parameters and the merged settings.
\<close>

theorem Apply_follows_config:
  assumes "inStep (ce_decoders env) w" "Manager_Apply env False raw w = (Inr (), w')"
    and "hashTells (ce_decoders env) (mgr_current (w_mgr w)) (mgr_current (w_mgr w'))"
  shows "inStep (ce_decoders env) w' \<and>
    (\<forall>i di. declared (mgr_current (w_mgr w')) i = Some di \<longrightarrow>
       instances (w_host w') i =
         (case declared (mgr_current (w_mgr w)) i of
            Some di0 \<Rightarrow> if di_ConfigHash di0 = di_ConfigHash di then instances (w_host w) i else entryFor env di
          | None \<Rightarrow> entryFor env di))"
proof -
  let ?old = "mgr_current (w_mgr w)"
  from Apply_ok [OF assms(2)] obtain nxt errs snap where
    clean: "Config_Compile nxt None = []" and res: "ResolveSecrets (ce_json env) (ce_secrets env) nxt = Inr snap" and
    cur: "mgr_current (w_mgr w') = Some snap" and app: "applyInstances env snap (Diff ?old nxt) (w_host w) = (Inr (), w_host w')"
    by metis
  note keeps = ResolveSecrets_keeps [OF res]
  from clean have dist: "distinct (map di_Id (cs_DriverInstances snap))" by (simp add: Config_Compile_def checkInstances_clean keeps)
  from app have app: "applyInstances env snap (Diff ?old snap) (w_host w) = (Inr (), w_host w')" by (simp add: keeps)
  from assms(1) have dist0: "distinct (map di_Id (instancesOf ?old))"
    and step: "\<And>i. i \<in> dom (instances (w_host w)) \<longleftrightarrow> (\<exists>di. declared ?old i = Some di \<and> enabledIn (ce_decoders env) di)"
    by (auto simp: inStep_def)
  note here = host_entry [OF app dist0 dist step assms(3) [unfolded cur]] and gone = host_gone [OF app dist]
  have "inStep (ce_decoders env) w'" unfolding inStep_def cur declared_Some
  proof (intro conjI allI)
    show "distinct (map di_Id (instancesOf (Some snap)))" using dist by (simp add: instancesOf_def)
    show "i \<in> dom (instances (w_host w')) \<longleftrightarrow> (\<exists>di. findInstance snap i = Some di \<and> enabledIn (ce_decoders env) di)" for i
      using gone [of i] here [of i] step [of i] by (cases "findInstance snap i") auto
  qed
  with here show ?thesis by (simp add: cur)
qed

section \<open>An instance that the host does not have\<close>

lemma registerInstance_frame:
  "registerInstance env (Some di) h = (r, h') \<Longrightarrow> i \<noteq> di_Id di \<Longrightarrow> instances h' i = instances h i"
  by (auto simp: registerInstance_def RegisterInstance_def Let_def split: option.splits sum.splits if_splits)

lemma UnregisterInstance_frame:
  "UnregisterInstance j h = (r, h') \<Longrightarrow> instances h i = None \<Longrightarrow> instances h' i = None"
  by (auto simp: UnregisterInstance_def split: option.splits)

lemma unregisterRemoved_frame: "instances h i = None \<Longrightarrow> instances (snd (unregisterRemoved is h)) i = None"
proof (induction "is" h rule: unregisterRemoved.induct)
  case (2 j rest h)
  obtain r h1 where u: "UnregisterInstance j h = (r, h1)" by fastforce
  with 2 show ?case using UnregisterInstance_frame [OF u 2(2)] by (cases r) auto
qed simp

lemma registerAdded_frame:
  "instances h i = None \<Longrightarrow> i \<notin> set is \<Longrightarrow> set is \<subseteq> di_Id ` set (cs_DriverInstances snap) \<Longrightarrow>
     instances (snd (registerAdded env snap is h)) i = None"
proof (induction env snap "is" h rule: registerAdded.induct)
  case (2 env snap j rest h)
  from 2(4) obtain di where di: "findInstance snap j = Some di" "di_Id di = j"
    using findInstance_in findInstance_id by fastforce
  obtain r h1 where r: "registerInstance env (findInstance snap j) h = (r, h1)" by fastforce
  with 2(2,3) di have "instances h1 i = None" using registerInstance_frame [of env di h r h1 i] by auto
  with 2 r show ?case by (cases r) auto
qed simp

lemma registerChanged_frame:
  "instances h i = None \<Longrightarrow> set is \<subseteq> di_Id ` set (cs_DriverInstances snap) \<Longrightarrow>
     instances (snd (registerChanged env snap is h)) i = None \<and> (i \<in> set is \<longrightarrow> (\<exists>e. fst (registerChanged env snap is h) = Inl e))"
proof (induction env snap "is" h rule: registerChanged.induct)
  case (2 env snap j rest h)
  from 2(3) obtain di where di: "findInstance snap j = Some di" "di_Id di = j"
    using findInstance_in findInstance_id by fastforce
  show ?case
  proof (cases "instances h j")
    case None
    then show ?thesis using 2(2) by (simp add: UnregisterInstance_def)
  next
    case (Some x)
    then obtain m h1 where u: "UnregisterInstance j h = (Inr m, h1)" by (cases x) (simp add: UnregisterInstance_def)
    obtain r h2 where r: "registerInstance env (findInstance snap j) h1 = (r, h2)" by fastforce
    from Some 2(2) have "i \<noteq> j" by auto
    with UnregisterInstance_frame [OF u 2(2)] r di have "instances h2 i = None"
      using registerInstance_frame [of env di h1 r h2 i] by auto
    with 2 u r \<open>i \<noteq> j\<close> show ?thesis by (cases r) auto
  qed
qed simp

text \<open>
  The current snapshot declares an instance that the host does not have: every new snapshot that leaves it out or
  changes it makes the host's \<open>UnregisterInstance\<close> fail.
\<close>

definition wedged :: "string \<Rightarrow> bytes \<Rightarrow> 's world \<Rightarrow> bool" where
  "wedged i hash w \<longleftrightarrow> distinct (map di_Id (instancesOf (mgr_current (w_mgr w)))) \<and>
     map_option di_ConfigHash (declared (mgr_current (w_mgr w)) i) = Some hash \<and> instances (w_host w) i = None"

definition dropsOrChanges :: "string \<Rightarrow> bytes \<Rightarrow> 's configEnv \<Rightarrow> bool" where
  "dropsOrChanges i hash env = (case ce_Evaluate env of
      Inl e \<Rightarrow> True | Inr (snap, errs) \<Rightarrow> list_all (\<lambda>di. di_Id di = i \<longrightarrow> di_ConfigHash di \<noteq> hash) (cs_DriverInstances snap))"

lemma wedged_instances:
  assumes w: "wedged i hash w" and dist: "distinct (map di_Id (cs_DriverInstances snap))"
    and drops: "list_all (\<lambda>di. di_Id di = i \<longrightarrow> di_ConfigHash di \<noteq> hash) (cs_DriverInstances snap)"
  shows "\<exists>e h'. applyInstances env snap (Diff (mgr_current (w_mgr w)) snap) (w_host w) = (Inl e, h') \<and> instances h' i = None"
proof -
  let ?d = "Diff (mgr_current (w_mgr w)) snap"
  note sets = Diff_sets [OF dist, of "mgr_current (w_mgr w)"]
  from w obtain di0 where di0: "declared (mgr_current (w_mgr w)) i = Some di0" "di_ConfigHash di0 = hash"
    and none: "instances (w_host w) i = None" and dist0: "distinct (map di_Id (instancesOf (mgr_current (w_mgr w))))"
    by (auto simp: wedged_def)
  have old: "i \<in> di_Id ` set (instancesOf (mgr_current (w_mgr w)))" using di0 declared_None [of _ i] by (metis option.distinct(1))
  have hit: "i \<in> set (DriverInstancesRemoved ?d) \<union> set (DriverInstancesChanged ?d)"
  proof (cases "findInstance snap i")
    case None
    then show ?thesis using old findInstance_in [of i snap] sets(4) by auto
  next
    case (Some di)
    then have "di_ConfigHash di \<noteq> hash" using drops by (auto simp: findInstance_def find_Some_iff list_all_iff)
    with Some di0 show ?thesis using changed_iff [OF dist0 dist Some] by auto
  qed
  have fails: "fst (applyInstances env snap ?d (w_host w)) \<noteq> Inr ()"
  proof
    assume "fst (applyInstances env snap ?d (w_host w)) = Inr ()"
    then have ok: "applyInstances env snap ?d (w_host w) = (Inr (), snd (applyInstances env snap ?d (w_host w)))" by (metis prod.collapse)
    from applyInstances_ok(1) [OF this refl dist] hit none show False by blast
  qed
  obtain r1 h1 where u: "unregisterRemoved (DriverInstancesRemoved ?d) (w_host w) = (r1, h1)" by fastforce
  with unregisterRemoved_frame [OF none] have n1: "instances h1 i = None" by (metis snd_conv)
  obtain r2 h2 where a: "registerAdded env snap (DriverInstancesAdded ?d) h1 = (r2, h2)" by fastforce
  with registerAdded_frame [OF n1, of "DriverInstancesAdded ?d" snap env] old sets(3) have n2: "instances h2 i = None" by auto
  obtain r3 h3 where c: "registerChanged env snap (DriverInstancesChanged ?d) h2 = (r3, h3)" by fastforce
  with registerChanged_frame [OF n2, of "DriverInstancesChanged ?d" snap env] sets(5) have n3: "instances h3 i = None" by auto
  from fails u a c n1 n2 n3 show ?thesis
    by (cases r1; cases r2; cases r3) (auto simp: applyInstances_def)
qed

lemma ResolveSecrets_all:
  assumes "ResolveSecrets jc src snap = Inr snap'"
  shows "list_all (\<lambda>di. P (di_Id di) (di_ConfigHash di)) (cs_DriverInstances snap') = list_all (\<lambda>di. P (di_Id di) (di_ConfigHash di)) (cs_DriverInstances snap)"
proof -
  from assms obtain ys where r: "resolveInstances jc src (cs_DriverInstances snap) = Inr ys" and s: "snap' = snap\<lparr>cs_DriverInstances := ys\<rparr>"
    by (auto simp: ResolveSecrets_def split: sum.splits)
  from resolveInstances_keeps [OF r] show ?thesis unfolding s by (induction rule: list_all2_induct) auto
qed

fun applies :: "('s configEnv \<times> string) list \<Rightarrow> 's world \<Rightarrow> (error + unit) list \<times> 's world" where
  "applies [] w = ([], w)"
| "applies ((env, raw) # rest) w = (let (r, w1) = Manager_Apply env False raw w; (rs, w2) = applies rest w1 in (r # rs, w2))"

lemma wedged_apply:
  assumes "wedged i hash w" "dropsOrChanges i hash env"
  shows "\<exists>e h'. Manager_Apply env False raw w = (Inl e, w\<lparr>w_host := h'\<rparr>) \<and> instances h' i = None"
proof (cases "ce_Evaluate env")
  case (Inl e)
  then show ?thesis using assms(1)
    by (cases "NormalizeApplyMessage raw") (auto simp: Manager_Apply_def Manager_Validate_def wedged_def intro: exI [of _ "w_host w"])
next
  case (Inr p)
  then obtain nxt errs where ev: "ce_Evaluate env = Inr (nxt, errs)" by (cases p) auto
  have keep: "\<exists>e h'. (Inl x, w) = (Inl e, w\<lparr>w_host := h'\<rparr>) \<and> instances h' i = None" for x :: error
    using assms(1) by (auto simp: wedged_def intro!: exI [of _ "w_host w"])
  show ?thesis
  proof (cases "Config_Compile nxt None = []")
    case False
    with ev keep show ?thesis by (auto simp: Manager_Apply_def Manager_Validate_def Let_def split: sum.split)
  next
    case True
    show ?thesis
    proof (cases "ResolveSecrets (ce_json env) (ce_secrets env) nxt")
      case (Inl e)
      with ev True keep show ?thesis by (auto simp: Manager_Apply_def Manager_Validate_def Let_def split: sum.split)
    next
      case (Inr snap)
      from True have dist: "distinct (map di_Id (cs_DriverInstances snap))"
        by (simp add: Config_Compile_def checkInstances_clean ResolveSecrets_keeps [OF Inr])
      have "list_all (\<lambda>di. di_Id di = i \<longrightarrow> di_ConfigHash di \<noteq> hash) (cs_DriverInstances snap)"
        using assms(2) ev ResolveSecrets_all [OF Inr, of "\<lambda>j h. j = i \<longrightarrow> h \<noteq> hash"] by (simp add: dropsOrChanges_def)
      from wedged_instances [OF assms(1) dist this, of env] Inr ev True keep show ?thesis
        by (auto simp: Manager_Apply_def Manager_Validate_def Let_def ResolveSecrets_keeps [OF Inr, symmetric] split: sum.split)
    qed
  qed
qed

text \<open>
  C29. An instance that is switched off is never registered, but the next change compares snapshots: once the current
  snapshot declares a switched-off instance, every later configuration that leaves it out or changes it (to switch it
  on, say) is refused, however often it is applied, and the current snapshot stays what it is.
\<close>

theorem disabled_instance_wedges:
  assumes "inStep dec w" "declared (mgr_current (w_mgr w)) i = Some di" "\<not> enabledIn dec di"
    and "list_all (\<lambda>(env, raw). dropsOrChanges i (di_ConfigHash di) env) calls"
  shows "list_all (\<lambda>r. r \<noteq> Inr ()) (fst (applies calls w)) \<and> w_mgr (snd (applies calls w)) = w_mgr w \<and>
    w_store (snd (applies calls w)) = w_store w"
proof -
  from assms(1) have "i \<in> dom (instances (w_host w)) \<longleftrightarrow> (\<exists>di. declared (mgr_current (w_mgr w)) i = Some di \<and> enabledIn dec di)"
    unfolding inStep_def by blast
  with assms(2,3) have "instances (w_host w) i = None" by (metis domIff option.inject)
  moreover from assms(1) have "distinct (map di_Id (instancesOf (mgr_current (w_mgr w))))" unfolding inStep_def by blast
  ultimately have "wedged i (di_ConfigHash di) w" using assms(2) by (simp add: wedged_def)
  then show ?thesis using assms(4)
  proof (induction calls arbitrary: w)
    case (Cons c calls)
    obtain env raw where c: "c = (env, raw)" by (cases c)
    with Cons.prems obtain e h' where a: "Manager_Apply env False raw w = (Inl e, w\<lparr>w_host := h'\<rparr>)" "instances h' i = None"
      using wedged_apply by fastforce
    with Cons.prems have "wedged i (di_ConfigHash di) (w\<lparr>w_host := h'\<rparr>)" by (simp add: wedged_def)
    from Cons.IH [OF this] Cons.prems(2) c a(1) show ?case by (auto split: prod.splits)
  qed simp
qed

section \<open>A home with two drivers\<close>

text \<open>An instance with the parameters \<open>''-''\<close> is switched off; there are no secrets.\<close>

definition homeDecoders :: decoders where
  "homeDecoders = \<lparr>dec_options = (\<lambda>raw. Inr \<lparr>ij_Enabled = (if raw = ''-'' then Some False else None), ij_Lifecycle = None\<rparr>),
     dec_duration = (\<lambda>s. None)\<rparr>"

definition homeSnapshot :: "DriverInstanceConfig list \<Rightarrow> ConfigSnapshot" where
  "homeSnapshot xs = \<lparr>cs_EvaluatedAtUnixMs = 0, cs_DriverInstances = xs, cs_Entities = [], cs_Automations = [], cs_Scripts = [], cs_Areas = [],
     cs_Scenes = [], cs_Dashboards = 0, cs_EntityAreas = []\<rparr>"

definition hueInstance :: "bytes \<Rightarrow> DriverInstanceConfig" where
  "hueInstance raw = \<lparr>di_Id = ''hue'', di_DriverName = ''hue'', di_Params = raw, di_ConfigHash = raw\<rparr>"

definition z2mInstance :: "bytes \<Rightarrow> DriverInstanceConfig" where
  "z2mInstance raw = \<lparr>di_Id = ''z2m'', di_DriverName = ''z2m'', di_Params = raw, di_ConfigHash = raw\<rparr>"

definition homeEnv :: "DriverInstanceConfig list \<Rightarrow> nat configEnv" where
  "homeEnv xs = \<lparr>ce_Evaluate = Inr (homeSnapshot xs, []),
     ce_Lookup = (\<lambda>n. Some \<lparr>de_Name = n, de_Version = ''1'', de_BinaryPath = n, de_LifecycleDefaults = noOverride\<rparr>),
     ce_driversRoot = ''/drivers'', ce_decoders = homeDecoders,
     ce_json = \<lparr>unmarshalMap = (\<lambda>b. None), marshalMap = (\<lambda>m. [])\<rparr>,
     ce_secrets = \<lparr>getenv = (\<lambda>n. []), readTrimmed = (\<lambda>p. Inl ''no file''), keyringGet = None\<rparr>,
     ce_Append = (\<lambda>p n. (Inr (Suc n), Suc n))\<rparr>"

definition homeStart :: "nat world" where
  "homeStart = \<lparr>w_mgr = \<lparr>mgr_current = None, mgr_redacted = None, appliedHooks = [7]\<rparr>, w_host = Carport_Dispatch.Start New_Host, w_store = 0, w_fired = []\<rparr>"

lemma home_message: "NormalizeApplyMessage [] = Inr DefaultApplyMessage"
proof -
  have "trimSpace [] = []" "matchMessage DefaultApplyMessage = Some ''repo''" "length DefaultApplyMessage = 33" by code_simp+
  moreover have "CHR 0x0D \<notin> set DefaultApplyMessage" "CHR 0x0A \<notin> set DefaultApplyMessage" by code_simp+
  ultimately show ?thesis by (simp add: NormalizeApplyMessage_def allowedConfigMessageScopes_def Let_def)
qed

lemmas home_defs = homeEnv_def homeSnapshot_def homeStart_def homeDecoders_def hueInstance_def z2mInstance_def

lemmas manager_defs = Manager_Apply_def Manager_Validate_def Config_Compile_def scriptNames_def danglingAreas_def Diff_def hashMap_def instancesOf_def Let_def
  ResolveSecrets_def resolveJSONSecrets_def applyInstances_def registerInstance_def findInstance_def parseInstanceOptions_def
  RegisterInstance_def UnregisterInstance_def Carport_Dispatch.Start_def New_Host_def

lemma homeStart_inStep: "inStep homeDecoders homeStart"
  by (simp add: inStep_def homeStart_def instancesOf_def declared_def Carport_Dispatch.Start_def New_Host_def)

definition homeAfter :: "nat world" where
  "homeAfter = snd (Manager_Apply (homeEnv [hueInstance ''+'', z2mInstance ''-'']) False [] homeStart)"

lemma homeAfter_eq:
  "Manager_Apply (homeEnv [hueInstance ''+'', z2mInstance ''-'']) False [] homeStart = (Inr (), homeAfter)"
  "mgr_current (w_mgr homeAfter) = Some (homeSnapshot [hueInstance ''+'', z2mInstance ''-''])"
  by (simp_all add: homeAfter_def home_message home_defs manager_defs)

lemma homeAfter_inStep: "inStep homeDecoders homeAfter"
proof -
  have "dom (instances (w_host homeAfter)) = {''hue''}"
    by (simp add: homeAfter_def home_message home_defs manager_defs)
  then show ?thesis
    by (auto simp: inStep_def homeAfter_eq(2) instancesOf_def homeSnapshot_def findInstance_def enabledIn_def parseInstanceOptions_def
      homeDecoders_def hueInstance_def z2mInstance_def)
qed

theorem Apply_follows_config_witness:
  "inStep homeDecoders homeAfter \<and> instances (w_host homeAfter) ''hue'' = entryFor (homeEnv []) (hueInstance ''+'')"
proof -
  let ?env = "homeEnv [hueInstance ''+'', z2mInstance ''-'']"
  have d: "ce_decoders ?env = homeDecoders" by (simp add: homeEnv_def)
  have t: "hashTells homeDecoders (mgr_current (w_mgr homeStart)) (mgr_current (w_mgr homeAfter))"
    by (simp add: hashTells_def homeStart_def instancesOf_def)
  have "declared (mgr_current (w_mgr homeAfter)) ''hue'' = Some (hueInstance ''+'')" "declared (mgr_current (w_mgr homeStart)) ''hue'' = None"
    by (simp_all add: homeAfter_eq findInstance_def homeSnapshot_def hueInstance_def homeStart_def declared_def instancesOf_def)
  moreover have "entryFor ?env (hueInstance ''+'') = entryFor (homeEnv []) (hueInstance ''+'')"
    by (simp add: entryFor_def homeEnv_def)
  ultimately show ?thesis
    using Apply_follows_config [of ?env homeStart "[]" homeAfter] homeStart_inStep homeAfter_eq(1) t by (simp add: d)
qed

theorem disabled_instance_wedges_witness:
  "fst (applies (replicate 3 (homeEnv [hueInstance ''+'', z2mInstance ''+''], [])) homeAfter) \<noteq> [Inr (), Inr (), Inr ()] \<and>
   mgr_current (w_mgr (snd (applies (replicate 3 (homeEnv [hueInstance ''+'', z2mInstance ''+''], [])) homeAfter))) =
     Some (homeSnapshot [hueInstance ''+'', z2mInstance ''-''])"
proof -
  let ?env = "homeEnv [hueInstance ''+'', z2mInstance ''+'']"
  have "inStep homeDecoders homeAfter" by (rule homeAfter_inStep)
  moreover have "declared (mgr_current (w_mgr homeAfter)) ''z2m'' = Some (z2mInstance ''-'')"
    by (simp add: homeAfter_eq findInstance_def homeSnapshot_def hueInstance_def z2mInstance_def)
  moreover have "\<not> enabledIn homeDecoders (z2mInstance ''-'')"
    by (simp add: enabledIn_def home_defs parseInstanceOptions_def)
  moreover have "dropsOrChanges ''z2m'' (di_ConfigHash (z2mInstance ''-'')) ?env"
    by (simp add: dropsOrChanges_def home_defs)
  ultimately show ?thesis
    using disabled_instance_wedges [of homeDecoders homeAfter "''z2m''" "z2mInstance ''-''" "replicate 3 (?env, [])"]
    by (auto simp: homeAfter_eq(2) list_all_iff)
qed


end
