(* ===== verification/Edit_Session.thy ===== *)
theory Edit_Session
  imports Service_Base
begin

text \<open>
  Edit sessions on configuration files, \<^verbatim>\<open>internal/editsession\<close>: the lock manager (\<^verbatim>\<open>locks.go\<close>), the handlers of the
  service (\<^verbatim>\<open>service.go\<close>), the analysis of what a form can write back (\<^verbatim>\<open>regenerability.go\<close>) and the file watcher
  (\<^verbatim>\<open>watcher.go\<close>). Random tokens, SHA-256 and the clock are arguments.
\<close>

section \<open>Locks\<close>

record lockEntry =
  lk_filePath :: string
  lk_expiresAt :: gotime

record LockManager =
  lm_ttl :: duration
  locks :: "string \<rightharpoonup> lockEntry"

definition defaultLockTTL :: duration where
  "defaultLockTTL = 30 * 60 * 10 ^ 9"

definition NewLockManager :: LockManager where
  "NewLockManager = \<lparr>lm_ttl = defaultLockTTL, locks = Map.empty\<rparr>"

definition putLock :: "gotime \<Rightarrow> string \<Rightarrow> string \<Rightarrow> LockManager \<Rightarrow> LockManager" where
  "putLock now token path m = m\<lparr>locks := (locks m)(token \<mapsto> \<lparr>lk_filePath = path, lk_expiresAt = now + lm_ttl m\<rparr>)\<rparr>"

definition Acquire :: "gotime \<Rightarrow> error + string \<Rightarrow> string \<Rightarrow> LockManager \<Rightarrow> (error + string) \<times> LockManager" where
  "Acquire now newToken path m = (case newToken of Inl e \<Rightarrow> (Inl e, m) | Inr token \<Rightarrow> (Inr token, putLock now token path m))"

text \<open>Whether the token is valid, and whether it is expired.\<close>

definition Lock_Validate :: "gotime \<Rightarrow> string \<Rightarrow> LockManager \<Rightarrow> bool \<times> bool" where
  "Lock_Validate now token m =
     (case locks m token of None \<Rightarrow> (False, False) | Some e \<Rightarrow> if lk_expiresAt e < now then (False, True) else (True, False))"

definition Lock_FilePath :: "gotime \<Rightarrow> string \<Rightarrow> LockManager \<Rightarrow> string option" where
  "Lock_FilePath now token m =
     (case locks m token of None \<Rightarrow> None | Some e \<Rightarrow> if lk_expiresAt e < now then None else Some (lk_filePath e))"

definition Heartbeat :: "gotime \<Rightarrow> string \<Rightarrow> LockManager \<Rightarrow> (error + unit) \<times> LockManager" where
  "Heartbeat now token m =
     (case locks m token of
        None \<Rightarrow> (Inl ''editsession: lock expired or not found'', m)
      | Some e \<Rightarrow>
          if lk_expiresAt e < now then (Inl ''editsession: lock expired or not found'', m)
          else (Inr (), m\<lparr>locks := (locks m)(token \<mapsto> e\<lparr>lk_expiresAt := now + lm_ttl m\<rparr>)\<rparr>))"

definition Release :: "string \<Rightarrow> LockManager \<Rightarrow> LockManager" where
  "Release token m = m\<lparr>locks := (locks m)(token := None)\<rparr>"

definition Lock_sweep :: "gotime \<Rightarrow> LockManager \<Rightarrow> LockManager" where
  "Lock_sweep now m = m\<lparr>locks := (\<lambda>token. case locks m token of
      None \<Rightarrow> None | Some e \<Rightarrow> if lk_expiresAt e < now then None else Some e)\<rparr>"

section \<open>The service\<close>

record sessionMeta =
  sm_filePath :: string
  sm_fileHash :: string
  sm_ancestorPkl :: bytes
  sm_lockToken :: string

text \<open>The state of the service with the files it works on and the calls of its commit trigger, when it has one.\<close>

record editService =
  es_locks :: LockManager
  es_sessions :: "(string \<times> sessionMeta) list"
  es_configDir :: string
  es_hasTrigger :: bool
  es_files :: files
  es_triggered :: "string list"

text \<open>What surrounds a call: the time, the faults of the file system and the hash.\<close>

record callEnv =
  cl_now :: gotime
  cl_io :: io
  hashBytes :: "bytes \<Rightarrow> string"

definition resolvePath :: "editService \<Rightarrow> string \<Rightarrow> string" where
  "resolvePath s path = (if isAbs path then path else if es_configDir s = [] then path else Join [es_configDir s, path])"

definition hashOf :: "callEnv \<Rightarrow> bytes option \<Rightarrow> string" where
  "hashOf env data = (case data of None \<Rightarrow> [] | Some d \<Rightarrow> hashBytes env d)"

definition textOf :: "bytes option \<Rightarrow> bytes" where
  "textOf data = (case data of None \<Rightarrow> [] | Some d \<Rightarrow> d)"

text \<open>The id of the session, the lock token, the hash and the text of the file.\<close>

definition OpenForEdit ::
  "callEnv \<Rightarrow> error + string \<Rightarrow> error + string \<Rightarrow> string \<Rightarrow> editService \<Rightarrow> (connect_error + string \<times> string \<times> string \<times> bytes) \<times> editService" where
  "OpenForEdit env newLock newSession path s =
     (if path = [] then (Inl (Connect InvalidArgument ''file_path required''), s)
      else let resolved = resolvePath s path in
      case readFile (cl_io env) (es_files s) resolved of
        Inl e \<Rightarrow> (Inl (Connect Internal e), s)
      | Inr data \<Rightarrow> (case Acquire (cl_now env) newLock resolved (es_locks s) of
          (Inl e, lm) \<Rightarrow> (Inl (Connect Internal e), s\<lparr>es_locks := lm\<rparr>)
        | (Inr token, lm) \<Rightarrow> (case newSession of
            Inl e \<Rightarrow> (Inl (Connect Internal e), s\<lparr>es_locks := Release token lm\<rparr>)
          | Inr sid \<Rightarrow>
              (Inr (sid, token, hashOf env data, textOf data),
               s\<lparr>es_locks := lm, es_sessions := AList.update sid
                 \<lparr>sm_filePath = resolved, sm_fileHash = hashOf env data, sm_ancestorPkl = textOf data, sm_lockToken = token\<rparr> (es_sessions s)\<rparr>))))"

record CommitEditRequest =
  ce_FilePath :: string
  ce_LockToken :: string
  ce_ExpectedFileHash :: string
  ce_RegeneratedPkl :: bytes
  ce_Force :: bool

datatype CommitEditResponse = CommitConflict string bytes bytes | CommitSuccess string

text \<open>
  \<open>CommitEdit\<close> up to its decision: an error, a conflict (the hash and the text on disk, and the text the session began
  with), or the path to write. The session of the token is looked up for its text only.
\<close>

definition commitCheck :: "callEnv \<Rightarrow> CommitEditRequest \<Rightarrow> editService \<Rightarrow> connect_error + (CommitEditResponse + string)" where
  "commitCheck env req s =
     (let path = resolvePath s (ce_FilePath req); (valid, expired) = Lock_Validate (cl_now env) (ce_LockToken req) (es_locks s) in
      if expired then Inl (Connect FailedPrecondition ''LOCK_EXPIRED'')
      else if \<not> valid then Inl (Connect PermissionDenied ''invalid lock token'')
      else case readFile (cl_io env) (es_files s) path of
        Inl e \<Rightarrow> Inl (Connect Internal e)
      | Inr disk \<Rightarrow>
          if \<not> ce_Force req \<and> hashOf env disk \<noteq> ce_ExpectedFileHash req then
            Inr (Inl (CommitConflict (hashOf env disk) (textOf disk)
              (case List.find (\<lambda>(_, m). sm_lockToken m = ce_LockToken req) (es_sessions s) of None \<Rightarrow> [] | Some (_, m) \<Rightarrow> sm_ancestorPkl m)))
          else Inr (Inr path))"

definition triggerReload :: "string \<Rightarrow> editService \<Rightarrow> editService" where
  "triggerReload source s = (if es_hasTrigger s then s\<lparr>es_triggered := es_triggered s @ [source]\<rparr> else s)"

definition commitWrite :: "callEnv \<Rightarrow> CommitEditRequest \<Rightarrow> string \<Rightarrow> editService \<Rightarrow> (connect_error + CommitEditResponse) \<times> editService" where
  "commitWrite env req path s =
     (case (if Dir path \<noteq> [] \<and> Dir path \<noteq> ''.'' then cl_io env MkdirAll (Dir path) else None) of
        Some e \<Rightarrow> (Inl (Connect Internal (''mkdir parent: '' @ e)), s)
      | None \<Rightarrow> (case writeFile (cl_io env) (es_files s) path (ce_RegeneratedPkl req) of
          Inl e \<Rightarrow> (Inl (Connect Internal (''write file: '' @ e)), s)
        | Inr fs \<Rightarrow> (Inr (CommitSuccess (hashBytes env (ce_RegeneratedPkl req))), triggerReload ''form'' (s\<lparr>es_files := fs\<rparr>))))"

definition CommitEdit :: "callEnv \<Rightarrow> CommitEditRequest \<Rightarrow> editService \<Rightarrow> (connect_error + CommitEditResponse) \<times> editService" where
  "CommitEdit env req s =
     (case commitCheck env req s of
        Inl e \<Rightarrow> (Inl e, s)
      | Inr (Inl conflict) \<Rightarrow> (Inr conflict, s)
      | Inr (Inr path) \<Rightarrow> commitWrite env req path s)"

text \<open>The first session of the token goes; tokens are unique.\<close>

fun dropSession :: "string \<Rightarrow> (string \<times> sessionMeta) list \<Rightarrow> (string \<times> sessionMeta) list" where
  "dropSession token [] = []"
| "dropSession token ((sid, m) # rest) = (if sm_lockToken m = token then rest else (sid, m) # dropSession token rest)"

definition AbandonEdit :: "string \<Rightarrow> editService \<Rightarrow> editService" where
  "AbandonEdit token s = s\<lparr>es_locks := Release token (es_locks s), es_sessions := dropSession token (es_sessions s)\<rparr>"

text \<open>The start of \<open>SessionEvents\<close>, and its branch for the ticker, which ignores the error of the heartbeat.\<close>

definition SessionEvents :: "string \<Rightarrow> editService \<Rightarrow> connect_error + sessionMeta" where
  "SessionEvents sid s =
     (if sid = [] then Inl (Connect InvalidArgument ''session_id required'')
      else case map_of (es_sessions s) sid of
        None \<Rightarrow> Inl (Connect NotFound (''session '' @ sid @ '' not found''))
      | Some m \<Rightarrow> Inr m)"

definition heartbeatTick :: "gotime \<Rightarrow> sessionMeta \<Rightarrow> editService \<Rightarrow> editService" where
  "heartbeatTick now m s = s\<lparr>es_locks := snd (Heartbeat now (sm_lockToken m) (es_locks s))\<rparr>"

definition outsideRoot :: "string \<Rightarrow> connect_error" where
  "outsideRoot path = Connect InvalidArgument (''file_path outside config root: '' @ path)"

definition resolveManagedFilePath :: "editService \<Rightarrow> string \<Rightarrow> connect_error + string \<times> string" where
  "resolveManagedFilePath s path =
     (if es_configDir s = [] then Inl (Connect FailedPrecondition ''config_dir not configured'')
      else if path = [] then Inl (Connect InvalidArgument ''file_path required'')
      else case (if isAbs (Clean path) then Rel (es_configDir s) (Clean path) else Some (Clean path)) of
        None \<Rightarrow> Inl (outsideRoot path)
      | Some rel \<Rightarrow>
          if rel = ''.'' \<or> rel = ''..'' \<or> isAbs rel \<or> hasPrefix rel ''../'' then Inl (outsideRoot path)
          else if Ext rel \<noteq> ''.pkl'' \<and> Ext rel \<noteq> ''.star'' then Inl (Connect InvalidArgument (''unsupported file extension: '' @ Ext rel))
          else Inr (Join [es_configDir s, rel], rel))"

definition hasActiveSession :: "string \<Rightarrow> editService \<Rightarrow> bool" where
  "hasActiveSession path s = list_ex (\<lambda>(_, m). sm_filePath m = path) (es_sessions s)"

definition RenameFile :: "callEnv \<Rightarrow> string \<Rightarrow> string \<Rightarrow> editService \<Rightarrow> (connect_error + unit) \<times> editService" where
  "RenameFile env old new s =
     (case resolveManagedFilePath s old of
        Inl e \<Rightarrow> (Inl e, s)
      | Inr (oldPath, _) \<Rightarrow> (case resolveManagedFilePath s new of
          Inl e \<Rightarrow> (Inl e, s)
        | Inr (newPath, _) \<Rightarrow>
            if oldPath = newPath then (Inl (Connect InvalidArgument ''old_file_path and new_file_path must differ''), s)
            else if hasActiveSession oldPath s then (Inl (Connect FailedPrecondition ''file has an active edit session''), s)
            else (case fileExists (cl_io env) (es_files s) oldPath of
                Inl e \<Rightarrow> (Inl (Connect Internal e), s)
              | Inr False \<Rightarrow> (Inl (Connect NotFound (''file not found: '' @ old)), s)
              | Inr True \<Rightarrow> (case fileExists (cl_io env) (es_files s) newPath of
                  Inl e \<Rightarrow> (Inl (Connect Internal e), s)
                | Inr True \<Rightarrow> (Inl (Connect AlreadyExists (''file already exists: '' @ new)), s)
                | Inr False \<Rightarrow> (case cl_io env MkdirAll (Dir newPath) of
                    Some e \<Rightarrow> (Inl (Connect Internal (''mkdir parent: '' @ e)), s)
                  | None \<Rightarrow> (case renameFile (cl_io env) (es_files s) oldPath newPath of
                      Inl e \<Rightarrow> (Inl (Connect Internal (''rename file: '' @ e)), s)
                    | Inr fs \<Rightarrow> (Inr (), triggerReload ''rename'' (s\<lparr>es_files := fs\<rparr>))))))))"

definition DeleteFile :: "callEnv \<Rightarrow> string \<Rightarrow> editService \<Rightarrow> (connect_error + unit) \<times> editService" where
  "DeleteFile env path s =
     (case resolveManagedFilePath s path of
        Inl e \<Rightarrow> (Inl e, s)
      | Inr (p, _) \<Rightarrow>
          if hasActiveSession p s then (Inl (Connect FailedPrecondition ''file has an active edit session''), s)
          else (case removeFile (cl_io env) (es_files s) p of
              Inl e \<Rightarrow> (Inl (Connect Internal (''delete file: '' @ e)), s)
            | Inr (False, _) \<Rightarrow> (Inl (Connect NotFound (''file not found: '' @ path)), s)
            | Inr (True, fs) \<Rightarrow> (Inr (), triggerReload ''delete'' (s\<lparr>es_files := fs\<rparr>))))"

text \<open>\<open>ListFiles\<close>, on what the walk of the root visits: the path, whether it is a directory, and whether it could be read.\<close>

definition hasSuffix :: "string \<Rightarrow> string \<Rightarrow> bool" where
  "hasSuffix s suf \<longleftrightarrow> length suf \<le> length s \<and> drop (length s - length suf) s = suf"

definition lastElem :: "string \<Rightarrow> string" where
  "lastElem p = rev (takeWhile (\<lambda>c. c \<noteq> slash) (rev p))"

definition ListFiles :: "(string \<times> bool \<times> bool) list \<Rightarrow> editService \<Rightarrow> connect_error + string list" where
  "ListFiles walked s =
     (if es_configDir s = [] then Inl (Connect FailedPrecondition ''config_dir not configured'')
      else Inr (List.map_filter (\<lambda>(path, isDir, readable).
          if \<not> readable \<or> isDir \<or> \<not> hasSuffix (lastElem path) ''.pkl'' \<and> \<not> hasSuffix (lastElem path) ''.star'' then None
          else Rel (es_configDir s) path) walked))"

section \<open>What a form can write back\<close>

record FileOnlyRegion =
  fr_StartLine :: nat
  fr_EndLine :: nat
  fr_Reason :: string

fun containsText :: "string \<Rightarrow> string \<Rightarrow> bool" where
  "containsText [] sub \<longleftrightarrow> sub = []"
| "containsText (c # s) sub \<longleftrightarrow> hasPrefix (c # s) sub \<or> containsText s sub"

definition classifyLine :: "string \<Rightarrow> string option" where
  "classifyLine line =
     (if containsText line ''starlark('' then Some ''starlark_call''
      else if hasPrefix line (''import '' @ [CHR 0x22]) \<or> hasPrefix line (''import '' @ [CHR 0x27]) then Some ''import''
      else if hasPrefix line ''local '' \<or> hasPrefix line ''let '' then Some ''let_binding''
      else None)"

text \<open>The lines of \<open>bufio.ScanLines\<close>: a carriage return before the end goes, and there is no empty line after the last one.\<close>

definition scanLines :: "bytes \<Rightarrow> string list" where
  "scanLines data =
     (let ls = splitAll (CHR 0x0A) data; ls' = (if last ls = [] then butlast ls else ls) in
      map (\<lambda>l. if l \<noteq> [] \<and> last l = CHR 0x0D then butlast l else l) ls')"

fun regionsFrom :: "(string \<Rightarrow> string) \<Rightarrow> nat \<Rightarrow> string list \<Rightarrow> FileOnlyRegion list" where
  "regionsFrom trim n [] = []"
| "regionsFrom trim n (line # rest) =
     (let trimmed = trim line in
      (if hasPrefix trimmed ''//'' then []
       else case classifyLine trimmed of
         None \<Rightarrow> []
       | Some reason \<Rightarrow> [\<lparr>fr_StartLine = n, fr_EndLine = n, fr_Reason = reason\<rparr>]) @
      regionsFrom trim (Suc n) rest)"

text \<open>A line of 64 KiB does not fit the buffer of the scanner. \<open>trim\<close> is \<open>strings.TrimSpace\<close>.\<close>

definition AnalyzeFile :: "(string \<Rightarrow> string) \<Rightarrow> bytes \<Rightarrow> error + FileOnlyRegion list" where
  "AnalyzeFile trim data =
     (if list_ex (\<lambda>l. 65536 \<le> length l) (splitAll (CHR 0x0A) data) then Inl ''bufio.Scanner: token too long''
      else Inr (regionsFrom trim 1 (scanLines data)))"

definition AnalyzeRegenerability :: "callEnv \<Rightarrow> (string \<Rightarrow> string) \<Rightarrow> string \<Rightarrow> editService \<Rightarrow> connect_error + FileOnlyRegion list" where
  "AnalyzeRegenerability env trim path s =
     (if path = [] then Inl (Connect InvalidArgument ''file_path required'')
      else let p = resolvePath s path in
      case readFile (cl_io env) (es_files s) p of
        Inl e \<Rightarrow> Inl (Connect Internal e)
      | Inr None \<Rightarrow> Inl (Connect NotFound (''file not found: '' @ p))
      | Inr (Some data) \<Rightarrow> (case AnalyzeFile trim data of Inl e \<Rightarrow> Inl (Connect Internal e) | Inr rs \<Rightarrow> Inr rs))"

section \<open>The file watcher\<close>

record FileEvent =
  fe_Path :: string
  fe_Hash :: string

text \<open>A subscriber with its channel, which holds at most 64 events. A modification time is read along with the hash.\<close>

record watch_sub =
  ws_id :: nat
  ws_path :: string
  ws_ch :: "FileEvent list"

record FileWatcher =
  fw_watched :: "string \<rightharpoonup> string"
  fw_subs :: "watch_sub list"

definition eventChanCapacity :: nat where
  "eventChanCapacity = 64"

text \<open>\<open>statFile\<close> gives the hash of a file, \<open>None\<close> when it cannot be read.\<close>

definition FW_Subscribe :: "(string \<Rightarrow> string option) \<Rightarrow> nat \<Rightarrow> string \<Rightarrow> FileWatcher \<Rightarrow> FileWatcher" where
  "FW_Subscribe statFile sub path w =
     w\<lparr>fw_watched := (if fw_watched w path = None then (case statFile path of None \<Rightarrow> fw_watched w | Some h \<Rightarrow> (fw_watched w)(path \<mapsto> h)) else fw_watched w),
       fw_subs := fw_subs w @ [\<lparr>ws_id = sub, ws_path = path, ws_ch = []\<rparr>]\<rparr>"

definition FW_unsubscribe :: "nat \<Rightarrow> FileWatcher \<Rightarrow> FileWatcher" where
  "FW_unsubscribe sub w = w\<lparr>fw_subs := filter (\<lambda>x. ws_id x \<noteq> sub) (fw_subs w)\<rparr>"

definition offerEvent :: "FileEvent \<Rightarrow> watch_sub \<Rightarrow> watch_sub" where
  "offerEvent e x = (if ws_path x = fe_Path e \<and> length (ws_ch x) < eventChanCapacity then x\<lparr>ws_ch := ws_ch x @ [e]\<rparr> else x)"

definition pollPath :: "(string \<Rightarrow> string option) \<Rightarrow> string \<Rightarrow> FileWatcher \<Rightarrow> FileWatcher" where
  "pollPath statFile path w =
     (case statFile path of
        None \<Rightarrow> w
      | Some h \<Rightarrow>
          if fw_watched w path = Some h then w
          else
            let w' = w\<lparr>fw_watched := (fw_watched w)(path \<mapsto> h)\<rparr> in
            if fw_watched w path = None then w'
            else w'\<lparr>fw_subs := map (offerEvent \<lparr>fe_Path = path, fe_Hash = h\<rparr>) (fw_subs w')\<rparr>)"

definition FW_poll :: "(string \<Rightarrow> string option) \<Rightarrow> FileWatcher \<Rightarrow> FileWatcher" where
  "FW_poll statFile w = fold (pollPath statFile) (remdups (map ws_path (fw_subs w))) w"

section \<open>The life of a lock\<close>

interpretation edit_locks: expiring_table "\<lambda>t m token. Lock_FilePath t token m" putLock Release Lock_sweep lm_ttl "\<lambda>_. True"
  by unfold_locales (auto simp: Lock_FilePath_def putLock_def Release_def Lock_sweep_def split: option.splits)

lemma Heartbeat_put:
  "snd (Heartbeat now token m) = m \<or> (\<exists>path. snd (Heartbeat now token m) = putLock now token path m)"
proof (cases "locks m token")
  case (Some e)
  then show ?thesis by (cases e) (auto simp: Heartbeat_def putLock_def)
qed (simp add: Heartbeat_def)

lemma Lock_Validate_seen:
  "Lock_FilePath t token m = Some path \<Longrightarrow> Lock_Validate t token m = (True, False)"
  "Lock_FilePath t token m = None \<Longrightarrow> fst (Lock_Validate t token m) = False"
  by (auto simp: Lock_Validate_def Lock_FilePath_def split: option.splits if_splits)

lemma service_locks [simp]:
  "es_locks (triggerReload x s) = es_locks s" "es_sessions (triggerReload x s) = es_sessions s"
  "es_configDir (triggerReload x s) = es_configDir s" "es_files (triggerReload x s) = es_files s"
  by (simp_all add: triggerReload_def)

lemma CommitEdit_frame:
  "es_locks (snd (CommitEdit env req s)) = es_locks s" "es_sessions (snd (CommitEdit env req s)) = es_sessions s"
  "es_configDir (snd (CommitEdit env req s)) = es_configDir s"
  by (auto simp: CommitEdit_def commitWrite_def split: sum.splits option.splits)

lemma RenameFile_frame:
  "es_locks (snd (RenameFile env old new s)) = es_locks s" "es_sessions (snd (RenameFile env old new s)) = es_sessions s"
  "es_configDir (snd (RenameFile env old new s)) = es_configDir s"
  by (auto simp: RenameFile_def split: sum.splits option.splits prod.splits bool.splits)

lemma DeleteFile_frame:
  "es_locks (snd (DeleteFile env path s)) = es_locks s" "es_sessions (snd (DeleteFile env path s)) = es_sessions s"
  "es_configDir (snd (DeleteFile env path s)) = es_configDir s"
  by (auto simp: DeleteFile_def split: sum.splits option.splits prod.splits bool.splits)

lemmas handler_frames = CommitEdit_frame RenameFile_frame DeleteFile_frame

text \<open>
  The service runs on with other calls: nobody abandons the session of the token or sends its heartbeat, and new tokens
  and session ids are fresh. Files also change behind the back of the service.
\<close>

inductive runsOn :: "string \<Rightarrow> gotime \<Rightarrow> editService \<Rightarrow> gotime \<Rightarrow> editService \<Rightarrow> bool" for token t0 s0 where
  runs_start: "runsOn token t0 s0 t0 s0"
| runs_wait: "runsOn token t0 s0 t s \<Longrightarrow> t \<le> t' \<Longrightarrow> runsOn token t0 s0 t' s"
| runs_open: "runsOn token t0 s0 t s \<Longrightarrow> cl_now env = t \<Longrightarrow> newLock \<noteq> Inr token \<Longrightarrow>
    (\<forall>sid. newSession = Inr sid \<longrightarrow> map_of (es_sessions s) sid = None) \<Longrightarrow>
    runsOn token t0 s0 t (snd (OpenForEdit env newLock newSession path s))"
| runs_commit: "runsOn token t0 s0 t s \<Longrightarrow> cl_now env = t \<Longrightarrow> runsOn token t0 s0 t (snd (CommitEdit env req s))"
| runs_abandon: "runsOn token t0 s0 t s \<Longrightarrow> token' \<noteq> token \<Longrightarrow> runsOn token t0 s0 t (AbandonEdit token' s)"
| runs_heartbeat: "runsOn token t0 s0 t s \<Longrightarrow> sm_lockToken m \<noteq> token \<Longrightarrow> runsOn token t0 s0 t (heartbeatTick t m s)"
| runs_sweep: "runsOn token t0 s0 t s \<Longrightarrow> runsOn token t0 s0 t (s\<lparr>es_locks := Lock_sweep t (es_locks s)\<rparr>)"
| runs_rename: "runsOn token t0 s0 t s \<Longrightarrow> runsOn token t0 s0 t (snd (RenameFile env old new s))"
| runs_delete: "runsOn token t0 s0 t s \<Longrightarrow> runsOn token t0 s0 t (snd (DeleteFile env path s))"
| runs_edit: "runsOn token t0 s0 t s \<Longrightarrow> runsOn token t0 s0 t (s\<lparr>es_files := fs\<rparr>)"

lemma OpenForEdit_locks:
  "cl_now env = t \<Longrightarrow> newLock \<noteq> Inr token \<Longrightarrow> edit_locks.after t0 token m t (es_locks s) \<Longrightarrow>
     edit_locks.after t0 token m t (es_locks (snd (OpenForEdit env newLock newSession path s)))"
  by (auto simp: OpenForEdit_def Acquire_def Let_def split: sum.splits intro!: edit_locks.other edit_locks.removed)

lemma runsOn_locks: "runsOn token t0 s0 t s \<Longrightarrow> edit_locks.after t0 token (es_locks s0) t (es_locks s)"
proof (induction rule: runsOn.induct)
  case (runs_heartbeat t s m)
  then show ?case using Heartbeat_put [of t "sm_lockToken m" "es_locks s"]
    by (auto simp: heartbeatTick_def intro: edit_locks.other)
qed (auto simp: handler_frames AbandonEdit_def OpenForEdit_locks intro: edit_locks.after.intros)

lemma dropSession_other: "sm_lockToken m \<noteq> token \<Longrightarrow> (sid, m) \<in> set xs \<Longrightarrow> (sid, m) \<in> set (dropSession token xs)"
  by (induction token xs rule: dropSession.induct) auto

lemma update_keeps: "map_of xs k' = None \<Longrightarrow> (k, v) \<in> set xs \<Longrightarrow> (k, v) \<in> set (AList.update k' v' xs)"
  by (induction xs) (auto split: if_splits)

lemma OpenForEdit_sessions:
  "(sid, m) \<in> set (es_sessions s) \<Longrightarrow> (\<forall>sid. newSession = Inr sid \<longrightarrow> map_of (es_sessions s) sid = None) \<Longrightarrow>
     (sid, m) \<in> set (es_sessions (snd (OpenForEdit env newLock newSession path s)))"
  by (auto simp: OpenForEdit_def Let_def update_keeps split: sum.splits prod.splits)

lemma OpenForEdit_configDir: "es_configDir (snd (OpenForEdit env newLock newSession path s)) = es_configDir s"
  by (auto simp: OpenForEdit_def Let_def split: sum.splits prod.splits)

lemma runsOn_session:
  "runsOn token t0 s0 t s \<Longrightarrow> (sid, m) \<in> set (es_sessions s0) \<Longrightarrow> sm_lockToken m = token \<Longrightarrow>
     (sid, m) \<in> set (es_sessions s) \<and> es_configDir s = es_configDir s0"
  by (induction rule: runsOn.induct)
    (auto simp: handler_frames AbandonEdit_def heartbeatTick_def OpenForEdit_configDir intro: dropSession_other OpenForEdit_sessions)


section \<open>Which files change\<close>

text \<open>Strictly inside a directory, with one of the two extensions.\<close>

definition managedUnder :: "string \<Rightarrow> string \<Rightarrow> bool" where
  "managedUnder root p \<longleftrightarrow> isAbs p \<and> (\<exists>cs. cs \<noteq> [] \<and> ''..'' \<notin> set cs \<and> elems p = elems root @ cs)"

lemma elems_abs: "isAbs p \<Longrightarrow> ''..'' \<notin> set (elems p)"
  using elems_normal [of p] by (auto simp: normal_def)

lemma guarded_Inr: "(if a then Inl x else if b then Inl y else Inr z) = Inr w \<longleftrightarrow> \<not> a \<and> \<not> b \<and> z = w"
  by simp

lemma resolveManaged_inside:
  assumes "resolveManagedFilePath s path = Inr (p, rel)" "isAbs (es_configDir s)"
  shows "managedUnder (es_configDir s) p" "p = Join [es_configDir s, rel]" "Ext rel = ''.pkl'' \<or> Ext rel = ''.star''"
proof -
  define opt where "opt = (if isAbs (Clean path) then Rel (es_configDir s) (Clean path) else Some (Clean path))"
  from assms(1) have ne: "es_configDir s \<noteq> []" "path \<noteq> []" by (auto simp: resolveManagedFilePath_def split: if_splits)
  from assms(1) have a: "(case opt of None \<Rightarrow> Inl (outsideRoot path) | Some rel \<Rightarrow>
      if rel = ''.'' \<or> rel = ''..'' \<or> isAbs rel \<or> hasPrefix rel ''../'' then Inl (outsideRoot path)
      else if Ext rel \<noteq> ''.pkl'' \<and> Ext rel \<noteq> ''.star'' then Inl (Connect InvalidArgument (''unsupported file extension: '' @ Ext rel))
      else Inr (Join [es_configDir s, rel], rel)) = Inr (p, rel)"
    unfolding resolveManagedFilePath_def opt_def [symmetric] using ne by simp
  then obtain rel' where opt: "opt = Some rel'" by (cases opt) simp_all
  have a': "rel' \<noteq> ''.'' \<and> \<not> leadsUp rel' \<and> \<not> isAbs rel' \<and> (Ext rel' = ''.pkl'' \<or> Ext rel' = ''.star'') \<and>
      p = Join [es_configDir s, rel'] \<and> rel = rel'"
    using a unfolding opt option.case guarded_Inr leadsUp_def by blast
  then have up: "rel' \<noteq> ''.''" "\<not> leadsUp rel'" "\<not> isAbs rel'" and p: "p = Join [es_configDir s, rel']" "rel = rel'"
    and ext: "Ext rel = ''.pkl'' \<or> Ext rel = ''.star''"
    by blast+
  note r = opt [unfolded opt_def]
  show "p = Join [es_configDir s, rel]" "Ext rel = ''.pkl'' \<or> Ext rel = ''.star''" using p ext by simp_all
  have "\<exists>cs. rel' = joinWith ''/'' cs \<and> cs \<noteq> [] \<and> ''..'' \<notin> set cs \<and> normal True cs"
  proof (cases "isAbs (Clean path)")
    case True
    with r Rel_forward [of "es_configDir s" "Clean path" rel'] assms(2) up obtain cs where
      cs: "rel' = joinWith ''/'' cs" "elems (Clean path) = elems (es_configDir s) @ cs" "cs \<noteq> []" by auto
    moreover from cs(2) elems_abs [OF True] have "''..'' \<notin> set cs" by auto
    moreover from this cs(2) elems_normal [of "Clean path"] have "normal True cs" by (metis normal_suffix)
    ultimately show ?thesis by blast
  next
    case False
    with r have rel': "rel' = Clean path" and rn: "\<not> isAbs path" by auto
    note f = Clean_forward [OF rn, folded rel', OF up(1,2)]
    moreover from elems_normal [of path] f(2) have "normal True (elems path)" 
      using normal_suffix [of "isAbs path" "[]" "elems path" True] by simp
    ultimately show ?thesis by blast
  qed
  then obtain cs where cs: "rel' = joinWith ''/'' cs" "cs \<noteq> []" "''..'' \<notin> set cs" "normal True cs" by blast
  from elems_Join [OF ne(1) cs(4,3,2)] assms(2) cs p show "managedUnder (es_configDir s) p"
    unfolding managedUnder_def by auto
qed


section \<open>Commits\<close>

definition calm :: "callEnv \<Rightarrow> bool" where
  "calm env \<longleftrightarrow> cl_io env = noFaults"

text \<open>Different contents have different hashes, and no content has the hash of a missing file.\<close>

definition collisionFree :: "callEnv \<Rightarrow> bytes option set \<Rightarrow> bool" where
  "collisionFree env ds \<longleftrightarrow> inj_on (hashOf env) ds"

text \<open>
  One commit after the other, the first wins. A commit with the hash that \<open>OpenForEdit\<close> returned, while its lock is
  valid, succeeds exactly when the file still has the content it had then, or again, or is still missing; it then has the new
  content and no other file changes. Otherwise the client gets the content on disk and nothing changes.
\<close>

theorem commit_first_wins:
  assumes "OpenForEdit env newLock newSession path s = (Inr (sid, token, hash, ancestor), s0)"
    and "calm env'" "hashBytes env' = hashBytes env" "es_configDir s1 = es_configDir s"
    and "Lock_FilePath (cl_now env') (ce_LockToken req) (es_locks s1) \<noteq> None"
    and "ce_FilePath req = path" "ce_ExpectedFileHash req = hash" "\<not> ce_Force req"
    and "p = Clean (resolvePath s path)" "collisionFree env {es_files s p, es_files s1 p}"
  shows "if es_files s1 p = es_files s p
    then CommitEdit env' req s1 = (Inr (CommitSuccess (hashBytes env (ce_RegeneratedPkl req))),
      triggerReload ''form'' (s1\<lparr>es_files := (es_files s1)(p \<mapsto> ce_RegeneratedPkl req)\<rparr>))
    else \<exists>anc. CommitEdit env' req s1 = (Inr (CommitConflict (hashOf env (es_files s1 p)) (textOf (es_files s1 p)) anc), s1)"
proof -
  from assms(1) have hash: "hash = hashOf env (es_files s p)"
    by (auto simp: OpenForEdit_def readFile_def Let_def assms(9) split: if_splits sum.splits option.splits prod.splits)
  from assms(5) have v: "Lock_Validate (cl_now env') (ce_LockToken req) (es_locks s1) = (True, False)"
    by (auto intro: Lock_Validate_seen)
  have h: "hashOf env' d = hashOf env d" for d using assms(3) by (simp add: hashOf_def split: option.split)
  have path: "resolvePath s1 path = resolvePath s path" by (simp add: resolvePath_def assms(4))
  have eq: "hashOf env (es_files s1 p) = hash \<longleftrightarrow> es_files s1 p = es_files s p"
    using assms(10) hash by (auto simp: collisionFree_def)
  show ?thesis
    using eq assms(2,6-8) by (auto simp: CommitEdit_def commitCheck_def commitWrite_def writeFile_def readFile_def v path h calm_def noFaults_def
      Let_def assms(3) assms(9) [symmetric])
qed

text \<open>
  Two commits at the same time: when both have read the file before either writes it, both succeed and the content of
  the first is lost, although the service promises that the first to commit wins.
\<close>

theorem commits_race:
  assumes "commitCheck env1 req1 s = Inr (Inr path)" "commitCheck env2 req2 s = Inr (Inr path)" "calm env1" "calm env2"
  shows "\<exists>h1 h2 s1 s2. commitWrite env1 req1 path s = (Inr (CommitSuccess h1), s1) \<and>
    commitWrite env2 req2 path s1 = (Inr (CommitSuccess h2), s2) \<and>
    es_files s2 = (es_files s)(Clean path \<mapsto> ce_RegeneratedPkl req2)"
  using assms(3,4) by (simp add: commitWrite_def writeFile_def calm_def noFaults_def)

text \<open>
  \<open>CommitEdit\<close> writes wherever it is told to: with any valid lock token, for whatever file it was acquired, a
  forced commit overwrites the file at every absolute path, inside the configuration root or not.
\<close>

theorem commit_reaches_everything:
  assumes "Lock_FilePath (cl_now env) token (es_locks s) = Some lockedFile" "isAbs path" "calm env"
  shows "es_files (snd (CommitEdit env \<lparr>ce_FilePath = path, ce_LockToken = token, ce_ExpectedFileHash = h, ce_RegeneratedPkl = body, ce_Force = True\<rparr> s)) =
    (es_files s)(Clean path \<mapsto> body)"
  using assms Lock_Validate_seen(1) [OF assms(1)]
  by (simp add: CommitEdit_def commitCheck_def commitWrite_def writeFile_def readFile_def calm_def noFaults_def resolvePath_def)

section \<open>Two editors\<close>

definition editHome :: editService where
  "editHome = \<lparr>es_locks = NewLockManager, es_sessions = [], es_configDir = ''/cfg'', es_hasTrigger = True,
     es_files = [''/cfg/a.pkl'' \<mapsto> ''x''], es_triggered = []\<rparr>"

definition editCall :: "gotime \<Rightarrow> callEnv" where
  "editCall t = \<lparr>cl_now = t, cl_io = noFaults, hashBytes = (\<lambda>b. CHR ''h'' # b)\<rparr>"

definition editCommit :: "string \<Rightarrow> bytes \<Rightarrow> CommitEditRequest" where
  "editCommit token text = \<lparr>ce_FilePath = ''a.pkl'', ce_LockToken = token, ce_ExpectedFileHash = ''hx'', ce_RegeneratedPkl = text, ce_Force = False\<rparr>"

lemma edit_paths:
  "Clean ''/cfg/a.pkl'' = ''/cfg/a.pkl''" "Join [''/cfg'', ''a.pkl''] = ''/cfg/a.pkl''" "isAbs ''/cfg''" "isAbs ''/cfg/a.pkl''" "\<not> isAbs ''a.pkl''"
  "Dir ''/cfg/a.pkl'' = ''/cfg''" "Clean ''a.pkl'' = ''a.pkl''" "Ext ''a.pkl'' = ''.pkl''"
  by code_simp+

definition editOpened :: editService where
  "editOpened = snd (OpenForEdit (editCall 0) (Inr ''t1'') (Inr ''s1'') ''a.pkl'' editHome)"

lemma edit_open: "OpenForEdit (editCall 0) (Inr ''t1'') (Inr ''s1'') ''a.pkl'' editHome = (Inr (''s1'', ''t1'', ''hx'', ''x''), editOpened)"
  by (simp add: editOpened_def OpenForEdit_def editHome_def editCall_def resolvePath_def readFile_def noFaults_def edit_paths Acquire_def hashOf_def textOf_def Let_def)

lemma editOpened_sel:
  "es_files editOpened = es_files editHome" "es_configDir editOpened = ''/cfg''"
  "es_locks editOpened = putLock 0 ''t1'' ''/cfg/a.pkl'' NewLockManager"
  "es_sessions editOpened = [(''s1'', \<lparr>sm_filePath = ''/cfg/a.pkl'', sm_fileHash = ''hx'', sm_ancestorPkl = ''x'', sm_lockToken = ''t1''\<rparr>)]"
  by (simp_all add: editOpened_def OpenForEdit_def editHome_def editCall_def resolvePath_def readFile_def noFaults_def edit_paths Acquire_def hashOf_def textOf_def Let_def)

lemma edit_managed: "es_configDir s = ''/cfg'' \<Longrightarrow> resolveManagedFilePath s ''a.pkl'' = Inr (''/cfg/a.pkl'', ''a.pkl'')"
  by (simp add: resolveManagedFilePath_def edit_paths hasPrefix_def)



theorem commit_first_wins_witness:
  "fst (CommitEdit (editCall 1) (editCommit ''t1'' ''y'') (editOpened\<lparr>es_files := [''/cfg/a.pkl'' \<mapsto> ''z'']\<rparr>)) \<noteq> Inr (CommitSuccess ''hy'')"
proof -
  let ?s = "editOpened\<lparr>es_files := [''/cfg/a.pkl'' \<mapsto> ''z'']\<rparr>"
  have l: "Lock_FilePath (cl_now (editCall 1)) (ce_LockToken (editCommit ''t1'' ''y'')) (es_locks ?s) \<noteq> None"
    by (simp add: editOpened_sel Lock_FilePath_def putLock_def editCall_def editCommit_def NewLockManager_def defaultLockTTL_def)
  have c: "collisionFree (editCall 0) {es_files editHome ''/cfg/a.pkl'', es_files ?s ''/cfg/a.pkl''}"
    by (simp add: collisionFree_def editHome_def editCall_def hashOf_def)
  have p: "''/cfg/a.pkl'' = Clean (resolvePath editHome ''a.pkl'')" "es_configDir ?s = es_configDir editHome"
    by (simp_all add: editHome_def resolvePath_def edit_paths editOpened_sel)
  have e: "calm (editCall 1)" "hashBytes (editCall 1) = hashBytes (editCall 0)" "ce_FilePath (editCommit ''t1'' ''y'') = ''a.pkl''"
    "ce_ExpectedFileHash (editCommit ''t1'' ''y'') = ''hx''" "\<not> ce_Force (editCommit ''t1'' ''y'')"
    by (simp_all add: calm_def editCall_def editCommit_def)
  have ne: "es_files ?s ''/cfg/a.pkl'' \<noteq> es_files editHome ''/cfg/a.pkl''" by (simp add: editHome_def)
  from commit_first_wins [OF edit_open e(1,2) p(2) l e(3-5) p(1) c, unfolded if_not_P [OF ne]] show ?thesis by auto
qed

theorem commits_race_witness:
  "es_files (snd (commitWrite (editCall 1) (editCommit ''t1'' ''z'') ''/cfg/a.pkl''
     (snd (commitWrite (editCall 1) (editCommit ''t1'' ''y'') ''/cfg/a.pkl'' editOpened)))) ''/cfg/a.pkl'' = Some ''z''"
proof -
  have "commitCheck (editCall 1) (editCommit ''t1'' body) editOpened = Inr (Inr ''/cfg/a.pkl'')" for body
    by (simp add: commitCheck_def editOpened_sel editHome_def Lock_Validate_def putLock_def editCall_def editCommit_def NewLockManager_def
      defaultLockTTL_def resolvePath_def edit_paths readFile_def noFaults_def hashOf_def Let_def)
  with commits_race [of "editCall 1" "editCommit ''t1'' ''y''" editOpened "''/cfg/a.pkl''" "editCall 1" "editCommit ''t1'' ''z''"]
  show ?thesis by (auto simp: calm_def editCall_def edit_paths editCommit_def)
qed

theorem commit_reaches_everything_witness:
  "es_files (snd (CommitEdit (editCall 1) \<lparr>ce_FilePath = ''/etc/passwd'', ce_LockToken = ''t1'', ce_ExpectedFileHash = [], ce_RegeneratedPkl = ''y'', ce_Force = True\<rparr>
     editOpened)) ''/etc/passwd'' = Some ''y''"
proof -
  have "Lock_FilePath (cl_now (editCall 1)) ''t1'' (es_locks editOpened) = Some ''/cfg/a.pkl''"
    by (simp add: editOpened_sel Lock_FilePath_def putLock_def editCall_def NewLockManager_def defaultLockTTL_def)
  moreover have "isAbs ''/etc/passwd''" "Clean ''/etc/passwd'' = ''/etc/passwd''" by code_simp+
  ultimately show ?thesis
    using commit_reaches_everything [of "editCall 1" "''t1''" editOpened "''/cfg/a.pkl''" "''/etc/passwd''" "[]" "''y''"]
    by (simp add: calm_def editCall_def)
qed

end
