(* ===== verification/Config_Reload.thy ===== *)
theory Config_Reload
  imports Config_Manager Edit_Session "HOL-Library.Sublist"
begin

text \<open>
  How changes of the configuration reach the daemon, \<^verbatim>\<open>internal/config\<close>: the debouncing reloader (\<^verbatim>\<open>reloader.go\<close>), the fan-out of
  change events (\<^verbatim>\<open>pubsub.go\<close>) and the polling watcher (\<^verbatim>\<open>watcher.go\<close>), as the daemon wires them.
\<close>

section \<open>The reloader\<close>

text \<open>
  The goroutine waits for the signal, sleeps for the debounce time, drains the signal, takes the pending sources and
  applies. A call of \<open>Trigger\<close> is two steps: it appends its source under the mutex and then sets the signal, which has room for
  one. \<open>rl_inflight\<close> counts the calls between the two; \<open>rl_triggered\<close> and \<open>rl_batches\<close> record what was appended and taken.
\<close>

datatype reload_pc = Waiting | Debouncing | Draining | Taking | Applying "string list" | Ended

record 'w reloader =
  rl_pending :: "string list"
  rl_lastErr :: string
  rl_signal :: bool
  rl_pc :: reload_pc
  rl_inflight :: nat
  rl_world :: 'w
  rl_triggered :: "string list"
  rl_batches :: "string list list"
  rl_calls :: "(string \<times> (error + unit)) list"

definition NewReloader :: "'w \<Rightarrow> 'w reloader" where
  "NewReloader w = \<lparr>rl_pending = [], rl_lastErr = [], rl_signal = False, rl_pc = Waiting, rl_inflight = 0, rl_world = w,
     rl_triggered = [], rl_batches = [], rl_calls = []\<rparr>"

definition triggerAppend :: "string \<Rightarrow> 'w reloader \<Rightarrow> 'w reloader" where
  "triggerAppend source r = r\<lparr>rl_pending := rl_pending r @ [source], rl_triggered := rl_triggered r @ [source], rl_inflight := Suc (rl_inflight r)\<rparr>"

definition triggerSignal :: "'w reloader \<Rightarrow> 'w reloader" where
  "triggerSignal r = r\<lparr>rl_signal := True, rl_inflight := rl_inflight r - 1\<rparr>"

definition firstSource :: "string list \<Rightarrow> string" where
  "firstSource sources = (case sources of [] \<Rightarrow> ''unknown'' | s # _ \<Rightarrow> s)"

text \<open>One step of \<open>loop\<close>; \<open>None\<close> while it is blocked on the signal, and after its end.\<close>

definition loopStep :: "(string \<Rightarrow> 'w \<Rightarrow> (error + unit) \<times> 'w) \<Rightarrow> 'w reloader \<Rightarrow> 'w reloader option" where
  "loopStep app r =
     (case rl_pc r of
        Waiting \<Rightarrow> if rl_signal r then Some (r\<lparr>rl_signal := False, rl_pc := Debouncing\<rparr>) else None
      | Debouncing \<Rightarrow> Some (r\<lparr>rl_pc := Draining\<rparr>)
      | Draining \<Rightarrow> Some (r\<lparr>rl_signal := False, rl_pc := Taking\<rparr>)
      | Taking \<Rightarrow> Some (r\<lparr>rl_pending := [], rl_batches := rl_batches r @ [rl_pending r], rl_pc := Applying (rl_pending r)\<rparr>)
      | Applying sources \<Rightarrow>
          (let source = firstSource sources; (res, w) = app source (rl_world r) in
           Some (r\<lparr>rl_world := w, rl_lastErr := (case res of Inl e \<Rightarrow> e | Inr _ \<Rightarrow> []), rl_calls := rl_calls r @ [(source, res)], rl_pc := Waiting\<rparr>))
      | Ended \<Rightarrow> None)"

text \<open>The context ends: the goroutine notices it while it waits for the signal or for the timer.\<close>

definition endLoop :: "'w reloader \<Rightarrow> 'w reloader" where
  "endLoop r = (if rl_pc r = Waiting \<or> rl_pc r = Debouncing then r\<lparr>rl_pc := Ended\<rparr> else r)"

text \<open>Every interleaving of callers, goroutine and the end of the context.\<close>

inductive reloads :: "(string \<Rightarrow> 'w \<Rightarrow> (error + unit) \<times> 'w) \<Rightarrow> 'w \<Rightarrow> 'w reloader \<Rightarrow> bool" for app w where
  reloads_new: "reloads app w (NewReloader w)"
| reloads_append: "reloads app w r \<Longrightarrow> reloads app w (triggerAppend source r)"
| reloads_signal: "reloads app w r \<Longrightarrow> 0 < rl_inflight r \<Longrightarrow> reloads app w (triggerSignal r)"
| reloads_loop: "reloads app w r \<Longrightarrow> loopStep app r = Some r' \<Longrightarrow> reloads app w r'"
| reloads_end: "reloads app w r \<Longrightarrow> reloads app w (endLoop r)"

definition reloadInv :: "'w reloader \<Rightarrow> bool" where
  "reloadInv r \<longleftrightarrow> concat (rl_batches r) @ rl_pending r = rl_triggered r \<and>
     (rl_pending r \<noteq> [] \<longrightarrow> rl_signal r \<or> 0 < rl_inflight r \<or> rl_pc r \<in> {Debouncing, Draining, Taking, Ended}) \<and>
     map fst (rl_calls r) = map firstSource (case rl_pc r of Applying b \<Rightarrow> butlast (rl_batches r) | _ \<Rightarrow> rl_batches r) \<and>
     (\<forall>b. rl_pc r = Applying b \<longrightarrow> rl_batches r \<noteq> [] \<and> last (rl_batches r) = b)"

lemma reloads_inv: "reloads app w r \<Longrightarrow> reloadInv r"
proof (induction rule: reloads.induct)
  case (reloads_loop r r')
  show ?case
  proof (cases "rl_pc r")
    case (Applying b)
    with reloads_loop(3) have inv: "concat (rl_batches r) @ rl_pending r = rl_triggered r" "rl_batches r = butlast (rl_batches r) @ [b]"
        "map fst (rl_calls r) = map firstSource (butlast (rl_batches r))" "rl_pending r \<noteq> [] \<longrightarrow> rl_signal r \<or> 0 < rl_inflight r"
      by (auto simp: reloadInv_def)
    obtain res w' where a: "app (firstSource b) (rl_world r) = (res, w')" by fastforce
    from inv(2,3) have "map fst (rl_calls r) @ [firstSource b] = map firstSource (rl_batches r)" by (metis list.simps(8,9) map_append)
    with inv(1,4) Applying a reloads_loop(2) show ?thesis by (auto simp: loopStep_def reloadInv_def)
  qed (use reloads_loop in \<open>auto simp: loopStep_def reloadInv_def split: if_splits\<close>)
qed (auto simp: NewReloader_def triggerAppend_def triggerSignal_def endLoop_def reloadInv_def split: reload_pc.splits)

fun runLoop :: "(string \<Rightarrow> 'w \<Rightarrow> (error + unit) \<times> 'w) \<Rightarrow> nat \<Rightarrow> 'w reloader \<Rightarrow> 'w reloader" where
  "runLoop app 0 r = r"
| "runLoop app (Suc n) r = (case loopStep app r of None \<Rightarrow> r | Some r' \<Rightarrow> runLoop app n r')"

text \<open>How many steps of the goroutine are left until it waits with nothing to do.\<close>

definition rank :: "'w reloader \<Rightarrow> nat" where
  "rank r = (case rl_pc r of
      Waiting \<Rightarrow> if rl_signal r then 5 else 0
    | Applying _ \<Rightarrow> if rl_signal r then 6 else 1
    | Taking \<Rightarrow> if rl_signal r then 7 else 2
    | Draining \<Rightarrow> 3 | Debouncing \<Rightarrow> 4 | Ended \<Rightarrow> 0)"

lemma loopStep_rank:
  "loopStep app r = Some r' \<Longrightarrow> rank r' < rank r \<and> rl_inflight r' = rl_inflight r \<and> rl_triggered r' = rl_triggered r \<and> rl_pc r' \<noteq> Ended"
  by (auto simp: loopStep_def rank_def Let_def split: reload_pc.splits if_splits prod.splits)

lemma runLoop_rests:
  "reloads app w r \<Longrightarrow> rl_pc r \<noteq> Ended \<Longrightarrow> rank r \<le> n \<Longrightarrow>
     reloads app w (runLoop app n r) \<and> rl_pc (runLoop app n r) = Waiting \<and> \<not> rl_signal (runLoop app n r) \<and>
     rl_inflight (runLoop app n r) = rl_inflight r \<and> rl_triggered (runLoop app n r) = rl_triggered r"
proof (induction n arbitrary: r)
  case 0
  then show ?case by (auto simp: rank_def split: reload_pc.splits if_splits)
next
  case (Suc n)
  show ?case
  proof (cases "loopStep app r")
    case None
    with Suc.prems show ?thesis by (auto simp: loopStep_def Let_def split: reload_pc.splits if_splits prod.splits)
  next
    case (Some r')
    from loopStep_rank [OF Some] Suc.prems(3) have le: "rank r' \<le> n" and k: "rl_inflight r' = rl_inflight r" "rl_triggered r' = rl_triggered r" "rl_pc r' \<noteq> Ended"
      by auto
    from Suc.IH [OF reloads_loop [OF Suc.prems(1) Some] k(3) le] Some k show ?thesis by simp
  qed
qed

text \<open>
  C33. The reloader loses no trigger. Under every interleaving of callers and its goroutine, once no call of \<open>Trigger\<close> is
  in flight and the context is alive, the goroutine comes to rest within seven steps; then every source that was triggered
  belongs to exactly one batch, in order, and \<open>Apply\<close> was called once for each batch, after the batch was taken, with its first
  source (or \<open>unknown\<close> for an empty one).
\<close>

theorem reloader_covers_triggers:
  assumes "reloads app w r" "rl_inflight r = 0" "rl_pc r \<noteq> Ended"
  shows "rl_pc (runLoop app 7 r) = Waiting \<and> \<not> rl_signal (runLoop app 7 r) \<and> rl_pending (runLoop app 7 r) = [] \<and>
    concat (rl_batches (runLoop app 7 r)) = rl_triggered r \<and>
    map fst (rl_calls (runLoop app 7 r)) = map firstSource (rl_batches (runLoop app 7 r))"
proof -
  have "rank r \<le> 7" by (simp add: rank_def split: reload_pc.split)
  from runLoop_rests [OF assms(1,3) this] have rest: "reloads app w (runLoop app 7 r)" "rl_pc (runLoop app 7 r) = Waiting"
      "\<not> rl_signal (runLoop app 7 r)" "rl_inflight (runLoop app 7 r) = 0" "rl_triggered (runLoop app 7 r) = rl_triggered r"
    using assms(2) by auto
  with reloads_inv [OF rest(1)] show ?thesis by (auto simp: reloadInv_def)
qed

section \<open>The reloader of the daemon\<close>

text \<open>\<open>managerReloaderApplier.Apply\<close> ignores the source.\<close>

definition managerReloaderApply :: "'s configEnv \<Rightarrow> string \<Rightarrow> 's world \<Rightarrow> (error + unit) \<times> 's world" where
  "managerReloaderApply env source w = Manager_Apply env False ''config(repo): reload configuration'' w"

theorem reloader_covers_triggers_witness:
  "concat (rl_batches (runLoop (managerReloaderApply (homeEnv [hueInstance ''+''])) 7
     (triggerSignal (triggerAppend ''watcher'' (NewReloader homeStart))))) = [''watcher'']"
proof -
  let ?r = "triggerSignal (triggerAppend ''watcher'' (NewReloader homeStart))"
  let ?app = "managerReloaderApply (homeEnv [hueInstance ''+''])"
  have "reloads ?app homeStart (triggerAppend ''watcher'' (NewReloader homeStart))"
    by (rule reloads_append [OF reloads_new])
  then have "reloads ?app homeStart ?r" by (rule reloads_signal) (simp add: triggerAppend_def)
  moreover have "rl_inflight ?r = 0" "rl_pc ?r \<noteq> Ended" "rl_triggered ?r = [''watcher'']"
    by (simp_all add: triggerSignal_def triggerAppend_def NewReloader_def)
  ultimately show ?thesis using reloader_covers_triggers [of ?app homeStart ?r] by simp
qed

section \<open>Fan-out of change events\<close>

text \<open>
  One subscriber of the broker and the publisher's loop for it: the publisher tries to send; when the buffer is full it
  receives the oldest event to make room and tries again, and gives up when there is none. The subscriber receives at any time.
\<close>

datatype 'e pub_pc = Idle | TrySend 'e | DropOldest 'e

record 'e subscription =
  su_buf :: "'e list"
  su_pub :: "'e pub_pc"
  su_published :: "'e list"
  su_received :: "'e list"

definition Config_Subscribe :: "'e subscription" where
  "Config_Subscribe = \<lparr>su_buf = [], su_pub = Idle, su_published = [], su_received = []\<rparr>"

definition bufSizeOf :: "int \<Rightarrow> nat" where
  "bufSizeOf bufSize = (if bufSize \<le> 0 then 16 else nat bufSize)"

definition publishStep :: "nat \<Rightarrow> 'e subscription \<Rightarrow> 'e subscription" where
  "publishStep cap u =
     (case su_pub u of
        Idle \<Rightarrow> u
      | TrySend e \<Rightarrow>
          if length (su_buf u) < cap then u\<lparr>su_buf := su_buf u @ [e], su_pub := Idle\<rparr> else u\<lparr>su_pub := DropOldest e\<rparr>
      | DropOldest e \<Rightarrow> (case su_buf u of [] \<Rightarrow> u\<lparr>su_pub := Idle\<rparr> | _ # rest \<Rightarrow> u\<lparr>su_buf := rest, su_pub := TrySend e\<rparr>))"

inductive fanout :: "nat \<Rightarrow> 'e subscription \<Rightarrow> bool" for cap where
  fanout_subscribe: "fanout cap Config_Subscribe"
| fanout_publish: "fanout cap u \<Longrightarrow> su_pub u = Idle \<Longrightarrow> fanout cap (u\<lparr>su_pub := TrySend e, su_published := su_published u @ [e]\<rparr>)"
| fanout_step: "fanout cap u \<Longrightarrow> fanout cap (publishStep cap u)"
| fanout_receive: "fanout cap u \<Longrightarrow> su_buf u = e # rest \<Longrightarrow> fanout cap (u\<lparr>su_buf := rest, su_received := su_received u @ [e]\<rparr>)"

definition inPublication :: "'e subscription \<Rightarrow> 'e list" where
  "inPublication u = (case su_pub u of Idle \<Rightarrow> [] | TrySend e \<Rightarrow> [e] | DropOldest e \<Rightarrow> [e])"

lemma subseq_front: "subseq (xs @ ys) zs \<Longrightarrow> subseq xs zs"
  by (rule subseq_order.trans [of xs "xs @ ys"]) (auto intro: list_emb_prefix)

lemma fanout_inv: "fanout cap u \<Longrightarrow> length (su_buf u) \<le> cap \<and> subseq (su_received u @ su_buf u @ inPublication u) (su_published u)"
proof (induction rule: fanout.induct)
  case (fanout_publish u e)
  then show ?case using list_emb_append_mono [of "(=)" "su_received u @ su_buf u" "su_published u" "[e]" "[e]"]
    by (simp add: inPublication_def)
next
  case (fanout_step u)
  show ?case
  proof (cases "su_pub u")
    case (DropOldest e)
    show ?thesis
    proof (cases "su_buf u")
      case Nil
      with DropOldest fanout_step.IH show ?thesis
        by (auto simp: publishStep_def inPublication_def dest: subseq_front)
    next
      case (Cons x rest)
      have "subseq (su_received u @ rest @ [e]) (su_received u @ (x # rest) @ [e])" by (intro list_emb_append_mono) auto
      with Cons DropOldest fanout_step.IH show ?thesis
        by (auto simp: publishStep_def inPublication_def elim: subseq_order.trans)
    qed
  qed (use fanout_step in \<open>auto simp: publishStep_def inPublication_def\<close>)
qed (auto simp: Config_Subscribe_def inPublication_def)

text \<open>
  A subscriber sees the published events in order, without repetition, and at most the capacity of the buffer of them
  waits for it.
\<close>

theorem pubsub_in_order:
  assumes "fanout cap u" shows "subseq (su_received u @ su_buf u) (su_published u) \<and> length (su_buf u) \<le> cap"
  using fanout_inv [OF assms] subseq_front [of "su_received u @ su_buf u" "inPublication u"] by simp

definition filledSub :: "nat \<Rightarrow> nat subscription" where
  "filledSub n = \<lparr>su_buf = [0..<n], su_pub = Idle, su_published = [0..<n], su_received = []\<rparr>"

definition drainedSub :: "nat \<Rightarrow> nat \<Rightarrow> nat subscription" where
  "drainedSub cap k = \<lparr>su_buf = [k..<cap], su_pub = DropOldest cap, su_published = [0..<Suc cap], su_received = [0..<k]\<rparr>"

lemma filledSub_fanout: "n \<le> cap \<Longrightarrow> fanout cap (filledSub n)"
proof (induction n)
  case 0
  then show ?case using fanout_subscribe [of cap] by (simp add: filledSub_def Config_Subscribe_def)
next
  case (Suc n)
  then have "fanout cap (publishStep cap ((filledSub n)\<lparr>su_pub := TrySend n, su_published := su_published (filledSub n) @ [n]\<rparr>))"
    by (intro fanout_step fanout_publish) (simp_all add: filledSub_def)
  with Suc.prems show ?case by (simp add: filledSub_def publishStep_def)
qed

lemma drainedSub_fanout: "k \<le> cap \<Longrightarrow> fanout cap (drainedSub cap k)"
proof (induction k)
  case 0
  have "fanout cap (publishStep cap ((filledSub cap)\<lparr>su_pub := TrySend cap, su_published := su_published (filledSub cap) @ [cap]\<rparr>))"
    by (intro fanout_step fanout_publish filledSub_fanout) (simp_all add: filledSub_def)
  then show ?case by (simp add: filledSub_def publishStep_def drainedSub_def)
next
  case (Suc k)
  then have "fanout cap (drainedSub cap k)" "su_buf (drainedSub cap k) = k # [Suc k..<cap]"
    by (simp_all add: drainedSub_def upt_conv_Cons)
  from fanout_receive [OF this] show ?case by (simp add: drainedSub_def)
qed

text \<open>
  The newest change can be lost: when the subscriber empties its full buffer between the publisher's failed attempt and
  the receive that should make room, the publisher gives up, for every capacity of the buffer; the subscriber then waits with
  nothing in the buffer and has not seen the last event.
\<close>

theorem newest_change_lost:
  "\<exists>u. fanout cap u \<and> su_pub u = Idle \<and> su_buf u = [] \<and> su_received u = [0..<cap] \<and> su_published u = [0..<Suc cap]"
proof -
  have "fanout cap (publishStep cap (drainedSub cap cap))" by (intro fanout_step drainedSub_fanout) simp
  then show ?thesis by (intro exI) (auto simp: publishStep_def drainedSub_def)
qed

section \<open>The watcher\<close>

text \<open>
  The watched files with the hash of their last content, empty when there was none, and the calls of the subscribers;
  \<open>statFile\<close> gives the hash of a file that can be read.
\<close>

record Watcher =
  wa_watched :: "(string \<times> string) list"
  wa_subscribers :: "nat list"
  wa_fired :: "(nat \<times> string \<times> string) list"

definition Watch :: "(string \<Rightarrow> string option) \<Rightarrow> string \<Rightarrow> Watcher \<Rightarrow> Watcher" where
  "Watch statFile path w =
     (if map_of (wa_watched w) path \<noteq> None then w
      else w\<lparr>wa_watched := wa_watched w @ [(path, case statFile path of None \<Rightarrow> [] | Some h \<Rightarrow> h)]\<rparr>)"

definition Watch_Subscribe :: "nat \<Rightarrow> Watcher \<Rightarrow> Watcher" where
  "Watch_Subscribe fn w = w\<lparr>wa_subscribers := wa_subscribers w @ [fn]\<rparr>"

definition pollOne :: "(string \<Rightarrow> string option) \<Rightarrow> string \<times> string \<Rightarrow> Watcher \<Rightarrow> Watcher" where
  "pollOne statFile entry w =
     (case entry of (path, prev) \<Rightarrow>
      case statFile path of
        None \<Rightarrow> w
      | Some h \<Rightarrow>
          if prev = h then w
          else
            let w' = w\<lparr>wa_watched := AList.update path h (wa_watched w)\<rparr> in
            if prev = [] then w' else w'\<lparr>wa_fired := wa_fired w' @ map (\<lambda>fn. (fn, path, h)) (wa_subscribers w')\<rparr>)"

definition Watcher_poll :: "(string \<Rightarrow> string option) \<Rightarrow> Watcher \<Rightarrow> Watcher" where
  "Watcher_poll statFile w = fold (pollOne statFile) (wa_watched w) w"

definition isConfigRelevantPath :: "string \<Rightarrow> string \<Rightarrow> bool" where
  "isConfigRelevantPath configDir path =
     (case Rel configDir path of
        None \<Rightarrow> False
      | Some rel \<Rightarrow> rel = ''main.pkl'' \<or> rel = ''entity-areas.pkl'' \<or>
          (hasPrefix rel ''automations/'' \<or> hasPrefix rel ''areas/'' \<or> hasPrefix rel ''scenes/'') \<and> hasSuffix rel ''.pkl'')"

definition notices :: "(string \<Rightarrow> string option) \<Rightarrow> nat list \<Rightarrow> string \<times> string \<Rightarrow> (nat \<times> string \<times> string) list" where
  "notices st fns = (\<lambda>(path, prev). case st path of
     Some h \<Rightarrow> if prev \<noteq> h \<and> prev \<noteq> [] then map (\<lambda>fn. (fn, path, h)) fns else [] | None \<Rightarrow> [])"

lemma pollOne_eqs:
  "wa_subscribers (pollOne st e w) = wa_subscribers w"
  "wa_fired (pollOne st e w) = wa_fired w @ notices st (wa_subscribers w) e"
  "map_of (wa_watched (pollOne st e w)) path =
     (if path = fst e \<and> st path \<noteq> None \<and> st path \<noteq> Some (snd e) then st path else map_of (wa_watched w) path)"
  by (auto simp: pollOne_def notices_def Let_def update_conv' split: prod.splits option.splits)

lemma fold_poll:
  "wa_subscribers (fold (pollOne st) es w) = wa_subscribers w"
  "wa_fired (fold (pollOne st) es w) = wa_fired w @ concat (map (notices st (wa_subscribers w)) es)"
  "distinct (map fst es) \<Longrightarrow> map_of (wa_watched (fold (pollOne st) es w)) path =
     (case map_of es path of Some prev \<Rightarrow> if st path \<noteq> None \<and> st path \<noteq> Some prev then st path else map_of (wa_watched w) path
      | None \<Rightarrow> map_of (wa_watched w) path)"
proof -
  show "wa_subscribers (fold (pollOne st) es w) = wa_subscribers w"
    by (induction es arbitrary: w) (auto simp: pollOne_eqs)
  show "wa_fired (fold (pollOne st) es w) = wa_fired w @ concat (map (notices st (wa_subscribers w)) es)"
    by (induction es arbitrary: w) (auto simp: pollOne_eqs)
  show "distinct (map fst es) \<Longrightarrow> map_of (wa_watched (fold (pollOne st) es w)) path =
     (case map_of es path of Some prev \<Rightarrow> if st path \<noteq> None \<and> st path \<noteq> Some prev then st path else map_of (wa_watched w) path
      | None \<Rightarrow> map_of (wa_watched w) path)"
  proof (induction es arbitrary: w)
    case (Cons e es)
    show ?case
    proof (cases "path = fst e")
      case True
      with Cons.prems have "map_of es path = None" by (simp add: map_of_eq_None_iff)
      with True Cons show ?thesis by (simp add: pollOne_eqs)
    qed (use Cons in \<open>simp add: pollOne_eqs split: option.split\<close>)
  qed simp
qed

text \<open>
  A poll calls a subscriber for exactly the watched files that can be read and whose hash differs from the remembered one,
  when something was remembered; afterwards the hash of every readable file is remembered.
\<close>

theorem watcher_notices:
  assumes "distinct (map fst (wa_watched w))" "map_of (wa_watched w) path = Some prev" "fn \<in> set (wa_subscribers w)" "wa_fired w = []"
  shows "((fn, path, h) \<in> set (wa_fired (Watcher_poll st w)) \<longleftrightarrow> st path = Some h \<and> prev \<noteq> h \<and> prev \<noteq> []) \<and>
    map_of (wa_watched (Watcher_poll st w)) path = (case st path of None \<Rightarrow> Some prev | Some h \<Rightarrow> Some h)"
proof -
  have "(fn, path, h) \<in> set (wa_fired (Watcher_poll st w)) \<longleftrightarrow> (\<exists>e \<in> set (wa_watched w). (fn, path, h) \<in> set (notices st (wa_subscribers w) e))"
    by (simp add: Watcher_poll_def fold_poll assms(4))
  also have "\<dots> \<longleftrightarrow> (fn, path, h) \<in> set (notices st (wa_subscribers w) (path, prev))"
  proof -
    have own: "e = (path, prev)" if "e \<in> set (wa_watched w)" "(fn, path, h) \<in> set (notices st (wa_subscribers w) e)" for e
    proof -
      from that(2) have "fst e = path" by (cases e) (auto simp: notices_def split: option.splits if_splits)
      with that(1) have "(path, snd e) \<in> set (wa_watched w)" by (metis prod.collapse)
      with assms(1,2) have "snd e = prev" by (simp add: map_of_is_SomeI)
      with \<open>fst e = path\<close> show ?thesis by (simp add: prod_eq_iff)
    qed
    then show ?thesis using map_of_SomeD [OF assms(2)] by blast
  qed
  also have "\<dots> \<longleftrightarrow> st path = Some h \<and> prev \<noteq> h \<and> prev \<noteq> []" using assms(3) by (auto simp: notices_def split: option.splits)
  finally show ?thesis using assms(1,2) by (auto simp: Watcher_poll_def fold_poll(3) split: option.splits)
qed

text \<open>
  The creation of a file that was missing when it was watched is not noticed, although the watcher records the missing
  file to detect it: the first poll that reads the file only remembers its hash.
\<close>

theorem creation_unnoticed:
  assumes "wa_watched w = []" "wa_fired w = []" "missing path = None" "created path = Some h" "h \<noteq> []"
  shows "wa_fired (Watcher_poll created (Watch missing path w)) = [] \<and>
    map_of (wa_watched (Watcher_poll created (Watch missing path w))) path = Some h"
  using assms by (simp add: Watch_def Watcher_poll_def pollOne_eqs notices_def)

end
