(* ===== verification/Display_Pairing.thy ===== *)
theory Display_Pairing
  imports Service_Base
begin

text \<open>
  Wall displays, \<^verbatim>\<open>internal/display\<close>: the pairing codes (\<^verbatim>\<open>pairing.go\<close>), the JSON files of the paired displays and the handlers
  of the service (\<^verbatim>\<open>service.go\<close>), and the recommended tile fidelity (\<^verbatim>\<open>fidelity_recommender.go\<close>). Random values, JSON and the
  clock are arguments.
\<close>

section \<open>Pairing codes\<close>

type_synonym PairCodeStore = "string \<rightharpoonup> gotime"

definition pairCodeTTL :: duration where
  "pairCodeTTL = 5 * 60 * 10 ^ 9"

definition putCode :: "gotime \<Rightarrow> string \<Rightarrow> unit \<Rightarrow> PairCodeStore \<Rightarrow> PairCodeStore" where
  "putCode now code u s = s(code \<mapsto> now + pairCodeTTL)"

definition dropCode :: "string \<Rightarrow> PairCodeStore \<Rightarrow> PairCodeStore" where
  "dropCode code s = s(code := None)"

definition Pair_Issue :: "gotime \<Rightarrow> error + string \<Rightarrow> PairCodeStore \<Rightarrow> (error + string \<times> gotime) \<times> PairCodeStore" where
  "Pair_Issue now generated s =
     (case generated of Inl e \<Rightarrow> (Inl e, s) | Inr code \<Rightarrow> (Inr (code, now + pairCodeTTL), putCode now code () s))"

text \<open>\<open>fmt.Sprintf("%06d", n)\<close> of a number below a million.\<close>

definition codeOf :: "nat \<Rightarrow> string" where
  "codeOf n = replicate (6 - length (showNat n)) (CHR ''0'') @ showNat n"

datatype pair_error = errCodeNotFound | errCodeExpired

definition Pair_Redeem :: "gotime \<Rightarrow> string \<Rightarrow> PairCodeStore \<Rightarrow> (pair_error + unit) \<times> PairCodeStore" where
  "Pair_Redeem now code s =
     (case s code of
        None \<Rightarrow> (Inl errCodeNotFound, s)
      | Some expires \<Rightarrow> if expires < now then (Inl errCodeExpired, dropCode code s) else (Inr (), dropCode code s))"

definition Pair_Sweep :: "gotime \<Rightarrow> PairCodeStore \<Rightarrow> PairCodeStore" where
  "Pair_Sweep now s = (\<lambda>code. case s code of None \<Rightarrow> None | Some e \<Rightarrow> if e < now then None else Some e)"

definition codeLive :: "gotime \<Rightarrow> PairCodeStore \<Rightarrow> string \<Rightarrow> unit option" where
  "codeLive t s code = (case s code of None \<Rightarrow> None | Some e \<Rightarrow> if e < t then None else Some ())"

interpretation pair_codes: expiring_table codeLive putCode dropCode Pair_Sweep "\<lambda>_. pairCodeTTL" "\<lambda>_. True"
  by unfold_locales (auto simp: codeLive_def putCode_def dropCode_def Pair_Sweep_def split: option.splits)

section \<open>Tile fidelity\<close>

record RoomStats =
  rs_RoomID :: string
  rs_EntityCount :: int
  rs_SensorCount :: int
  rs_InteractionCount30d :: int

datatype TileMetric = METRIC_NONE | METRIC_PRESENCE | METRIC_SENSOR

record FidelityOverride =
  fo_Scenes :: int
  fo_Metric :: TileMetric

definition scoreRoom :: "RoomStats \<Rightarrow> FidelityOverride" where
  "scoreRoom room =
     (let fo = (if rs_EntityCount room \<ge> 5 \<and> rs_InteractionCount30d room \<ge> 10 then \<lparr>fo_Scenes = 4, fo_Metric = METRIC_SENSOR\<rparr>
         else if rs_EntityCount room \<ge> 3 \<or> rs_InteractionCount30d room \<ge> 5 then \<lparr>fo_Scenes = 2, fo_Metric = METRIC_PRESENCE\<rparr>
         else \<lparr>fo_Scenes = 0, fo_Metric = METRIC_NONE\<rparr>) in
      if rs_SensorCount room \<ge> 1 then fo\<lparr>fo_Metric := METRIC_SENSOR\<rparr> else fo)"

definition Recommend :: "RoomStats list \<Rightarrow> (string \<times> FidelityOverride) list" where
  "Recommend rooms = fold (\<lambda>room. AList.update (rs_RoomID room) (scoreRoom room)) rooms []"

section \<open>The records\<close>

record displayRecord =
  dr_ID :: string
  dr_DeviceName :: string
  dr_PageSlug :: string
  dr_TileOverrides :: "(string \<times> FidelityOverride) list"
  dr_IdleBehavior :: "bytes option"
  dr_AllowedInteractions :: "string list"
  dr_AlertThreshold :: nat
  dr_Token :: string
  dr_CreatedAt :: gotime

text \<open>JSON, and the faults of the file system at the call.\<close>

record displayEnv =
  dp_marshal :: "displayRecord \<Rightarrow> bytes"
  dp_unmarshal :: "bytes \<Rightarrow> error + displayRecord"
  dp_io :: io

definition Store_path :: "string \<Rightarrow> string \<Rightarrow> string" where
  "Store_path dir i = Join [dir, i @ ''.json'']"

definition Store_Put :: "displayEnv \<Rightarrow> string \<Rightarrow> displayRecord \<Rightarrow> files \<Rightarrow> (error + unit) \<times> files" where
  "Store_Put env dir r fs =
     (case dp_io env MkdirAll dir of
        Some e \<Rightarrow> (Inl e, fs)
      | None \<Rightarrow> (let path = Store_path dir (dr_ID r); tmp = path @ ''.tmp'' in
          case writeFile (dp_io env) fs tmp (dp_marshal env r) of
            Inl e \<Rightarrow> (Inl e, fs)
          | Inr fs1 \<Rightarrow> (case renameFile (dp_io env) fs1 tmp path of Inl e \<Rightarrow> (Inl e, fs1) | Inr fs2 \<Rightarrow> (Inr (), fs2))))"

text \<open>\<open>None\<close> as an error: the display is not found.\<close>

definition Store_Get :: "displayEnv \<Rightarrow> string \<Rightarrow> string \<Rightarrow> files \<Rightarrow> error option + displayRecord" where
  "Store_Get env dir i fs =
     (case readFile (dp_io env) fs (Store_path dir i) of
        Inl e \<Rightarrow> Inl (Some e)
      | Inr None \<Rightarrow> Inl None
      | Inr (Some data) \<Rightarrow> (case dp_unmarshal env data of Inl e \<Rightarrow> Inl (Some e) | Inr r \<Rightarrow> Inr r))"

definition Store_Delete :: "displayEnv \<Rightarrow> string \<Rightarrow> string \<Rightarrow> files \<Rightarrow> (error option + unit) \<times> files" where
  "Store_Delete env dir i fs =
     (case removeFile (dp_io env) fs (Store_path dir i) of
        Inl e \<Rightarrow> (Inl (Some e), fs)
      | Inr (False, _) \<Rightarrow> (Inl None, fs)
      | Inr (True, fs') \<Rightarrow> (Inr (), fs'))"

definition ValidateToken :: "displayEnv \<Rightarrow> string \<Rightarrow> string \<Rightarrow> string \<Rightarrow> files \<Rightarrow> error option + bool" where
  "ValidateToken env dir i token fs = (case Store_Get env dir i fs of Inl e \<Rightarrow> Inl e | Inr r \<Rightarrow> Inr (dr_Token r = token))"

text \<open>\<open>names\<close> are the file names that the directory lists; what cannot be read or decoded is left out.\<close>

definition listed :: "displayEnv \<Rightarrow> string \<Rightarrow> files \<Rightarrow> string \<Rightarrow> displayRecord option" where
  "listed env dir fs name =
     (if length name < 5 \<or> drop (length name - 5) name \<noteq> ''.json'' then None
      else case readFile (dp_io env) fs (Join [dir, name]) of
        Inr (Some data) \<Rightarrow> (case dp_unmarshal env data of Inr r \<Rightarrow> Some (r\<lparr>dr_ID := take (length name - 5) name\<rparr>) | Inl e \<Rightarrow> None)
      | _ \<Rightarrow> None)"

definition Store_List :: "displayEnv \<Rightarrow> string \<Rightarrow> string list \<Rightarrow> files \<Rightarrow> displayRecord list" where
  "Store_List env dir names fs = sort_key dr_CreatedAt (List.map_filter (listed env dir fs) names)"

section \<open>The handlers\<close>

record displayService =
  ds_dir :: string
  ds_codes :: PairCodeStore
  ds_files :: files

definition storeError :: "error option \<Rightarrow> connect_error" where
  "storeError e = (case e of None \<Rightarrow> Connect NotFound ''display: display not found'' | Some x \<Rightarrow> Connect Internal x)"

definition Pair :: "gotime \<Rightarrow> error + string \<Rightarrow> displayService \<Rightarrow> (connect_error + string \<times> gotime) \<times> displayService" where
  "Pair now generated s =
     (case Pair_Issue now generated (ds_codes s) of
        (Inl e, c) \<Rightarrow> (Inl (Connect Internal e), s\<lparr>ds_codes := c\<rparr>)
      | (Inr r, c) \<Rightarrow> (Inr r, s\<lparr>ds_codes := c\<rparr>))"

text \<open>\<open>trim\<close> is \<open>strings.TrimSpace\<close>; the id and the token are random.\<close>

definition RedeemPairCode ::
  "displayEnv \<Rightarrow> (string \<Rightarrow> string) \<Rightarrow> gotime \<Rightarrow> string \<Rightarrow> error + string \<Rightarrow> string \<Rightarrow> string \<Rightarrow> displayService
     \<Rightarrow> (connect_error + string \<times> string) \<times> displayService" where
  "RedeemPairCode env trim now newID newToken rawCode deviceName s =
     (let code = trim rawCode in
      if length code \<noteq> 6 then (Inl (Connect InvalidArgument ''display: code must be 6 digits''), s)
      else case Pair_Redeem now code (ds_codes s) of
        (Inl e, c) \<Rightarrow> (Inl (Connect NotFound (case e of errCodeNotFound \<Rightarrow> ''display: pair code not found'' | errCodeExpired \<Rightarrow> ''display: pair code expired'')),
            s\<lparr>ds_codes := c\<rparr>)
      | (Inr _, c) \<Rightarrow> (case newToken of
          Inl e \<Rightarrow> (Inl (Connect Internal e), s\<lparr>ds_codes := c\<rparr>)
        | Inr token \<Rightarrow>
            (let r = \<lparr>dr_ID = newID, dr_DeviceName = deviceName, dr_PageSlug = [], dr_TileOverrides = Recommend [], dr_IdleBehavior = None,
                 dr_AllowedInteractions = [], dr_AlertThreshold = 0, dr_Token = token, dr_CreatedAt = now\<rparr> in
             case Store_Put env (ds_dir s) r (ds_files s) of
               (Inl e, fs) \<Rightarrow> (Inl (Connect Internal e), s\<lparr>ds_codes := c, ds_files := fs\<rparr>)
             | (Inr _, fs) \<Rightarrow> (Inr (newID, token), s\<lparr>ds_codes := c, ds_files := fs\<rparr>))))"

record DisplayConfig =
  dc_PageSlug :: string
  dc_DeviceName :: string
  dc_AlertThreshold :: nat
  dc_IdleBehavior :: "bytes option"
  dc_AllowedInteractions :: "string list"
  dc_TileOverrides :: "(string \<times> FidelityOverride) list"

definition configured :: "DisplayConfig \<Rightarrow> displayRecord \<Rightarrow> displayRecord" where
  "configured cfg r = r\<lparr>
     dr_PageSlug := (if dc_PageSlug cfg \<noteq> [] then dc_PageSlug cfg else dr_PageSlug r),
     dr_DeviceName := (if dc_DeviceName cfg \<noteq> [] then dc_DeviceName cfg else dr_DeviceName r),
     dr_AlertThreshold := (if dc_AlertThreshold cfg \<noteq> 0 then dc_AlertThreshold cfg else dr_AlertThreshold r),
     dr_IdleBehavior := (if dc_IdleBehavior cfg \<noteq> None then dc_IdleBehavior cfg else dr_IdleBehavior r),
     dr_AllowedInteractions := (if dc_AllowedInteractions cfg \<noteq> [] then dc_AllowedInteractions cfg else dr_AllowedInteractions r),
     dr_TileOverrides := fold (\<lambda>(k, v). AList.update k v) (dc_TileOverrides cfg) (dr_TileOverrides r)\<rparr>"

definition Display_Update :: "displayEnv \<Rightarrow> string \<Rightarrow> DisplayConfig option \<Rightarrow> displayService \<Rightarrow> (connect_error + displayRecord) \<times> displayService" where
  "Display_Update env i cfg s =
     (case Store_Get env (ds_dir s) i (ds_files s) of
        Inl e \<Rightarrow> (Inl (storeError e), s)
      | Inr r \<Rightarrow> (let r' = (case cfg of None \<Rightarrow> r | Some c \<Rightarrow> configured c r) in
          case Store_Put env (ds_dir s) r' (ds_files s) of
            (Inl e, fs) \<Rightarrow> (Inl (Connect Internal e), s\<lparr>ds_files := fs\<rparr>)
          | (Inr _, fs) \<Rightarrow> (Inr r', s\<lparr>ds_files := fs\<rparr>)))"

definition Unpair :: "displayEnv \<Rightarrow> string \<Rightarrow> displayService \<Rightarrow> (connect_error + unit) \<times> displayService" where
  "Unpair env i s =
     (case Store_Delete env (ds_dir s) i (ds_files s) of
        (Inl e, fs) \<Rightarrow> (Inl (storeError e), s\<lparr>ds_files := fs\<rparr>)
      | (Inr _, fs) \<Rightarrow> (Inr (), s\<lparr>ds_files := fs\<rparr>))"

definition Display_Get :: "displayEnv \<Rightarrow> string \<Rightarrow> displayService \<Rightarrow> connect_error + displayRecord" where
  "Display_Get env i s = (case Store_Get env (ds_dir s) i (ds_files s) of Inl e \<Rightarrow> Inl (storeError e) | Inr r \<Rightarrow> Inr r)"

section \<open>The life of a pairing code\<close>

text \<open>The service runs on without issuing or redeeming this code.\<close>

inductive displayRuns :: "string \<Rightarrow> gotime \<Rightarrow> displayService \<Rightarrow> gotime \<Rightarrow> displayService \<Rightarrow> bool" for code t0 s0 where
  display_start: "displayRuns code t0 s0 t0 s0"
| display_wait: "displayRuns code t0 s0 t s \<Longrightarrow> t \<le> t' \<Longrightarrow> displayRuns code t0 s0 t' s"
| display_pair: "displayRuns code t0 s0 t s \<Longrightarrow> generated \<noteq> Inr code \<Longrightarrow> displayRuns code t0 s0 t (snd (Pair t generated s))"
| display_redeem: "displayRuns code t0 s0 t s \<Longrightarrow> trim raw \<noteq> code \<Longrightarrow>
    displayRuns code t0 s0 t (snd (RedeemPairCode env trim t newID newToken raw name s))"
| display_update: "displayRuns code t0 s0 t s \<Longrightarrow> displayRuns code t0 s0 t (snd (Display_Update env i cfg s))"
| display_unpair: "displayRuns code t0 s0 t s \<Longrightarrow> displayRuns code t0 s0 t (snd (Unpair env i s))"
| display_sweep: "displayRuns code t0 s0 t s \<Longrightarrow> displayRuns code t0 s0 t (s\<lparr>ds_codes := Pair_Sweep t (ds_codes s)\<rparr>)"

lemma Pair_Redeem_codes:
  "snd (Pair_Redeem now c s) = s \<or> snd (Pair_Redeem now c s) = dropCode c s"
  by (auto simp: Pair_Redeem_def split: option.split)

lemma Redeem_codes:
  "ds_codes (snd (RedeemPairCode env trim t newID newToken raw name s)) \<in> {ds_codes s, dropCode (trim raw) (ds_codes s)}"
  using Pair_Redeem_codes [of t "trim raw" "ds_codes s"]
  by (auto simp: RedeemPairCode_def Let_def split: prod.splits sum.splits)

lemma frame_codes:
  "ds_codes (snd (Display_Update env i cfg s)) = ds_codes s" "ds_codes (snd (Unpair env i s)) = ds_codes s"
  by (auto simp: Display_Update_def Unpair_def Let_def split: prod.splits sum.splits)

lemma displayRuns_codes: "displayRuns code t0 s0 t s \<Longrightarrow> pair_codes.after t0 code (ds_codes s0) t (ds_codes s)"
proof (induction rule: displayRuns.induct)
  case (display_pair t s generated)
  then show ?case by (cases generated) (auto simp: Pair_def Pair_Issue_def intro: pair_codes.other)
next
  case (display_redeem t s trim raw env newID newToken name)
  then show ?case using Redeem_codes [of env trim t newID newToken raw name s] by (auto intro: pair_codes.removed)
qed (auto simp: frame_codes intro: pair_codes.after.intros)

text \<open>
  A pairing code works once and for five minutes. From the \<open>Pair\<close> that returned it, whatever else is called, redeeming
  it gets past the check of the code exactly until its expiry; and once it was redeemed (or found expired), no later attempt does,
  unless the same code is issued again.
\<close>

theorem pair_code_life:
  assumes "Pair t0 (Inr code) s = (Inr (code, expires), s0)" "displayRuns code t0 s0 t s1"
    and "trim raw = code" "length code = 6"
    and "RedeemPairCode env trim t newID (Inr token) raw name s1 = (res, s2)"
    and "displayRuns code t s2 t' s3" "RedeemPairCode env trim t' newID' newToken' raw name s3 = (res', s4)"
  shows "(case res of Inl (Connect NotFound e) \<Rightarrow> t0 + pairCodeTTL < t | _ \<Rightarrow> t \<le> t0 + pairCodeTTL) \<and>
    (\<exists>e. res' = Inl (Connect NotFound e)) \<and> ds_files s4 = ds_files s3"
proof -
  from assms(1) have "ds_codes s0 = putCode t0 code () (ds_codes s)" by (auto simp: Pair_def Pair_Issue_def)
  with displayRuns_codes [OF assms(2)] have "pair_codes.after t0 code (putCode t0 code () (ds_codes s)) t (ds_codes s1)" by simp
  from pair_codes.lives_exactly [OF this] have live: "codeLive t (ds_codes s1) code = (if t \<le> t0 + pairCodeTTL then Some () else None)" by simp
  have spent: "codeLive t (ds_codes s2) code = None"
    using assms(3-5) by (auto simp: RedeemPairCode_def Pair_Redeem_def codeLive_def dropCode_def Let_def split: option.splits prod.splits sum.splits if_splits)
  from pair_codes.after_keeps [OF displayRuns_codes [OF assms(6)] TrueI order_refl]
  have "codeLive t' (ds_codes s3) code = codeLive t' (ds_codes s2) code" by simp
  moreover have "t \<le> t'" using assms(6) by (induction rule: displayRuns.induct) auto
  ultimately have dead: "codeLive t' (ds_codes s3) code = None" using spent by (auto simp: codeLive_def split: option.splits if_splits)
  from dead assms(3,4,7) have "(\<exists>e. res' = Inl (Connect NotFound e)) \<and> ds_files s4 = ds_files s3"
    by (auto simp: RedeemPairCode_def Pair_Redeem_def codeLive_def dropCode_def Let_def split: option.splits if_splits)
  moreover have "case res of Inl (Connect NotFound e) \<Rightarrow> t0 + pairCodeTTL < t | _ \<Rightarrow> t \<le> t0 + pairCodeTTL"
    using live assms(3-5)
    by (auto simp: RedeemPairCode_def Pair_Redeem_def codeLive_def dropCode_def Let_def split: option.splits if_splits prod.splits sum.splits)
  ultimately show ?thesis by blast
qed

section \<open>Where the records are\<close>

lemma push_up_all: "''..'' \<notin> set ds \<Longrightarrow> foldl (pushElem r) ds (replicate (length ds) ''..'') = []"
proof (induction ds rule: rev_induct)
  case (snoc d ds)
  then have "pushElem r (ds @ [d]) ''..'' = ds" by (auto simp: pushElem_def)
  with snoc show ?case by simp
qed simp

lemma joinWith_snoc: "joinWith sep (xs @ [x]) @ suf = joinWith sep (xs @ [x @ suf])"
  by (induction xs) (auto simp: joinWith_Cons)

lemma Join_up:
  assumes "isAbs dir" "normal True (cs @ [c])"
  shows "Join [dir, joinWith ''/'' (replicate (length (elems dir)) ''..'' @ cs @ [c])] = showPath True (cs @ [c])"
proof -
  let ?p = "dir @ slash # joinWith ''/'' (replicate (length (elems dir)) ''..'' @ cs @ [c])"
  from assms(1) have ne: "dir \<noteq> []" by (auto simp: isAbs_def hasPrefix_def)
  have abs: "isAbs ?p" using isAbs_append [OF ne] assms(1) by simp
  have free: "list_all (\<lambda>x. slash \<notin> set x) (replicate (length (elems dir)) ''..'' @ cs @ [c])"
    using normal_free [OF assms(2)] by (auto simp: list_all_iff)
  have up: "''..'' \<notin> set (elems dir)" using elems_normal [of dir] assms(1) by (auto simp: normal_def)
  have "elems ?p = foldl (pushElem True) (foldl (pushElem True) (elems dir) (replicate (length (elems dir)) ''..'')) (cs @ [c])"
    using splitAll_join [of _ slash] free abs assms(1) by (simp add: elems_def splitAll_mid)
  also have "\<dots> = cs @ [c]" using normal_fold [OF assms(2)] by (simp only: push_up_all [OF up])
  finally have "Clean ?p = showPath True (cs @ [c])" by (simp add: Clean_def abs)
  then show ?thesis using ne by (simp add: Join_def)
qed

text \<open>
  The id of a display is a part of a path and is not checked: every JSON file of the machine has an id under which
  \<open>Unpair\<close> deletes it.
\<close>

theorem display_ids_escape:
  assumes "isAbs (ds_dir s)" "normal True (cs @ [name])" "dp_io env = noFaults"
    and "ds_files s (showPath True (cs @ [name @ ''.json''])) \<noteq> None"
  shows "\<exists>i. Unpair env i s = (Inr (), s\<lparr>ds_files := (ds_files s)(showPath True (cs @ [name @ ''.json'']) := None)\<rparr>)"
proof -
  let ?i = "joinWith ''/'' (replicate (length (elems (ds_dir s))) ''..'' @ cs @ [name])"
  from assms(2) obtain n ds where "cs @ [name] = replicate n ''..'' @ ds" "''..'' \<notin> set ds" "n = 0" and all: "list_all plain (cs @ [name])"
    by (auto simp: normal_def)
  then have nodots: "''..'' \<notin> set cs" "''..'' \<noteq> name" by auto
  have "slash \<notin> set ''.json''" by simp
  with all have "list_all plain (cs @ [name @ ''.json''])" by (auto simp: plain_def)
  moreover have "name @ ''.json'' \<noteq> ''..''" by (cases name) (auto dest: arg_cong [of _ _ length])
  ultimately have n: "normal True (cs @ [name @ ''.json''])" using nodots by (auto simp: normal_def)
  have "?i @ ''.json'' = joinWith ''/'' (replicate (length (elems (ds_dir s))) ''..'' @ cs @ [name @ ''.json''])"
    using joinWith_snoc [of "''/''" "replicate (length (elems (ds_dir s))) ''..'' @ cs" name "''.json''"] by simp
  with Join_up [OF assms(1) n] have path: "Store_path (ds_dir s) ?i = showPath True (cs @ [name @ ''.json''])"
    by (simp add: Store_path_def)
  moreover have "Clean (showPath True (cs @ [name @ ''.json''])) = showPath True (cs @ [name @ ''.json''])"
    by (simp add: Clean_def elems_showPath [OF n])
  ultimately have "Unpair env ?i s = (Inr (), s\<lparr>ds_files := (ds_files s)(showPath True (cs @ [name @ ''.json'']) := None)\<rparr>)"
    using assms(3,4) by (simp add: Unpair_def Store_Delete_def removeFile_def noFaults_def)
  then show ?thesis by blast
qed

lemma redeemed_record:
  assumes "RedeemPairCode env trim now i (Inr token) raw name s = (Inr (i', token'), s1)"
  obtains r where "dr_Token r = token" "dr_ID r = i" "Store_Put env (ds_dir s) r (ds_files s) = (Inr (), ds_files s1)"
    "i' = i" "token' = token" "ds_dir s1 = ds_dir s"
proof -
  let ?r = "\<lparr>dr_ID = i, dr_DeviceName = name, dr_PageSlug = [], dr_TileOverrides = Recommend [], dr_IdleBehavior = None,
    dr_AllowedInteractions = [], dr_AlertThreshold = 0, dr_Token = token, dr_CreatedAt = now\<rparr>"
  obtain pr c where p: "Pair_Redeem now (trim raw) (ds_codes s) = (pr, c)" by fastforce
  obtain res fs where u: "Store_Put env (ds_dir s) ?r (ds_files s) = (res, fs)" by fastforce
  from assms p u have "length (trim raw) = 6" "pr = Inr ()" "res = Inr ()" "i' = i" "token' = token" "s1 = s\<lparr>ds_codes := c, ds_files := fs\<rparr>"
    by (auto simp: RedeemPairCode_def Let_def split: if_splits sum.splits)
  with u show thesis by (intro that [of ?r]) simp_all
qed

text \<open>A newly paired display has a valid token, and unpairing it ends that; the id is a UUID.\<close>

theorem paired_token_valid:
  assumes "RedeemPairCode env trim now i (Inr token) raw name s = (Inr (i', token'), s1)"
    and "\<And>r. dp_unmarshal env (dp_marshal env r) = Inr r" "dp_io env = noFaults"
  shows "i' = i \<and> token' = token \<and> ValidateToken env (ds_dir s) i other (ds_files s1) = Inr (other = token) \<and>
    ValidateToken env (ds_dir s) i other (ds_files (snd (Unpair env i s1))) = Inl None"
proof -
  from assms(1) obtain r where r: "dr_Token r = token" "dr_ID r = i" "Store_Put env (ds_dir s) r (ds_files s) = (Inr (), ds_files s1)"
      "i' = i" "token' = token" "ds_dir s1 = ds_dir s"
    by (rule redeemed_record)
  from r(3) have f: "ds_files s1 (Clean (Store_path (ds_dir s) i)) = Some (dp_marshal env r)"
    by (auto simp: Store_Put_def writeFile_def renameFile_def r(2) assms(3) noFaults_def Let_def split: if_splits dest: sym)
  then have "Store_Get env (ds_dir s) i (ds_files s1) = Inr r"
    by (simp add: Store_Get_def readFile_def assms(2,3) noFaults_def)
  moreover have "Store_Get env (ds_dir s) i (ds_files (snd (Unpair env i s1))) = Inl None"
    using f by (simp add: Store_Get_def Unpair_def Store_Delete_def removeFile_def readFile_def assms(3) noFaults_def r(6))
  ultimately show ?thesis using r by (auto simp: ValidateToken_def)
qed

definition demoDisplayEnv :: displayEnv where
  "demoDisplayEnv = \<lparr>dp_marshal = (\<lambda>r. ''x''), dp_unmarshal = (\<lambda>b. Inl ''bad''), dp_io = noFaults\<rparr>"

definition demoDisplays :: displayService where
  "demoDisplays = \<lparr>ds_dir = ''/data/displays'', ds_codes = Map.empty, ds_files = [''/etc/app.json'' \<mapsto> ''x'']\<rparr>"

theorem pair_code_life_witness:
  "\<exists>e. fst (RedeemPairCode demoDisplayEnv id 2 ''i'' (Inr ''t'') ''123456'' ''hall''
     (snd (RedeemPairCode demoDisplayEnv id 1 ''i'' (Inr ''t'') ''123456'' ''hall''
        (snd (Pair 0 (Inr ''123456'') demoDisplays))))) = Inl (Connect NotFound e)"
proof -
  let ?s0 = "snd (Pair 0 (Inr ''123456'') demoDisplays)"
  let ?r = "\<lambda>t s. RedeemPairCode demoDisplayEnv id t ''i'' (Inr ''t'') ''123456'' ''hall'' s"
  have p: "Pair 0 (Inr ''123456'') demoDisplays = (Inr (''123456'', pairCodeTTL), ?s0)" by (simp add: Pair_def Pair_Issue_def)
  have r1: "displayRuns ''123456'' 0 ?s0 1 ?s0" by (rule display_wait [OF display_start]) simp
  have r2: "displayRuns ''123456'' 1 (snd (?r 1 ?s0)) 2 (snd (?r 1 ?s0))" by (rule display_wait [OF display_start]) simp
  show ?thesis
    using pair_code_life [OF p r1, of id "''123456''" demoDisplayEnv "''i''" "''t''" "''hall''" "fst (?r 1 ?s0)" "snd (?r 1 ?s0)" 2 "snd (?r 1 ?s0)"
      "''i''" "Inr ''t''" "fst (?r 2 (snd (?r 1 ?s0)))" "snd (?r 2 (snd (?r 1 ?s0)))"] r2 by simp
qed

theorem display_ids_escape_witness:
  "\<exists>i. ds_files (snd (Unpair demoDisplayEnv i demoDisplays)) ''/etc/app.json'' = None"
proof -
  have a: "isAbs (ds_dir demoDisplays)" and p: "showPath True ([''etc''] @ [''app'' @ ''.json'']) = ''/etc/app.json''" by code_simp+
  have n: "normal True ([''etc''] @ [''app''])" by (simp add: normal_def plain_def)
  have f: "ds_files demoDisplays (showPath True ([''etc''] @ [''app'' @ ''.json''])) \<noteq> None" unfolding p by (simp add: demoDisplays_def)
  have io: "dp_io demoDisplayEnv = noFaults" by (simp add: demoDisplayEnv_def)
  from display_ids_escape [OF a n io f] obtain i where
    "Unpair demoDisplayEnv i demoDisplays = (Inr (), demoDisplays\<lparr>ds_files := (ds_files demoDisplays)(''/etc/app.json'' := None)\<rparr>)"
    unfolding p by blast
  then have "ds_files (snd (Unpair demoDisplayEnv i demoDisplays)) ''/etc/app.json'' = None" by simp
  then show ?thesis by blast
qed

end
