(* ===== verification/Api_Paging.thy ===== *)
theory Api_Paging
  imports Daemon_Projections Go_Strings
begin

text \<open>
  Page tokens of the list endpoints, \<^verbatim>\<open>internal/api/pagination.go\<close>: the opaque cursor and its base64 text, the clamping of
  page sizes, the error classes of \<^verbatim>\<open>internal/api/errors.go\<close>, and the slicing of a list into pages that the adapters of
  \<^verbatim>\<open>internal/daemon/api_adapters.go\<close> do. The client's loop over the pages is here too: what it sees is stated for every
  sequence of page sizes.
\<close>

section \<open>Base64\<close>

text \<open>
  \<open>base64.RawURLEncoding\<close>: three bytes are four characters, a rest of one or two bytes two or three; no padding. The
  decoder skips line breaks and ignores the unused bits of the last character.
\<close>

definition b64Alphabet :: string where
  "b64Alphabet = ''ABCDEFGHIJKLMNOPQRSTUVWXYZabcdefghijklmnopqrstuvwxyz0123456789-_''"

definition b64Char :: "nat \<Rightarrow> char" where
  "b64Char i = b64Alphabet ! i"

definition b64Value :: "char \<Rightarrow> nat option" where
  "b64Value c = map_of (zip b64Alphabet [0..<64]) c"

definition byteOf :: "char \<Rightarrow> nat" where
  "byteOf c = of_char c"

definition byteChar :: "nat \<Rightarrow> char" where
  "byteChar n = char_of n"

fun b64Encode :: "bytes \<Rightarrow> string" where
  "b64Encode [] = []"
| "b64Encode [a] = [b64Char (byteOf a div 4), b64Char (byteOf a mod 4 * 16)]"
| "b64Encode [a, b] =
     [b64Char (byteOf a div 4), b64Char (byteOf a mod 4 * 16 + byteOf b div 16), b64Char (byteOf b mod 16 * 4)]"
| "b64Encode (a # b # c # rest) =
     b64Char (byteOf a div 4) # b64Char (byteOf a mod 4 * 16 + byteOf b div 16) #
     b64Char (byteOf b mod 16 * 4 + byteOf c div 64) # b64Char (byteOf c mod 64) # b64Encode rest"

text \<open>On six-bit values; a single last one is corrupt input.\<close>

fun b64Bytes :: "nat list \<Rightarrow> bytes option" where
  "b64Bytes [] = Some []"
| "b64Bytes [i] = None"
| "b64Bytes [i, j] = Some [byteChar (i * 4 + j div 16)]"
| "b64Bytes [i, j, k] = Some [byteChar (i * 4 + j div 16), byteChar (j mod 16 * 16 + k div 4)]"
| "b64Bytes (i # j # k # l # rest) =
     map_option (\<lambda>bs. byteChar (i * 4 + j div 16) # byteChar (j mod 16 * 16 + k div 4) # byteChar (k mod 4 * 64 + l) # bs)
       (b64Bytes rest)"

definition b64Decode :: "string \<Rightarrow> bytes option" where
  "b64Decode s =
     (let cs = filter (\<lambda>c. c \<noteq> CHR 0x0A \<and> c \<noteq> CHR 0x0D) s in
      case those (map b64Value cs) of None \<Rightarrow> None | Some is \<Rightarrow> b64Bytes is)"

section \<open>Cursors\<close>

record Cursor =
  cur_Position :: nat
  cur_Tiebreak :: string

definition Cursor_zero :: Cursor where
  "Cursor_zero = \<lparr>cur_Position = 0, cur_Tiebreak = ''''\<rparr>"

text \<open>\<open>binary.BigEndian\<close>, eight bytes.\<close>

fun bigEndian :: "nat \<Rightarrow> nat \<Rightarrow> bytes" where
  "bigEndian 0 v = []"
| "bigEndian (Suc n) v = bigEndian n (v div 256) @ [byteChar (v mod 256)]"

definition fromBigEndian :: "bytes \<Rightarrow> nat" where
  "fromBigEndian = foldl (\<lambda>v c. v * 256 + byteOf c) 0"

definition EncodeCursor :: "Cursor \<Rightarrow> string" where
  "EncodeCursor c =
     (if cur_Position c = 0 \<and> cur_Tiebreak c = '''' then ''''
      else b64Encode (bigEndian 8 (cur_Position c) @ cur_Tiebreak c))"

definition DecodeCursor :: "string \<Rightarrow> error + Cursor" where
  "DecodeCursor token =
     (if token = '''' then Inr Cursor_zero
      else case b64Decode token of
        None \<Rightarrow> Inl ''illegal base64 data''
      | Some b \<Rightarrow>
          if length b < 8 then Inl ''cursor: short token''
          else Inr \<lparr>cur_Position = fromBigEndian (take 8 b), cur_Tiebreak = drop 8 b\<rparr>)"

definition DefaultPageSize :: nat where
  "DefaultPageSize = 100"

definition MaxPageSize :: nat where
  "MaxPageSize = 1000"

definition ClampPageSize :: "nat \<Rightarrow> nat" where
  "ClampPageSize n = (if n = 0 then DefaultPageSize else if n > MaxPageSize then MaxPageSize else n)"

record PageReq =
  pr_Size :: nat
  pr_Cursor :: Cursor

text \<open>The page field of a request may be absent.\<close>

record PageRequest =
  PageToken :: string
  PageSize :: nat

definition pageToken :: "PageRequest option \<Rightarrow> string" where
  "pageToken p = (case p of None \<Rightarrow> '''' | Some r \<Rightarrow> PageToken r)"

definition pageSize :: "PageRequest option \<Rightarrow> nat" where
  "pageSize p = (case p of None \<Rightarrow> 0 | Some r \<Rightarrow> PageSize r)"

section \<open>Slicing into pages\<close>

text \<open>A slice expression with a negative bound panics.\<close>

datatype 'a outcome = Returns 'a | Panics

text \<open>The cursor's position is a \<open>uint64\<close> that the code converts to \<open>int\<close>.\<close>

definition paginate :: "'a list \<Rightarrow> PageReq \<Rightarrow> ('a list \<times> Cursor) outcome" where
  "paginate items page =
     (let start = int64_of (int (cur_Position (pr_Cursor page))) in
      if start > int (length items) then Returns ([], Cursor_zero)
      else if start < 0 then Panics
      else
        let rest = drop (nat start) items;
            size = (if pr_Size page = 0 then DefaultPageSize else pr_Size page) in
        if length rest > size
        then Returns (take size rest, \<lparr>cur_Position = uint64_of (start + int size), cur_Tiebreak = ''''\<rparr>)
        else Returns (rest, Cursor_zero))"

section \<open>Errors\<close>

datatype api_error =
    ErrEntityNotFound | ErrDeviceNotFound | ErrAreaNotFound | ErrZoneNotFound | ErrDriverNotFound | ErrInstanceNotFound
  | ErrAutomationNotFound | ErrScriptNotFound | ErrAutomationDisabled | ErrRunNotFound | ErrRunAlreadyFinished
  | ErrCapabilityUnknown | ErrDriverUnavailable | ErrSubscriptionOverflow | ErrValidationFailed | ErrNotImplemented
  | ErrPathEscape | ErrUnauthenticated_auth | ErrForbidden_auth | ContextCanceled | ContextDeadlineExceeded
  | OtherError error   \<comment> \<open>wraps none of the sentinels\<close>

datatype api_code =
    CodeNotFound | CodeFailedPrecondition | CodeInvalidArgument | CodeUnavailable | CodeResourceExhausted
  | CodeUnimplemented | CodeUnauthenticated | CodePermissionDenied | CodeCanceled | CodeDeadlineExceeded | CodeInternal

fun api_classify :: "api_error \<Rightarrow> api_code" where
  "api_classify ErrEntityNotFound = CodeNotFound"
| "api_classify ErrDeviceNotFound = CodeNotFound"
| "api_classify ErrAreaNotFound = CodeNotFound"
| "api_classify ErrZoneNotFound = CodeNotFound"
| "api_classify ErrDriverNotFound = CodeNotFound"
| "api_classify ErrInstanceNotFound = CodeNotFound"
| "api_classify ErrAutomationNotFound = CodeNotFound"
| "api_classify ErrScriptNotFound = CodeNotFound"
| "api_classify ErrRunNotFound = CodeNotFound"
| "api_classify ErrAutomationDisabled = CodeFailedPrecondition"
| "api_classify ErrRunAlreadyFinished = CodeFailedPrecondition"
| "api_classify ErrCapabilityUnknown = CodeInvalidArgument"
| "api_classify ErrValidationFailed = CodeInvalidArgument"
| "api_classify ErrPathEscape = CodeInvalidArgument"
| "api_classify ErrDriverUnavailable = CodeUnavailable"
| "api_classify ErrSubscriptionOverflow = CodeResourceExhausted"
| "api_classify ErrNotImplemented = CodeUnimplemented"
| "api_classify ErrUnauthenticated_auth = CodeUnauthenticated"
| "api_classify ErrForbidden_auth = CodePermissionDenied"
| "api_classify ContextCanceled = CodeCanceled"
| "api_classify ContextDeadlineExceeded = CodeDeadlineExceeded"
| "api_classify (OtherError e) = CodeInternal"

text \<open>The text of an error that is none of the sentinels is not shown to the client.\<close>

definition errorText :: "api_error \<Rightarrow> error" where
  "errorText e =
     (case e of
        ErrEntityNotFound \<Rightarrow> ''entity not found'' | ErrDeviceNotFound \<Rightarrow> ''device not found''
      | ErrAreaNotFound \<Rightarrow> ''area not found'' | ErrZoneNotFound \<Rightarrow> ''zone not found''
      | ErrDriverNotFound \<Rightarrow> ''driver not found'' | ErrInstanceNotFound \<Rightarrow> ''driver instance not found''
      | ErrAutomationNotFound \<Rightarrow> ''automation not found'' | ErrScriptNotFound \<Rightarrow> ''script not found''
      | ErrAutomationDisabled \<Rightarrow> ''automation disabled'' | ErrRunNotFound \<Rightarrow> ''run not found''
      | ErrRunAlreadyFinished \<Rightarrow> ''run already finished'' | ErrCapabilityUnknown \<Rightarrow> ''capability unknown''
      | ErrDriverUnavailable \<Rightarrow> ''driver unavailable'' | ErrSubscriptionOverflow \<Rightarrow> ''subscription overflow''
      | ErrValidationFailed \<Rightarrow> ''validation failed'' | ErrNotImplemented \<Rightarrow> ''not implemented''
      | ErrPathEscape \<Rightarrow> ''path escapes config dir'' | ErrUnauthenticated_auth \<Rightarrow> ''auth: unauthenticated''
      | ErrForbidden_auth \<Rightarrow> ''auth: forbidden'' | ContextCanceled \<Rightarrow> ''context canceled''
      | ContextDeadlineExceeded \<Rightarrow> ''context deadline exceeded'' | OtherError t \<Rightarrow> t)"

record ConnectError =
  ce_Code :: api_code
  ce_Message :: error
  ce_Reason :: string

definition ToConnect :: "api_error \<Rightarrow> string \<Rightarrow> ConnectError" where
  "ToConnect err reason =
     \<lparr>ce_Code = api_classify err,
      ce_Message = (if api_classify err = CodeInternal then ''internal error'' else errorText err),
      ce_Reason = reason\<rparr>"

section \<open>Tokens come back\<close>

lemma b64Value_Char: "i < 64 \<Longrightarrow> b64Value (b64Char i) = Some i"
proof -
  have "list_all (\<lambda>i. b64Value (b64Char i) = Some i) [0..<64]" by code_simp
  then show "i < 64 \<Longrightarrow> b64Value (b64Char i) = Some i" by (simp add: list_all_iff)
qed

lemma b64Char_printable: "i < 64 \<Longrightarrow> b64Char i \<noteq> CHR 0x0A \<and> b64Char i \<noteq> CHR 0x0D"
proof -
  have "list_all (\<lambda>i. b64Char i \<noteq> CHR 0x0A \<and> b64Char i \<noteq> CHR 0x0D) [0..<64]" by code_simp
  then show "i < 64 \<Longrightarrow> b64Char i \<noteq> CHR 0x0A \<and> b64Char i \<noteq> CHR 0x0D" by (simp add: list_all_iff)
qed

lemma byteOf_less [simp]: "byteOf c < 256"
  by (simp add: byteOf_def)

lemma byteChar_Of [simp]: "byteChar (byteOf c) = c"
  by (simp add: byteOf_def byteChar_def)

lemma byteOf_Char [simp]: "n < 256 \<Longrightarrow> byteOf (byteChar n) = n"
  by (simp add: byteOf_def byteChar_def)

text \<open>The six-bit values behind the characters.\<close>

fun b64Sextets :: "bytes \<Rightarrow> nat list" where
  "b64Sextets [] = []"
| "b64Sextets [a] = [byteOf a div 4, byteOf a mod 4 * 16]"
| "b64Sextets [a, b] = [byteOf a div 4, byteOf a mod 4 * 16 + byteOf b div 16, byteOf b mod 16 * 4]"
| "b64Sextets (a # b # c # rest) =
     byteOf a div 4 # (byteOf a mod 4 * 16 + byteOf b div 16) # (byteOf b mod 16 * 4 + byteOf c div 64) #
     (byteOf c mod 64) # b64Sextets rest"

lemma sextet_bounds:
  "byteOf a div 4 < 64" "byteOf a mod 4 * 16 < 64" "byteOf a mod 4 * 16 + byteOf b div 16 < 64"
  "byteOf b mod 16 * 4 < 64" "byteOf b mod 16 * 4 + byteOf c div 64 < 64" "byteOf c mod 64 < 64"
proof -
  have "byteOf a < 256" "byteOf b < 256" "byteOf c < 256" by simp_all
  then show "byteOf a div 4 < 64" "byteOf a mod 4 * 16 < 64" "byteOf a mod 4 * 16 + byteOf b div 16 < 64"
    "byteOf b mod 16 * 4 < 64" "byteOf b mod 16 * 4 + byteOf c div 64 < 64" "byteOf c mod 64 < 64"
    by linarith+
qed

lemma b64Encode_sextets: "b64Encode bs = map b64Char (b64Sextets bs)"
  by (induction bs rule: b64Encode.induct) simp_all

lemma b64Sextets_less: "i \<in> set (b64Sextets bs) \<Longrightarrow> i < 64"
  by (induction bs rule: b64Sextets.induct) (auto intro: sextet_bounds)

lemma those_map_Some: "(\<And>i. i \<in> set is \<Longrightarrow> f (g i) = Some i) \<Longrightarrow> those (map f (map g is)) = Some is"
  by (induction "is") auto

lemma byte_split4: "a div 4 * 4 + (a mod 4 * 16) div 16 = (a::nat)"
  by simp

lemma byte_split4': "y < 16 \<Longrightarrow> x div 4 * 4 + (x mod 4 * 16 + y) div 16 = (x::nat)"
  by simp

lemma byte_split16: "z < 4 \<Longrightarrow> (x mod 4 * 16 + y div 16) mod 16 * 16 + (y mod 16 * 4 + z) div 4 = (y::nat)" if "y < 256"
proof -
  assume "z < 4"
  have "y div 16 < 16" using that by linarith
  then have "(x mod 4 * 16 + y div 16) mod 16 = y div 16" by simp
  moreover have "(y mod 16 * 4 + z) div 4 = y mod 16" using \<open>z < 4\<close> by simp
  ultimately show ?thesis by simp
qed

lemma byte_split64: "(x * 4 + y div 64) mod 4 * 64 + y mod 64 = (y::nat)" if "y < 256"
proof -
  have "y div 64 < 4" using that by linarith
  then have "(x * 4 + y div 64) mod 4 = y div 64" by simp
  then show ?thesis by simp
qed

lemma b64Bytes_sextets: "b64Bytes (b64Sextets bs) = Some bs"
proof (induction bs rule: b64Sextets.induct)
  case (3 a b)
  have "byteOf b div 16 < 16" using byteOf_less [of b] by linarith
  then show ?case
    using byte_split16 [of "byteOf b" 0 "byteOf a"] by (simp add: byte_split4')
next
  case (4 a b c rest)
  have "byteOf b div 16 < 16" "byteOf c div 64 < 4" using byteOf_less [of b] byteOf_less [of c] by linarith+
  then show ?case
    using 4 byte_split16 [of "byteOf b" "byteOf c div 64" "byteOf a"] byte_split64 [of "byteOf c" "byteOf b mod 16"]
    by (simp add: byte_split4')
qed simp_all

lemma b64_roundtrip: "b64Decode (b64Encode bs) = Some bs"
proof -
  let ?is = "b64Sextets bs"
  have "filter (\<lambda>c. c \<noteq> CHR 0x0A \<and> c \<noteq> CHR 0x0D) (b64Encode bs) = b64Encode bs"
    by (auto simp: b64Encode_sextets filter_id_conv dest!: b64Sextets_less b64Char_printable)
  moreover have "those (map b64Value (b64Encode bs)) = Some ?is"
    unfolding b64Encode_sextets by (rule those_map_Some) (auto dest: b64Sextets_less b64Value_Char)
  ultimately show ?thesis by (simp add: b64Decode_def Let_def b64Bytes_sextets)
qed

lemma length_bigEndian [simp]: "length (bigEndian n v) = n"
  by (induction n v rule: bigEndian.induct) simp_all

lemma bigEndian_roundtrip: "fromBigEndian (bigEndian n v) = v mod 256 ^ n"
proof (induction n v rule: bigEndian.induct)
  case (2 n v)
  then show ?case by (simp add: fromBigEndian_def mod_mult2_eq)
qed (simp add: fromBigEndian_def)

lemma EncodeCursor_empty: "EncodeCursor c = '''' \<longleftrightarrow> c = Cursor_zero"
proof -
  have "bigEndian 8 v \<noteq> []" for v by (metis length_bigEndian list.size(3) zero_neq_numeral)
  then have "b64Encode (bigEndian 8 v @ t) \<noteq> ''''" for v t
    using b64_roundtrip [of "bigEndian 8 v @ t"] by (auto simp: b64Decode_def)
  then show ?thesis by (auto simp: EncodeCursor_def Cursor_zero_def)
qed

text \<open>A token decodes to the cursor it was made from, for every \<open>uint64\<close> position.\<close>

lemma cursor_roundtrip: "cur_Position c < 2 ^ 64 \<Longrightarrow> DecodeCursor (EncodeCursor c) = Inr c"
proof (cases "c = Cursor_zero")
  case True
  then show ?thesis by (simp add: EncodeCursor_def DecodeCursor_def Cursor_zero_def)
next
  case False
  moreover assume "cur_Position c < 2 ^ 64"
  moreover from False have "\<not> (cur_Position c = 0 \<and> cur_Tiebreak c = '''')" by (auto simp: Cursor_zero_def)
  ultimately show ?thesis
    using EncodeCursor_empty [of c]
    by (auto simp: EncodeCursor_def DecodeCursor_def b64_roundtrip bigEndian_roundtrip split: if_splits)
qed

section \<open>Following the pages\<close>

text \<open>
  A client that asks for page after page: \<open>page n token\<close> is the answer of the endpoint for a page of size \<open>n\<close> behind
  \<open>token\<close>, items and next token. The client may change the size from one page to the next, and stops when the token is
  empty. The result has the items seen, and whether the client got to the end.
\<close>

fun followPages :: "(nat \<Rightarrow> string \<Rightarrow> 'e + 'a list \<times> string) \<Rightarrow> nat list \<Rightarrow> string \<Rightarrow> 'a list \<times> bool" where
  "followPages page [] token = ([], False)"
| "followPages page (n # ns) token =
     (case page n token of
        Inl e \<Rightarrow> ([], False)
      | Inr (items, nxt) \<Rightarrow>
          if nxt = '''' then (items, True)
          else (let (more, done) = followPages page ns nxt in (items @ more, done)))"

text \<open>One page of a list, token to token.\<close>

definition pageOf :: "'a list \<Rightarrow> nat \<Rightarrow> string \<Rightarrow> ConnectError + ('a list \<times> string) outcome" where
  "pageOf items n token =
     (case DecodeCursor token of
        Inl _ \<Rightarrow> Inl (ToConnect ErrValidationFailed ''bad_page_token'')
      | Inr cur \<Rightarrow>
          (case paginate items \<lparr>pr_Size = ClampPageSize n, pr_Cursor = cur\<rparr> of
             Panics \<Rightarrow> Inr Panics
           | Returns (out, nxt) \<Rightarrow> Inr (Returns (out, EncodeCursor nxt))))"

lemma ClampPageSize_bounds: "0 < ClampPageSize n" "ClampPageSize n \<le> MaxPageSize"
  by (auto simp: ClampPageSize_def DefaultPageSize_def MaxPageSize_def)

lemma paginate_at:
  assumes "k \<le> length items" "length items < 2 ^ 63" "0 < n"
  shows "paginate items \<lparr>pr_Size = n, pr_Cursor = \<lparr>cur_Position = k, cur_Tiebreak = ''''\<rparr>\<rparr> =
    Returns (take n (drop k items),
      if length items - k > n then \<lparr>cur_Position = k + n, cur_Tiebreak = ''''\<rparr> else Cursor_zero)"
proof -
  have "int64_of (int k) = int k" using assms by (auto simp: in_int64_def)
  moreover have "n < length items - k \<Longrightarrow> uint64_of (int k + int n) = k + n"
    using assms by (simp add: uint64_of_def)
  ultimately show ?thesis using assms by (simp add: paginate_def Let_def)
qed

text \<open>A token that the endpoint itself gave out, or the empty one, addresses the rest of the list.\<close>

lemma pageOf_token:
  assumes "k \<le> length items" "length items < 2 ^ 63"
  shows "pageOf items n (EncodeCursor \<lparr>cur_Position = k, cur_Tiebreak = ''''\<rparr>) =
    Inr (Returns (take (ClampPageSize n) (drop k items),
      if length items - k > ClampPageSize n
      then EncodeCursor \<lparr>cur_Position = k + ClampPageSize n, cur_Tiebreak = ''''\<rparr> else ''''))"
proof -
  have "DecodeCursor (EncodeCursor \<lparr>cur_Position = k, cur_Tiebreak = ''''\<rparr>) = Inr \<lparr>cur_Position = k, cur_Tiebreak = ''''\<rparr>"
    using assms by (intro cursor_roundtrip) simp
  then show ?thesis
    using assms by (simp add: pageOf_def paginate_at ClampPageSize_bounds EncodeCursor_empty)
qed

definition returned :: "ConnectError + 'a outcome \<Rightarrow> (ConnectError option) + 'a" where
  "returned r = (case r of Inl e \<Rightarrow> Inl (Some e) | Inr Panics \<Rightarrow> Inl None | Inr (Returns x) \<Rightarrow> Inr x)"

text \<open>Whatever sizes the client asks for, it sees every item once and in order, and comes to the end.\<close>

lemma pages_cover:
  assumes "k \<le> length items" "length items < 2 ^ 63" "length items - k < length ns"
  shows "followPages (\<lambda>n t. returned (pageOf items n t)) ns (EncodeCursor \<lparr>cur_Position = k, cur_Tiebreak = ''''\<rparr>) =
    (drop k items, True)"
  using assms
proof (induction ns arbitrary: k)
  case (Cons n ns)
  let ?c = "ClampPageSize n"
  show ?case
  proof (cases "length items - k > ?c")
    case True
    moreover have "0 < ?c" by (rule ClampPageSize_bounds)
    moreover from True Cons.prems have
      "followPages (\<lambda>n t. returned (pageOf items n t)) ns (EncodeCursor \<lparr>cur_Position = k + ?c, cur_Tiebreak = ''''\<rparr>) =
        (drop (k + ?c) items, True)"
      using \<open>0 < ?c\<close> by (intro Cons.IH) auto
    ultimately show ?thesis
      using Cons.prems EncodeCursor_empty [of "\<lparr>cur_Position = k + ?c, cur_Tiebreak = ''''\<rparr>"]
      by (simp add: pageOf_token returned_def Cursor_zero_def append_take_drop_id
          flip: drop_drop [of ?c k, simplified add.commute])
        (metis add.commute append_take_drop_id drop_drop)
  next
    case False
    with Cons.prems show ?thesis by (simp add: pageOf_token returned_def)
  qed
qed simp

text \<open>A token that the client makes up from a position above the 63-bit range makes the endpoint panic.\<close>

lemma forged_token_panics:
  "2 ^ 63 \<le> p \<Longrightarrow> p < 2 ^ 64 \<Longrightarrow> pageOf items n (EncodeCursor \<lparr>cur_Position = p, cur_Tiebreak = ''''\<rparr>) = Inr Panics"
proof -
  assume p: "2 ^ 63 \<le> p" "p < 2 ^ 64"
  then obtain q where q: "p = 2 ^ 63 + q" "q < 2 ^ 63" by (auto simp: le_iff_add)
  have "int p + 2 ^ 63 = int q + 2 ^ 64" unfolding q by simp
  then have "(int p + 2 ^ 63) mod 2 ^ 64 = int q mod 2 ^ 64" by (simp only: mod_add_self2)
  also have "\<dots> = int q" using q by simp
  finally have "int64_of (int p) < 0" using q by (simp add: int64_of_def)
  with p show ?thesis by (simp add: pageOf_def cursor_roundtrip paginate_def Let_def)
qed

section \<open>Queries of a calm database\<close>

lemma Query_calm:
  "faults s = [] \<Longrightarrow> Query cdc q s =
     (scanRows cdc (Matches (QFilter q))
        (selectRange (FromPosition q) (ToPosition q) (if Limit q \<le> 0 then 1000 else nat (Limit q)) (events (db s))), s)"
  by (simp add: Query_def db_call_simps step_simps Let_def split: sum.splits)

text \<open>In terms of the decoded log.\<close>

lemma Query_log:
  assumes "faults s = []" "log_wf (db s)" "scanRows cdc (\<lambda>_. True) (events (db s)) = Inr evs"
  shows "Query cdc q s =
    (Inr (filter (Matches (QFilter q)) (take (if Limit q \<le> 0 then 1000 else nat (Limit q))
      (filter (\<lambda>e. Position e > FromPosition q \<and> (ToPosition q = 0 \<or> Position e \<le> ToPosition q)) evs))), s)"
proof -
  let ?P = "\<lambda>p. p > FromPosition q \<and> (ToPosition q = 0 \<or> p \<le> ToPosition q)"
  have "\<forall>r \<in> set (events (db s)). r_position r < 2 ^ 63"
    using assms(2) by (auto simp: log_wf_def dest: le_less_trans)
  from scanRows_filter [OF scanRows_selected [OF assms(3) this, of _ ?P]] assms(1,2) show ?thesis
    by (simp add: Query_calm selectRange_log)
qed

end
