(* ===== verification/Api_Reads.thy ===== *)
theory Api_Reads
  imports Api_Paging Carport_Dispatch
begin

text \<open>
  The read and command endpoints over the registry, the state cache, the event log and the driver host: the handlers of
  \<^verbatim>\<open>internal/api/service_entity.go\<close>, \<^verbatim>\<open>service_device.go\<close>, \<^verbatim>\<open>service_area.go\<close>, \<^verbatim>\<open>service_zone.go\<close>, \<^verbatim>\<open>service_driver.go\<close> and
  \<^verbatim>\<open>service_event.go\<close> with the adapters of \<^verbatim>\<open>internal/daemon/api_adapters.go\<close> that the daemon gives them. Messages have the
  fields of the API structs and are represented by these.
\<close>

section \<open>Replies\<close>

text \<open>A handler returns a Connect error or a message, or panics.\<close>

type_synonym 'a reply = "(ConnectError + 'a) outcome"

text \<open>
  Errors are texts; \<open>errors.Is\<close> finds the two errors of a context behind the prefixes that wrapping adds. None of the
  stores returns a sentinel of the API.
\<close>

definition asApi :: "error \<Rightarrow> api_error" where
  "asApi e =
     (if suffix ''context canceled'' e then ContextCanceled
      else if suffix ''context deadline exceeded'' e then ContextDeadlineExceeded else OtherError e)"

definition replyWith :: "string \<Rightarrow> (error + 'a) \<times> 's \<Rightarrow> 'a reply \<times> 's" where
  "replyWith reason = (\<lambda>(r, s). (Returns (case r of Inl e \<Rightarrow> Inl (ToConnect (asApi e) reason) | Inr x \<Rightarrow> Inr x), s))"

text \<open>What the list handlers share: the token of the request, and the token of the answer.\<close>

definition listReply ::
  "string \<Rightarrow> (PageReq \<Rightarrow> ('s, ('a list \<times> Cursor) outcome) step) \<Rightarrow> PageRequest option \<Rightarrow> 's \<Rightarrow> ('a list \<times> string) reply \<times> 's" where
  "listReply reason source page s =
     (case DecodeCursor (pageToken page) of
        Inl _ \<Rightarrow> (Returns (Inl (ToConnect ErrValidationFailed ''bad_page_token'')), s)
      | Inr cur \<Rightarrow>
          (case source \<lparr>pr_Size = ClampPageSize (pageSize page), pr_Cursor = cur\<rparr> s of
             (Inl e, s') \<Rightarrow> (Returns (Inl (ToConnect (asApi e) reason)), s')
           | (Inr Panics, s') \<Rightarrow> (Panics, s')
           | (Inr (Returns (items, nxt)), s') \<Rightarrow> (Returns (Inr (items, EncodeCursor nxt)), s')))"

section \<open>Entities\<close>

record ApiEntity =
  ae_ID :: string
  ae_Type :: string
  ae_DeviceID :: string
  ae_AreaID :: string
  ae_ZoneID :: string
  ae_FriendlyName :: string
  ae_State :: "attributes option"

record EntitySelector =
  sel_EntityIDs :: "string list"
  sel_DeviceIDs :: "string list"
  sel_Areas :: "string list"
  sel_Zones :: "string list"
  sel_Classes :: "string list"

definition stringInSelector :: "string list \<Rightarrow> string \<Rightarrow> bool" where
  "stringInSelector values got \<longleftrightarrow> values = [] \<or> containsString values got"

definition entityMatchesSelector :: "ApiEntity \<Rightarrow> EntitySelector \<Rightarrow> bool" where
  "entityMatchesSelector e sel \<longleftrightarrow>
     stringInSelector (sel_EntityIDs sel) (ae_ID e) \<and> stringInSelector (sel_DeviceIDs sel) (ae_DeviceID e) \<and>
     stringInSelector (sel_Areas sel) (ae_AreaID e) \<and> stringInSelector (sel_Zones sel) (ae_ZoneID e) \<and>
     stringInSelector (sel_Classes sel) (ae_Type e)"

definition toAPIEntity :: "Cache \<Rightarrow> RegEntity \<Rightarrow> ApiEntity" where
  "toAPIEntity cache e =
     \<lparr>ae_ID = ID e, ae_Type = EntityType e, ae_DeviceID = DeviceID e, ae_AreaID = AreaID e, ae_ZoneID = '''',
      ae_FriendlyName = FriendlyName e,
      ae_State = (case Get cache (ID e) of None \<Rightarrow> None | Some st \<Rightarrow> Attributes st)\<rparr>"

definition selectorFilter :: "EntitySelector \<Rightarrow> EntityFilter" where
  "selectorFilter sel =
     \<lparr>f_DriverInstanceID = '''',
      f_DeviceID = (if length (sel_DeviceIDs sel) = 1 then sel_DeviceIDs sel ! 0 else ''''),
      f_EntityType = (if length (sel_Classes sel) = 1 then sel_Classes sel ! 0 else ''''),
      f_IncludeDisabled = False\<rparr>"

definition entityReader_ListEntities ::
  "area_state \<Rightarrow> EntitySelector \<Rightarrow> PageReq \<Rightarrow> (('y, Cache, 'z) rst, (ApiEntity list \<times> Cursor) outcome) step" where
  "entityReader_ListEntities ar sel page =
     bindS (ListEntities ar (selectorFilter sel)) (\<lambda>ents s.
       (Inr (paginate (filter (\<lambda>e. entityMatchesSelector e sel) (map (toAPIEntity (mem s)) ents)) page), s))"

definition entityReader_GetEntity :: "area_state \<Rightarrow> string \<Rightarrow> (('y, Cache, 'z) rst, ApiEntity) step" where
  "entityReader_GetEntity ar i = bindS (GetEntity ar i) (\<lambda>e s. (Inr (toAPIEntity (mem s) e), s))"

definition selectorFromProto :: "EntitySelector option \<Rightarrow> EntitySelector" where
  "selectorFromProto p =
     (case p of
        None \<Rightarrow> \<lparr>sel_EntityIDs = [], sel_DeviceIDs = [], sel_Areas = [], sel_Zones = [], sel_Classes = []\<rparr>
      | Some sel \<Rightarrow> sel)"

definition EntityService_List ::
  "area_state \<Rightarrow> EntitySelector option \<Rightarrow> PageRequest option \<Rightarrow> ('y, Cache, 'z) rst
     \<Rightarrow> (ApiEntity list \<times> string) reply \<times> ('y, Cache, 'z) rst" where
  "EntityService_List ar sel = listReply ''list_failed'' (entityReader_ListEntities ar (selectorFromProto sel))"

definition EntityService_Get ::
  "area_state \<Rightarrow> string \<Rightarrow> ('y, Cache, 'z) rst \<Rightarrow> ApiEntity reply \<times> ('y, Cache, 'z) rst" where
  "EntityService_Get ar i s = replyWith ''entity_not_found'' (entityReader_GetEntity ar i s)"

section \<open>Commands\<close>

text \<open>
  The parameters arrive as strings (\<open>fmt.Sprintf("%v")\<close> of the values of the request). The errors of the driver host are
  none of the API's sentinels.
\<close>

record CapabilityCallResult =
  ccr_CorrelationID :: string
  ccr_Success :: bool
  ccr_ErrorMessage :: string

definition dispatchError :: "dispatch_error \<Rightarrow> api_error" where
  "dispatchError e =
     (case e of
        EntityUnknown i \<Rightarrow> OtherError ''carport: entity unknown''
      | ResolveFailed i t \<Rightarrow> asApi t
      | InstanceNotRunning \<Rightarrow> OtherError ''carport: driver instance not running''
      | IssueFailed t \<Rightarrow> asApi t
      | Dispatch_Timeout \<Rightarrow> OtherError ''carport: dispatch timeout''
      | Dispatch_ContextCanceled \<Rightarrow> OtherError ''carport: context canceled''
      | Dispatch_StreamClosed \<Rightarrow> OtherError ''carport: driver stream closed''
      | Dispatch_SendFailed t \<Rightarrow> asApi t)"

definition EntityService_CallCapability where
  "EntityService_CallCapability cdc ps en1 en2 ar h dx entityID capability params s =
     (if entityID = '''' \<or> capability = ''''
      then (Inl (ToConnect ErrValidationFailed ''missing_required_field''), s)
      else case Dispatch cdc ps en1 en2 ar h dx entityID capability params s of
        (Inl e, s') \<Rightarrow> (Inl (ToConnect (dispatchError e) ''call_failed''), s')
      | (Inr res, s') \<Rightarrow>
          (Inr \<lparr>ccr_CorrelationID = cr_CommandId res, ccr_Success = cr_Ok res, ccr_ErrorMessage = cr_ErrorMessage res\<rparr>, s'))"

section \<open>Devices\<close>

record ApiDevice =
  ad_ID :: string
  ad_FriendlyName :: string
  ad_AreaID :: string
  ad_DriverInstanceID :: string
  ad_EntityIDs :: "string list"

definition toAPIDevice :: "Device \<Rightarrow> ApiDevice" where
  "toAPIDevice d = \<lparr>ad_ID = D_ID d, ad_FriendlyName = D_FriendlyName d, ad_AreaID = '''',
     ad_DriverInstanceID = D_DriverInstanceID d, ad_EntityIDs = []\<rparr>"

text \<open>The area of the request is not used.\<close>

definition deviceReader_ListDevices ::
  "string \<Rightarrow> PageReq \<Rightarrow> (('y, 'm, 'z) rst, (ApiDevice list \<times> Cursor) outcome) step" where
  "deviceReader_ListDevices areaID page =
     bindS (ListDevices \<lparr>df_DriverInstanceID = '''', df_IncludeDisabled = False\<rparr>) (\<lambda>devs.
       returnS (paginate (map toAPIDevice devs) page))"

definition deviceReader_GetDevice :: "string \<Rightarrow> (('y, 'm, 'z) rst, ApiDevice) step" where
  "deviceReader_GetDevice i = bindS (GetDevice i) (\<lambda>d. returnS (toAPIDevice d))"

definition DeviceService_List ::
  "string \<Rightarrow> PageRequest option \<Rightarrow> ('y, 'm, 'z) rst \<Rightarrow> (ApiDevice list \<times> string) reply \<times> ('y, 'm, 'z) rst" where
  "DeviceService_List areaID = listReply ''list_failed'' (deviceReader_ListDevices areaID)"

definition DeviceService_Get :: "string \<Rightarrow> ('y, 'm, 'z) rst \<Rightarrow> ApiDevice reply \<times> ('y, 'm, 'z) rst" where
  "DeviceService_Get i s = replyWith ''device_not_found'' (deviceReader_GetDevice i s)"

text \<open>\<open>enc\<close> is the encoding of the event's message, member 70 or 71 of the payload.\<close>

definition deviceEvent :: "gotime \<Rightarrow> string \<Rightarrow> string \<Rightarrow> string \<Rightarrow> payload \<Rightarrow> event" where
  "deviceEvent now kind actor i pl =
     \<lparr>Position = 0, Timestamp = now, Kind = kind, Entity = i, Source = ''api:'' @ actor, CorrelationID = uuid_Nil,
      CausePosition = 0, Payload = Some pl\<rparr>"

definition RenameDevice where
  "RenameDevice cdc en ps enc i newName actor =
     bindS (Append cdc en ps (deviceEvent (env_now en) ''device_renamed'' actor i (OtherPayload 70 (enc i newName)))) (\<lambda>_.
     deviceReader_GetDevice i)"

definition ReassignDevice where
  "ReassignDevice cdc en ps enc i newAreaID actor =
     bindS (Append cdc en ps (deviceEvent (env_now en) ''device_reassigned'' actor i (OtherPayload 71 (enc i newAreaID)))) (\<lambda>_.
     bindS (deviceReader_GetDevice i) (\<lambda>d. returnS (d\<lparr>ad_AreaID := newAreaID\<rparr>)))"

definition DeviceService_Rename where
  "DeviceService_Rename cdc en ps enc i newName actor s =
     (if newName = '''' then (Returns (Inl (ToConnect ErrValidationFailed ''empty_friendly_name'')), s)
      else replyWith ''rename_failed'' (RenameDevice cdc en ps enc i newName actor s))"

definition DeviceService_Reassign where
  "DeviceService_Reassign cdc en ps enc i newAreaID actor s =
     replyWith ''reassign_failed'' (ReassignDevice cdc en ps enc i newAreaID actor s)"

section \<open>Areas and zones\<close>

text \<open>The adapter gives all areas on every page; zones are not tracked.\<close>

definition areaReader_ListAreas :: "area_state \<Rightarrow> PageReq \<Rightarrow> ('s, (Area list \<times> Cursor) outcome) step" where
  "areaReader_ListAreas ar page = returnS (Returns (ListAreasInMemory ar, Cursor_zero))"

definition areaReader_GetArea :: "area_state \<Rightarrow> string \<Rightarrow> ('s, Area) step" where
  "areaReader_GetArea ar i =
     (case GetAreaInMemory ar i of None \<Rightarrow> failS (''area '' @ quoted i @ '' not found'') | Some a \<Rightarrow> returnS a)"

definition AreaService_List where
  "AreaService_List ar = listReply ''list_failed'' (areaReader_ListAreas ar)"

definition AreaService_Get where
  "AreaService_Get ar i s = replyWith ''area_not_found'' (areaReader_GetArea ar i s)"

definition zoneReader_ListZones :: "PageReq \<Rightarrow> ('s, (unit list \<times> Cursor) outcome) step" where
  "zoneReader_ListZones page = returnS (Returns ([], Cursor_zero))"

definition zoneReader_GetZone :: "string \<Rightarrow> ('s, unit) step" where
  "zoneReader_GetZone i = failS (''zone '' @ quoted i @ '' not found'')"

definition ZoneService_List where
  "ZoneService_List = listReply ''list_failed'' zoneReader_ListZones"

definition ZoneService_Get where
  "ZoneService_Get i s = replyWith ''zone_not_found'' (zoneReader_GetZone i s)"

section \<open>Drivers\<close>

record ApiDriverInstance =
  adi_ID :: string
  adi_DriverName :: string
  adi_Status :: string
  adi_LastHandshakeUnixMs :: int

definition toAPIInstance :: "DriverInstance \<Rightarrow> ApiDriverInstance" where
  "toAPIInstance di =
     \<lparr>adi_ID = DI_ID di, adi_DriverName = DriverName di, adi_Status = Status di,
      adi_LastHandshakeUnixMs = (if time_IsZero (LastHeartbeat di) then 0 else int64_of (LastHeartbeat di div 1000000))\<rparr>"

definition driverControl_ListInstances ::
  "PageReq \<Rightarrow> (('y, 'm, 'z) rst, (ApiDriverInstance list \<times> Cursor) outcome) step" where
  "driverControl_ListInstances page =
     bindS ListDriverInstances (\<lambda>instances. returnS (paginate (map toAPIInstance instances) page))"

definition DriverService_ListDrivers where
  "DriverService_ListDrivers = listReply ''list_failed'' (\<lambda>page. returnS (Returns ([] :: unit list, Cursor_zero)))"

definition DriverService_ListInstances ::
  "PageRequest option \<Rightarrow> ('y, 'm, 'z) rst \<Rightarrow> (ApiDriverInstance list \<times> string) reply \<times> ('y, 'm, 'z) rst" where
  "DriverService_ListInstances = listReply ''list_failed'' driverControl_ListInstances"

text \<open>The answer of the health probe: whether the instance runs, and the name of its state.\<close>

definition DriverService_InstanceHealth :: "Host \<Rightarrow> string \<Rightarrow> bool \<times> Carport_Lifecycle.State" where
  "DriverService_InstanceHealth h i = (let state = InstanceState i h in (state = StateRunning, state))"

definition DriverService_RestartInstance where
  "DriverService_RestartInstance h i =
     (case RestartInstance i h of
        (Inl e, h') \<Rightarrow> (Inl (ToConnect (asApi e) ''restart_failed''), h')
      | (Inr _, h') \<Rightarrow> (Inr (), h'))"

text \<open>The driver management view: the live state of the supervisor is preferred to the status in the registry.\<close>

fun liveStatusString :: "Carport_Lifecycle.State \<Rightarrow> string" where
  "liveStatusString StateRunning = ''running''"
| "liveStatusString StateSpawning = ''reconnecting''"
| "liveStatusString StateAwaitingHandshake = ''reconnecting''"
| "liveStatusString StateBackoff = ''reconnecting''"
| "liveStatusString StateFailed = ''degraded''"
| "liveStatusString StateStopping = ''stopped''"
| "liveStatusString StateStopped = ''stopped''"
| "liveStatusString StateQuarantined = ''stopped''"
| "liveStatusString StateDeclared = ''reconnecting''"

record DriverSummary =
  ds_Id :: string
  ds_Pack :: string
  ds_Status :: string
  ds_UptimeSeconds :: int
  ds_EntityCount :: nat

text \<open>\<open>seconds d\<close> is \<open>int64(d.Seconds())\<close>.\<close>

definition driverSummary ::
  "(duration \<Rightarrow> int) \<Rightarrow> gotime \<Rightarrow> Host \<Rightarrow> area_state \<Rightarrow> DriverInstance \<Rightarrow> ('y, 'm, 'z) rst \<Rightarrow> DriverSummary \<times> ('y, 'm, 'z) rst" where
  "driverSummary seconds now h ar di s =
     (let live = liveStatusString (InstanceState (DI_ID di) h);
          (ents, s') = ListEntities ar \<lparr>f_DriverInstanceID = DI_ID di, f_DeviceID = '''', f_EntityType = '''',
                         f_IncludeDisabled = True\<rparr> s in
      (\<lparr>ds_Id = DI_ID di, ds_Pack = DriverName di, ds_Status = (if live \<noteq> '''' then live else Status di),
        ds_UptimeSeconds = (if time_IsZero (StartedAt di) then 0 else seconds (now - StartedAt di)),
        ds_EntityCount = (case ents of Inl _ \<Rightarrow> 0 | Inr es \<Rightarrow> length es mod 2 ^ 32)\<rparr>, s'))"

fun summariesOf where
  "summariesOf seconds now h ar [] s = ([], s)"
| "summariesOf seconds now h ar (di # dis) s =
     (let (d, s1) = driverSummary seconds now h ar di s; (ds, s2) = summariesOf seconds now h ar dis s1 in (d # ds, s2))"

definition ListRunning ::
  "(duration \<Rightarrow> int) \<Rightarrow> gotime \<Rightarrow> Host \<Rightarrow> area_state \<Rightarrow> (('y, 'm, 'z) rst, DriverSummary list) step" where
  "ListRunning seconds now h ar =
     bindS ListDriverInstances (\<lambda>instances s.
       let (ds, s') = summariesOf seconds now h ar instances s in (Inr ds, s'))"

section \<open>Events\<close>

record ApiEvent =
  av_Cursor :: nat
  av_At :: gotime
  av_Kind :: string
  av_Entity :: string
  av_Source :: string
  av_CorrelationID :: string
  av_CauseID :: string
  av_Payload :: "payload option"

record EventFilter =
  ef_Kinds :: "string list"
  ef_EntityPrefix :: string
  ef_Sources :: "string list"
  ef_FromCursor :: nat
  ef_ToCursor :: nat
  ef_FromTime :: gotime
  ef_ToTime :: gotime

text \<open>\<open>uuidString\<close> is the text of a correlation id.\<close>

definition toAPIEvent :: "(uuid \<Rightarrow> string) \<Rightarrow> event \<Rightarrow> ApiEvent" where
  "toAPIEvent uuidString e =
     \<lparr>av_Cursor = Position e, av_At = Timestamp e, av_Kind = Kind e, av_Entity = Entity e, av_Source = Source e,
      av_CorrelationID = uuidString (CorrelationID e), av_CauseID = '''', av_Payload = Payload e\<rparr>"

definition eventSource_options :: "EventFilter \<Rightarrow> PageReq \<Rightarrow> QueryOptions" where
  "eventSource_options f page =
     \<lparr>FromPosition = ef_FromCursor f, ToPosition = ef_ToCursor f,
      QFilter = Filter_zero\<lparr>Kinds := ef_Kinds f, Sources := ef_Sources f\<rparr>, Limit = int (pr_Size page)\<rparr>"

definition eventSource_Query ::
  "codec \<Rightarrow> (uuid \<Rightarrow> string) \<Rightarrow> EventFilter \<Rightarrow> PageReq \<Rightarrow> (('x, 'm, 'z) st, (ApiEvent list \<times> Cursor) outcome) step" where
  "eventSource_Query cdc uuidString f page =
     bindS (Query cdc (eventSource_options f page)) (\<lambda>evs.
       returnS (Returns (map (toAPIEvent uuidString) evs,
         if length evs \<ge> pr_Size page \<and> pr_Size page > 0
         then \<lparr>cur_Position = (if evs = [] then 0 else Position (last evs)), cur_Tiebreak = ''''\<rparr> else Cursor_zero)))"

definition eventFilterFromProto :: "EventFilter option \<Rightarrow> EventFilter" where
  "eventFilterFromProto f =
     (case f of
        None \<Rightarrow> \<lparr>ef_Kinds = [], ef_EntityPrefix = '''', ef_Sources = [], ef_FromCursor = 0, ef_ToCursor = 0,
                 ef_FromTime = time_zero, ef_ToTime = time_zero\<rparr>
      | Some f' \<Rightarrow> f')"

definition EventService_Query ::
  "codec \<Rightarrow> (uuid \<Rightarrow> string) \<Rightarrow> EventFilter option \<Rightarrow> PageRequest option \<Rightarrow> ('x, 'm, 'z) st
     \<Rightarrow> (ApiEvent list \<times> string) reply \<times> ('x, 'm, 'z) st" where
  "EventService_Query cdc uuidString f =
     listReply ''query_failed'' (eventSource_Query cdc uuidString (eventFilterFromProto f))"

section \<open>Lists come in pages\<close>

text \<open>Reads on a database that does not fail leave the store as it is.\<close>

lemma ListEntities_calm:
  "faults s = [] \<Longrightarrow> ListEntities ar f s =
     (Inr (map (\<lambda>(i, r). (scanEntity (i, r))\<lparr>AreaID := AreaForEntity ar i\<rparr>)
        (sort_key fst (filter (\<lambda>(_, r). entityWhere f r) (entities (db s))))), s)"
  by (simp add: ListEntities_def db_call_simps step_simps)

lemma ListDevices_calm:
  "faults s = [] \<Longrightarrow> ListDevices f s =
     (Inr (map scanDevice (sort_key fst (filter (\<lambda>(_, r).
         (df_DriverInstanceID f \<noteq> '''' \<longrightarrow> dv_driver_instance_id r = df_DriverInstanceID f) \<and>
         (\<not> df_IncludeDisabled f \<longrightarrow> \<not> dv_disabled r)) (devices (db s))))), s)"
  by (simp add: ListDevices_def db_call_simps step_simps)

lemma ListDriverInstances_calm:
  "faults s = [] \<Longrightarrow> ListDriverInstances s = (Inr (map scanDriverInstance (sort_key fst (driver_instances (db s)))), s)"
  by (simp add: ListDriverInstances_def db_call_simps step_simps)

text \<open>What the entity list is meant to give: the enabled entities that the selector admits, in the order of their ids.\<close>

definition enabledEntity :: "area_state \<Rightarrow> Cache \<Rightarrow> string \<times> entity_row \<Rightarrow> ApiEntity" where
  "enabledEntity ar cache = (\<lambda>(i, r). toAPIEntity cache ((scanEntity (i, r))\<lparr>AreaID := AreaForEntity ar i\<rparr>))"

definition selectedEntities :: "area_state \<Rightarrow> EntitySelector \<Rightarrow> ('y, Cache, 'z) rst \<Rightarrow> ApiEntity list" where
  "selectedEntities ar sel s =
     filter (\<lambda>e. entityMatchesSelector e sel)
       (map (enabledEntity ar (mem s)) (sort_key fst (filter (\<lambda>(i, r). \<not> en_disabled r) (entities (db s)))))"

text \<open>The conditions that the adapter puts into the statement drop nothing the selector admits.\<close>

lemma selected_where:
  "entityMatchesSelector (enabledEntity ar cache (i, r)) sel \<Longrightarrow> \<not> en_disabled r \<Longrightarrow> entityWhere (selectorFilter sel) r"
proof -
  have single: "length xs = 1 \<Longrightarrow> stringInSelector xs x \<Longrightarrow> xs ! 0 = x" for xs :: "string list" and x
    by (cases xs) (auto simp: stringInSelector_def)
  assume "entityMatchesSelector (enabledEntity ar cache (i, r)) sel" "\<not> en_disabled r"
  then show ?thesis
    using single [of "sel_DeviceIDs sel" "coalesce '''' (en_device_id r)"] single [of "sel_Classes sel" "en_entity_type r"]
    by (cases "en_device_id r")
      (auto simp: entityWhere_def selectorFilter_def entityMatchesSelector_def enabledEntity_def toAPIEntity_def
        scanEntity_def coalesce_def)
qed

lemma filter_sort_key: "filter P (sort_key f xs) = sort_key f (filter P xs)"
  by (rule filter_sort)

lemma selectedEntities_prefilter:
  "filter (\<lambda>e. entityMatchesSelector e sel) (map (enabledEntity ar (mem s))
     (sort_key fst (filter (\<lambda>(_, r). entityWhere (selectorFilter sel) r) (entities (db s))))) = selectedEntities ar sel s"
proof -
  have "filter (\<lambda>x. entityMatchesSelector (enabledEntity ar (mem s) x) sel \<and> entityWhere (selectorFilter sel) (snd x)) xs =
      filter (\<lambda>x. entityMatchesSelector (enabledEntity ar (mem s) x) sel \<and> \<not> en_disabled (snd x)) xs" for xs
    using selected_where [of ar "mem s" _ _ sel]
    by (intro filter_cong) (auto simp: entityWhere_def selectorFilter_def split: if_splits)
  then show ?thesis
    by (simp add: selectedEntities_def filter_map filter_sort comp_def conj_commute case_prod_beta)
qed

lemma entityReader_calm:
  assumes "faults s = []"
  shows "entityReader_ListEntities ar sel page s = (Inr (paginate (selectedEntities ar sel s) page), s)"
proof -
  have "map (toAPIEntity (mem s)) (map (\<lambda>(i, r). (scanEntity (i, r))\<lparr>AreaID := AreaForEntity ar i\<rparr>) xs) =
      map (enabledEntity ar (mem s)) xs" for xs
    by (auto simp: enabledEntity_def)
  with assms show ?thesis
    by (simp only: entityReader_ListEntities_def bindS_def ListEntities_calm prod.case sum.case selectedEntities_prefilter)
qed

text \<open>The answer to the client of a list handler: an error or a panic, or a page.\<close>

definition answer :: "'a reply \<times> 's \<Rightarrow> (ConnectError option) + 'a" where
  "answer r = (case fst r of Panics \<Rightarrow> Inl None | Returns (Inl e) \<Rightarrow> Inl (Some e) | Returns (Inr x) \<Rightarrow> Inr x)"

abbreviation pageAt :: "nat \<Rightarrow> string \<Rightarrow> PageRequest option" where
  "pageAt n token \<equiv> Some \<lparr>PageToken = token, PageSize = n\<rparr>"

lemma listReply_pages:
  assumes "\<And>page. source page s = (Inr (paginate items page), s)"
  shows "answer (listReply reason source (pageAt n t) s) = returned (pageOf items n t)"
  using assms
  by (auto simp: listReply_def answer_def pageOf_def returned_def pageToken_def pageSize_def split: sum.splits outcome.splits)

lemma listReply_covers:
  assumes "\<And>page. source page s = (Inr (paginate items page), s)" "length items < 2 ^ 63" "length items < length ns"
  shows "followPages (\<lambda>n t. answer (listReply reason source (pageAt n t) s)) ns '''' = (items, True)"
proof -
  have "answer (listReply reason source (pageAt n t) s) = returned (pageOf items n t)" for n t
    using assms(1) by (rule listReply_pages)
  then show ?thesis
    using pages_cover [of 0 items ns] assms(2,3) EncodeCursor_empty [of Cursor_zero] by (simp add: Cursor_zero_def)
qed


text \<open>One device and one entity in a small registry.\<close>

definition demoRegistry :: "(registry_db, Cache) store" where
  "demoRegistry =
     (let s = emptyStore [] in
      s\<lparr>db := (db s)\<lparr>
        devices := [(''hub'', \<lparr>dv_driver_instance_id = ''hue'', dv_friendly_name = ''Hub'', dv_manufacturer = None,
          dv_model = None, dv_sw_version = None, dv_metadata = None, dv_disabled = False, dv_created_at = 0,
          dv_updated_at = 0\<rparr>)],
        entities := [(''lamp'', \<lparr>en_device_id = Some ''hub'', en_driver_instance_id = ''hue'', en_entity_type = ''light'',
          en_friendly_name = ''Lamp'', en_capabilities = '''', en_disabled = False, en_created_at = 0, en_updated_at = 0\<rparr>)]\<rparr>\<rparr>)"


section \<open>The event history does not\<close>

text \<open>The adapter never looks at the cursor.\<close>

lemma EventService_Query_token:
  assumes "DecodeCursor t = Inr cur"
  shows "EventService_Query cdc us f (pageAt n t) s = EventService_Query cdc us f (pageAt n '''') s"
proof -
  have "DecodeCursor '''' = Inr Cursor_zero" by (simp add: DecodeCursor_def)
  with assms show ?thesis
    by (simp add: EventService_Query_def listReply_def pageToken_def pageSize_def eventSource_Query_def eventSource_options_def)
qed

lemma scanRows_bound: "scanRows cdc keep rows = Inr evs \<Longrightarrow> length evs \<le> length rows"
  by (induction rows arbitrary: evs) (auto simp: le_Suc_eq split: sum.splits if_splits)

lemma scanRows_from: "scanRows cdc keep rows = Inr evs \<Longrightarrow> e \<in> set evs \<Longrightarrow> \<exists>r \<in> set rows. scanEvent cdc r = Inr e \<and> keep e"
  by (induction rows arbitrary: evs) (auto split: sum.splits if_splits)

text \<open>The events in the range of a query, in the order of the log.\<close>

definition inRange :: "EventFilter \<Rightarrow> event_row list \<Rightarrow> event_row list" where
  "inRange f rows =
     sort_key r_position (filter (\<lambda>r. r_position r > ef_FromCursor f \<and> (ef_ToCursor f = 0 \<or> r_position r \<le> ef_ToCursor f)) rows)"

definition firstPage :: "codec \<Rightarrow> EventFilter \<Rightarrow> nat \<Rightarrow> event_row list \<Rightarrow> error + event list" where
  "firstPage cdc f n rows =
     scanRows cdc (Matches (Filter_zero\<lparr>Kinds := ef_Kinds f, Sources := ef_Sources f\<rparr>)) (take n (inRange f rows))"

lemma EventService_Query_calm:
  assumes "faults s = []" "firstPage cdc (eventFilterFromProto f) (ClampPageSize n) (events (db s)) = Inr evs"
  shows "answer (EventService_Query cdc us f (pageAt n '''') s) =
    Inr (map (toAPIEvent us) evs,
      if length evs = ClampPageSize n then EncodeCursor \<lparr>cur_Position = Position (last evs), cur_Tiebreak = ''''\<rparr> else '''')"
proof -
  let ?f = "eventFilterFromProto f" and ?n = "ClampPageSize n"
  have n: "0 < ?n" by (rule ClampPageSize_bounds)
  have "length evs \<le> ?n"
    using scanRows_bound [OF assms(2) [unfolded firstPage_def]] by simp
  then have len: "length evs \<ge> ?n \<longleftrightarrow> length evs = ?n" by auto
  have "Query cdc (eventSource_options ?f \<lparr>pr_Size = ?n, pr_Cursor = Cursor_zero\<rparr>) s = (Inr evs, s)"
    using assms n by (simp add: Query_calm eventSource_options_def firstPage_def inRange_def selectRange_def)
  then show ?thesis
    using n len EncodeCursor_empty [of Cursor_zero]
    by (auto simp: EventService_Query_def listReply_def pageToken_def pageSize_def DecodeCursor_def eventSource_Query_def
        bindS_def returnS_def answer_def)
qed

lemma followPages_repeats:
  assumes "\<And>n t. n \<in> set ns \<Longrightarrow> t = '''' \<or> t \<in> T \<Longrightarrow> page n t = Inr (items, tok)" "tok \<noteq> ''''" "tok \<in> T" "t = '''' \<or> t \<in> T"
  shows "followPages page ns t = (concat (replicate (length ns) items), False)"
  using assms(1,4)
proof (induction ns arbitrary: t)
  case (Cons n ns)
  have "page n t = Inr (items, tok)" using Cons.prems by simp
  moreover have "followPages page ns tok = (concat (replicate (length ns) items), False)"
    using Cons.prems(1) assms(3) by (intro Cons.IH) auto
  ultimately show ?case using assms(2) by simp
qed simp

lemma eventSource_Query_ignores:
  "eventSource_Query cdc us (g\<lparr>ef_EntityPrefix := p, ef_FromTime := t0, ef_ToTime := t1\<rparr>) = eventSource_Query cdc us g"
  by (simp add: fun_eq_iff eventSource_Query_def eventSource_options_def)

text \<open>
  Paging through the event history never gets past the first page, although the answer carries a token: when the rows of
  the range fill a page and all match, the client that follows the tokens gets the same events for ever and never comes
  to an end; and when fewer than a page of the first rows match, the answer has no token, however many matching events
  follow. The prefix of the entity and the times of the filter are ignored.
\<close>

theorem event_history_stuck:
  assumes "faults s = []" "firstPage cdc (eventFilterFromProto f) (ClampPageSize n) (events (db s)) = Inr evs"
    and "log_wf (db s)"
  shows "(length evs = ClampPageSize n \<longrightarrow>
      followPages (\<lambda>n t. answer (EventService_Query cdc us f (pageAt n t) s)) (replicate k n) '''' =
        (concat (replicate k (map (toAPIEvent us) evs)), False)) \<and>
    (length evs < ClampPageSize n \<longrightarrow>
      answer (EventService_Query cdc us f (pageAt n '''') s) = Inr (map (toAPIEvent us) evs, '''')) \<and>
    EventService_Query cdc us (Some (eventFilterFromProto f)) (pageAt n '''') s =
      EventService_Query cdc us (Some ((eventFilterFromProto f)\<lparr>ef_EntityPrefix := p, ef_FromTime := t0, ef_ToTime := t1\<rparr>))
        (pageAt n '''') s"
proof (intro conjI impI)
  let ?page = "\<lambda>n t. answer (EventService_Query cdc us f (pageAt n t) s)"
  note calm = EventService_Query_calm [OF assms(1,2), of us]
  assume full: "length evs = ClampPageSize n"
  then have ne: "evs \<noteq> []" using ClampPageSize_bounds(1) [of n] by auto
  then have "last evs \<in> set evs" by simp
  from scanRows_from [OF assms(2) [unfolded firstPage_def] this]
  obtain r where r: "r \<in> set (events (db s))" "scanEvent cdc r = Inr (last evs)"
    by (auto simp: inRange_def dest!: in_set_takeD)
  then have "0 < r_position r" "r_position r < 2 ^ 63" using assms(3) by (auto simp: log_wf_def dest: le_less_trans)
  with scanEvent_Position [OF r(2)] have pos: "0 < Position (last evs)" "Position (last evs) < 2 ^ 64" by simp_all
  let ?c = "\<lparr>cur_Position = Position (last evs), cur_Tiebreak = ''''\<rparr>"
  have "EventService_Query cdc us f (pageAt n (EncodeCursor ?c)) s = EventService_Query cdc us f (pageAt n '''') s"
    by (rule EventService_Query_token [OF cursor_roundtrip]) (use pos in simp)
  then have "?page m t = Inr (map (toAPIEvent us) evs, EncodeCursor ?c)"
    if "m \<in> set (replicate k n)" "t = '''' \<or> t \<in> {EncodeCursor ?c}" for m t
    using that calm full by auto
  then show "followPages ?page (replicate k n) '''' = (concat (replicate k (map (toAPIEvent us) evs)), False)"
    using followPages_repeats [of "replicate k n" "{EncodeCursor ?c}" ?page _ "EncodeCursor ?c" "''''"] pos
    by (simp add: EncodeCursor_empty Cursor_zero_def)
next
  assume "length evs < ClampPageSize n"
  then show "answer (EventService_Query cdc us f (pageAt n '''') s) = Inr (map (toAPIEvent us) evs, '''')"
    using EventService_Query_calm [OF assms(1,2), of us] by simp
next
  show "EventService_Query cdc us (Some g) (pageAt n '''') s =
      EventService_Query cdc us (Some (g\<lparr>ef_EntityPrefix := p, ef_FromTime := t0, ef_ToTime := t1\<rparr>)) (pageAt n '''') s" for g
    by (simp add: EventService_Query_def eventFilterFromProto_def eventSource_Query_ignores)
qed

lemma demoStored_page:
  "faults demoStored = []"
  "firstPage demoCodec (eventFilterFromProto None) (ClampPageSize 1) (events (db demoStored)) =
     Inr [(fillDefaults 7 (replicate 16 (CHR ''x'')) demoEvent)\<lparr>Position := 1\<rparr>]"
proof -
  let ?e = "(fillDefaults 7 (replicate 16 (CHR ''x'')) demoEvent)\<lparr>Position := 1\<rparr>"
  show "faults demoStored = []" unfolding demoStored_def by (simp add: demo_append_simps)
  have "events (db demoStored) = [rowOf demoCodec ?e]" "scanEvent demoCodec (rowOf demoCodec ?e) = Inr ?e"
    using Append_stored [OF demoStored_append store_ok_settled [OF emptyStore_ok] demoCodec_roundtrip demo_wf]
    by (simp_all add: demoEnv_def emptyStore_def)
  then show "firstPage demoCodec (eventFilterFromProto None) (ClampPageSize 1) (events (db demoStored)) = Inr [?e]"
    by (simp add: firstPage_def inRange_def eventFilterFromProto_def ClampPageSize_def MaxPageSize_def rowOf_def eventRow_def
        Filter_zero_def [symmetric] del: One_nat_def) (simp add: Matches_iff Filter_zero_def)
qed

theorem event_history_stuck_witness:
  "followPages (\<lambda>n t. answer (EventService_Query demoCodec (\<lambda>u. u) None (pageAt n t) demoStored)) (replicate 3 1) '''' =
     (concat (replicate 3 (map (toAPIEvent (\<lambda>u. u))
       [(fillDefaults 7 (replicate 16 (CHR ''x'')) demoEvent)\<lparr>Position := 1\<rparr>])), False)"
  using event_history_stuck [OF demoStored_page, of "\<lambda>u. u" 3] demoStored_ok
  by (simp add: store_ok_def ClampPageSize_def MaxPageSize_def)

section \<open>Edits of devices\<close>

lemma deviceEvent_kept: "registryStep ma (stored en (deviceEvent at kind actor i (OtherPayload j b)) pos) v = v"
  by (simp add: registryStep_def stored_def fillDefaults_def deviceEvent_def)

lemma GetDevice_frame: "db (snd (deviceReader_GetDevice i s)) = db s"
  by (auto simp: deviceReader_GetDevice_def GetDevice_def step_simps dbQuery_def dbStmt_def Let_def split: option.splits list.splits)

lemma GetDevice_row:
  assumes "deviceReader_GetDevice i s = (Inr d, t)"
  shows "\<exists>row. rv_devices (regView (db s)) i = Some row \<and> d = toAPIDevice (scanDevice (i, row))"
  using assms
  by (auto simp: deviceReader_GetDevice_def GetDevice_def step_simps dbQuery_def dbStmt_def Let_def regView_def
      split: option.splits list.splits)

lemma deviceEdit_outcome:
  assumes "Append cdc en (daemonProjectors ma k now) (deviceEvent at kind actor i (OtherPayload j b)) s = (r, u)"
    and "daemon.settled (mem s)"
  shows "regView (db u) = regView (db s) \<and>
    (\<forall>pos. r = Inr pos \<longrightarrow> events (db u) = events (db s) @ [rowOf cdc (stored en (deviceEvent at kind actor i (OtherPayload j b)) pos)])"
  using Append_outcome [OF assms] by (auto simp: deviceEvent_kept split: sum.splits)

text \<open>
  Renaming a device and moving it to another area have no effect: whatever the handler answers, the registry is as before,
  because no projector knows the two events; a successful rename answers with the old name, a successful move claims an
  area that the next read of the device does not have.
\<close>

theorem device_edits_lost:
  assumes "cacheStaged (mem s) = cacheView (mem s)"
    and "RenameDevice cdc en (daemonProjectors ma k now) enc i newName actor s = (r1, t1)"
    and "ReassignDevice cdc en (daemonProjectors ma k now) enc i newArea actor s = (r2, t2)"
  shows "regView (db t1) = regView (db s) \<and> regView (db t2) = regView (db s) \<and>
    (\<forall>d. r1 = Inr d \<longrightarrow> length (events (db t1)) = Suc (length (events (db s))) \<and>
       (\<exists>row. rv_devices (regView (db s)) i = Some row \<and> ad_FriendlyName d = dv_friendly_name row)) \<and>
    (\<forall>d d' u. r2 = Inr d \<longrightarrow> deviceReader_GetDevice i t2 = (Inr d', u) \<longrightarrow> ad_AreaID d = newArea \<and> ad_AreaID d' = '''')"
proof -
  have st: "daemon.settled (mem s)" using assms(1) by (simp add: daemon.settled_def)
  let ?e = "\<lambda>kind j b. deviceEvent (env_now en) kind actor i (OtherPayload j b)"
  obtain q1 u1 where a1: "Append cdc en (daemonProjectors ma k now) (?e ''device_renamed'' 70 (enc i newName)) s = (q1, u1)"
    by fastforce
  obtain q2 u2 where a2: "Append cdc en (daemonProjectors ma k now) (?e ''device_reassigned'' 71 (enc i newArea)) s = (q2, u2)"
    by fastforce
  note o1 = deviceEdit_outcome [OF a1 st] and o2 = deviceEdit_outcome [OF a2 st]
  have t1: "db t1 = db u1 \<and> (\<forall>d. r1 = Inr d \<longrightarrow> (\<exists>pos. q1 = Inr pos) \<and> (\<exists>v. deviceReader_GetDevice i u1 = (Inr d, v)))"
    using assms(2) a1 GetDevice_frame [of i u1]
    by (cases q1) (auto simp: RenameDevice_def bindS_def dest: arg_cong [where f = snd])
  have t2: "db t2 = db u2 \<and> (\<forall>d. r2 = Inr d \<longrightarrow> ad_AreaID d = newArea)"
    using assms(3) a2 GetDevice_frame [of i u2]
    by (cases q2) (auto simp: ReassignDevice_def bindS_def returnS_def split: prod.splits sum.splits)
  have "\<exists>row. rv_devices (regView (db s)) i = Some row \<and> ad_FriendlyName d = dv_friendly_name row" if "r1 = Inr d" for d
    using t1 that o1 GetDevice_row [of i u1 d] by (auto simp: toAPIDevice_def scanDevice_def)
  moreover have "ad_AreaID d' = ''''" if "deviceReader_GetDevice i t2 = (Inr d', u)" for d' u
    using GetDevice_row [OF that] by (auto simp: toAPIDevice_def)
  ultimately show ?thesis using o1 o2 t1 t2 by (auto simp: regView_def)
qed

theorem device_edits_lost_witness:
  "\<exists>d t. RenameDevice \<lparr>marshalPayload = (\<lambda>p. Inr ''m''), unmarshalPayload = (\<lambda>b. Inl ''opaque'')\<rparr> demoEnv
       (daemonProjectors demoMarshal demoSnapshotCodec 0) (\<lambda>i n. i @ n) ''hub'' ''Attic'' ''me'' demoRegistry = (Inr d, t) \<and>
     regView (db t) = regView (db demoRegistry) \<and> ad_FriendlyName d = ''Hub''"
proof -
  let ?cdc = "\<lparr>marshalPayload = (\<lambda>p. Inr ''m''), unmarshalPayload = (\<lambda>b. Inl ''opaque'')\<rparr> :: codec"
  let ?ps = "daemonProjectors demoMarshal demoSnapshotCodec 0"
  obtain r1 t1 where rn: "RenameDevice ?cdc demoEnv ?ps (\<lambda>i n. i @ n) ''hub'' ''Attic'' ''me'' demoRegistry = (r1, t1)" by fastforce
  obtain r2 t2 where ra: "ReassignDevice ?cdc demoEnv ?ps (\<lambda>i n. i @ n) ''hub'' ''attic'' ''me'' demoRegistry = (r2, t2)" by fastforce
  have "cacheStaged (mem demoRegistry) = cacheView (mem demoRegistry)"
    by (simp add: demoRegistry_def emptyStore_def Let_def cacheStaged_def cacheView_def New_def)
  from device_edits_lost [OF this rn ra]
  have "regView (db t1) = regView (db demoRegistry)"
    "\<forall>d. r1 = Inr d \<longrightarrow> (\<exists>row. rv_devices (regView (db demoRegistry)) ''hub'' = Some row \<and> ad_FriendlyName d = dv_friendly_name row)"
    by blast+
  moreover have "\<exists>d. r1 = Inr d"
    using arg_cong [OF rn, of fst]
    by (simp add: RenameDevice_def deviceEvent_def demoRegistry_def deviceReader_GetDevice_def GetDevice_def demo_append_simps)
      (metis)
  ultimately show ?thesis using rn by (auto simp: demoRegistry_def emptyStore_def Let_def regView_def)
qed

section \<open>Errors and states that the client does not see\<close>

text \<open>
  An id that does not exist is answered with an internal error, not with \<open>NotFound\<close>: the registry's errors are none of
  the API's sentinels. So is every refusal of the driver host.
\<close>

lemma missing_entity_internal:
  assumes "faults s = []" "map_of (entities (db s)) i = None"
  shows "EntityService_Get ar i s =
    (Returns (Inl \<lparr>ce_Code = CodeInternal, ce_Message = ''internal error'', ce_Reason = ''entity_not_found''\<rparr>), s)"
  using assms
  by (simp add: EntityService_Get_def entityReader_GetEntity_def GetEntity_def step_simps db_call_simps replyWith_def
      ToConnect_def asApi_def suffix_def)

text \<open>A page token that was not handed out can make a list handler panic.\<close>

lemma forged_token:
  assumes "faults s = []" "2 ^ 63 \<le> p" "p < 2 ^ 64"
  shows "fst (EntityService_List ar sel (pageAt n (EncodeCursor \<lparr>cur_Position = p, cur_Tiebreak = ''''\<rparr>)) s) = Panics"
  using forged_token_panics [OF assms(2,3), of "selectedEntities ar (selectorFromProto sel) s" n] assms(1)
  by (auto simp: EntityService_List_def listReply_def pageToken_def pageSize_def entityReader_calm pageOf_def
      split: sum.splits outcome.splits)

text \<open>
  The registry's status of a driver is never shown: the supervisor's state of an instance it does not know is the declared
  one, which has a text of its own.
\<close>

lemma liveStatus_always: "liveStatusString st \<noteq> ''''"
  by (cases st) simp_all

lemma unknown_driver_reconnecting:
  "instances h (DI_ID di) = None \<Longrightarrow> ds_Status (fst (driverSummary seconds now h ar di s)) = ''reconnecting''"
  by (simp add: driverSummary_def InstanceState_def Let_def case_prod_beta)

end
