(* ===== verification/Time_Travel.thy ===== *)
theory Time_Travel
  imports Api_Paging Service_Base
begin

text \<open>
  The replay service, \<^verbatim>\<open>internal/replay\<close>: the state of all entities at a past position of the log, rebuilt from the events
  up to it (\<^verbatim>\<open>snapshots.go\<close>), what the event at that position changed, chains of causes and windows of the log (\<^verbatim>\<open>service.go\<close>),
  over the event store (\<^verbatim>\<open>store_adapter.go\<close>).
\<close>

section \<open>Events as field updates\<close>

text \<open>
  The texts that Go's formatting gives: \<open>%g\<close> of a double, a correlation id, the JSON of a payload (or nothing when it does
  not marshal).
\<close>

record texts =
  tx_g :: "64 word \<Rightarrow> string"
  tx_uuid :: "uuid \<Rightarrow> string"
  tx_json :: "payload \<Rightarrow> string option"

text \<open>Maps are lists of entries; a range goes through them in the order of the list.\<close>

type_synonym fields = "(string \<times> string) list"
type_synonym EntityStateMap = "(string \<times> fields) list"

record EntityEvent =
  ee_Seq :: nat
  ee_EntityID :: string
  ee_Fields :: fields
  ee_EventID :: string
  ee_Kind :: string
  ee_Source :: string
  ee_CausationID :: string
  ee_CorrelationID :: string
  ee_OccurredAt :: gotime
  ee_PayloadJSON :: string

definition boolText :: "bool \<Rightarrow> string" where
  "boolText b = (if b then ''true'' else ''false'')"

definition kindFields :: "texts \<Rightarrow> attr_kind option \<Rightarrow> fields" where
  "kindFields tx kind =
     (case kind of
        Some (Light isOn brightness colorTemp colorRgb) \<Rightarrow>
          [(''on'', boolText isOn), (''brightness'', showNat (unat brightness))] @
          (if colorTemp \<noteq> 0 then [(''color_temp'', showNat (unat colorTemp))] else []) @
          (if colorRgb \<noteq> 0 then [(''color_rgb'', showNat (unat colorRgb))] else [])
      | Some (Switch isOn) \<Rightarrow> [(''on'', boolText isOn)]
      | Some (NumericSensor unit val) \<Rightarrow> [(''value'', tx_g tx val), (''unit'', unit)]
      | Some (BinarySensor isOn) \<Rightarrow> [(''on'', boolText isOn)]
      | None \<Rightarrow> [])"

definition extractFields :: "texts \<Rightarrow> payload option \<Rightarrow> fields" where
  "extractFields tx p =
     (case p of
        Some (StateChanged (Some attrs) _) \<Rightarrow>
          kindFields tx (attr_kind attrs) @ (if available attrs then [(''available'', ''true'')] else [])
      | _ \<Rightarrow> [])"

definition storeEventToEntityEvent :: "texts \<Rightarrow> event \<Rightarrow> EntityEvent" where
  "storeEventToEntityEvent tx e =
     \<lparr>ee_Seq = Position e, ee_EntityID = Entity e, ee_Fields = extractFields tx (Payload e), ee_EventID = showNat (Position e),
      ee_Kind = Kind e, ee_Source = Source e,
      ee_CausationID = (if CausePosition e > 0 then showNat (CausePosition e) else ''''),
      ee_CorrelationID = tx_uuid tx (CorrelationID e), ee_OccurredAt = Timestamp e,
      ee_PayloadJSON = (case Payload e of None \<Rightarrow> '''' | Some p \<Rightarrow> (case tx_json tx p of None \<Rightarrow> '''' | Some j \<Rightarrow> j))\<rparr>"

section \<open>The store behind the service\<close>

record ReplaySnapshot =
  rs_Seq :: nat
  rs_Entities :: EntityStateMap

text \<open>The adapter has no snapshots of its own: every request replays from the beginning.\<close>

definition SnapshotBefore :: "nat \<Rightarrow> ReplaySnapshot" where
  "SnapshotBefore seq = \<lparr>rs_Seq = 0, rs_Entities = []\<rparr>"

definition EventsInRange :: "codec \<Rightarrow> texts \<Rightarrow> nat \<Rightarrow> nat \<Rightarrow> (('x, 'm, 'z) st, EntityEvent list) step" where
  "EventsInRange cdc tx fromSeq toSeq =
     bindS (Query cdc \<lparr>FromPosition = fromSeq, ToPosition = toSeq, QFilter = Filter_zero, Limit = 10000\<rparr>) (\<lambda>raw.
       returnS (map (storeEventToEntityEvent tx) raw))"

definition EventBySeq :: "codec \<Rightarrow> texts \<Rightarrow> nat \<Rightarrow> (('x, 'm, 'z) st, EntityEvent option) step" where
  "EventBySeq cdc tx seq =
     (if seq = 0 then returnS None
      else bindS (Query cdc \<lparr>FromPosition = seq - 1, ToPosition = seq, QFilter = Filter_zero, Limit = 1\<rparr>) (\<lambda>raw.
        returnS (case raw of [] \<Rightarrow> None | e # _ \<Rightarrow> Some (storeEventToEntityEvent tx e))))"

text \<open>\<open>strconv.ParseUint(s, 10, 64)\<close>: digits only, and within 64 bits.\<close>

definition parseUint64 :: "string \<Rightarrow> nat option" where
  "parseUint64 s =
     (if s \<noteq> '''' \<and> list_all isDigit s \<and> digitsValue s < 2 ^ 64 then Some (nat (digitsValue s)) else None)"

definition EventByID :: "codec \<Rightarrow> texts \<Rightarrow> string \<Rightarrow> (('x, 'm, 'z) st, EntityEvent option) step" where
  "EventByID cdc tx eventID =
     (case parseUint64 eventID of None \<Rightarrow> returnS None | Some pos \<Rightarrow> EventBySeq cdc tx pos)"

section \<open>The service\<close>

definition applyFields :: "EntityEvent \<Rightarrow> EntityStateMap \<Rightarrow> EntityStateMap" where
  "applyFields e result =
     (let cur = (case map_of result (ee_EntityID e) of None \<Rightarrow> [] | Some f \<Rightarrow> f) in
      AList.update (ee_EntityID e) (fold (\<lambda>(k, v). AList.update k v) (ee_Fields e) cur) result)"

definition replayForward ::
  "codec \<Rightarrow> texts \<Rightarrow> ReplaySnapshot \<Rightarrow> nat \<Rightarrow> (('x, 'm, 'z) st, EntityStateMap) step" where
  "replayForward cdc tx snap targetSeq =
     (if targetSeq \<le> rs_Seq snap then returnS (rs_Entities snap)
      else bindS (EventsInRange cdc tx (rs_Seq snap) targetSeq) (\<lambda>evs.
        returnS (fold applyFields evs (rs_Entities snap))))"

record FieldDiff =
  fd_Field :: string
  fd_Was :: string
  fd_Now :: string

definition getField :: "fields \<Rightarrow> string \<Rightarrow> string" where
  "getField fs f = (case map_of fs f of None \<Rightarrow> '''' | Some v \<Rightarrow> v)"

definition fieldDiffs :: "fields \<Rightarrow> fields \<Rightarrow> FieldDiff list" where
  "fieldDiffs prevFields nowFields =
     [\<lparr>fd_Field = f, fd_Was = getField prevFields f, fd_Now = v\<rparr>. (f, v) \<leftarrow> nowFields, v \<noteq> getField prevFields f] @
     [\<lparr>fd_Field = f, fd_Was = v, fd_Now = ''''\<rparr>. (f, v) \<leftarrow> prevFields, map_of nowFields f = None]"

definition entityFields :: "EntityStateMap \<Rightarrow> string \<Rightarrow> fields" where
  "entityFields m i = (case map_of m i of None \<Rightarrow> [] | Some f \<Rightarrow> f)"

definition computeDiff :: "EntityStateMap \<Rightarrow> EntityStateMap \<Rightarrow> (string \<times> FieldDiff list) list" where
  "computeDiff prev now =
     [(i, fieldDiffs (entityFields prev i) nowFields). (i, nowFields) \<leftarrow> now, fieldDiffs (entityFields prev i) nowFields \<noteq> []]"

record LoadAtSeqResponse =
  la_Seq :: nat
  la_Entities :: EntityStateMap
  la_Diff :: "(string \<times> FieldDiff list) list"
  la_Event :: "EntityEvent option"

definition asInternal :: "(error + 'a) \<times> 's \<Rightarrow> (connect_error + 'a) \<times> 's" where
  "asInternal = (\<lambda>(r, s). (case r of Inl e \<Rightarrow> Inl (Connect Internal e) | Inr x \<Rightarrow> Inr x, s))"

text \<open>A failed lookup of the event itself leaves its fields empty.\<close>

definition LoadAtSeq ::
  "codec \<Rightarrow> texts \<Rightarrow> nat \<Rightarrow> ('x, 'm, 'z) st \<Rightarrow> (connect_error + LoadAtSeqResponse) \<times> ('x, 'm, 'z) st" where
  "LoadAtSeq cdc tx seq s =
     asInternal (bindS (replayForward cdc tx (SnapshotBefore seq) seq) (\<lambda>stateNow.
       bindS (if seq > 0 then replayForward cdc tx (SnapshotBefore (seq - 1)) (seq - 1) else returnS []) (\<lambda>statePrev s'.
         let (evt, s'') = EventBySeq cdc tx seq s' in
         (Inr \<lparr>la_Seq = seq, la_Entities = stateNow, la_Diff = computeDiff statePrev stateNow,
               la_Event = (case evt of Inl _ \<Rightarrow> None | Inr e \<Rightarrow> e)\<rparr>, s''))) s)"

text \<open>The walk along the causes: at most 256 events, and an error when an id comes back.\<close>

fun walkCauses ::
  "codec \<Rightarrow> texts \<Rightarrow> nat \<Rightarrow> string \<Rightarrow> string list \<Rightarrow> EntityEvent list \<Rightarrow> (('x, 'm, 'z) st, EntityEvent list) step" where
  "walkCauses cdc tx 0 currentID visited chain = returnS chain"
| "walkCauses cdc tx (Suc n) currentID visited chain =
     (if currentID = '''' then returnS chain
      else if currentID \<in> set visited then failS (''causation cycle detected at '' @ currentID)
      else bindS (EventByID cdc tx currentID) (\<lambda>evt.
        case evt of
          None \<Rightarrow> returnS chain
        | Some e \<Rightarrow> walkCauses cdc tx n (ee_CausationID e) (currentID # visited) (chain @ [e])))"

definition CausationChain ::
  "codec \<Rightarrow> texts \<Rightarrow> string \<Rightarrow> ('x, 'm, 'z) st \<Rightarrow> (connect_error + EntityEvent list) \<times> ('x, 'm, 'z) st" where
  "CausationChain cdc tx eventID s =
     asInternal (bindS (walkCauses cdc tx 256 eventID [] []) (\<lambda>chain. returnS (rev chain)) s)"

definition Window ::
  "codec \<Rightarrow> texts \<Rightarrow> nat \<Rightarrow> nat \<Rightarrow> ('x, 'm, 'z) st \<Rightarrow> (connect_error + EntityEvent list) \<times> ('x, 'm, 'z) st" where
  "Window cdc tx fromSeq toSeq s = asInternal (EventsInRange cdc tx fromSeq toSeq s)"

section \<open>The fields of an entity\<close>

lemma map_of_fold_update:
  "map_of (fold (\<lambda>(k, v). AList.update k v) kvs m) f = (case map_of (rev kvs) f of None \<Rightarrow> map_of m f | Some v \<Rightarrow> Some v)"
  by (induction kvs arbitrary: m) (auto simp: update_conv' map_add_def split: option.splits)

lemma map_of_rev_distinct: "distinct (map fst kvs) \<Longrightarrow> map_of (rev kvs) = map_of kvs"
  by (rule map_of_inject_set [THEN iffD2]) (simp_all flip: rev_map)

lemma kindFields_distinct: "distinct (map fst (kindFields tx k))" "''available'' \<notin> fst ` set (kindFields tx k)"
proof -
  have "distinct (map fst (kindFields tx k)) \<and> ''available'' \<notin> fst ` set (kindFields tx k)"
  proof (cases k)
    case (Some a)
    then show ?thesis by (cases a) (auto simp: kindFields_def)
  qed (simp add: kindFields_def)
  then show "distinct (map fst (kindFields tx k))" "''available'' \<notin> fst ` set (kindFields tx k)" by blast+
qed

lemma extractFields_distinct: "distinct (map fst (extractFields tx p))"
  using kindFields_distinct by (auto simp: extractFields_def split: option.splits payload.splits)

text \<open>A field of an entity has the value of the last event that mentions it.\<close>

definition mentions :: "texts \<Rightarrow> string \<Rightarrow> string \<Rightarrow> event \<Rightarrow> bool" where
  "mentions tx i f e \<longleftrightarrow> Entity e = i \<and> map_of (extractFields tx (Payload e)) f \<noteq> None"

definition fieldAt :: "texts \<Rightarrow> event list \<Rightarrow> string \<Rightarrow> string \<Rightarrow> string option" where
  "fieldAt tx evs i f =
     (case rev (filter (mentions tx i f) evs) of
        [] \<Rightarrow> None
      | e # _ \<Rightarrow> map_of (extractFields tx (Payload e)) f)"

definition stateOf :: "texts \<Rightarrow> event list \<Rightarrow> EntityStateMap" where
  "stateOf tx evs = fold applyFields (map (storeEventToEntityEvent tx) evs) []"

lemma stateOf_Nil [simp]: "stateOf tx [] = []"
  by (simp add: stateOf_def)

lemma entityFields_apply:
  "map_of (entityFields (applyFields (storeEventToEntityEvent tx e) m) i) f =
     (if mentions tx i f e then map_of (extractFields tx (Payload e)) f else map_of (entityFields m i) f)"
  by (auto simp: applyFields_def entityFields_def storeEventToEntityEvent_def mentions_def update_conv' map_of_fold_update
      map_of_rev_distinct [OF extractFields_distinct] Let_def split: option.splits)

lemma stateOf_snoc: "stateOf tx (evs @ [e]) = applyFields (storeEventToEntityEvent tx e) (stateOf tx evs)"
  by (simp add: stateOf_def)

lemma fieldAt_snoc:
  "fieldAt tx (evs @ [e]) i f = (if mentions tx i f e then map_of (extractFields tx (Payload e)) f else fieldAt tx evs i f)"
  by (simp add: fieldAt_def)

lemma stateOf_field: "map_of (entityFields (stateOf tx evs) i) f = fieldAt tx evs i f"
proof (induction evs rule: rev_induct)
  case Nil
  then show ?case by (simp add: entityFields_def fieldAt_def)
next
  case (snoc e evs)
  then show ?case unfolding stateOf_snoc entityFields_apply fieldAt_snoc by simp
qed

lemma applyFields_keys:
  "set (map fst (applyFields e m)) = insert (ee_EntityID e) (set (map fst m))"
  "distinct (map fst m) \<Longrightarrow> distinct (map fst (applyFields e m))"
  by (simp_all add: applyFields_def Let_def distinct_update dom_update)

lemma stateOf_keys: "set (map fst (stateOf tx evs)) = Entity ` set evs \<and> distinct (map fst (stateOf tx evs))"
proof (induction evs rule: rev_induct)
  case (snoc e evs)
  then show ?case unfolding stateOf_snoc
    by (simp only: applyFields_keys) (simp add: storeEventToEntityEvent_def)
qed simp

text \<open>Fields stay: an entity that had a field keeps it.\<close>

lemma fieldAt_append: "fieldAt tx evs i f \<noteq> None \<Longrightarrow> fieldAt tx (evs @ later) i f \<noteq> None"
proof (induction later rule: rev_induct)
  case (snoc e later)
  then show ?case using fieldAt_snoc [of tx "evs @ later" e i f] by (auto simp: mentions_def)
qed simp

lemma stateOf_fields_distinct: "distinct (map fst (entityFields (stateOf tx evs) i))"
proof (induction evs rule: rev_induct)
  case Nil
  then show ?case by (simp add: entityFields_def)
next
  case (snoc e evs)
  have "distinct (map fst m) \<Longrightarrow> distinct (map fst (fold (\<lambda>(k, v). AList.update k v) kvs m))" for kvs m :: fields
    by (induction kvs arbitrary: m) (auto simp: distinct_update)
  with snoc show ?case unfolding stateOf_snoc
    by (auto simp: applyFields_def entityFields_def update_conv' Let_def split: option.splits)
qed

definition valueAt :: "texts \<Rightarrow> event list \<Rightarrow> string \<Rightarrow> string \<Rightarrow> string" where
  "valueAt tx evs i f = (case fieldAt tx evs i f of None \<Rightarrow> '''' | Some v \<Rightarrow> v)"

lemma getField_stateOf: "getField (entityFields (stateOf tx evs) i) f = valueAt tx evs i f"
  by (simp add: getField_def stateOf_field valueAt_def)

lemma fieldDiffs_stateOf:
  "fd \<in> set (fieldDiffs (entityFields (stateOf tx evs) i) (entityFields (stateOf tx (evs @ later)) i)) \<longleftrightarrow>
     fd_Was fd = valueAt tx evs i (fd_Field fd) \<and> fd_Now fd = valueAt tx (evs @ later) i (fd_Field fd) \<and> fd_Was fd \<noteq> fd_Now fd"
  (is "?L \<longleftrightarrow> ?R")
proof -
  let ?P = "entityFields (stateOf tx evs) i" and ?N = "entityFields (stateOf tx (evs @ later)) i"
  have dP: "(f, v) \<in> set ?P \<longleftrightarrow> fieldAt tx evs i f = Some v" for f v
    using stateOf_fields_distinct stateOf_field by (metis map_of_eq_Some_iff)
  have dN: "(f, v) \<in> set ?N \<longleftrightarrow> fieldAt tx (evs @ later) i f = Some v" for f v
    using stateOf_fields_distinct stateOf_field by (metis map_of_eq_Some_iff)
  have gone: "fieldAt tx evs i f = Some v \<Longrightarrow> map_of ?N f \<noteq> None" for f v
    using fieldAt_append [of tx evs i f later] by (simp only: stateOf_field) simp
  show ?thesis
  proof
    assume ?L
    then show ?R unfolding fieldDiffs_def getField_stateOf
      by (auto simp: dP dN valueAt_def dest: gone)
  next
    assume r: ?R
    then obtain v where "fieldAt tx (evs @ later) i (fd_Field fd) = Some v"
      using fieldAt_append [of tx evs i "fd_Field fd" later] by (auto simp: valueAt_def split: option.splits)
    then have "(fd_Field fd, fd_Now fd) \<in> set ?N" using r dN by (auto simp: valueAt_def)
    moreover have "fd = \<lparr>fd_Field = fd_Field fd, fd_Was = valueAt tx evs i (fd_Field fd), fd_Now = fd_Now fd\<rparr>"
      using r by simp
    ultimately show ?L using r unfolding fieldDiffs_def getField_stateOf by (auto intro!: bexI)
  qed
qed

text \<open>The difference lists exactly the fields whose value changed.\<close>

lemma computeDiff_stateOf:
  "(\<exists>fds. (i, fds) \<in> set (computeDiff (stateOf tx evs) (stateOf tx (evs @ later))) \<and>
      \<lparr>fd_Field = f, fd_Was = was, fd_Now = nw\<rparr> \<in> set fds) \<longleftrightarrow>
    was = valueAt tx evs i f \<and> nw = valueAt tx (evs @ later) i f \<and> was \<noteq> nw"
proof -
  let ?now = "stateOf tx (evs @ later)"
  let ?d = "fieldDiffs (entityFields (stateOf tx evs) i) (entityFields ?now i)"
  have "distinct (map fst ?now)" using stateOf_keys by blast
  then have key: "(i, fs) \<in> set ?now \<longleftrightarrow> map_of ?now i \<noteq> None \<and> fs = entityFields ?now i" for fs
    by (simp only: map_of_eq_Some_iff [symmetric] entityFields_def) (cases "map_of ?now i"; simp only: option.simps; blast)
  have "map_of ?now i = None \<Longrightarrow> ?d = []"
  proof -
    assume "map_of ?now i = None"
    then have "entityFields ?now i = []" by (simp add: entityFields_def)
    moreover from this have "fieldAt tx (evs @ later) i f = None" for f using stateOf_field [of tx "evs @ later" i f] by simp
    then have "fieldAt tx evs i f = None" for f by (metis fieldAt_append)
    then have "entityFields (stateOf tx evs) i = []" using stateOf_field [of tx evs i]
      by (metis list.set_intros(1) map_of_eq_None_iff image_eqI list.exhaust option.distinct(1))
    ultimately show ?thesis by (simp add: fieldDiffs_def)
  qed
  moreover have "(i, fds) \<in> set (computeDiff (stateOf tx evs) ?now) \<longleftrightarrow>
      (\<exists>fs. (i, fs) \<in> set ?now \<and> fieldDiffs (entityFields (stateOf tx evs) i) fs \<noteq> [] \<and>
        fds = fieldDiffs (entityFields (stateOf tx evs) i) fs)" for fds
    by (auto simp: computeDiff_def)
  ultimately have "(\<exists>fds. (i, fds) \<in> set (computeDiff (stateOf tx evs) ?now) \<and> x \<in> set fds) \<longleftrightarrow> x \<in> set ?d" for x
    by (metis key empty_iff list.set(1))
  then show ?thesis by (simp only: fieldDiffs_stateOf FieldDiff.simps)
qed

section \<open>The state at a position\<close>

lemma decoded_positions:
  "scanRows cdc (\<lambda>_. True) rows = Inr evs \<Longrightarrow> \<forall>r \<in> set rows. r_position r < 2 ^ 63 \<Longrightarrow> map Position evs = map r_position rows"
  by (induction rows arbitrary: evs) (auto simp: scanEvent_Position split: sum.splits)

text \<open>A store at rest: it does not fail, and its log is well-formed and decodes to \<open>evs\<close>.\<close>

definition calm :: "codec \<Rightarrow> ('x, 'm, 'z) st \<Rightarrow> event list \<Rightarrow> bool" where
  "calm cdc s evs \<longleftrightarrow> faults s = [] \<and> log_wf (db s) \<and> scanRows cdc (\<lambda>_. True) (events (db s)) = Inr evs"

lemma calm_positions: "calm cdc s evs \<Longrightarrow> sorted_wrt (<) (map Position evs) \<and> (\<forall>e \<in> set evs. 0 < Position e)"
proof -
  assume c: "calm cdc s evs"
  then have "\<forall>r \<in> set (events (db s)). r_position r < 2 ^ 63" by (auto simp: calm_def log_wf_def dest: le_less_trans)
  with c have "map Position evs = map r_position (events (db s))" by (auto simp: calm_def intro: decoded_positions)
  moreover from this have "Position ` set evs = r_position ` set (events (db s))" by (metis set_map)
  then have "\<exists>r \<in> set (events (db s)). Position e = r_position r" if "e \<in> set evs" for e
    using that by (metis imageE imageI)
  ultimately show ?thesis using c by (fastforce simp: calm_def log_wf_def)
qed

lemma calm_Query:
  "calm cdc s evs \<Longrightarrow> 0 < n \<Longrightarrow> Query cdc \<lparr>FromPosition = a, ToPosition = b, QFilter = Filter_zero, Limit = int n\<rparr> s =
     (Inr (take n (filter (\<lambda>e. Position e > a \<and> (b = 0 \<or> Position e \<le> b)) evs)), s)"
  by (simp add: calm_def Query_log)

definition upTo :: "nat \<Rightarrow> event list \<Rightarrow> event list" where
  "upTo seq evs = filter (\<lambda>e. Position e \<le> seq) evs"

text \<open>What the service sees of the log: the first 10000 events.\<close>

definition seen :: "nat \<Rightarrow> event list \<Rightarrow> event list" where
  "seen seq evs = take 10000 (upTo seq evs)"

lemma replayForward_calm:
  assumes "calm cdc s evs"
  shows "replayForward cdc tx (SnapshotBefore q) seq s = (Inr (stateOf tx (seen seq evs)), s)"
proof (cases "seq = 0")
  case True
  have "upTo 0 evs = []" using calm_positions [OF assms] by (auto simp: upTo_def filter_empty_conv)
  with True show ?thesis by (simp add: replayForward_def SnapshotBefore_def returnS_def seen_def)
next
  case False
  have "filter (\<lambda>e. 0 < Position e \<and> Position e \<le> seq) evs = upTo seq evs"
    using calm_positions [OF assms] by (auto simp: upTo_def intro: filter_cong)
  with False calm_Query [OF assms, of 10000 0 seq] show ?thesis
    by (simp add: replayForward_def SnapshotBefore_def EventsInRange_def bindS_def returnS_def seen_def stateOf_def)
qed

lemma first_of_filter: "(case take (Suc 0) (filter P xs) of [] \<Rightarrow> None | x # _ \<Rightarrow> Some (g x)) = map_option g (find P xs)"
  by (induction xs) auto

lemma EventBySeq_calm:
  assumes "calm cdc s evs"
  shows "EventBySeq cdc tx seq s = (Inr (map_option (storeEventToEntityEvent tx) (find (\<lambda>e. Position e = seq) evs)), s)"
proof (cases "seq = 0")
  case True
  then show ?thesis using calm_positions [OF assms] by (auto simp: EventBySeq_def returnS_def find_None_iff)
next
  case False
  then have "filter (\<lambda>e. Position e > seq - 1 \<and> (seq = 0 \<or> Position e \<le> seq)) evs = filter (\<lambda>e. Position e = seq) evs"
    by (intro filter_cong) auto
  with False calm_Query [OF assms, of 1 "seq - 1" seq] show ?thesis
    by (simp add: EventBySeq_def bindS_def returnS_def first_of_filter)
qed

lemma LoadAtSeq_calm:
  assumes "calm cdc s evs"
  shows "LoadAtSeq cdc tx seq s =
    (Inr \<lparr>la_Seq = seq, la_Entities = stateOf tx (seen seq evs),
          la_Diff = computeDiff (stateOf tx (seen (seq - 1) evs)) (stateOf tx (seen seq evs)),
          la_Event = map_option (storeEventToEntityEvent tx) (find (\<lambda>e. Position e = seq) evs)\<rparr>, s)"
proof -
  have "seen 0 evs = []" using calm_positions [OF assms] by (auto simp: seen_def upTo_def filter_empty_conv)
  then show ?thesis
    by (cases "seq = 0") (simp_all add: LoadAtSeq_def asInternal_def bindS_def returnS_def replayForward_calm [OF assms]
        EventBySeq_calm [OF assms])
qed

lemma upTo_prefix: "sorted_wrt (<) (map Position evs) \<Longrightarrow> a \<le> b \<Longrightarrow> \<exists>later. upTo b evs = upTo a evs @ later"
proof (induction evs)
  case (Cons e evs)
  show ?case
  proof (cases "Position e \<le> a")
    case True
    with Cons show ?thesis by (auto simp: upTo_def)
  next
    case False
    with Cons.prems(1) have "upTo a (e # evs) = []" by (auto simp: upTo_def filter_empty_conv)
    then show ?thesis by simp
  qed
qed (simp add: upTo_def)

lemma seen_prefix: "sorted_wrt (<) (map Position evs) \<Longrightarrow> a \<le> b \<Longrightarrow> \<exists>later. seen b evs = seen a evs @ later"
  using upTo_prefix [of evs a b] by (auto simp: seen_def take_append)

text \<open>Beyond the 10000th event nothing more is seen.\<close>

lemma seen_horizon:
  assumes "sorted_wrt (<) (map Position evs)" "10000 \<le> length evs" "Position (evs ! 9999) \<le> seq"
  shows "seen seq evs = take 10000 evs"
proof -
  have "Position e \<le> seq" if "e \<in> set (take 10000 evs)" for e
  proof -
    from that obtain j where j: "j < 10000" "e = evs ! j" using assms(2) by (auto simp: in_set_conv_nth)
    then have "Position e \<le> Position (evs ! 9999)"
      using assms(1,2) by (cases "j = 9999") (auto simp: sorted_wrt_iff_nth_less intro: less_imp_le)
    with assms(3) show ?thesis by simp
  qed
  then have "filter (\<lambda>e. Position e \<le> seq) (take 10000 evs) = take 10000 evs" by (simp add: filter_id_conv)
  moreover have "upTo seq evs = upTo seq (take 10000 evs) @ upTo seq (drop 10000 evs)"
    unfolding upTo_def by (metis append_take_drop_id filter_append)
  ultimately show ?thesis using assms(2) by (simp add: seen_def upTo_def)
qed


text \<open>
  C36. Beyond the 10000th event of the log the replay service is stuck: for every later position it shows, without an error,
  the state after the 10000th event and an empty difference, because the page that it reads is not continued.
\<close>

theorem time_travel_horizon:
  assumes "calm cdc s evs" "10000 \<le> length evs" "Position (evs ! 9999) < seq"
  shows "\<exists>resp. LoadAtSeq cdc tx seq s = (Inr resp, s) \<and> la_Seq resp = seq \<and> la_Diff resp = [] \<and>
    (\<forall>i f. map_of (entityFields (la_Entities resp) i) f = fieldAt tx (take 10000 evs) i f)"
proof -
  note sorted = calm_positions [OF assms(1), THEN conjunct1]
  have "seen seq evs = take 10000 evs" "seen (seq - 1) evs = take 10000 evs"
    using seen_horizon [OF sorted assms(2)] assms(3) by auto
  moreover have "computeDiff (stateOf tx es) (stateOf tx es) = []" for es
  proof -
    have "fd \<notin> set (fieldDiffs (entityFields (stateOf tx es) i) (entityFields (stateOf tx es) i))" for fd i
      using fieldDiffs_stateOf [of fd tx es i "[]"] by simp
    then have "fieldDiffs (entityFields (stateOf tx es) i) (entityFields (stateOf tx es) i) = []" for i
      by (metis list.exhaust list.set_intros(1))
    moreover have "fs = entityFields (stateOf tx es) i" if "(i, fs) \<in> set (stateOf tx es)" for i fs
      using map_of_is_SomeI [OF _ that] stateOf_keys [of tx es] by (simp add: entityFields_def)
    ultimately have "\<forall>(i, fs) \<in> set (stateOf tx es). fieldDiffs (entityFields (stateOf tx es) i) fs = []" by blast
    then show ?thesis by (auto simp: computeDiff_def)
  qed
  ultimately show ?thesis by (simp add: LoadAtSeq_calm [OF assms(1)] stateOf_field)
qed

text \<open>
  Availability only ever rises: once an entity was reported available, the replay shows it available at every later
  position, also after it was reported unavailable.
\<close>

lemma availability_sticks:
  assumes "e \<in> set evs" "Entity e = i" "Payload e = Some (StateChanged (Some a) x)" "available a"
  shows "fieldAt tx evs i ''available'' = Some ''true''"
  using assms(1)
proof (induction evs rule: rev_induct)
  case (snoc e' evs)
  have "map_of (kindFields tx k) ''available'' = None" for k
    using kindFields_distinct(2) by (simp add: map_of_eq_None_iff)
  then have val: "map_of (extractFields tx p) ''available'' = Some v \<Longrightarrow> v = ''true''" for p v
    by (auto simp: extractFields_def map_add_Some_iff split: option.splits payload.splits if_splits)
  show ?case
  proof (cases "mentions tx i ''available'' e'")
    case True
    then show ?thesis using val by (auto simp: fieldAt_snoc mentions_def)
  next
    case False
    moreover have "mentions tx i ''available'' e"
      using assms(2-4) kindFields_distinct(2) [of tx "attr_kind a"]
      by (auto simp: mentions_def extractFields_def map_add_def map_of_eq_None_iff split: option.splits)
    ultimately show ?thesis using snoc by (auto simp: fieldAt_snoc)
  qed
qed simp

section \<open>Chains of causes\<close>

lemma parseUint64_showNat [simp]: "n < 2 ^ 64 \<Longrightarrow> parseUint64 (showNat n) = Some n"
  by (auto simp: parseUint64_def list_all_iff dest: showNat_digits)

text \<open>The event at a position and its causes, newest first.\<close>

fun ancestry :: "event list \<Rightarrow> nat \<Rightarrow> nat \<Rightarrow> event list" where
  "ancestry evs 0 p = []"
| "ancestry evs (Suc n) p =
     (if p = 0 then [] else case find (\<lambda>e. Position e = p) evs of None \<Rightarrow> [] | Some e \<Rightarrow> e # ancestry evs n (CausePosition e))"

lemma find_positionD: "find (\<lambda>e. Position e = p) evs = Some e \<Longrightarrow> e \<in> set evs \<and> Position e = p"
  by (metis (mono_tags, lifting) find_Some_iff nth_mem)

lemma EventByID_calm:
  assumes "calm cdc s evs" "parseUint64 i = Some p"
  shows "EventByID cdc tx i s = (Inr (map_option (storeEventToEntityEvent tx) (find (\<lambda>e. Position e = p) evs)), s)"
  using assms by (simp add: EventByID_def EventBySeq_calm)

lemma walkCauses_calm:
  assumes "calm cdc s evs" "\<forall>e \<in> set evs. CausePosition e < Position e \<and> Position e < 2 ^ 64"
    and "parseUint64 i = Some p" "\<forall>v \<in> set visited. \<exists>q. parseUint64 v = Some q \<and> p < q"
  shows "walkCauses cdc tx n i visited chain s = (Inr (chain @ map (storeEventToEntityEvent tx) (ancestry evs n p)), s)"
  using assms(3,4)
proof (induction n arbitrary: i p visited chain)
  case 0
  then show ?case by (simp add: returnS_def)
next
  case (Suc n)
  have "i \<noteq> ''''" using Suc.prems(1) by (auto simp: parseUint64_def)
  moreover have "i \<notin> set visited" using Suc.prems by force
  ultimately have step: "walkCauses cdc tx (Suc n) i visited chain s =
      (case find (\<lambda>e. Position e = p) evs of
         None \<Rightarrow> (Inr chain, s)
       | Some e \<Rightarrow> walkCauses cdc tx n (ee_CausationID (storeEventToEntityEvent tx e)) (i # visited)
           (chain @ [storeEventToEntityEvent tx e]) s)"
    by (simp add: bindS_def returnS_def EventByID_calm [OF assms(1) Suc.prems(1)] split: option.splits)
  show ?case
  proof (cases "find (\<lambda>e. Position e = p) evs")
    case None
    then show ?thesis unfolding step by simp
  next
    case (Some e)
    then have e: "e \<in> set evs" "Position e = p" by (auto dest: find_positionD)
    then have p: "0 < p" using calm_positions [OF assms(1)] by auto
    show ?thesis
    proof (cases "CausePosition e = 0")
      case True
      then have "ancestry evs n (CausePosition e) = []" by (cases n) simp_all
      moreover have "walkCauses cdc tx n '''' vs ch s = (Inr ch, s)" for vs ch by (cases n) (simp_all add: returnS_def)
      ultimately show ?thesis unfolding step using Some True p by (simp add: storeEventToEntityEvent_def)
    next
      case False
      have less: "CausePosition e < p" "CausePosition e < 2 ^ 64" using assms(2) e by force+
      then have "\<forall>v \<in> set (i # visited). \<exists>q. parseUint64 v = Some q \<and> CausePosition e < q"
        using Suc.prems by (metis less_trans set_ConsD)
      from Suc.IH [OF parseUint64_showNat [OF less(2)] this] show ?thesis
        unfolding step using Some False p by (simp add: storeEventToEntityEvent_def)
    qed
  qed
qed

lemma ancestry_length: "length (ancestry evs n p) \<le> n"
  by (induction evs n p rule: ancestry.induct) (auto split: option.splits)

lemma ancestry_head: "ancestry evs n p = e # es \<Longrightarrow> Position e = p \<and> e \<in> set evs"
  by (cases n) (auto split: if_splits option.splits dest: find_positionD)

lemma ancestry_linked: "Suc j < length (ancestry evs n p) \<Longrightarrow>
    CausePosition (ancestry evs n p ! j) = Position (ancestry evs n p ! Suc j)"
proof (induction evs n p arbitrary: j rule: ancestry.induct)
  case (2 evs n p)
  then obtain e where e: "p \<noteq> 0" "find (\<lambda>e. Position e = p) evs = Some e" by (auto split: if_splits option.splits)
  show ?case
  proof (cases j)
    case 0
    then obtain e' es where "ancestry evs n (CausePosition e) = e' # es"
      using 2(2) e by (cases "ancestry evs n (CausePosition e)") auto
    with ancestry_head [OF this] e 0 show ?thesis by simp
  next
    case (Suc k)
    with 2 e show ?thesis by simp
  qed
qed simp

lemma ancestry_complete: "0 < n \<Longrightarrow> length (ancestry evs n p) < n \<Longrightarrow>
    (let q = (if ancestry evs n p = [] then p else CausePosition (last (ancestry evs n p))) in
     q = 0 \<or> (\<forall>e \<in> set evs. Position e \<noteq> q))"
proof (induction evs n p rule: ancestry.induct)
  case (2 evs n p)
  show ?case
  proof (cases "p = 0 \<or> find (\<lambda>e. Position e = p) evs = None")
    case True
    moreover from this have "p = 0 \<or> (\<forall>e \<in> set evs. Position e \<noteq> p)" by (auto simp: find_None_iff)
    ultimately show ?thesis by auto
  next
    case False
    then obtain e where e: "p \<noteq> 0" "find (\<lambda>e. Position e = p) evs = Some e" by auto
    with 2(3) have "0 < n" "length (ancestry evs n (CausePosition e)) < n" by auto
    with 2(1) [OF e] e show ?thesis by (auto simp: Let_def split: if_splits)
  qed
qed simp

text \<open>
  When every event comes after its cause, the chain of causes of an event ends without a cycle error. It has the event
  last and before every event its cause, never more than 256 of them, and reaches back to an event whose cause is not in
  the log unless it has 256.
\<close>

theorem causation_chain_sound:
  assumes "calm cdc s evs" "\<forall>e \<in> set evs. CausePosition e < Position e \<and> Position e < 2 ^ 64" "parseUint64 i = Some p"
  shows "\<exists>chain. CausationChain cdc tx i s = (Inr (map (storeEventToEntityEvent tx) chain), s) \<and> length chain \<le> 256 \<and>
    set chain \<subseteq> set evs \<and> (chain = [] \<longrightarrow> (\<forall>e \<in> set evs. Position e \<noteq> p)) \<and> (chain \<noteq> [] \<longrightarrow> Position (last chain) = p) \<and>
    (\<forall>j. Suc j < length chain \<longrightarrow> CausePosition (chain ! Suc j) = Position (chain ! j)) \<and>
    (chain \<noteq> [] \<and> length chain < 256 \<longrightarrow>
      CausePosition (hd chain) = 0 \<or> (\<forall>e \<in> set evs. Position e \<noteq> CausePosition (hd chain)))"
proof -
  let ?a = "ancestry evs 256 p"
  have "walkCauses cdc tx 256 i [] [] s = (Inr (map (storeEventToEntityEvent tx) ?a), s)"
    using walkCauses_calm [OF assms, of "[]" tx 256 "[]"] by simp
  then have "CausationChain cdc tx i s = (Inr (map (storeEventToEntityEvent tx) (rev ?a)), s)"
    by (simp add: CausationChain_def asInternal_def bindS_def returnS_def rev_map)
  moreover have "length (rev ?a) \<le> 256" using ancestry_length [of evs 256 p] by simp
  moreover have "set (rev ?a) \<subseteq> set evs"
  proof -
    have "set (ancestry evs n q) \<subseteq> set evs" for n q
      by (induction evs n q rule: ancestry.induct) (auto split: option.splits dest!: sym [of "Some _"] dest: find_positionD)
    then show ?thesis by simp
  qed
  moreover have "rev ?a \<noteq> [] \<longrightarrow> Position (last (rev ?a)) = p"
    using ancestry_head [of evs 256 p] by (cases ?a) auto
  moreover have "CausePosition (rev ?a ! Suc j) = Position (rev ?a ! j)" if "Suc j < length (rev ?a)" for j
  proof -
    from that have "Suc (length ?a - Suc (Suc j)) = length ?a - Suc j" by simp
    with that ancestry_linked [of "length ?a - Suc (Suc j)" evs 256 p] show ?thesis by (simp add: rev_nth)
  qed
  moreover have "p \<noteq> 0 \<or> (\<forall>e \<in> set evs. Position e \<noteq> p)" using calm_positions [OF assms(1)] by auto
  ultimately show ?thesis
    using ancestry_complete [of 256 evs p] ancestry_length [of evs 256 p]
    by (intro exI [of _ "rev ?a"]) (auto simp: Let_def hd_rev split: if_splits)
qed

section \<open>A lamp that goes on and off\<close>

definition pastCodec :: codec where
  "pastCodec =
     \<lparr>marshalPayload = (\<lambda>p. Inl ''unused''),
      unmarshalPayload = (\<lambda>b. Inr (StateChanged (Some \<lparr>attr_kind = Some (Switch (b = ''on'')), available = True\<rparr>) ''lamp''))\<rparr>"

definition pastTexts :: texts where
  "pastTexts = \<lparr>tx_g = (\<lambda>w. ''''), tx_uuid = (\<lambda>u. u), tx_json = (\<lambda>p. None)\<rparr>"

definition pastRow :: "nat \<Rightarrow> event_row" where
  "pastRow i = \<lparr>r_position = i, r_ts = 0, r_kind = ''state_changed'', r_entity = Some ''lamp'', r_source = ''driver'',
     r_correlation_id = None, r_cause_position = (if i = 1 then None else Some (int i - 1)), r_payload = (if even i then ''off'' else ''on'')\<rparr>"

definition pastEvent :: "nat \<Rightarrow> event" where
  "pastEvent i = \<lparr>Position = i, Timestamp = 0, Kind = ''state_changed'', Entity = ''lamp'', Source = ''driver'',
     CorrelationID = uuid_Nil, CausePosition = i - 1,
     Payload = Some (StateChanged (Some \<lparr>attr_kind = Some (Switch (odd i)), available = True\<rparr>) ''lamp'')\<rparr>"

definition pastStore :: "nat \<Rightarrow> (registry_db, Cache) store" where
  "pastStore n = (emptyStore [])\<lparr>db := (db (emptyStore []))\<lparr>events := map pastRow [1..<Suc n], sqlite_sequence := n\<rparr>\<rparr>"

definition pastLog :: "nat \<Rightarrow> event list" where
  "pastLog n = map pastEvent [1..<Suc n]"

lemma scan_pastRow: "0 < i \<Longrightarrow> i < 2 ^ 63 \<Longrightarrow> scanEvent pastCodec (pastRow i) = Inr (pastEvent i)"
  by (auto simp: scanEvent_def pastCodec_def pastRow_def pastEvent_def time_Unix_def uint64_of_def nat_mod_as_int)

lemma pastStore_calm: "n < 2 ^ 63 \<Longrightarrow> calm pastCodec (pastStore n) (pastLog n)"
proof -
  assume n: "n < 2 ^ 63"
  have "\<forall>i \<in> set is. 0 < i \<and> i < 2 ^ 63 \<Longrightarrow> scanRows pastCodec (\<lambda>_. True) (map pastRow is) = Inr (map pastEvent is)" for "is"
    by (induction "is") (simp_all add: scan_pastRow)
  from this [of "[1..<Suc n]"] n have "scanRows pastCodec (\<lambda>_. True) (map pastRow [1..<Suc n]) = Inr (pastLog n)"
    by (simp add: pastLog_def del: upt_Suc)
  with n show ?thesis
    by (auto simp: calm_def pastStore_def emptyStore_def log_wf_def pastRow_def comp_def simp del: upt_Suc)
qed

lemma pastLog_simps: "length (pastLog n) = n" "j < n \<Longrightarrow> pastLog n ! j = pastEvent (Suc j)"
  by (simp_all add: pastLog_def del: upt_Suc)


theorem time_travel_horizon_witness:
  "\<exists>resp. LoadAtSeq pastCodec pastTexts 10001 (pastStore 10001) = (Inr resp, pastStore 10001) \<and> la_Diff resp = [] \<and>
     Payload (pastEvent 10000) \<noteq> Payload (pastEvent 10001)"
proof -
  have "calm pastCodec (pastStore 10001) (pastLog 10001)" using pastStore_calm [of 10001] by simp
  moreover have "10000 \<le> length (pastLog 10001)" "Position (pastLog 10001 ! 9999) < 10001"
    by (simp_all add: pastLog_simps pastEvent_def)
  ultimately show ?thesis
    using time_travel_horizon [of pastCodec "pastStore 10001" "pastLog 10001" 10001 pastTexts] by (auto simp: pastEvent_def)
qed

end
