(* ===== verification/Scenes.thy ===== *)
theory Scenes
  imports Automation_Runs Config_Snapshot Api_Reads
begin

text \<open>
  Scenes: \<open>Applier.Invoke\<close> (\<^verbatim>\<open>internal/automation/scene/applier.go\<close>), which compiles the actions of a scene and executes
  them in parallel, and the handlers of \<^verbatim>\<open>internal/api/service_scene.go\<close>. A scene can apply other scenes, so \<open>Invoke\<close> is
  a relation on the results of invocations that return; it has no derivation for one that never does. The configuration
  does not change while a scene is applied.
\<close>

section \<open>Invoking a scene\<close>

record SceneApplied =
  sa_SceneId :: string
  sa_AreaId :: string
  sa_CorrelationId :: string
  sa_InvokedBy :: string
  sa_Steps :: nat
  sa_Logs :: "string list"
  sa_Outcome :: RunOutcome

definition ErrSceneNotFound :: error where
  "ErrSceneNotFound = ''scene: not found''"

definition findScene :: "ConfigSnapshot \<Rightarrow> string \<Rightarrow> SceneConfig option" where
  "findScene snap i = find (\<lambda>s. sc_Id s = i) (cs_Scenes snap)"

text \<open>\<open>appendEvent\<close> drops the error of the append; \<open>logged\<close> says whether the event is stored.\<close>

definition appendEvent ::
  "bool \<Rightarrow> SceneConfig \<Rightarrow> string \<Rightarrow> string \<Rightarrow> nat \<Rightarrow> string list \<Rightarrow> RunOutcome \<Rightarrow> SceneApplied list" where
  "appendEvent logged scene corrID invokedBy steps logs outcome =
     (if logged then [\<lparr>sa_SceneId = sc_Id scene, sa_AreaId = sc_AreaId scene, sa_CorrelationId = corrID,
        sa_InvokedBy = invokedBy, sa_Steps = steps, sa_Logs = logs, sa_Outcome = outcome\<rparr>] else [])"

text \<open>
  What a call of a run causes: a scene action applies the scene (\<open>Applier.Apply\<close>), with the calls that are made and the
  events that are appended meanwhile; the other calls leave the applier.
\<close>

fun nested ::
  "(string \<Rightarrow> string \<Rightarrow> calls \<Rightarrow> SceneApplied list \<Rightarrow> runErr option \<Rightarrow> bool) \<Rightarrow> Executor \<times> runErr option \<Rightarrow>
     calls \<times> SceneApplied list \<Rightarrow> bool" where
  "nested invoke (SceneAction s, r) (m, lg) = invoke s ''automation'' m lg r"
| "nested invoke (c, r) (m, lg) = (m = [] \<and> lg = [])"

lemma nested_mono [mono]:
  assumes "\<And>s b m lg r. P s b m lg r \<longrightarrow> Q s b m lg r"
  shows "nested P c x \<longrightarrow> nested Q c x"
  using assms by (cases "(P, c, x)" rule: nested.cases) auto

lemma list_all2_nested_mono [mono]:
  "(\<And>x y. P x y \<longrightarrow> Q x y) \<Longrightarrow> list_all2 P xs ys \<longrightarrow> list_all2 Q xs ys"
  by (meson list_all2_mono)

text \<open>
  \<open>Invoke parse snap d corr i invokedBy made log r\<close>: invoking scene \<open>i\<close> can make these calls, append these events and
  return \<open>r\<close>. \<open>steps\<close> and \<open>logs\<close> are what the Starlark actions report.
\<close>

inductive Invoke ::
  "(string \<Rightarrow> error option) \<Rightarrow> ConfigSnapshot \<Rightarrow> RunDeps \<Rightarrow> string \<Rightarrow> string \<Rightarrow> string \<Rightarrow> calls \<Rightarrow> SceneApplied list \<Rightarrow>
     runErr option \<Rightarrow> bool"
  for parse :: "string \<Rightarrow> error option" and snap :: ConfigSnapshot and d :: RunDeps and corr :: string
where
  scene_missing: "findScene snap i = None \<Longrightarrow> Invoke parse snap d corr i invokedBy [] [] (Some (OtherErr ErrSceneNotFound))"
| scene_broken: "findScene snap i = Some scene \<Longrightarrow> compileActions parse {} (sc_Actions scene) = Inl e \<Longrightarrow>
    Invoke parse snap d corr i invokedBy [] (appendEvent l scene corr invokedBy 0 [e] OUTCOME_ACTION_ERROR) (Some (OtherErr e))"
| scene_run: "findScene snap i = Some scene \<Longrightarrow> compileActions parse {} (sc_Actions scene) = Inr execs \<Longrightarrow>
    Execute (d\<lparr>hasScenes := True\<rparr>) (ParallelBlock execs (replicate (length execs) True)) tr err \<Longrightarrow>
    list_all2 (nested (Invoke parse snap d corr)) tr subs \<Longrightarrow>
    made \<in> interleavings (tr # map fst subs) \<Longrightarrow> log \<in> interleavings (map snd subs) \<Longrightarrow>
    Invoke parse snap d corr i invokedBy made
      (log @ appendEvent l scene corr invokedBy steps logs (if err = None then OUTCOME_OK else OUTCOME_ACTION_ERROR)) err"

section \<open>The handlers\<close>

record ApiScene =
  as_Id :: string
  as_DisplayName :: string
  as_AreaId :: string

definition SceneService_List :: "ConfigSnapshot \<Rightarrow> ApiScene list" where
  "SceneService_List snap =
     map (\<lambda>sc. \<lparr>as_Id = sc_Id sc, as_DisplayName = sc_DisplayName sc, as_AreaId = sc_AreaId sc\<rparr>) (cs_Scenes snap)"

text \<open>The answer of \<open>Apply\<close> to the error of the applier, through the adapter of the daemon.\<close>

definition SceneService_Apply :: "string \<Rightarrow> string \<Rightarrow> runErr option \<Rightarrow> (api_code \<times> string) + string" where
  "SceneService_Apply i corrID err =
     (case err of
        None \<Rightarrow> Inr corrID
      | Some (OtherErr e) \<Rightarrow>
          if e = ErrSceneNotFound then Inl (CodeNotFound, ''scene '' @ quoted i @ '' not found'')
          else Inl (api_classify (asApi e), ''scene_apply_failed'')
      | Some Canceled \<Rightarrow> Inl (CodeCanceled, ''scene_apply_failed'')
      | Some LimitError \<Rightarrow> Inl (CodeInternal, ''scene_apply_failed''))"

fun previewActionLine :: "ActionConfig \<Rightarrow> string" where
  "previewActionLine (AC_CallService e c as) = e @ '': '' @ c"
| "previewActionLine (AC_Scene slug) = ''apply scene '' @ quoted slug"
| "previewActionLine (AC_Script name as) = ''run script '' @ quoted name"
| "previewActionLine (AC_Wait t) = ''wait '' @ showInt t @ '' ns''"
| "previewActionLine _ = ''(unknown action)''"

definition SceneService_Preview :: "ConfigSnapshot \<Rightarrow> string \<Rightarrow> (api_code \<times> string) + string list" where
  "SceneService_Preview snap i =
     (case findScene snap i of
        None \<Rightarrow> Inl (CodeNotFound, ''scene '' @ quoted i @ '' not found'')
      | Some scene \<Rightarrow> Inr (map (previewActionLine \<circ> fst) (sc_Actions scene)))"

section \<open>A scene is applied whatever its actions do\<close>

lemma hardErrors_all_continue: "i + length rs \<le> n \<Longrightarrow> hardErrors (replicate n True) i rs = []"
  by (induction "replicate n True" i rs rule: hardErrors.induct) (auto simp: continueAt_def)

lemma ExecuteAll_lengths: "ExecuteAll d cs trs rs \<Longrightarrow> length trs = length cs \<and> length rs = length cs"
  by (induction cs arbitrary: trs rs) (auto elim: ExecuteAll.cases)

inductive_cases allConsE: "ExecuteAll d (c # cs) trs rs"

text \<open>The parallel block of a scene executes all actions to their end, and never fails.\<close>

lemma sceneBlock:
  assumes "Execute d (ParallelBlock execs (replicate (length execs) True)) tr err"
  obtains trs rs where "ExecuteAll d execs trs rs" "tr \<in> interleavings trs" "err = None"
  using assms
proof (cases rule: Execute.cases)
  case (parallel trs rs)
  then have "ExecuteAll d execs trs rs" by simp
  with parallel hardErrors_all_continue [of 0 rs "length execs"] ExecuteAll_lengths [of d execs trs rs] that show ?thesis by auto
qed simp_all

lemma direct_call_made:
  assumes "ExecuteAll d cs trs rs" "c \<in> set cs" "isCall c" "missing d c = None"
  shows "\<exists>r. \<exists>t \<in> set trs. (c, r) \<in> set t"
  using assms
proof (induction cs arbitrary: trs rs)
  case (Cons c' cs)
  from Cons.prems(1) obtain t r ts rs' where "trs = t # ts" and c': "Execute d c' t r" and "ExecuteAll d cs ts rs'"
    by (rule allConsE)
  show ?case
  proof (cases "c = c'")
    case True
    with c' Cons.prems(3,4) have "t = [(c, r)]" by (cases c) (auto elim: Execute.cases)
    with \<open>trs = t # ts\<close> show ?thesis by auto
  next
    case False
    with Cons.IH [OF \<open>ExecuteAll d cs ts rs'\<close>] Cons.prems \<open>trs = t # ts\<close> show ?thesis by auto
  qed
qed simp

text \<open>The calls of an action that is not itself a block, and is not lacking its collaborator.\<close>

definition directCalls :: "RunDeps \<Rightarrow> Executor list \<Rightarrow> Executor set" where
  "directCalls d execs = {c \<in> set execs. isCall c \<and> missing (d\<lparr>hasScenes := True\<rparr>) c = None}"

text \<open>A scene is compiled without the names of the scripts: an action that runs one, at any depth, does not compile.\<close>

lemma compiled_without_scripts:
  "compileAction parse {} a = Inr ex \<Longrightarrow> scriptsOf a = {}"
  "compileActions parse {} as = Inr exs \<Longrightarrow> scriptsIn as = {}"
  by (induction parse "{} :: string set" a and parse "{} :: string set" as arbitrary: ex and exs
      rule: compileAction_compileActions.induct) (auto split: sum.splits if_splits)

text \<open>
  C37. Invoking a scene that returns: an unknown one is reported; one with an action that does not compile, among them every
  one that runs a script, does nothing but record the error; any other reports success, having made the call of every
  action, however many of them failed.
\<close>

theorem scene_outcome:
  assumes "Invoke parse snap d corr i invokedBy made log r"
  shows "case findScene snap i of
      None \<Rightarrow> r = Some (OtherErr ErrSceneNotFound) \<and> made = [] \<and> log = []
    | Some scene \<Rightarrow>
        (case compileActions parse {} (sc_Actions scene) of
           Inl e \<Rightarrow> r = Some (OtherErr e) \<and> made = [] \<and>
             (\<exists>l. log = appendEvent l scene corr invokedBy 0 [e] OUTCOME_ACTION_ERROR)
         | Inr execs \<Rightarrow> scriptsIn (sc_Actions scene) = {} \<and> r = None \<and> directCalls d execs \<subseteq> fst ` set made \<and>
             (\<exists>l steps logs before. log = before @ appendEvent l scene corr invokedBy steps logs OUTCOME_OK))"
  using assms
proof (cases rule: Invoke.cases)
  case (scene_run scene execs tr subs log' l steps logs)
  from scene_run(4) obtain trs rs where all: "ExecuteAll (d\<lparr>hasScenes := True\<rparr>) execs trs rs" "tr \<in> interleavings trs" "r = None"
    by (rule sceneBlock)
  have "set tr \<subseteq> set made" using set_interleavings [OF scene_run(6)] by auto
  then have "directCalls d execs \<subseteq> fst ` set made"
  proof (intro subsetI)
    fix c assume "c \<in> directCalls d execs"
    then obtain x where "\<exists>t \<in> set trs. (c, x) \<in> set t" using direct_call_made [OF all(1), of c] by (fastforce simp: directCalls_def)
    then have "(c, x) \<in> set tr" using set_interleavings [OF all(2)] by auto
    with \<open>set tr \<subseteq> set made\<close> show "c \<in> fst ` set made" by (metis fst_conv image_eqI subsetD)
  qed
  with scene_run all(3) compiled_without_scripts(2) [OF scene_run(3)] show ?thesis by auto
qed auto

section \<open>Scenes that apply scenes\<close>

text \<open>The scenes that a scene applies by an action of its own, and those in any of its blocks.\<close>

definition uses :: "(string \<Rightarrow> error option) \<Rightarrow> ConfigSnapshot \<Rightarrow> (string \<times> string) set" where
  "uses parse snap = {(i, j). \<exists>scene execs. findScene snap i = Some scene \<and>
     compileActions parse {} (sc_Actions scene) = Inr execs \<and> SceneAction j \<in> set execs}"

definition mentions :: "(string \<Rightarrow> error option) \<Rightarrow> ConfigSnapshot \<Rightarrow> (string \<times> string) set" where
  "mentions parse snap = {(i, j). \<exists>scene execs. findScene snap i = Some scene \<and>
     compileActions parse {} (sc_Actions scene) = Inr execs \<and> SceneAction j \<in> set (concat (map leaves execs))}"

lemma nested_conj:
  assumes "list_all2 (nested (\<lambda>s b m lg r. P s b m lg r \<and> Q s)) tr subs" "(SceneAction j, x) \<in> set tr"
  shows "Q j"
  using assms by (induction rule: list_all2_induct) auto

text \<open>An invocation that returns needs the scenes below it to be well-founded.\<close>

lemma Invoke_accessible:
  "Invoke parse snap d corr i invokedBy made log r \<Longrightarrow> i \<in> Wellfounded.acc ((uses parse snap)\<inverse>)"
proof (induction rule: Invoke.induct)
  case (scene_run i scene execs tr err subs made log l invokedBy steps logs)
  obtain trs rs where all: "ExecuteAll (d\<lparr>hasScenes := True\<rparr>) execs trs rs" "tr \<in> interleavings trs"
    using scene_run.hyps(3) by (rule sceneBlock)
  show ?case
  proof (rule acc.accI)
    fix j assume "(j, i) \<in> (uses parse snap)\<inverse>"
    then have "SceneAction j \<in> set execs" using scene_run.hyps by (auto simp: uses_def)
    then obtain x where "\<exists>t \<in> set trs. (SceneAction j, x) \<in> set t" using direct_call_made [OF all(1), of "SceneAction j"] by auto
    then have "(SceneAction j, x) \<in> set tr" using set_interleavings [OF all(2)] by auto
    with scene_run.IH show "j \<in> Wellfounded.acc ((uses parse snap)\<inverse>)" by (rule nested_conj)
  qed
qed (rule acc.accI, simp add: uses_def)+

lemma acc_no_cycle: "i \<in> Wellfounded.acc r \<Longrightarrow> (i, i) \<notin> r\<^sup>+"
proof (induction rule: acc.induct)
  case (accI i)
  show ?case
  proof
    assume "(i, i) \<in> r\<^sup>+"
    then obtain y where "(i, y) \<in> r\<^sup>*" "(y, i) \<in> r" by (meson tranclD2)
    then have "(y, y) \<in> r\<^sup>+" by (meson rtrancl_into_trancl2)
    with accI.IH \<open>(y, i) \<in> r\<close> show False by blast
  qed
qed

lemma Invoke_no_cycle:
  assumes "(i, j) \<in> (uses parse snap)\<^sup>*" "(j, j) \<in> (uses parse snap)\<^sup>+"
  shows "\<not> Invoke parse snap d corr i invokedBy made log r"
proof
  assume "Invoke parse snap d corr i invokedBy made log r"
  moreover have "(j, i) \<in> ((uses parse snap)\<inverse>)\<^sup>*" using assms(1) by (simp add: rtrancl_converse)
  ultimately have "j \<in> Wellfounded.acc ((uses parse snap)\<inverse>)" by (meson Invoke_accessible acc_downwards)
  from acc_no_cycle [OF this] assms(2) show False by (simp add: trancl_converse)
qed

lemma finite_mentions: "finite (mentions parse snap)"
proof (rule finite_subset)
  let ?B = "\<lambda>i. case findScene snap i of None \<Rightarrow> {} | Some scene \<Rightarrow>
    (case compileActions parse {} (sc_Actions scene) of Inl _ \<Rightarrow> {} | Inr execs \<Rightarrow>
       {j. SceneAction j \<in> set (concat (map leaves execs))})"
  have "i \<in> sc_Id ` set (cs_Scenes snap)" if "findScene snap i = Some scene" for i scene
    using that by (auto simp: findScene_def find_Some_iff)
  then show "mentions parse snap \<subseteq> (SIGMA i : sc_Id ` set (cs_Scenes snap). ?B i)"
    by (auto simp: mentions_def)
  have "finite {j. SceneAction j \<in> set es}" for es
    by (rule finite_subset [of _ "(\<lambda>e. case e of SceneAction j \<Rightarrow> j | _ \<Rightarrow> []) ` set es"]) force+
  then show "finite (SIGMA i : sc_Id ` set (cs_Scenes snap). ?B i)"
    by (intro finite_SigmaI) (auto split: option.splits sum.splits simp del: set_concat)
qed

lemma list_all2_choice: "\<forall>x \<in> set xs. \<exists>y. P x y \<Longrightarrow> \<exists>ys. list_all2 P xs ys"
  by (induction xs) (auto simp: list_all2_Cons1)

lemma Invoke_exists_step:
  assumes "\<And>j. (i, j) \<in> mentions parse snap \<Longrightarrow> \<exists>m lg r. Invoke parse snap d corr j ''automation'' m lg r"
  shows "\<exists>m lg r. Invoke parse snap d corr i invokedBy m lg r"
proof (cases "findScene snap i")
  case None
  then show ?thesis by (blast intro: scene_missing)
next
  case (Some scene)
  show ?thesis
  proof (cases "compileActions parse {} (sc_Actions scene)")
    case (Inl e)
    with Some show ?thesis by (blast intro: scene_broken)
  next
    case (Inr execs)
    let ?I = "Invoke parse snap d corr" and ?d = "d\<lparr>hasScenes := True\<rparr>"
    let ?block = "ParallelBlock execs (replicate (length execs) True)"
    let ?Q = "\<lambda>c r. \<exists>x. nested ?I (c, r) x"
    have "\<exists>r. ?Q c r" if "c \<in> set (leaves ?block)" for c
    proof (cases "\<exists>j. c = SceneAction j")
      case True
      then obtain j where "c = SceneAction j" by blast
      with that Some Inr have "(i, j) \<in> mentions parse snap" by (auto simp: mentions_def)
      with assms \<open>c = SceneAction j\<close> show ?thesis by (metis nested.simps(1))
    next
      case False
      then show ?thesis by (cases c) auto
    qed
    then obtain tr err where tr: "Execute ?d ?block tr err" "\<forall>(c, x) \<in> set tr. isCall c \<longrightarrow> ?Q c x"
      using Execute_such [of ?block ?Q ?d] by blast
    have "\<exists>x. nested ?I c x" if "c \<in> set tr" for c
      using tr(2) that by (cases c; cases "fst c") fastforce+
    then obtain subs where "list_all2 (nested ?I) tr subs" using list_all2_choice [of tr "nested ?I"] by blast
    moreover obtain made where "made \<in> interleavings (tr # map fst subs)" using interleavings_ex by blast
    moreover obtain lg where "lg \<in> interleavings (map snd subs)" using interleavings_ex by blast
    ultimately show ?thesis using scene_run [OF Some Inr tr(1)] by blast
  qed
qed

lemma Invoke_returns:
  assumes free: "\<forall>j. (i, j) \<in> (mentions parse snap)\<^sup>* \<longrightarrow> (j, j) \<notin> (mentions parse snap)\<^sup>+"
  shows "\<exists>made log r. Invoke parse snap d corr i invokedBy made log r"
proof -
  let ?M = "mentions parse snap" and ?reach = "{j. (i, j) \<in> (mentions parse snap)\<^sup>*}"
  let ?R = "?M \<inter> ?reach \<times> UNIV"
  have "(j, k) \<in> ?R\<^sup>+ \<Longrightarrow> (i, j) \<in> ?M\<^sup>* \<and> (j, k) \<in> ?M\<^sup>+" for j k
    by (induction rule: trancl_induct) (auto intro: trancl_into_trancl)
  with free have "acyclic ?R" unfolding acyclic_def by blast
  moreover have "finite ?R" using finite_mentions by blast
  ultimately have "wf (?R\<inverse>)" by (rule finite_acyclic_wf_converse [rotated])
  then have "j \<in> ?reach \<Longrightarrow> \<exists>made log r. Invoke parse snap d corr j b made log r" for j b
  proof (induction j arbitrary: b rule: wf_induct_rule)
    case (less j)
    show ?case
    proof (rule Invoke_exists_step)
      fix k assume "(j, k) \<in> ?M"
      moreover from this less.prems have "k \<in> ?reach" by (simp add: rtrancl_into_rtrancl)
      ultimately show "\<exists>m lg r. Invoke parse snap d corr k ''automation'' m lg r" using less.IH less.prems by simp
    qed
  qed
  then show ?thesis by simp
qed


text \<open>A valid configuration with a scene that applies itself, one that applies another, and one that runs a script.\<close>

definition demoScenes :: ConfigSnapshot where
  "demoScenes = \<lparr>cs_EvaluatedAtUnixMs = 0, cs_DriverInstances = [], cs_Entities = [], cs_Automations = [],
     cs_Scripts = [\<lparr>sf_Name = ''greet'', sf_Params = [], sf_Handler = ''pass''\<rparr>], cs_Areas = [],
     cs_Scenes = [
       \<lparr>sc_Id = ''loop'', sc_DisplayName = ''Loop'', sc_Actions = [(AC_Scene ''loop'', False)], sc_AreaId = []\<rparr>,
       \<lparr>sc_Id = ''hall'', sc_DisplayName = ''Hall'', sc_Actions = [(AC_Scene ''dim'', False), (AC_CallService ''light.hall'' ''on'' [], False)], sc_AreaId = []\<rparr>,
       \<lparr>sc_Id = ''dim'', sc_DisplayName = ''Dim'', sc_Actions = [(AC_CallService ''light.bed'' ''off'' [], False)], sc_AreaId = []\<rparr>,
       \<lparr>sc_Id = ''hello'', sc_DisplayName = ''Hello'', sc_Actions = [(AC_Script ''greet'' [], False)], sc_AreaId = []\<rparr>],
     cs_Dashboards = 0, cs_EntityAreas = []\<rparr>"

definition demoDeps :: RunDeps where
  "demoDeps = \<lparr>hasDispatcher = True, hasScenes = True, hasScripts = True, hasRuntime = True\<rparr>"

lemma demoScenes_valid: "Config_Compile demoScenes None = []"
  by (simp add: demoScenes_def Config_Compile_def scriptNames_def danglingAreas_def)

lemma demoScenes_graph:
  "(''loop'', ''loop'') \<in> uses (\<lambda>b. None) demoScenes"
  "mentions (\<lambda>b. None) demoScenes = {(''loop'', ''loop''), (''hall'', ''dim'')}"
  by (auto simp: uses_def mentions_def demoScenes_def findScene_def split: if_splits)


text \<open>A lamp that does not answer, in a scene that reports success.\<close>

lemma demo_dim:
  defines "lamp \<equiv> (CallServiceAction ''light.bed'' ''off'' [], Some (OtherErr ''driver not connected''))"
  shows "Invoke (\<lambda>b. None) demoScenes demoDeps ''c'' ''dim'' ''rpc:me'' [lamp]
    [\<lparr>sa_SceneId = ''dim'', sa_AreaId = '''', sa_CorrelationId = ''c'', sa_InvokedBy = ''rpc:me'', sa_Steps = 0, sa_Logs = [],
      sa_Outcome = OUTCOME_OK\<rparr>] None"
proof -
  let ?ex = "CallServiceAction ''light.bed'' ''off'' []" and ?d = "demoDeps\<lparr>hasScenes := True\<rparr>"
  have "Execute ?d ?ex [lamp] (snd lamp)"
    unfolding lamp_def by (simp add: call_made demoDeps_def)
  then have run: "Execute ?d (ParallelBlock [?ex] (replicate (length [?ex]) True)) [lamp] None"
    by (intro parallel [OF all_more [OF _ all_none]]) (auto simp: lamp_def continueAt_def)
  have sub: "list_all2 (nested (Invoke (\<lambda>b. None) demoScenes demoDeps ''c'')) [lamp] [([], [])]"
    by (simp add: lamp_def)
  obtain scene where scene: "findScene demoScenes ''dim'' = Some scene"
    "compileActions (\<lambda>b. None) {} (sc_Actions scene) = Inr [?ex]" "sc_Id scene = ''dim''" "sc_AreaId scene = ''''"
    by (simp add: findScene_def demoScenes_def)
  from scene_run [OF scene(1,2) run sub, of "[lamp]" "[]" "''rpc:me''" True 0 "[]"] scene(3,4)
  show ?thesis by (simp add: appendEvent_def)
qed

theorem scene_outcome_witness:
  "\<exists>made log. Invoke (\<lambda>b. None) demoScenes demoDeps ''c'' ''dim'' ''rpc:me'' made log None \<and>
     CallServiceAction ''light.bed'' ''off'' [] \<in> fst ` set made \<and> \<not> clean made"
proof -
  let ?lamp = "(CallServiceAction ''light.bed'' ''off'' [], Some (OtherErr ''driver not connected''))"
  have "CallServiceAction ''light.bed'' ''off'' [] \<in> fst ` set [?lamp]"
    using scene_outcome [OF demo_dim] by (simp add: findScene_def demoScenes_def directCalls_def demoDeps_def)
  moreover have "\<not> clean [?lamp]" by (simp add: clean_def)
  ultimately show ?thesis using demo_dim by blast
qed

end
