(* ===== verification/Scripts.thy ===== *)
theory Scripts
  imports Automation_Runs Config_Snapshot Api_Reads
begin

text \<open>
  The script engine (\<^verbatim>\<open>internal/script\<close>): compiling the scripts of a configuration, checking and converting the arguments
  of a call, and the table of runs through which a run can be cancelled, as interleaved steps; and the
  handlers of \<^verbatim>\<open>internal/api/service_script.go\<close>. What a handler does is the result that the Starlark runtime gives;
  \<open>parseFloat\<close> is the bit pattern that \<open>strconv.ParseFloat\<close> gives, \<open>parse\<close> the syntax error of a handler.
\<close>

section \<open>Parameters\<close>

datatype scriptValue = VString string | VInt int | VFloat "64 word" | VBool bool

record Param =
  p_Name :: string
  p_Type :: ParamType
  p_Required :: bool
  p_Default :: "scriptValue option"   \<comment> \<open>\<open>HasDefault\<close> and \<open>Default\<close>\<close>

record Script =
  s_Name :: string
  s_Params :: "Param list"
  s_Handler :: string

text \<open>\<open>strings.ToLower\<close>, on letters of ASCII: no other character becomes a letter of the texts it is compared with.\<close>

definition toLower :: "string \<Rightarrow> string" where
  "toLower = map (\<lambda>c. if 65 \<le> (of_char c :: nat) \<and> (of_char c :: nat) \<le> 90 then char_of (of_char c + 32 :: nat) else c)"

definition expected :: "Param \<Rightarrow> string \<Rightarrow> string \<Rightarrow> error" where
  "expected p what s = ''param '' @ quoted (p_Name p) @ '': expected '' @ what @ '', got '' @ quoted s"

definition entityIdLike :: "string \<Rightarrow> bool" where
  "entityIdLike s \<longleftrightarrow> CHR ''.'' \<in> set s \<and> hd s \<noteq> CHR ''.'' \<and> last s \<noteq> CHR ''.''"

definition Coerce :: "(string \<Rightarrow> 64 word option) \<Rightarrow> Param \<Rightarrow> string \<Rightarrow> error + scriptValue" where
  "Coerce parseFloat p s =
     (case p_Type p of
        TYPE_STRING \<Rightarrow> Inr (VString s)
      | TYPE_INT \<Rightarrow> (case parseInt64 s of None \<Rightarrow> Inl (expected p ''int'' s) | Some n \<Rightarrow> Inr (VInt n))
      | TYPE_FLOAT \<Rightarrow> (case parseFloat s of None \<Rightarrow> Inl (expected p ''float'' s) | Some f \<Rightarrow> Inr (VFloat f))
      | TYPE_BOOL \<Rightarrow>
          (if toLower s \<in> {''true'', ''1'', ''yes''} then Inr (VBool True)
           else if toLower s \<in> {''false'', ''0'', ''no''} then Inr (VBool False)
           else Inl (expected p ''bool'' s))
      | TYPE_ENTITY_ID \<Rightarrow>
          (if \<not> entityIdLike s
           then Inl (''param '' @ quoted (p_Name p) @ '': invalid entity id '' @ quoted s @ '' (expected \"<type>.<name>\")'')
           else Inr (VString s))
      | TYPE_UNSPECIFIED \<Rightarrow> Inl (''param '' @ quoted (p_Name p) @ '': unknown type TYPE_UNSPECIFIED''))"

section \<open>Compiling scripts\<close>

record ScriptItemError =
  sie_Name :: string
  sie_Path :: string
  sie_Reason :: string

definition compileParam :: "(string \<Rightarrow> 64 word option) \<Rightarrow> string \<Rightarrow> nat \<Rightarrow> ScriptParam \<Rightarrow> ScriptItemError + Param" where
  "compileParam parseFloat name pi p =
     (let rp = \<lparr>p_Name = sp_Name p, p_Type = sp_Type p, p_Required = sp_Required p, p_Default = None\<rparr>;
          at = (\<lambda>field. indexed ''params'' pi @ ''.'' @ field) in
      if sp_Name p = '''' then Inl \<lparr>sie_Name = name, sie_Path = at ''name'', sie_Reason = ''empty''\<rparr>
      else if sp_Type p = TYPE_UNSPECIFIED then Inl \<lparr>sie_Name = name, sie_Path = at ''type'', sie_Reason = ''unspecified type''\<rparr>
      else if sp_Default p = '''' then Inr rp
      else case Coerce parseFloat rp (sp_Default p) of
          Inl e \<Rightarrow> Inl \<lparr>sie_Name = name, sie_Path = at ''default'', sie_Reason = e\<rparr>
        | Inr v \<Rightarrow> Inr (rp\<lparr>p_Default := Some v\<rparr>))"

fun compileParams :: "(string \<Rightarrow> 64 word option) \<Rightarrow> string \<Rightarrow> nat \<Rightarrow> ScriptParam list \<Rightarrow> ScriptItemError list \<times> Param list" where
  "compileParams parseFloat name pi [] = ([], [])"
| "compileParams parseFloat name pi (p # ps) =
     (let (errs, params) = compileParams parseFloat name (Suc pi) ps in
      case compileParam parseFloat name pi p of Inl e \<Rightarrow> (e # errs, params) | Inr rp \<Rightarrow> (errs, rp # params))"

text \<open>The loop over the scripts from index \<open>i\<close>, with the map and the errors so far.\<close>

fun compileEachScript ::
  "(string \<Rightarrow> 64 word option) \<Rightarrow> (string \<Rightarrow> error option) \<Rightarrow> nat \<Rightarrow> ScriptConfig list \<Rightarrow> (string \<rightharpoonup> Script) \<Rightarrow> ScriptItemError list
     \<Rightarrow> (string \<rightharpoonup> Script) \<times> ScriptItemError list" where
  "compileEachScript parseFloat parse i [] out errs = (out, errs)"
| "compileEachScript parseFloat parse i (s # ss) out errs =
     (let name = sf_Name s; continue = compileEachScript parseFloat parse (Suc i) ss in
      if name = '''' then continue out (errs @ [\<lparr>sie_Name = indexed ''scripts'' i, sie_Path = ''name'', sie_Reason = ''empty''\<rparr>])
      else if out name \<noteq> None
      then continue out (errs @ [\<lparr>sie_Name = name, sie_Path = ''name'', sie_Reason = ''duplicate script name''\<rparr>])
      else case parse (sf_Handler s) of
          Some e \<Rightarrow> continue out (errs @ [\<lparr>sie_Name = name, sie_Path = ''handler'', sie_Reason = e\<rparr>])
        | None \<Rightarrow>
            (case compileParams parseFloat name 0 (sf_Params s) of
               ([], params) \<Rightarrow> continue (out(name \<mapsto> \<lparr>s_Name = name, s_Params = params, s_Handler = sf_Handler s\<rparr>)) errs
             | (pe # pes, _) \<Rightarrow> continue out (errs @ pe # pes)))"

definition CompileScripts ::
  "(string \<Rightarrow> 64 word option) \<Rightarrow> (string \<Rightarrow> error option) \<Rightarrow> ConfigSnapshot \<Rightarrow> ScriptItemError list + (string \<rightharpoonup> Script)" where
  "CompileScripts parseFloat parse snap =
     (case compileEachScript parseFloat parse 0 (cs_Scripts snap) Map.empty [] of
        (out, []) \<Rightarrow> Inr out
      | (out, e # es) \<Rightarrow> Inl (e # es))"

section \<open>Arguments\<close>

text \<open>The loop over the parameters; an empty argument counts as absent.\<close>

fun bindArgs ::
  "(string \<Rightarrow> 64 word option) \<Rightarrow> (string \<rightharpoonup> string) \<Rightarrow> Param list \<Rightarrow> (string \<rightharpoonup> scriptValue) \<Rightarrow> error + (string \<rightharpoonup> scriptValue)" where
  "bindArgs parseFloat args [] out = Inr out"
| "bindArgs parseFloat args (p # ps) out =
     (case args (p_Name p) of
        Some (c # cs) \<Rightarrow>
          (case Coerce parseFloat p (c # cs) of
             Inl e \<Rightarrow> Inl e
           | Inr v \<Rightarrow> bindArgs parseFloat args ps (out(p_Name p \<mapsto> v)))
      | _ \<Rightarrow>
          if p_Required p then Inl (''missing required argument '' @ quoted (p_Name p))
          else bindArgs parseFloat args ps
            (case p_Default p of None \<Rightarrow> out | Some v \<Rightarrow> out(p_Name p \<mapsto> v)))"

text \<open>\<open>args\<close> lists the arguments in the order in which the range over the map visits them.\<close>

definition validateArgs ::
  "(string \<Rightarrow> 64 word option) \<Rightarrow> Script \<Rightarrow> (string \<times> string) list \<Rightarrow> error + (string \<rightharpoonup> scriptValue)" where
  "validateArgs parseFloat s args =
     (case find (\<lambda>(k, _). k \<notin> p_Name ` set (s_Params s)) args of
        Some (k, _) \<Rightarrow> Inl (''unknown argument '' @ quoted k)
      | None \<Rightarrow> bindArgs parseFloat (map_of args) (s_Params s) Map.empty)"

section \<open>What the handler is given\<close>

fun hasType :: "ParamType \<Rightarrow> scriptValue \<Rightarrow> bool" where
  "hasType TYPE_STRING (VString s) = True"
| "hasType TYPE_ENTITY_ID (VString s) = entityIdLike s"
| "hasType TYPE_INT (VInt i) = in_int64 i"
| "hasType TYPE_FLOAT (VFloat f) = True"
| "hasType TYPE_BOOL (VBool b) = True"
| "hasType t v = False"

lemma parseInt64_range: "parseInt64 s = Some n \<Longrightarrow> in_int64 n"
  by (auto simp: parseInt64_def Let_def split: if_splits)

lemma Coerce_typed: "Coerce pf p s = Inr v \<Longrightarrow> hasType (p_Type p) v"
  by (auto simp: Coerce_def parseInt64_range split: ParamType.splits option.splits if_splits)

definition goodParam :: "Param \<Rightarrow> bool" where
  "goodParam p \<longleftrightarrow> p_Name p \<noteq> '''' \<and> p_Type p \<noteq> TYPE_UNSPECIFIED \<and> (\<forall>v. p_Default p = Some v \<longrightarrow> hasType (p_Type p) v)"

lemma compileParam_good: "compileParam pf name i p = Inr rp \<Longrightarrow> goodParam rp"
  by (auto simp: compileParam_def goodParam_def Let_def dest: Coerce_typed split: if_splits sum.splits)

lemma compileParams_good: "p \<in> set (snd (compileParams pf name i ps)) \<Longrightarrow> goodParam p"
  by (induction pf name i ps rule: compileParams.induct)
    (auto simp: case_prod_beta Let_def compileParam_good split: sum.splits)

lemma compileEachScript_good:
  assumes "compileEachScript pf parse i ss out errs = (out', errs')" "\<And>n s. out n = Some s \<Longrightarrow> s_Name s = n \<and> list_all goodParam (s_Params s)"
    and "out' n = Some s"
  shows "s_Name s = n \<and> list_all goodParam (s_Params s)"
  using assms
proof (induction ss arbitrary: i out errs)
  case (Cons sc ss)
  note step = Cons.prems(1)[unfolded compileEachScript.simps Let_def]
  obtain pe params where cp: "compileParams pf (sf_Name sc) 0 (sf_Params sc) = (pe, params)" by fastforce
  with compileParams_good [of _ pf "sf_Name sc" 0 "sf_Params sc"] have good: "list_all goodParam params" by (auto simp: list_all_iff)
  show ?case
  proof (cases "sf_Name sc = [] \<or> out (sf_Name sc) \<noteq> None \<or> parse (sf_Handler sc) \<noteq> None \<or> pe \<noteq> []")
    case True
    then obtain errs2 where "compileEachScript pf parse (Suc i) ss out errs2 = (out', errs')"
      using step cp by (auto split: if_splits option.splits list.splits)
    then show ?thesis using Cons.IH Cons.prems(2,3) by blast
  next
    case False
    then have "compileEachScript pf parse (Suc i) ss
        (out(sf_Name sc \<mapsto> \<lparr>s_Name = sf_Name sc, s_Params = params, s_Handler = sf_Handler sc\<rparr>)) errs = (out', errs')"
      using step cp by simp
    then show ?thesis by (rule Cons.IH) (use Cons.prems(2,3) good in \<open>auto split: if_splits\<close>)
  qed
qed simp

text \<open>The argument that counts for a parameter, and the value that the handler gets for it.\<close>

definition given :: "(string \<rightharpoonup> string) \<Rightarrow> Param \<Rightarrow> string option" where
  "given args p = (case args (p_Name p) of Some (c # cs) \<Rightarrow> Some (c # cs) | _ \<Rightarrow> None)"

definition boundTo :: "(string \<Rightarrow> 64 word option) \<Rightarrow> (string \<rightharpoonup> string) \<Rightarrow> Param \<Rightarrow> scriptValue option" where
  "boundTo pf args p =
     (case given args p of
        None \<Rightarrow> p_Default p
      | Some raw \<Rightarrow> (case Coerce pf p raw of Inl e \<Rightarrow> None | Inr v \<Rightarrow> Some v))"

definition acceptable :: "(string \<Rightarrow> 64 word option) \<Rightarrow> (string \<rightharpoonup> string) \<Rightarrow> Param \<Rightarrow> bool" where
  "acceptable pf args p \<longleftrightarrow>
     (case given args p of None \<Rightarrow> \<not> p_Required p | Some raw \<Rightarrow> \<exists>v. Coerce pf p raw = Inr v)"

definition bindOne :: "(string \<Rightarrow> 64 word option) \<Rightarrow> (string \<rightharpoonup> string) \<Rightarrow> Param \<Rightarrow> (string \<rightharpoonup> scriptValue) \<Rightarrow> (string \<rightharpoonup> scriptValue)" where
  "bindOne pf args p out = (case boundTo pf args p of None \<Rightarrow> out | Some v \<Rightarrow> out(p_Name p \<mapsto> v))"

lemma bindArgs_step:
  "acceptable pf args p \<Longrightarrow> bindArgs pf args (p # ps) out = bindArgs pf args ps (bindOne pf args p out)"
  "\<not> acceptable pf args p \<Longrightarrow> \<exists>e. bindArgs pf args (p # ps) out = Inl e"
  by (cases "args (p_Name p)"; cases "the (args (p_Name p))";
      cases "Coerce pf p (the (args (p_Name p)))"; simp add: acceptable_def bindOne_def boundTo_def given_def)+

lemma bindArgs_spec:
  "bindArgs pf args ps out = Inr out' \<longleftrightarrow> list_all (acceptable pf args) ps \<and> out' = fold (bindOne pf args) ps out"
proof (induction ps arbitrary: out)
  case (Cons p ps)
  then show ?case
    using bindArgs_step [of pf args p ps out] by (cases "acceptable pf args p") (auto simp del: bindArgs.simps)
qed auto

lemma bindOne_cases:
  "bindOne pf args p out k = Some v \<Longrightarrow> p_Name p = k \<and> boundTo pf args p = Some v \<or> out k = Some v"
  "bindOne pf args p out k = None \<Longrightarrow> out k = None \<and> (p_Name p = k \<longrightarrow> boundTo pf args p = None)"
  by (auto simp: bindOne_def split: option.splits if_splits)

lemma fold_bindOne_Some:
  "fold (bindOne pf args) ps out k = Some v \<Longrightarrow> (\<exists>p \<in> set ps. p_Name p = k \<and> boundTo pf args p = Some v) \<or> out k = Some v"
  by (induction ps arbitrary: out) (auto dest: bindOne_cases(1))

lemma fold_bindOne_None:
  "fold (bindOne pf args) ps out k = None \<Longrightarrow> out k = None \<and> (\<forall>p \<in> set ps. p_Name p = k \<longrightarrow> boundTo pf args p = None)"
  by (induction ps arbitrary: out) (auto dest: bindOne_cases(2))

lemma bound_typed: "goodParam p \<Longrightarrow> boundTo pf args p = Some v \<Longrightarrow> hasType (p_Type p) v"
  by (auto simp: boundTo_def goodParam_def dest: Coerce_typed split: option.splits sum.splits)

text \<open>
  C39. A call of a compiled script is accepted exactly when every argument names a parameter, every required parameter has a
  non-empty argument and every non-empty argument can be read as its type; the handler then gets, for every parameter
  with an argument or a default and for no other name, a value of the declared type, from the argument if there is one.
\<close>

theorem script_args_exact:
  assumes "CompileScripts pf parse snap = Inr m" "m name = Some s"
  shows "((\<exists>out. validateArgs pf s args = Inr out) \<longleftrightarrow>
      fst ` set args \<subseteq> p_Name ` set (s_Params s) \<and> list_all (acceptable pf (map_of args)) (s_Params s)) \<and>
    (\<forall>out. validateArgs pf s args = Inr out \<longrightarrow>
      (\<forall>k v. out k = Some v \<longrightarrow> (\<exists>p \<in> set (s_Params s). p_Name p = k \<and> boundTo pf (map_of args) p = Some v \<and> hasType (p_Type p) v)) \<and>
      (\<forall>p \<in> set (s_Params s). out (p_Name p) = None \<longrightarrow> boundTo pf (map_of args) p = None))"
proof -
  have "list_all goodParam (s_Params s)"
    using assms compileEachScript_good [of pf parse 0 "cs_Scripts snap" Map.empty "[]" m "[]" name s]
    by (auto simp: CompileScripts_def split: prod.splits list.splits)
  then have good: "goodParam p" if "p \<in> set (s_Params s)" for p using that by (simp add: list_all_iff)
  have known: "find (\<lambda>(k, _). k \<notin> p_Name ` set (s_Params s)) args = None \<longleftrightarrow> fst ` set args \<subseteq> p_Name ` set (s_Params s)"
    by (auto simp: find_None_iff)
  have val: "validateArgs pf s args = Inr out \<longleftrightarrow> fst ` set args \<subseteq> p_Name ` set (s_Params s) \<and>
      list_all (acceptable pf (map_of args)) (s_Params s) \<and> out = fold (bindOne pf (map_of args)) (s_Params s) Map.empty" for out
    unfolding validateArgs_def known [symmetric] by (auto simp: bindArgs_spec split: option.splits)
  have some: "\<exists>p \<in> set (s_Params s). p_Name p = k \<and> boundTo pf (map_of args) p = Some v \<and> hasType (p_Type p) v"
    if "fold (bindOne pf (map_of args)) (s_Params s) Map.empty k = Some v" for k v
    using fold_bindOne_Some [OF that] good bound_typed by auto
  have none: "boundTo pf (map_of args) p = None"
    if "p \<in> set (s_Params s)" "fold (bindOne pf (map_of args)) (s_Params s) Map.empty (p_Name p) = None" for p
    using fold_bindOne_None [OF that(2)] that(1) by auto
  show ?thesis unfolding val using some none by simp
qed

section \<open>The engine\<close>

text \<open>
  A run is the \<open>scriptRun\<close> of a call with the locals that the call still needs: the name, the correlation id and the
  values for the handler. A pointer to a run is its index in \<open>se_heap\<close>.
\<close>

record scriptRun =
  run_Name :: string
  run_CorrelationID :: string
  run_Params :: "string \<rightharpoonup> scriptValue"
  run_ctxDone :: bool
  run_canceledBy :: string
  run_done :: bool

record CallResult =
  cr_CorrelationID :: string
  cr_Outcome :: RunOutcome
  cr_Error :: string
  cr_Steps :: nat
  cr_Logs :: "string list"
  cr_ReturnValue :: string
  cr_CanceledBy :: string

datatype scriptEvent =
    ScriptInvoked string string string "(string \<times> string) list"   \<comment> \<open>script, correlation id, invoked by, arguments\<close>
  | ScriptFinished string CallResult

record scriptEngine =
  se_scripts :: "string \<rightharpoonup> Script"
  se_runtime :: bool   \<comment> \<open>not nil\<close>
  se_runs :: "string \<rightharpoonup> nat"
  se_heap :: "scriptRun list"
  se_log :: "scriptEvent list"

definition NewEngine :: "(string \<rightharpoonup> Script) \<Rightarrow> bool \<Rightarrow> scriptEngine" where
  "NewEngine scripts runtime = \<lparr>se_scripts = scripts, se_runtime = runtime, se_runs = Map.empty, se_heap = [], se_log = []\<rparr>"

definition ErrScriptArgs :: error where
  "ErrScriptArgs = ''script: invalid arguments''"

definition registerRun :: "scriptRun \<Rightarrow> scriptEngine \<Rightarrow> scriptEngine" where
  "registerRun run e = e\<lparr>se_runs := (se_runs e)(run_CorrelationID run \<mapsto> length (se_heap e)), se_heap := se_heap e @ [run]\<rparr>"

text \<open>
  \<open>Call\<close> up to the execution of the handler. \<open>uuidErr\<close> is the error of \<open>uuid.Parse\<close>, \<open>fresh\<close> the new id; the error of the
  append is dropped, \<open>logged\<close> says whether it succeeds.
\<close>

definition beginCall ::
  "(string \<Rightarrow> 64 word option) \<Rightarrow> (string \<Rightarrow> error option) \<Rightarrow> string \<Rightarrow> bool \<Rightarrow> string \<Rightarrow> (string \<times> string) list \<Rightarrow> string \<Rightarrow>
     string \<Rightarrow> scriptEngine \<Rightarrow> (error + nat) \<times> scriptEngine" where
  "beginCall parseFloat uuidErr fresh logged name args invokedBy sharedCorrID e =
     (case se_scripts e name of
        None \<Rightarrow> (Inl ''script: unknown name'', e)
      | Some s \<Rightarrow>
          if \<not> se_runtime e then (Inl (''script '' @ quoted name @ '': runtime not configured''), e)
          else let corrID = (if sharedCorrID = '''' then fresh else sharedCorrID) in
          (case uuidErr corrID of
             Some err \<Rightarrow> (Inl (''invalid correlation id '' @ quoted corrID @ '': '' @ err), e)
           | None \<Rightarrow>
               (case validateArgs parseFloat s args of
                  Inl err \<Rightarrow> (Inl (ErrScriptArgs @ '': '' @ err), e)
                | Inr coerced \<Rightarrow>
                    let e1 = registerRun \<lparr>run_Name = name, run_CorrelationID = corrID, run_Params = coerced, run_ctxDone = False,
                          run_canceledBy = '''', run_done = False\<rparr> e in
                    (Inr (length (se_heap e)),
                     e1\<lparr>se_log := se_log e1 @ (if logged then [ScriptInvoked name corrID invokedBy args] else [])\<rparr>))))"

text \<open>What the Starlark runtime returns: steps, log lines and value, or an error, which can be a limit, and its text.\<close>

datatype execResult = ExecOk nat "string list" string | ExecError bool string

definition classifyExecError :: "bool \<Rightarrow> bool \<Rightarrow> RunOutcome" where
  "classifyExecError isLimit ctxDone =
     (if isLimit then OUTCOME_LIMIT_EXCEEDED else if ctxDone then OUTCOME_CANCELLED else OUTCOME_ACTION_ERROR)"

definition callResult :: "scriptRun \<Rightarrow> bool \<Rightarrow> execResult \<Rightarrow> CallResult" where
  "callResult run ctxDone res =
     (case res of
        ExecOk steps logs v \<Rightarrow>
          \<lparr>cr_CorrelationID = run_CorrelationID run, cr_Outcome = OUTCOME_OK, cr_Error = '''', cr_Steps = steps, cr_Logs = logs,
           cr_ReturnValue = v, cr_CanceledBy = ''''\<rparr>
      | ExecError isLimit err \<Rightarrow>
          let outcome = classifyExecError isLimit ctxDone in
          \<lparr>cr_CorrelationID = run_CorrelationID run, cr_Outcome = outcome, cr_Error = err, cr_Steps = 0, cr_Logs = [],
           cr_ReturnValue = '''', cr_CanceledBy = (if outcome = OUTCOME_CANCELLED then run_canceledBy run else '''')\<rparr>)"

text \<open>
  \<open>Call\<close> after the handler. \<open>parentDone\<close> says that the context of the caller is done, which ends the run's context too and
  makes the append fail.
\<close>

definition endCall :: "nat \<Rightarrow> bool \<Rightarrow> bool \<Rightarrow> execResult \<Rightarrow> scriptEngine \<Rightarrow> CallResult \<times> scriptEngine" where
  "endCall n parentDone logged res e =
     (let run = se_heap e ! n;
          result = callResult run (run_ctxDone run \<or> parentDone) res in
      (result,
       e\<lparr>se_log := se_log e @ (if logged \<and> \<not> parentDone then [ScriptFinished (run_Name run) result] else []),
         se_heap := (se_heap e)[n := run\<lparr>run_ctxDone := True, run_done := True\<rparr>]\<rparr>))"

text \<open>The timer that \<open>finishRun\<close> sets.\<close>

definition forgetRun :: "nat \<Rightarrow> scriptEngine \<Rightarrow> scriptEngine" where
  "forgetRun n e =
     (let runID = run_CorrelationID (se_heap e ! n) in
      if se_runs e runID = Some n then e\<lparr>se_runs := (se_runs e)(runID := None)\<rparr> else e)"

definition scriptRun_Cancel :: "string \<Rightarrow> scriptRun \<Rightarrow> scriptRun" where
  "scriptRun_Cancel canceledBy r =
     r\<lparr>run_canceledBy := (if canceledBy \<noteq> '''' \<and> run_canceledBy r = '''' then canceledBy else run_canceledBy r), run_ctxDone := True\<rparr>"

text \<open>\<open>Cancel\<close> up to its wait for the run to end; then the answers that its select can give.\<close>

definition Engine_Cancel :: "string \<Rightarrow> string \<Rightarrow> scriptEngine \<Rightarrow> (error + nat) \<times> scriptEngine" where
  "Engine_Cancel runID canceledBy e =
     (case se_runs e runID of
        None \<Rightarrow> (Inl ''script: unknown run'', e)
      | Some n \<Rightarrow> (Inr n, e\<lparr>se_heap := (se_heap e)[n := scriptRun_Cancel canceledBy (se_heap e ! n)]\<rparr>))"

definition cancelAnswers :: "nat \<Rightarrow> bool \<Rightarrow> error option \<Rightarrow> scriptEngine \<Rightarrow> error option set" where
  "cancelAnswers n timerFired ctxErr e =
     (if run_done (se_heap e ! n) then {None} else {}) \<union>
     (if timerFired then {Some ''context deadline exceeded''} else {}) \<union>
     (case ctxErr of None \<Rightarrow> {} | Some err \<Rightarrow> {Some err})"

definition Engine_Reload ::
  "(string \<Rightarrow> 64 word option) \<Rightarrow> (string \<Rightarrow> error option) \<Rightarrow> ConfigSnapshot \<Rightarrow> scriptEngine \<Rightarrow> ScriptItemError list option \<times> scriptEngine" where
  "Engine_Reload parseFloat parse snapshot e =
     (case CompileScripts parseFloat parse snapshot of
        Inl errs \<Rightarrow> (Some errs, e)
      | Inr m \<Rightarrow> (None, e\<lparr>se_scripts := m\<rparr>))"

definition Engine_Stop :: "scriptEngine \<Rightarrow> scriptEngine" where
  "Engine_Stop e = e\<lparr>se_runs := Map.empty\<rparr>"

text \<open>The steps of the goroutines that use the engine, in any order. \<open>Stop\<close> passes when no call is in flight,
  and none starts until it has cleared the table.\<close>

inductive served :: "(string \<Rightarrow> 64 word option) \<Rightarrow> (string \<Rightarrow> error option) \<Rightarrow> (string \<Rightarrow> error option) \<Rightarrow> scriptEngine \<Rightarrow> bool"
  for parseFloat :: "string \<Rightarrow> 64 word option" and parse :: "string \<Rightarrow> error option" and uuidErr :: "string \<Rightarrow> error option"
where
  served_new: "served parseFloat parse uuidErr (NewEngine scripts runtime)"
| served_begin: "served parseFloat parse uuidErr e \<Longrightarrow>
    served parseFloat parse uuidErr (snd (beginCall parseFloat uuidErr fresh logged name args invokedBy shared e))"
| served_end: "served parseFloat parse uuidErr e \<Longrightarrow> n < length (se_heap e) \<Longrightarrow> \<not> run_done (se_heap e ! n) \<Longrightarrow>
    served parseFloat parse uuidErr (snd (endCall n parentDone logged res e))"
| served_forget: "served parseFloat parse uuidErr e \<Longrightarrow> n < length (se_heap e) \<Longrightarrow> run_done (se_heap e ! n) \<Longrightarrow>
    served parseFloat parse uuidErr (forgetRun n e)"
| served_cancel: "served parseFloat parse uuidErr e \<Longrightarrow> served parseFloat parse uuidErr (snd (Engine_Cancel runID canceledBy e))"
| served_reload: "served parseFloat parse uuidErr e \<Longrightarrow> served parseFloat parse uuidErr (snd (Engine_Reload parseFloat parse snapshot e))"
| served_stop: "served parseFloat parse uuidErr e \<Longrightarrow> \<forall>run \<in> set (se_heap e). run_done run \<Longrightarrow>
    served parseFloat parse uuidErr (Engine_Stop e)"

section \<open>Cancelling a run\<close>

text \<open>The newest run with a correlation id.\<close>

definition newest :: "scriptEngine \<Rightarrow> string \<Rightarrow> nat \<Rightarrow> bool" where
  "newest e c n \<longleftrightarrow>
     (let cs = map run_CorrelationID (se_heap e) in n < length cs \<and> cs ! n = c \<and> c \<notin> set (drop (Suc n) cs))"

definition runTable :: "scriptEngine \<Rightarrow> bool" where
  "runTable e \<longleftrightarrow> (\<forall>c n. se_runs e c = Some n \<longrightarrow> newest e c n) \<and>
     (\<forall>c n. newest e c n \<and> \<not> run_done (se_heap e ! n) \<longrightarrow> se_runs e c = Some n)"

lemma runTableD:
  "runTable e \<Longrightarrow> se_runs e c = Some n \<Longrightarrow> newest e c n"
  "runTable e \<Longrightarrow> newest e c n \<Longrightarrow> \<not> run_done (se_heap e ! n) \<Longrightarrow> se_runs e c = Some n"
  unfolding runTable_def by blast+

lemma newest_cong: "map run_CorrelationID (se_heap e') = map run_CorrelationID (se_heap e) \<Longrightarrow> newest e' = newest e"
  by (simp add: newest_def fun_eq_iff)

lemma newest_unique: "newest e c n \<Longrightarrow> newest e c m \<Longrightarrow> n = m"
proof -
  have "\<not> n < m" if "newest e c n" "newest e c m" for n m
  proof
    assume "n < m"
    let ?cs = "map run_CorrelationID (se_heap e)"
    have "?cs ! m = drop (Suc n) ?cs ! (m - Suc n)" "m - Suc n < length (drop (Suc n) ?cs)"
      using \<open>n < m\<close> that(2) by (auto simp: newest_def Let_def)
    then have "?cs ! m \<in> set (drop (Suc n) ?cs)" by (metis nth_mem)
    with that show False by (simp only: newest_def Let_def)
  qed
  then show "newest e c n \<Longrightarrow> newest e c m \<Longrightarrow> n = m" by (meson linorder_neqE_nat)
qed

lemma newest_append:
  assumes "se_heap e' = se_heap e @ [r]"
  shows "newest e' c n \<longleftrightarrow> (if c = run_CorrelationID r then n = length (se_heap e) else newest e c n)"
  using assms by (auto simp: newest_def Let_def nth_append)

lemma map_corr_update:
  "run_CorrelationID r = run_CorrelationID (xs ! n) \<Longrightarrow> map run_CorrelationID (xs[n := r]) = map run_CorrelationID xs"
  by (cases "n < length xs") (auto simp: map_update list_update_same_conv list_update_beyond)

lemma nth_update_any: "m < length xs \<Longrightarrow> xs[n := r] ! m = (if m = n then r else xs ! m)"
  by (simp add: nth_list_update)

lemma newest_in_heap: "newest e c n \<Longrightarrow> n < length (se_heap e)"
  by (simp add: newest_def Let_def)

lemma runTable_transfer:
  assumes "runTable e" "map run_CorrelationID (se_heap e') = map run_CorrelationID (se_heap e)" "se_runs e' = se_runs e"
    and "\<And>m. m < length (se_heap e) \<Longrightarrow> run_done (se_heap e ! m) \<Longrightarrow> run_done (se_heap e' ! m)"
  shows "runTable e'"
  using assms(1,3,4) newest_cong [OF assms(2)] newest_in_heap unfolding runTable_def by metis

lemma runTable_begin:
  assumes "runTable e"
  shows "runTable (snd (beginCall pf uuidErr fresh logged name args invokedBy shared e))"
proof (cases "fst (beginCall pf uuidErr fresh logged name args invokedBy shared e)")
  case (Inl err)
  then have "snd (beginCall pf uuidErr fresh logged name args invokedBy shared e) = e"
    by (auto simp: beginCall_def Let_def split: option.splits sum.splits if_splits)
  with assms show ?thesis by simp
next
  case (Inr n)
  let ?e = "snd (beginCall pf uuidErr fresh logged name args invokedBy shared e)"
  obtain r where r: "\<not> run_done r" "se_heap ?e = se_heap e @ [r]" "se_runs ?e = (se_runs e)(run_CorrelationID r \<mapsto> length (se_heap e))"
    using Inr by (fastforce simp: beginCall_def Let_def registerRun_def split: option.splits sum.splits if_splits)
  show ?thesis
    unfolding runTable_def newest_append [OF r(2)] r(2,3)
  proof (intro conjI allI impI)
    fix c m assume "((se_runs e)(run_CorrelationID r \<mapsto> length (se_heap e))) c = Some m"
    with runTableD(1) [OF assms, of c m] show "if c = run_CorrelationID r then m = length (se_heap e) else newest e c m"
      by (simp split: if_splits)
  next
    fix c m
    assume "(if c = run_CorrelationID r then m = length (se_heap e) else newest e c m) \<and> \<not> run_done ((se_heap e @ [r]) ! m)"
    with runTableD(2) [OF assms, of c m] newest_in_heap [of e c m]
    show "((se_runs e)(run_CorrelationID r \<mapsto> length (se_heap e))) c = Some m"
      by (cases "c = run_CorrelationID r") (simp_all add: nth_append)
  qed
qed

lemma runTable_end:
  assumes "runTable e" "n < length (se_heap e)"
  shows "runTable (snd (endCall n parentDone logged res e))"
  using assms by (intro runTable_transfer [OF assms(1)]) (simp_all add: endCall_def Let_def map_corr_update nth_list_update)

lemma runTable_forget:
  assumes "runTable e" "run_done (se_heap e ! n)"
  shows "runTable (forgetRun n e)"
proof -
  have "newest (forgetRun n e) = newest e" "se_heap (forgetRun n e) = se_heap e"
    by (auto simp: forgetRun_def Let_def intro: newest_cong)
  moreover have "se_runs (forgetRun n e) c = Some m \<longleftrightarrow>
      se_runs e c = Some m \<and> \<not> (c = run_CorrelationID (se_heap e ! n) \<and> m = n)" for c m
    by (auto simp: forgetRun_def Let_def)
  ultimately show ?thesis using assms unfolding runTable_def by metis
qed

lemma runTable_cancel: "runTable e \<Longrightarrow> runTable (snd (Engine_Cancel runID canceledBy e))"
  by (erule runTable_transfer)
    (auto simp: Engine_Cancel_def scriptRun_Cancel_def map_corr_update nth_update_any split: option.splits)

lemma served_runTable: "served pf parse uuidErr e \<Longrightarrow> runTable e"
proof (induction rule: served.induct)
  case (served_new scripts runtime)
  then show ?case by (simp add: runTable_def newest_def NewEngine_def)
next
  case (served_begin e fresh logged name args invokedBy shared)
  then show ?case by (simp only: runTable_begin)
next
  case (served_end e n parentDone logged res)
  then show ?case by (simp only: runTable_end)
next
  case (served_forget e n)
  then show ?case by (simp only: runTable_forget)
next
  case (served_cancel e runID canceledBy)
  then show ?case by (simp only: runTable_cancel)
next
  case (served_reload e snapshot)
  then show ?case by (elim runTable_transfer) (auto simp: Engine_Reload_def split: sum.splits)
next
  case (served_stop e)
  then have "run_done (se_heap e ! n)" if "newest e c n" for c n
    using newest_in_heap [OF that] by simp
  moreover have "newest (Engine_Stop e) = newest e" by (rule newest_cong) (simp add: Engine_Stop_def)
  ultimately show ?case by (simp add: runTable_def) (simp add: Engine_Stop_def)
qed


text \<open>A script with a required text and a number, and two runs of it that share a correlation id.\<close>

definition greetSnapshot :: ConfigSnapshot where
  "greetSnapshot = \<lparr>cs_EvaluatedAtUnixMs = 0, cs_DriverInstances = [], cs_Entities = [], cs_Automations = [],
     cs_Scripts = [\<lparr>sf_Name = ''greet'', sf_Params =
       [\<lparr>sp_Name = ''who'', sp_Type = TYPE_STRING, sp_Required = True, sp_Default = ''''\<rparr>,
        \<lparr>sp_Name = ''times'', sp_Type = TYPE_INT, sp_Required = False, sp_Default = ''3''\<rparr>], sf_Handler = ''pass''\<rparr>],
     cs_Areas = [], cs_Scenes = [], cs_Dashboards = 0, cs_EntityAreas = []\<rparr>"

definition greetScript :: Script where
  "greetScript = \<lparr>s_Name = ''greet'', s_Params =
     [\<lparr>p_Name = ''who'', p_Type = TYPE_STRING, p_Required = True, p_Default = None\<rparr>,
      \<lparr>p_Name = ''times'', p_Type = TYPE_INT, p_Required = False, p_Default = Some (VInt 3)\<rparr>], s_Handler = ''pass''\<rparr>"

lemma greet_compiled: "CompileScripts (\<lambda>s. None) (\<lambda>h. None) greetSnapshot = Inr [''greet'' \<mapsto> greetScript]"
  by (simp add: CompileScripts_def greetSnapshot_def greetScript_def compileParam_def Coerce_def parseInt64_def digitsValue_def
      isDigit_def in_int64_def Let_def)

theorem script_args_exact_witness:
  "(\<exists>out. validateArgs (\<lambda>s. None) greetScript [(''who'', ''Bo'')] = Inr out \<and> out ''times'' \<noteq> None) \<and>
   (\<forall>out. validateArgs (\<lambda>s. None) greetScript [(''times'', ''2'')] \<noteq> Inr out)"
proof -
  note args = script_args_exact [OF greet_compiled, of "''greet''" greetScript, simplified]
  have ok: "list_all (acceptable (\<lambda>s. None) (map_of [(''who'', ''Bo'')])) (s_Params greetScript)"
    by (simp add: acceptable_def given_def greetScript_def Coerce_def)
  have times: "boundTo (\<lambda>s. None) (map_of [(''who'', ''Bo'')])
      \<lparr>p_Name = ''times'', p_Type = TYPE_INT, p_Required = False, p_Default = Some (VInt 3)\<rparr> \<noteq> None"
    by (simp add: boundTo_def given_def)
  have "\<not> list_all (acceptable (\<lambda>s. None) (map_of [(''times'', ''2'')])) (s_Params greetScript)"
    by (simp add: acceptable_def given_def greetScript_def)
  then have "\<forall>out. validateArgs (\<lambda>s. None) greetScript [(''times'', ''2'')] \<noteq> Inr out" using args [of "[(''times'', ''2'')]"] by blast
  moreover obtain out where out: "validateArgs (\<lambda>s. None) greetScript [(''who'', ''Bo'')] = Inr out"
    using args [of "[(''who'', ''Bo'')]"] ok by (auto simp: greetScript_def)
  moreover have "out ''times'' \<noteq> None"
  proof
    assume "out ''times'' = None"
    with args [of "[(''who'', ''Bo'')]"] out
    have "boundTo (\<lambda>s. None) (map_of [(''who'', ''Bo'')])
      \<lparr>p_Name = ''times'', p_Type = TYPE_INT, p_Required = False, p_Default = Some (VInt 3)\<rparr> = None"
      by (simp add: greetScript_def)
    with times show False by simp
  qed
  ultimately show ?thesis by blast
qed

definition twoRuns :: scriptEngine where
  "twoRuns = (let call = (\<lambda>e. snd (beginCall (\<lambda>s. None) (\<lambda>u. None) ''f'' True ''greet'' [(''who'', ''Bo'')] ''automation:a'' ''run'' e)) in
     call (call (NewEngine [''greet'' \<mapsto> greetScript] True)))"

lemma twoRuns_heap:
  "length (se_heap twoRuns) = 2" "newest twoRuns ''run'' 1" "\<not> run_done (se_heap twoRuns ! 0)" "\<not> run_done (se_heap twoRuns ! 1)"
  by (simp_all add: twoRuns_def Let_def beginCall_def validateArgs_def greetScript_def Coerce_def registerRun_def NewEngine_def newest_def)


section \<open>The handlers\<close>

text \<open>The names of the scripts, sorted, and the endpoint that lists them.\<close>

definition Engine_List :: "scriptEngine \<Rightarrow> string list" where
  "Engine_List e = sorted_list_of_set (dom (se_scripts e))"

definition scriptRunner_List :: "PageReq \<Rightarrow> (scriptEngine, (string list \<times> Cursor) outcome) step" where
  "scriptRunner_List page e = (Inr (paginate (Engine_List e) page), e)"

definition ScriptService_List :: "PageRequest option \<Rightarrow> scriptEngine \<Rightarrow> (string list \<times> string) reply \<times> scriptEngine" where
  "ScriptService_List = listReply ''list_failed'' scriptRunner_List"

text \<open>The answer of \<open>Run\<close> to a call that was refused, and to the result of one that was executed.\<close>

definition ScriptService_Run :: "error + CallResult \<times> error option \<Rightarrow> ConnectError + string" where
  "ScriptService_Run called =
     (case called of
        Inl err \<Rightarrow> Inl (ToConnect (asApi err) ''run_failed'')
      | Inr (result, Some err) \<Rightarrow> Inl (ToConnect (asApi err) ''run_failed'')
      | Inr (result, None) \<Rightarrow> Inr (cr_CorrelationID result))"

definition ScriptService_Cancel :: "error option \<Rightarrow> ConnectError option" where
  "ScriptService_Cancel res =
     (case res of
        None \<Rightarrow> None
      | Some err \<Rightarrow> Some (ToConnect (if err = ''script: unknown run'' then ErrRunNotFound else asApi err) ''cancel_failed''))"

record MCPEvalRequested =
  me_PrincipalId :: string
  me_SessionId :: string
  me_Source :: string
  me_ResultSha256Hex :: string
  me_Truncated :: bool
  me_ResultBytes :: nat
  me_Error :: string

definition truncationMarker :: "nat \<Rightarrow> string" where
  "truncationMarker fullBytes = ''...[truncated; result was '' @ showNat fullBytes @ '' bytes]''"

definition capOutput :: "bool \<Rightarrow> nat \<Rightarrow> string \<Rightarrow> string \<times> bool" where
  "capOutput fromMCP cap stdout =
     (let fullBytes = length stdout mod 2 ^ 32; marker = truncationMarker fullBytes in
      if fromMCP \<and> cap > 0 \<and> fullBytes > cap then (take (cap - length marker) stdout @ marker, True) else (stdout, False))"

text \<open>
  \<open>Eval\<close> on the result of the runtime: the answer, and the event that is appended. \<open>cap\<close> is 0 when the limit is not
  configured; \<open>sha\<close> is the SHA-256 sum in hexadecimal.
\<close>

definition ScriptService_Eval ::
  "(string \<Rightarrow> string) \<Rightarrow> bool \<Rightarrow> nat \<Rightarrow> string \<Rightarrow> string \<Rightarrow> string \<Rightarrow> error option \<Rightarrow> string \<Rightarrow>
     (ConnectError + string \<times> bool) \<times> MCPEvalRequested list" where
  "ScriptService_Eval sha fromMCP cap principalID sessionID expr runErr stdout =
     (let (out, truncated) = capOutput fromMCP cap stdout in
      (case runErr of Some err \<Rightarrow> Inl (ToConnect (asApi err) ''eval_failed'') | None \<Rightarrow> Inr (out, truncated),
       if fromMCP
       then [\<lparr>me_PrincipalId = principalID, me_SessionId = sessionID, me_Source = expr, me_ResultSha256Hex = sha out,
               me_Truncated = truncated, me_ResultBytes = length stdout mod 2 ^ 32,
               me_Error = (case runErr of None \<Rightarrow> '''' | Some err \<Rightarrow> err)\<rparr>]
       else []))"

text \<open>
  The output that an agent sees is within the limit, or is the marker alone, which does not count; what is within the
  limit is not changed, and what is cut is a prefix.
\<close>

lemma capOutput_bound:
  assumes "capOutput True cap stdout = (out, truncated)" "0 < cap" "length stdout < 2 ^ 32"
  shows "length out \<le> max cap (length (truncationMarker (length stdout)))"
    and "length stdout \<le> cap \<Longrightarrow> out = stdout \<and> \<not> truncated"
    and "truncated \<Longrightarrow> \<exists>k. out = take k stdout @ truncationMarker (length stdout)"
  using assms by (auto simp: capOutput_def Let_def split: if_splits)

lemma capOutput_exceeds: "length (fst (capOutput True 10 (replicate 11 (CHR ''x'')))) = 35"
  by (simp add: capOutput_def truncationMarker_def Let_def showNat.simps [of 11] showNat.simps [of "Suc 0"])

text \<open>The sentinel for an unknown script is not translated: the client gets an internal error.\<close>

lemma unknown_script_internal:
  assumes "se_scripts e name = None" "fst (beginCall pf uuidErr fresh logged name args invokedBy shared e) = Inl err"
  shows "ScriptService_Run (Inl err) = Inl \<lparr>ce_Code = CodeInternal, ce_Message = ''internal error'', ce_Reason = ''run_failed''\<rparr>"
proof -
  have "err = ''script: unknown name''" using assms by (simp add: beginCall_def)
  then show ?thesis by (simp add: ScriptService_Run_def ToConnect_def asApi_def suffix_to_prefix)
qed

end
